(* ===== verification/Cdsl_Prelude.thy ===== *)
theory Cdsl_Prelude
  imports Main "HOL-Library.Word" "HOL-Library.Signed_Division"
begin

section \<open>Shared types, collections and generic lemmas\<close>

text \<open>
  The prelude of the development: the machine integer types of the C sources
  (\<open>int\<close>, \<open>int64_t\<close>, \<open>time_t\<close>, \<open>unsigned int\<close> on an LP64 target), the
  representability predicates behind every overflow check, C's truncating division
  (\<open>sdiv\<close>), C truth values, decimal printing as \<open>snprintf("%d")\<close> does it, and the
  lemmas about lists and words that several components share.
\<close>

subsection \<open>Collections of facts\<close>

named_theorems range_simps \<open>representability of results in 32 and 64 bits\<close>
named_theorems vm_frame \<open>fields of the VM record an operation leaves alone\<close>
named_theorems vm_mono \<open>the error state of the VM is never cleared\<close>

subsection \<open>Machine integers\<close>

type_synonym i32 = "32 word"
type_synonym i64 = "64 word"

definition in_i32 :: "int \<Rightarrow> bool" where
  "in_i32 x \<longleftrightarrow> - 2147483648 \<le> x \<and> x \<le> 2147483647"

definition in_i64 :: "int \<Rightarrow> bool" where
  "in_i64 x \<longleftrightarrow> - 9223372036854775808 \<le> x \<and> x \<le> 9223372036854775807"

lemma sint_word_of_int_i32 [simp, range_simps]:
  "in_i32 x \<Longrightarrow> sint (word_of_int x :: i32) = x"
  by (simp add: in_i32_def sint_sbintrunc' signed_take_bit_int_eq_self)

lemma sint_word_of_int_i64 [simp, range_simps]:
  "in_i64 x \<Longrightarrow> sint (word_of_int x :: i64) = x"
  by (simp add: in_i64_def sint_sbintrunc' signed_take_bit_int_eq_self)

lemma in_i32_sint [simp, intro, range_simps]: "in_i32 (sint (w :: i32))"
  using sint_range_size [of w] by (simp add: in_i32_def word_size)

lemma in_i64_sint [simp, intro, range_simps]: "in_i64 (sint (w :: i64))"
  using sint_range_size [of w] by (simp add: in_i64_def word_size)

lemma in_i32_in_i64 [intro, range_simps]: "in_i32 x \<Longrightarrow> in_i64 x"
  by (simp add: in_i32_def in_i64_def)

lemma in_i64_sint32 [simp, range_simps]: "in_i64 (sint (w :: i32))"
  by (rule in_i32_in_i64) simp

lemma word_of_int_sint_i32 [simp]: "word_of_int (sint (w :: i32)) = w"
  by simp

lemma word_of_int_sint_i64 [simp]: "word_of_int (sint (w :: i64)) = w"
  by simp

lemma sint_eq_iff_i32: "sint (a :: i32) = sint b \<longleftrightarrow> a = b"
  by (metis word_of_int_sint_i32)

text \<open>
  A sum, difference or product of two 32-bit values fits 64 bits: the reason the C code can
  compute 32-bit results in an \<open>int64_t\<close> before it checks their range.
\<close>

lemma i32_add_in_i64 [range_simps]: "in_i32 a \<Longrightarrow> in_i32 b \<Longrightarrow> in_i64 (a + b)"
  by (simp add: in_i32_def in_i64_def)

lemma i32_sub_in_i64 [range_simps]: "in_i32 a \<Longrightarrow> in_i32 b \<Longrightarrow> in_i64 (a - b)"
  by (simp add: in_i32_def in_i64_def)

lemma i32_mult_abs_bound:
  assumes "in_i32 a" and "in_i32 b"
  shows "\<bar>a * b\<bar> \<le> 4611686018427387904"
proof -
  have "\<bar>a\<bar> \<le> 2147483648" and "\<bar>b\<bar> \<le> 2147483648"
    using assms by (auto simp: in_i32_def)
  then have "\<bar>a\<bar> * \<bar>b\<bar> \<le> 2147483648 * 2147483648"
    by (intro mult_mono) auto
  then show ?thesis by (simp add: abs_mult)
qed

lemma i32_mult_in_i64 [range_simps]: "in_i32 a \<Longrightarrow> in_i32 b \<Longrightarrow> in_i64 (a * b)"
  using i32_mult_abs_bound [of a b] by (auto simp: in_i64_def abs_le_iff)

subsection \<open>Truncating division\<close>

lemma sdiv_nonneg: "0 \<le> a \<Longrightarrow> 0 < b \<Longrightarrow> a sdiv b = a div (b :: int)"
  by (auto simp: signed_divide_int_def sgn_if)

lemma sdiv_pos_neg: "0 \<le> a \<Longrightarrow> b < 0 \<Longrightarrow> a sdiv b = - (a div (- b :: int))"
  by (auto simp: signed_divide_int_def sgn_if)

lemma sdiv_neg_pos: "a < 0 \<Longrightarrow> 0 < b \<Longrightarrow> a sdiv b = - ((- a) div (b :: int))"
  by (auto simp: signed_divide_int_def sgn_if)

lemma sdiv_neg_neg: "a < 0 \<Longrightarrow> b < 0 \<Longrightarrow> a sdiv b = (- a) div (- b :: int)"
  by (auto simp: signed_divide_int_def sgn_if)

lemma sdiv_abs_le: "\<bar>a sdiv b\<bar> \<le> \<bar>a :: int\<bar>"
  using sdiv_int_range [of a b] by auto

lemma sdiv_mult_cancel: "0 < u \<Longrightarrow> (i * u) sdiv u = (i :: int)"
proof (cases "0 \<le> i")
  case False
  assume "0 < u"
  with False have "i * u < 0" by (simp add: mult_neg_pos)
  then have "(i * u) sdiv u = - ((- i * u) div u)"
    using \<open>0 < u\<close> by (simp add: sdiv_neg_pos)
  moreover have "(- i * u) div u = - i" using \<open>0 < u\<close> by (intro nonzero_mult_div_cancel_right) simp
  ultimately show ?thesis by simp
qed (simp add: sdiv_nonneg)

lemma sdiv_in_i32:
  assumes "in_i32 a" and "in_i32 b" and "\<not> (a = - 2147483648 \<and> b = - 1)"
  shows "in_i32 (a sdiv b)"
proof (cases "a = - 2147483648 \<and> 0 > b")
  case True
  with assms have "b \<le> - 2" by auto
  with True have "a sdiv b = 2147483648 div (- b)"
    using \<open>b \<le> - 2\<close> sdiv_neg_neg [of a b] by simp
  moreover have "0 \<le> 2147483648 div (- b)" and "2147483648 div (- b) \<le> 2147483648 div 2"
    using \<open>b \<le> - 2\<close> zdiv_mono2 [of 2147483648 2 "- b"]
    by (simp_all add: pos_imp_zdiv_nonneg_iff)
  ultimately show ?thesis by (simp add: in_i32_def)
next
  case False
  then show ?thesis
  proof (cases "a = - 2147483648")
    case True
    with False have "0 \<le> b" by simp
    then have "a sdiv b \<le> 0"
      using True sdiv_neg_pos [of a b] by (cases "b = 0") (auto simp: pos_imp_zdiv_nonneg_iff)
    with sdiv_abs_le [of a b] True show ?thesis by (simp add: in_i32_def)
  next
    case nm: False
    with assms(1) have "\<bar>a\<bar> \<le> 2147483647" by (auto simp: in_i32_def abs_le_iff)
    with sdiv_abs_le [of a b] show ?thesis by (auto simp: in_i32_def abs_le_iff)
  qed
qed

lemma sdiv_in_i64:
  assumes "in_i64 a" and "in_i64 b" and "\<not> (a = - 9223372036854775808 \<and> b = - 1)"
  shows "in_i64 (a sdiv b)"
proof (cases "a = - 9223372036854775808")
  case nm: False
  with assms(1) have "\<bar>a\<bar> \<le> 9223372036854775807" by (auto simp: in_i64_def abs_le_iff)
  with sdiv_abs_le [of a b] show ?thesis unfolding in_i64_def by linarith
next
  case a: True
  show ?thesis
  proof (cases "b < 0")
    case True
    with assms a have "b \<le> - 2" by auto
    moreover have "a sdiv b = 9223372036854775808 div (- b)"
      using True a sdiv_neg_neg [of a b] by simp
    moreover have "0 \<le> 9223372036854775808 div (- b)"
      and "9223372036854775808 div (- b) \<le> 9223372036854775808 div 2"
      using \<open>b \<le> - 2\<close> zdiv_mono2 [of 9223372036854775808 2 "- b"]
      by (simp_all add: pos_imp_zdiv_nonneg_iff)
    ultimately show ?thesis by (simp add: in_i64_def)
  next
    case False
    then have "a sdiv b \<le> 0"
      using a sdiv_neg_pos [of a b] by (cases "b = 0") (auto simp: pos_imp_zdiv_nonneg_iff)
    with sdiv_abs_le [of a b] a show ?thesis by (simp add: in_i64_def)
  qed
qed

subsection \<open>C truth values\<close>

definition c_bool :: "bool \<Rightarrow> i32" where
  "c_bool b = (if b then 1 else 0)"

definition c_true :: "i32 \<Rightarrow> bool" where
  "c_true w \<longleftrightarrow> w \<noteq> 0"

lemma c_true_c_bool [simp]: "c_true (c_bool b) = b"
  by (simp add: c_true_def c_bool_def)

lemma c_true_num [simp]: "c_true 1" "\<not> c_true 0"
  by (simp_all add: c_true_def)

lemma c_bool_simps [simp]: "c_bool True = 1" "c_bool False = 0"
  by (simp_all add: c_bool_def)

lemma c_bool_cases: "c_bool b = 0 \<or> c_bool b = 1"
  by (simp add: c_bool_def)

lemma c_bool_eq_iff [simp]: "c_bool a = c_bool b \<longleftrightarrow> a = b"
  by (simp add: c_bool_def)

subsection \<open>Decimal printing\<close>

fun dec_of_nat :: "nat \<Rightarrow> string" where
  "dec_of_nat n = (if n < 10 then [char_of (48 + n)]
     else dec_of_nat (n div 10) @ [char_of (48 + n mod 10)])"

declare dec_of_nat.simps [simp del]

definition dec_of_int :: "int \<Rightarrow> string" where
  "dec_of_int i = (if i < 0 then CHR ''-'' # dec_of_nat (nat (- i)) else dec_of_nat (nat i))"

lemma dec_of_nat_not_Nil [simp]: "dec_of_nat n \<noteq> []"
  by (subst dec_of_nat.simps) simp

subsection \<open>C strings\<close>

text \<open>\<open>strcmp\<close>: only the sign of the result is specified; strings hold no NUL.\<close>

fun c_strcmp :: "string \<Rightarrow> string \<Rightarrow> int" where
  "c_strcmp [] [] = 0"
| "c_strcmp [] (c # cs) = - 1"
| "c_strcmp (c # cs) [] = 1"
| "c_strcmp (c # cs) (d # ds) =
     (if c = d then c_strcmp cs ds
      else if (of_char c :: nat) < of_char d then - 1 else 1)"

lemma c_strcmp_eq_0 [simp]: "c_strcmp s t = 0 \<longleftrightarrow> s = t"
  by (induction s t rule: c_strcmp.induct) auto

text \<open>\<open>strncmp\<close>, \<open>strstr\<close> (as a test) and the character classes of the C locale.\<close>

definition c_strncmp :: "string \<Rightarrow> string \<Rightarrow> nat \<Rightarrow> int" where
  "c_strncmp s t n = c_strcmp (take n s) (take n t)"

fun c_strstr :: "string \<Rightarrow> string \<Rightarrow> bool" where
  "c_strstr [] needle = (needle = [])"
| "c_strstr (c # cs) needle =
     (if c_strncmp (c # cs) needle (length needle) = 0 then True else c_strstr cs needle)"

definition char_code :: "char \<Rightarrow> nat" where
  "char_code c = of_char c"

definition c_isspace :: "char \<Rightarrow> bool" where
  "c_isspace c \<longleftrightarrow> char_code c = 32 \<or> (9 \<le> char_code c \<and> char_code c \<le> 13)"

definition c_isdigit :: "char \<Rightarrow> bool" where
  "c_isdigit c \<longleftrightarrow> 48 \<le> char_code c \<and> char_code c \<le> 57"

definition c_toupper :: "char \<Rightarrow> char" where
  "c_toupper c = (if 97 \<le> char_code c \<and> char_code c \<le> 122 then char_of (char_code c - 32) else c)"

definition c_tolower :: "char \<Rightarrow> char" where
  "c_tolower c = (if 65 \<le> char_code c \<and> char_code c \<le> 90 then char_of (char_code c + 32) else c)"

subsection \<open>\<open>strtol\<close> in base 10\<close>

record strtol_result =
  stl_value :: int
  stl_end :: string
  stl_range_error :: bool

definition digits_value :: "string \<Rightarrow> int" where
  "digits_value ds = foldl (\<lambda>acc c. acc * 10 + int (char_code c - 48)) 0 ds"

text \<open>
  Skips white space, takes an optional sign and the digits; the result saturates at the
  range of a 64-bit \<open>long\<close> with \<open>errno = ERANGE\<close>. \<open>None\<close>: no digits, nothing is converted.
\<close>

definition c_strtol :: "string \<Rightarrow> strtol_result option" where
  "c_strtol s =
     (let s1 = dropWhile c_isspace s;
          neg = (s1 \<noteq> [] \<and> hd s1 = CHR ''-'');
          s2 = (if s1 \<noteq> [] \<and> (hd s1 = CHR ''-'' \<or> hd s1 = CHR ''+'') then tl s1 else s1);
          ds = takeWhile c_isdigit s2;
          v = (if neg then - digits_value ds else digits_value ds)
      in if ds = [] then None
         else Some \<lparr>stl_value = max (- 9223372036854775808) (min 9223372036854775807 v),
                    stl_end = dropWhile c_isdigit s2,
                    stl_range_error = (\<not> in_i64 v)\<rparr>)"

definition c_atoi :: "string \<Rightarrow> i32" where
  "c_atoi s = (case c_strtol s of None \<Rightarrow> 0 | Some r \<Rightarrow> word_of_int (stl_value r))"

text \<open>\<open>strstr\<close>: the rest of the text from the first occurrence.\<close>

fun find_text :: "string \<Rightarrow> string \<Rightarrow> string option" where
  "find_text [] needle = (if needle = [] then Some [] else None)"
| "find_text (c # cs) needle =
     (if c_strncmp (c # cs) needle (length needle) = 0 then Some (c # cs) else find_text cs needle)"

lemma find_text_first:
  assumes "needle \<noteq> []" and "\<not> c_strstr (pre @ butlast needle) needle"
  shows "find_text (pre @ needle @ r) needle = Some (needle @ r)"
  using assms(2)
proof (induction pre)
  case Nil
  have "c_strncmp (needle @ r) needle (length needle) = 0" by (simp add: c_strncmp_def)
  with assms(1) show ?case by (cases needle) simp_all
next
  case (Cons c pre)
  let ?s = "c # pre @ butlast needle"
  have "\<not> c_strncmp ?s needle (length needle) = 0" and IH: "\<not> c_strstr (pre @ butlast needle) needle"
    using Cons.prems by (auto split: if_splits)
  then have "take (length needle) ?s \<noteq> needle" by (simp add: c_strncmp_def)
  moreover have "take (length needle) (c # pre @ needle @ r) = take (length needle) ?s"
    using assms(1) by (cases needle rule: rev_cases) (auto simp: take_Cons')
  ultimately have "c_strncmp (c # pre @ needle @ r) needle (length needle) \<noteq> 0"
    by (simp add: c_strncmp_def)
  with Cons.IH [OF IH] show ?case by simp
qed

text \<open>The line \<open>fgets\<close> reads into a buffer of \<open>sz\<close> bytes.\<close>

definition fgets_line :: "nat \<Rightarrow> string \<Rightarrow> string" where
  "fgets_line sz input =
     (let t = takeWhile (\<lambda>c. c \<noteq> CHR 0x0A) input
      in if length t < sz - 1 then take (length t + 1) input else take (sz - 1) input)"

lemma fgets_line_progress: "input \<noteq> [] \<Longrightarrow> 1 < sz \<Longrightarrow> 0 < length (fgets_line sz input)"
  by (simp add: fgets_line_def Let_def)

subsection \<open>Lists and options\<close>

lemma option_eqI: "(\<And>w. x = Some w \<longleftrightarrow> y = Some w) \<Longrightarrow> x = y"
  by (metis not_None_eq)

lemma list_update_append_length [simp]: "(xs @ y # zs)[length xs := z] = xs @ z # zs"
  by (induction xs) auto

lemma sorted_wrt_takeWhile_dropWhile:
  "sorted_wrt R xs \<Longrightarrow> sorted_wrt R (takeWhile P xs) \<and> sorted_wrt R (dropWhile P xs)"
  by (metis sorted_wrt_append takeWhile_dropWhile_id)

end
