(* ===== verification/Cdsl_Float64.thy ===== *)
theory Cdsl_Float64
  imports Cdsl_Prelude
begin

section \<open>C doubles: IEEE 754 binary64 on 64-bit words\<close>

text \<open>
  The evaluator computes with C \<open>double\<close>s (FLOAT values, the numeric built-ins, date
  differences, elapsed times). A double is its 64-bit pattern. Arithmetic is exact
  arithmetic on integers followed by one rounding to nearest, ties to even: every finite
  double is an integer multiple of \<open>2 ^ - 1074\<close>, so \<open>f64_scaled\<close> reads it as that integer.
  NaNs are collapsed to one quiet NaN. The last part shows that \<open>int\<close> values survive the
  conversion to double exactly, which the comparisons and min/max of the engine rely on.
\<close>

type_synonym f64 = "64 word"

text \<open>The scaling factor \<open>2 ^ 1074\<close>: the value 1.0 in units of the least double.\<close>

definition f64_unit :: nat where
  "f64_unit = 2 ^ 1074"

lemma f64_unit_pos [simp]: "0 < f64_unit" "f64_unit \<noteq> 0"
  by (simp_all add: f64_unit_def)

subsection \<open>Reading a bit pattern\<close>

definition f64_sign :: "f64 \<Rightarrow> bool" where
  "f64_sign w \<longleftrightarrow> 2 ^ 63 \<le> unat w"

definition f64_expo :: "f64 \<Rightarrow> nat" where
  "f64_expo w = (unat w div 2 ^ 52) mod 2048"

definition f64_frac :: "f64 \<Rightarrow> nat" where
  "f64_frac w = unat w mod 2 ^ 52"

definition f64_isnan :: "f64 \<Rightarrow> bool" where
  "f64_isnan w \<longleftrightarrow> f64_expo w = 2047 \<and> f64_frac w \<noteq> 0"

definition f64_isinf :: "f64 \<Rightarrow> bool" where
  "f64_isinf w \<longleftrightarrow> f64_expo w = 2047 \<and> f64_frac w = 0"

definition f64_isfinite :: "f64 \<Rightarrow> bool" where
  "f64_isfinite w \<longleftrightarrow> f64_expo w \<noteq> 2047"

definition f64_mag :: "f64 \<Rightarrow> nat" where
  "f64_mag w = (if f64_expo w = 0 then f64_frac w
     else (f64_frac w + 2 ^ 52) * 2 ^ (f64_expo w - 1))"

definition f64_scaled :: "f64 \<Rightarrow> int" where
  "f64_scaled w = (if f64_sign w then - int (f64_mag w) else int (f64_mag w))"

subsection \<open>Rounding\<close>

fun nbits :: "nat \<Rightarrow> nat" where
  "nbits n = (if n = 0 then 0 else Suc (nbits (n div 2)))"

declare nbits.simps [simp del]

definition round_half_even :: "nat \<Rightarrow> nat \<Rightarrow> nat" where
  "round_half_even n d =
     (let a = n div d; r = n mod d
      in if 2 * r < d \<or> (2 * r = d \<and> even a) then a else Suc a)"

text \<open>
  \<open>f64_round s n d\<close> is the double nearest to \<open>(n / d) * 2 ^ - 1074\<close> with sign bit \<open>s\<close>. The
  biased exponent and the fraction are one number, so a carry out of the mantissa moves to
  the next exponent by itself and everything from \<open>2047 * 2 ^ 52\<close> on is infinity.
\<close>

definition f64_round :: "bool \<Rightarrow> nat \<Rightarrow> nat \<Rightarrow> f64" where
  "f64_round s n d =
     (let q = nbits (n div d) - 53;
          bits = q * 2 ^ 52 + round_half_even n (d * 2 ^ q)
      in of_nat (min bits (2047 * 2 ^ 52) + (if s then 2 ^ 63 else 0)))"

definition f64_inf :: "bool \<Rightarrow> f64" where
  "f64_inf s = of_nat (2047 * 2 ^ 52 + (if s then 2 ^ 63 else 0))"

definition f64_zero :: "bool \<Rightarrow> f64" where
  "f64_zero s = of_nat (if s then 2 ^ 63 else 0)"

definition f64_nan :: f64 where
  "f64_nan = of_nat (2047 * 2 ^ 52 + 2 ^ 51)"

subsection \<open>Arithmetic, comparison and conversions\<close>

definition f64_of_int :: "int \<Rightarrow> f64" where
  "f64_of_int i = f64_round (i < 0) (nat \<bar>i\<bar> * f64_unit) 1"

definition f64_neg :: "f64 \<Rightarrow> f64" where
  "f64_neg a = (if f64_sign a then a - 2 ^ 63 else a + 2 ^ 63)"

definition f64_abs :: "f64 \<Rightarrow> f64" where
  "f64_abs a = (if f64_sign a then a - 2 ^ 63 else a)"

definition f64_add :: "f64 \<Rightarrow> f64 \<Rightarrow> f64" where
  "f64_add a b =
     (if f64_isnan a \<or> f64_isnan b then f64_nan
      else if f64_isinf a then (if f64_isinf b \<and> f64_sign a \<noteq> f64_sign b then f64_nan else a)
      else if f64_isinf b then b
      else let s = f64_scaled a + f64_scaled b in
        if s = 0 then f64_zero (f64_sign a \<and> f64_sign b)
        else f64_round (s < 0) (nat \<bar>s\<bar>) 1)"

definition f64_sub :: "f64 \<Rightarrow> f64 \<Rightarrow> f64" where
  "f64_sub a b = f64_add a (f64_neg b)"

definition f64_mul :: "f64 \<Rightarrow> f64 \<Rightarrow> f64" where
  "f64_mul a b =
     (let s = (f64_sign a \<noteq> f64_sign b) in
      if f64_isnan a \<or> f64_isnan b then f64_nan
      else if f64_isinf a \<or> f64_isinf b then
        (if f64_mag a = 0 \<or> f64_mag b = 0 then f64_nan else f64_inf s)
      else f64_round s (f64_mag a * f64_mag b) f64_unit)"

definition f64_div :: "f64 \<Rightarrow> f64 \<Rightarrow> f64" where
  "f64_div a b =
     (let s = (f64_sign a \<noteq> f64_sign b) in
      if f64_isnan a \<or> f64_isnan b then f64_nan
      else if f64_isinf a then (if f64_isinf b then f64_nan else f64_inf s)
      else if f64_isinf b then f64_zero s
      else if f64_mag b = 0 then (if f64_mag a = 0 then f64_nan else f64_inf s)
      else f64_round s (f64_mag a * f64_unit) (f64_mag b))"

definition f64_eq :: "f64 \<Rightarrow> f64 \<Rightarrow> bool" where
  "f64_eq a b \<longleftrightarrow> \<not> f64_isnan a \<and> \<not> f64_isnan b \<and> f64_scaled a = f64_scaled b"

definition f64_lt :: "f64 \<Rightarrow> f64 \<Rightarrow> bool" where
  "f64_lt a b \<longleftrightarrow> \<not> f64_isnan a \<and> \<not> f64_isnan b \<and> f64_scaled a < f64_scaled b"

definition f64_le :: "f64 \<Rightarrow> f64 \<Rightarrow> bool" where
  "f64_le a b \<longleftrightarrow> \<not> f64_isnan a \<and> \<not> f64_isnan b \<and> f64_scaled a \<le> f64_scaled b"

definition f64_fmax :: "f64 \<Rightarrow> f64 \<Rightarrow> f64" where
  "f64_fmax a b =
     (if f64_isnan a then b else if f64_isnan b then a else if f64_lt a b then b else a)"

definition f64_trunc :: "f64 \<Rightarrow> int" where
  "f64_trunc a = f64_scaled a sdiv int f64_unit"

definition f64_round_away :: "f64 \<Rightarrow> int" where
  "f64_round_away a =
     (let s = f64_scaled a in sgn s * ((2 * \<bar>s\<bar> + int f64_unit) div (2 * int f64_unit)))"

text \<open>
  \<open>(int)f\<close>: truncation when the result is representable, otherwise undefined behaviour, for
  which the parameter \<open>ub\<close> stands.
\<close>

definition f64_to_i32 :: "(f64 \<Rightarrow> i32) \<Rightarrow> f64 \<Rightarrow> i32" where
  "f64_to_i32 ub f =
     (if f64_isfinite f \<and> in_i32 (f64_trunc f) then word_of_int (f64_trunc f) else ub f)"

subsection \<open>The bit length\<close>

lemma nbits_0 [simp]: "nbits 0 = 0"
  by (simp add: nbits.simps)

lemma nbits_pos: "0 < n \<Longrightarrow> nbits n = Suc (nbits (n div 2))"
  by (simp add: nbits.simps [of n])

lemma less_two_power_nbits: "n < 2 ^ nbits n"
proof (induction n rule: nbits.induct)
  case (1 n)
  show ?case
  proof (cases "n = 0")
    case False
    with 1 have "n div 2 < 2 ^ nbits (n div 2)" by blast
    with False show ?thesis by (simp add: nbits_pos)
  qed simp
qed

lemma two_power_nbits_le: "0 < n \<Longrightarrow> 2 ^ nbits n \<le> 2 * n"
proof (induction n rule: nbits.induct)
  case (1 n)
  show ?case
  proof (cases "n = 1")
    case True
    then show ?thesis by (simp add: nbits_pos)
  next
    case False
    with 1 have "2 ^ nbits (n div 2) \<le> 2 * (n div 2)" by auto
    with 1 show ?thesis by (simp add: nbits_pos)
  qed
qed

lemma nbits_le: "n < 2 ^ k \<Longrightarrow> nbits n \<le> k"
proof (rule ccontr)
  assume "n < 2 ^ k" and "\<not> nbits n \<le> k"
  then have "Suc k \<le> nbits n" by simp
  then have "(2::nat) ^ Suc k \<le> 2 ^ nbits n" by (rule power_increasing) simp
  moreover have "0 < n" using \<open>\<not> nbits n \<le> k\<close> by (cases "n = 0") auto
  ultimately have "2 ^ k \<le> n" using two_power_nbits_le [of n] by simp
  with \<open>n < 2 ^ k\<close> show False by simp
qed

subsection \<open>Exact conversions\<close>

lemma round_half_even_exact: "0 < d \<Longrightarrow> d dvd n \<Longrightarrow> round_half_even n d = n div d"
  by (simp add: round_half_even_def Let_def mod_eq_0_iff_dvd [THEN iffD2])

lemma f64_fields_of_bits:
  fixes s :: bool
  assumes "b < 2047 * 2 ^ 52"
  defines "w \<equiv> (of_nat (b + (if s then 2 ^ 63 else 0)) :: f64)"
  shows "f64_sign w = s" and "f64_expo w = b div 2 ^ 52" and "f64_frac w = b mod 2 ^ 52"
proof -
  have u: "unat w = b + (if s then 2 ^ 63 else 0)"
    using assms(1) unfolding w_def by (subst unat_of_nat) (auto simp: take_bit_nat_eq_self)
  show "f64_sign w = s" using assms(1) by (simp add: f64_sign_def u)
  have "(b + 2 ^ 63) div 2 ^ 52 = b div 2 ^ 52 + 2048"
    using div_mult_self2 [of "2 ^ 52" b "2048 :: nat"] by simp
  moreover have "b div 2 ^ 52 < 2048" using assms(1) by (simp add: less_mult_imp_div_less)
  ultimately show "f64_expo w = b div 2 ^ 52" by (simp add: f64_expo_def u)
  have "(b + 2 ^ 63) mod 2 ^ 52 = b mod 2 ^ 52"
    using mod_mult_self2 [of b "2 ^ 52" "2048 :: nat"] by (simp add: mult.commute)
  then show "f64_frac w = b mod 2 ^ 52" by (simp add: f64_frac_def u)
qed

lemma f64_round_exact:
  assumes dvd: "2 ^ (nbits n - 53) dvd n" and small: "nbits n < 2098"
  shows "f64_mag (f64_round s n 1) = n" and "f64_sign (f64_round s n 1) = s"
    and "f64_isfinite (f64_round s n 1)"
proof -
  define q where "q = nbits n - 53"
  define m where "m = n div 2 ^ q"
  have nm: "n = m * 2 ^ q" using dvd by (simp add: m_def q_def)
  have m_lt: "m < 2 ^ 53"
  proof (cases "nbits n \<le> 53")
    case True
    then have "(2::nat) ^ nbits n \<le> 2 ^ 53" by (rule power_increasing) simp
    with True less_two_power_nbits [of n] show ?thesis by (simp add: m_def q_def)
  next
    case False
    then have "nbits n = 53 + q" by (simp add: q_def)
    with less_two_power_nbits [of n] nm have "m * 2 ^ q < 2 ^ 53 * 2 ^ q"
      by (simp add: power_add)
    then show ?thesis by simp
  qed
  have m_ge: "2 ^ 52 \<le> m" if "0 < q"
  proof -
    have nb: "nbits n = 53 + q" using that by (simp add: q_def)
    then have "0 < n" by (cases "n = 0") auto
    from two_power_nbits_le [OF this] nb nm have "2 * (2 ^ 52 * 2 ^ q) \<le> 2 * (m * 2 ^ q)"
      by (simp add: power_add)
    then show ?thesis by simp
  qed
  define b where "b = q * 2 ^ 52 + m"
  have q_le: "q \<le> 2044" using small by (simp add: q_def)
  have b_lt: "b < 2047 * 2 ^ 52" using q_le m_lt by (simp add: b_def)
  have r: "f64_round s n 1 = of_nat (b + (if s then 2 ^ 63 else 0))"
    using b_lt dvd
    using round_half_even_exact [of "2 ^ q" n]
    by (simp add: f64_round_def Let_def q_def [symmetric] m_def [symmetric])
      (simp add: b_def)
  note fields = f64_fields_of_bits [OF b_lt, of s, folded r]
  show "f64_sign (f64_round s n 1) = s" by (rule fields(1))
  have "b div 2 ^ 52 < 2047" using b_lt by (simp add: less_mult_imp_div_less)
  then show "f64_isfinite (f64_round s n 1)" unfolding f64_isfinite_def fields(2) by simp
  show "f64_mag (f64_round s n 1) = n"
  proof (cases "m < 2 ^ 52")
    case True
    with m_ge have "q = 0" by (cases q) auto
    with True nm show ?thesis unfolding f64_mag_def fields by (simp add: b_def)
  next
    case False
    then have "b = (m - 2 ^ 52) + (q + 1) * 2 ^ 52" and "m - 2 ^ 52 < 2 ^ 52"
      using m_lt by (simp_all add: b_def)
    moreover from this have "b mod 2 ^ 52 = (m - 2 ^ 52) mod 2 ^ 52"
      by (metis mod_mult_self1)
    ultimately have "b div 2 ^ 52 = q + 1" and "b mod 2 ^ 52 = m - 2 ^ 52" by simp_all
    with False nm show ?thesis unfolding f64_mag_def fields by simp
  qed
qed

lemma f64_of_int_bits:
  assumes "\<bar>i\<bar> \<le> 9007199254740992"
  shows "2 ^ (nbits (nat \<bar>i\<bar> * f64_unit) - 53) dvd nat \<bar>i\<bar> * f64_unit"
    and "nbits (nat \<bar>i\<bar> * f64_unit) < 2098"
proof -
  let ?n = "nat \<bar>i\<bar> * f64_unit"
  have le: "nat \<bar>i\<bar> \<le> 9007199254740992" using assms by (simp add: nat_le_iff)
  have "nat \<bar>i\<bar> < 2 ^ 54" using le by simp
  then have "?n < 2 ^ (54 + 1074)" unfolding power_add f64_unit_def by (rule mult_strict_right_mono) (rule zero_less_power, simp)
  from nbits_le [OF this] have nb: "nbits ?n \<le> 1128" by simp
  then show "nbits ?n < 2098" by simp
  show "2 ^ (nbits ?n - 53) dvd ?n"
  proof (cases "nat \<bar>i\<bar> = 2 ^ 53")
    case True
    then have "?n = 2 ^ (53 + 1074)" by (simp only: power_add f64_unit_def)
    moreover have "(2::nat) ^ (nbits ?n - 53) dvd 2 ^ (53 + 1074)"
      using nb by (intro le_imp_power_dvd) simp
    ultimately show ?thesis by metis
  next
    case False
    with le have "nat \<bar>i\<bar> < 2 ^ 53" by simp
    then have "?n < 2 ^ (53 + 1074)" unfolding power_add f64_unit_def by (rule mult_strict_right_mono) (rule zero_less_power, simp)
    from nbits_le [OF this] have "nbits ?n - 53 \<le> 1074" by simp
    then have "2 ^ (nbits ?n - 53) dvd f64_unit" unfolding f64_unit_def by (rule le_imp_power_dvd)
    then show ?thesis by (rule dvd_mult)
  qed
qed

lemma f64_scaled_of_int: "\<bar>i\<bar> \<le> 9007199254740992 \<Longrightarrow> f64_scaled (f64_of_int i) = i * int f64_unit"
  using f64_round_exact(1,2) [OF f64_of_int_bits, of i "i < 0"]
  by (cases "i < 0") (simp_all add: f64_scaled_def f64_of_int_def)

lemma f64_isfinite_of_int: "\<bar>i\<bar> \<le> 9007199254740992 \<Longrightarrow> f64_isfinite (f64_of_int i)"
  using f64_round_exact(3) [OF f64_of_int_bits, of i "i < 0"] by (simp add: f64_of_int_def)

lemma f64_not_nan_of_int: "\<bar>i\<bar> \<le> 9007199254740992 \<Longrightarrow> \<not> f64_isnan (f64_of_int i)"
  using f64_isfinite_of_int [of i] by (simp add: f64_isnan_def f64_isfinite_def)

lemma in_i32_exact: "in_i32 i \<Longrightarrow> \<bar>i\<bar> \<le> 9007199254740992"
  by (simp add: in_i32_def abs_le_iff)

lemma f64_lt_of_int [simp]:
  "in_i32 i \<Longrightarrow> in_i32 j \<Longrightarrow> f64_lt (f64_of_int i) (f64_of_int j) \<longleftrightarrow> i < j"
  by (simp add: f64_lt_def f64_not_nan_of_int f64_scaled_of_int in_i32_exact)

lemma f64_eq_of_int [simp]:
  "in_i32 i \<Longrightarrow> in_i32 j \<Longrightarrow> f64_eq (f64_of_int i) (f64_of_int j) \<longleftrightarrow> i = j"
  by (simp add: f64_eq_def f64_not_nan_of_int f64_scaled_of_int in_i32_exact)

lemma f64_le_of_int [simp]:
  "in_i32 i \<Longrightarrow> in_i32 j \<Longrightarrow> f64_le (f64_of_int i) (f64_of_int j) \<longleftrightarrow> i \<le> j"
  by (simp add: f64_le_def f64_not_nan_of_int f64_scaled_of_int in_i32_exact)

lemma f64_trunc_of_int [simp]: "in_i32 i \<Longrightarrow> f64_trunc (f64_of_int i) = i"
proof -
  assume "in_i32 i"
  then have "f64_trunc (f64_of_int i) = (i * int f64_unit) sdiv int f64_unit"
    by (simp only: f64_trunc_def f64_scaled_of_int in_i32_exact)
  also have "\<dots> = i"
    by (simp add: sdiv_mult_cancel)
  finally show ?thesis .
qed

text \<open>Comparisons of doubles are those of a total preorder away from NaN.\<close>

lemma f64_lt_irrefl [simp]: "\<not> f64_lt a a"
  by (simp add: f64_lt_def)

lemma f64_le_iff_lt_or_eq: "f64_le a b \<longleftrightarrow> f64_lt a b \<or> f64_eq a b"
  by (auto simp: f64_le_def f64_lt_def f64_eq_def)

lemma f64_trichotomy:
  "\<not> f64_isnan a \<Longrightarrow> \<not> f64_isnan b \<Longrightarrow> f64_lt a b \<or> f64_eq a b \<or> f64_lt b a"
  by (auto simp: f64_lt_def f64_eq_def)

text \<open>Dividing an exact multiple gives the exact quotient.\<close>

lemma f64_round_scale:
  assumes "0 < d"
  shows "f64_round s (k * d) d = f64_round s k 1"
proof -
  have "round_half_even (k * d) (d * D) = round_half_even k D" for D
  proof -
    have 1: "(k * d) div (d * D) = k div D" using assms by (simp add: mult.commute)
    have 2: "(k * d) mod (d * D) = d * (k mod D)" by (simp only: mult.commute [of k d] mult_mod_right)
    have "2 * (d * (k mod D)) < d * D \<longleftrightarrow> 2 * (k mod D) < D"
      using assms mult_less_cancel1 [of d "2 * (k mod D)" D] by (simp add: mult.left_commute)
    moreover have "2 * (d * (k mod D)) = d * D \<longleftrightarrow> 2 * (k mod D) = D"
      using assms mult_cancel1 [of d "2 * (k mod D)" D] by (simp add: mult.left_commute)
    ultimately show ?thesis by (simp add: round_half_even_def Let_def 1 2)
  qed
  with assms show ?thesis by (simp add: f64_round_def)
qed

lemma f64_of_int_fields:
  assumes "\<bar>i\<bar> \<le> 9007199254740992"
  shows "f64_sign (f64_of_int i) = (i < 0)" and "f64_mag (f64_of_int i) = nat \<bar>i\<bar> * f64_unit"
    and "\<not> f64_isnan (f64_of_int i)" and "\<not> f64_isinf (f64_of_int i)"
  using f64_round_exact [OF f64_of_int_bits [OF assms], of "i < 0"]
  by (simp_all add: f64_of_int_def f64_isnan_def f64_isinf_def f64_isfinite_def)

lemma f64_div_of_int:
  assumes "\<bar>i * m\<bar> \<le> 9007199254740992" and "0 < m" and "m \<le> 9007199254740992"
  shows "f64_div (f64_of_int (i * m)) (f64_of_int m) = f64_of_int i"
proof -
  have m: "\<bar>m\<bar> \<le> 9007199254740992" using assms by simp
  note fi = f64_of_int_fields [OF assms(1)] and fm = f64_of_int_fields [OF m]
  have s: "i * m < 0 \<longleftrightarrow> i < 0" using assms(2) by (simp add: mult_less_0_iff)
  have "nat \<bar>i * m\<bar> = nat \<bar>i\<bar> * nat m" using assms(2) by (simp add: abs_mult nat_mult_distrib)
  then have n: "nat \<bar>i * m\<bar> * f64_unit * f64_unit = (nat \<bar>i\<bar> * f64_unit) * (nat m * f64_unit)"
    by (simp add: ac_simps)
  have d: "0 < nat m * f64_unit" using assms(2) by simp
  have "f64_div (f64_of_int (i * m)) (f64_of_int m)
      = f64_round (i < 0) (nat \<bar>i * m\<bar> * f64_unit * f64_unit) (nat m * f64_unit)"
    using assms(2) d fi(3,4) fm(3,4) unfolding f64_div_def Let_def fi(1,2) fm(1,2) s by simp
  also have "\<dots> = f64_of_int i"
    unfolding n f64_round_scale [OF d] by (simp add: f64_of_int_def)
  finally show ?thesis .
qed

end
