(* ===== verification/Cdsl_Ast.thy ===== *)
theory Cdsl_Ast
  imports Cdsl_Float64
begin

section \<open>The abstract syntax tree (\<open>include/cdsl/ast.h\<close>, \<open>src/ast/ast.c\<close>)\<close>

text \<open>
  The types, operators and expression nodes of the DSL, the rule, metric, case and action
  nodes, the operator table with its queries, and the list-building constructors of the
  parser. A linked list of nodes is a HOL list and a pointer that may be \<open>NULL\<close> is an
  option; where a node lives (heap or arena) is not modelled. Source positions are kept, as
  run-time errors report them.
\<close>

subsection \<open>Types and operators\<close>

datatype cdsl_type =
    CDSL_TYPE_INT | CDSL_TYPE_FLOAT | CDSL_TYPE_BOOL | CDSL_TYPE_STRING | CDSL_TYPE_DATE
  | CDSL_TYPE_LONG | CDSL_TYPE_ARRAY | CDSL_TYPE_VOID

datatype cdsl_op =
    CDSL_OP_EQ | CDSL_OP_NE | CDSL_OP_LT | CDSL_OP_GT | CDSL_OP_LE | CDSL_OP_GE
  | CDSL_OP_AND | CDSL_OP_OR | CDSL_OP_NOT
  | CDSL_OP_ADD | CDSL_OP_SUB | CDSL_OP_MUL | CDSL_OP_DIV | CDSL_OP_NEG

record cdsl_op_desc =
  od_op :: cdsl_op
  od_c_symbol :: string
  od_name :: string
  od_arity :: nat
  od_is_relational :: bool
  od_is_arithmetic :: bool
  od_is_logical :: bool

definition op_desc ::
  "cdsl_op \<Rightarrow> string \<Rightarrow> string \<Rightarrow> nat \<Rightarrow> bool \<Rightarrow> bool \<Rightarrow> bool \<Rightarrow> cdsl_op_desc" where
  "op_desc op c n ar rel arith lg = \<lparr>od_op = op, od_c_symbol = c, od_name = n, od_arity = ar,
     od_is_relational = rel, od_is_arithmetic = arith, od_is_logical = lg\<rparr>"

text \<open>The table indexed by the enumeration (\<open>s_op_table\<close>).\<close>

fun cdsl_op_get_desc :: "cdsl_op \<Rightarrow> cdsl_op_desc" where
  "cdsl_op_get_desc CDSL_OP_EQ = op_desc CDSL_OP_EQ ''=='' ''=='' 2 True False False"
| "cdsl_op_get_desc CDSL_OP_NE = op_desc CDSL_OP_NE ''!='' ''!='' 2 True False False"
| "cdsl_op_get_desc CDSL_OP_LT = op_desc CDSL_OP_LT ''<'' ''<'' 2 True False False"
| "cdsl_op_get_desc CDSL_OP_GT = op_desc CDSL_OP_GT ''>'' ''>'' 2 True False False"
| "cdsl_op_get_desc CDSL_OP_LE = op_desc CDSL_OP_LE ''<='' ''<='' 2 True False False"
| "cdsl_op_get_desc CDSL_OP_GE = op_desc CDSL_OP_GE ''>='' ''>='' 2 True False False"
| "cdsl_op_get_desc CDSL_OP_AND = op_desc CDSL_OP_AND ''&&'' ''AND'' 2 False False True"
| "cdsl_op_get_desc CDSL_OP_OR = op_desc CDSL_OP_OR ''||'' ''OR'' 2 False False True"
| "cdsl_op_get_desc CDSL_OP_NOT = op_desc CDSL_OP_NOT ''!'' ''NOT'' 1 False False True"
| "cdsl_op_get_desc CDSL_OP_ADD = op_desc CDSL_OP_ADD ''+'' ''+'' 2 False True False"
| "cdsl_op_get_desc CDSL_OP_SUB = op_desc CDSL_OP_SUB ''-'' ''-'' 2 False True False"
| "cdsl_op_get_desc CDSL_OP_MUL = op_desc CDSL_OP_MUL ''*'' ''*'' 2 False True False"
| "cdsl_op_get_desc CDSL_OP_DIV = op_desc CDSL_OP_DIV ''/'' ''/'' 2 False True False"
| "cdsl_op_get_desc CDSL_OP_NEG = op_desc CDSL_OP_NEG ''-'' ''NEG'' 1 False False False"

definition cdsl_op_is_relational :: "cdsl_op \<Rightarrow> bool" where
  "cdsl_op_is_relational op = od_is_relational (cdsl_op_get_desc op)"

definition cdsl_op_is_arithmetic :: "cdsl_op \<Rightarrow> bool" where
  "cdsl_op_is_arithmetic op = od_is_arithmetic (cdsl_op_get_desc op)"

definition cdsl_op_is_logical_binary :: "cdsl_op \<Rightarrow> bool" where
  "cdsl_op_is_logical_binary op =
     (od_is_logical (cdsl_op_get_desc op) \<and> od_arity (cdsl_op_get_desc op) = 2)"

definition cdsl_op_is_unary :: "cdsl_op \<Rightarrow> bool" where
  "cdsl_op_is_unary op = (od_arity (cdsl_op_get_desc op) = 1)"

definition cdsl_op_c_symbol :: "cdsl_op \<Rightarrow> string" where
  "cdsl_op_c_symbol op = od_c_symbol (cdsl_op_get_desc op)"

definition cdsl_op_name :: "cdsl_op \<Rightarrow> string" where
  "cdsl_op_name op = od_name (cdsl_op_get_desc op)"

fun cdsl_type_name :: "cdsl_type \<Rightarrow> string" where
  "cdsl_type_name CDSL_TYPE_INT = ''INT''"
| "cdsl_type_name CDSL_TYPE_FLOAT = ''FLOAT''"
| "cdsl_type_name CDSL_TYPE_BOOL = ''BOOL''"
| "cdsl_type_name CDSL_TYPE_STRING = ''STRING''"
| "cdsl_type_name CDSL_TYPE_DATE = ''DATE''"
| "cdsl_type_name CDSL_TYPE_LONG = ''LONG''"
| "cdsl_type_name CDSL_TYPE_ARRAY = ''ARRAY''"
| "cdsl_type_name CDSL_TYPE_VOID = ''VOID''"

text \<open>Reading a three-way comparison result with a relational operator.\<close>

fun cdsl_op_eval_cmp :: "cdsl_op \<Rightarrow> int \<Rightarrow> bool" where
  "cdsl_op_eval_cmp CDSL_OP_EQ cmp = (cmp = 0)"
| "cdsl_op_eval_cmp CDSL_OP_NE cmp = (cmp \<noteq> 0)"
| "cdsl_op_eval_cmp CDSL_OP_LT cmp = (cmp < 0)"
| "cdsl_op_eval_cmp CDSL_OP_GT cmp = (cmp > 0)"
| "cdsl_op_eval_cmp CDSL_OP_LE cmp = (cmp \<le> 0)"
| "cdsl_op_eval_cmp CDSL_OP_GE cmp = (cmp \<ge> 0)"
| "cdsl_op_eval_cmp _ cmp = False"

lemmas op_class_defs = cdsl_op_is_relational_def cdsl_op_is_arithmetic_def
  cdsl_op_is_logical_binary_def cdsl_op_is_unary_def op_desc_def

lemma relational_iff [simp]:
  "cdsl_op_is_relational op \<longleftrightarrow>
     op = CDSL_OP_EQ \<or> op = CDSL_OP_NE \<or> op = CDSL_OP_LT \<or> op = CDSL_OP_GT
     \<or> op = CDSL_OP_LE \<or> op = CDSL_OP_GE"
  by (cases op) (simp_all add: op_class_defs)

lemma arithmetic_iff [simp]:
  "cdsl_op_is_arithmetic op \<longleftrightarrow>
     op = CDSL_OP_ADD \<or> op = CDSL_OP_SUB \<or> op = CDSL_OP_MUL \<or> op = CDSL_OP_DIV"
  by (cases op) (simp_all add: op_class_defs)

lemma logical_binary_iff [simp]:
  "cdsl_op_is_logical_binary op \<longleftrightarrow> op = CDSL_OP_AND \<or> op = CDSL_OP_OR"
  by (cases op) (simp_all add: op_class_defs)

lemma unary_iff [simp]: "cdsl_op_is_unary op \<longleftrightarrow> op = CDSL_OP_NOT \<or> op = CDSL_OP_NEG"
  by (cases op) (simp_all add: op_class_defs)

text \<open>
  The operator table is consistent: the entry of an operator carries that
  operator, the four classes (relational, arithmetic, binary logical, unary) partition the
  operators, and two operators of the same arity never share a C symbol.
\<close>

lemma op_table_partition:
  "od_op (cdsl_op_get_desc op) = op
   \<and> length (filter id [cdsl_op_is_relational op, cdsl_op_is_arithmetic op,
                        cdsl_op_is_logical_binary op, cdsl_op_is_unary op]) = 1
   \<and> ((cdsl_op_is_unary op, cdsl_op_c_symbol op) = (cdsl_op_is_unary op', cdsl_op_c_symbol op')) = (op = op')"
  by (cases op; cases op') (simp_all add: cdsl_op_c_symbol_def op_desc_def)

subsection \<open>Expressions\<close>

type_synonym loc = "int \<times> int"

datatype cdsl_expr =
    CDSL_EXPR_ID loc string
  | CDSL_EXPR_INT loc i32
  | CDSL_EXPR_FLOAT loc f64
  | CDSL_EXPR_BOOL loc i32
  | CDSL_EXPR_STRING loc string
  | CDSL_EXPR_DATE loc i64
  | CDSL_EXPR_LONG loc i64
  | CDSL_EXPR_ARRAY loc "cdsl_expr list"
  | CDSL_EXPR_BINARY loc cdsl_op cdsl_expr cdsl_expr
  | CDSL_EXPR_UNARY loc cdsl_op cdsl_expr
  | CDSL_EXPR_CALL loc string "cdsl_expr list"
  | CDSL_EXPR_ERROR loc

fun expr_loc :: "cdsl_expr \<Rightarrow> loc" where
  "expr_loc (CDSL_EXPR_ID l _) = l"
| "expr_loc (CDSL_EXPR_INT l _) = l"
| "expr_loc (CDSL_EXPR_FLOAT l _) = l"
| "expr_loc (CDSL_EXPR_BOOL l _) = l"
| "expr_loc (CDSL_EXPR_STRING l _) = l"
| "expr_loc (CDSL_EXPR_DATE l _) = l"
| "expr_loc (CDSL_EXPR_LONG l _) = l"
| "expr_loc (CDSL_EXPR_ARRAY l _) = l"
| "expr_loc (CDSL_EXPR_BINARY l _ _ _) = l"
| "expr_loc (CDSL_EXPR_UNARY l _ _) = l"
| "expr_loc (CDSL_EXPR_CALL l _ _) = l"
| "expr_loc (CDSL_EXPR_ERROR l) = l"

subsection \<open>Actions, metadata, metrics and rules\<close>

record cdsl_action =
  act_name :: string
  act_args :: "cdsl_expr list"
  act_loc :: loc

type_synonym cdsl_meta = "(string \<times> string) list"

record cdsl_case =
  case_condition :: "cdsl_expr option"
  case_action :: "cdsl_action option"

record cdsl_metric =
  met_name :: string
  met_meta :: cdsl_meta
  met_cases :: "cdsl_case list"
  met_default :: "cdsl_action option"

record cdsl_rule =
  rule_name :: string
  rule_meta :: cdsl_meta
  rule_when :: "cdsl_expr option"
  rule_then :: "cdsl_action option"
  rule_metrics :: "cdsl_metric list"
  rule_line :: int
  rule_column :: int

fun cdsl_meta_get :: "cdsl_meta \<Rightarrow> string \<Rightarrow> string option" where
  "cdsl_meta_get [] key = None"
| "cdsl_meta_get (m # ms) key = (if fst m = key then Some (snd m) else cdsl_meta_get ms key)"

text \<open>The \<open>append\<close> constructors walk to the last node; \<open>append_meta_kv\<close> ignores a \<open>NULL\<close> part.\<close>

fun cdsl_append_meta :: "cdsl_meta \<Rightarrow> cdsl_meta \<Rightarrow> cdsl_meta" where
  "cdsl_append_meta [] item = item"
| "cdsl_append_meta [m] item = m # item"
| "cdsl_append_meta (m # m' # ms) item = m # cdsl_append_meta (m' # ms) item"

definition cdsl_create_meta_item :: "string option \<Rightarrow> string option \<Rightarrow> cdsl_meta" where
  "cdsl_create_meta_item key value =
     (case (key, value) of (Some k, Some v) \<Rightarrow> [(k, v)] | _ \<Rightarrow> [])"

definition cdsl_append_meta_kv :: "cdsl_meta \<Rightarrow> string option \<Rightarrow> string option \<Rightarrow> cdsl_meta" where
  "cdsl_append_meta_kv ms key value =
     (let item = cdsl_create_meta_item key value
      in if item = [] then ms else cdsl_append_meta ms item)"

fun cdsl_append_metric :: "cdsl_metric list \<Rightarrow> cdsl_metric list \<Rightarrow> cdsl_metric list" where
  "cdsl_append_metric [] item = item"
| "cdsl_append_metric [m] item = m # item"
| "cdsl_append_metric (m # m' # ms) item = m # cdsl_append_metric (m' # ms) item"

fun cdsl_append_case :: "cdsl_case list \<Rightarrow> cdsl_case list \<Rightarrow> cdsl_case list" where
  "cdsl_append_case [] item = item"
| "cdsl_append_case [c] item = c # item"
| "cdsl_append_case (c # c' # cs) item = c # cdsl_append_case (c' # cs) item"

fun cdsl_append_arg :: "cdsl_expr list \<Rightarrow> cdsl_expr \<Rightarrow> cdsl_expr list" where
  "cdsl_append_arg [] e = [e]"
| "cdsl_append_arg [a] e = [a, e]"
| "cdsl_append_arg (a # a' # as) e = a # cdsl_append_arg (a' # as) e"

lemma append_meta [simp]: "cdsl_append_meta a b = a @ b"
  by (induction a b rule: cdsl_append_meta.induct) auto

lemma append_metric [simp]: "cdsl_append_metric a b = a @ b"
  by (induction a b rule: cdsl_append_metric.induct) auto

lemma append_case [simp]: "cdsl_append_case a b = a @ b"
  by (induction a b rule: cdsl_append_case.induct) auto

lemma append_arg [simp]: "cdsl_append_arg a b = a @ [b]"
  by (induction a b rule: cdsl_append_arg.induct) auto

lemma meta_get_map_of: "cdsl_meta_get ms k = map_of ms k"
  by (induction ms) auto

text \<open>
  Metadata behaves as a map in which the first entry of a key wins: appending a
  pair never changes a key that is bound and binds a key that is not.
\<close>

lemma meta_first_wins:
  "cdsl_meta_get (cdsl_append_meta_kv ms (Some k) (Some v)) k' =
     (if k' = k \<and> cdsl_meta_get ms k = None then Some v else cdsl_meta_get ms k')"
  by (auto simp: meta_get_map_of cdsl_append_meta_kv_def cdsl_create_meta_item_def Let_def
      map_add_def split: option.splits)

end
