(* ===== verification/Cdsl_Value_Ops.thy ===== *)
theory Cdsl_Value_Ops
  imports Cdsl_Ast
begin

section \<open>Run-time values and their operators (\<open>src/vm/value_ops.c\<close>)\<close>

text \<open>
  The tagged value of \<open>include/cdsl/context.h\<close> and the operator semantics shared by the tree
  walker, the bytecode machine and the constant folder. Integer operations keep their width:
  the model computes on 32- and 64-bit words as the C code does and the lemmas relate the
  results to exact integer arithmetic. Ownership of strings and arrays is not modelled.
\<close>

subsection \<open>Values\<close>

text \<open>
  A VOID value still has the bits of its union; two places of the evaluators read them, so
  \<open>VVoid\<close> carries the low 32 bits. A string pointer may be \<open>NULL\<close>, an array pointer as well.
\<close>

datatype cdsl_value =
    VVoid i32
  | VInt i32
  | VFloat f64
  | VBool i32
  | VString "string option"
  | VDate i64
  | VLong i64
  | VArray "cdsl_value list option"

fun vtype :: "cdsl_value \<Rightarrow> cdsl_type" where
  "vtype (VVoid _) = CDSL_TYPE_VOID"
| "vtype (VInt _) = CDSL_TYPE_INT"
| "vtype (VFloat _) = CDSL_TYPE_FLOAT"
| "vtype (VBool _) = CDSL_TYPE_BOOL"
| "vtype (VString _) = CDSL_TYPE_STRING"
| "vtype (VDate _) = CDSL_TYPE_DATE"
| "vtype (VLong _) = CDSL_TYPE_LONG"
| "vtype (VArray _) = CDSL_TYPE_ARRAY"

datatype cdsl_valop_status =
    CDSL_VALOP_OK | CDSL_VALOP_VOID_OPERAND | CDSL_VALOP_TYPE_ERROR
  | CDSL_VALOP_DIV_ZERO | CDSL_VALOP_OVERFLOW

type_synonym valop = "cdsl_valop_status \<times> cdsl_value"

abbreviation void0 :: cdsl_value where
  "void0 \<equiv> VVoid 0"

abbreviation valop_fail :: "cdsl_valop_status \<Rightarrow> valop" where
  "valop_fail s \<equiv> (s, void0)"

definition bool_ok :: "bool \<Rightarrow> valop" where
  "bool_ok b = (CDSL_VALOP_OK, VBool (c_bool b))"

fun str_or_empty :: "string option \<Rightarrow> string" where
  "str_or_empty None = ''''"
| "str_or_empty (Some s) = s"

subsection \<open>Checked 64-bit arithmetic\<close>

definition INT64_MAX :: i64 where
  "INT64_MAX = 0x7FFFFFFFFFFFFFFF"

definition INT64_MIN :: i64 where
  "INT64_MIN = 0x8000000000000000"

definition c_div64 :: "i64 \<Rightarrow> i64 \<Rightarrow> i64" where
  "c_div64 a b = word_of_int (sint a sdiv sint b)"

text \<open>With GCC and Clang the checks are the compiler's overflow built-ins.\<close>

definition ck_add_i64 :: "i64 \<Rightarrow> i64 \<Rightarrow> i64 option" where
  "ck_add_i64 a b = (if in_i64 (sint a + sint b) then Some (a + b) else None)"

definition ck_sub_i64 :: "i64 \<Rightarrow> i64 \<Rightarrow> i64 option" where
  "ck_sub_i64 a b = (if in_i64 (sint a - sint b) then Some (a - b) else None)"

definition ck_mul_i64 :: "i64 \<Rightarrow> i64 \<Rightarrow> i64 option" where
  "ck_mul_i64 a b = (if in_i64 (sint a * sint b) then Some (a * b) else None)"

text \<open>The fallbacks for other compilers test before they compute.\<close>

definition ck_add_i64_portable :: "i64 \<Rightarrow> i64 \<Rightarrow> i64 option" where
  "ck_add_i64_portable a b =
     (if (0 < sint b \<and> sint (INT64_MAX - b) < sint a)
         \<or> (sint b < 0 \<and> sint a < sint (INT64_MIN - b)) then None
      else Some (a + b))"

definition ck_sub_i64_portable :: "i64 \<Rightarrow> i64 \<Rightarrow> i64 option" where
  "ck_sub_i64_portable a b =
     (if (sint b < 0 \<and> sint (INT64_MAX + b) < sint a)
         \<or> (0 < sint b \<and> sint a < sint (INT64_MIN + b)) then None
      else Some (a - b))"

definition ck_mul_i64_portable :: "i64 \<Rightarrow> i64 \<Rightarrow> i64 option" where
  "ck_mul_i64_portable a b =
     (if a = 0 \<or> b = 0 then Some 0
      else if (a = - 1 \<and> b = INT64_MIN) \<or> (b = - 1 \<and> a = INT64_MIN) then None
      else if 0 < sint a then
        (if (if 0 < sint b then sint (c_div64 INT64_MAX b) < sint a
             else sint b < sint (c_div64 INT64_MIN a)) then None else Some (a * b))
      else
        (if (if 0 < sint b then sint a < sint (c_div64 INT64_MIN b)
             else sint b < sint (c_div64 INT64_MAX a)) then None else Some (a * b)))"

subsection \<open>Binary operators\<close>

fun is_numeric_type :: "cdsl_type \<Rightarrow> bool" where
  "is_numeric_type t = (t = CDSL_TYPE_INT \<or> t = CDSL_TYPE_LONG \<or> t = CDSL_TYPE_FLOAT)"

fun is_zero_divisor :: "cdsl_value \<Rightarrow> bool" where
  "is_zero_divisor (VInt i) = (i = 0)"
| "is_zero_divisor (VLong l) = (l = 0)"
| "is_zero_divisor (VFloat f) = f64_eq f (f64_zero False)"
| "is_zero_divisor _ = False"

definition date_result :: "bool \<Rightarrow> i64 \<Rightarrow> i64 \<Rightarrow> valop" where
  "date_result subtract base sec_delta =
     (case (if subtract then ck_sub_i64 base sec_delta else ck_add_i64 base sec_delta) of
        None \<Rightarrow> valop_fail CDSL_VALOP_OVERFLOW
      | Some r \<Rightarrow> (CDSL_VALOP_OK, VDate r))"

fun eval_date_offset :: "i64 \<Rightarrow> cdsl_value \<Rightarrow> bool \<Rightarrow> valop" where
  "eval_date_offset base (VInt d) subtract =
     (case ck_mul_i64 (word_of_int (sint d)) 86400 of
        None \<Rightarrow> valop_fail CDSL_VALOP_OVERFLOW
      | Some s \<Rightarrow> date_result subtract base s)"
| "eval_date_offset base (VLong d) subtract =
     (case ck_mul_i64 d 86400 of
        None \<Rightarrow> valop_fail CDSL_VALOP_OVERFLOW
      | Some s \<Rightarrow> date_result subtract base s)"
| "eval_date_offset base (VFloat f) subtract =
     (let raw_sec = f64_mul f (f64_of_int 86400) in
      if \<not> f64_isfinite raw_sec \<or> f64_lt raw_sec (f64_of_int (- 4611686018427387904))
         \<or> f64_lt (f64_of_int 4611686018427387903) raw_sec
      then valop_fail CDSL_VALOP_OVERFLOW
      else date_result subtract base (word_of_int (f64_trunc raw_sec)))"
| "eval_date_offset base _ subtract = valop_fail CDSL_VALOP_TYPE_ERROR"

definition cmp3 :: "int \<Rightarrow> int \<Rightarrow> int" where
  "cmp3 a b = (if a < b then - 1 else if a > b then 1 else 0)"

text \<open>\<open>difftime\<close> is the difference of the two times as a double.\<close>

definition difftime :: "i64 \<Rightarrow> i64 \<Rightarrow> f64" where
  "difftime t1 t0 = f64_of_int (sint t1 - sint t0)"

definition binop_string :: "cdsl_op \<Rightarrow> string option \<Rightarrow> string option \<Rightarrow> valop" where
  "binop_string op s t =
     (if op \<noteq> CDSL_OP_EQ \<and> op \<noteq> CDSL_OP_NE then valop_fail CDSL_VALOP_TYPE_ERROR
      else bool_ok (cdsl_op_eval_cmp op (c_strcmp (str_or_empty s) (str_or_empty t))))"

definition binop_dates :: "cdsl_op \<Rightarrow> i64 \<Rightarrow> i64 \<Rightarrow> valop" where
  "binop_dates op t1 t2 =
     (if op = CDSL_OP_SUB then
        let days = f64_div (difftime t1 t2) (f64_of_int 86400) in
        if \<not> f64_isfinite days \<or> f64_lt days (f64_of_int (- 2147483648))
           \<or> f64_lt (f64_of_int 2147483647) days
        then valop_fail CDSL_VALOP_OVERFLOW
        else (CDSL_VALOP_OK, VInt (word_of_int (f64_trunc days)))
      else if cdsl_op_is_relational op
      then bool_ok (cdsl_op_eval_cmp op (cmp3 (sint t1) (sint t2)))
      else valop_fail CDSL_VALOP_TYPE_ERROR)"

definition binop_bool :: "cdsl_op \<Rightarrow> i32 \<Rightarrow> i32 \<Rightarrow> valop" where
  "binop_bool op a b =
     (if \<not> cdsl_op_is_relational op then valop_fail CDSL_VALOP_TYPE_ERROR
      else bool_ok (cdsl_op_eval_cmp op (of_bool (c_true a) - of_bool (c_true b))))"

fun to_double :: "cdsl_value \<Rightarrow> f64" where
  "to_double (VFloat f) = f"
| "to_double (VLong l) = f64_of_int (sint l)"
| "to_double (VInt i) = f64_of_int (sint i)"
| "to_double _ = 0"

fun float_cmp :: "cdsl_op \<Rightarrow> f64 \<Rightarrow> f64 \<Rightarrow> bool" where
  "float_cmp CDSL_OP_EQ a b = f64_eq a b"
| "float_cmp CDSL_OP_NE a b = (\<not> f64_eq a b)"
| "float_cmp CDSL_OP_LT a b = f64_lt a b"
| "float_cmp CDSL_OP_GT a b = f64_lt b a"
| "float_cmp CDSL_OP_LE a b = f64_le a b"
| "float_cmp _ a b = f64_le b a"

definition binop_float :: "cdsl_op \<Rightarrow> f64 \<Rightarrow> f64 \<Rightarrow> valop" where
  "binop_float op a b =
     (if cdsl_op_is_arithmetic op then
        (if op = CDSL_OP_DIV \<and> f64_eq b (f64_zero False) then valop_fail CDSL_VALOP_DIV_ZERO
         else (CDSL_VALOP_OK, VFloat
           (if op = CDSL_OP_ADD then f64_add a b else if op = CDSL_OP_SUB then f64_sub a b
            else if op = CDSL_OP_MUL then f64_mul a b else f64_div a b)))
      else if cdsl_op_is_relational op then bool_ok (float_cmp op a b)
      else valop_fail CDSL_VALOP_TYPE_ERROR)"

fun to_i64 :: "cdsl_value \<Rightarrow> i64" where
  "to_i64 (VLong l) = l"
| "to_i64 (VInt i) = word_of_int (sint i)"
| "to_i64 _ = 0"

definition long_arith :: "cdsl_op \<Rightarrow> i64 \<Rightarrow> i64 \<Rightarrow> i64 + cdsl_valop_status" where
  "long_arith op a b =
     (let ck = (\<lambda>r. case r of None \<Rightarrow> Inr CDSL_VALOP_OVERFLOW | Some x \<Rightarrow> Inl x) in
      if op = CDSL_OP_ADD then ck (ck_add_i64 a b)
      else if op = CDSL_OP_SUB then ck (ck_sub_i64 a b)
      else if op = CDSL_OP_MUL then ck (ck_mul_i64 a b)
      else if b = 0 then Inr CDSL_VALOP_DIV_ZERO
      else if a = INT64_MIN \<and> b = - 1 then Inr CDSL_VALOP_OVERFLOW
      else Inl (c_div64 a b))"

definition binop_long :: "cdsl_op \<Rightarrow> i64 \<Rightarrow> i64 \<Rightarrow> valop" where
  "binop_long op a b =
     (if cdsl_op_is_arithmetic op then
        (case long_arith op a b of
           Inl r \<Rightarrow> (CDSL_VALOP_OK, VLong r) | Inr s \<Rightarrow> valop_fail s)
      else if cdsl_op_is_relational op
      then bool_ok (cdsl_op_eval_cmp op (cmp3 (sint a) (sint b)))
      else valop_fail CDSL_VALOP_TYPE_ERROR)"

text \<open>Two INTs: the result is computed in an \<open>int64_t\<close> and then checked against 32 bits.\<close>

definition binop_int :: "cdsl_op \<Rightarrow> i32 \<Rightarrow> i32 \<Rightarrow> valop" where
  "binop_int op a b =
     (let ai = (word_of_int (sint a) :: i64); bi = (word_of_int (sint b) :: i64) in
      if cdsl_op_is_arithmetic op then
        (if op = CDSL_OP_DIV \<and> bi = 0 then valop_fail CDSL_VALOP_DIV_ZERO
         else let ri = (if op = CDSL_OP_ADD then ai + bi else if op = CDSL_OP_SUB then ai - bi
                        else if op = CDSL_OP_MUL then ai * bi else c_div64 ai bi) in
           if sint ri < - 2147483648 \<or> 2147483647 < sint ri then valop_fail CDSL_VALOP_OVERFLOW
           else (CDSL_VALOP_OK, VInt (word_of_int (sint ri))))
      else if cdsl_op_is_relational op
      then bool_ok (cdsl_op_eval_cmp op (cmp3 (sint ai) (sint bi)))
      else valop_fail CDSL_VALOP_TYPE_ERROR)"

text \<open>The numeric part: FLOAT if either side is, else LONG if either side is, else INT.\<close>

definition binop_numeric :: "cdsl_op \<Rightarrow> cdsl_value \<Rightarrow> cdsl_value \<Rightarrow> valop" where
  "binop_numeric op a b =
     (if \<not> is_numeric_type (vtype a) \<or> \<not> is_numeric_type (vtype b)
      then valop_fail CDSL_VALOP_TYPE_ERROR
      else if vtype a = CDSL_TYPE_FLOAT \<or> vtype b = CDSL_TYPE_FLOAT
      then binop_float op (to_double a) (to_double b)
      else case (a, b) of (VInt i, VInt j) \<Rightarrow> binop_int op i j
           | _ \<Rightarrow> binop_long op (to_i64 a) (to_i64 b))"

definition binop_with_date :: "cdsl_op \<Rightarrow> cdsl_value \<Rightarrow> cdsl_value \<Rightarrow> valop" where
  "binop_with_date op a b =
     (case (a, b) of
        (VDate t1, VDate t2) \<Rightarrow> binop_dates op t1 t2
      | (VDate t1, _) \<Rightarrow>
          if op = CDSL_OP_ADD \<or> op = CDSL_OP_SUB then eval_date_offset t1 b (op = CDSL_OP_SUB)
          else valop_fail CDSL_VALOP_TYPE_ERROR
      | (_, VDate t2) \<Rightarrow>
          if op = CDSL_OP_ADD then eval_date_offset t2 a False
          else valop_fail CDSL_VALOP_TYPE_ERROR
      | _ \<Rightarrow> valop_fail CDSL_VALOP_TYPE_ERROR)"

definition cdsl_value_binop :: "cdsl_op \<Rightarrow> cdsl_value \<Rightarrow> cdsl_value \<Rightarrow> valop" where
  "cdsl_value_binop op a b =
     (if op = CDSL_OP_DIV \<and> is_zero_divisor b then valop_fail CDSL_VALOP_DIV_ZERO
      else if vtype a = CDSL_TYPE_VOID \<or> vtype b = CDSL_TYPE_VOID then
        (CDSL_VALOP_VOID_OPERAND, if cdsl_op_is_relational op then VBool 0 else void0)
      else if vtype a = CDSL_TYPE_STRING \<or> vtype b = CDSL_TYPE_STRING then
        (case (a, b) of (VString s, VString t) \<Rightarrow> binop_string op s t
         | _ \<Rightarrow> valop_fail CDSL_VALOP_TYPE_ERROR)
      else if vtype a = CDSL_TYPE_DATE \<or> vtype b = CDSL_TYPE_DATE then binop_with_date op a b
      else if vtype a = CDSL_TYPE_BOOL \<or> vtype b = CDSL_TYPE_BOOL then
        (case (a, b) of (VBool x, VBool y) \<Rightarrow> binop_bool op x y
         | _ \<Rightarrow> valop_fail CDSL_VALOP_TYPE_ERROR)
      else binop_numeric op a b)"

subsection \<open>Unary operators\<close>

definition cdsl_value_unop :: "cdsl_op \<Rightarrow> cdsl_value \<Rightarrow> valop" where
  "cdsl_value_unop op v =
     (if vtype v = CDSL_TYPE_VOID then
        (CDSL_VALOP_VOID_OPERAND, if op = CDSL_OP_NOT then VBool 1 else void0)
      else if op = CDSL_OP_NOT then
        (case v of VBool b \<Rightarrow> bool_ok (b = 0) | VInt i \<Rightarrow> bool_ok (i = 0)
         | _ \<Rightarrow> valop_fail CDSL_VALOP_TYPE_ERROR)
      else if op = CDSL_OP_NEG then
        (case v of
           VInt i \<Rightarrow> if i = 0x80000000 then valop_fail CDSL_VALOP_OVERFLOW
                     else (CDSL_VALOP_OK, VInt (- i))
         | VLong l \<Rightarrow> if l = INT64_MIN then valop_fail CDSL_VALOP_OVERFLOW
                      else (CDSL_VALOP_OK, VLong (- l))
         | VFloat f \<Rightarrow> (CDSL_VALOP_OK, VFloat (f64_neg f))
         | _ \<Rightarrow> valop_fail CDSL_VALOP_TYPE_ERROR)
      else valop_fail CDSL_VALOP_TYPE_ERROR)"

fun cdsl_valop_status_message :: "cdsl_valop_status \<Rightarrow> string" where
  "cdsl_valop_status_message CDSL_VALOP_DIV_ZERO = ''Division by zero''"
| "cdsl_valop_status_message CDSL_VALOP_OVERFLOW = ''Integer arithmetic overflow''"
| "cdsl_valop_status_message CDSL_VALOP_TYPE_ERROR = ''Incompatible operand types for operator''"
| "cdsl_valop_status_message _ = ''Runtime evaluation error''"

fun cdsl_valop_status_hint :: "cdsl_valop_status \<Rightarrow> string option" where
  "cdsl_valop_status_hint CDSL_VALOP_DIV_ZERO =
     Some ''Guard the divisor with a non-zero check before dividing''"
| "cdsl_valop_status_hint CDSL_VALOP_OVERFLOW =
     Some ''Use LONG (64-bit) values or constrain input ranges''"
| "cdsl_valop_status_hint CDSL_VALOP_TYPE_ERROR =
     Some ''Verify the rule against a schema with cdsl_verify_rule()''"
| "cdsl_valop_status_hint _ = None"

subsection \<open>The overflow checks\<close>

lemma sint_i64_consts [simp]:
  "sint INT64_MAX = 9223372036854775807" "sint INT64_MIN = - 9223372036854775808"
  by (simp_all add: INT64_MAX_def INT64_MIN_def)

lemma sint_add_i64: "in_i64 (sint a + sint b) \<Longrightarrow> sint (a + b :: i64) = sint a + sint b"
  by (metis sint_word_of_int_i64 word_of_int_sint_i64 wi_hom_add)

lemma sint_sub_i64: "in_i64 (sint a - sint b) \<Longrightarrow> sint (a - b :: i64) = sint a - sint b"
  by (metis sint_word_of_int_i64 word_of_int_sint_i64 wi_hom_sub)

lemma sint_mult_i64: "in_i64 (sint a * sint b) \<Longrightarrow> sint (a * b :: i64) = sint a * sint b"
  by (metis sint_word_of_int_i64 word_of_int_sint_i64 wi_hom_mult)

lemma i64_eq_iff: "a = b \<longleftrightarrow> sint (a :: i64) = sint b"
  by (metis word_of_int_sint_i64)

lemma sint_c_div64: "\<not> (a = INT64_MIN \<and> b = - 1) \<Longrightarrow> sint (c_div64 a b) = sint a sdiv sint b"
  unfolding c_div64_def by (rule sint_word_of_int_i64, rule sdiv_in_i64) (auto simp: i64_eq_iff)

lemma i64_range: "- 9223372036854775808 \<le> sint (a :: i64)" "sint a \<le> 9223372036854775807"
  using in_i64_sint [of a] by (simp_all add: in_i64_def)

lemma div_less_iff: "0 < b \<Longrightarrow> m div b < a \<longleftrightarrow> m < a * (b :: int)"
proof
  assume b: "0 < b" and "m div b < a"
  then have "(m div b + 1) * b \<le> a * b" by (intro mult_right_mono) auto
  moreover have "m mod b < b" using b by simp
  ultimately show "m < a * b"
    using div_mult_mod_eq [of m b] unfolding distrib_right by linarith
next
  assume b: "0 < b" and m: "m < a * b"
  show "m div b < a"
  proof (rule ccontr)
    assume "\<not> m div b < a"
    with b have "a * b \<le> m div b * b" by (intro mult_right_mono) auto
    also have "\<dots> \<le> m" using b pos_mod_sign [of b m] div_mult_mod_eq [of m b] by linarith
    finally show False using m by simp
  qed
qed

lemma mult_range_bounds:
  fixes x y :: int
  shows "0 < x \<Longrightarrow> 0 < y \<Longrightarrow> 0 < x * y" "0 < x \<Longrightarrow> y < 0 \<Longrightarrow> x * y < 0"
    "x < 0 \<Longrightarrow> 0 < y \<Longrightarrow> x * y < 0" "x < 0 \<Longrightarrow> y < 0 \<Longrightarrow> 0 < x * y"
  by (simp_all add: mult_pos_neg mult_neg_pos mult_neg_neg)

lemma ck_add_portable: "ck_add_i64_portable a b = ck_add_i64 a b"
proof -
  have 1: "sint b > 0 \<Longrightarrow> sint (INT64_MAX - b) = 9223372036854775807 - sint b"
    using i64_range [of b] by (subst sint_sub_i64) (auto simp: in_i64_def)
  have 2: "sint b < 0 \<Longrightarrow> sint (INT64_MIN - b) = - 9223372036854775808 - sint b"
    using i64_range [of b] by (subst sint_sub_i64) (auto simp: in_i64_def)
  show ?thesis
    using 1 2 i64_range [of a] i64_range [of b]
    by (auto simp: ck_add_i64_portable_def ck_add_i64_def in_i64_def)
qed

lemma ck_sub_portable: "ck_sub_i64_portable a b = ck_sub_i64 a b"
proof -
  have 1: "sint b < 0 \<Longrightarrow> sint (INT64_MAX + b) = 9223372036854775807 + sint b"
    using i64_range [of b] by (subst sint_add_i64) (auto simp: in_i64_def)
  have 2: "sint b > 0 \<Longrightarrow> sint (INT64_MIN + b) = - 9223372036854775808 + sint b"
    using i64_range [of b] by (subst sint_add_i64) (auto simp: in_i64_def)
  show ?thesis
    using 1 2 i64_range [of a] i64_range [of b]
    by (auto simp: ck_sub_i64_portable_def ck_sub_i64_def in_i64_def)
qed

lemma ck_mul_portable: "ck_mul_i64_portable a b = ck_mul_i64 a b"
proof -
  let ?a = "sint a" and ?b = "sint b"
  consider (zero) "a = 0 \<or> b = 0" | (corner) "(a = - 1 \<and> b = INT64_MIN) \<or> (b = - 1 \<and> a = INT64_MIN)"
    | (pp) "0 < ?a" "0 < ?b" | (pn) "0 < ?a" "?b < 0" | (np) "?a < 0" "0 < ?b"
    | (nn) "?a < 0" "?b < 0" "\<not> ((a = - 1 \<and> b = INT64_MIN) \<or> (b = - 1 \<and> a = INT64_MIN))"
    by (metis i64_eq_iff linorder_neqE sint_0)
  then show ?thesis
  proof cases
    case zero
    then show ?thesis by (auto simp: ck_mul_i64_portable_def ck_mul_i64_def in_i64_def)
  next
    case corner
    then show ?thesis by (auto simp: ck_mul_i64_portable_def ck_mul_i64_def in_i64_def INT64_MIN_def)
  next
    case pp
    then have "sint (c_div64 INT64_MAX b) = 9223372036854775807 div ?b"
      by (subst sint_c_div64) (auto simp: sdiv_nonneg i64_eq_iff)
    moreover have "9223372036854775807 div ?b < ?a \<longleftrightarrow> 9223372036854775807 < ?a * ?b"
      using pp by (intro div_less_iff)
    moreover have "- 9223372036854775808 \<le> ?a * ?b" using mult_range_bounds(1) [OF pp] by linarith
    ultimately show ?thesis using pp
      by (auto simp: ck_mul_i64_portable_def ck_mul_i64_def in_i64_def i64_eq_iff)
  next
    case pn
    then have "sint (c_div64 INT64_MIN a) = - (9223372036854775808 div ?a)"
      by (subst sint_c_div64) (auto simp: sdiv_neg_pos sdiv_nonneg i64_eq_iff)
    moreover have "9223372036854775808 div ?a < - ?b \<longleftrightarrow> 9223372036854775808 < - ?b * ?a"
      using pn by (intro div_less_iff)
    ultimately show ?thesis using pn mult_range_bounds(2) [OF pn]
      by (auto simp: ck_mul_i64_portable_def ck_mul_i64_def in_i64_def i64_eq_iff mult.commute)
  next
    case np
    then have "sint (c_div64 INT64_MIN b) = - (9223372036854775808 div ?b)"
      by (subst sint_c_div64) (auto simp: sdiv_neg_pos sdiv_nonneg i64_eq_iff)
    moreover have "9223372036854775808 div ?b < - ?a \<longleftrightarrow> 9223372036854775808 < - ?a * ?b"
      using np by (intro div_less_iff)
    ultimately show ?thesis using np mult_range_bounds(3) [OF np]
      by (auto simp: ck_mul_i64_portable_def ck_mul_i64_def in_i64_def i64_eq_iff)
  next
    case nn
    then have "sint (c_div64 INT64_MAX a) = - (9223372036854775807 div (- ?a))"
      by (subst sint_c_div64) (auto simp: sdiv_pos_neg i64_eq_iff)
    moreover have "9223372036854775807 div (- ?a) < - ?b \<longleftrightarrow> 9223372036854775807 < - ?b * (- ?a)"
      using nn by (intro div_less_iff) simp
    ultimately show ?thesis using nn mult_range_bounds(4) [OF nn(1,2)]
      by (auto simp: ck_mul_i64_portable_def ck_mul_i64_def in_i64_def i64_eq_iff mult.commute)
  qed
qed

text \<open>
  The portable fallbacks of the checked additions, subtractions and multiplications
  accept exactly the operands whose exact result fits 64 bits, and return that result: they
  agree with the compiler's overflow built-ins on every pair of operands.
\<close>

lemma portable_checks_exact:
  "ck_add_i64_portable a b =
     (if in_i64 (sint a + sint b) then Some (word_of_int (sint a + sint b)) else None)
   \<and> ck_sub_i64_portable a b =
     (if in_i64 (sint a - sint b) then Some (word_of_int (sint a - sint b)) else None)
   \<and> ck_mul_i64_portable a b =
     (if in_i64 (sint a * sint b) then Some (word_of_int (sint a * sint b)) else None)"
  by (simp add: ck_add_portable ck_sub_portable ck_mul_portable ck_add_i64_def ck_sub_i64_def
      ck_mul_i64_def)

subsection \<open>Integer arithmetic is exact or reports\<close>

lemma sint_scast_i32 [simp]: "sint (scast (i :: i32) :: i64) = sint i"
  using sint_word_of_int_i64 [OF in_i64_sint32, of i] by simp

text \<open>The exact result of an arithmetic operator; division truncates towards zero.\<close>

fun exact_arith :: "cdsl_op \<Rightarrow> int \<Rightarrow> int \<Rightarrow> int" where
  "exact_arith CDSL_OP_ADD a b = a + b"
| "exact_arith CDSL_OP_SUB a b = a - b"
| "exact_arith CDSL_OP_MUL a b = a * b"
| "exact_arith _ a b = a sdiv b"

lemma sdiv_corner_i32: "\<not> in_i32 ((- 2147483648) sdiv (- 1))"
  by (simp add: in_i32_def sdiv_neg_neg)

lemma sdiv_corner_i64: "\<not> in_i64 ((- 9223372036854775808) sdiv (- 1))"
  by (simp add: in_i64_def sdiv_neg_neg)

lemma in_i64_sdiv: "in_i64 (sint (a :: i32) sdiv sint (b :: i32))"
  using sdiv_abs_le [of "sint a" "sint b"] in_i32_sint [of a] unfolding in_i32_def in_i64_def by linarith

lemma i32_check:
  "(if x < - 2147483648 \<or> 2147483647 < x then p else q) = (if in_i32 x then q else p)"
  by (auto simp: in_i32_def)

lemma int_arith_exact:
  assumes "cdsl_op_is_arithmetic op"
  shows "cdsl_value_binop op (VInt a) (VInt b) =
    (if op = CDSL_OP_DIV \<and> b = 0 then (CDSL_VALOP_DIV_ZERO, void0)
     else if in_i32 (exact_arith op (sint a) (sint b))
     then (CDSL_VALOP_OK, VInt (word_of_int (exact_arith op (sint a) (sint b))))
     else (CDSL_VALOP_OVERFLOW, void0))"
proof -
  let ?A = "word_of_int (sint a) :: i64" and ?B = "word_of_int (sint b) :: i64"
  have r: "sint (?A + ?B) = sint a + sint b" "sint (?A - ?B) = sint a - sint b"
    "sint (?A * ?B) = sint a * sint b"
    by (simp_all add: sint_add_i64 sint_sub_i64 sint_mult_i64 i32_add_in_i64 i32_sub_in_i64 i32_mult_in_i64)
  have d: "sint (c_div64 ?A ?B) = sint a sdiv sint b"
    by (simp add: c_div64_def in_i64_sdiv)
  have c: "(scast (?A + ?B) :: i32) = word_of_int (sint a + sint b)"
    "(scast (?A - ?B) :: i32) = word_of_int (sint a - sint b)"
    "(scast (?A * ?B) :: i32) = word_of_int (sint a * sint b)"
    "(scast (c_div64 ?A ?B) :: i32) = word_of_int (sint a sdiv sint b)"
    unfolding scast_eq [of "?A + ?B"] scast_eq [of "?A - ?B"] scast_eq [of "?A * ?B"]
      scast_eq [of "c_div64 ?A ?B"] r d by simp_all
  have z: "?B = 0 \<longleftrightarrow> b = 0" by (simp add: i64_eq_iff signed_eq_0_iff)
  consider "op = CDSL_OP_ADD" | "op = CDSL_OP_SUB" | "op = CDSL_OP_MUL" | "op = CDSL_OP_DIV"
    using assms by auto
  then show ?thesis
    using r d c z
    by cases (simp_all add: cdsl_value_binop_def binop_numeric_def binop_int_def i32_check Let_def)
qed

text \<open>
  Claim C26. On two INTs an arithmetic operator returns the exact result as an INT when it
  fits 32 bits and reports an overflow otherwise; division by zero is reported first, and
  \<open>INT_MIN / -1\<close> is an overflow. In particular no intermediate result wraps.
\<close>

theorem int_arithmetic_exact:
  assumes "cdsl_op_is_arithmetic op"
  shows "cdsl_value_binop op (VInt a) (VInt b) =
    (if op = CDSL_OP_DIV \<and> b = 0 then (CDSL_VALOP_DIV_ZERO, void0)
     else if in_i32 (exact_arith op (sint a) (sint b))
     then (CDSL_VALOP_OK, VInt (word_of_int (exact_arith op (sint a) (sint b))))
     else (CDSL_VALOP_OVERFLOW, void0))"
  using assms by (rule int_arith_exact)

lemma int_arithmetic_exact_witness:
  "cdsl_value_binop CDSL_OP_MUL (VInt 65536) (VInt 65536) = (CDSL_VALOP_OVERFLOW, void0)"
  using int_arithmetic_exact [of CDSL_OP_MUL 65536 65536] by (simp add: in_i32_def)

text \<open>Values of the two integer types, read as integers.\<close>

definition is_integer_value :: "cdsl_value \<Rightarrow> bool" where
  "is_integer_value v \<longleftrightarrow> vtype v = CDSL_TYPE_INT \<or> vtype v = CDSL_TYPE_LONG"

fun int_of_value :: "cdsl_value \<Rightarrow> int" where
  "int_of_value (VInt i) = sint i"
| "int_of_value (VLong l) = sint l"
| "int_of_value _ = 0"

lemma is_integer_value_cases [elim!]:
  assumes "is_integer_value v" obtains i where "v = VInt i" | l where "v = VLong l"
  using assms by (cases v) (auto simp: is_integer_value_def)

lemma binop_long_arith:
  assumes "cdsl_op_is_arithmetic op" and "\<not> (op = CDSL_OP_DIV \<and> b = 0)"
  shows "binop_long op a b =
    (if in_i64 (exact_arith op (sint a) (sint b))
     then (CDSL_VALOP_OK, VLong (word_of_int (exact_arith op (sint a) (sint b))))
     else (CDSL_VALOP_OVERFLOW, void0))"
proof (cases "op = CDSL_OP_DIV")
  case True
  show ?thesis
  proof (cases "a = INT64_MIN \<and> b = - 1")
    case c: True
    with True show ?thesis using sdiv_corner_i64 by (simp add: binop_long_def long_arith_def)
  next
    case False
    then have "in_i64 (sint a sdiv sint b)"
      by (intro sdiv_in_i64) (auto simp: i64_eq_iff)
    with True False assms show ?thesis
      by (auto simp add: binop_long_def long_arith_def c_div64_def)
  qed
next
  case False
  with assms(1) consider "op = CDSL_OP_ADD" | "op = CDSL_OP_SUB" | "op = CDSL_OP_MUL" by auto
  then show ?thesis
    by cases (simp_all add: binop_long_def long_arith_def ck_add_i64_def ck_sub_i64_def ck_mul_i64_def)
qed

lemma zero_divisor_integer: "is_integer_value b \<Longrightarrow> is_zero_divisor b \<longleftrightarrow> int_of_value b = 0"
  by (erule is_integer_value_cases) (simp_all add: signed_eq_0_iff)

lemma sint_to_i64: "is_integer_value a \<Longrightarrow> sint (to_i64 a) = int_of_value a"
  by (erule is_integer_value_cases) simp_all

lemma binop_long_cases:
  assumes "is_integer_value a" and "is_integer_value b"
    and "vtype a = CDSL_TYPE_LONG \<or> vtype b = CDSL_TYPE_LONG"
  shows "cdsl_value_binop op a b =
    (if op = CDSL_OP_DIV \<and> is_zero_divisor b then (CDSL_VALOP_DIV_ZERO, void0)
     else binop_long op (to_i64 a) (to_i64 b))"
  using assms
  by (elim is_integer_value_cases) (simp_all add: cdsl_value_binop_def binop_numeric_def)

text \<open>
  When one side is a LONG and the other a LONG or an INT, arithmetic is exact
  64-bit arithmetic: the exact result as a LONG if it fits, otherwise a reported overflow,
  and division by zero is reported before anything else.
\<close>

lemma long_arithmetic_exact:
  assumes "cdsl_op_is_arithmetic op" and "is_integer_value a" and "is_integer_value b"
    and "vtype a = CDSL_TYPE_LONG \<or> vtype b = CDSL_TYPE_LONG"
  shows "cdsl_value_binop op a b =
    (if op = CDSL_OP_DIV \<and> int_of_value b = 0 then (CDSL_VALOP_DIV_ZERO, void0)
     else if in_i64 (exact_arith op (int_of_value a) (int_of_value b))
     then (CDSL_VALOP_OK, VLong (word_of_int (exact_arith op (int_of_value a) (int_of_value b))))
     else (CDSL_VALOP_OVERFLOW, void0))"
  using binop_long_arith [OF assms(1), of "to_i64 b" "to_i64 a"] assms
  by (auto simp: binop_long_cases zero_divisor_integer sint_to_i64 i64_eq_iff simp del: arithmetic_iff)

lemma long_arithmetic_exact_witness:
  "cdsl_value_binop CDSL_OP_DIV (VLong (- 7)) (VInt 2) = (CDSL_VALOP_OK, VLong (- 3))"
  using long_arithmetic_exact [of CDSL_OP_DIV "VLong (- 7)" "VInt 2"]
  by (simp add: is_integer_value_def in_i64_def sdiv_neg_pos)

subsection \<open>Comparisons are exact\<close>

text \<open>What a relational operator means on integers.\<close>

fun exact_cmp :: "cdsl_op \<Rightarrow> int \<Rightarrow> int \<Rightarrow> bool" where
  "exact_cmp CDSL_OP_EQ a b = (a = b)"
| "exact_cmp CDSL_OP_NE a b = (a \<noteq> b)"
| "exact_cmp CDSL_OP_LT a b = (a < b)"
| "exact_cmp CDSL_OP_GT a b = (a > b)"
| "exact_cmp CDSL_OP_LE a b = (a \<le> b)"
| "exact_cmp CDSL_OP_GE a b = (a \<ge> b)"
| "exact_cmp _ a b = False"

lemma eval_cmp3: "cdsl_op_eval_cmp op (cmp3 a b) = exact_cmp op a b"
  by (cases op) (auto simp: cmp3_def)

lemma relational_not_arithmetic: "cdsl_op_is_relational op \<Longrightarrow> \<not> cdsl_op_is_arithmetic op"
  by auto

lemma relational_not_div: "cdsl_op_is_relational op \<Longrightarrow> op \<noteq> CDSL_OP_DIV"
  by auto

lemma int_comparison:
  assumes "cdsl_op_is_relational op" and "is_integer_value a" and "is_integer_value b"
  shows "cdsl_value_binop op a b =
     (CDSL_VALOP_OK, VBool (c_bool (exact_cmp op (int_of_value a) (int_of_value b))))"
  using assms(2,3) relational_not_arithmetic [OF assms(1)] relational_not_div [OF assms(1)] assms(1)
  by (elim is_integer_value_cases)
    (simp_all del: relational_iff arithmetic_iff add: cdsl_value_binop_def binop_numeric_def
      binop_int_def binop_long_def bool_ok_def eval_cmp3)

text \<open>
  Comparing two integer values (INT or LONG, in any mix) decides the comparison of
  the integers they hold: no rounding, whatever the widths.
\<close>

lemma integer_comparison_exact:
  assumes "cdsl_op_is_relational op" and "is_integer_value a" and "is_integer_value b"
  shows "cdsl_value_binop op a b =
     (CDSL_VALOP_OK, VBool (c_bool (exact_cmp op (int_of_value a) (int_of_value b))))"
  using assms by (rule int_comparison)

lemma integer_comparison_exact_witness:
  "cdsl_value_binop CDSL_OP_LT (VLong 9007199254740992) (VLong 9007199254740993)
     = (CDSL_VALOP_OK, VBool 1)"
  using integer_comparison_exact [of CDSL_OP_LT "VLong 9007199254740992" "VLong 9007199254740993"]
  by (simp add: is_integer_value_def)

lemma float_cmp_of_int:
  assumes "cdsl_op_is_relational op" and "in_i32 i" and "in_i32 j"
  shows "float_cmp op (f64_of_int i) (f64_of_int j) = exact_cmp op i j"
  using assms by (cases op) auto

lemma mixed_float_int_comparison:
  assumes "cdsl_op_is_relational op"
  shows "cdsl_value_binop op (VInt i) (VFloat (f64_of_int (sint j))) =
     (CDSL_VALOP_OK, VBool (c_bool (exact_cmp op (sint i) (sint (j :: i32)))))"
  using float_cmp_of_int [OF assms, of "sint i" "sint j"] relational_not_arithmetic [OF assms]
    relational_not_div [OF assms] assms
  by (simp del: relational_iff arithmetic_iff add: cdsl_value_binop_def binop_numeric_def binop_float_def bool_ok_def)

subsection \<open>Dates and unset operands\<close>

lemma day_offset:
  "\<bar>sint (n :: i32) * 86400\<bar> \<le> 9007199254740992" "in_i64 (sint n * 86400)"
  using in_i32_sint [of n] by (auto simp: in_i32_def in_i64_def abs_le_iff)

text \<open>
  Adding \<open>n\<close> days to a date is exact when the result fits a \<open>time_t\<close> and reports an
  overflow otherwise; the sum commutes, subtracting the days gives the date back, and the
  difference of the two dates, computed through doubles, is \<open>n\<close> again for every INT \<open>n\<close>.
\<close>

lemma date_offset_roundtrip:
  "let s = sint d + sint (n :: i32) * 86400; d' = word_of_int s in
   if in_i64 s
   then cdsl_value_binop CDSL_OP_ADD (VDate d) (VInt n) = (CDSL_VALOP_OK, VDate d')
      \<and> cdsl_value_binop CDSL_OP_ADD (VInt n) (VDate d) = (CDSL_VALOP_OK, VDate d')
      \<and> cdsl_value_binop CDSL_OP_SUB (VDate d') (VInt n) = (CDSL_VALOP_OK, VDate d)
      \<and> cdsl_value_binop CDSL_OP_SUB (VDate d') (VDate d) = (CDSL_VALOP_OK, VInt n)
   else cdsl_value_binop CDSL_OP_ADD (VDate d) (VInt n) = (CDSL_VALOP_OVERFLOW, void0)"
proof -
  let ?s = "sint d + sint n * 86400"
  have m: "ck_mul_i64 (word_of_int (sint n)) 86400 = Some (word_of_int (sint n * 86400))"
    using ck_mul_i64_def day_offset(2) [of n] by simp
  have off: "sint (word_of_int (sint n * 86400) :: i64) = sint n * 86400"
    by (rule sint_word_of_int_i64 [OF day_offset(2)])
  have add: "cdsl_value_binop CDSL_OP_ADD (VDate d) (VInt n) = date_result False d (word_of_int (sint n * 86400))"
    "cdsl_value_binop CDSL_OP_ADD (VInt n) (VDate d) = date_result False d (word_of_int (sint n * 86400))"
    "cdsl_value_binop CDSL_OP_SUB (VDate d') (VInt n) = date_result True d' (word_of_int (sint n * 86400))" for d'
    using m by (simp_all add: cdsl_value_binop_def binop_with_date_def)
  show ?thesis
  proof (cases "in_i64 ?s")
    case False
    then show ?thesis
      unfolding Let_def add date_result_def ck_add_i64_def off by simp
  next
    case True
    have sd': "sint (word_of_int ?s :: i64) = ?s" by (rule sint_word_of_int_i64 [OF True])
    have A: "date_result False d (word_of_int (sint n * 86400)) = (CDSL_VALOP_OK, VDate (word_of_int ?s))"
      using True unfolding date_result_def ck_add_i64_def off by simp
    have B: "date_result True (word_of_int ?s) (word_of_int (sint n * 86400)) = (CDSL_VALOP_OK, VDate d)"
      unfolding date_result_def ck_sub_i64_def off sd' by simp
    have "f64_div (difftime (word_of_int ?s) d) (f64_of_int 86400) = f64_of_int (sint n)"
      unfolding difftime_def sd' using f64_div_of_int [OF day_offset(1), of n] by simp
    moreover have "in_i32 (- 2147483648)" "in_i32 2147483647" by (simp_all add: in_i32_def)
    moreover have "- 2147483648 \<le> sint n" "sint n \<le> 2147483647"
      using in_i32_sint [of n] by (simp_all add: in_i32_def)
    ultimately have C: "cdsl_value_binop CDSL_OP_SUB (VDate (word_of_int ?s)) (VDate d) = (CDSL_VALOP_OK, VInt n)"
      using f64_isfinite_of_int [OF in_i32_exact, of "sint n"]
      by (simp add: cdsl_value_binop_def binop_with_date_def binop_dates_def Let_def not_less
          del: f64_lt_of_int add: f64_lt_of_int [of 2147483647 "sint n"]
           f64_lt_of_int [of "- 2147483648" "sint n"] f64_lt_of_int [of "sint n" "- 2147483648"])
    show ?thesis using True A B C unfolding Let_def add by simp
  qed
qed

lemma void_left_operand:
  "cdsl_value_binop op (VVoid r) b =
     (if op = CDSL_OP_DIV \<and> is_zero_divisor b then (CDSL_VALOP_DIV_ZERO, void0)
      else (CDSL_VALOP_VOID_OPERAND, if cdsl_op_is_relational op then VBool 0 else void0))"
  by (simp add: cdsl_value_binop_def)

end
