(* ===== verification/Cdsl_Hashmap.thy ===== *)
theory Cdsl_Hashmap
  imports Cdsl_Prelude
begin

section \<open>The string hash map (\<open>src/util/hashmap.c\<close>)\<close>

text \<open>
  Separate chaining over djb2, with doubling once the load factor passes 3/4. The interface
  the context, the schema and the compile cache use is the locale \<open>string_map\<close>; the hash map
  interprets it, so its clients rest on the map laws and never look into a bucket.
\<close>

subsection \<open>The interface\<close>

locale string_map =
  fixes invar :: "'m \<Rightarrow> bool"
    and get :: "'m \<Rightarrow> string \<Rightarrow> 'v option"
    and put :: "'m \<Rightarrow> string \<Rightarrow> 'v \<Rightarrow> 'm"
    and remove :: "'m \<Rightarrow> string \<Rightarrow> 'm"
  assumes invar_put: "invar m \<Longrightarrow> invar (put m k v)"
    and invar_remove: "invar m \<Longrightarrow> invar (remove m k)"
    and get_put: "invar m \<Longrightarrow> get (put m k v) k' = (if k' = k then Some v else get m k')"
    and get_remove: "invar m \<Longrightarrow> get (remove m k) k' = (if k' = k then None else get m k')"
begin

lemma get_put_same: "invar m \<Longrightarrow> get (put m k v) k = Some v"
  by (simp add: get_put)

lemma get_put_other: "invar m \<Longrightarrow> k' \<noteq> k \<Longrightarrow> get (put m k v) k' = get m k'"
  by (simp add: get_put)

lemma dom_put: "invar m \<Longrightarrow> dom (get (put m k v)) = insert k (dom (get m))"
  by (auto simp: get_put dom_def split: if_splits)

lemma dom_remove: "invar m \<Longrightarrow> dom (get (remove m k)) = dom (get m) - {k}"
  by (auto simp: get_remove dom_def split: if_splits)

lemma put_overwrites:
  "invar m \<Longrightarrow> get (put (put m k v) k w) = get (put m k w)"
  by (simp add: get_put invar_put fun_eq_iff)

lemma remove_put: "invar m \<Longrightarrow> get m k = None \<Longrightarrow> get (remove (put m k v) k) = get m"
  by (auto simp: get_put get_remove invar_put fun_eq_iff)

lemma invar_puts: "invar m \<Longrightarrow> invar (fold (\<lambda>(k, v) m. put m k v) kvs m)"
  by (induction kvs arbitrary: m) (auto simp: invar_put)

lemma get_puts:
  "invar m \<Longrightarrow> get (fold (\<lambda>(k, v) m. put m k v) kvs m) k =
     (case map_of (rev kvs) k of None \<Rightarrow> get m k | Some v \<Rightarrow> Some v)"
proof (induction kvs arbitrary: m)
  case (Cons kv kvs)
  obtain a b where kv: "kv = (a, b)" by (cases kv)
  from Cons.prems have "invar (put m a b)" by (rule invar_put)
  from Cons.IH [OF this] Cons.prems show ?case
    by (simp add: kv get_put map_add_def split: option.splits)
qed simp

end

subsection \<open>The table and its operations\<close>

definition CDSL_HASHMAP_MIN_BUCKETS :: nat where
  "CDSL_HASHMAP_MIN_BUCKETS = 64"

definition CDSL_HASHMAP_MAX_BUCKETS :: nat where
  "CDSL_HASHMAP_MAX_BUCKETS = 1048576"

record 'v cdsl_hashmap =
  hm_buckets :: "(string \<times> 'v) list list"
  hm_bucket_count :: nat
  hm_size :: nat

fun djb2 :: "32 word \<Rightarrow> string \<Rightarrow> 32 word" where
  "djb2 h [] = h"
| "djb2 h (c # cs) = djb2 (push_bit 5 h + h + of_nat (of_char c)) cs"

definition hash_string :: "string \<Rightarrow> nat \<Rightarrow> nat" where
  "hash_string key bucket_count = unat (djb2 5381 key) mod bucket_count"

definition move_entry ::
  "nat \<Rightarrow> string \<times> 'v \<Rightarrow> (string \<times> 'v) list list \<Rightarrow> (string \<times> 'v) list list" where
  "move_entry n e bs = (let i = hash_string (fst e) n in bs[i := e # bs ! i])"

definition rehash_internal :: "'v cdsl_hashmap \<Rightarrow> bool \<times> 'v cdsl_hashmap" where
  "rehash_internal m =
     (let n = hm_bucket_count m * 2 in
      if CDSL_HASHMAP_MAX_BUCKETS < n then (False, m)
      else (True, m\<lparr>hm_buckets := fold (move_entry n) (concat (hm_buckets m)) (replicate n []),
                    hm_bucket_count := n\<rparr>))"

definition cdsl_hashmap_create :: "int \<Rightarrow> 'v cdsl_hashmap" where
  "cdsl_hashmap_create bucket_count =
     (let n = (if 0 < bucket_count then nat bucket_count else CDSL_HASHMAP_MIN_BUCKETS)
      in \<lparr>hm_buckets = replicate n [], hm_bucket_count = n, hm_size = 0\<rparr>)"

fun chain_get :: "(string \<times> 'v) list \<Rightarrow> string \<Rightarrow> 'v option" where
  "chain_get [] key = None"
| "chain_get (e # es) key = (if fst e = key then Some (snd e) else chain_get es key)"

fun chain_set :: "(string \<times> 'v) list \<Rightarrow> string \<Rightarrow> 'v \<Rightarrow> (string \<times> 'v) list" where
  "chain_set [] key v = []"
| "chain_set (e # es) key v =
     (if fst e = key then (fst e, v) # es else e # chain_set es key v)"

fun chain_remove :: "(string \<times> 'v) list \<Rightarrow> string \<Rightarrow> (string \<times> 'v) list" where
  "chain_remove [] key = []"
| "chain_remove (e # es) key = (if fst e = key then es else e # chain_remove es key)"

definition cdsl_hashmap_get :: "'v cdsl_hashmap \<Rightarrow> string \<Rightarrow> 'v option" where
  "cdsl_hashmap_get m key = chain_get (hm_buckets m ! hash_string key (hm_bucket_count m)) key"

fun chain_has :: "(string \<times> 'v) list \<Rightarrow> string \<Rightarrow> bool" where
  "chain_has [] key = False"
| "chain_has (e # es) key = (if fst e = key then True else chain_has es key)"

definition cdsl_hashmap_has :: "'v cdsl_hashmap \<Rightarrow> string \<Rightarrow> bool" where
  "cdsl_hashmap_has m key = chain_has (hm_buckets m ! hash_string key (hm_bucket_count m)) key"

definition cdsl_hashmap_put :: "'v cdsl_hashmap \<Rightarrow> string \<Rightarrow> 'v \<Rightarrow> 'v cdsl_hashmap" where
  "cdsl_hashmap_put m key value =
     (let idx = hash_string key (hm_bucket_count m); b = hm_buckets m ! idx in
      if chain_get b key \<noteq> None
      then m\<lparr>hm_buckets := (hm_buckets m)[idx := chain_set b key value]\<rparr>
      else
        let m1 = m\<lparr>hm_buckets := (hm_buckets m)[idx := (key, value) # b],
                   hm_size := hm_size m + 1\<rparr>
        in if hm_bucket_count m1 < CDSL_HASHMAP_MAX_BUCKETS
              \<and> hm_bucket_count m1 * 3 < hm_size m1 * 4
           then snd (rehash_internal m1) else m1)"

definition cdsl_hashmap_remove :: "'v cdsl_hashmap \<Rightarrow> string \<Rightarrow> bool \<times> 'v cdsl_hashmap" where
  "cdsl_hashmap_remove m key =
     (let idx = hash_string key (hm_bucket_count m); b = hm_buckets m ! idx in
      if chain_get b key \<noteq> None
      then (True, m\<lparr>hm_buckets := (hm_buckets m)[idx := chain_remove b key],
                    hm_size := hm_size m - 1\<rparr>)
      else (False, m))"

definition cdsl_hashmap_keys :: "'v cdsl_hashmap \<Rightarrow> string list" where
  "cdsl_hashmap_keys m = map fst (concat (hm_buckets m))"

definition cdsl_hashmap_iterate ::
  "'v cdsl_hashmap \<Rightarrow> (string \<Rightarrow> 'v \<Rightarrow> 's \<Rightarrow> 's) \<Rightarrow> 's \<Rightarrow> 's" where
  "cdsl_hashmap_iterate m cb s = fold (\<lambda>(k, v). cb k v) (concat (hm_buckets m)) s"

text \<open>\<open>cdsl_hashmap_free\<close> hands every stored value to the destructor, bucket by bucket.\<close>

definition cdsl_hashmap_free :: "'v cdsl_hashmap \<Rightarrow> ('v \<Rightarrow> 's \<Rightarrow> 's) \<Rightarrow> 's \<Rightarrow> 's" where
  "cdsl_hashmap_free m free_fn s = fold (\<lambda>e. free_fn (snd e)) (concat (hm_buckets m)) s"

subsection \<open>Chains\<close>

lemma chain_get_map_of: "chain_get es k = map_of es k"
  by (induction es) auto

lemma chain_has_map_of: "chain_has es k \<longleftrightarrow> map_of es k \<noteq> None"
  by (induction es) auto

lemma keys_chain_set [simp]: "map fst (chain_set es k v) = map fst es"
  by (induction es) auto

lemma map_of_chain_set:
  "map_of es k \<noteq> None \<Longrightarrow> map_of (chain_set es k v) k' = (if k' = k then Some v else map_of es k')"
  by (induction es) auto

lemma length_chain_set [simp]: "length (chain_set es k v) = length es"
  by (induction es) auto

lemma chain_remove_filter:
  "distinct (map fst es) \<Longrightarrow> chain_remove es k = filter (\<lambda>e. fst e \<noteq> k) es"
proof (induction es)
  case (Cons e es)
  then show ?case by (cases "fst e = k") (auto simp: image_iff intro!: filter_True [symmetric])
qed simp

lemma map_of_filter_key: "map_of (filter (\<lambda>e. fst e \<noteq> k) es) k' = (if k' = k then None else map_of es k')"
  by (induction es) auto

lemma length_chain_remove: "map_of es k \<noteq> None \<Longrightarrow> Suc (length (chain_remove es k)) = length es"
  by (induction es) auto

subsection \<open>The bucket invariant\<close>

definition look :: "nat \<Rightarrow> (string \<times> 'v) list list \<Rightarrow> string \<Rightarrow> 'v option" where
  "look n bs k = map_of (bs ! hash_string k n) k"

definition buckets_ok :: "nat \<Rightarrow> (string \<times> 'v) list list \<Rightarrow> bool" where
  "buckets_ok n bs \<longleftrightarrow> 0 < n \<and> length bs = n
     \<and> (\<forall>i<n. distinct (map fst (bs ! i)) \<and> (\<forall>e\<in>set (bs ! i). hash_string (fst e) n = i))"

text \<open>
  A well-formed table: every entry sits in the bucket of its hash, no key occurs twice, and
  \<open>size\<close> counts the entries.
\<close>

definition hm_ok :: "'v cdsl_hashmap \<Rightarrow> bool" where
  "hm_ok m \<longleftrightarrow> buckets_ok (hm_bucket_count m) (hm_buckets m)
     \<and> hm_size m = length (concat (hm_buckets m))"

lemma hash_string_less [simp, intro]: "0 < n \<Longrightarrow> hash_string k n < n"
  by (simp add: hash_string_def)

lemma cdsl_hashmap_get_look: "cdsl_hashmap_get m k = look (hm_bucket_count m) (hm_buckets m) k"
  by (simp add: cdsl_hashmap_get_def look_def chain_get_map_of)

lemma buckets_ok_update:
  assumes "buckets_ok n bs" and "distinct (map fst b)"
    and "\<forall>e\<in>set b. hash_string (fst e) n = i"
  shows "buckets_ok n (bs[i := b])"
proof (cases "i < length bs")
  case True
  with assms show ?thesis unfolding buckets_ok_def by (simp add: nth_list_update)
next
  case False
  with assms show ?thesis by (simp add: buckets_ok_def list_update_beyond)
qed

lemma buckets_okD:
  assumes "buckets_ok n bs"
  shows "0 < n" and "length bs = n" and "distinct (map fst (bs ! hash_string k n))"
    and "\<forall>e\<in>set (bs ! hash_string k n). hash_string (fst e) n = hash_string k n"
  using assms by (auto simp: buckets_ok_def)

lemma look_update:
  assumes "buckets_ok n bs"
    and "\<forall>k'. hash_string k' n = hash_string k n \<longrightarrow>
           map_of b k' = (if k' = k then v else look n bs k')"
  shows "look n (bs[hash_string k n := b]) k' = (if k' = k then v else look n bs k')"
  using assms buckets_okD(1,2) [OF assms(1)] by (auto simp: look_def nth_list_update)

lemma length_concat_update:
  "i < length bs \<Longrightarrow> length (concat (bs[i := b])) + length (bs ! i) = length (concat bs) + length b"
  by (induction bs arbitrary: i) (auto split: nat.splits)

lemma move_entry_ok:
  assumes ok: "buckets_ok n bs" and new: "look n bs k = None"
  shows "buckets_ok n (move_entry n (k, v) bs)"
    and "look n (move_entry n (k, v) bs) k' = (if k' = k then Some v else look n bs k')"
    and "length (concat (move_entry n (k, v) bs)) = Suc (length (concat bs))"
proof -
  note d = buckets_okD [OF ok]
  have "k \<notin> fst ` set (bs ! hash_string k n)"
    using new by (simp add: look_def map_of_eq_None_iff)
  then show "buckets_ok n (move_entry n (k, v) bs)"
    unfolding move_entry_def Let_def fst_conv
    using d(3,4) by (intro buckets_ok_update [OF ok]) auto
  show "look n (move_entry n (k, v) bs) k' = (if k' = k then Some v else look n bs k')"
    unfolding move_entry_def Let_def fst_conv
    by (rule look_update [OF ok]) (auto simp: look_def)
  show "length (concat (move_entry n (k, v) bs)) = Suc (length (concat bs))"
    using length_concat_update [of "hash_string k n" bs "(k, v) # bs ! hash_string k n"] d(1,2)
    by (simp add: move_entry_def Let_def)
qed

lemma fold_move_entry:
  assumes "buckets_ok n bs" and "distinct (map fst es)"
    and "\<forall>k\<in>fst ` set es. look n bs k = None"
  shows "buckets_ok n (fold (move_entry n) es bs)
    \<and> (\<forall>k. look n (fold (move_entry n) es bs) k = (case map_of es k of None \<Rightarrow> look n bs k | Some v \<Rightarrow> Some v))
    \<and> length (concat (fold (move_entry n) es bs)) = length es + length (concat bs)"
  using assms
proof (induction es arbitrary: bs)
  case (Cons e es)
  obtain k v where e: "e = (k, v)" by (cases e)
  from Cons.prems have new: "look n bs k = None" by (simp add: e)
  note m = move_entry_ok [OF Cons.prems(1) new, of v]
  have "\<forall>k'\<in>fst ` set es. look n (move_entry n (k, v) bs) k' = None"
    using Cons.prems by (auto simp: m(2) e)
  note ih = Cons.IH [OF m(1) _ this]
  have "map_of es k = None" using Cons.prems by (simp add: e map_of_eq_None_iff)
  with ih Cons.prems show ?case by (auto simp: e m(2,3) split: option.splits)
qed simp

lemma distinct_concat_hash:
  "\<lbrakk>\<forall>i<length bs. distinct (map fst (bs ! i)) \<and> (\<forall>e\<in>set (bs ! i). h (fst e) = i)\<rbrakk>
     \<Longrightarrow> distinct (map fst (concat bs))"
proof (induction bs rule: rev_induct)
  case (snoc b bs)
  have "\<forall>i<length bs. distinct (map fst (bs ! i)) \<and> (\<forall>e\<in>set (bs ! i). h (fst e) = i)"
  proof (intro allI impI)
    fix i assume "i < length bs"
    with spec [OF snoc.prems, of i]
    show "distinct (map fst (bs ! i)) \<and> (\<forall>e\<in>set (bs ! i). h (fst e) = i)"
      by (simp add: nth_append)
  qed
  note this' = this snoc.IH [OF this]
  moreover from spec [OF snoc.prems, of "length bs"]
  have "distinct (map fst b)" and "\<forall>e\<in>set b. h (fst e) = length bs" by simp_all
  moreover have "\<forall>b'\<in>set bs. \<forall>e\<in>set b'. h (fst e) < length bs"
    using this'(1) by (metis in_set_conv_nth)
  ultimately show ?case by (fastforce simp: distinct_append)
qed simp

lemma look_map_of_concat:
  assumes "buckets_ok n bs"
  shows "distinct (map fst (concat bs))" and "map_of (concat bs) k = look n bs k"
proof -
  note d = buckets_okD [OF assms]
  show dc: "distinct (map fst (concat bs))"
    using assms by (intro distinct_concat_hash [of bs "\<lambda>k. hash_string k n"]) (simp add: buckets_ok_def)
  have "(k, v) \<in> set (concat bs) \<longleftrightarrow> (k, v) \<in> set (bs ! hash_string k n)" for v
  proof
    assume "(k, v) \<in> set (concat bs)"
    then obtain i where "i < n" and "(k, v) \<in> set (bs ! i)"
      using d(2) by (auto simp: in_set_conv_nth) (metis in_set_conv_nth)
    moreover from this have "hash_string k n = i" using assms by (fastforce simp: buckets_ok_def)
    ultimately show "(k, v) \<in> set (bs ! hash_string k n)" by simp
  next
    assume "(k, v) \<in> set (bs ! hash_string k n)"
    with d(1,2) show "(k, v) \<in> set (concat bs)" by (auto intro!: bexI [of _ "bs ! hash_string k n"])
  qed
  with dc d(3) have "map_of (concat bs) k = Some v \<longleftrightarrow> look n bs k = Some v" for v
    by (simp add: look_def)
  then show "map_of (concat bs) k = look n bs k" by (metis not_None_eq)
qed

subsection \<open>The operations keep the invariant and are those of a map\<close>

lemma buckets_ok_replicate: "0 < n \<Longrightarrow> buckets_ok n (replicate n [])"
  by (simp add: buckets_ok_def)

lemma look_replicate [simp]: "0 < n \<Longrightarrow> look n (replicate n []) k = None"
  by (simp add: look_def)

lemma hm_ok_create: "hm_ok (cdsl_hashmap_create n)"
  by (auto simp: hm_ok_def cdsl_hashmap_create_def Let_def buckets_ok_replicate
      CDSL_HASHMAP_MIN_BUCKETS_def)

lemma get_create [simp]: "cdsl_hashmap_get (cdsl_hashmap_create n) k = None"
  by (simp add: cdsl_hashmap_get_look cdsl_hashmap_create_def Let_def CDSL_HASHMAP_MIN_BUCKETS_def)

lemma get_create_empty: "cdsl_hashmap_get (cdsl_hashmap_create n) = Map.empty"
  by (simp add: fun_eq_iff)

lemma rehash_ok:
  assumes "hm_ok m"
  shows "hm_ok (snd (rehash_internal m))"
    and "cdsl_hashmap_get (snd (rehash_internal m)) k = cdsl_hashmap_get m k"
    and "hm_size (snd (rehash_internal m)) = hm_size m"
proof -
  let ?n = "hm_bucket_count m * 2" and ?es = "concat (hm_buckets m)"
  have ok: "buckets_ok (hm_bucket_count m) (hm_buckets m)" and sz: "hm_size m = length ?es"
    using assms by (simp_all add: hm_ok_def)
  have n: "0 < ?n" using buckets_okD(1) [OF ok] by simp
  note f = fold_move_entry [OF buckets_ok_replicate [OF n] look_map_of_concat(1) [OF ok], simplified n]
  have f': "buckets_ok ?n (fold (move_entry ?n) ?es (replicate ?n []))"
    "look ?n (fold (move_entry ?n) ?es (replicate ?n [])) k = look (hm_bucket_count m) (hm_buckets m) k"
    for k
    using f look_map_of_concat(2) [OF ok, of k] n by (auto split: option.splits)
  have l: "length (concat (fold (move_entry ?n) ?es (replicate ?n []))) = length ?es"
    using f n by simp
  show "hm_ok (snd (rehash_internal m))"
    using assms f' l sz by (simp add: rehash_internal_def Let_def hm_ok_def)
  show "cdsl_hashmap_get (snd (rehash_internal m)) k = cdsl_hashmap_get m k"
    using f'(2) by (simp add: rehash_internal_def Let_def cdsl_hashmap_get_look)
  show "hm_size (snd (rehash_internal m)) = hm_size m"
    by (simp add: rehash_internal_def Let_def)
qed


lemma put_ok:
  assumes "hm_ok m"
  shows "hm_ok (cdsl_hashmap_put m k v)"
    and "cdsl_hashmap_get (cdsl_hashmap_put m k v) k' = (if k' = k then Some v else cdsl_hashmap_get m k')"
proof -
  let ?n = "hm_bucket_count m" and ?bs = "hm_buckets m"
  let ?i = "hash_string k ?n"
  have ok: "buckets_ok ?n ?bs" and sz: "hm_size m = length (concat ?bs)"
    using assms by (simp_all add: hm_ok_def)
  note d = buckets_okD [OF ok]
  have "hm_ok (cdsl_hashmap_put m k v) \<and>
    cdsl_hashmap_get (cdsl_hashmap_put m k v) k' = (if k' = k then Some v else cdsl_hashmap_get m k')"
  proof (cases "map_of (?bs ! ?i) k = None")
    case False
    have "\<forall>e\<in>set (chain_set (?bs ! ?i) k v). hash_string (fst e) ?n = ?i"
      using d(4) keys_chain_set [of "?bs ! ?i" k v] by (metis (no_types, lifting) image_iff list.set_map)
    then have b: "buckets_ok ?n (?bs[?i := chain_set (?bs ! ?i) k v])"
      using d(3) by (intro buckets_ok_update [OF ok]) auto
    moreover have "look ?n (?bs[?i := chain_set (?bs ! ?i) k v]) k' =
      (if k' = k then Some v else look ?n ?bs k')"
      using False by (intro look_update [OF ok]) (simp add: map_of_chain_set look_def)
    ultimately show ?thesis
      using False sz length_concat_update [of ?i ?bs "chain_set (?bs ! ?i) k v"] d(1,2)
      by (simp add: cdsl_hashmap_put_def Let_def chain_get_map_of hm_ok_def cdsl_hashmap_get_look)
  next
    case True
    then have new: "look ?n ?bs k = None" by (simp add: look_def)
    let ?m1 = "m\<lparr>hm_buckets := ?bs[?i := (k, v) # ?bs ! ?i], hm_size := hm_size m + 1\<rparr>"
    note me = move_entry_ok [OF ok new, of v, unfolded move_entry_def Let_def fst_conv]
    have ok1: "hm_ok ?m1" using me sz by (simp add: hm_ok_def)
    have g1: "cdsl_hashmap_get ?m1 k' = (if k' = k then Some v else cdsl_hashmap_get m k')"
      using me by (simp add: cdsl_hashmap_get_look)
    have "cdsl_hashmap_put m k v = ?m1 \<or> cdsl_hashmap_put m k v = snd (rehash_internal ?m1)"
      using True by (simp add: cdsl_hashmap_put_def chain_get_map_of Let_def)
    with ok1 g1 rehash_ok [OF ok1] show ?thesis by metis
  qed
  then show "hm_ok (cdsl_hashmap_put m k v)"
    and "cdsl_hashmap_get (cdsl_hashmap_put m k v) k' = (if k' = k then Some v else cdsl_hashmap_get m k')"
    by simp_all
qed

lemma remove_ok:
  assumes "hm_ok m"
  shows "hm_ok (snd (cdsl_hashmap_remove m k))"
    and "cdsl_hashmap_get (snd (cdsl_hashmap_remove m k)) k' = (if k' = k then None else cdsl_hashmap_get m k')"
    and "fst (cdsl_hashmap_remove m k) = (cdsl_hashmap_get m k \<noteq> None)"
proof -
  let ?n = "hm_bucket_count m" and ?bs = "hm_buckets m"
  let ?i = "hash_string k ?n"
  have ok: "buckets_ok ?n ?bs" and sz: "hm_size m = length (concat ?bs)"
    using assms by (simp_all add: hm_ok_def)
  note d = buckets_okD [OF ok]
  show "fst (cdsl_hashmap_remove m k) = (cdsl_hashmap_get m k \<noteq> None)"
    by (simp add: cdsl_hashmap_remove_def Let_def cdsl_hashmap_get_def)
  have rm: "chain_remove (?bs ! ?i) k = filter (\<lambda>e. fst e \<noteq> k) (?bs ! ?i)"
    by (rule chain_remove_filter [OF d(3)])
  have b: "buckets_ok ?n (?bs[?i := chain_remove (?bs ! ?i) k])"
    unfolding rm using d(3,4) by (intro buckets_ok_update [OF ok]) (auto simp: distinct_map_filter)
  have l: "look ?n (?bs[?i := chain_remove (?bs ! ?i) k]) k' = (if k' = k then None else look ?n ?bs k')"
    unfolding rm by (intro look_update [OF ok]) (simp add: map_of_filter_key look_def)
  have len: "length (concat (?bs[?i := chain_remove (?bs ! ?i) k])) = hm_size m - 1"
    if "map_of (?bs ! ?i) k \<noteq> None"
    using length_concat_update [of ?i ?bs "chain_remove (?bs ! ?i) k"] d(1,2) sz
      length_chain_remove [OF that] by simp
  show "hm_ok (snd (cdsl_hashmap_remove m k))"
    using b len assms by (simp add: cdsl_hashmap_remove_def Let_def chain_get_map_of hm_ok_def)
  show "cdsl_hashmap_get (snd (cdsl_hashmap_remove m k)) k' = (if k' = k then None else cdsl_hashmap_get m k')"
    using l by (auto simp: cdsl_hashmap_remove_def Let_def chain_get_map_of cdsl_hashmap_get_look)
      (simp add: look_def)
qed

interpretation hm: string_map hm_ok cdsl_hashmap_get cdsl_hashmap_put
  "\<lambda>m k. snd (cdsl_hashmap_remove m k)"
  by unfold_locales (auto simp: put_ok remove_ok)

lemma has_iff_get: "cdsl_hashmap_has m k \<longleftrightarrow> cdsl_hashmap_get m k \<noteq> None"
  by (simp add: cdsl_hashmap_has_def cdsl_hashmap_get_def chain_has_map_of chain_get_map_of)

lemma hm_okD: "hm_ok m \<Longrightarrow> buckets_ok (hm_bucket_count m) (hm_buckets m)"
  by (simp add: hm_ok_def)

lemma get_map_of_entries: "hm_ok m \<Longrightarrow> cdsl_hashmap_get m = map_of (concat (hm_buckets m))"
  by (simp add: fun_eq_iff cdsl_hashmap_get_look look_map_of_concat(2) [OF hm_okD])

lemma keys_distinct: "hm_ok m \<Longrightarrow> distinct (cdsl_hashmap_keys m)"
  by (simp add: cdsl_hashmap_keys_def look_map_of_concat(1) [OF hm_okD] del: map_concat)

lemma set_keys: "hm_ok m \<Longrightarrow> set (cdsl_hashmap_keys m) = dom (cdsl_hashmap_get m)"
  by (simp add: cdsl_hashmap_keys_def get_map_of_entries dom_map_of_conv_image_fst)

lemma length_keys: "hm_ok m \<Longrightarrow> length (cdsl_hashmap_keys m) = hm_size m"
  by (simp add: cdsl_hashmap_keys_def hm_ok_def)

text \<open>The load factor: above 3/4 only when doubling would pass the bucket limit.\<close>

definition load_ok :: "'v cdsl_hashmap \<Rightarrow> bool" where
  "load_ok m \<longleftrightarrow> hm_size m * 4 \<le> hm_bucket_count m * 3
     \<or> CDSL_HASHMAP_MAX_BUCKETS < hm_bucket_count m * 2"

lemma load_ok_create: "load_ok (cdsl_hashmap_create n)"
  by (simp add: load_ok_def cdsl_hashmap_create_def Let_def)

lemma load_ok_put: "hm_ok m \<Longrightarrow> load_ok m \<Longrightarrow> load_ok (cdsl_hashmap_put m k v)"
proof -
  assume "hm_ok m" and l: "load_ok m"
  then have "1 \<le> hm_bucket_count m" using buckets_okD(1) [OF hm_okD, of m] by simp
  then have "hm_size m * 4 \<le> hm_bucket_count m * 3 \<Longrightarrow> (hm_size m + 1) * 4 \<le> (hm_bucket_count m * 2) * 3"
    by presburger
  with l show ?thesis
    by (auto simp: load_ok_def cdsl_hashmap_put_def rehash_internal_def Let_def
        CDSL_HASHMAP_MAX_BUCKETS_def)
qed

lemma load_ok_remove: "load_ok m \<Longrightarrow> load_ok (snd (cdsl_hashmap_remove m k))"
  by (auto simp: load_ok_def cdsl_hashmap_remove_def Let_def)

subsection \<open>Reachable tables\<close>

datatype 'v hm_op = HPut string 'v | HRemove string

fun hm_exec :: "'v hm_op \<Rightarrow> 'v cdsl_hashmap \<Rightarrow> 'v cdsl_hashmap" where
  "hm_exec (HPut k v) m = cdsl_hashmap_put m k v"
| "hm_exec (HRemove k) m = snd (cdsl_hashmap_remove m k)"

fun map_exec :: "'v hm_op \<Rightarrow> (string \<rightharpoonup> 'v) \<Rightarrow> (string \<rightharpoonup> 'v)" where
  "map_exec (HPut k v) f = f(k \<mapsto> v)"
| "map_exec (HRemove k) f = f(k := None)"

lemma hm_exec_ok: "hm_ok m \<Longrightarrow> hm_ok (hm_exec p m)"
  by (cases p) (auto intro: put_ok remove_ok)

lemma hm_exec_abs: "hm_ok m \<Longrightarrow> cdsl_hashmap_get (hm_exec p m) = map_exec p (cdsl_hashmap_get m)"
  by (cases p) (auto simp: put_ok remove_ok fun_eq_iff)

lemma hm_exec_load: "hm_ok m \<Longrightarrow> load_ok m \<Longrightarrow> load_ok (hm_exec p m)"
  by (cases p) (auto intro: load_ok_put load_ok_remove)

lemma hm_execs:
  "\<lbrakk>hm_ok m; load_ok m\<rbrakk> \<Longrightarrow> hm_ok (fold hm_exec ps m) \<and> load_ok (fold hm_exec ps m)
     \<and> cdsl_hashmap_get (fold hm_exec ps m) = fold map_exec ps (cdsl_hashmap_get m)"
  by (induction ps arbitrary: m) (auto simp: hm_exec_ok hm_exec_load hm_exec_abs)

text \<open>
  Claim C39. The hash map refines a finite map: after any sequence of puts and removes on a
  fresh table, through every rehash, a lookup and a membership test answer as the map does.
\<close>

theorem hashmap_refines_map:
  "cdsl_hashmap_get (fold hm_exec ps (cdsl_hashmap_create n)) = fold map_exec ps Map.empty
   \<and> (\<forall>k. cdsl_hashmap_has (fold hm_exec ps (cdsl_hashmap_create n)) k
          = (fold map_exec ps Map.empty k \<noteq> None))"
proof -
  have "cdsl_hashmap_get (fold hm_exec ps (cdsl_hashmap_create n)) = fold map_exec ps Map.empty"
    using hm_execs [OF hm_ok_create load_ok_create, of ps n] by (simp add: get_create_empty)
  then show ?thesis by (simp add: has_iff_get)
qed

text \<open>
  In every table reachable from a fresh one each key is listed once, the listed
  keys are exactly the bound ones, \<open>size\<close> counts them, and the load factor stays at most
  3/4 until doubling would pass the bucket limit.
\<close>

lemma hashmap_counts:
  "let m = fold hm_exec ps (cdsl_hashmap_create n) in
     distinct (cdsl_hashmap_keys m) \<and> set (cdsl_hashmap_keys m) = dom (cdsl_hashmap_get m)
     \<and> hm_size m = card (dom (cdsl_hashmap_get m))
     \<and> (hm_size m * 4 \<le> hm_bucket_count m * 3 \<or> CDSL_HASHMAP_MAX_BUCKETS < hm_bucket_count m * 2)"
proof -
  have ok: "hm_ok (fold hm_exec ps (cdsl_hashmap_create n))"
    and "load_ok (fold hm_exec ps (cdsl_hashmap_create n))"
    using hm_execs [OF hm_ok_create load_ok_create, of ps n] by simp_all
  then show ?thesis
    using distinct_card [OF keys_distinct [OF ok]]
    by (simp add: Let_def load_ok_def keys_distinct set_keys length_keys)
qed

end
