(* ===== verification/Cdsl_Error.thy ===== *)
theory Cdsl_Error
  imports Cdsl_Prelude
begin

section \<open>Structured errors (\<open>src/util/error.c\<close>)\<close>

text \<open>
  Error records, the growable error list that the verifier, the analyser and the parser
  collect into, and the allocation-failure countdown that the test builds hook into
  \<open>cdsl_strdup\<close>. Strings are HOL strings; a nullable \<open>char*\<close> is a \<open>string option\<close>. The
  allocator itself is taken to succeed.
\<close>

datatype cdsl_error_kind =
    CDSL_ERR_SYNTAX | CDSL_ERR_TYPE | CDSL_ERR_SEMANTIC | CDSL_ERR_RUNTIME
  | CDSL_ERR_WARNING | CDSL_ERR_RESOURCE_LIMIT

record cdsl_error =
  err_kind :: cdsl_error_kind
  err_line :: int
  err_column :: int
  err_message :: string
  err_hint :: "string option"

fun cdsl_error_kind_str :: "cdsl_error_kind \<Rightarrow> string" where
  "cdsl_error_kind_str CDSL_ERR_SYNTAX = ''SYNTAX''"
| "cdsl_error_kind_str CDSL_ERR_TYPE = ''TYPE''"
| "cdsl_error_kind_str CDSL_ERR_SEMANTIC = ''SEMANTIC''"
| "cdsl_error_kind_str CDSL_ERR_RUNTIME = ''RUNTIME''"
| "cdsl_error_kind_str CDSL_ERR_RESOURCE_LIMIT = ''RESOURCE_LIMIT''"
| "cdsl_error_kind_str CDSL_ERR_WARNING = ''WARNING''"

definition cdsl_error_create ::
  "cdsl_error_kind \<Rightarrow> int \<Rightarrow> int \<Rightarrow> string option \<Rightarrow> string option \<Rightarrow> cdsl_error" where
  "cdsl_error_create kind line column message hint =
     \<lparr>err_kind = kind, err_line = line, err_column = column,
      err_message = (case message of None \<Rightarrow> '''' | Some m \<Rightarrow> m), err_hint = hint\<rparr>"

definition cdsl_error_print :: "cdsl_error \<Rightarrow> string" where
  "cdsl_error_print e =
     ''['' @ cdsl_error_kind_str (err_kind e) @ ''] line '' @ dec_of_int (err_line e)
     @ '', col '' @ dec_of_int (err_column e) @ '': '' @ err_message e
     @ (case err_hint e of None \<Rightarrow> [] | Some h \<Rightarrow> CHR 0x0A # ''  hint: '' @ h) @ [CHR 0x0A]"

subsection \<open>The error list\<close>

record cdsl_error_list =
  el_errors :: "cdsl_error list"
  el_count :: nat
  el_capacity :: nat

definition cdsl_error_list_create :: cdsl_error_list where
  "cdsl_error_list_create = \<lparr>el_errors = [], el_count = 0, el_capacity = 16\<rparr>"

definition cdsl_error_list_add :: "cdsl_error_list \<Rightarrow> cdsl_error option \<Rightarrow> cdsl_error_list" where
  "cdsl_error_list_add l err =
     (case err of None \<Rightarrow> l
      | Some e \<Rightarrow>
          let cap = (if el_capacity l \<le> el_count l then el_capacity l * 2 else el_capacity l)
          in \<lparr>el_errors = el_errors l @ [e], el_count = el_count l + 1, el_capacity = cap\<rparr>)"

definition cdsl_error_list_has_errors :: "cdsl_error_list \<Rightarrow> bool" where
  "cdsl_error_list_has_errors l \<longleftrightarrow> 0 < el_count l"

definition cdsl_error_list_print :: "cdsl_error_list \<Rightarrow> string" where
  "cdsl_error_list_print l = concat (map cdsl_error_print (el_errors l))"

text \<open>Every slot below \<open>count\<close> is filled and the array is never written past its capacity.\<close>

definition error_list_ok :: "cdsl_error_list \<Rightarrow> bool" where
  "error_list_ok l \<longleftrightarrow>
     length (el_errors l) = el_count l \<and> el_count l \<le> el_capacity l \<and> 0 < el_capacity l"

lemma error_list_ok_create [simp, intro]: "error_list_ok cdsl_error_list_create"
  by (simp add: error_list_ok_def cdsl_error_list_create_def)

lemma error_list_ok_add [simp, intro]: "error_list_ok l \<Longrightarrow> error_list_ok (cdsl_error_list_add l e)"
  by (auto simp: error_list_ok_def cdsl_error_list_add_def Let_def split: option.splits)

lemma el_errors_add [simp]:
  "el_errors (cdsl_error_list_add l e) = el_errors l @ (case e of None \<Rightarrow> [] | Some x \<Rightarrow> [x])"
  by (simp add: cdsl_error_list_add_def Let_def split: option.splits)

lemma el_errors_create [simp]: "el_errors cdsl_error_list_create = []"
  by (simp add: cdsl_error_list_create_def)

lemma has_errors_iff: "error_list_ok l \<Longrightarrow> cdsl_error_list_has_errors l \<longleftrightarrow> el_errors l \<noteq> []"
  by (cases "el_errors l") (auto simp: error_list_ok_def cdsl_error_list_has_errors_def)

lemma fold_add_errors:
  "el_errors (fold (\<lambda>e l. cdsl_error_list_add l (Some e)) es l) = el_errors l @ es"
  by (induction es arbitrary: l) auto

lemma fold_add_ok:
  "error_list_ok l \<Longrightarrow> error_list_ok (fold (\<lambda>e l. cdsl_error_list_add l (Some e)) es l)"
  by (induction es arbitrary: l) auto

text \<open>
  Collecting any sequence of errors keeps the array within its (doubling)
  capacity, loses none of them and keeps their order.
\<close>

lemma error_list_collects:
  "let l = fold (\<lambda>e l. cdsl_error_list_add l (Some e)) es cdsl_error_list_create
   in el_errors l = es \<and> el_count l = length es \<and> el_count l \<le> el_capacity l
      \<and> cdsl_error_list_has_errors l = (es \<noteq> [])"
proof -
  let ?l = "fold (\<lambda>e l. cdsl_error_list_add l (Some e)) es cdsl_error_list_create"
  have "error_list_ok ?l" by (rule fold_add_ok) simp
  then show ?thesis
    by (auto simp: Let_def fold_add_errors has_errors_iff error_list_ok_def)
qed

subsection \<open>The allocation-failure countdown of the test builds\<close>

definition cdsl_test_oom_check_and_decrement :: "int \<Rightarrow> bool \<times> int" where
  "cdsl_test_oom_check_and_decrement cd =
     (if cd < 0 then (False, cd) else if cd = 0 then (True, 0) else (False, cd - 1))"

fun oom_run :: "nat \<Rightarrow> int \<Rightarrow> bool list" where
  "oom_run 0 cd = []"
| "oom_run (Suc n) cd =
     (case cdsl_test_oom_check_and_decrement cd of (b, cd') \<Rightarrow> b # oom_run n cd')"

lemma oom_run_zero: "oom_run n 0 = replicate n True"
  by (induction n) (auto simp: cdsl_test_oom_check_and_decrement_def)

lemma oom_run_disabled: "cd < 0 \<Longrightarrow> oom_run n cd = replicate n False"
  by (induction n) (auto simp: cdsl_test_oom_check_and_decrement_def)

lemma oom_run_countdown:
  "oom_run (k + n) (int k) = replicate k False @ replicate n True"
  by (induction k) (auto simp: cdsl_test_oom_check_and_decrement_def oom_run_zero)

end
