(* ===== verification/Cdsl_Schema.thy ===== *)
theory Cdsl_Schema
  imports Cdsl_Value_Ops Cdsl_Hashmap Cdsl_Error
begin

section \<open>The schema, the rule verifier and the static analyser (\<open>src/schema/schema.c\<close>)\<close>

text \<open>
  A schema names the variables and actions a rule may use. A registered node is reachable
  from the hash map and from a list kept for iteration; the verifier only goes through the
  hash maps, so the model stores the nodes there and keeps the names in list order. The type
  checker returns VOID for "no type" and adds what it finds wrong to an error list, which is
  threaded through as state.
\<close>

subsection \<open>Registration\<close>

record cdsl_var_schema =
  vs_type :: cdsl_type
  vs_is_readonly :: bool

record cdsl_action_schema =
  as_return_type :: cdsl_type
  as_arg_count :: int
  as_arg_types :: "cdsl_type list"

record cdsl_schema =
  sc_vars :: "string list"
  sc_actions :: "string list"
  sc_var_map :: "cdsl_var_schema cdsl_hashmap"
  sc_action_map :: "cdsl_action_schema cdsl_hashmap"

definition cdsl_schema_create :: cdsl_schema where
  "cdsl_schema_create = \<lparr>sc_vars = [], sc_actions = [],
     sc_var_map = cdsl_hashmap_create 32, sc_action_map = cdsl_hashmap_create 16\<rparr>"

definition cdsl_schema_register_var_rw ::
  "cdsl_schema \<Rightarrow> string \<Rightarrow> cdsl_type \<Rightarrow> bool \<Rightarrow> cdsl_schema" where
  "cdsl_schema_register_var_rw s name t readonly =
     (let v = \<lparr>vs_type = t, vs_is_readonly = readonly\<rparr> in
      case cdsl_hashmap_get (sc_var_map s) name of
        Some cur \<Rightarrow> s\<lparr>sc_var_map := cdsl_hashmap_put (sc_var_map s) name v\<rparr>
      | None \<Rightarrow> s\<lparr>sc_var_map := cdsl_hashmap_put (sc_var_map s) name v,
                  sc_vars := name # sc_vars s\<rparr>)"

definition cdsl_schema_register_var :: "cdsl_schema \<Rightarrow> string \<Rightarrow> cdsl_type \<Rightarrow> cdsl_schema" where
  "cdsl_schema_register_var s name t = cdsl_schema_register_var_rw s name t False"

definition cdsl_schema_register_action ::
  "cdsl_schema \<Rightarrow> string \<Rightarrow> cdsl_type \<Rightarrow> cdsl_type list \<Rightarrow> cdsl_schema" where
  "cdsl_schema_register_action s name ret args =
     s\<lparr>sc_action_map := cdsl_hashmap_put (sc_action_map s) name
          \<lparr>as_return_type = ret, as_arg_count = int (length args), as_arg_types = args\<rparr>,
       sc_actions := name # sc_actions s\<rparr>"

definition find_var :: "cdsl_schema \<Rightarrow> string \<Rightarrow> cdsl_var_schema option" where
  "find_var s name = cdsl_hashmap_get (sc_var_map s) name"

definition find_action :: "cdsl_schema \<Rightarrow> string \<Rightarrow> cdsl_action_schema option" where
  "find_action s name = cdsl_hashmap_get (sc_action_map s) name"

subsection \<open>The registry is a pair of maps\<close>

definition schema_ok :: "cdsl_schema \<Rightarrow> bool" where
  "schema_ok s \<longleftrightarrow> hm_ok (sc_var_map s) \<and> hm_ok (sc_action_map s)
     \<and> distinct (sc_vars s) \<and> set (sc_vars s) = dom (find_var s)
     \<and> set (sc_actions s) = dom (find_action s)"

lemma schema_ok_create [simp, intro]: "schema_ok cdsl_schema_create"
  by (auto simp: schema_ok_def cdsl_schema_create_def find_var_def find_action_def hm_ok_create)

lemma schema_ok_hm: "schema_ok s \<Longrightarrow> hm_ok (sc_var_map s)" "schema_ok s \<Longrightarrow> hm_ok (sc_action_map s)"
  by (simp_all add: schema_ok_def)

lemma find_create [simp]: "find_var cdsl_schema_create x = None" "find_action cdsl_schema_create x = None"
  by (simp_all add: find_var_def find_action_def cdsl_schema_create_def)

lemma register_var_fields [simp]:
  "sc_var_map (cdsl_schema_register_var_rw s n t r) =
     cdsl_hashmap_put (sc_var_map s) n \<lparr>vs_type = t, vs_is_readonly = r\<rparr>"
  "sc_action_map (cdsl_schema_register_var_rw s n t r) = sc_action_map s"
  "sc_actions (cdsl_schema_register_var_rw s n t r) = sc_actions s"
  "sc_vars (cdsl_schema_register_var_rw s n t r) =
     (if find_var s n = None then n # sc_vars s else sc_vars s)"
  by (auto simp: cdsl_schema_register_var_rw_def find_var_def Let_def split: option.split)

lemma register_action_fields [simp]:
  "sc_var_map (cdsl_schema_register_action s n t ts) = sc_var_map s"
  "sc_vars (cdsl_schema_register_action s n t ts) = sc_vars s"
  "sc_actions (cdsl_schema_register_action s n t ts) = n # sc_actions s"
  "sc_action_map (cdsl_schema_register_action s n t ts) = cdsl_hashmap_put (sc_action_map s) n
     \<lparr>as_return_type = t, as_arg_count = int (length ts), as_arg_types = ts\<rparr>"
  by (simp_all add: cdsl_schema_register_action_def)

lemma find_after_register:
  assumes "schema_ok s"
  shows "find_var (cdsl_schema_register_var_rw s n t r) x =
      (if x = n then Some \<lparr>vs_type = t, vs_is_readonly = r\<rparr> else find_var s x)"
    and "find_action (cdsl_schema_register_var_rw s n t r) x = find_action s x"
    and "find_var (cdsl_schema_register_action s n t ts) x = find_var s x"
    and "find_action (cdsl_schema_register_action s n t ts) x =
      (if x = n then Some \<lparr>as_return_type = t, as_arg_count = int (length ts), as_arg_types = ts\<rparr>
       else find_action s x)"
  using schema_ok_hm [OF assms]
  by (simp_all add: find_var_def find_action_def hm.get_put)

lemma schema_ok_register:
  assumes "schema_ok s"
  shows "schema_ok (cdsl_schema_register_var_rw s n t r)" "schema_ok (cdsl_schema_register_action s n t ts)"
proof -
  have "hm_ok (sc_var_map s)" "hm_ok (sc_action_map s)" "distinct (sc_vars s)"
    "\<And>x. x \<in> set (sc_vars s) \<longleftrightarrow> find_var s x \<noteq> None"
    "\<And>x. x \<in> set (sc_actions s) \<longleftrightarrow> find_action s x \<noteq> None"
    using assms by (auto simp: schema_ok_def dom_def)
  then show "schema_ok (cdsl_schema_register_var_rw s n t r)"
    "schema_ok (cdsl_schema_register_action s n t ts)"
    by (auto simp: schema_ok_def find_after_register [OF assms] dom_def hm.invar_put
        set_eq_iff split: if_splits)
qed

lemmas schema_eval = cdsl_schema_register_var_def find_after_register schema_ok_register

datatype schema_op = SVar string cdsl_type bool | SAction string cdsl_type "cdsl_type list"

fun schema_exec :: "schema_op \<Rightarrow> cdsl_schema \<Rightarrow> cdsl_schema" where
  "schema_exec (SVar n t r) s = cdsl_schema_register_var_rw s n t r"
| "schema_exec (SAction n t ts) s = cdsl_schema_register_action s n t ts"

fun vars_exec :: "schema_op \<Rightarrow> (string \<rightharpoonup> cdsl_var_schema) \<Rightarrow> string \<rightharpoonup> cdsl_var_schema" where
  "vars_exec (SVar n t r) f = f(n \<mapsto> \<lparr>vs_type = t, vs_is_readonly = r\<rparr>)"
| "vars_exec _ f = f"

fun actions_exec :: "schema_op \<Rightarrow> (string \<rightharpoonup> cdsl_action_schema) \<Rightarrow> string \<rightharpoonup> cdsl_action_schema" where
  "actions_exec (SAction n t ts) f =
     f(n \<mapsto> \<lparr>as_return_type = t, as_arg_count = int (length ts), as_arg_types = ts\<rparr>)"
| "actions_exec _ f = f"

lemma schema_execs:
  assumes "schema_ok s"
  shows "schema_ok (fold schema_exec ps s) \<and> find_var (fold schema_exec ps s) = fold vars_exec ps (find_var s)
     \<and> find_action (fold schema_exec ps s) = fold actions_exec ps (find_action s)"
  using assms
proof (induction ps arbitrary: s)
  case (Cons p ps)
  have "schema_ok (schema_exec p s) \<and> find_var (schema_exec p s) = vars_exec p (find_var s)
      \<and> find_action (schema_exec p s) = actions_exec p (find_action s)"
    using Cons.prems by (cases p) (auto simp: find_after_register schema_ok_register fun_eq_iff)
  then show ?case using Cons.IH [of "schema_exec p s"] by simp
qed simp

text \<open>
  The schema refines a pair of maps: after any sequence of registrations, of variables
  and of actions, a lookup returns the last registration of that name, the list of variables
  holds each registered name once, and the list of actions holds exactly the registered ones.
\<close>

lemma schema_refines_maps:
  "let s = fold schema_exec ps cdsl_schema_create in
     find_var s = fold vars_exec ps Map.empty \<and> find_action s = fold actions_exec ps Map.empty
     \<and> distinct (sc_vars s) \<and> set (sc_vars s) = dom (find_var s)
     \<and> set (sc_actions s) = dom (find_action s)"
proof -
  have "find_var cdsl_schema_create = Map.empty" "find_action cdsl_schema_create = Map.empty"
    by (simp_all add: fun_eq_iff)
  then show ?thesis using schema_execs [OF schema_ok_create, of ps] by (simp add: Let_def schema_ok_def)
qed

subsection \<open>Types of expressions\<close>

text \<open>\<open>snprintf\<close> into a buffer of \<open>n\<close> bytes keeps \<open>n - 1\<close> characters.\<close>

definition snprintf_buf :: "nat \<Rightarrow> string \<Rightarrow> string" where
  "snprintf_buf n s = take (n - 1) s"

definition report_err ::
  "cdsl_error_kind \<Rightarrow> string \<Rightarrow> string option \<Rightarrow> loc \<Rightarrow> cdsl_error_list \<Rightarrow> cdsl_error_list" where
  "report_err kind msg hint l errs =
     cdsl_error_list_add errs (Some (cdsl_error_create kind (fst l) (snd l) (Some msg) hint))"

definition type_err :: "string \<Rightarrow> loc \<Rightarrow> cdsl_error_list \<Rightarrow> cdsl_type \<times> cdsl_error_list" where
  "type_err msg l errs = (CDSL_TYPE_VOID, report_err CDSL_ERR_TYPE msg None l errs)"

abbreviation numeric_or_date_step :: "cdsl_type \<Rightarrow> bool" where
  "numeric_or_date_step t \<equiv> t = CDSL_TYPE_INT \<or> t = CDSL_TYPE_LONG \<or> t = CDSL_TYPE_FLOAT"

text \<open>The typing rule of a unary operator, after its operand has a type.\<close>

definition unary_type ::
  "cdsl_op \<Rightarrow> cdsl_type \<Rightarrow> loc \<Rightarrow> cdsl_error_list \<Rightarrow> cdsl_type \<times> cdsl_error_list" where
  "unary_type op t l errs =
     (if op = CDSL_OP_NOT then
        (if t \<noteq> CDSL_TYPE_BOOL then type_err ''NOT operator requires boolean operand'' l errs
         else (CDSL_TYPE_BOOL, errs))
      else if op = CDSL_OP_NEG then
        (if t \<noteq> CDSL_TYPE_INT \<and> t \<noteq> CDSL_TYPE_FLOAT \<and> t \<noteq> CDSL_TYPE_LONG
         then type_err ''Negation operator requires numeric operand'' l errs
         else (t, errs))
      else (t, errs))"

definition arith_type ::
  "cdsl_op \<Rightarrow> cdsl_type \<Rightarrow> cdsl_type \<Rightarrow> loc \<Rightarrow> cdsl_error_list \<Rightarrow> cdsl_type \<times> cdsl_error_list"
where
  "arith_type op lt rt l errs =
     (if lt = CDSL_TYPE_DATE then
        (if op = CDSL_OP_SUB \<and> rt = CDSL_TYPE_DATE then (CDSL_TYPE_INT, errs)
         else if (op = CDSL_OP_ADD \<or> op = CDSL_OP_SUB) \<and> numeric_or_date_step rt
         then (CDSL_TYPE_DATE, errs)
         else type_err ''DATE arithmetic requires INT/LONG or DATE operand'' l errs)
      else if rt = CDSL_TYPE_DATE \<and> op = CDSL_OP_ADD \<and> numeric_or_date_step lt
      then (CDSL_TYPE_DATE, errs)
      else if (op = CDSL_OP_MUL \<or> op = CDSL_OP_DIV) \<and> (lt = CDSL_TYPE_DATE \<or> rt = CDSL_TYPE_DATE)
      then type_err ''DATE does not support multiplication/division'' l errs
      else if (lt \<noteq> CDSL_TYPE_INT \<and> lt \<noteq> CDSL_TYPE_FLOAT \<and> lt \<noteq> CDSL_TYPE_LONG)
           \<or> (rt \<noteq> CDSL_TYPE_INT \<and> rt \<noteq> CDSL_TYPE_FLOAT \<and> rt \<noteq> CDSL_TYPE_LONG)
      then type_err ''Arithmetic operators require numeric operands'' l errs
      else (if lt = CDSL_TYPE_FLOAT \<or> rt = CDSL_TYPE_FLOAT then CDSL_TYPE_FLOAT
            else if lt = CDSL_TYPE_LONG \<or> rt = CDSL_TYPE_LONG then CDSL_TYPE_LONG
            else CDSL_TYPE_INT, errs))"

definition compare_type ::
  "cdsl_op \<Rightarrow> cdsl_type \<Rightarrow> cdsl_type \<Rightarrow> loc \<Rightarrow> cdsl_error_list \<Rightarrow> cdsl_type \<times> cdsl_error_list"
where
  "compare_type op lt rt l errs =
     (if lt \<noteq> rt
         \<and> \<not> (lt = CDSL_TYPE_INT \<and> rt = CDSL_TYPE_FLOAT) \<and> \<not> (lt = CDSL_TYPE_FLOAT \<and> rt = CDSL_TYPE_INT)
         \<and> \<not> (lt = CDSL_TYPE_INT \<and> rt = CDSL_TYPE_LONG) \<and> \<not> (lt = CDSL_TYPE_LONG \<and> rt = CDSL_TYPE_INT)
         \<and> \<not> (lt = CDSL_TYPE_FLOAT \<and> rt = CDSL_TYPE_LONG) \<and> \<not> (lt = CDSL_TYPE_LONG \<and> rt = CDSL_TYPE_FLOAT)
      then type_err ''Type mismatch: cannot compare different types'' l errs
      else if lt = CDSL_TYPE_STRING \<and> op \<noteq> CDSL_OP_EQ \<and> op \<noteq> CDSL_OP_NE
      then type_err ''String only supports equality comparisons (==, !=)'' l errs
      else (CDSL_TYPE_BOOL, errs))"

definition binary_type ::
  "cdsl_op \<Rightarrow> cdsl_type \<Rightarrow> cdsl_type \<Rightarrow> loc \<Rightarrow> cdsl_error_list \<Rightarrow> cdsl_type \<times> cdsl_error_list"
where
  "binary_type op lt rt l errs =
     (if lt = CDSL_TYPE_VOID \<or> rt = CDSL_TYPE_VOID then (CDSL_TYPE_VOID, errs)
      else if cdsl_op_is_logical_binary op then
        (if lt \<noteq> CDSL_TYPE_BOOL \<or> rt \<noteq> CDSL_TYPE_BOOL
         then type_err ''Logical operators require boolean operands'' l errs
         else (CDSL_TYPE_BOOL, errs))
      else if cdsl_op_is_arithmetic op then arith_type op lt rt l errs
      else compare_type op lt rt l errs)"

definition arg_type_ok :: "cdsl_type \<Rightarrow> cdsl_type \<Rightarrow> bool" where
  "arg_type_ok expected t = (expected = t \<or> (expected = CDSL_TYPE_FLOAT \<and> t = CDSL_TYPE_INT))"

text \<open>
  The argument loops: \<open>all_typed\<close> is that of array elements, \<open>check_args\<close> that of calls and
  of actions, which differ in the message and position they report. They stop at the first
  problem; the result says whether every argument passed.
\<close>

fun resolve_expr_type ::
    "cdsl_schema \<Rightarrow> cdsl_expr \<Rightarrow> cdsl_error_list \<Rightarrow> cdsl_type \<times> cdsl_error_list"
  and all_typed :: "cdsl_schema \<Rightarrow> cdsl_expr list \<Rightarrow> cdsl_error_list \<Rightarrow> bool \<times> cdsl_error_list"
  and check_args :: "cdsl_schema \<Rightarrow> (nat \<Rightarrow> string) \<Rightarrow> loc \<Rightarrow> nat \<Rightarrow> cdsl_type list \<Rightarrow> cdsl_expr list
      \<Rightarrow> cdsl_error_list \<Rightarrow> bool \<times> cdsl_error_list"
where
  "resolve_expr_type s (CDSL_EXPR_INT l i) errs = (CDSL_TYPE_INT, errs)"
| "resolve_expr_type s (CDSL_EXPR_FLOAT l f) errs = (CDSL_TYPE_FLOAT, errs)"
| "resolve_expr_type s (CDSL_EXPR_BOOL l b) errs = (CDSL_TYPE_BOOL, errs)"
| "resolve_expr_type s (CDSL_EXPR_STRING l x) errs = (CDSL_TYPE_STRING, errs)"
| "resolve_expr_type s (CDSL_EXPR_DATE l d) errs = (CDSL_TYPE_DATE, errs)"
| "resolve_expr_type s (CDSL_EXPR_LONG l n) errs = (CDSL_TYPE_LONG, errs)"
| "resolve_expr_type s (CDSL_EXPR_ARRAY l es) errs =
     (case all_typed s es errs of (ok, errs') \<Rightarrow>
        (if ok then CDSL_TYPE_ARRAY else CDSL_TYPE_VOID, errs'))"
| "resolve_expr_type s (CDSL_EXPR_ID l x) errs =
     (case find_var s x of
        None \<Rightarrow> (CDSL_TYPE_VOID, report_err CDSL_ERR_SEMANTIC
                  (snprintf_buf 256 (''Unknown variable '' @ [CHR 0x27] @ x @ [CHR 0x27]))
                  (Some ''Check schema registration'') l errs)
      | Some v \<Rightarrow> (vs_type v, errs))"
| "resolve_expr_type s (CDSL_EXPR_UNARY l op e) errs =
     (case resolve_expr_type s e errs of (t, errs') \<Rightarrow>
        if t = CDSL_TYPE_VOID then (CDSL_TYPE_VOID, errs') else unary_type op t l errs')"
| "resolve_expr_type s (CDSL_EXPR_BINARY l op a b) errs =
     (case resolve_expr_type s a errs of (lt, errs1) \<Rightarrow>
      case resolve_expr_type s b errs1 of (rt, errs2) \<Rightarrow> binary_type op lt rt l errs2)"
| "resolve_expr_type s (CDSL_EXPR_CALL l f args) errs =
     (case find_action s f of
        None \<Rightarrow> (CDSL_TYPE_VOID, report_err CDSL_ERR_SEMANTIC
                  (snprintf_buf 256 (''Unknown function '' @ [CHR 0x27] @ f @ [CHR 0x27]))
                  (Some ''Register function in schema'') l errs)
      | Some a \<Rightarrow>
          if int (length args) \<noteq> as_arg_count a then
            type_err (snprintf_buf 256 (''Function '' @ [CHR 0x27] @ f @ [CHR 0x27] @ '' expects ''
              @ dec_of_int (as_arg_count a) @ '' args, got '' @ dec_of_int (int (length args)))) l errs
          else
            (case check_args s
                (\<lambda>i. snprintf_buf 256 (''Arg '' @ dec_of_int (int (i + 1)) @ '' type mismatch for function ''
                  @ [CHR 0x27] @ f @ [CHR 0x27])) l 0 (as_arg_types a) args errs of (ok, errs') \<Rightarrow>
               (if ok then as_return_type a else CDSL_TYPE_VOID, errs')))"
| "resolve_expr_type s (CDSL_EXPR_ERROR l) errs = (CDSL_TYPE_VOID, errs)"
| "all_typed s [] errs = (True, errs)"
| "all_typed s (e # es) errs =
     (case resolve_expr_type s e errs of (t, errs') \<Rightarrow>
        if t = CDSL_TYPE_VOID then (False, errs') else all_typed s es errs')"
| "check_args s msg l i ts [] errs = (True, errs)"
| "check_args s msg l i ts (e # es) errs =
     (case resolve_expr_type s e errs of (t, errs') \<Rightarrow>
        if t = CDSL_TYPE_VOID then (False, errs')
        else if \<not> arg_type_ok (ts ! i) t
        then (False, report_err CDSL_ERR_TYPE (msg i) None l errs')
        else check_args s msg l (i + 1) ts es errs')"

subsection \<open>Verifying a rule\<close>

definition verify_action ::
  "cdsl_schema \<Rightarrow> cdsl_action option \<Rightarrow> cdsl_error_list \<Rightarrow> bool \<times> cdsl_error_list" where
  "verify_action s act errs =
     (case act of None \<Rightarrow> (True, errs)
      | Some a \<Rightarrow>
        let l = act_loc a in
        case find_action s (act_name a) of
          None \<Rightarrow> (False, report_err CDSL_ERR_SEMANTIC ''Unknown action''
            (Some (snprintf_buf 256 (''Register action '' @ [CHR 0x27] @ act_name a @ [CHR 0x27]
              @ '' via cdsl_schema_register_action()''))) l errs)
        | Some sa \<Rightarrow>
            if int (length (act_args a)) \<noteq> as_arg_count sa then
              (False, report_err CDSL_ERR_TYPE (snprintf_buf 256 (''Action expects ''
                @ dec_of_int (as_arg_count sa) @ '' args, got ''
                @ dec_of_int (int (length (act_args a))))) None l errs)
            else check_args s (\<lambda>i. snprintf_buf 256 (''Arg '' @ dec_of_int (int (i + 1)) @ '' type mismatch''))
                   l 0 (as_arg_types sa) (act_args a) errs)"

definition resolve_opt ::
  "cdsl_schema \<Rightarrow> cdsl_expr option \<Rightarrow> cdsl_error_list \<Rightarrow> cdsl_type \<times> cdsl_error_list" where
  "resolve_opt s e errs =
     (case e of None \<Rightarrow> (CDSL_TYPE_VOID, errs) | Some x \<Rightarrow> resolve_expr_type s x errs)"

definition verify_case ::
  "cdsl_schema \<Rightarrow> string \<Rightarrow> cdsl_case \<Rightarrow> cdsl_error_list \<Rightarrow> cdsl_error_list" where
  "verify_case s mname c errs =
     (case resolve_opt s (case_condition c) errs of (t, errs1) \<Rightarrow>
        let errs2 =
          (if t \<noteq> CDSL_TYPE_VOID \<and> t \<noteq> CDSL_TYPE_BOOL \<and> t \<noteq> CDSL_TYPE_INT \<and> t \<noteq> CDSL_TYPE_FLOAT
              \<and> t \<noteq> CDSL_TYPE_STRING \<and> t \<noteq> CDSL_TYPE_LONG \<and> t \<noteq> CDSL_TYPE_DATE
           then report_err CDSL_ERR_TYPE ''Invalid case condition type'' (Some mname)
             (case case_condition c of None \<Rightarrow> (0, 0) | Some e \<Rightarrow> expr_loc e) errs1
           else errs1)
        in snd (verify_action s (case_action c) errs2))"

definition verify_metric :: "cdsl_schema \<Rightarrow> cdsl_metric \<Rightarrow> cdsl_error_list \<Rightarrow> cdsl_error_list" where
  "verify_metric s m errs =
     snd (verify_action s (met_default m) (fold (verify_case s (met_name m)) (met_cases m) errs))"

definition cdsl_verify_rule_detailed ::
  "cdsl_rule option \<Rightarrow> cdsl_schema option \<Rightarrow> cdsl_error_list" where
  "cdsl_verify_rule_detailed rule schema =
     (case (rule, schema) of
        (Some r, Some s) \<Rightarrow>
          if rule_metrics r \<noteq> []
          then fold (verify_metric s) (rule_metrics r) cdsl_error_list_create
          else
            let errs = (case rule_when r of None \<Rightarrow> cdsl_error_list_create
                        | Some e \<Rightarrow> snd (resolve_expr_type s e cdsl_error_list_create))
            in snd (verify_action s (rule_then r) errs)
      | _ \<Rightarrow> report_err CDSL_ERR_SEMANTIC ''Null rule or schema'' None (0, 0)
               cdsl_error_list_create)"

text \<open>The result and what is copied into the caller's buffer of \<open>n\<close> bytes.\<close>

definition cdsl_verify_rule ::
  "cdsl_rule option \<Rightarrow> cdsl_schema option \<Rightarrow> nat \<Rightarrow> bool \<times> string option" where
  "cdsl_verify_rule rule schema n =
     (let errs = cdsl_verify_rule_detailed rule schema;
          ok = \<not> cdsl_error_list_has_errors errs
      in (ok, if \<not> ok \<and> 0 < n then Some (snprintf_buf n (err_message (el_errors errs ! 0))) else None))"

subsection \<open>Static analysis\<close>

fun expr_is_const_true :: "cdsl_expr \<Rightarrow> bool" where
  "expr_is_const_true (CDSL_EXPR_BOOL l b) = c_true b"
| "expr_is_const_true (CDSL_EXPR_INT l i) = (i \<noteq> 0)"
| "expr_is_const_true (CDSL_EXPR_BINARY l op (CDSL_EXPR_INT _ a) (CDSL_EXPR_INT _ b)) =
     cdsl_op_eval_cmp op (cmp3 (sint a) (sint b))"
| "expr_is_const_true _ = False"

fun expr_is_const_false :: "cdsl_expr \<Rightarrow> bool" where
  "expr_is_const_false (CDSL_EXPR_BOOL l b) = (\<not> c_true b)"
| "expr_is_const_false (CDSL_EXPR_INT l i) = (i = 0)"
| "expr_is_const_false (CDSL_EXPR_BINARY l op (CDSL_EXPR_INT _ a) (CDSL_EXPR_INT _ b)) =
     (cdsl_op_is_relational op \<and> \<not> cdsl_op_eval_cmp op (cmp3 (sint a) (sint b)))"
| "expr_is_const_false _ = False"

text \<open>Two conditions that compare the same variable with the same literal in the same way.\<close>

fun same_condition :: "cdsl_expr \<Rightarrow> cdsl_expr \<Rightarrow> bool" where
  "same_condition (CDSL_EXPR_BINARY _ op1 (CDSL_EXPR_ID _ x) r1) (CDSL_EXPR_BINARY _ op2 (CDSL_EXPR_ID _ y) r2) =
     (op1 = op2 \<and> x = y \<and>
      (case (r1, r2) of
         (CDSL_EXPR_INT _ i, CDSL_EXPR_INT _ j) \<Rightarrow> i = j
       | (CDSL_EXPR_FLOAT _ f, CDSL_EXPR_FLOAT _ g) \<Rightarrow> f64_eq f g
       | _ \<Rightarrow> False))"
| "same_condition _ _ = False"

definition analyze_warn :: "string \<Rightarrow> string \<Rightarrow> cdsl_error_list \<Rightarrow> cdsl_error_list" where
  "analyze_warn msg hint w = report_err CDSL_ERR_WARNING msg (Some hint) (0, 0) w"

definition case_warning :: "string \<Rightarrow> string \<Rightarrow> string" where
  "case_warning mname what = snprintf_buf 200 (''CASE in '' @ [CHR 0x27] @ mname @ [CHR 0x27] @ what)"

text \<open>
  One pass over the branches of a metric: \<open>seen\<close> are the earlier conditions. The pass ends at
  the first branch after an always-true one.
\<close>

fun analyze_cases ::
  "string \<Rightarrow> cdsl_expr list \<Rightarrow> bool \<Rightarrow> cdsl_case list \<Rightarrow> cdsl_error_list \<Rightarrow> cdsl_error_list" where
  "analyze_cases mname seen always [] w = w"
| "analyze_cases mname seen always (c # cs) w =
     (case case_condition c of
        None \<Rightarrow> analyze_cases mname seen always cs w
      | Some e \<Rightarrow>
          if always then
            analyze_warn (case_warning mname '' unreachable: preceded by always-true condition'')
              ''Reorder or remove CASE branches'' w
          else
            let always' = expr_is_const_true e;
                w1 = (if always' then
                        analyze_warn (case_warning mname '' is always true; subsequent branches are dead code'')
                          ''Consider using DEFAULT instead'' w
                      else if expr_is_const_false e then
                        analyze_warn (case_warning mname '' is always false; dead code'')
                          ''Remove or fix the condition'' w
                      else w);
                w2 = (if \<not> always' \<and> list_ex (\<lambda>d. same_condition d e) seen then
                        analyze_warn (case_warning mname '' shadows earlier identical condition; branch is unreachable'')
                          ''Remove duplicate CASE'' w1
                      else w1)
            in analyze_cases mname (seen @ [e]) always' cs w2)"

definition analyze_when :: "cdsl_expr \<Rightarrow> cdsl_error_list \<Rightarrow> cdsl_error_list" where
  "analyze_when e w =
     (let w1 = (if expr_is_const_true e then
                  analyze_warn ''WHEN condition is always true; rule triggers on every evaluation''
                    ''Review condition logic'' w else w)
      in if expr_is_const_false e then
           analyze_warn ''WHEN condition is always false; rule never triggers''
             ''Review condition logic'' w1
         else w1)"

definition cdsl_analyze_rule :: "cdsl_rule option \<Rightarrow> cdsl_error_list option" where
  "cdsl_analyze_rule rule =
     (case rule of None \<Rightarrow> None
      | Some r \<Rightarrow>
        let w = fold (\<lambda>m. analyze_cases (met_name m) [] False (met_cases m)) (rule_metrics r)
                  cdsl_error_list_create;
            w' = (case rule_when r of None \<Rightarrow> w | Some e \<Rightarrow> analyze_when e w)
        in if el_count w' = 0 then None else Some w')"

end
