(* ===== verification/Cdsl_Context.thy ===== *)
theory Cdsl_Context
  imports Cdsl_Schema
begin

section \<open>The execution context (\<open>src/vm/context.c\<close>)\<close>

text \<open>
  A context keeps its bindings twice: in a linked list of entries and in a hash map from
  names to entry pointers. The model keeps both, with entry addresses as numbers, so that
  "the two indexes agree" is a theorem and not an assumption. Variables a schema declares
  read-only can be bound once. Setters and getters of the six scalar types convert as the C
  code does; a double that does not fit an \<open>int\<close> is undefined behaviour in C and goes
  through the parameter \<open>ub\<close>.
\<close>

subsection \<open>State\<close>

record ctx_entry =
  ce_addr :: nat
  ce_name :: string
  ce_value :: cdsl_value

record cdsl_context =
  ctx_schema :: "cdsl_schema option"
  ctx_entries :: "ctx_entry list"
  ctx_map :: "nat cdsl_hashmap"
  ctx_next_addr :: nat

definition cdsl_context_create :: "cdsl_schema option \<Rightarrow> cdsl_context" where
  "cdsl_context_create s = \<lparr>ctx_schema = s, ctx_entries = [], ctx_map = cdsl_hashmap_create 64,
     ctx_next_addr = 0\<rparr>"

fun deref :: "ctx_entry list \<Rightarrow> nat \<Rightarrow> ctx_entry option" where
  "deref [] p = None"
| "deref (e # es) p = (if ce_addr e = p then Some e else deref es p)"

fun store :: "ctx_entry list \<Rightarrow> nat \<Rightarrow> cdsl_value \<Rightarrow> ctx_entry list" where
  "store [] p v = []"
| "store (e # es) p v = (if ce_addr e = p then e\<lparr>ce_value := v\<rparr> # es else e # store es p v)"

definition cdsl_context_get_entry_internal :: "cdsl_context \<Rightarrow> string \<Rightarrow> ctx_entry option" where
  "cdsl_context_get_entry_internal ctx name =
     (case cdsl_hashmap_get (ctx_map ctx) name of
        None \<Rightarrow> None | Some p \<Rightarrow> deref (ctx_entries ctx) p)"

definition context_var_is_readonly :: "cdsl_context \<Rightarrow> string \<Rightarrow> bool" where
  "context_var_is_readonly ctx name =
     (case ctx_schema ctx of None \<Rightarrow> False
      | Some s \<Rightarrow> (case cdsl_hashmap_get (sc_var_map s) name of
          None \<Rightarrow> False | Some vs \<Rightarrow> vs_is_readonly vs))"

subsection \<open>Setters\<close>

text \<open>The body all the setters share: refuse, overwrite in place, or add an entry to both indexes.\<close>

definition context_bind :: "cdsl_context \<Rightarrow> string \<Rightarrow> cdsl_value \<Rightarrow> cdsl_context" where
  "context_bind ctx name v =
     (case cdsl_context_get_entry_internal ctx name of
        Some e \<Rightarrow>
          if context_var_is_readonly ctx name then ctx
          else ctx\<lparr>ctx_entries := store (ctx_entries ctx) (ce_addr e) v\<rparr>
      | None \<Rightarrow>
          ctx\<lparr>ctx_entries := \<lparr>ce_addr = ctx_next_addr ctx, ce_name = name, ce_value = v\<rparr> # ctx_entries ctx,
              ctx_map := cdsl_hashmap_put (ctx_map ctx) name (ctx_next_addr ctx),
              ctx_next_addr := ctx_next_addr ctx + 1\<rparr>)"

definition cdsl_context_set_int :: "cdsl_context \<Rightarrow> string \<Rightarrow> i32 \<Rightarrow> cdsl_context" where
  "cdsl_context_set_int ctx name val = context_bind ctx name (VInt val)"

definition cdsl_context_set_float :: "cdsl_context \<Rightarrow> string \<Rightarrow> f64 \<Rightarrow> cdsl_context" where
  "cdsl_context_set_float ctx name val = context_bind ctx name (VFloat val)"

definition cdsl_context_set_bool :: "cdsl_context \<Rightarrow> string \<Rightarrow> i32 \<Rightarrow> cdsl_context" where
  "cdsl_context_set_bool ctx name val = context_bind ctx name (VBool val)"

definition cdsl_context_set_string :: "cdsl_context \<Rightarrow> string \<Rightarrow> string option \<Rightarrow> cdsl_context" where
  "cdsl_context_set_string ctx name val = context_bind ctx name (VString val)"

definition cdsl_context_set_date :: "cdsl_context \<Rightarrow> string \<Rightarrow> i64 \<Rightarrow> cdsl_context" where
  "cdsl_context_set_date ctx name val = context_bind ctx name (VDate val)"

definition cdsl_context_set_long :: "cdsl_context \<Rightarrow> string \<Rightarrow> i64 \<Rightarrow> cdsl_context" where
  "cdsl_context_set_long ctx name val = context_bind ctx name (VLong val)"

subsection \<open>Getters\<close>

definition context_value :: "cdsl_context \<Rightarrow> string \<Rightarrow> cdsl_value option" where
  "context_value ctx name = map_option ce_value (cdsl_context_get_entry_internal ctx name)"

definition cdsl_context_get_int ::
  "(f64 \<Rightarrow> i32) \<Rightarrow> cdsl_context \<Rightarrow> string \<Rightarrow> i32 \<Rightarrow> i32" where
  "cdsl_context_get_int ub ctx name def =
     (case context_value ctx name of
        Some (VInt i) \<Rightarrow> i | Some (VFloat f) \<Rightarrow> f64_to_i32 ub f | Some (VBool b) \<Rightarrow> b | _ \<Rightarrow> def)"

definition cdsl_context_get_float :: "cdsl_context \<Rightarrow> string \<Rightarrow> f64 \<Rightarrow> f64" where
  "cdsl_context_get_float ctx name def =
     (case context_value ctx name of
        Some (VFloat f) \<Rightarrow> f | Some (VInt i) \<Rightarrow> f64_of_int (sint i)
      | Some (VBool b) \<Rightarrow> f64_of_int (sint b) | _ \<Rightarrow> def)"

definition cdsl_context_get_bool :: "cdsl_context \<Rightarrow> string \<Rightarrow> i32 \<Rightarrow> i32" where
  "cdsl_context_get_bool ctx name def =
     (case context_value ctx name of
        Some (VBool b) \<Rightarrow> b | Some (VInt i) \<Rightarrow> c_bool (i \<noteq> 0)
      | Some (VFloat f) \<Rightarrow> c_bool (\<not> f64_eq f (f64_zero False)) | _ \<Rightarrow> def)"

definition cdsl_context_get_string ::
  "cdsl_context \<Rightarrow> string \<Rightarrow> string option \<Rightarrow> string option" where
  "cdsl_context_get_string ctx name def =
     (case context_value ctx name of Some (VString s) \<Rightarrow> s | _ \<Rightarrow> def)"

definition cdsl_context_get_date :: "cdsl_context \<Rightarrow> string \<Rightarrow> i64 \<Rightarrow> i64" where
  "cdsl_context_get_date ctx name def =
     (case context_value ctx name of Some (VDate d) \<Rightarrow> d | _ \<Rightarrow> def)"

definition cdsl_context_get_long :: "cdsl_context \<Rightarrow> string \<Rightarrow> i64 \<Rightarrow> i64" where
  "cdsl_context_get_long ctx name def =
     (case context_value ctx name of
        Some (VLong l) \<Rightarrow> l | Some (VInt i) \<Rightarrow> word_of_int (sint i) | _ \<Rightarrow> def)"

subsection \<open>Removal\<close>

fun unlink :: "ctx_entry list \<Rightarrow> string \<Rightarrow> bool \<times> ctx_entry list" where
  "unlink [] name = (False, [])"
| "unlink (e # es) name =
     (if ce_name e = name then (True, es)
      else case unlink es name of (b, es') \<Rightarrow> (b, e # es'))"

definition cdsl_context_remove :: "cdsl_context \<Rightarrow> string \<Rightarrow> bool \<times> cdsl_context" where
  "cdsl_context_remove ctx name =
     (case unlink (ctx_entries ctx) name of (found, es) \<Rightarrow>
        (found, ctx\<lparr>ctx_map := snd (cdsl_hashmap_remove (ctx_map ctx) name), ctx_entries := es\<rparr>))"

subsection \<open>The two indexes agree\<close>

definition ctx_ok :: "cdsl_context \<Rightarrow> bool" where
  "ctx_ok ctx \<longleftrightarrow> hm_ok (ctx_map ctx)
     \<and> distinct (map ce_addr (ctx_entries ctx)) \<and> distinct (map ce_name (ctx_entries ctx))
     \<and> (\<forall>e\<in>set (ctx_entries ctx). ce_addr e < ctx_next_addr ctx)
     \<and> (\<forall>name p. cdsl_hashmap_get (ctx_map ctx) name = Some p
          \<longleftrightarrow> (\<exists>e\<in>set (ctx_entries ctx). ce_name e = name \<and> ce_addr e = p))"

lemma ctx_okD:
  assumes "ctx_ok ctx"
  shows "hm_ok (ctx_map ctx)" and "distinct (map ce_addr (ctx_entries ctx))"
    and "distinct (map ce_name (ctx_entries ctx))"
    and "\<And>e. e \<in> set (ctx_entries ctx) \<Longrightarrow> ce_addr e < ctx_next_addr ctx"
    and "\<And>name p. cdsl_hashmap_get (ctx_map ctx) name = Some p
          \<longleftrightarrow> (\<exists>e\<in>set (ctx_entries ctx). ce_name e = name \<and> ce_addr e = p)"
  using assms by (simp_all add: ctx_ok_def)

lemma deref_Some_iff:
  "distinct (map ce_addr es) \<Longrightarrow> deref es p = Some e \<longleftrightarrow> e \<in> set es \<and> ce_addr e = p"
  by (induction es) (auto simp: image_iff)

lemma store_keeps [simp]:
  "map ce_addr (store es p v) = map ce_addr es" "map ce_name (store es p v) = map ce_name es"
  by (induction es) auto

lemma bex_store:
  "distinct (map ce_addr es) \<Longrightarrow>
     (\<exists>x\<in>set (store es p v). P x) = (\<exists>e\<in>set es. P (if ce_addr e = p then e\<lparr>ce_value := v\<rparr> else e))"
proof (induction es)
  case (Cons e es)
  then show ?case by (cases "ce_addr e = p") (auto simp: image_iff, metis+)
qed simp

lemma unlink_filter:
  "distinct (map ce_name es) \<Longrightarrow>
     unlink es name = (name \<in> ce_name ` set es, filter (\<lambda>e. ce_name e \<noteq> name) es)"
proof (induction es)
  case (Cons e es)
  then show ?case
    by (cases "ce_name e = name") (auto simp: image_iff intro!: filter_True [symmetric])
qed simp

lemma ctx_ok_create [simp, intro]: "ctx_ok (cdsl_context_create s)"
  by (simp add: ctx_ok_def cdsl_context_create_def hm_ok_create)

lemma get_entry_iff:
  assumes "ctx_ok ctx"
  shows "cdsl_context_get_entry_internal ctx name = Some e
    \<longleftrightarrow> e \<in> set (ctx_entries ctx) \<and> ce_name e = name"
proof (cases "cdsl_hashmap_get (ctx_map ctx) name")
  case None
  then have "\<not> (\<exists>e\<in>set (ctx_entries ctx). ce_name e = name)"
    using ctx_okD(5) [OF assms, of name] by auto
  with None show ?thesis by (auto simp: cdsl_context_get_entry_internal_def)
next
  case (Some p)
  note d = ctx_okD [OF assms]
  from Some d(5) obtain e' where e': "e' \<in> set (ctx_entries ctx)" "ce_name e' = name" "ce_addr e' = p"
    by blast
  have "deref (ctx_entries ctx) p = Some e'" using e' d(2) by (simp add: deref_Some_iff)
  moreover have "e \<in> set (ctx_entries ctx) \<Longrightarrow> ce_name e = name \<Longrightarrow> e = e'"
    using e' d(3) by (metis distinct_map inj_onD)
  ultimately show ?thesis using Some e' by (auto simp: cdsl_context_get_entry_internal_def)
qed

lemma get_entry_None_iff:
  "ctx_ok ctx \<Longrightarrow> cdsl_context_get_entry_internal ctx name = None
     \<longleftrightarrow> name \<notin> ce_name ` set (ctx_entries ctx)"
  by (metis (no_types, lifting) get_entry_iff image_iff not_None_eq)

definition lookup :: "cdsl_context \<Rightarrow> string \<Rightarrow> cdsl_value option" where
  "lookup ctx name = map_of (map (\<lambda>e. (ce_name e, ce_value e)) (ctx_entries ctx)) name"

lemma lookup_Some_iff:
  "ctx_ok ctx \<Longrightarrow> lookup ctx name = Some v
     \<longleftrightarrow> (\<exists>e\<in>set (ctx_entries ctx). ce_name e = name \<and> ce_value e = v)"
  unfolding lookup_def
  by (subst map_of_eq_Some_iff) (auto simp: comp_def ctx_okD(3))

text \<open>Reading through the hash map gives what the entry list holds.\<close>

lemma context_value_lookup: "ctx_ok ctx \<Longrightarrow> context_value ctx name = lookup ctx name"
proof (cases "cdsl_context_get_entry_internal ctx name")
  case None
  assume ok: "ctx_ok ctx"
  with None have "lookup ctx name = None"
    by (metis (no_types, lifting) get_entry_None_iff image_eqI lookup_Some_iff not_None_eq)
  with None show ?thesis by (simp add: context_value_def)
next
  case (Some e)
  assume ok: "ctx_ok ctx"
  with Some have "lookup ctx name = Some (ce_value e)"
    by (metis get_entry_iff lookup_Some_iff)
  with Some show ?thesis by (simp add: context_value_def)
qed

lemma bind_ok:
  assumes ok: "ctx_ok ctx"
  shows "ctx_ok (context_bind ctx name v)"
proof (cases "cdsl_context_get_entry_internal ctx name")
  case (Some e)
  note d = ctx_okD [OF ok]
  have "(\<exists>x\<in>set (store (ctx_entries ctx) (ce_addr e) v). ce_name x = n \<and> ce_addr x = p)
      = (\<exists>x\<in>set (ctx_entries ctx). ce_name x = n \<and> ce_addr x = p)" for n p
    unfolding bex_store [OF d(2)] by (intro bex_cong) auto
  moreover have "\<not> (\<exists>x\<in>set (store (ctx_entries ctx) (ce_addr e) v). \<not> ce_addr x < ctx_next_addr ctx)"
    unfolding bex_store [OF d(2)] using d(4) by (auto split: if_splits dest: d(4) sym)
  ultimately show ?thesis
    using ok Some by (simp add: context_bind_def ctx_ok_def)
next
  case None
  note d = ctx_okD [OF ok]
  have fresh: "name \<notin> ce_name ` set (ctx_entries ctx)" using get_entry_None_iff [OF ok] None by simp
  have "ctx_next_addr ctx \<notin> ce_addr ` set (ctx_entries ctx)"
    using d(4) by (metis image_iff less_irrefl)
  moreover have "\<forall>n p. cdsl_hashmap_get (cdsl_hashmap_put (ctx_map ctx) name (ctx_next_addr ctx)) n = Some p
      \<longleftrightarrow> (n = name \<and> p = ctx_next_addr ctx) \<or> (\<exists>e\<in>set (ctx_entries ctx). ce_name e = n \<and> ce_addr e = p)"
    using fresh d(5) by (auto simp: hm.get_put [OF d(1)])
  ultimately show ?thesis
    using fresh d None by (auto simp: context_bind_def ctx_ok_def hm.invar_put less_Suc_eq)
qed

lemma lookup_bind:
  assumes ok: "ctx_ok ctx"
  shows "lookup (context_bind ctx name v) name' =
    (if name' = name \<and> \<not> (lookup ctx name \<noteq> None \<and> context_var_is_readonly ctx name)
     then Some v else lookup ctx name')"
proof (cases "cdsl_context_get_entry_internal ctx name")
  case None
  then have "lookup ctx name = None" using context_value_lookup [OF ok, of name] by (simp add: context_value_def)
  with None show ?thesis by (auto simp: context_bind_def lookup_def)
next
  case (Some e)
  note d = ctx_okD [OF ok]
  from Some have b: "lookup ctx name = Some (ce_value e)"
    using context_value_lookup [OF ok, of name] by (simp add: context_value_def)
  show ?thesis
  proof (cases "context_var_is_readonly ctx name")
    case True
    with Some b show ?thesis by (simp add: context_bind_def)
  next
    case False
    let ?c = "context_bind ctx name v"
    have es: "ctx_entries ?c = store (ctx_entries ctx) (ce_addr e) v"
      using Some False by (simp add: context_bind_def)
    have e: "e \<in> set (ctx_entries ctx)" "ce_name e = name" using Some get_entry_iff [OF ok] by auto
    have addr: "ce_addr x = ce_addr e \<longleftrightarrow> ce_name x = name" if "x \<in> set (ctx_entries ctx)" for x
      using that e d(2,3) by (metis distinct_map inj_onD)
    have "lookup ?c name' = Some w \<longleftrightarrow>
        (if name' = name then w = v else lookup ctx name' = Some w)" for w
      unfolding lookup_Some_iff [OF bind_ok [OF ok]] es bex_store [OF d(2)] lookup_Some_iff [OF ok]
      using addr e by (auto split: if_splits)
    then have "lookup ?c name' = (if name' = name then Some v else lookup ctx name')"
      by (intro option_eqI) auto
    with False show ?thesis by simp
  qed
qed

lemma remove_context:
  assumes ok: "ctx_ok ctx"
  shows "ctx_ok (snd (cdsl_context_remove ctx name))"
    and "lookup (snd (cdsl_context_remove ctx name)) name' = (if name' = name then None else lookup ctx name')"
    and "fst (cdsl_context_remove ctx name) = (lookup ctx name \<noteq> None)"
proof -
  note d = ctx_okD [OF ok]
  let ?es = "filter (\<lambda>e. ce_name e \<noteq> name) (ctx_entries ctx)"
  have r: "cdsl_context_remove ctx name = (name \<in> ce_name ` set (ctx_entries ctx),
      ctx\<lparr>ctx_map := snd (cdsl_hashmap_remove (ctx_map ctx) name), ctx_entries := ?es\<rparr>)"
    by (simp add: cdsl_context_remove_def unlink_filter [OF d(3)])
  show ok': "ctx_ok (snd (cdsl_context_remove ctx name))"
    using d by (auto simp: r ctx_ok_def hm.invar_remove hm.get_remove distinct_map_filter)
  show "lookup (snd (cdsl_context_remove ctx name)) name' = (if name' = name then None else lookup ctx name')"
  proof -
    have "lookup (snd (cdsl_context_remove ctx name)) name' = Some v \<longleftrightarrow>
        name' \<noteq> name \<and> lookup ctx name' = Some v" for v
      unfolding lookup_Some_iff [OF ok'] lookup_Some_iff [OF ok] by (auto simp: r)
    then show ?thesis by (metis not_None_eq)
  qed
  show "fst (cdsl_context_remove ctx name) = (lookup ctx name \<noteq> None)"
    using lookup_Some_iff [OF ok, of name] by (auto simp: r)
qed

subsection \<open>Sequences of updates\<close>

datatype ctx_op = CSet string cdsl_value | CRemove string

fun ctx_exec :: "ctx_op \<Rightarrow> cdsl_context \<Rightarrow> cdsl_context" where
  "ctx_exec (CSet n (VInt i)) c = cdsl_context_set_int c n i"
| "ctx_exec (CSet n (VFloat f)) c = cdsl_context_set_float c n f"
| "ctx_exec (CSet n (VBool b)) c = cdsl_context_set_bool c n b"
| "ctx_exec (CSet n (VString s)) c = cdsl_context_set_string c n s"
| "ctx_exec (CSet n (VDate d)) c = cdsl_context_set_date c n d"
| "ctx_exec (CSet n (VLong l)) c = cdsl_context_set_long c n l"
| "ctx_exec (CSet n _) c = c"
| "ctx_exec (CRemove n) c = snd (cdsl_context_remove c n)"

text \<open>The abstract context: a finite map, with the read-only rule of the schema.\<close>

fun settable :: "cdsl_value \<Rightarrow> bool" where
  "settable (VVoid _) = False"
| "settable (VArray _) = False"
| "settable _ = True"

definition schema_readonly :: "cdsl_schema option \<Rightarrow> string \<Rightarrow> bool" where
  "schema_readonly s name = context_var_is_readonly (cdsl_context_create s) name"

fun abs_exec :: "cdsl_schema option \<Rightarrow> ctx_op \<Rightarrow> (string \<rightharpoonup> cdsl_value) \<Rightarrow> (string \<rightharpoonup> cdsl_value)" where
  "abs_exec s (CSet n v) f =
     (if settable v \<and> \<not> (f n \<noteq> None \<and> schema_readonly s n) then f(n \<mapsto> v) else f)"
| "abs_exec s (CRemove n) f = f(n := None)"

lemmas ctx_setter_defs = cdsl_context_set_int_def cdsl_context_set_float_def
  cdsl_context_set_bool_def cdsl_context_set_string_def cdsl_context_set_date_def
  cdsl_context_set_long_def

lemma ctx_exec_set: "ctx_exec (CSet n v) c = (if settable v then context_bind c n v else c)"
  by (cases v) (simp_all add: ctx_setter_defs)

lemma bind_schema [simp]: "ctx_schema (context_bind c n v) = ctx_schema c"
  by (simp add: context_bind_def split: option.splits)

lemma exec_schema [simp]: "ctx_schema (ctx_exec p c) = ctx_schema c"
  by (cases p) (simp_all add: ctx_exec_set cdsl_context_remove_def split: prod.splits)

lemma readonly_schema: "context_var_is_readonly c n = schema_readonly (ctx_schema c) n"
  by (simp add: schema_readonly_def context_var_is_readonly_def cdsl_context_create_def)

lemma ctx_exec_ok: "ctx_ok c \<Longrightarrow> ctx_ok (ctx_exec p c)"
  by (cases p) (auto simp: ctx_exec_set bind_ok intro: remove_context)

lemma ctx_exec_abs: "ctx_ok c \<Longrightarrow> lookup (ctx_exec p c) = abs_exec (ctx_schema c) p (lookup c)"
  by (cases p) (auto simp: ctx_exec_set lookup_bind remove_context(2) readonly_schema fun_eq_iff)

lemma ctx_execs:
  "ctx_ok c \<Longrightarrow> ctx_ok (fold ctx_exec ps c)
     \<and> lookup (fold ctx_exec ps c) = fold (abs_exec (ctx_schema c)) ps (lookup c)"
proof (induction ps arbitrary: c)
  case (Cons p ps)
  from Cons.IH [OF ctx_exec_ok [OF Cons.prems]] Cons.prems show ?case
    by (simp add: ctx_exec_abs)
qed simp

lemma lookup_create [simp]: "lookup (cdsl_context_create s) = Map.empty"
  by (simp add: fun_eq_iff lookup_def cdsl_context_create_def)

lemma create_schema [simp]: "ctx_schema (cdsl_context_create s) = s"
  by (simp add: cdsl_context_create_def)

text \<open>
  Claim C40. The context refines a finite map with write-once read-only variables: after any
  sequence of sets and removes, the value read through the hash map is that of the abstract
  map, and the entry list and the hash map never disagree.
\<close>

theorem context_refines_map:
  "context_value (fold ctx_exec ps (cdsl_context_create s)) = fold (abs_exec s) ps Map.empty"
  using ctx_execs [OF ctx_ok_create, of ps s] by (simp add: fun_eq_iff context_value_lookup)

lemma abs_exec_readonly:
  "\<lbrakk>f n = Some v; schema_readonly s n; CRemove n \<notin> set ps\<rbrakk> \<Longrightarrow> fold (abs_exec s) ps f n = Some v"
proof (induction ps arbitrary: f)
  case (Cons p ps)
  then have "abs_exec s p f n = Some v" by (cases p) auto
  with Cons show ?case by simp
qed simp

text \<open>
  A bound variable that the schema declares read-only keeps its value through any
  sequence of sets, of this or other variables and of any type, and through removals of
  other variables.
\<close>

lemma readonly_immutable:
  assumes "ctx_ok ctx" and "context_value ctx n = Some v" and "context_var_is_readonly ctx n"
    and "CRemove n \<notin> set ps"
  shows "context_value (fold ctx_exec ps ctx) n = Some v"
  using assms ctx_execs [OF assms(1), of ps] abs_exec_readonly [of "lookup ctx" n v "ctx_schema ctx" ps]
  by (simp add: context_value_lookup readonly_schema)

lemma context_value_bind:
  assumes "ctx_ok c"
  shows "context_value (context_bind c n v) x =
    (if x = n \<and> \<not> (context_value c n \<noteq> None \<and> context_var_is_readonly c n) then Some v
     else context_value c x)"
  using lookup_bind [OF assms, of n v x] assms by (auto simp: context_value_lookup bind_ok)

lemma context_value_create [simp]: "context_value (cdsl_context_create s) x = None"
  by (simp add: context_value_lookup [OF ctx_ok_create])

lemma readonly_find_var:
  "context_var_is_readonly ctx name = (case ctx_schema ctx of None \<Rightarrow> False
     | Some s \<Rightarrow> (case find_var s name of None \<Rightarrow> False | Some vs \<Rightarrow> vs_is_readonly vs))"
  unfolding context_var_is_readonly_def find_var_def ..

lemmas context_eval = readonly_find_var context_value_bind bind_ok ctx_setter_defs

lemma readonly_immutable_witness:
  "let s = cdsl_schema_register_var_rw cdsl_schema_create ''limit'' CDSL_TYPE_INT True in
   context_value (fold ctx_exec [CSet ''limit'' (VInt 99), CRemove ''other''] 
     (cdsl_context_set_int (cdsl_context_create (Some s)) ''limit'' 10)) ''limit'' = Some (VInt 10)"
  using readonly_immutable [of "cdsl_context_set_int (cdsl_context_create
      (Some (cdsl_schema_register_var_rw cdsl_schema_create ''limit'' CDSL_TYPE_INT True))) ''limit'' 10"
      "''limit''" "VInt 10" "[CSet ''limit'' (VInt 99), CRemove ''other'']"]
  by (simp add: context_eval schema_eval Let_def)

end
