(* ===== verification/Cdsl_Vm.thy ===== *)
theory Cdsl_Vm
  imports Cdsl_Context
begin

section \<open>The virtual machine state (\<open>include/cdsl/vm.h\<close>, \<open>src/vm/vm.c\<close>, \<open>src/vm/context.c\<close>)\<close>

text \<open>
  The VM record: registered callbacks and functions, statistics, the sandbox limits and
  their per-execution counters, and the error state. Everything outside the program that it
  reads (clocks, \<open>mktime\<close>, user functions, addresses) is in the environment record. Locks,
  atomics and debug output have no counterpart: the model runs one execution at a time.
\<close>

subsection \<open>State\<close>

datatype builtin =
    B_strlen | B_contains | B_is_before | B_is_after | B_now | B_days_between
  | B_uppercase | B_lowercase | B_trim | B_startswith | B_endswith
  | B_abs | B_min | B_max | B_round | B_typeof | B_count | B_sum | B_date_add | B_approx_eq

text \<open>A function pointer is a built-in or the number of a user function.\<close>

datatype func_cb = Builtin builtin | Custom nat

record cdsl_stats =
  st_total_executions :: int
  st_total_rules_executed :: int
  st_total_metrics_evaluated :: int
  st_total_actions_triggered :: int
  st_total_time_us :: f64
  st_avg_time_us :: f64

datatype cdsl_trace_kind =
  CDSL_TRACE_EXPR | CDSL_TRACE_METRIC | CDSL_TRACE_RULE | CDSL_TRACE_ACTION

record cdsl_trace_event =
  ev_kind :: cdsl_trace_kind
  ev_rule_name :: string
  ev_detail :: string
  ev_value :: cdsl_value
  ev_depth :: int
  ev_timestamp_us :: f64

text \<open>
  \<open>vm_action_log\<close> and \<open>vm_trace\<close> record the calls of user callbacks in order, and
  \<open>vm_clock\<close> counts clock readings; they are the model's view of the outside world.
\<close>

record cdsl_vm =
  vm_callbacks :: "(string \<times> nat) list"
  vm_functions :: "(string \<times> func_cb) list"
  vm_stats :: cdsl_stats
  vm_max_expr_depth :: int
  vm_timeout_us :: int
  vm_memory_limit :: int
  vm_instruction_limit :: int
  vm_alloc_bytes :: int
  vm_instruction_count :: int
  vm_error_state :: bool
  vm_last_error :: "cdsl_error option"
  vm_trace_cb :: bool
  vm_action_log :: "(nat \<times> string \<times> cdsl_expr list) list"
  vm_trace :: "cdsl_trace_event list"
  vm_clock :: nat

record tm =
  tm_year :: i32
  tm_mon :: i32
  tm_mday :: i32
  tm_hour :: i32
  tm_min :: i32
  tm_sec :: i32

text \<open>
  The environment: the \<open>n\<close>-th reading of the monotonic clock and of \<open>time(NULL)\<close>, \<open>mktime\<close>,
  the user functions (which may read the context and change the VM), the low 32 bits of the
  address of a string or array, and the result of an out-of-range \<open>(int)double\<close>.
\<close>

record cdsl_env =
  env_clock_us :: "nat \<Rightarrow> f64"
  env_time :: "nat \<Rightarrow> i64"
  env_mktime :: "tm \<Rightarrow> i64"
  env_custom :: "nat \<Rightarrow> string \<Rightarrow> cdsl_expr list \<Rightarrow> cdsl_context \<Rightarrow> cdsl_vm \<Rightarrow> cdsl_value \<times> cdsl_vm"
  env_addr :: "cdsl_value \<Rightarrow> i32"
  env_ub :: "f64 \<Rightarrow> i32"

definition CDSL_MAX_EXPR_DEPTH :: int where
  "CDSL_MAX_EXPR_DEPTH = 64"

definition stats_zero :: cdsl_stats where
  "stats_zero = \<lparr>st_total_executions = 0, st_total_rules_executed = 0,
     st_total_metrics_evaluated = 0, st_total_actions_triggered = 0,
     st_total_time_us = 0, st_avg_time_us = 0\<rparr>"

subsection \<open>Registration and configuration\<close>

definition cdsl_vm_register_action :: "cdsl_vm \<Rightarrow> string \<Rightarrow> nat \<Rightarrow> cdsl_vm" where
  "cdsl_vm_register_action vm name cb = vm\<lparr>vm_callbacks := (name, cb) # vm_callbacks vm\<rparr>"

definition cdsl_vm_register_function :: "cdsl_vm \<Rightarrow> string \<Rightarrow> func_cb \<Rightarrow> cdsl_vm" where
  "cdsl_vm_register_function vm name cb = vm\<lparr>vm_functions := (name, cb) # vm_functions vm\<rparr>"

definition builtin_table :: "(string \<times> builtin) list" where
  "builtin_table =
     [(''strlen'', B_strlen), (''contains'', B_contains), (''is_before'', B_is_before),
      (''is_after'', B_is_after), (''now'', B_now), (''days_between'', B_days_between),
      (''uppercase'', B_uppercase), (''lowercase'', B_lowercase), (''trim'', B_trim),
      (''startswith'', B_startswith), (''endswith'', B_endswith), (''abs'', B_abs),
      (''min'', B_min), (''max'', B_max), (''round'', B_round), (''typeof'', B_typeof),
      (''count'', B_count), (''sum'', B_sum), (''date_add'', B_date_add),
      (''approx_eq'', B_approx_eq)]"

definition cdsl_vm_register_builtins :: "cdsl_vm \<Rightarrow> cdsl_vm" where
  "cdsl_vm_register_builtins vm =
     fold (\<lambda>(n, b) vm. cdsl_vm_register_function vm n (Builtin b)) builtin_table vm"

definition vm_zero :: cdsl_vm where
  "vm_zero = \<lparr>vm_callbacks = [], vm_functions = [], vm_stats = stats_zero,
     vm_max_expr_depth = 0, vm_timeout_us = 0, vm_memory_limit = 0, vm_instruction_limit = 0,
     vm_alloc_bytes = 0, vm_instruction_count = 0, vm_error_state = False,
     vm_last_error = None, vm_trace_cb = False, vm_action_log = [], vm_trace = [], vm_clock = 0\<rparr>"

definition cdsl_vm_create :: cdsl_vm where
  "cdsl_vm_create =
     cdsl_vm_register_builtins (vm_zero\<lparr>vm_max_expr_depth := CDSL_MAX_EXPR_DEPTH\<rparr>)"

text \<open>A worker VM of a parallel run copies the parent's limits and borrows its two lists.\<close>

definition cdsl_vm_init_worker ::
  "int \<Rightarrow> int \<Rightarrow> int \<Rightarrow> int \<Rightarrow> bool \<Rightarrow> (string \<times> nat) list \<Rightarrow> (string \<times> func_cb) list \<Rightarrow> cdsl_vm" where
  "cdsl_vm_init_worker max_expr_depth timeout_us memory_limit instruction_limit trace_cb cbs fns =
     vm_zero\<lparr>vm_max_expr_depth := (if 0 < max_expr_depth then max_expr_depth else CDSL_MAX_EXPR_DEPTH),
       vm_timeout_us := timeout_us, vm_memory_limit := memory_limit,
       vm_instruction_limit := instruction_limit, vm_trace_cb := trace_cb,
       vm_callbacks := cbs, vm_functions := fns\<rparr>"

definition cdsl_vm_set_max_expr_depth :: "cdsl_vm \<Rightarrow> int \<Rightarrow> cdsl_vm" where
  "cdsl_vm_set_max_expr_depth vm d = (if 0 < d then vm\<lparr>vm_max_expr_depth := d\<rparr> else vm)"

definition cdsl_vm_set_timeout :: "cdsl_vm \<Rightarrow> int \<Rightarrow> cdsl_vm" where
  "cdsl_vm_set_timeout vm t = vm\<lparr>vm_timeout_us := t\<rparr>"

definition cdsl_vm_set_memory_limit :: "cdsl_vm \<Rightarrow> int \<Rightarrow> cdsl_vm" where
  "cdsl_vm_set_memory_limit vm n = vm\<lparr>vm_memory_limit := n\<rparr>"

definition cdsl_vm_set_instruction_limit :: "cdsl_vm \<Rightarrow> int \<Rightarrow> cdsl_vm" where
  "cdsl_vm_set_instruction_limit vm n = vm\<lparr>vm_instruction_limit := n\<rparr>"

definition cdsl_vm_set_trace_callback :: "cdsl_vm \<Rightarrow> bool \<Rightarrow> cdsl_vm" where
  "cdsl_vm_set_trace_callback vm cb = vm\<lparr>vm_trace_cb := cb\<rparr>"

definition cdsl_vm_get_stats :: "cdsl_vm \<Rightarrow> cdsl_stats" where
  "cdsl_vm_get_stats vm =
     (let s = vm_stats vm in
      if 0 < st_total_executions s
      then s\<lparr>st_avg_time_us := f64_div (st_total_time_us s) (f64_of_int (st_total_executions s))\<rparr>
      else s)"

definition cdsl_vm_reset_stats :: "cdsl_vm \<Rightarrow> cdsl_vm" where
  "cdsl_vm_reset_stats vm = vm\<lparr>vm_stats := stats_zero\<rparr>"

subsection \<open>Errors and quotas\<close>

definition cdsl_vm_set_last_error ::
  "cdsl_vm \<Rightarrow> cdsl_error_kind \<Rightarrow> loc \<Rightarrow> string \<Rightarrow> string option \<Rightarrow> cdsl_vm" where
  "cdsl_vm_set_last_error vm kind l msg hint =
     vm\<lparr>vm_last_error := Some (cdsl_error_create kind (fst l) (snd l) (Some msg) hint)\<rparr>"

text \<open>The pair the code always writes together: record the error and stop the execution.\<close>

definition vm_raise ::
  "cdsl_vm \<Rightarrow> cdsl_error_kind \<Rightarrow> loc \<Rightarrow> string \<Rightarrow> string option \<Rightarrow> cdsl_vm" where
  "vm_raise vm kind l msg hint = (cdsl_vm_set_last_error vm kind l msg hint)\<lparr>vm_error_state := True\<rparr>"

definition cdsl_vm_begin_execution :: "cdsl_vm \<Rightarrow> cdsl_vm" where
  "cdsl_vm_begin_execution vm =
     vm\<lparr>vm_instruction_count := 0, vm_alloc_bytes := 0, vm_error_state := False,
        vm_last_error := None\<rparr>"

definition cdsl_vm_track_alloc :: "cdsl_vm \<Rightarrow> int \<Rightarrow> bool \<times> cdsl_vm" where
  "cdsl_vm_track_alloc vm bytes =
     (if vm_memory_limit vm \<le> 0 then (True, vm)
      else let cur = vm_alloc_bytes vm + bytes; vm1 = vm\<lparr>vm_alloc_bytes := cur\<rparr> in
        if vm_memory_limit vm < cur
        then (False, vm_raise vm1 CDSL_ERR_RUNTIME (0, 0) ''Memory quota exceeded''
                (Some ''Increase VM memory limit or reduce runtime allocations''))
        else (True, vm1))"

definition cdsl_vm_track_free :: "cdsl_vm \<Rightarrow> int \<Rightarrow> cdsl_vm" where
  "cdsl_vm_track_free vm bytes =
     (if bytes = 0 then vm else vm\<lparr>vm_alloc_bytes := vm_alloc_bytes vm - bytes\<rparr>)"

definition cdsl_vm_strdup :: "cdsl_vm \<Rightarrow> string option \<Rightarrow> string option \<times> cdsl_vm" where
  "cdsl_vm_strdup vm s =
     (case s of None \<Rightarrow> (None, vm)
      | Some x \<Rightarrow> (case cdsl_vm_track_alloc vm (int (length x) + 1) of
          (ok, vm') \<Rightarrow> (if ok then Some x else None, vm')))"

definition cdsl_vm_calloc :: "cdsl_vm \<Rightarrow> int \<Rightarrow> int \<Rightarrow> bool \<times> cdsl_vm" where
  "cdsl_vm_calloc vm nmemb sz =
     (if sz \<noteq> 0 \<and> 18446744073709551615 div sz < nmemb then (False, vm)
      else cdsl_vm_track_alloc vm (nmemb * sz))"

definition cdsl_get_time_us_internal :: "cdsl_env \<Rightarrow> cdsl_vm \<Rightarrow> f64 \<times> cdsl_vm" where
  "cdsl_get_time_us_internal env vm =
     (env_clock_us env (vm_clock vm), vm\<lparr>vm_clock := vm_clock vm + 1\<rparr>)"

definition cdsl_vm_check_abort :: "cdsl_env \<Rightarrow> cdsl_vm \<Rightarrow> f64 \<Rightarrow> bool \<times> cdsl_vm" where
  "cdsl_vm_check_abort env vm start_time_us =
     (if vm_error_state vm then (True, vm)
      else if 0 < vm_timeout_us vm then
        (case cdsl_get_time_us_internal env vm of (now, vm1) \<Rightarrow>
           if f64_lt (f64_of_int (vm_timeout_us vm)) (f64_sub now start_time_us) then
             (True, (if vm_last_error vm1 = None
                     then cdsl_vm_set_last_error vm1 CDSL_ERR_RUNTIME (0, 0)
                            ''Execution timeout exceeded'' None
                     else vm1)\<lparr>vm_error_state := True\<rparr>)
           else (False, vm1))
      else (False, vm))"

subsection \<open>Actions and traces\<close>

fun assoc_first :: "(string \<times> 'a) list \<Rightarrow> string \<Rightarrow> 'a option" where
  "assoc_first [] n = None"
| "assoc_first (e # es) n = (if fst e = n then Some (snd e) else assoc_first es n)"

definition call_action :: "cdsl_vm \<Rightarrow> string \<Rightarrow> cdsl_expr list \<Rightarrow> cdsl_vm" where
  "call_action vm name args =
     (case assoc_first (vm_callbacks vm) name of
        None \<Rightarrow> vm
      | Some cb \<Rightarrow>
          vm\<lparr>vm_stats := (vm_stats vm)\<lparr>st_total_actions_triggered :=
                             st_total_actions_triggered (vm_stats vm) + 1\<rparr>,
             vm_action_log := vm_action_log vm @ [(cb, name, args)]\<rparr>)"

definition cdsl_trigger_action_internal :: "cdsl_vm \<Rightarrow> cdsl_action option \<Rightarrow> cdsl_vm" where
  "cdsl_trigger_action_internal vm action =
     (case action of None \<Rightarrow> vm | Some a \<Rightarrow> call_action vm (act_name a) (act_args a))"

definition fire_trace ::
  "cdsl_env \<Rightarrow> cdsl_vm \<Rightarrow> cdsl_trace_kind \<Rightarrow> string \<Rightarrow> string \<Rightarrow> cdsl_value \<Rightarrow> cdsl_vm" where
  "fire_trace env vm kind rule detail val =
     (if \<not> vm_trace_cb vm then vm
      else case cdsl_get_time_us_internal env vm of (t, vm1) \<Rightarrow>
        vm1\<lparr>vm_trace := vm_trace vm1 @ [\<lparr>ev_kind = kind, ev_rule_name = rule, ev_detail = detail,
              ev_value = val, ev_depth = 0, ev_timestamp_us = t\<rparr>]\<rparr>)"

subsection \<open>Lookups\<close>

lemma assoc_first_map_of: "assoc_first es n = map_of es n"
  by (induction es) auto

text \<open>
  Registering a callback for an action shadows every earlier one of the same
  name: exactly the newest is called, once, and other actions are not affected.
\<close>

lemma register_action_shadows:
  "vm_action_log (call_action (cdsl_vm_register_action vm name cb) act args)
     = (if act = name then vm_action_log vm @ [(cb, name, args)]
        else vm_action_log (call_action vm act args))"
  by (simp add: call_action_def cdsl_vm_register_action_def split: option.splits)

subsection \<open>What an evaluation may change\<close>

text \<open>
  \<open>evolves vm vm'\<close>: configuration, statistics, action log and trace are untouched, an error
  is never cleared, and the counters stay within their quotas unless an error is raised.
\<close>

definition sandbox_ok :: "cdsl_vm \<Rightarrow> bool" where
  "sandbox_ok vm \<longleftrightarrow> (\<not> vm_error_state vm \<longrightarrow>
     (0 < vm_instruction_limit vm \<longrightarrow> vm_instruction_count vm \<le> vm_instruction_limit vm)
     \<and> (0 < vm_memory_limit vm \<longrightarrow> vm_alloc_bytes vm \<le> vm_memory_limit vm))"

definition same_config :: "cdsl_vm \<Rightarrow> cdsl_vm \<Rightarrow> bool" where
  "same_config vm vm' \<longleftrightarrow>
     vm_callbacks vm' = vm_callbacks vm \<and> vm_functions vm' = vm_functions vm
     \<and> vm_max_expr_depth vm' = vm_max_expr_depth vm \<and> vm_timeout_us vm' = vm_timeout_us vm
     \<and> vm_memory_limit vm' = vm_memory_limit vm
     \<and> vm_instruction_limit vm' = vm_instruction_limit vm \<and> vm_trace_cb vm' = vm_trace_cb vm"

definition evolves :: "cdsl_vm \<Rightarrow> cdsl_vm \<Rightarrow> bool" where
  "evolves vm vm' \<longleftrightarrow> same_config vm vm'
     \<and> vm_action_log vm' = vm_action_log vm \<and> vm_stats vm' = vm_stats vm \<and> vm_trace vm' = vm_trace vm
     \<and> (vm_error_state vm \<longrightarrow> vm_error_state vm')
     \<and> (sandbox_ok vm \<longrightarrow> sandbox_ok vm')"

lemma evolves_refl [simp, intro]: "evolves vm vm"
  by (simp add: evolves_def same_config_def)

lemma evolves_trans [trans]: "evolves a b \<Longrightarrow> evolves b c \<Longrightarrow> evolves a c"
  by (simp add: evolves_def same_config_def)

lemmas evolves_defs = evolves_def same_config_def sandbox_ok_def

lemma evolves_raise [simp]: "evolves vm (vm_raise vm k l m h)"
  by (simp add: evolves_defs vm_raise_def cdsl_vm_set_last_error_def)

lemma evolves_track_alloc: "evolves vm (snd (cdsl_vm_track_alloc vm n))"
  by (simp add: evolves_defs cdsl_vm_track_alloc_def vm_raise_def cdsl_vm_set_last_error_def Let_def)

lemma evolves_strdup: "evolves vm (snd (cdsl_vm_strdup vm s))"
  using evolves_track_alloc by (auto simp: cdsl_vm_strdup_def split: option.splits prod.splits) (metis snd_conv)

lemma evolves_calloc: "evolves vm (snd (cdsl_vm_calloc vm n k))"
  using evolves_track_alloc by (auto simp: cdsl_vm_calloc_def)

lemma evolves_error: "evolves vm vm1 \<Longrightarrow> evolves vm (vm1\<lparr>vm_error_state := True\<rparr>)"
  unfolding evolves_def same_config_def sandbox_ok_def by simp

lemma evolves_set_error: "evolves vm vm1 \<Longrightarrow> evolves vm (cdsl_vm_set_last_error vm1 k l m h)"
  by (erule evolves_trans) (simp add: evolves_def same_config_def sandbox_ok_def cdsl_vm_set_last_error_def)

lemma evolves_clock [simp]: "evolves vm (vm\<lparr>vm_clock := n\<rparr>)"
  by (simp add: evolves_def same_config_def sandbox_ok_def)

definition env_ok :: "cdsl_env \<Rightarrow> bool" where
  "env_ok env \<longleftrightarrow> (\<forall>n f args ctx vm. evolves vm (snd (env_custom env n f args ctx vm)))"

text \<open>An environment for concrete runs: a clock that stands still, and no user functions.\<close>

definition env_plain :: cdsl_env where
  "env_plain = \<lparr>env_clock_us = (\<lambda>_. 0), env_time = (\<lambda>_. 0), env_mktime = (\<lambda>_. 0),
     env_custom = (\<lambda>n f args ctx vm. (void0, vm)), env_addr = (\<lambda>_. 1), env_ub = (\<lambda>_. 0)\<rparr>"

lemma env_ok_plain [simp, intro]: "env_ok env_plain"
  by (simp add: env_ok_def env_plain_def)

lemma register_builtins_fields [simp]:
  "vm_error_state (cdsl_vm_register_builtins vm) = vm_error_state vm"
  "vm_instruction_count (cdsl_vm_register_builtins vm) = vm_instruction_count vm"
  "vm_instruction_limit (cdsl_vm_register_builtins vm) = vm_instruction_limit vm"
  "vm_memory_limit (cdsl_vm_register_builtins vm) = vm_memory_limit vm"
  "vm_timeout_us (cdsl_vm_register_builtins vm) = vm_timeout_us vm"
  "vm_alloc_bytes (cdsl_vm_register_builtins vm) = vm_alloc_bytes vm"
  "vm_max_expr_depth (cdsl_vm_register_builtins vm) = vm_max_expr_depth vm"
  "vm_last_error (cdsl_vm_register_builtins vm) = vm_last_error vm"
  "vm_callbacks (cdsl_vm_register_builtins vm) = vm_callbacks vm"
  by (simp_all add: cdsl_vm_register_builtins_def builtin_table_def cdsl_vm_register_function_def)

lemma vm_create_fields [simp]:
  "\<not> vm_error_state cdsl_vm_create" "vm_instruction_count cdsl_vm_create = 0"
  "vm_instruction_limit cdsl_vm_create = 0" "vm_memory_limit cdsl_vm_create = 0"
  "vm_timeout_us cdsl_vm_create = 0"
  "vm_alloc_bytes cdsl_vm_create = 0" "vm_max_expr_depth cdsl_vm_create = 64"
  "vm_last_error cdsl_vm_create = None" "vm_callbacks cdsl_vm_create = []"
  by (simp_all add: cdsl_vm_create_def vm_zero_def CDSL_MAX_EXPR_DEPTH_def)

end
