(* ===== verification/Cdsl_Builtins.thy ===== *)
theory Cdsl_Builtins
  imports Cdsl_Vm
begin

section \<open>Built-in functions (\<open>src/vm/builtins.c\<close>)\<close>

text \<open>
  A built-in evaluates the argument expressions it needs, in order, at depth 0. The
  evaluator is a parameter \<open>ev\<close> of every built-in here, and the evaluator's own theory ties
  the knot. Signed overflow that C leaves undefined (\<open>sum\<close>, \<open>date_add\<close>, \<open>abs(INT_MIN)\<close>)
  wraps in the model; the theorems claim nothing where it happens.
\<close>

type_synonym evalfun = "cdsl_expr \<Rightarrow> cdsl_vm \<Rightarrow> cdsl_value \<times> cdsl_vm"

subsection \<open>Evaluating arguments\<close>

definition with_arg1 ::
  "evalfun \<Rightarrow> cdsl_value \<Rightarrow> (cdsl_value \<Rightarrow> cdsl_vm \<Rightarrow> cdsl_value \<times> cdsl_vm)
   \<Rightarrow> cdsl_expr list \<Rightarrow> cdsl_vm \<Rightarrow> cdsl_value \<times> cdsl_vm" where
  "with_arg1 ev def f args vm =
     (case args of [] \<Rightarrow> (def, vm)
      | a # _ \<Rightarrow> (case ev a vm of (v, vm1) \<Rightarrow> f v vm1))"

definition with_arg2 ::
  "evalfun \<Rightarrow> cdsl_value \<Rightarrow> (cdsl_value \<Rightarrow> cdsl_value \<Rightarrow> cdsl_vm \<Rightarrow> cdsl_value \<times> cdsl_vm)
   \<Rightarrow> cdsl_expr list \<Rightarrow> cdsl_vm \<Rightarrow> cdsl_value \<times> cdsl_vm" where
  "with_arg2 ev def f args vm =
     (case args of
        a # b # _ \<Rightarrow>
          (case ev a vm of (v1, vm1) \<Rightarrow> case ev b vm1 of (v2, vm2) \<Rightarrow> f v1 v2 vm2)
      | _ \<Rightarrow> (def, vm))"

lemma with_arg1_cong:
  "(\<And>a v. a \<in> set args \<Longrightarrow> ev a v = ev' a v) \<Longrightarrow>
     with_arg1 ev def f args vm = with_arg1 ev' def f args vm"
  by (simp add: with_arg1_def split: list.split)

lemma with_arg2_cong:
  "(\<And>a v. a \<in> set args \<Longrightarrow> ev a v = ev' a v) \<Longrightarrow>
     with_arg2 ev def f args vm = with_arg2 ev' def f args vm"
  by (simp add: with_arg2_def split: list.split)

subsection \<open>Strings\<close>

definition builtin_strlen :: "evalfun \<Rightarrow> cdsl_expr list \<Rightarrow> cdsl_vm \<Rightarrow> cdsl_value \<times> cdsl_vm" where
  "builtin_strlen ev = with_arg1 ev (VInt 0)
     (\<lambda>v vm. (case v of
        VString (Some s) \<Rightarrow> VInt (of_nat (length s))
      | VInt i \<Rightarrow> VInt (of_nat (length (dec_of_int (sint i))))
      | _ \<Rightarrow> VInt 0, vm))"

definition string_test :: "(string \<Rightarrow> string \<Rightarrow> bool) \<Rightarrow> cdsl_value \<Rightarrow> cdsl_value \<Rightarrow> cdsl_value" where
  "string_test p v1 v2 =
     (case (v1, v2) of
        (VString (Some s), VString (Some t)) \<Rightarrow> VBool (c_bool (p s t))
      | _ \<Rightarrow> VBool 0)"

definition builtin_contains :: "evalfun \<Rightarrow> cdsl_expr list \<Rightarrow> cdsl_vm \<Rightarrow> cdsl_value \<times> cdsl_vm" where
  "builtin_contains ev = with_arg2 ev (VBool 0) (\<lambda>v1 v2 vm. (string_test c_strstr v1 v2, vm))"

definition builtin_startswith :: "evalfun \<Rightarrow> cdsl_expr list \<Rightarrow> cdsl_vm \<Rightarrow> cdsl_value \<times> cdsl_vm" where
  "builtin_startswith ev = with_arg2 ev (VBool 0)
     (\<lambda>v1 v2 vm. (string_test (\<lambda>s p. c_strncmp s p (length p) = 0) v1 v2, vm))"

definition builtin_endswith :: "evalfun \<Rightarrow> cdsl_expr list \<Rightarrow> cdsl_vm \<Rightarrow> cdsl_value \<times> cdsl_vm" where
  "builtin_endswith ev = with_arg2 ev (VBool 0)
     (\<lambda>v1 v2 vm. (string_test
        (\<lambda>s t. length t \<le> length s \<and> c_strcmp (drop (length s - length t) s) t = 0) v1 v2, vm))"

text \<open>A fresh string of the given contents, if the memory budget allows it.\<close>

definition alloc_string :: "cdsl_vm \<Rightarrow> string \<Rightarrow> cdsl_value \<times> cdsl_vm" where
  "alloc_string vm s =
     (case cdsl_vm_calloc vm (int (length s) + 1) 1 of
        (ok, vm') \<Rightarrow> (VString (if ok then Some s else None), vm'))"

definition map_string ::
  "(string \<Rightarrow> cdsl_vm \<Rightarrow> cdsl_value \<times> cdsl_vm) \<Rightarrow> cdsl_value \<Rightarrow> cdsl_vm \<Rightarrow> cdsl_value \<times> cdsl_vm" where
  "map_string f v vm = (case v of VString (Some s) \<Rightarrow> f s vm | _ \<Rightarrow> (VString None, vm))"

definition builtin_uppercase :: "evalfun \<Rightarrow> cdsl_expr list \<Rightarrow> cdsl_vm \<Rightarrow> cdsl_value \<times> cdsl_vm" where
  "builtin_uppercase ev = with_arg1 ev (VString None)
     (map_string (\<lambda>s vm. alloc_string vm (map c_toupper s)))"

definition builtin_lowercase :: "evalfun \<Rightarrow> cdsl_expr list \<Rightarrow> cdsl_vm \<Rightarrow> cdsl_value \<times> cdsl_vm" where
  "builtin_lowercase ev = with_arg1 ev (VString None)
     (map_string (\<lambda>s vm. alloc_string vm (map c_tolower s)))"

text \<open>The loop that shortens \<open>len\<close> while the last character is white space.\<close>

fun trim_len :: "string \<Rightarrow> nat \<Rightarrow> nat" where
  "trim_len s 0 = 0"
| "trim_len s (Suc n) = (if c_isspace (s ! n) then trim_len s n else Suc n)"

definition trim_string :: "string \<Rightarrow> cdsl_vm \<Rightarrow> cdsl_value \<times> cdsl_vm" where
  "trim_string s0 vm =
     (let s = dropWhile c_isspace s0 in
      if s = [] then (case cdsl_vm_strdup vm (Some '''') of (r, vm') \<Rightarrow> (VString r, vm'))
      else alloc_string vm (take (trim_len s (length s)) s))"

definition builtin_trim :: "evalfun \<Rightarrow> cdsl_expr list \<Rightarrow> cdsl_vm \<Rightarrow> cdsl_value \<times> cdsl_vm" where
  "builtin_trim ev = with_arg1 ev (VString None) (map_string trim_string)"

definition builtin_typeof :: "evalfun \<Rightarrow> cdsl_expr list \<Rightarrow> cdsl_vm \<Rightarrow> cdsl_value \<times> cdsl_vm" where
  "builtin_typeof ev = with_arg1 ev (VString None)
     (\<lambda>v vm. (VString (Some (cdsl_type_name (vtype v))), vm))"

subsection \<open>Dates\<close>

text \<open>\<open>strtol\<close> that must be followed by the separator \<open>c\<close>.\<close>

definition number_then :: "char \<Rightarrow> string \<Rightarrow> (i32 \<times> string) option" where
  "number_then c s =
     (case c_strtol s of None \<Rightarrow> None
      | Some r \<Rightarrow> (case stl_end r of [] \<Rightarrow> None
          | d # rest \<Rightarrow> if d = c then Some (word_of_int (stl_value r), rest) else None))"

definition parse_time :: "string \<Rightarrow> i32 \<times> i32 \<times> i32" where
  "parse_time s =
     (case number_then (CHR '':'') s of None \<Rightarrow> (0, 0, 0)
      | Some (hh, s1) \<Rightarrow>
        (case number_then (CHR '':'') s1 of None \<Rightarrow> (hh, 0, 0)
         | Some (mm, s2) \<Rightarrow>
           (case c_strtol s2 of None \<Rightarrow> (hh, mm, 0)
            | Some r \<Rightarrow> (hh, mm, word_of_int (stl_value r)))))"

definition parse_iso_date :: "cdsl_env \<Rightarrow> string option \<Rightarrow> i64" where
  "parse_iso_date env so =
     (case so of None \<Rightarrow> - 1
      | Some s \<Rightarrow>
        (case number_then (CHR ''-'') s of None \<Rightarrow> - 1
         | Some (y, s1) \<Rightarrow>
           (case number_then (CHR ''-'') s1 of None \<Rightarrow> - 1
            | Some (m, s2) \<Rightarrow>
              (case c_strtol s2 of None \<Rightarrow> - 1
               | Some r \<Rightarrow>
                 (case (case stl_end r of
                          c # s3 \<Rightarrow> if c = CHR '' '' then parse_time s3 else (0, 0, 0)
                        | [] \<Rightarrow> (0, 0, 0)) of
                    (hh, mm, ss) \<Rightarrow>
                      env_mktime env \<lparr>tm_year = y - 1900, tm_mon = m - 1,
                        tm_mday = word_of_int (stl_value r),
                        tm_hour = hh, tm_min = mm, tm_sec = ss\<rparr>)))))"

fun date_of_value :: "cdsl_env \<Rightarrow> i64 \<Rightarrow> cdsl_value \<Rightarrow> i64" where
  "date_of_value env def (VDate d) = d"
| "date_of_value env def (VString s) = parse_iso_date env s"
| "date_of_value env def _ = def"

definition builtin_now :: "cdsl_env \<Rightarrow> cdsl_vm \<Rightarrow> cdsl_value \<times> cdsl_vm" where
  "builtin_now env vm = (VDate (env_time env (vm_clock vm)), vm\<lparr>vm_clock := vm_clock vm + 1\<rparr>)"

definition builtin_days_between ::
  "cdsl_env \<Rightarrow> evalfun \<Rightarrow> cdsl_expr list \<Rightarrow> cdsl_vm \<Rightarrow> cdsl_value \<times> cdsl_vm" where
  "builtin_days_between env ev = with_arg2 ev (VInt 0)
     (\<lambda>v1 v2 vm.
        let t1 = date_of_value env 0 v1; t2 = date_of_value env 0 v2 in
        (VInt (if t1 \<noteq> - 1 \<and> t2 \<noteq> - 1
               then f64_to_i32 (env_ub env) (f64_div (difftime t1 t2) (f64_of_int 86400))
               else 0), vm))"

definition date_test ::
  "cdsl_env \<Rightarrow> (int \<Rightarrow> int \<Rightarrow> bool) \<Rightarrow> cdsl_value \<Rightarrow> cdsl_value \<Rightarrow> cdsl_value" where
  "date_test env p v1 v2 =
     (let t1 = date_of_value env (- 1) v1; t2 = date_of_value env (- 1) v2 in
      VBool (if t1 \<noteq> - 1 \<and> t2 \<noteq> - 1 then c_bool (p (sint t1) (sint t2)) else 0))"

definition builtin_is_before ::
  "cdsl_env \<Rightarrow> evalfun \<Rightarrow> cdsl_expr list \<Rightarrow> cdsl_vm \<Rightarrow> cdsl_value \<times> cdsl_vm" where
  "builtin_is_before env ev = with_arg2 ev (VBool 0)
     (\<lambda>v1 v2 vm. (date_test env (\<lambda>a b. a < b) v1 v2, vm))"

definition builtin_is_after ::
  "cdsl_env \<Rightarrow> evalfun \<Rightarrow> cdsl_expr list \<Rightarrow> cdsl_vm \<Rightarrow> cdsl_value \<times> cdsl_vm" where
  "builtin_is_after env ev = with_arg2 ev (VBool 0)
     (\<lambda>v1 v2 vm. (date_test env (\<lambda>a b. a > b) v1 v2, vm))"

definition builtin_date_add ::
  "cdsl_env \<Rightarrow> evalfun \<Rightarrow> cdsl_expr list \<Rightarrow> cdsl_vm \<Rightarrow> cdsl_value \<times> cdsl_vm" where
  "builtin_date_add env ev = with_arg2 ev (VDate (- 1))
     (\<lambda>dv nv vm.
        let t = date_of_value env (- 1) dv;
            days = (case nv of VInt i \<Rightarrow> i | VFloat f \<Rightarrow> f64_to_i32 (env_ub env) f | _ \<Rightarrow> 0)
        in (VDate (if t \<noteq> - 1 \<and> days \<noteq> 0 then t + word_of_int (sint (days * 86400)) else - 1), vm))"

subsection \<open>Numbers and arrays\<close>

definition builtin_abs :: "evalfun \<Rightarrow> cdsl_expr list \<Rightarrow> cdsl_vm \<Rightarrow> cdsl_value \<times> cdsl_vm" where
  "builtin_abs ev = with_arg1 ev (VInt 0)
     (\<lambda>v vm. (case v of
        VInt i \<Rightarrow> VInt (if sint i < 0 then - i else i)
      | VFloat f \<Rightarrow> VFloat (f64_abs f)
      | _ \<Rightarrow> VInt 0, vm))"

fun value_to_double :: "cdsl_value \<Rightarrow> f64 option" where
  "value_to_double (VFloat f) = Some f"
| "value_to_double (VInt i) = Some (f64_of_int (sint i))"
| "value_to_double (VLong l) = Some (f64_of_int (sint l))"
| "value_to_double (VBool b) = Some (f64_of_int (sint b))"
| "value_to_double _ = None"

definition minmax :: "cdsl_env \<Rightarrow> bool \<Rightarrow> cdsl_value \<Rightarrow> cdsl_value \<Rightarrow> cdsl_value" where
  "minmax env want_max a b =
     (case (value_to_double a, value_to_double b) of
        (Some av, Some bv) \<Rightarrow>
          let r = (if want_max then (if f64_lt bv av then av else bv)
                   else (if f64_lt av bv then av else bv))
          in if vtype a = CDSL_TYPE_FLOAT \<or> vtype b = CDSL_TYPE_FLOAT then VFloat r
             else VInt (f64_to_i32 (env_ub env) r)
      | _ \<Rightarrow> VInt 0)"

definition builtin_minmax ::
  "cdsl_env \<Rightarrow> bool \<Rightarrow> evalfun \<Rightarrow> cdsl_expr list \<Rightarrow> cdsl_vm \<Rightarrow> cdsl_value \<times> cdsl_vm" where
  "builtin_minmax env want_max ev = with_arg2 ev (VInt 0) (\<lambda>a b vm. (minmax env want_max a b, vm))"

definition round_value :: "cdsl_env \<Rightarrow> f64 \<Rightarrow> i32" where
  "round_value env f =
     (if f64_isfinite f \<and> in_i32 (f64_round_away f) then word_of_int (f64_round_away f)
      else env_ub env f)"

definition builtin_round ::
  "cdsl_env \<Rightarrow> evalfun \<Rightarrow> cdsl_expr list \<Rightarrow> cdsl_vm \<Rightarrow> cdsl_value \<times> cdsl_vm" where
  "builtin_round env ev = with_arg1 ev (VInt 0)
     (\<lambda>v vm. (case v of VFloat f \<Rightarrow> VInt (round_value env f) | VInt i \<Rightarrow> VInt i | _ \<Rightarrow> VInt 0, vm))"

definition builtin_count :: "evalfun \<Rightarrow> cdsl_expr list \<Rightarrow> cdsl_vm \<Rightarrow> cdsl_value \<times> cdsl_vm" where
  "builtin_count ev = with_arg1 ev (VInt 0)
     (\<lambda>v vm. (case v of VArray (Some xs) \<Rightarrow> VInt (of_nat (length xs)) | _ \<Rightarrow> VInt 0, vm))"

fun sum_ints :: "i32 \<Rightarrow> cdsl_value list \<Rightarrow> i32" where
  "sum_ints acc [] = acc"
| "sum_ints acc (VInt i # vs) = sum_ints (acc + i) vs"
| "sum_ints acc (_ # vs) = sum_ints acc vs"

definition builtin_sum :: "evalfun \<Rightarrow> cdsl_expr list \<Rightarrow> cdsl_vm \<Rightarrow> cdsl_value \<times> cdsl_vm" where
  "builtin_sum ev = with_arg1 ev (VInt 0)
     (\<lambda>v vm. (case v of VArray (Some xs) \<Rightarrow> VInt (sum_ints 0 xs) | _ \<Rightarrow> VInt 0, vm))"

definition CDSL_DEFAULT_FLOAT_EPSILON :: f64 where
  "CDSL_DEFAULT_FLOAT_EPSILON = 0x3E112E0BE826D695"

definition approx_eq :: "f64 \<Rightarrow> f64 \<Rightarrow> f64 \<Rightarrow> bool" where
  "approx_eq eps a b =
     (if f64_eq a b then True
      else if f64_isnan a \<or> f64_isnan b then False
      else f64_le (f64_abs (f64_sub a b))
             (f64_fmax eps (f64_mul eps (f64_fmax (f64_abs a) (f64_abs b)))))"

definition builtin_approx_eq :: "evalfun \<Rightarrow> cdsl_expr list \<Rightarrow> cdsl_vm \<Rightarrow> cdsl_value \<times> cdsl_vm" where
  "builtin_approx_eq ev args vm =
     (if 3 < length args then (VBool 0, vm)
      else with_arg2 ev (VBool 0)
        (\<lambda>v1 v2 vm2.
           case (value_to_double v1, value_to_double v2) of
             (Some a, Some b) \<Rightarrow>
               if length args < 3
               then (VBool (c_bool (approx_eq CDSL_DEFAULT_FLOAT_EPSILON a b)), vm2)
               else (case ev (args ! 2) vm2 of (v3, vm3) \<Rightarrow>
                 (case value_to_double v3 of
                    None \<Rightarrow> (VBool 0, vm3)
                  | Some eps \<Rightarrow>
                      (VBool (if f64_lt eps (f64_zero False) then 0 else c_bool (approx_eq eps a b)), vm3)))
           | _ \<Rightarrow> (VBool 0, vm2)) args vm)"

subsection \<open>Dispatch\<close>

fun call_builtin ::
  "cdsl_env \<Rightarrow> builtin \<Rightarrow> evalfun \<Rightarrow> cdsl_expr list \<Rightarrow> cdsl_vm \<Rightarrow> cdsl_value \<times> cdsl_vm" where
  "call_builtin env B_strlen ev args vm = builtin_strlen ev args vm"
| "call_builtin env B_contains ev args vm = builtin_contains ev args vm"
| "call_builtin env B_is_before ev args vm = builtin_is_before env ev args vm"
| "call_builtin env B_is_after ev args vm = builtin_is_after env ev args vm"
| "call_builtin env B_now ev args vm = builtin_now env vm"
| "call_builtin env B_days_between ev args vm = builtin_days_between env ev args vm"
| "call_builtin env B_uppercase ev args vm = builtin_uppercase ev args vm"
| "call_builtin env B_lowercase ev args vm = builtin_lowercase ev args vm"
| "call_builtin env B_trim ev args vm = builtin_trim ev args vm"
| "call_builtin env B_startswith ev args vm = builtin_startswith ev args vm"
| "call_builtin env B_endswith ev args vm = builtin_endswith ev args vm"
| "call_builtin env B_abs ev args vm = builtin_abs ev args vm"
| "call_builtin env B_min ev args vm = builtin_minmax env False ev args vm"
| "call_builtin env B_max ev args vm = builtin_minmax env True ev args vm"
| "call_builtin env B_round ev args vm = builtin_round env ev args vm"
| "call_builtin env B_typeof ev args vm = builtin_typeof ev args vm"
| "call_builtin env B_count ev args vm = builtin_count ev args vm"
| "call_builtin env B_sum ev args vm = builtin_sum ev args vm"
| "call_builtin env B_date_add ev args vm = builtin_date_add env ev args vm"
| "call_builtin env B_approx_eq ev args vm = builtin_approx_eq ev args vm"

lemmas builtin_defs = builtin_strlen_def builtin_contains_def builtin_is_before_def
  builtin_is_after_def builtin_now_def builtin_days_between_def builtin_uppercase_def
  builtin_lowercase_def builtin_trim_def builtin_startswith_def builtin_endswith_def
  builtin_abs_def builtin_minmax_def builtin_round_def builtin_typeof_def builtin_count_def
  builtin_sum_def builtin_date_add_def

lemma approx_eq_cong:
  assumes "\<And>a v. a \<in> set args \<Longrightarrow> ev a v = ev' a v"
  shows "builtin_approx_eq ev args vm = builtin_approx_eq ev' args vm"
  using assms
  by (auto simp: builtin_approx_eq_def with_arg2_def split: list.split option.split prod.split)

lemma call_builtin_cong [fundef_cong]:
  assumes "env = env'" and "b = b'" and "args = args'" and "vm = vm'"
    and "\<And>a v. a \<in> set args' \<Longrightarrow> ev a v = ev' a v"
  shows "call_builtin env b ev args vm = call_builtin env' b' ev' args' vm'"
  unfolding assms(1-4) using assms(5)
  by (cases b') (auto simp: builtin_defs intro!: with_arg1_cong with_arg2_cong approx_eq_cong)

subsection \<open>Built-ins only evolve the VM\<close>

lemma evolves_alloc_string: "evolves vm (snd (alloc_string vm s))"
  unfolding alloc_string_def by (auto split: prod.splits) (metis evolves_calloc snd_conv)

lemma evolves_trim: "evolves vm (snd (trim_string s vm))"
  using evolves_strdup evolves_alloc_string
  by (auto simp: trim_string_def Let_def split: prod.splits) (metis snd_conv)

lemma evolves_map_string:
  "(\<And>s vm. evolves vm (snd (f s vm))) \<Longrightarrow> evolves vm (snd (map_string f v vm))"
  by (auto simp: map_string_def split: cdsl_value.splits option.splits)

lemma evolves_arg1:
  assumes "\<And>a v. a \<in> set args \<Longrightarrow> evolves v (snd (ev a v))" and "\<And>v vm. evolves vm (snd (f v vm))"
  shows "evolves vm (snd (with_arg1 ev d f args vm))"
  using assms by (auto simp: with_arg1_def split: list.split prod.split) (metis evolves_trans snd_conv)

lemma evolves_arg2:
  assumes "\<And>a v. a \<in> set args \<Longrightarrow> evolves v (snd (ev a v))" and "\<And>v w vm. evolves vm (snd (f v w vm))"
  shows "evolves vm (snd (with_arg2 ev d f args vm))"
proof (cases args)
  case (Cons a as)
  show ?thesis
  proof (cases as)
    case (Cons b bs)
    obtain v1 vm1 where 1: "ev a vm = (v1, vm1)" by force
    obtain v2 vm2 where 2: "ev b vm1 = (v2, vm2)" by force
    have "evolves vm vm1" "evolves vm1 vm2"
      using assms(1) [of a vm] assms(1) [of b vm1] \<open>args = _\<close> Cons 1 2 by simp_all
    with assms(2) [of vm2 v1 v2] show ?thesis
      unfolding \<open>args = _\<close> Cons with_arg2_def by (simp add: 1 2) (blast intro: evolves_trans)
  qed (simp add: Cons with_arg2_def)
qed (simp add: with_arg2_def)

lemma evolves_approx_eq:
  assumes "\<And>a v. a \<in> set args \<Longrightarrow> evolves v (snd (ev a v))"
  shows "evolves vm (snd (builtin_approx_eq ev args vm))"
proof -
  have 3: "ev (args ! 2) vm2 = (v, vm3) \<Longrightarrow> \<not> length args < 3 \<Longrightarrow> evolves vm2 vm3" for vm2 v vm3
    using assms [of "args ! 2" vm2] nth_mem [of 2 args] by simp
  show ?thesis
    unfolding builtin_approx_eq_def
    by (auto intro!: evolves_arg2 assms split: option.split prod.split)
      (erule 3, simp)+
qed

lemma evolves_builtin:
  assumes "\<And>a v. a \<in> set args \<Longrightarrow> evolves v (snd (ev a v))"
  shows "evolves vm (snd (call_builtin env b ev args vm))"
  by (cases b) (simp_all add: builtin_defs evolves_approx_eq [OF assms] evolves_trim evolves_alloc_string
      Let_def
      evolves_arg1 [OF assms] evolves_arg2 [OF assms] evolves_map_string)

end
