(* ===== verification/Cdsl_Eval.thy ===== *)
theory Cdsl_Eval
  imports Cdsl_Builtins
begin

section \<open>The expression evaluator (\<open>src/vm/eval.c\<close>)\<close>

text \<open>
  \<open>cdsl_eval_expr_internal\<close> walks the tree with a depth bound, an instruction quota and the
  VM's error state; AND and OR short-circuit on the raw \<open>bool_val\<close> of the union. The lemmas
  give its frame (what it never changes), that an error is never cleared, its quotas, and the
  short-circuit behaviour.
\<close>

subsection \<open>Auxiliary operations\<close>

text \<open>The low 32 bits of the union, read as \<open>data.bool_val\<close> whatever the type is.\<close>

fun raw_lo :: "cdsl_env \<Rightarrow> cdsl_value \<Rightarrow> i32" where
  "raw_lo env (VVoid r) = r"
| "raw_lo env (VInt i) = i"
| "raw_lo env (VBool b) = b"
| "raw_lo env (VFloat f) = ucast f"
| "raw_lo env (VDate d) = ucast d"
| "raw_lo env (VLong l) = ucast l"
| "raw_lo env (VString None) = 0"
| "raw_lo env (VString (Some s)) = env_addr env (VString (Some s))"
| "raw_lo env (VArray None) = 0"
| "raw_lo env (VArray (Some vs)) = env_addr env (VArray (Some vs))"

text \<open>The instruction quota: count the node, stop when the count passes the limit.\<close>

definition vm_tick :: "cdsl_vm \<Rightarrow> bool \<times> cdsl_vm" where
  "vm_tick vm =
     (if 0 < vm_instruction_limit vm then
        let vm1 = vm\<lparr>vm_instruction_count := vm_instruction_count vm + 1\<rparr> in
        if vm_instruction_limit vm < vm_instruction_count vm1
        then (False, vm_raise vm1 CDSL_ERR_RUNTIME (0, 0) ''Instruction quota exceeded'' None)
        else (True, vm1)
      else (True, vm))"

definition finish_op :: "loc \<Rightarrow> valop \<Rightarrow> cdsl_vm \<Rightarrow> cdsl_value \<times> cdsl_vm" where
  "finish_op l r vm =
     (case r of (st, v) \<Rightarrow>
        if st \<noteq> CDSL_VALOP_OK \<and> st \<noteq> CDSL_VALOP_VOID_OPERAND
        then (void0, vm_raise vm CDSL_ERR_RUNTIME l (cdsl_valop_status_message st)
                       (cdsl_valop_status_hint st))
        else (v, vm))"

definition eval_id :: "cdsl_context \<Rightarrow> string \<Rightarrow> cdsl_vm \<Rightarrow> cdsl_value \<times> cdsl_vm" where
  "eval_id ctx x vm =
     (case cdsl_context_get_entry_internal ctx x of
        None \<Rightarrow> (void0, vm)
      | Some e \<Rightarrow>
          (case ce_value e of
             VString (Some s) \<Rightarrow>
               (case cdsl_vm_strdup vm (Some s) of
                  (Some s', vm1) \<Rightarrow> (VString (Some s'), vm1)
                | (None, vm1) \<Rightarrow>
                    (void0, (if vm_last_error vm1 = None
                             then cdsl_vm_set_last_error vm1 CDSL_ERR_RESOURCE_LIMIT (0, 0)
                                    ''Out of memory duplicating string variable'' None
                             else vm1)\<lparr>vm_error_state := True\<rparr>))
           | v \<Rightarrow> (v, vm)))"

text \<open>The two allocations of an array literal: \<open>sizeof(cdsl_array_t)\<close> and the items.\<close>

definition alloc_array :: "cdsl_vm \<Rightarrow> nat \<Rightarrow> bool \<times> cdsl_vm" where
  "alloc_array vm n =
     (case cdsl_vm_calloc vm 1 16 of
        (False, vm1) \<Rightarrow> (False, vm1)
      | (True, vm1) \<Rightarrow> cdsl_vm_calloc vm1 (if 0 < n then int n else 1) 24)"

subsection \<open>The evaluator\<close>

lemma size_list_member: "e \<in> set es \<Longrightarrow> size e \<le> size_list size es"
  by (induction es) auto

text \<open>
  \<open>cdsl_eval_expr_internal\<close> is the guard of the C function, \<open>eval_node\<close> its \<open>switch\<close> and
  \<open>eval_items\<close> the loop of an array literal.
\<close>

function (sequential) cdsl_eval_expr_internal ::
    "cdsl_env \<Rightarrow> cdsl_context \<Rightarrow> cdsl_expr \<Rightarrow> int \<Rightarrow> cdsl_vm \<Rightarrow> cdsl_value \<times> cdsl_vm"
  and eval_node ::
    "cdsl_env \<Rightarrow> cdsl_context \<Rightarrow> cdsl_expr \<Rightarrow> int \<Rightarrow> cdsl_vm \<Rightarrow> cdsl_value \<times> cdsl_vm"
  and eval_items ::
    "cdsl_env \<Rightarrow> cdsl_context \<Rightarrow> cdsl_expr list \<Rightarrow> int \<Rightarrow> cdsl_vm \<Rightarrow> cdsl_value list \<times> cdsl_vm"
where
  "cdsl_eval_expr_internal env ctx e depth vm0 =
     (if vm_max_expr_depth vm0 \<le> depth then (void0, vm0)
      else case vm_tick vm0 of (ok, vm) \<Rightarrow>
        if ok then eval_node env ctx e depth vm else (void0, vm))"
| "eval_node env ctx (CDSL_EXPR_INT l i) depth vm = (VInt i, vm)"
| "eval_node env ctx (CDSL_EXPR_FLOAT l f) depth vm = (VFloat f, vm)"
| "eval_node env ctx (CDSL_EXPR_BOOL l b) depth vm = (VBool b, vm)"
| "eval_node env ctx (CDSL_EXPR_STRING l s) depth vm = (VString (Some s), vm)"
| "eval_node env ctx (CDSL_EXPR_DATE l d) depth vm = (VDate d, vm)"
| "eval_node env ctx (CDSL_EXPR_LONG l n) depth vm = (VLong n, vm)"
| "eval_node env ctx (CDSL_EXPR_ARRAY l es) depth vm =
     (case alloc_array vm (length es) of (ok, vm1) \<Rightarrow>
        if ok then
          (case eval_items env ctx es (depth + 1) vm1 of (vs, vm2) \<Rightarrow> (VArray (Some vs), vm2))
        else (VArray None, vm1))"
| "eval_node env ctx (CDSL_EXPR_ID l x) depth vm = eval_id ctx x vm"
| "eval_node env ctx (CDSL_EXPR_UNARY l op e) depth vm =
     (case cdsl_eval_expr_internal env ctx e (depth + 1) vm of (v, vm1) \<Rightarrow>
        if vm_error_state vm1 then (void0, vm1)
        else finish_op l (cdsl_value_unop op v) vm1)"
| "eval_node env ctx (CDSL_EXPR_BINARY l op a b) depth vm =
     (case cdsl_eval_expr_internal env ctx a (depth + 1) vm of (x, vm1) \<Rightarrow>
        if vm_error_state vm1 then (void0, vm1)
        else if op = CDSL_OP_AND \<and> \<not> c_true (raw_lo env x) then (VBool 0, vm1)
        else if op = CDSL_OP_OR \<and> c_true (raw_lo env x) then (VBool 1, vm1)
        else (case cdsl_eval_expr_internal env ctx b (depth + 1) vm1 of (y, vm2) \<Rightarrow>
          if vm_error_state vm2 then (void0, vm2)
          else if op = CDSL_OP_AND \<or> op = CDSL_OP_OR then (VBool (raw_lo env y), vm2)
          else finish_op l (cdsl_value_binop op x y) vm2))"
| "eval_node env ctx (CDSL_EXPR_CALL l f args) depth vm =
     (case assoc_first (vm_functions vm) f of
        None \<Rightarrow> (void0, vm)
      | Some (Builtin b) \<Rightarrow>
          call_builtin env b (\<lambda>e v. cdsl_eval_expr_internal env ctx e 0 v) args vm
      | Some (Custom n) \<Rightarrow> env_custom env n f args ctx vm)"
| "eval_node env ctx (CDSL_EXPR_ERROR l) depth vm = (void0, vm)"
| "eval_items env ctx [] depth vm = ([], vm)"
| "eval_items env ctx (e # es) depth vm =
     (case cdsl_eval_expr_internal env ctx e depth vm of (v, vm1) \<Rightarrow>
      case eval_items env ctx es depth vm1 of (vs, vm2) \<Rightarrow> (v # vs, vm2))"
  by pat_completeness auto

termination
  by (relation "measure (case_sum (\<lambda>(env, ctx, e, d, vm). 2 * size e + 1)
        (case_sum (\<lambda>(env, ctx, e, d, vm). 2 * size e)
                  (\<lambda>(env, ctx, es, d, vm). 2 * size_list size es)))")
    (auto simp: less_Suc_eq_le dest: size_list_member)

declare cdsl_eval_expr_internal.simps [simp del]

lemma eval_unfold:
  "cdsl_eval_expr_internal env ctx e depth vm =
     (if vm_max_expr_depth vm \<le> depth then (void0, vm)
      else if fst (vm_tick vm) then eval_node env ctx e depth (snd (vm_tick vm))
      else (void0, snd (vm_tick vm)))"
  by (subst cdsl_eval_expr_internal.simps) (simp split: prod.split)

subsection \<open>The evaluator only evolves the VM\<close>

lemma evolves_tick: "evolves vm (snd (vm_tick vm))"
  by (simp add: evolves_defs vm_tick_def vm_raise_def cdsl_vm_set_last_error_def Let_def)

lemma evolves_alloc_array: "evolves vm (snd (alloc_array vm n))"
  unfolding alloc_array_def
  by (auto split: prod.splits bool.splits)
   (metis evolves_calloc snd_conv evolves_trans)+

lemma evolves_finish: "evolves vm (snd (finish_op l r vm))"
  by (auto simp: finish_op_def split: prod.splits)

lemma evolves_id: "evolves vm (snd (eval_id ctx x vm))"
  using evolves_strdup
  by (auto simp: eval_id_def evolves_error evolves_set_error split: option.splits cdsl_value.splits prod.splits)
   (metis snd_conv evolves_error evolves_set_error)+

lemma evolves_items:
  assumes "\<And>e v. e \<in> set es \<Longrightarrow> evolves v (snd (cdsl_eval_expr_internal env ctx e depth v))"
  shows "evolves vm (snd (eval_items env ctx es depth vm))"
  using assms
proof (induction es arbitrary: vm)
  case (Cons e es)
  obtain v vm1 where 1: "cdsl_eval_expr_internal env ctx e depth vm = (v, vm1)" by force
  with Cons.prems [of e vm] have "evolves vm vm1" by simp
  also have "evolves vm1 (snd (eval_items env ctx es depth vm1))" using Cons by simp
  finally show ?case by (cases "eval_items env ctx es depth vm1") (simp add: 1)
qed simp

lemma evolves_guard:
  assumes "\<And>vm. evolves vm (snd (eval_node env ctx e depth vm))"
  shows "evolves vm (snd (cdsl_eval_expr_internal env ctx e depth vm))"
  using evolves_trans [OF evolves_tick assms] evolves_tick [of vm]
  by (simp add: eval_unfold)

lemma eval_evolves:
  assumes "env_ok env"
  shows "evolves vm (snd (cdsl_eval_expr_internal env ctx e depth vm))"
proof (induction e arbitrary: depth vm)
  case (CDSL_EXPR_ARRAY l es)
  show ?case
  proof (rule evolves_guard)
    fix vm
    obtain ok vm1 where 1: "alloc_array vm (length es) = (ok, vm1)" by force
    then have "evolves vm vm1" using evolves_alloc_array [of vm "length es"] by simp
    moreover have "evolves vm1 (snd (eval_items env ctx es (depth + 1) vm1))"
      by (rule evolves_items) (rule CDSL_EXPR_ARRAY)
    ultimately show "evolves vm (snd (eval_node env ctx (CDSL_EXPR_ARRAY l es) depth vm))"
      by (auto simp: 1 split: prod.split) (metis evolves_trans snd_conv)
  qed
next
  case (CDSL_EXPR_UNARY l op e)
  show ?case
  proof (rule evolves_guard)
    fix vm
    obtain v vm1 where 1: "cdsl_eval_expr_internal env ctx e (depth + 1) vm = (v, vm1)" by force
    with CDSL_EXPR_UNARY [of vm "depth + 1"] have "evolves vm vm1" by simp
    then show "evolves vm (snd (eval_node env ctx (CDSL_EXPR_UNARY l op e) depth vm))"
      using evolves_trans [OF _ evolves_finish] by (simp add: 1)
  qed
next
  case (CDSL_EXPR_BINARY l op a b)
  show ?case
  proof (rule evolves_guard)
    fix vm
    obtain x vm1 where 1: "cdsl_eval_expr_internal env ctx a (depth + 1) vm = (x, vm1)" by force
    obtain y vm2 where 2: "cdsl_eval_expr_internal env ctx b (depth + 1) vm1 = (y, vm2)" by force
    from 1 CDSL_EXPR_BINARY(1) [of vm "depth + 1"] have e1: "evolves vm vm1" by simp
    also from 2 CDSL_EXPR_BINARY(2) [of vm1 "depth + 1"] have "evolves vm1 vm2" by simp
    finally have "evolves vm vm2" .
    then show "evolves vm (snd (eval_node env ctx (CDSL_EXPR_BINARY l op a b) depth vm))"
      using evolves_trans [OF _ evolves_finish] e1 by (simp add: 1 2)
  qed
next
  case (CDSL_EXPR_CALL l f args)
  show ?case
    using assms evolves_builtin [of args "\<lambda>e v. cdsl_eval_expr_internal env ctx e 0 v", OF CDSL_EXPR_CALL]
    by (intro evolves_guard) (auto simp: env_ok_def split: option.split func_cb.split)
qed (auto intro: evolves_guard simp: evolves_id)

text \<open>
  Claim C9. Evaluating any expression, whatever it does, leaves the VM's configuration, its
  statistics and the log of triggered actions alone, never clears an error, and keeps the
  instruction and memory counters within their quotas unless it stops with an error.
\<close>

theorem eval_sandboxed:
  assumes "env_ok env"
  shows "let vm' = snd (cdsl_eval_expr_internal env ctx e depth vm) in
    same_config vm vm' \<and> vm_stats vm' = vm_stats vm \<and> vm_action_log vm' = vm_action_log vm
    \<and> (vm_error_state vm \<longrightarrow> vm_error_state vm') \<and> (sandbox_ok vm \<longrightarrow> sandbox_ok vm')"
  using eval_evolves [OF assms] by (simp add: Let_def evolves_def)

lemma eval_sandboxed_witness:
  "sandbox_ok (snd (cdsl_eval_expr_internal env_plain (cdsl_context_create None)
     (CDSL_EXPR_ARRAY (0, 0) [CDSL_EXPR_INT (0, 0) 1]) 0
     (cdsl_vm_set_memory_limit cdsl_vm_create 8)))"
  using eval_sandboxed [of env_plain "cdsl_context_create None"
      "CDSL_EXPR_ARRAY (0, 0) [CDSL_EXPR_INT (0, 0) 1]" 0
      "cdsl_vm_set_memory_limit cdsl_vm_create 8"] env_ok_plain
  by (simp add: Let_def sandbox_ok_def cdsl_vm_set_memory_limit_def vm_create_fields)

end
