(* ===== verification/Cdsl_Report.thy ===== *)
theory Cdsl_Report
  imports Cdsl_Eval
begin

section \<open>Executing rules and reporting (\<open>src/vm/eval.c\<close>, \<open>include/cdsl/report.h\<close>)\<close>

text \<open>
  The tree-walking execution of metric rules (weights, branches, critical metrics,
  thresholds) and of simple WHEN/THEN rules, and \<open>cdsl_vm_execute\<close> around them. Scores are
  32-bit; where C leaves a signed overflow of the totals undefined the model wraps. Report
  allocation is taken to succeed.
\<close>

subsection \<open>Reports\<close>

datatype cdsl_rule_status =
    CDSL_STATUS_PASSED | CDSL_STATUS_PARTIALLY_PASSED | CDSL_STATUS_FAILED | CDSL_STATUS_ERROR

record cdsl_metric_result =
  mr_metric_name :: "string option"
  mr_description :: "string option"
  mr_max_weight :: i32
  mr_score_obtained :: i32
  mr_is_critical :: i32
  mr_is_passed :: i32
  mr_violation_reason :: "string option"

record cdsl_rule_report =
  rr_rule_name :: "string option"
  rr_description :: "string option"
  rr_metrics :: "cdsl_metric_result list"
  rr_total_max_score :: i32
  rr_total_obtained_score :: i32
  rr_status :: cdsl_rule_status
  rr_decision_summary :: "string option"
  rr_error :: "cdsl_error option"

fun cdsl_status_str_internal :: "cdsl_rule_status \<Rightarrow> string" where
  "cdsl_status_str_internal CDSL_STATUS_PASSED = ''PASSED''"
| "cdsl_status_str_internal CDSL_STATUS_PARTIALLY_PASSED = ''PARTIALLY PASSED''"
| "cdsl_status_str_internal CDSL_STATUS_FAILED = ''FAILED''"
| "cdsl_status_str_internal CDSL_STATUS_ERROR = ''ERROR''"

definition metric_zero :: cdsl_metric_result where
  "metric_zero = \<lparr>mr_metric_name = None, mr_description = None, mr_max_weight = 0,
     mr_score_obtained = 0, mr_is_critical = 0, mr_is_passed = 0, mr_violation_reason = None\<rparr>"

subsection \<open>Metadata\<close>

definition cdsl_safe_atoi :: "string option \<Rightarrow> i32 \<Rightarrow> i32" where
  "cdsl_safe_atoi str def =
     (case str of None \<Rightarrow> def
      | Some s \<Rightarrow>
        (case c_strtol s of None \<Rightarrow> def
         | Some r \<Rightarrow> if stl_range_error r \<or> stl_end r \<noteq> [] then def
                    else word_of_int (stl_value r)))"

definition cdsl_meta_get_int :: "cdsl_meta \<Rightarrow> string \<Rightarrow> i32 \<Rightarrow> i32" where
  "cdsl_meta_get_int ms key def = cdsl_safe_atoi (cdsl_meta_get ms key) def"

definition cdsl_meta_get_bool :: "cdsl_meta \<Rightarrow> string \<Rightarrow> i32 \<Rightarrow> i32" where
  "cdsl_meta_get_bool ms key def =
     (case cdsl_meta_get ms key of None \<Rightarrow> def
      | Some v \<Rightarrow> if v = ''true'' then 1 else if v = ''false'' then 0 else def)"

definition meta_description :: "cdsl_meta \<Rightarrow> string" where
  "meta_description ms = (case cdsl_meta_get ms ''description'' of None \<Rightarrow> '''' | Some d \<Rightarrow> d)"

subsection \<open>One metric\<close>

definition eval_opt ::
  "cdsl_env \<Rightarrow> cdsl_context \<Rightarrow> cdsl_expr option \<Rightarrow> cdsl_vm \<Rightarrow> cdsl_value \<times> cdsl_vm" where
  "eval_opt env ctx e vm =
     (case e of None \<Rightarrow> (void0, vm) | Some x \<Rightarrow> cdsl_eval_expr_internal env ctx x 0 vm)"

fun int_or_zero :: "cdsl_value \<Rightarrow> i32" where
  "int_or_zero (VInt i) = i"
| "int_or_zero _ = 0"

definition set_passed :: "cdsl_metric_result \<Rightarrow> cdsl_metric_result" where
  "set_passed mr = mr\<lparr>mr_is_passed := c_bool (0 < sint (mr_score_obtained mr))\<rparr>"

text \<open>The reason of a \<open>fail_metric(name, reason)\<close> action, kept when it is a string.\<close>

definition eval_reason ::
  "cdsl_env \<Rightarrow> cdsl_context \<Rightarrow> cdsl_expr list \<Rightarrow> cdsl_metric_result \<Rightarrow> cdsl_vm
   \<Rightarrow> cdsl_metric_result \<times> cdsl_vm" where
  "eval_reason env ctx args mr vm =
     (case args of
        _ # r # _ \<Rightarrow>
          (case cdsl_eval_expr_internal env ctx r 0 vm of (rv, vm1) \<Rightarrow>
             (case rv of
                VString (Some s) \<Rightarrow>
                  (if vm_error_state vm1 then mr else mr\<lparr>mr_violation_reason := Some s\<rparr>, vm1)
              | _ \<Rightarrow> (mr, vm1)))
      | _ \<Rightarrow> (mr, vm))"

text \<open>What the matched CASE does, after its action was triggered.\<close>

definition apply_case_action ::
  "cdsl_env \<Rightarrow> cdsl_context \<Rightarrow> cdsl_action option \<Rightarrow> cdsl_metric_result \<Rightarrow> cdsl_vm
   \<Rightarrow> cdsl_metric_result \<times> cdsl_vm" where
  "apply_case_action env ctx act mr vm =
     (case act of
        None \<Rightarrow> (set_passed (mr\<lparr>mr_score_obtained := mr_max_weight mr\<rparr>), vm)
      | Some a \<Rightarrow>
          if act_name a = ''score'' \<and> act_args a \<noteq> [] then
            (case cdsl_eval_expr_internal env ctx (hd (act_args a)) 0 vm of (sv, vm1) \<Rightarrow>
               let mr1 = mr\<lparr>mr_score_obtained := int_or_zero sv\<rparr> in
               (if vm_error_state vm1 then mr1 else set_passed mr1, vm1))
          else if act_name a = ''fail_metric'' then
            (case eval_reason env ctx (act_args a) (mr\<lparr>mr_score_obtained := 0\<rparr>) vm of
               (mr1, vm1) \<Rightarrow> (set_passed mr1, vm1))
          else (set_passed (mr\<lparr>mr_score_obtained := mr_max_weight mr\<rparr>), vm))"

text \<open>The branches in order: the first whose condition is a true BOOL decides.\<close>

fun eval_cases ::
  "cdsl_env \<Rightarrow> cdsl_context \<Rightarrow> cdsl_case list \<Rightarrow> cdsl_metric_result \<Rightarrow> cdsl_vm
   \<Rightarrow> bool \<times> cdsl_metric_result \<times> cdsl_vm" where
  "eval_cases env ctx [] mr vm = (False, mr, vm)"
| "eval_cases env ctx (c # cs) mr vm =
     (case eval_opt env ctx (case_condition c) vm of (cond, vm1) \<Rightarrow>
        if vm_error_state vm1 then (False, mr, vm1)
        else (case cond of
          VBool b \<Rightarrow>
            if c_true b then
              (True, apply_case_action env ctx (case_action c) mr
                       (cdsl_trigger_action_internal vm1 (case_action c)))
            else eval_cases env ctx cs mr vm1
        | _ \<Rightarrow> eval_cases env ctx cs mr vm1))"

definition apply_default ::
  "cdsl_env \<Rightarrow> cdsl_context \<Rightarrow> cdsl_action option \<Rightarrow> cdsl_metric_result \<Rightarrow> cdsl_vm
   \<Rightarrow> cdsl_metric_result \<times> cdsl_vm" where
  "apply_default env ctx act mr vm0 =
     (let vm = cdsl_trigger_action_internal vm0 act in
      case (case act of
              None \<Rightarrow> (mr\<lparr>mr_score_obtained := 0\<rparr>, vm)
            | Some a \<Rightarrow>
                if \<not> vm_error_state vm \<and> act_name a = ''score'' \<and> act_args a \<noteq> [] then
                  (case cdsl_eval_expr_internal env ctx (hd (act_args a)) 0 vm of (sv, vm1) \<Rightarrow>
                     (mr\<lparr>mr_score_obtained := int_or_zero sv\<rparr>, vm1))
                else if \<not> vm_error_state vm \<and> act_name a = ''fail_metric'' then
                  eval_reason env ctx (act_args a) (mr\<lparr>mr_score_obtained := 0\<rparr>) vm
                else (mr\<lparr>mr_score_obtained := 0\<rparr>, vm)) of
        (mr1, vm1) \<Rightarrow>
          let mr2 = set_passed mr1 in
          (if mr_violation_reason mr2 = None \<and> mr_is_passed mr2 = 0
           then mr2\<lparr>mr_violation_reason := Some ''default_condition_triggered''\<rparr> else mr2, vm1))"

definition metric_init :: "cdsl_metric \<Rightarrow> cdsl_metric_result" where
  "metric_init m = metric_zero\<lparr>mr_metric_name := Some (met_name m),
     mr_description := Some (meta_description (met_meta m)),
     mr_max_weight := cdsl_meta_get_int (met_meta m) ''weight'' 0,
     mr_is_critical := cdsl_meta_get_bool (met_meta m) ''is_critical'' 0\<rparr>"

text \<open>One metric; the flag tells whether the loop goes on.\<close>

definition eval_metric ::
  "cdsl_env \<Rightarrow> cdsl_context \<Rightarrow> cdsl_metric \<Rightarrow> cdsl_vm \<Rightarrow> bool \<times> cdsl_metric_result \<times> cdsl_vm" where
  "eval_metric env ctx m vm =
     (case eval_cases env ctx (met_cases m) (metric_init m) vm of (matched, mr, vm1) \<Rightarrow>
        if vm_error_state vm1 then (False, mr, vm1)
        else if matched then (True, mr, vm1)
        else (True, apply_default env ctx (met_default m) mr vm1))"

subsection \<open>Metric rules\<close>

record metric_totals =
  mt_results :: "cdsl_metric_result list"
  mt_max :: i32
  mt_obtained :: i32
  mt_critical_failed :: bool

fun eval_metrics ::
  "cdsl_env \<Rightarrow> cdsl_context \<Rightarrow> cdsl_metric list \<Rightarrow> metric_totals \<Rightarrow> cdsl_vm
   \<Rightarrow> metric_totals \<times> cdsl_vm" where
  "eval_metrics env ctx [] t vm = (t, vm)"
| "eval_metrics env ctx (m # ms) t vm =
     (if vm_error_state vm
      then (t\<lparr>mt_results := mt_results t @ replicate (length (m # ms)) metric_zero\<rparr>, vm)
      else case eval_metric env ctx m vm of (go, mr, vm1) \<Rightarrow>
        let t1 = t\<lparr>mt_results := mt_results t @ [mr], mt_max := mt_max t + mr_max_weight mr\<rparr> in
        if \<not> go
        then (t1\<lparr>mt_results := mt_results t1 @ replicate (length ms) metric_zero\<rparr>, vm1)
        else eval_metrics env ctx ms
          (t1\<lparr>mt_obtained := mt_obtained t + mr_score_obtained mr,
              mt_critical_failed := mt_critical_failed t
                \<or> (c_true (mr_is_critical mr) \<and> \<not> c_true (mr_is_passed mr))\<rparr>) vm1)"

definition decide_status :: "bool \<Rightarrow> i32 \<Rightarrow> i32 \<Rightarrow> i32 \<Rightarrow> cdsl_rule_status" where
  "decide_status any_critical_failed total_obtained pass_thresh partial_thresh =
     (if any_critical_failed then CDSL_STATUS_FAILED
      else if sint pass_thresh \<le> sint total_obtained then CDSL_STATUS_PASSED
      else if sint partial_thresh \<le> sint total_obtained then CDSL_STATUS_PARTIALLY_PASSED
      else CDSL_STATUS_FAILED)"

definition score_text :: "i32 \<Rightarrow> i32 \<Rightarrow> string" where
  "score_text obtained tot =
     '' (score: '' @ dec_of_int (sint obtained) @ ''/'' @ dec_of_int (sint tot)"

fun metric_summary :: "cdsl_rule_status \<Rightarrow> i32 \<Rightarrow> i32 \<Rightarrow> string" where
  "metric_summary CDSL_STATUS_PASSED ob tot = ''PASSED'' @ score_text ob tot @ '')''"
| "metric_summary CDSL_STATUS_PARTIALLY_PASSED ob tot =
     ''PARTIALLY PASSED'' @ score_text ob tot @ '', needs improvement)''"
| "metric_summary CDSL_STATUS_FAILED ob tot =
     ''FAILED'' @ score_text ob tot @ '', critical items or threshold not met)''"
| "metric_summary CDSL_STATUS_ERROR ob tot = ''ERROR''"

definition totals_zero :: metric_totals where
  "totals_zero = \<lparr>mt_results = [], mt_max = 0, mt_obtained = 0, mt_critical_failed = False\<rparr>"

definition execute_metric_rule ::
  "cdsl_env \<Rightarrow> cdsl_vm \<Rightarrow> cdsl_rule \<Rightarrow> cdsl_context \<Rightarrow> cdsl_rule_report \<times> cdsl_vm" where
  "execute_metric_rule env vm rule ctx =
     (case eval_metrics env ctx (rule_metrics rule) totals_zero vm of (t, vm1) \<Rightarrow>
        let st = decide_status (mt_critical_failed t) (mt_obtained t)
                   (cdsl_meta_get_int (rule_meta rule) ''pass_threshold'' 80)
                   (cdsl_meta_get_int (rule_meta rule) ''partial_threshold'' 60)
        in (\<lparr>rr_rule_name = Some (rule_name rule),
             rr_description = Some (meta_description (rule_meta rule)),
             rr_metrics = mt_results t, rr_total_max_score = mt_max t,
             rr_total_obtained_score = mt_obtained t, rr_status = st,
             rr_decision_summary = Some (metric_summary st (mt_obtained t) (mt_max t)),
             rr_error = None\<rparr>, vm1))"

subsection \<open>Simple rules\<close>

definition simple_report ::
  "cdsl_rule \<Rightarrow> i32 \<Rightarrow> i32 \<Rightarrow> cdsl_rule_status \<Rightarrow> string \<Rightarrow> cdsl_rule_report" where
  "simple_report rule obtained weight st summary =
     (let mr = metric_zero\<lparr>mr_metric_name := Some (rule_name rule),
                mr_description := Some (meta_description (rule_meta rule)),
                mr_max_weight := weight, mr_score_obtained := obtained,
                mr_is_passed := c_bool (0 < sint obtained)\<rparr>
      in \<lparr>rr_rule_name = Some (rule_name rule),
          rr_description = Some (meta_description (rule_meta rule)),
          rr_metrics = [mr], rr_total_max_score = weight, rr_total_obtained_score = obtained,
          rr_status = st, rr_decision_summary = Some summary, rr_error = None\<rparr>)"

text \<open>\<open>cdsl_vm_execute\<close> always passes no bytecode, so the condition is walked as a tree.\<close>

definition execute_simple_rule ::
  "cdsl_env \<Rightarrow> cdsl_vm \<Rightarrow> cdsl_rule \<Rightarrow> cdsl_context \<Rightarrow> cdsl_rule_report \<times> cdsl_vm" where
  "execute_simple_rule env vm rule ctx =
     (if vm_error_state vm then (simple_report rule 0 0 CDSL_STATUS_ERROR ''ERROR'', vm)
      else case eval_opt env ctx (rule_when rule) vm of (cond, vm1) \<Rightarrow>
        if vm_error_state vm1 then (simple_report rule 0 0 CDSL_STATUS_ERROR ''ERROR'', vm1)
        else
          let vm2 = fire_trace env vm1 CDSL_TRACE_EXPR (rule_name rule) ''WHEN'' cond;
              triggered = (case cond of VBool b \<Rightarrow> c_true b | _ \<Rightarrow> False) in
          if triggered then
            let vm3 = cdsl_trigger_action_internal vm2 (rule_then rule);
                vm4 = fire_trace env vm3 CDSL_TRACE_ACTION (rule_name rule)
                        (case rule_then rule of None \<Rightarrow> ''?'' | Some a \<Rightarrow> act_name a) void0;
                vm5 = fire_trace env vm4 CDSL_TRACE_RULE (rule_name rule) ''FAILED'' void0
            in (simple_report rule 0 100 CDSL_STATUS_FAILED ''FAILED (score: 0/100)'', vm5)
          else
            let vm3 = fire_trace env vm2 CDSL_TRACE_RULE (rule_name rule) ''PASSED'' void0
            in (simple_report rule 100 100 CDSL_STATUS_PASSED ''PASSED (score: 100/100)'', vm3))"

subsection \<open>Executing a rule\<close>

text \<open>On an abort the report becomes an error report and takes the VM's last error with it.\<close>

definition finish_report :: "cdsl_rule_report \<Rightarrow> cdsl_vm \<Rightarrow> cdsl_rule_report \<times> cdsl_vm" where
  "finish_report rpt vm =
     (if vm_error_state vm then
        (case vm_last_error vm of
           Some e \<Rightarrow> (rpt\<lparr>rr_status := CDSL_STATUS_ERROR, rr_error := Some e\<rparr>,
                      vm\<lparr>vm_last_error := None\<rparr>)
         | None \<Rightarrow> (rpt\<lparr>rr_status := CDSL_STATUS_ERROR,
                        rr_error := Some (cdsl_error_create CDSL_ERR_RESOURCE_LIMIT 0 0
                          (Some ''Execution failed due to resource limits'') None)\<rparr>, vm))
      else (rpt, vm))"

definition add_stats :: "cdsl_env \<Rightarrow> f64 \<Rightarrow> cdsl_rule_report \<Rightarrow> cdsl_vm \<Rightarrow> cdsl_vm" where
  "add_stats env t0 rpt vm =
     (case cdsl_get_time_us_internal env vm of (t1, vm1) \<Rightarrow>
        let s = vm_stats vm1 in
        vm1\<lparr>vm_stats := s\<lparr>st_total_executions := st_total_executions s + 1,
              st_total_rules_executed := st_total_rules_executed s + 1,
              st_total_time_us := f64_add (st_total_time_us s) (f64_sub t1 t0),
              st_total_metrics_evaluated := st_total_metrics_evaluated s + int (length (rr_metrics rpt))\<rparr>\<rparr>)"

definition cdsl_vm_execute ::
  "cdsl_env \<Rightarrow> cdsl_vm \<Rightarrow> cdsl_rule \<Rightarrow> cdsl_context \<Rightarrow> cdsl_rule_report \<times> cdsl_vm" where
  "cdsl_vm_execute env vm rule ctx =
     (case cdsl_get_time_us_internal env vm of (t0, vm0) \<Rightarrow>
      let vm1 = cdsl_vm_begin_execution vm0 in
      case (if rule_metrics rule \<noteq> [] then execute_metric_rule env vm1 rule ctx
            else execute_simple_rule env vm1 rule ctx) of (rpt, vm2) \<Rightarrow>
      case finish_report rpt vm2 of (rpt', vm3) \<Rightarrow> (rpt', add_stats env t0 rpt' vm3))"

subsection \<open>Printing\<close>

definition print_metric :: "cdsl_metric_result \<Rightarrow> string" where
  "print_metric m =
     ''  ['' @ (if c_true (mr_is_passed m) then ''PASS'' else ''FAIL'') @ ''] ''
     @ (case mr_metric_name m of None \<Rightarrow> ''(null)'' | Some n \<Rightarrow> n)
     @ '' (weight: '' @ dec_of_int (sint (mr_max_weight m))
     @ '', score: '' @ dec_of_int (sint (mr_score_obtained m)) @ ''/''
     @ dec_of_int (sint (mr_max_weight m)) @ '')''
     @ (if c_true (mr_is_critical m) then '' *'' else '''') @ [CHR 0x0A]
     @ (case mr_violation_reason m of None \<Rightarrow> ''''
        | Some r \<Rightarrow> ''         Reason: '' @ r @ [CHR 0x0A])"

end
