(* ===== verification/Cdsl_Bytecode.thy ===== *)
theory Cdsl_Bytecode
  imports Cdsl_Report
begin

section \<open>The bytecode compiler (\<open>src/vm/bytecode.c\<close>, first half)\<close>

text \<open>
  Instructions with their operands, the chunk the compiler appends to, constant folding, and
  the compilation of expressions, actions and rules. A forward jump is emitted with the
  placeholder offset \<open>- 1\<close> and patched once its target is known. Growth of the code and
  constant arrays is taken to succeed.
\<close>

subsection \<open>Instructions and chunks\<close>

datatype bc_inst =
    BC_PUSH_INT i32 | BC_PUSH_FLOAT f64 | BC_PUSH_BOOL i32 | BC_PUSH_STRING nat
  | BC_PUSH_DATE i64 | BC_PUSH_LONG i64 | BC_PUSH_ARRAY nat | BC_PUSH_VAR nat
  | BC_POP | BC_ADD | BC_SUB | BC_MUL | BC_DIV | BC_EQ | BC_NE | BC_LT | BC_GT | BC_LE | BC_GE
  | BC_NOT | BC_NEG | BC_CALL nat | BC_DUP
  | BC_JMP_IF_FALSE int | BC_JMP_IF_TRUE int | BC_JMP int
  | BC_METRIC_START nat | BC_SET_SCORE | BC_FAIL_METRIC nat | BC_RULE_END | BC_RET | BC_ACTION nat

definition CDSL_BYTECODE_MAX_STACK :: nat where
  "CDSL_BYTECODE_MAX_STACK = 256"

fun cdsl_op_to_bc :: "cdsl_op \<Rightarrow> bc_inst option" where
  "cdsl_op_to_bc CDSL_OP_ADD = Some BC_ADD"
| "cdsl_op_to_bc CDSL_OP_SUB = Some BC_SUB"
| "cdsl_op_to_bc CDSL_OP_MUL = Some BC_MUL"
| "cdsl_op_to_bc CDSL_OP_DIV = Some BC_DIV"
| "cdsl_op_to_bc CDSL_OP_EQ = Some BC_EQ"
| "cdsl_op_to_bc CDSL_OP_NE = Some BC_NE"
| "cdsl_op_to_bc CDSL_OP_LT = Some BC_LT"
| "cdsl_op_to_bc CDSL_OP_GT = Some BC_GT"
| "cdsl_op_to_bc CDSL_OP_LE = Some BC_LE"
| "cdsl_op_to_bc CDSL_OP_GE = Some BC_GE"
| "cdsl_op_to_bc CDSL_OP_NOT = Some BC_NOT"
| "cdsl_op_to_bc CDSL_OP_NEG = Some BC_NEG"
| "cdsl_op_to_bc _ = None"

fun cdsl_bc_to_op :: "bc_inst \<Rightarrow> cdsl_op option" where
  "cdsl_bc_to_op BC_ADD = Some CDSL_OP_ADD"
| "cdsl_bc_to_op BC_SUB = Some CDSL_OP_SUB"
| "cdsl_bc_to_op BC_MUL = Some CDSL_OP_MUL"
| "cdsl_bc_to_op BC_DIV = Some CDSL_OP_DIV"
| "cdsl_bc_to_op BC_EQ = Some CDSL_OP_EQ"
| "cdsl_bc_to_op BC_NE = Some CDSL_OP_NE"
| "cdsl_bc_to_op BC_LT = Some CDSL_OP_LT"
| "cdsl_bc_to_op BC_GT = Some CDSL_OP_GT"
| "cdsl_bc_to_op BC_LE = Some CDSL_OP_LE"
| "cdsl_bc_to_op BC_GE = Some CDSL_OP_GE"
| "cdsl_bc_to_op BC_NOT = Some CDSL_OP_NOT"
| "cdsl_bc_to_op BC_NEG = Some CDSL_OP_NEG"
| "cdsl_bc_to_op _ = None"

record bc_metric_info =
  mi_name :: string
  mi_description :: string
  mi_max_weight :: i32
  mi_is_critical :: i32

record cdsl_bytecode =
  bc_code :: "bc_inst list"
  bc_max_stack :: nat
  bc_constants :: "cdsl_value list"
  bc_rule_name :: string
  bc_description :: string
  bc_pass_threshold :: i32
  bc_partial_threshold :: i32
  bc_is_metric_rule :: bool
  bc_metric_infos :: "bc_metric_info list"

definition bc_zero :: cdsl_bytecode where
  "bc_zero = \<lparr>bc_code = [], bc_max_stack = 0, bc_constants = [], bc_rule_name = '''',
     bc_description = '''', bc_pass_threshold = 0, bc_partial_threshold = 0,
     bc_is_metric_rule = False, bc_metric_infos = []\<rparr>"

subsection \<open>Emitting\<close>

fun find_string :: "cdsl_value list \<Rightarrow> string option \<Rightarrow> nat option" where
  "find_string [] s = None"
| "find_string (v # vs) s =
     (if v = VString s then Some 0 else map_option Suc (find_string vs s))"

text \<open>Strings are shared: an equal constant is reused.\<close>

definition bc_add_constant :: "cdsl_bytecode \<Rightarrow> cdsl_value \<Rightarrow> nat \<times> cdsl_bytecode" where
  "bc_add_constant bc val =
     (case (case val of VString s \<Rightarrow> find_string (bc_constants bc) s | _ \<Rightarrow> None) of
        Some i \<Rightarrow> (i, bc)
      | None \<Rightarrow> (length (bc_constants bc), bc\<lparr>bc_constants := bc_constants bc @ [val]\<rparr>))"

definition bc_emit :: "cdsl_bytecode \<Rightarrow> bc_inst \<Rightarrow> cdsl_bytecode" where
  "bc_emit bc i = bc\<lparr>bc_code := bc_code bc @ [i]\<rparr>"

definition bc_emit_int :: "cdsl_bytecode \<Rightarrow> i32 \<Rightarrow> cdsl_bytecode" where
  "bc_emit_int bc v = bc_emit bc (BC_PUSH_INT v)"

definition bc_emit_long :: "cdsl_bytecode \<Rightarrow> i64 \<Rightarrow> cdsl_bytecode" where
  "bc_emit_long bc v = bc_emit bc (BC_PUSH_LONG v)"

definition bc_emit_float :: "cdsl_bytecode \<Rightarrow> f64 \<Rightarrow> cdsl_bytecode" where
  "bc_emit_float bc v = bc_emit bc (BC_PUSH_FLOAT v)"

definition bc_emit_bool :: "cdsl_bytecode \<Rightarrow> i32 \<Rightarrow> cdsl_bytecode" where
  "bc_emit_bool bc v = bc_emit bc (BC_PUSH_BOOL v)"

definition bc_emit_date :: "cdsl_bytecode \<Rightarrow> i64 \<Rightarrow> cdsl_bytecode" where
  "bc_emit_date bc v = bc_emit bc (BC_PUSH_DATE v)"

definition bc_emit_string :: "cdsl_bytecode \<Rightarrow> string option \<Rightarrow> cdsl_bytecode" where
  "bc_emit_string bc s =
     (case bc_add_constant bc (VString s) of (i, bc1) \<Rightarrow> bc_emit bc1 (BC_PUSH_STRING i))"

definition bc_emit_var :: "cdsl_bytecode \<Rightarrow> string \<Rightarrow> cdsl_bytecode" where
  "bc_emit_var bc x =
     (case bc_add_constant bc (VString (Some x)) of (i, bc1) \<Rightarrow> bc_emit bc1 (BC_PUSH_VAR i))"

definition bc_emit_call :: "cdsl_bytecode \<Rightarrow> string \<Rightarrow> nat \<Rightarrow> cdsl_bytecode" where
  "bc_emit_call bc f n =
     (case bc_add_constant (bc_emit_int bc (of_nat n)) (VString (Some f)) of
        (i, bc1) \<Rightarrow> bc_emit bc1 (BC_CALL i))"

definition bc_emit_metric_start :: "cdsl_bytecode \<Rightarrow> string \<Rightarrow> cdsl_bytecode" where
  "bc_emit_metric_start bc name =
     (case bc_add_constant bc (VString (Some name)) of (i, bc1) \<Rightarrow> bc_emit bc1 (BC_METRIC_START i))"

definition bc_emit_fail_metric :: "cdsl_bytecode \<Rightarrow> string \<Rightarrow> cdsl_bytecode" where
  "bc_emit_fail_metric bc reason =
     (case bc_add_constant bc (VString (Some reason)) of (i, bc1) \<Rightarrow> bc_emit bc1 (BC_FAIL_METRIC i))"

definition bc_emit_jmp_placeholder :: "cdsl_bytecode \<Rightarrow> nat \<times> cdsl_bytecode" where
  "bc_emit_jmp_placeholder bc = (length (bc_code bc), bc_emit bc (BC_JMP_IF_FALSE (- 1)))"

definition bc_emit_jmp_true_placeholder :: "cdsl_bytecode \<Rightarrow> nat \<times> cdsl_bytecode" where
  "bc_emit_jmp_true_placeholder bc = (length (bc_code bc), bc_emit bc (BC_JMP_IF_TRUE (- 1)))"

definition bc_emit_jmp_uncond_placeholder :: "cdsl_bytecode \<Rightarrow> nat \<times> cdsl_bytecode" where
  "bc_emit_jmp_uncond_placeholder bc = (length (bc_code bc), bc_emit bc (BC_JMP (- 1)))"

fun set_offset :: "bc_inst \<Rightarrow> int \<Rightarrow> bc_inst" where
  "set_offset (BC_JMP_IF_FALSE _) off = BC_JMP_IF_FALSE off"
| "set_offset (BC_JMP_IF_TRUE _) off = BC_JMP_IF_TRUE off"
| "set_offset (BC_JMP _) off = BC_JMP off"
| "set_offset i off = i"

definition bc_patch_jmp :: "cdsl_bytecode \<Rightarrow> nat \<Rightarrow> nat \<Rightarrow> cdsl_bytecode" where
  "bc_patch_jmp bc idx target =
     (if idx < length (bc_code bc)
      then bc\<lparr>bc_code := (bc_code bc)[idx := set_offset (bc_code bc ! idx) (int target - int idx)]\<rparr>
      else bc)"

subsection \<open>Constant folding\<close>

fun is_const_expr :: "cdsl_expr \<Rightarrow> bool" where
  "is_const_expr (CDSL_EXPR_INT _ _) = True"
| "is_const_expr (CDSL_EXPR_FLOAT _ _) = True"
| "is_const_expr (CDSL_EXPR_BOOL _ _) = True"
| "is_const_expr (CDSL_EXPR_STRING _ _) = True"
| "is_const_expr (CDSL_EXPR_DATE _ _) = True"
| "is_const_expr (CDSL_EXPR_LONG _ _) = True"
| "is_const_expr (CDSL_EXPR_UNARY _ op e) = is_const_expr e"
| "is_const_expr (CDSL_EXPR_BINARY _ op a b) =
     (if cdsl_op_is_logical_binary op then False else is_const_expr a \<and> is_const_expr b)"
| "is_const_expr _ = False"

definition ok_value :: "valop \<Rightarrow> cdsl_value option" where
  "ok_value r = (case r of (st, v) \<Rightarrow> if st = CDSL_VALOP_OK then Some v else None)"

fun fold_const_expr :: "cdsl_expr \<Rightarrow> cdsl_value option" where
  "fold_const_expr (CDSL_EXPR_INT _ i) = Some (VInt i)"
| "fold_const_expr (CDSL_EXPR_FLOAT _ f) = Some (VFloat f)"
| "fold_const_expr (CDSL_EXPR_BOOL _ b) = Some (VBool b)"
| "fold_const_expr (CDSL_EXPR_STRING _ s) = Some (VString (Some s))"
| "fold_const_expr (CDSL_EXPR_DATE _ d) = Some (VDate d)"
| "fold_const_expr (CDSL_EXPR_LONG _ l) = Some (VLong l)"
| "fold_const_expr (CDSL_EXPR_UNARY _ op e) =
     (case fold_const_expr e of None \<Rightarrow> None | Some v \<Rightarrow> ok_value (cdsl_value_unop op v))"
| "fold_const_expr (CDSL_EXPR_BINARY _ op a b) =
     (case fold_const_expr a of None \<Rightarrow> None
      | Some l \<Rightarrow> (case fold_const_expr b of None \<Rightarrow> None
         | Some r \<Rightarrow> if op = CDSL_OP_AND \<or> op = CDSL_OP_OR then None
                    else ok_value (cdsl_value_binop op l r)))"
| "fold_const_expr _ = None"

definition emit_folded :: "cdsl_bytecode \<Rightarrow> cdsl_value \<Rightarrow> cdsl_bytecode" where
  "emit_folded bc v =
     (case v of
        VInt i \<Rightarrow> bc_emit_int bc i
      | VFloat f \<Rightarrow> bc_emit_float bc f
      | VBool b \<Rightarrow> bc_emit_bool bc b
      | VString s \<Rightarrow> bc_emit_string bc s
      | VDate d \<Rightarrow> bc_emit_date bc d
      | VLong l \<Rightarrow> bc_emit_long bc l
      | _ \<Rightarrow> bc)"

subsection \<open>Expressions\<close>

definition raise_max :: "cdsl_bytecode \<Rightarrow> nat \<Rightarrow> cdsl_bytecode" where
  "raise_max bc n = bc\<lparr>bc_max_stack := max n (bc_max_stack bc)\<rparr>"

definition emit_op :: "cdsl_bytecode \<Rightarrow> cdsl_op \<Rightarrow> cdsl_bytecode" where
  "emit_op bc op = (case cdsl_op_to_bc op of None \<Rightarrow> bc | Some i \<Rightarrow> bc_emit bc i)"

text \<open>
  \<open>compile_expr\<close> returns whether it succeeded, the stack it reports and the extended chunk;
  code emitted before a failure stays in the chunk. \<open>compile_node\<close> is its \<open>switch\<close>,
  \<open>compile_args\<close> the argument loop of arrays and calls, which ignores failures.
\<close>

function (sequential) compile_expr ::
    "cdsl_expr \<Rightarrow> cdsl_bytecode \<Rightarrow> bool \<times> nat \<times> cdsl_bytecode"
  and compile_node :: "cdsl_expr \<Rightarrow> cdsl_bytecode \<Rightarrow> bool \<times> nat \<times> cdsl_bytecode"
  and compile_args :: "cdsl_expr list \<Rightarrow> nat \<Rightarrow> cdsl_bytecode \<Rightarrow> nat \<times> cdsl_bytecode"
where
  "compile_expr e bc =
     (case (if is_const_expr e then fold_const_expr e else None) of
        Some v \<Rightarrow> (True, 1, raise_max (emit_folded bc v) 1)
      | None \<Rightarrow>
          (case compile_node e bc of (ok, n, bc1) \<Rightarrow>
             if ok then (True, n, raise_max bc1 n) else (False, 0, bc1)))"
| "compile_node (CDSL_EXPR_INT _ i) bc = (True, 1, bc_emit_int bc i)"
| "compile_node (CDSL_EXPR_FLOAT _ f) bc = (True, 1, bc_emit_float bc f)"
| "compile_node (CDSL_EXPR_BOOL _ b) bc = (True, 1, bc_emit_bool bc b)"
| "compile_node (CDSL_EXPR_STRING _ s) bc = (True, 1, bc_emit_string bc (Some s))"
| "compile_node (CDSL_EXPR_DATE _ d) bc = (True, 1, bc_emit_date bc d)"
| "compile_node (CDSL_EXPR_LONG _ l) bc = (True, 1, bc_emit_long bc l)"
| "compile_node (CDSL_EXPR_ARRAY _ es) bc =
     (case compile_args es 0 bc of (arg_stack, bc1) \<Rightarrow>
        (True, arg_stack + 1, bc_emit bc1 (BC_PUSH_ARRAY (length es))))"
| "compile_node (CDSL_EXPR_ID _ x) bc = (True, 1, bc_emit_var bc x)"
| "compile_node (CDSL_EXPR_UNARY _ op e) bc =
     (case compile_expr e bc of (ok, sub, bc1) \<Rightarrow>
        if \<not> ok then (False, 0, bc1) else (True, sub, emit_op bc1 op))"
| "compile_node (CDSL_EXPR_BINARY _ op a b) bc =
     (case compile_expr a bc of (ok, l_stack, bc1) \<Rightarrow>
        if \<not> ok then (False, 0, bc1)
        else if op = CDSL_OP_AND \<or> op = CDSL_OP_OR then
          (case (if op = CDSL_OP_AND then bc_emit_jmp_placeholder bc1
                 else bc_emit_jmp_true_placeholder bc1) of (jmp_idx, bc2) \<Rightarrow>
             (case compile_expr b (bc_emit bc2 BC_POP) of (ok2, r_stack, bc3) \<Rightarrow>
                if \<not> ok2 then (False, 0, bc3)
                else (True, max l_stack (r_stack + 1),
                      bc_patch_jmp bc3 jmp_idx (length (bc_code bc3)))))
        else
          (case compile_expr b bc1 of (ok2, r_stack, bc2) \<Rightarrow>
             if \<not> ok2 then (False, 0, bc2)
             else (True, max l_stack (r_stack + 1), emit_op bc2 op)))"
| "compile_node (CDSL_EXPR_CALL _ f args) bc =
     (case compile_args args 0 bc of (arg_stack, bc1) \<Rightarrow>
        (True, max arg_stack (length args + 1), bc_emit_call bc1 f (length args)))"
| "compile_node (CDSL_EXPR_ERROR _) bc = (False, 0, bc)"
| "compile_args [] arg_stack bc = (arg_stack, bc)"
| "compile_args (e # es) arg_stack bc =
     (case compile_expr e bc of (ok, sub, bc1) \<Rightarrow> compile_args es (max sub arg_stack) bc1)"
  by pat_completeness auto

termination
  by (relation "measure (case_sum (\<lambda>(e, bc). 2 * size e + 1)
        (case_sum (\<lambda>(e, bc). 2 * size e) (\<lambda>(es, n, bc). 2 * size_list size es)))")
    (auto simp: less_Suc_eq_le)

declare compile_expr.simps [simp del]

subsection \<open>Actions\<close>

text \<open>The argument loop of an action stops at the first failure.\<close>

fun compile_action_args ::
  "cdsl_expr list \<Rightarrow> nat \<Rightarrow> nat \<Rightarrow> cdsl_bytecode \<Rightarrow> bool \<times> nat \<times> nat \<times> cdsl_bytecode" where
  "compile_action_args [] arg_count arg_stack bc = (True, arg_count, arg_stack, bc)"
| "compile_action_args (e # es) arg_count arg_stack bc =
     (case compile_expr e bc of (ok, sub, bc1) \<Rightarrow>
        if \<not> ok then (False, arg_count, arg_stack, bc1)
        else compile_action_args es (arg_count + 1) (max (sub + arg_count) arg_stack) bc1)"

definition compile_action_call ::
  "cdsl_action option \<Rightarrow> nat \<Rightarrow> cdsl_bytecode \<Rightarrow> bool \<times> nat \<times> cdsl_bytecode" where
  "compile_action_call action stack_used bc =
     (case action of None \<Rightarrow> (True, stack_used, bc)
      | Some a \<Rightarrow>
        (case compile_action_args (act_args a) 0 0 bc of (ok, n, arg_stack, bc1) \<Rightarrow>
           if \<not> ok then (False, stack_used, bc1)
           else
             (case bc_add_constant (bc_emit_int bc1 (of_nat n)) (VString (Some (act_name a))) of
                (i, bc2) \<Rightarrow>
                  (True, max (max (n + 1) arg_stack) stack_used, bc_emit bc2 (BC_ACTION i)))))"

subsection \<open>Rules\<close>

text \<open>
  The scoring code after an action: \<open>score(e)\<close> evaluates \<open>e\<close>, \<open>fail_metric\<close> sets 0 and a
  literal reason, and anything else scores \<open>other\<close> (the weight for a CASE, 0 for DEFAULT).
\<close>

definition compile_score ::
  "i32 \<Rightarrow> cdsl_action \<Rightarrow> nat \<Rightarrow> cdsl_bytecode \<Rightarrow> nat \<times> cdsl_bytecode" where
  "compile_score other a stack_used bc =
     (if act_name a = ''score'' \<and> act_args a \<noteq> [] then
        (case compile_expr (hd (act_args a)) bc of (ok, asub, bc1) \<Rightarrow>
           (max asub stack_used, bc_emit bc1 BC_SET_SCORE))
      else if act_name a = ''fail_metric'' then
        (let bc1 = bc_emit (bc_emit_int bc 0) BC_SET_SCORE in
         (stack_used, case act_args a of
            _ # CDSL_EXPR_STRING _ r # _ \<Rightarrow> bc_emit_fail_metric bc1 r
          | _ \<Rightarrow> bc1))
      else (stack_used, bc_emit (bc_emit_int bc other) BC_SET_SCORE))"

definition compile_action_and_score ::
  "i32 \<Rightarrow> cdsl_action option \<Rightarrow> nat \<Rightarrow> cdsl_bytecode \<Rightarrow> nat \<times> cdsl_bytecode" where
  "compile_action_and_score other action stack_used bc =
     (case action of None \<Rightarrow> (stack_used, bc)
      | Some a \<Rightarrow>
        (case compile_action_call (Some a) stack_used bc of (ok, su, bc1) \<Rightarrow>
           compile_score other a su bc1))"

text \<open>A branch; the second result is the list of jumps to the end of the metric.\<close>

fun compile_cases ::
  "i32 \<Rightarrow> cdsl_case list \<Rightarrow> nat list \<Rightarrow> nat \<Rightarrow> cdsl_bytecode \<Rightarrow> nat list \<times> nat \<times> cdsl_bytecode"
where
  "compile_cases w [] jmps su bc = (jmps, su, bc)"
| "compile_cases w (c # cs) jmps su bc =
     (case case_condition c of
        None \<Rightarrow> compile_cases w cs jmps su bc
      | Some e \<Rightarrow>
        (case compile_expr e bc of (ok, sub, bc1) \<Rightarrow>
         case bc_emit_jmp_placeholder bc1 of (next_jmp, bc2) \<Rightarrow>
         case compile_action_and_score w (case_action c) (max sub su) (bc_emit bc2 BC_POP) of (su3, bc3) \<Rightarrow>
         case bc_emit_jmp_uncond_placeholder bc3 of (end_jmp, bc4) \<Rightarrow>
           compile_cases w cs (jmps @ [end_jmp]) su3
             (bc_emit (bc_patch_jmp bc4 next_jmp (length (bc_code bc4))) BC_POP)))"

definition patch_all :: "nat list \<Rightarrow> cdsl_bytecode \<Rightarrow> cdsl_bytecode" where
  "patch_all jmps bc = fold (\<lambda>j b. bc_patch_jmp b j (length (bc_code b))) jmps bc"

definition compile_metric :: "cdsl_metric \<Rightarrow> nat \<Rightarrow> cdsl_bytecode \<Rightarrow> nat \<times> cdsl_bytecode" where
  "compile_metric m su bc =
     (let w = cdsl_meta_get_int (met_meta m) ''weight'' 0;
          info = \<lparr>mi_name = met_name m, mi_description = meta_description (met_meta m),
                  mi_max_weight = w,
                  mi_is_critical = cdsl_meta_get_bool (met_meta m) ''is_critical'' 0\<rparr>;
          bc1 = bc_emit_metric_start (bc\<lparr>bc_metric_infos := bc_metric_infos bc @ [info]\<rparr>) (met_name m)
      in case compile_cases w (met_cases m) [] su bc1 of (jmps, su2, bc2) \<Rightarrow>
         case compile_action_and_score 0 (met_default m) su2 bc2 of (su3, bc3) \<Rightarrow>
           (su3, patch_all jmps bc3))"

fun compile_metrics :: "cdsl_metric list \<Rightarrow> nat \<Rightarrow> cdsl_bytecode \<Rightarrow> nat \<times> cdsl_bytecode" where
  "compile_metrics [] su bc = (su, bc)"
| "compile_metrics (m # ms) su bc =
     (case compile_metric m su bc of (su1, bc1) \<Rightarrow> compile_metrics ms su1 bc1)"

definition compile_when :: "cdsl_expr \<Rightarrow> cdsl_action option \<Rightarrow> cdsl_bytecode \<Rightarrow> nat \<times> cdsl_bytecode" where
  "compile_when e action bc =
     (case compile_expr e bc of (ok, sub, bc1) \<Rightarrow>
        case action of
          None \<Rightarrow> (sub, bc_emit bc1 BC_RET)
        | Some a \<Rightarrow>
          (case bc_emit_jmp_placeholder bc1 of (false_jmp, bc2) \<Rightarrow>
           case compile_action_call (Some a) sub bc2 of (ok2, su, bc3) \<Rightarrow>
             let bc4 = bc_emit_bool bc3 1 in
             (su, bc_emit (bc_patch_jmp bc4 false_jmp (length (bc_code bc4))) BC_RET)))"

definition cdsl_bytecode_compile :: "cdsl_rule \<Rightarrow> bool \<times> cdsl_bytecode" where
  "cdsl_bytecode_compile rule =
     (let bc0 = bc_zero\<lparr>bc_rule_name := rule_name rule,
                  bc_description := meta_description (rule_meta rule),
                  bc_pass_threshold := cdsl_meta_get_int (rule_meta rule) ''pass_threshold'' 80,
                  bc_partial_threshold := cdsl_meta_get_int (rule_meta rule) ''partial_threshold'' 60,
                  bc_is_metric_rule := (rule_metrics rule \<noteq> [])\<rparr>;
          (compiled, su, bc1) =
            (if rule_metrics rule \<noteq> [] then
               (case compile_metrics (rule_metrics rule) 0 bc0 of (su, b) \<Rightarrow>
                  (True, su, bc_emit b BC_RULE_END))
             else case rule_when rule of
               Some e \<Rightarrow> (case compile_when e (rule_then rule) bc0 of (su, b) \<Rightarrow> (True, su, b))
             | None \<Rightarrow> (False, 0, bc0));
          bc2 = raise_max bc1 su
      in if CDSL_BYTECODE_MAX_STACK < bc_max_stack bc2 then (False, bc_zero) else (compiled, bc2))"

subsection \<open>Opcodes\<close>

text \<open>
  The two opcode maps are inverse to each other: every operator but AND and OR
  has an opcode, which maps back to it, and an opcode that stands for an operator is the
  opcode of that operator.
\<close>

lemma opcode_roundtrip:
  "(cdsl_op_to_bc op = None) = cdsl_op_is_logical_binary op
   \<and> (cdsl_op_to_bc op = Some i) = (cdsl_bc_to_op i = Some op)"
  by (cases op; cases i) simp_all

end
