(* ===== verification/Cdsl_Bytecode_Run.thy ===== *)
theory Cdsl_Bytecode_Run
  imports Cdsl_Bytecode
begin

section \<open>The bytecode machine (\<open>src/vm/bytecode.c\<close>, second half)\<close>

text \<open>
  \<open>bc_step\<close> is one turn of the instruction loop on an explicit machine state: the value
  stack (top first), the instruction pointer, the \<open>result\<close> variable, the loop counter, the VM
  and the metric results of the rule executor. \<open>bc_run\<close> iterates it with fuel, since nothing
  in the loop itself bounds a backward jump; the compiler only emits forward jumps, and the
  theory of the compiler shows that then a fuel of one more than the code length is enough.
\<close>

subsection \<open>Machine state\<close>

record bc_state =
  bs_stack :: "cdsl_value list"
  bs_ip :: int
  bs_result :: cdsl_value
  bs_loop :: nat
  bs_vm :: cdsl_vm
  bs_metrics :: "cdsl_metric_result list"

datatype bc_outcome = Next bc_state | Done bc_state

text \<open>Setting only the type of \<open>result\<close> to VOID keeps the bits of its union.\<close>

definition stale_void :: "cdsl_env \<Rightarrow> cdsl_value \<Rightarrow> cdsl_value" where
  "stale_void env v = VVoid (raw_lo env v)"

definition raise_if_clear ::
  "cdsl_vm \<Rightarrow> cdsl_error_kind \<Rightarrow> string \<Rightarrow> string option \<Rightarrow> cdsl_vm" where
  "raise_if_clear vm kind msg hint =
     (if vm_error_state vm then vm else vm_raise vm kind (0, 0) msg hint)"

definition bc_stack_underflow :: "cdsl_vm \<Rightarrow> cdsl_vm" where
  "bc_stack_underflow vm = raise_if_clear vm CDSL_ERR_RUNTIME ''Bytecode stack underflow'' None"

subsection \<open>Stack operations\<close>

definition pop :: "bc_state \<Rightarrow> cdsl_value \<times> bc_state" where
  "pop s = (case bs_stack s of
      [] \<Rightarrow> (void0, s\<lparr>bs_vm := bc_stack_underflow (bs_vm s)\<rparr>)
    | v # vs \<Rightarrow> (v, s\<lparr>bs_stack := vs\<rparr>))"

definition peek :: "bc_state \<Rightarrow> cdsl_value \<times> bc_state" where
  "peek s = (case bs_stack s of
      [] \<Rightarrow> (void0, s\<lparr>bs_vm := bc_stack_underflow (bs_vm s)\<rparr>)
    | v # vs \<Rightarrow> (v, s))"

text \<open>\<open>push_next\<close> is \<open>PUSH\<close> followed by \<open>ip++\<close>; a full stack ends the run.\<close>

definition push_next :: "cdsl_env \<Rightarrow> cdsl_value \<Rightarrow> bc_state \<Rightarrow> bc_outcome" where
  "push_next env v s =
     (if CDSL_BYTECODE_MAX_STACK \<le> length (bs_stack s)
      then Done (s\<lparr>bs_vm := raise_if_clear (bs_vm s) CDSL_ERR_RUNTIME ''Bytecode stack overflow'' None,
                   bs_result := stale_void env (bs_result s)\<rparr>)
      else Next (s\<lparr>bs_stack := v # bs_stack s, bs_ip := bs_ip s + 1\<rparr>))"

definition push_result :: "cdsl_env \<Rightarrow> cdsl_value \<Rightarrow> bc_state \<Rightarrow> bc_outcome" where
  "push_result env v s = push_next env v (s\<lparr>bs_result := v\<rparr>)"

text \<open>Popping \<open>n\<close> values into slots \<open>n - 1\<close> down to 0: the last popped comes first.\<close>

fun pop_n :: "nat \<Rightarrow> bc_state \<Rightarrow> cdsl_value list \<Rightarrow> cdsl_value list \<times> bc_state" where
  "pop_n 0 s acc = (acc, s)"
| "pop_n (Suc n) s acc = (case pop s of (v, s1) \<Rightarrow> pop_n n s1 (v # acc))"

subsection \<open>Constants and temporary expressions\<close>

definition const_string :: "cdsl_bytecode \<Rightarrow> nat \<Rightarrow> string option" where
  "const_string bc i =
     (if i < length (bc_constants bc)
      then (case bc_constants bc ! i of VString s \<Rightarrow> s | _ \<Rightarrow> None) else None)"

fun val_to_temp_expr :: "cdsl_value \<Rightarrow> cdsl_expr" where
  "val_to_temp_expr (VInt i) = CDSL_EXPR_INT (0, 0) i"
| "val_to_temp_expr (VFloat f) = CDSL_EXPR_FLOAT (0, 0) f"
| "val_to_temp_expr (VBool b) = CDSL_EXPR_BOOL (0, 0) b"
| "val_to_temp_expr (VDate d) = CDSL_EXPR_DATE (0, 0) d"
| "val_to_temp_expr (VLong l) = CDSL_EXPR_LONG (0, 0) l"
| "val_to_temp_expr (VString s) = CDSL_EXPR_STRING (0, 0) (str_or_empty s)"
| "val_to_temp_expr (VArray None) = CDSL_EXPR_ARRAY (0, 0) []"
| "val_to_temp_expr (VArray (Some vs)) = CDSL_EXPR_ARRAY (0, 0) (map val_to_temp_expr vs)"
| "val_to_temp_expr (VVoid _) = CDSL_EXPR_INT (0, 0) 0"

subsection \<open>The metric handler\<close>

definition update_last ::
  "(cdsl_metric_result \<Rightarrow> cdsl_metric_result) \<Rightarrow> cdsl_metric_result list \<Rightarrow> cdsl_metric_result list" where
  "update_last f ms = (if ms = [] then [] else butlast ms @ [f (last ms)])"

definition handle_metric_start :: "cdsl_bytecode \<Rightarrow> nat \<Rightarrow> cdsl_metric_result list \<Rightarrow> cdsl_metric_result list" where
  "handle_metric_start bc i ms =
     (let idx = length ms;
          mr0 = metric_zero\<lparr>mr_metric_name := const_string bc i\<rparr>;
          mr = (if idx < length (bc_metric_infos bc)
                then let mi = bc_metric_infos bc ! idx in
                  mr0\<lparr>mr_description := Some (mi_description mi), mr_max_weight := mi_max_weight mi,
                      mr_is_critical := mi_is_critical mi\<rparr>
                else mr0\<lparr>mr_description := Some '''', mr_max_weight := 100, mr_is_critical := 0\<rparr>)
      in ms @ [mr])"

definition handle_set_score :: "cdsl_value \<Rightarrow> cdsl_metric_result list \<Rightarrow> cdsl_metric_result list" where
  "handle_set_score v = update_last (\<lambda>mr. set_passed (mr\<lparr>mr_score_obtained := int_or_zero v\<rparr>))"

definition handle_fail_metric :: "cdsl_bytecode \<Rightarrow> nat \<Rightarrow> cdsl_metric_result list \<Rightarrow> cdsl_metric_result list" where
  "handle_fail_metric bc i = update_last (\<lambda>mr. mr\<lparr>mr_violation_reason := const_string bc i,
     mr_score_obtained := 0, mr_is_passed := 0\<rparr>)"

subsection \<open>The instructions\<close>

definition bc_binary :: "cdsl_env \<Rightarrow> cdsl_op \<Rightarrow> bc_state \<Rightarrow> bc_outcome" where
  "bc_binary env op s =
     (case pop s of (b, s1) \<Rightarrow> case pop s1 of (a, s2) \<Rightarrow>
        if vm_error_state (bs_vm s2)
        then Done (s2\<lparr>bs_result := stale_void env (bs_result s2)\<rparr>)
        else (case cdsl_value_binop op a b of (st, v) \<Rightarrow>
          if st \<noteq> CDSL_VALOP_OK \<and> st \<noteq> CDSL_VALOP_VOID_OPERAND
          then Done (s2\<lparr>bs_vm := raise_if_clear (bs_vm s2) CDSL_ERR_RUNTIME
                            (cdsl_valop_status_message st) (cdsl_valop_status_hint st),
                        bs_result := stale_void env v\<rparr>)
          else push_result env v s2))"

definition bc_unary :: "cdsl_env \<Rightarrow> cdsl_op \<Rightarrow> bc_state \<Rightarrow> bc_outcome" where
  "bc_unary env op s =
     (case pop s of (a, s1) \<Rightarrow>
        if vm_error_state (bs_vm s1)
        then Done (s1\<lparr>bs_result := stale_void env (bs_result s1)\<rparr>)
        else (case cdsl_value_unop op a of (st, v) \<Rightarrow>
          if st \<noteq> CDSL_VALOP_OK \<and> st \<noteq> CDSL_VALOP_VOID_OPERAND
          then Done (s1\<lparr>bs_vm := raise_if_clear (bs_vm s1) CDSL_ERR_RUNTIME
                            (cdsl_valop_status_message st) (cdsl_valop_status_hint st),
                        bs_result := stale_void env v\<rparr>)
          else push_result env v s1))"

definition bc_push_var :: "cdsl_env \<Rightarrow> cdsl_context \<Rightarrow> string option \<Rightarrow> bc_state \<Rightarrow> bc_outcome" where
  "bc_push_var env ctx x s =
     (case (case x of None \<Rightarrow> None | Some n \<Rightarrow> cdsl_context_get_entry_internal ctx n) of
        None \<Rightarrow> push_result env void0 s
      | Some e \<Rightarrow>
          (case ce_value e of
             VString (Some str) \<Rightarrow>
               (case cdsl_vm_strdup (bs_vm s) (Some str) of
                  (Some str', vm1) \<Rightarrow> push_next env (VString (Some str')) (s\<lparr>bs_vm := vm1\<rparr>)
                | (None, vm1) \<Rightarrow>
                    Done (s\<lparr>bs_vm := (if vm_last_error vm1 = None
                             then cdsl_vm_set_last_error vm1 CDSL_ERR_RESOURCE_LIMIT (0, 0)
                                    ''Out of memory duplicating string variable in bytecode'' None
                             else vm1)\<lparr>vm_error_state := True\<rparr>\<rparr>))
           | v \<Rightarrow> push_next env v s))"

definition bc_push_array :: "cdsl_env \<Rightarrow> nat \<Rightarrow> bc_state \<Rightarrow> bc_outcome" where
  "bc_push_array env n s =
     (case alloc_array (bs_vm s) n of (ok, vm1) \<Rightarrow>
      case pop_n n (s\<lparr>bs_vm := vm1\<rparr>) [] of (vs, s1) \<Rightarrow>
        if ok then push_result env (VArray (Some vs)) s1
        else Done (s1\<lparr>bs_vm := raise_if_clear (bs_vm s1) CDSL_ERR_RUNTIME
                         ''Out of memory allocating array'' None,
                     bs_result := stale_void env (bs_result s1)\<rparr>))"

text \<open>The arguments of a call or an action: their number is on top of the stack.\<close>

definition pop_args :: "cdsl_env \<Rightarrow> bc_state \<Rightarrow> cdsl_expr list \<times> bc_state" where
  "pop_args env s =
     (case pop s of (nv, s1) \<Rightarrow>
      case pop_n (nat (sint (raw_lo env nv))) s1 [] of (vs, s2) \<Rightarrow> (map val_to_temp_expr vs, s2))"

definition bc_call :: "cdsl_env \<Rightarrow> cdsl_context \<Rightarrow> string option \<Rightarrow> bc_state \<Rightarrow> bc_outcome" where
  "bc_call env ctx fn s =
     (case pop_args env s of (args, s1) \<Rightarrow>
      case fn of None \<Rightarrow> push_result env (stale_void env (bs_result s1)) s1
      | Some f \<Rightarrow>
        (case assoc_first (vm_functions (bs_vm s1)) f of
           None \<Rightarrow> push_result env (stale_void env (bs_result s1)) s1
         | Some (Builtin b) \<Rightarrow>
             (case call_builtin env b (\<lambda>e v. cdsl_eval_expr_internal env ctx e 0 v) args (bs_vm s1) of
                (r, vm1) \<Rightarrow> push_result env r (s1\<lparr>bs_vm := vm1\<rparr>))
         | Some (Custom n) \<Rightarrow>
             (case env_custom env n f args ctx (bs_vm s1) of
                (r, vm1) \<Rightarrow> push_result env r (s1\<lparr>bs_vm := vm1\<rparr>))))"

definition bc_action :: "cdsl_env \<Rightarrow> string option \<Rightarrow> bc_state \<Rightarrow> bc_outcome" where
  "bc_action env name s =
     (case pop_args env s of (args, s1) \<Rightarrow>
        Next (s1\<lparr>bs_vm := (case name of None \<Rightarrow> bs_vm s1 | Some n \<Rightarrow> call_action (bs_vm s1) n args),
                 bs_ip := bs_ip s1 + 1\<rparr>))"

text \<open>A conditional jump peeks; when it falls through it drops the condition.\<close>

definition bc_jump_if :: "cdsl_env \<Rightarrow> bool \<Rightarrow> int \<Rightarrow> bc_state \<Rightarrow> bc_outcome" where
  "bc_jump_if env want off s =
     (case peek s of (v, s1) \<Rightarrow>
        if c_true (raw_lo env v) = want then Next (s1\<lparr>bs_ip := bs_ip s1 + off\<rparr>)
        else (case pop s1 of (d, s2) \<Rightarrow> Next (s2\<lparr>bs_ip := bs_ip s2 + 1\<rparr>)))"

definition next_ip :: "bc_state \<Rightarrow> bc_outcome" where
  "next_ip s = Next (s\<lparr>bs_ip := bs_ip s + 1\<rparr>)"

text \<open>\<open>handler\<close>: whether a metric handler is installed, as the rule executor does.\<close>

fun bc_exec ::
  "cdsl_env \<Rightarrow> cdsl_context \<Rightarrow> cdsl_bytecode \<Rightarrow> bool \<Rightarrow> bc_inst \<Rightarrow> bc_state \<Rightarrow> bc_outcome" where
  "bc_exec env ctx bc handler (BC_PUSH_INT i) s = push_result env (VInt i) s"
| "bc_exec env ctx bc handler (BC_PUSH_FLOAT f) s = push_result env (VFloat f) s"
| "bc_exec env ctx bc handler (BC_PUSH_BOOL b) s = push_result env (VBool b) s"
| "bc_exec env ctx bc handler (BC_PUSH_STRING i) s = push_result env (VString (const_string bc i)) s"
| "bc_exec env ctx bc handler (BC_PUSH_DATE d) s = push_result env (VDate d) s"
| "bc_exec env ctx bc handler (BC_PUSH_LONG l) s = push_result env (VLong l) s"
| "bc_exec env ctx bc handler (BC_PUSH_ARRAY n) s = bc_push_array env n s"
| "bc_exec env ctx bc handler (BC_PUSH_VAR i) s = bc_push_var env ctx (const_string bc i) s"
| "bc_exec env ctx bc handler BC_POP s =
     Next (s\<lparr>bs_stack := tl (bs_stack s), bs_ip := bs_ip s + 1\<rparr>)"
| "bc_exec env ctx bc handler BC_ADD s = bc_binary env CDSL_OP_ADD s"
| "bc_exec env ctx bc handler BC_SUB s = bc_binary env CDSL_OP_SUB s"
| "bc_exec env ctx bc handler BC_MUL s = bc_binary env CDSL_OP_MUL s"
| "bc_exec env ctx bc handler BC_DIV s = bc_binary env CDSL_OP_DIV s"
| "bc_exec env ctx bc handler BC_EQ s = bc_binary env CDSL_OP_EQ s"
| "bc_exec env ctx bc handler BC_NE s = bc_binary env CDSL_OP_NE s"
| "bc_exec env ctx bc handler BC_LT s = bc_binary env CDSL_OP_LT s"
| "bc_exec env ctx bc handler BC_GT s = bc_binary env CDSL_OP_GT s"
| "bc_exec env ctx bc handler BC_LE s = bc_binary env CDSL_OP_LE s"
| "bc_exec env ctx bc handler BC_GE s = bc_binary env CDSL_OP_GE s"
| "bc_exec env ctx bc handler BC_NOT s = bc_unary env CDSL_OP_NOT s"
| "bc_exec env ctx bc handler BC_NEG s = bc_unary env CDSL_OP_NEG s"
| "bc_exec env ctx bc handler (BC_CALL i) s = bc_call env ctx (const_string bc i) s"
| "bc_exec env ctx bc handler (BC_ACTION i) s = bc_action env (const_string bc i) s"
| "bc_exec env ctx bc handler BC_DUP s =
     (case bs_stack s of
        [] \<Rightarrow> Done (s\<lparr>bs_vm := bc_stack_underflow (bs_vm s),
                     bs_result := stale_void env (bs_result s)\<rparr>)
      | v # vs \<Rightarrow> push_next env v s)"
| "bc_exec env ctx bc handler (BC_JMP_IF_TRUE off) s = bc_jump_if env True off s"
| "bc_exec env ctx bc handler (BC_JMP_IF_FALSE off) s = bc_jump_if env False off s"
| "bc_exec env ctx bc handler (BC_JMP off) s = Next (s\<lparr>bs_ip := bs_ip s + off\<rparr>)"
| "bc_exec env ctx bc handler (BC_METRIC_START i) s =
     next_ip (if handler then s\<lparr>bs_metrics := handle_metric_start bc i (bs_metrics s)\<rparr> else s)"
| "bc_exec env ctx bc handler BC_SET_SCORE s =
     (case pop s of (v, s1) \<Rightarrow>
        next_ip (if handler then s1\<lparr>bs_metrics := handle_set_score v (bs_metrics s1)\<rparr> else s1))"
| "bc_exec env ctx bc handler (BC_FAIL_METRIC i) s =
     next_ip (if handler then s\<lparr>bs_metrics := handle_fail_metric bc i (bs_metrics s)\<rparr> else s)"
| "bc_exec env ctx bc handler BC_RULE_END s = (if handler then Done s else next_ip s)"
| "bc_exec env ctx bc handler BC_RET s = (case pop s of (v, s1) \<Rightarrow> Done (s1\<lparr>bs_result := v\<rparr>))"

subsection \<open>The loop\<close>

text \<open>The checks in front of every instruction: quota, and the abort test every 1024 turns.\<close>

definition bc_check :: "cdsl_env \<Rightarrow> f64 \<Rightarrow> bc_state \<Rightarrow> bool \<times> bc_state" where
  "bc_check env t0 s =
     (case vm_tick (bs_vm s) of (ok, vm1) \<Rightarrow>
        if \<not> ok then (False, s\<lparr>bs_vm := vm1, bs_result := stale_void env (bs_result s)\<rparr>)
        else
          let n = bs_loop s + 1 in
          if n mod 1024 = 0 then
            (case cdsl_vm_check_abort env vm1 t0 of (abort, vm2) \<Rightarrow>
               if abort
               then (False, s\<lparr>bs_vm := vm2, bs_loop := n, bs_result := stale_void env (bs_result s)\<rparr>)
               else (True, s\<lparr>bs_vm := vm2, bs_loop := n\<rparr>))
          else (True, s\<lparr>bs_vm := vm1, bs_loop := n\<rparr>))"

definition bc_step ::
  "cdsl_env \<Rightarrow> cdsl_context \<Rightarrow> cdsl_bytecode \<Rightarrow> bool \<Rightarrow> f64 \<Rightarrow> bc_state \<Rightarrow> bc_outcome" where
  "bc_step env ctx bc handler t0 s =
     (if bs_ip s < 0 \<or> int (length (bc_code bc)) \<le> bs_ip s then Done s
      else case bc_check env t0 s of (ok, s1) \<Rightarrow>
        if ok then bc_exec env ctx bc handler (bc_code bc ! nat (bs_ip s1)) s1 else Done s1)"

fun bc_run ::
  "cdsl_env \<Rightarrow> cdsl_context \<Rightarrow> cdsl_bytecode \<Rightarrow> bool \<Rightarrow> f64 \<Rightarrow> nat \<Rightarrow> bc_state \<Rightarrow> bc_state option" where
  "bc_run env ctx bc handler t0 0 s = None"
| "bc_run env ctx bc handler t0 (Suc n) s =
     (case bc_step env ctx bc handler t0 s of
        Done s1 \<Rightarrow> Some s1 | Next s1 \<Rightarrow> bc_run env ctx bc handler t0 n s1)"

definition bc_fuel :: "cdsl_bytecode \<Rightarrow> nat" where
  "bc_fuel bc = length (bc_code bc) + 1"

definition bc_init :: "cdsl_vm \<Rightarrow> bc_state" where
  "bc_init vm = \<lparr>bs_stack = [], bs_ip = 0, bs_result = void0, bs_loop = 0, bs_vm = vm, bs_metrics = []\<rparr>"

text \<open>The final result, VM and metrics.\<close>

definition bc_run_instructions ::
  "cdsl_env \<Rightarrow> cdsl_vm \<Rightarrow> cdsl_bytecode \<Rightarrow> cdsl_context \<Rightarrow> bool \<Rightarrow> bc_state option" where
  "bc_run_instructions env vm bc ctx handler =
     (case cdsl_get_time_us_internal env vm of (t0, vm1) \<Rightarrow>
        bc_run env ctx bc handler t0 (bc_fuel bc) (bc_init vm1))"

definition cdsl_bytecode_execute ::
  "cdsl_env \<Rightarrow> cdsl_vm \<Rightarrow> cdsl_bytecode \<Rightarrow> cdsl_context \<Rightarrow> (cdsl_value \<times> cdsl_vm) option" where
  "cdsl_bytecode_execute env vm bc ctx =
     (if bc_code bc = [] then Some (void0, vm)
      else map_option (\<lambda>s. (bs_result s, bs_vm s))
             (bc_run_instructions env (cdsl_vm_begin_execution vm) bc ctx False))"

subsection \<open>Rule reports from bytecode\<close>

definition bc_metric_entry :: "cdsl_bytecode \<Rightarrow> cdsl_metric_result" where
  "bc_metric_entry bc = metric_zero\<lparr>mr_metric_name := Some (bc_rule_name bc),
     mr_description := Some (bc_description bc)\<rparr>"

definition bc_finalize_simple_rule_report ::
  "cdsl_rule_report \<Rightarrow> cdsl_bytecode \<Rightarrow> bool \<Rightarrow> cdsl_rule_report" where
  "bc_finalize_simple_rule_report rpt bc when_true =
     rpt\<lparr>rr_metrics := [(bc_metric_entry bc)\<lparr>mr_max_weight := 100,
            mr_score_obtained := (if when_true then 0 else 100),
            mr_is_passed := (if when_true then 0 else 1)\<rparr>],
         rr_total_max_score := 100,
         rr_total_obtained_score := (if when_true then 0 else 100),
         rr_status := (if when_true then CDSL_STATUS_FAILED else CDSL_STATUS_PASSED),
         rr_decision_summary := Some (if when_true then ''FAILED (score: 0/100)''
                                      else ''PASSED (score: 100/100)'')\<rparr>"

definition default_reason :: "cdsl_metric_result \<Rightarrow> cdsl_metric_result" where
  "default_reason mr =
     (if mr_is_passed mr = 0 \<and> mr_violation_reason mr = None
      then mr\<lparr>mr_violation_reason := Some ''default_condition_triggered''\<rparr> else mr)"

definition bc_finalize_metric_report ::
  "cdsl_rule_report \<Rightarrow> cdsl_bytecode \<Rightarrow> cdsl_metric_result list \<Rightarrow> cdsl_rule_report" where
  "bc_finalize_metric_report rpt bc ms =
     (let tot = sum_list (map mr_max_weight ms); obt = sum_list (map mr_score_obtained ms);
          crit = list_ex (\<lambda>mr. c_true (mr_is_critical mr) \<and> \<not> c_true (mr_is_passed mr)) ms;
          st = decide_status crit obt
                 (if 0 < sint (bc_pass_threshold bc) then bc_pass_threshold bc else 80)
                 (if 0 < sint (bc_partial_threshold bc) then bc_partial_threshold bc else 60)
      in rpt\<lparr>rr_metrics := map default_reason ms, rr_total_max_score := tot,
             rr_total_obtained_score := obt, rr_status := st,
             rr_decision_summary := Some (metric_summary st obt tot)\<rparr>)"

definition bc_report_init :: "cdsl_bytecode \<Rightarrow> cdsl_rule_report" where
  "bc_report_init bc = \<lparr>rr_rule_name = Some (bc_rule_name bc), rr_description = Some (bc_description bc),
     rr_metrics = [], rr_total_max_score = 0, rr_total_obtained_score = 0,
     rr_status = CDSL_STATUS_PASSED, rr_decision_summary = None, rr_error = None\<rparr>"

definition bc_report :: "cdsl_bytecode \<Rightarrow> bc_state \<Rightarrow> cdsl_rule_report \<times> cdsl_vm" where
  "bc_report bc s =
     (let r0 = bc_report_init bc; vm = bs_vm s; ms = bs_metrics s in
      if vm_error_state vm then
        finish_report (r0\<lparr>rr_decision_summary := Some ''ERROR'',
          rr_metrics := (if ms = [] \<and> bc_metric_infos bc = [] then [bc_metric_entry bc] else ms)\<rparr>) vm
      else if ms = [] then
        (case bs_result s of
           VBool b \<Rightarrow> (bc_finalize_simple_rule_report r0 bc (c_true b), vm)
         | _ \<Rightarrow> (r0\<lparr>rr_status := CDSL_STATUS_ERROR\<rparr>, vm))
      else (bc_finalize_metric_report r0 bc ms, vm))"

definition cdsl_bytecode_execute_rule ::
  "cdsl_env \<Rightarrow> cdsl_vm \<Rightarrow> cdsl_bytecode \<Rightarrow> cdsl_context \<Rightarrow> (cdsl_rule_report \<times> cdsl_vm) option" where
  "cdsl_bytecode_execute_rule env vm bc ctx =
     (if bc_code bc = [] then None else
      case cdsl_get_time_us_internal env vm of (t0, vm0) \<Rightarrow>
      case bc_run_instructions env (cdsl_vm_begin_execution vm0) bc ctx True of
        None \<Rightarrow> None
      | Some s \<Rightarrow> (case bc_report bc s of (rpt, vm1) \<Rightarrow> Some (rpt, add_stats env t0 rpt vm1)))"

end
