(* ===== verification/Cdsl_Bytecode_Total.thy ===== *)
theory Cdsl_Bytecode_Total
  imports Cdsl_Bytecode_Run
begin

section \<open>Compiled code terminates\<close>

text \<open>
  The jump discipline of the compiler: code only grows, a placeholder is patched before its
  construct ends, and every patched jump goes forward (\<open>grows\<close>, \<open>compile_forward\<close>). The machine then
  advances its instruction pointer with every turn, so the fuel of \<open>bc_run\<close> is enough.
\<close>

subsection \<open>Jumps go forward\<close>

fun forward :: "bc_inst \<Rightarrow> bool" where
  "forward (BC_JMP_IF_FALSE off) = (1 \<le> off)"
| "forward (BC_JMP_IF_TRUE off) = (1 \<le> off)"
| "forward (BC_JMP off) = (1 \<le> off)"
| "forward _ = True"

text \<open>Every jump goes forward, but for the placeholders in \<open>P\<close>.\<close>

definition forward_but :: "nat set \<Rightarrow> cdsl_bytecode \<Rightarrow> bool" where
  "forward_but P bc \<longleftrightarrow> (\<forall>i < length (bc_code bc). i \<in> P \<or> forward (bc_code bc ! i))"

text \<open>What the compiler's steps keep: the code grows, and no other placeholder stays behind.\<close>

definition grows :: "nat set \<Rightarrow> cdsl_bytecode \<Rightarrow> cdsl_bytecode \<Rightarrow> bool" where
  "grows Q bc bc' \<longleftrightarrow> length (bc_code bc) \<le> length (bc_code bc')
     \<and> (\<forall>i\<in>Q. length (bc_code bc) \<le> i \<and> i < length (bc_code bc'))
     \<and> (\<forall>P. forward_but P bc \<longrightarrow> forward_but (P \<union> Q) bc')"

lemma grows_refl [simp, intro]: "grows {} bc bc"
  by (simp add: grows_def)

lemma grows_trans: "grows Q bc bc1 \<Longrightarrow> grows R bc1 bc2 \<Longrightarrow> grows (Q \<union> R) bc bc2"
  unfolding grows_def by (auto simp: Un_assoc) 

lemma grows_trans0 [trans]: "grows {} bc bc1 \<Longrightarrow> grows Q bc1 bc2 \<Longrightarrow> grows Q bc bc2"
  using grows_trans [of "{}" bc bc1 Q bc2] by simp

lemma grows_emit [intro]: "forward i \<Longrightarrow> grows {} bc (bc_emit bc i)"
  by (auto simp: grows_def forward_but_def bc_emit_def nth_append)

lemma grows_same_code: "bc_code bc' = bc_code bc \<Longrightarrow> grows {} bc bc'"
  by (simp add: grows_def forward_but_def)

lemma constant_code [simp]: "bc_code (snd (bc_add_constant bc v)) = bc_code bc"
  by (simp add: bc_add_constant_def split: option.split cdsl_value.split)

lemma raise_max_code [simp]: "bc_code (raise_max bc n) = bc_code bc"
  by (simp add: raise_max_def)

lemma grows_emit_same: "bc_code bc1 = bc_code bc \<Longrightarrow> forward i \<Longrightarrow> grows {} bc (bc_emit bc1 i)"
  using grows_trans0 [OF grows_same_code grows_emit] by blast

lemma grows_emits:
  "grows {} bc (bc_emit_int bc i)" "grows {} bc (bc_emit_long bc l)" "grows {} bc (bc_emit_float bc f)"
  "grows {} bc (bc_emit_bool bc b)" "grows {} bc (bc_emit_date bc d)" "grows {} bc (bc_emit_string bc s)"
  "grows {} bc (bc_emit_var bc x)" "grows {} bc (bc_emit_metric_start bc x)"
  "grows {} bc (bc_emit_fail_metric bc x)"
  by (auto simp: bc_emit_int_def bc_emit_long_def bc_emit_float_def bc_emit_bool_def bc_emit_date_def
      bc_emit_string_def bc_emit_var_def bc_emit_metric_start_def bc_emit_fail_metric_def
      intro: grows_emit_same split: prod.split)
   (metis constant_code snd_conv grows_emit_same forward.simps)+

lemma grows_emit_call: "grows {} bc (bc_emit_call bc f n)"
proof -
  obtain i bc1 where 1: "bc_add_constant (bc_emit_int bc (of_nat n)) (VString (Some f)) = (i, bc1)" by force
  then have "bc_code bc1 = bc_code (bc_emit_int bc (of_nat n))" by (metis constant_code snd_conv)
  then have "grows {} (bc_emit_int bc (of_nat n)) (bc_emit bc1 (BC_CALL i))" by (intro grows_emit_same) auto
  with grows_emits(1) show ?thesis unfolding bc_emit_call_def 1 by (auto intro: grows_trans0)
qed

lemma grows_emit_op: "grows {} bc (emit_op bc op)"
  by (cases op) (auto simp: emit_op_def)

lemma grows_emit_folded: "grows {} bc (emit_folded bc v)"
  by (auto simp: emit_folded_def grows_emits split: cdsl_value.split)

lemma grows_placeholder:
  "grows {length (bc_code bc)} bc (snd (bc_emit_jmp_placeholder bc))"
  "grows {length (bc_code bc)} bc (snd (bc_emit_jmp_true_placeholder bc))"
  "grows {length (bc_code bc)} bc (snd (bc_emit_jmp_uncond_placeholder bc))"
  by (auto simp: grows_def forward_but_def bc_emit_def nth_append bc_emit_jmp_placeholder_def
      bc_emit_jmp_true_placeholder_def bc_emit_jmp_uncond_placeholder_def)

lemma forward_set_offset: "1 \<le> off \<Longrightarrow> forward (set_offset i off)"
  by (cases i) auto

lemma grows_patch:
  assumes "grows Q bc bc1" and "j < target"
  shows "grows (Q - {j}) bc (bc_patch_jmp bc1 j target)"
  using assms forward_set_offset
  by (auto simp: grows_def forward_but_def bc_patch_jmp_def nth_list_update)

lemma grows_raise: "grows Q bc bc1 \<Longrightarrow> grows Q bc (raise_max bc1 n)"
  by (simp add: grows_def forward_but_def)

lemma grows_then: "grows {} bc bc1 \<Longrightarrow> grows {} bc1 bc2 \<Longrightarrow> grows {} bc bc2"
  by (rule grows_trans0)

lemma compile_expr_cases:
  "snd (snd (compile_expr e bc)) \<in> {raise_max (emit_folded bc v) 1 | v. True}
     \<union> {raise_max (snd (snd (compile_node e bc))) n | n. True} \<union> {snd (snd (compile_node e bc))}"
  by (subst compile_expr.simps) (auto split: option.splits prod.splits)

text \<open>A short-circuit operator: the left side, a placeholder and a POP, the right side, the patch.\<close>

lemma grows_short_circuit:
  assumes "grows {} bc bc1" and "grows {length (bc_code bc1)} bc1 bc2"
    and "grows {} (bc_emit bc2 BC_POP) bc3"
  shows "grows {} bc (bc_patch_jmp bc3 (length (bc_code bc1)) (length (bc_code bc3)))"
proof -
  have "grows {length (bc_code bc1)} bc1 bc3"
    using grows_trans [OF grows_trans [OF assms(2) grows_emit] assms(3)] by simp
  moreover have "length (bc_code bc1) < length (bc_code bc3)" using calculation by (simp add: grows_def)
  ultimately have "grows {} bc1 (bc_patch_jmp bc3 (length (bc_code bc1)) (length (bc_code bc3)))"
    using grows_patch by fastforce
  with assms(1) show "grows {} bc (bc_patch_jmp bc3 (length (bc_code bc1)) (length (bc_code bc3)))"
    by (rule grows_then)
qed

text \<open>Expressions without the error nodes a failed parse leaves; those are the ones that compile.\<close>

fun no_error :: "cdsl_expr \<Rightarrow> bool" where
  "no_error (CDSL_EXPR_ERROR _) = False"
| "no_error (CDSL_EXPR_UNARY _ op e) = no_error e"
| "no_error (CDSL_EXPR_BINARY _ op a b) = (no_error a \<and> no_error b)"
| "no_error (CDSL_EXPR_ARRAY _ es) = list_all no_error es"
| "no_error (CDSL_EXPR_CALL _ f es) = list_all no_error es"
| "no_error _ = True"

lemma compile_expr_folded:
  "(if is_const_expr e then fold_const_expr e else None) = Some v \<Longrightarrow>
     compile_expr e bc = (True, 1, raise_max (emit_folded bc v) 1)"
  by (subst compile_expr.simps) simp

lemma compile_expr_node:
  "(if is_const_expr e then fold_const_expr e else None) = None \<Longrightarrow>
     compile_expr e bc = (case compile_node e bc of (ok, n, bc1) \<Rightarrow>
       if ok then (True, n, raise_max bc1 n) else (False, 0, bc1))"
  by (subst compile_expr.simps) simp

lemma compile_grows:
  "no_error e \<Longrightarrow> fst (compile_expr e bc) \<and> grows {} bc (snd (snd (compile_expr e bc)))"
  "no_error e \<Longrightarrow> fst (compile_node e bc) \<and> grows {} bc (snd (snd (compile_node e bc)))"
  "list_all no_error es \<Longrightarrow> grows {} bc (snd (compile_args es n bc))"
proof (induction e bc and e bc and es n bc rule: compile_expr_compile_node_compile_args.induct)
  case (1 e bc)
  show ?case
  proof (cases "if is_const_expr e then fold_const_expr e else None")
    case None
    with 1 show ?thesis
      by (auto simp: compile_expr_node [OF None] split: prod.split intro: grows_raise)
  next
    case (Some v)
    then show ?thesis by (simp add: compile_expr_folded [OF Some] grows_raise grows_emit_folded)
  qed
next
  case (8 ux es bc)
  then show ?case using grows_then [OF _ grows_emit, of bc "snd (compile_args es 0 bc)" "BC_PUSH_ARRAY (length es)"]
    by (auto split: prod.split)
next
  case (10 uv op e bc)
  then show ?case by (auto split: prod.split intro: grows_then grows_emit_op)
next
  case (11 ux op a b bc)
  obtain l bc1 where 1: "compile_expr a bc = (True, l, bc1)" and g1: "grows {} bc bc1"
    using 11(1,4) by (cases "compile_expr a bc") auto
  show ?case
  proof (cases "op = CDSL_OP_AND \<or> op = CDSL_OP_OR")
    case True
    obtain j bc2 where 2: "(if op = CDSL_OP_AND then bc_emit_jmp_placeholder bc1
        else bc_emit_jmp_true_placeholder bc1) = (j, bc2)" by force
    have j: "j = length (bc_code bc1)"
      using 2 by (auto simp: bc_emit_jmp_placeholder_def bc_emit_jmp_true_placeholder_def split: if_splits)
    have g2: "grows {length (bc_code bc1)} bc1 bc2"
      using 2 grows_placeholder [of bc1] by (auto split: if_splits)
    obtain r bc3 where 3: "compile_expr b (bc_emit bc2 BC_POP) = (True, r, bc3)"
      and g3: "grows {} (bc_emit bc2 BC_POP) bc3"
      using 11(2) [OF 1 [symmetric]] 11(4) True 2 by (cases "compile_expr b (bc_emit bc2 BC_POP)") auto
    show ?thesis
      using True grows_short_circuit [OF g1 g2 g3] 2 3 by (simp add: 1 j)
  next
    case False
    show ?thesis using 11(3) [OF 1 [symmetric]] 11(4) 1 False
      by (auto split: prod.split intro!: grows_then [OF g1] intro: grows_then grows_emit_op)
  qed
qed (auto simp: grows_emits grows_emit_call split: prod.splits intro: grows_then)


definition no_error_action :: "cdsl_action option \<Rightarrow> bool" where
  "no_error_action act = (case act of None \<Rightarrow> True | Some a \<Rightarrow> list_all no_error (act_args a))"

definition no_error_case :: "cdsl_case \<Rightarrow> bool" where
  "no_error_case c =
     ((case case_condition c of None \<Rightarrow> True | Some e \<Rightarrow> no_error e) \<and> no_error_action (case_action c))"

definition no_error_rule :: "cdsl_rule \<Rightarrow> bool" where
  "no_error_rule r =
     (list_all (\<lambda>m. list_all no_error_case (met_cases m) \<and> no_error_action (met_default m)) (rule_metrics r)
      \<and> (case rule_when r of None \<Rightarrow> True | Some e \<Rightarrow> no_error e) \<and> no_error_action (rule_then r))"

lemma compile_expr_ok:
  assumes "no_error e"
  obtains n bc1 where "compile_expr e bc = (True, n, bc1)" and "grows {} bc bc1"
  using compile_grows(1) [OF assms, of bc] by (cases "compile_expr e bc") auto

lemma grows_constant: "grows {} bc bc1 \<Longrightarrow> grows {} bc (snd (bc_add_constant bc1 v))"
  by (erule grows_then) (simp add: grows_same_code)

lemma action_args_grows:
  "list_all no_error es \<Longrightarrow> \<exists>n' k' bc1. compile_action_args es n k bc = (True, n', k', bc1) \<and> grows {} bc bc1"
proof (induction es arbitrary: n k bc)
  case (Cons e es)
  obtain sub bc1 where 1: "compile_expr e bc = (True, sub, bc1)" "grows {} bc bc1"
    using compile_expr_ok [of e bc] Cons.prems by auto
  then show ?case using Cons.IH [of "n + 1" "max (sub + n) k" bc1] Cons.prems
    by (auto intro: grows_then)
qed auto

lemma action_call_grows:
  assumes "no_error_action act"
  shows "grows {} bc (snd (snd (compile_action_call act su bc)))"
proof (cases act)
  case (Some a)
  then obtain n k bc1 where 1: "compile_action_args (act_args a) 0 0 bc = (True, n, k, bc1)" "grows {} bc bc1"
    using action_args_grows [of "act_args a" 0 0 bc] assms by (auto simp: no_error_action_def)
  then have "grows {} bc (bc_emit (snd (bc_add_constant (bc_emit_int bc1 (of_nat n)) (VString (Some (act_name a))))) (BC_ACTION i))" for i
    by (intro grows_then [OF _ grows_emit] grows_constant grows_then [OF 1(2) grows_emits(1)]) simp
  then show ?thesis using 1 by (simp add: Some compile_action_call_def split: prod.split) (metis snd_conv)
qed (simp add: compile_action_call_def)

lemma score_grows:
  assumes "list_all no_error (act_args a)"
  shows "grows {} bc (snd (compile_score w a su bc))"
proof -
  have zero: "grows {} bc (bc_emit (bc_emit_int bc v) BC_SET_SCORE)" for v
    by (rule grows_then [OF grows_emits(1) grows_emit]) simp
  have "grows {} bc (bc_emit (snd (snd (compile_expr (hd (act_args a)) bc))) BC_SET_SCORE)" if "act_args a \<noteq> []"
    using compile_grows(1) [of "hd (act_args a)" bc] assms that
    by (intro grows_then [OF _ grows_emit]) (cases "act_args a"; auto)+
  then show ?thesis
    using zero grows_then [OF zero grows_emits(9)]
    by (auto simp: compile_score_def Let_def split: prod.split list.split cdsl_expr.split)
qed

lemma action_and_score_grows:
  assumes "no_error_action act"
  shows "grows {} bc (snd (compile_action_and_score w act su bc))"
proof (cases act)
  case (Some a)
  obtain ok su1 bc1 where 1: "compile_action_call (Some a) su bc = (ok, su1, bc1)" by (metis prod_cases3)
  with action_call_grows [of "Some a" bc su] assms Some have "grows {} bc bc1" by simp
  moreover have "grows {} bc1 (snd (compile_score w a su1 bc1))"
    using score_grows assms Some by (simp add: no_error_action_def)
  ultimately show ?thesis using 1 by (simp add: Some compile_action_and_score_def grows_then)
qed (simp add: compile_action_and_score_def)

text \<open>The branches leave exactly the jumps to the end of the metric unpatched.\<close>

lemma cases_grow:
  "list_all no_error_case cs \<Longrightarrow> (case compile_cases w cs jmps su bc of (jmps', su', bc') \<Rightarrow>
     \<exists>new. jmps' = jmps @ new \<and> grows (set new) bc bc')"
proof (induction cs arbitrary: jmps su bc)
  case (Cons c cs)
  show ?case
  proof (cases "case_condition c")
    case None
    then show ?thesis using Cons by simp
  next
    case (Some e)
    obtain n bc1 where 1: "compile_expr e bc = (True, n, bc1)" and g1: "grows {} bc bc1"
      using compile_expr_ok [of e bc] Cons.prems Some by (auto simp: no_error_case_def)
    define j where "j = length (bc_code bc1)"
    obtain bc2 where 2: "bc_emit_jmp_placeholder bc1 = (j, bc2)" and g2: "grows {j} bc1 bc2"
      using grows_placeholder(1) [of bc1] by (cases "bc_emit_jmp_placeholder bc1") (simp add: j_def bc_emit_jmp_placeholder_def)
    obtain su3 bc3 where 3: "compile_action_and_score w (case_action c) (max n su) (bc_emit bc2 BC_POP) = (su3, bc3)"
      by force
    have g3: "grows {} (bc_emit bc2 BC_POP) bc3"
      using action_and_score_grows [of "case_action c" "bc_emit bc2 BC_POP" w "max n su"] 3 Cons.prems
      by (simp add: no_error_case_def)
    define k where "k = length (bc_code bc3)"
    obtain bc4 where 4: "bc_emit_jmp_uncond_placeholder bc3 = (k, bc4)" and g4: "grows {k} bc3 bc4"
      using grows_placeholder(3) [of bc3] by (cases "bc_emit_jmp_uncond_placeholder bc3") (simp add: k_def bc_emit_jmp_uncond_placeholder_def)
    have "grows {j, k} bc1 bc4"
      using grows_trans [OF grows_trans [OF grows_trans [OF g2 grows_emit [of BC_POP]] g3] g4] by (simp add: insert_commute)
    moreover have "j < length (bc_code bc4)" "j \<noteq> k"
      using calculation g2 g3 by (auto simp: grows_def j_def k_def bc_emit_def)
    ultimately have "grows {k} bc1 (bc_patch_jmp bc4 j (length (bc_code bc4)))"
      using grows_patch [of "{j, k}" bc1 bc4 j] by (simp add: insert_Diff_if)
    then have g5: "grows {k} bc (bc_emit (bc_patch_jmp bc4 j (length (bc_code bc4))) BC_POP)"
      using grows_trans [OF grows_trans0 [OF g1] grows_emit [of BC_POP]] by simp
    show ?thesis
      using Cons.IH [where jmps = "jmps @ [k]" and su = su3
          and bc = "bc_emit (bc_patch_jmp bc4 j (length (bc_code bc4))) BC_POP"] Cons.prems
        grows_trans [OF g5]
      by (auto simp: Some 1 2 3 4 split: prod.splits)
  qed
qed auto

lemma length_patch [simp]: "length (bc_code (bc_patch_jmp bc j t)) = length (bc_code bc)"
  by (simp add: bc_patch_jmp_def)

lemma patch_all_grows:
  "grows Q bc bc1 \<Longrightarrow> Q \<subseteq> set js \<Longrightarrow> \<forall>j\<in>set js. j < length (bc_code bc1) \<Longrightarrow>
     grows {} bc (patch_all js bc1)"
proof (induction js arbitrary: Q bc1)
  case (Cons j js)
  have "grows (Q - {j}) bc (bc_patch_jmp bc1 j (length (bc_code bc1)))"
    using Cons.prems by (intro grows_patch) auto
  moreover have "Q - {j} \<subseteq> set js" using Cons.prems(2) by auto
  ultimately show ?case
    using Cons.IH [of "Q - {j}" "bc_patch_jmp bc1 j (length (bc_code bc1))"] Cons.prems(3)
    by (simp add: patch_all_def)
qed (simp add: patch_all_def)

lemma metric_grows:
  assumes "list_all no_error_case (met_cases m)" and "no_error_action (met_default m)"
  shows "grows {} bc (snd (compile_metric m su bc))"
proof -
  define w where "w = cdsl_meta_get_int (met_meta m) ''weight'' 0"
  define bc0 where "bc0 = bc\<lparr>bc_metric_infos := bc_metric_infos bc @ [\<lparr>mi_name = met_name m,
     mi_description = meta_description (met_meta m), mi_max_weight = w,
     mi_is_critical = cdsl_meta_get_bool (met_meta m) ''is_critical'' 0\<rparr>]\<rparr>"
  have g0: "grows {} bc (bc_emit_metric_start bc0 (met_name m))"
    by (rule grows_then [OF grows_same_code grows_emits(8)]) (simp add: bc0_def)
  obtain js su2 bc2 where 2: "compile_cases w (met_cases m) [] su (bc_emit_metric_start bc0 (met_name m)) = (js, su2, bc2)"
    by (metis prod_cases3)
  obtain su3 bc3 where 3: "compile_action_and_score 0 (met_default m) su2 bc2 = (su3, bc3)" by force
  have g2: "grows (set js) bc bc2"
    using cases_grow [OF assms(1), where w = w and jmps = "[]" and su = su
        and bc = "bc_emit_metric_start bc0 (met_name m)"] 2 grows_trans0 [OF g0] by (auto split: prod.splits)
  have "grows {} bc2 bc3" using action_and_score_grows [OF assms(2), of bc2 0 su2] 3 by simp
  with g2 have "grows (set js) bc bc3" using grows_trans by fastforce
  then have "grows {} bc (patch_all js bc3)"
    by (rule patch_all_grows) (use \<open>grows (set js) bc bc3\<close> in \<open>auto simp: grows_def\<close>)
  then show ?thesis using 2 3 by (simp add: compile_metric_def w_def bc0_def)
qed

lemma metrics_grow:
  "list_all (\<lambda>m. list_all no_error_case (met_cases m) \<and> no_error_action (met_default m)) ms \<Longrightarrow>
     grows {} bc (snd (compile_metrics ms su bc))"
proof (induction ms arbitrary: su bc)
  case (Cons m ms)
  then show ?case using metric_grows [of m bc su]
    by (auto split: prod.split intro: grows_then)
qed simp

lemma when_grows:
  assumes "no_error e" and "no_error_action act"
  shows "grows {} bc (snd (compile_when e act bc))"
proof -
  obtain n bc1 where 1: "compile_expr e bc = (True, n, bc1)" and g1: "grows {} bc bc1"
    using compile_expr_ok [OF assms(1)] by blast
  show ?thesis
  proof (cases act)
    case None
    then show ?thesis using g1 grows_then [OF g1 grows_emit [of BC_RET]] by (simp add: compile_when_def 1)
  next
    case (Some a)
    define j where "j = length (bc_code bc1)"
    obtain bc2 where 2: "bc_emit_jmp_placeholder bc1 = (j, bc2)" and g2: "grows {j} bc1 bc2"
      using grows_placeholder(1) [of bc1]
      by (cases "bc_emit_jmp_placeholder bc1") (simp add: j_def bc_emit_jmp_placeholder_def)
    obtain ok su bc3 where 3: "compile_action_call (Some a) n bc2 = (ok, su, bc3)" by (metis prod_cases3)
    have "grows {} bc2 bc3" using action_call_grows [of "Some a" bc2 n] assms(2) 3 Some by simp
    then have g4: "grows {j} bc1 (bc_emit_bool bc3 1)"
      using grows_trans [OF grows_trans [OF g2] grows_emits(4)] by fastforce
    then have "grows {} bc1 (bc_patch_jmp (bc_emit_bool bc3 1) j (length (bc_code (bc_emit_bool bc3 1))))"
      using grows_patch [OF g4, of j] by (simp add: grows_def)
    then have "grows {} bc1 (bc_emit (bc_patch_jmp (bc_emit_bool bc3 1) j
        (length (bc_code (bc_emit_bool bc3 1)))) BC_RET)"
      by (rule grows_then [OF _ grows_emit]) simp
    then show ?thesis using grows_then [OF g1] by (simp add: compile_when_def 1 2 3 Some Let_def)
  qed
qed

definition all_forward :: "cdsl_bytecode \<Rightarrow> bool" where
  "all_forward bc = list_all forward (bc_code bc)"

lemma all_forward_iff: "all_forward bc = forward_but {} bc"
  by (simp add: all_forward_def forward_but_def list_all_length)

lemma compile_forward:
  assumes "no_error_rule r" and "cdsl_bytecode_compile r = (ok, bc)"
  shows "all_forward bc"
proof -
  have zero: "forward_but {} b" if "bc_code b = []" for b using that by (simp add: forward_but_def)
  have keep: "grows {} b b' \<Longrightarrow> bc_code b = [] \<Longrightarrow> all_forward b'" for b b'
    using zero [of b] by (auto simp: grows_def all_forward_iff)
  define bc0 where "bc0 = bc_zero\<lparr>bc_rule_name := rule_name r,
      bc_description := meta_description (rule_meta r),
      bc_pass_threshold := cdsl_meta_get_int (rule_meta r) ''pass_threshold'' 80,
      bc_partial_threshold := cdsl_meta_get_int (rule_meta r) ''partial_threshold'' 60,
      bc_is_metric_rule := (rule_metrics r \<noteq> [])\<rparr>"
  have e: "bc_code bc0 = []" by (simp add: bc0_def bc_zero_def)
  have z: "all_forward bc_zero" by (simp add: all_forward_def bc_zero_def)
  have m: "grows {} bc0 (bc_emit (snd (compile_metrics (rule_metrics r) 0 bc0)) BC_RULE_END)"
    using metrics_grow [of "rule_metrics r" bc0 0] assms(1)
    by (intro grows_then [OF _ grows_emit]) (auto simp: no_error_rule_def)
  have w: "grows {} bc0 (snd (compile_when x (rule_then r) bc0))" if "rule_when r = Some x" for x
    using when_grows [of x "rule_then r" bc0] assms(1) that by (simp add: no_error_rule_def)
  have w': "all_forward (raise_max b k)"
    if "rule_when r = Some x" and "compile_when x (rule_then r) bc0 = (n, b)" for x n b k
    using keep [OF grows_raise [OF w [OF that(1)]] e] that(2) by simp
  show ?thesis
    using assms(2) keep [OF grows_raise [OF m] e] keep [OF grows_raise [OF grows_refl] e] z
    unfolding cdsl_bytecode_compile_def bc0_def [symmetric] Let_def
    by (auto simp: w' split: prod.splits option.splits if_splits)
qed

subsection \<open>Forward code always stops\<close>

lemma pop_ip [simp]: "bs_ip (snd (pop s)) = bs_ip s"
  by (simp add: pop_def split: list.split)

lemma peek_ip [simp]: "bs_ip (snd (peek s)) = bs_ip s"
  by (simp add: peek_def split: list.split)

lemma pop_n_ip [simp]: "bs_ip (snd (pop_n n s acc)) = bs_ip s"
proof (induction n arbitrary: s acc)
  case (Suc n)
  obtain v s1 where 1: "pop s = (v, s1)" by force
  then have "bs_ip s1 = bs_ip s" using pop_ip [of s] by simp
  then show ?case using Suc.IH by (simp add: 1)
qed simp

lemma pop_args_ip [simp]: "bs_ip (snd (pop_args env s)) = bs_ip s"
proof -
  obtain nv s1 where 1: "pop s = (nv, s1)" by force
  obtain vs s2 where 2: "pop_n (nat (sint (raw_lo env nv))) s1 [] = (vs, s2)" by force
  show ?thesis
    using pop_ip [of s] pop_n_ip [of "nat (sint (raw_lo env nv))" s1 "[]"] by (simp add: pop_args_def 1 2)
qed

fun advances :: "int \<Rightarrow> bc_outcome \<Rightarrow> bool" where
  "advances p (Next s) = (p + 1 \<le> bs_ip s)"
| "advances p (Done s) = True"

lemma advances_push [simp]:
  "advances (bs_ip s) (push_next env v s)" "advances (bs_ip s) (push_result env v s)"
  by (simp_all add: push_next_def push_result_def)

lemma advances_push_ip:
  "bs_ip s = p \<Longrightarrow> advances p (push_next env v s)" "bs_ip s = p \<Longrightarrow> advances p (push_result env v s)"
  by auto

lemma advances_exec:
  assumes "forward i"
  shows "advances (bs_ip s) (bc_exec env ctx bc handler i s)"
proof -
  have p: "bs_ip s1 = bs_ip s" if "pop s = (v, s1)" for v s1 using that pop_ip [of s] by simp
  have pp: "bs_ip s2 = bs_ip s1" if "pop s1 = (v, s2)" for v s1 s2 using that pop_ip [of s1] by simp
  have k: "bs_ip s1 = bs_ip s" if "peek s = (v, s1)" for v s1 using that peek_ip [of s] by simp
  have a: "bs_ip s1 = bs_ip s" if "pop_args env s = (v, s1)" for v s1 using that pop_args_ip [of env s] by simp
  have n: "bs_ip s1 = bs_ip s0" if "pop_n m s0 [] = (v, s1)" for v s0 s1 m using that pop_n_ip [of m s0 "[]"] by simp
  have un: "advances (bs_ip s) (bc_unary env op s)" for op
    by (auto simp: bc_unary_def split: prod.split dest: p intro!: advances_push_ip)
  have bin: "advances (bs_ip s) (bc_binary env op s)" for op
    by (auto simp: bc_binary_def split: prod.split dest!: p pp intro!: advances_push_ip)
  have jmp: "advances (bs_ip s) (bc_jump_if env want off s)" if "1 \<le> off" for want off
    using that by (auto simp: bc_jump_if_def split: prod.split dest!: k pp)
  show ?thesis
    using assms
    by (cases i) (auto simp: un bin jmp bc_push_var_def bc_push_array_def bc_call_def bc_action_def next_ip_def
        split: prod.split option.split cdsl_value.split func_cb.split list.split
        dest!: p a n intro!: advances_push_ip)
qed

lemma bc_check_ip: "bs_ip (snd (bc_check env t0 s)) = bs_ip s"
  by (auto simp: bc_check_def Let_def split: prod.split)

lemma bc_step_advances:
  assumes "all_forward bc" and "0 \<le> bs_ip s" and "bc_step env ctx bc handler t0 s = Next s'"
  shows "bs_ip s + 1 \<le> bs_ip s'" and "bs_ip s < int (length (bc_code bc))"
proof -
  obtain ok s1 where 1: "bc_check env t0 s = (ok, s1)" by force
  have ip: "bs_ip s1 = bs_ip s" using bc_check_ip [of env t0 s] by (simp add: 1)
  show in_range: "bs_ip s < int (length (bc_code bc))"
    using assms(3) by (auto simp: bc_step_def split: if_splits)
  then have "nat (bs_ip s) < length (bc_code bc)" using assms(2) by linarith
  then have "forward (bc_code bc ! nat (bs_ip s1))" using assms(1) by (simp add: ip all_forward_def list_all_length)
  then have "advances (bs_ip s1) (bc_exec env ctx bc handler (bc_code bc ! nat (bs_ip s1)) s1)"
    by (rule advances_exec)
  then show "bs_ip s + 1 \<le> bs_ip s'"
    using assms(2,3) in_range by (auto simp: bc_step_def 1 ip split: if_splits)
qed

lemma bc_run_total:
  assumes "all_forward bc"
  shows "0 \<le> bs_ip s \<Longrightarrow> int (length (bc_code bc)) - bs_ip s < int n \<Longrightarrow> 0 < n \<Longrightarrow>
     bc_run env ctx bc handler t0 n s \<noteq> None"
proof (induction n arbitrary: s)
  case (Suc n)
  show ?case
  proof (cases "bc_step env ctx bc handler t0 s")
    case (Next s')
    note a = bc_step_advances [OF assms Suc.prems(1) Next]
    have "bc_run env ctx bc handler t0 n s' \<noteq> None"
      using Suc.prems a by (intro Suc.IH) linarith+
    then show ?thesis by (simp add: Next)
  qed simp
qed simp

lemma compiled_run_some:
  assumes "no_error_rule r" and "cdsl_bytecode_compile r = (ok, bc)"
  shows "\<exists>s. bc_run_instructions env vm bc ctx handler = Some s"
proof -
  have "bc_run env ctx bc handler t0 (bc_fuel bc) (bc_init vm1) \<noteq> None" for t0 vm1
    by (rule bc_run_total [OF compile_forward [OF assms]]) (simp_all add: bc_init_def bc_fuel_def)
  then show ?thesis by (auto simp: bc_run_instructions_def split: prod.split)
qed

text \<open>
  Claim C5. Execution of compiled bytecode always ends, whatever the context, the functions and
  the quotas: every jump the compiler leaves in the code goes forward, so the fuel of one more
  than the code length is enough and both entry points return a result. (The rule may hold no
  error node of a failed parse; for those the compiler gives up with a jump left unpatched.)
\<close>

theorem compiled_code_terminates:
  assumes "no_error_rule r" and "cdsl_bytecode_compile r = (ok, bc)"
  shows "cdsl_bytecode_execute env vm bc ctx \<noteq> None
    \<and> (cdsl_bytecode_execute_rule env vm bc ctx = None) = (bc_code bc = [])"
proof -
  note some = compiled_run_some [OF assms, of env _ ctx]
  obtain t0 vm0 where t: "cdsl_get_time_us_internal env vm = (t0, vm0)" by force
  obtain s where s: "bc_run_instructions env (cdsl_vm_begin_execution vm) bc ctx False = Some s"
    using some by blast
  obtain s' where s': "bc_run_instructions env (cdsl_vm_begin_execution vm0) bc ctx True = Some s'"
    using some by blast
  show ?thesis
    by (simp add: cdsl_bytecode_execute_def cdsl_bytecode_execute_rule_def t s s' split: prod.split)
qed

lemma compiled_code_terminates_witness:
  "let r = \<lparr>rule_name = ''r'', rule_meta = [], rule_when = Some (CDSL_EXPR_BINARY (1, 1) CDSL_OP_AND
         (CDSL_EXPR_ID (1, 2) ''a'') (CDSL_EXPR_CALL (1, 3) ''f'' [])),
       rule_then = None, rule_metrics = [], rule_line = 1, rule_column = 1\<rparr> in
   cdsl_bytecode_execute env_plain cdsl_vm_create (snd (cdsl_bytecode_compile r)) (cdsl_context_create None) \<noteq> None"
  unfolding Let_def
  by (rule conjunct1 [OF compiled_code_terminates [OF _ prod.collapse [symmetric]]])
    (simp add: no_error_rule_def no_error_action_def)

end
