(* ===== verification/Cdsl_Semantics.thy ===== *)
theory Cdsl_Semantics
  imports Cdsl_Report Cdsl_Schema
begin

section \<open>A reference semantics of expressions, and type soundness\<close>

text \<open>
  \<open>den\<close> is what an expression means, without the VM: a value or the status of the operation
  that failed, over an environment of variables. It covers literals, variables and operators
  (\<open>scalar_expr\<close>). The tree walker computes it, expressions the verifier accepts have values
  of the type it resolved, and the bytecode is related to it in the theory of the compiler.
\<close>

subsection \<open>The semantics\<close>

type_synonym outcome = "cdsl_valop_status + cdsl_value"

definition outcome_of :: "valop \<Rightarrow> outcome" where
  "outcome_of r = (case r of (st, v) \<Rightarrow>
     if st \<noteq> CDSL_VALOP_OK \<and> st \<noteq> CDSL_VALOP_VOID_OPERAND then Inl st else Inr v)"

fun den :: "cdsl_env \<Rightarrow> (string \<Rightarrow> cdsl_value option) \<Rightarrow> cdsl_expr \<Rightarrow> outcome" where
  "den env \<sigma> (CDSL_EXPR_ID _ x) = Inr (case \<sigma> x of None \<Rightarrow> void0 | Some v \<Rightarrow> v)"
| "den env \<sigma> (CDSL_EXPR_INT _ i) = Inr (VInt i)"
| "den env \<sigma> (CDSL_EXPR_FLOAT _ f) = Inr (VFloat f)"
| "den env \<sigma> (CDSL_EXPR_BOOL _ b) = Inr (VBool b)"
| "den env \<sigma> (CDSL_EXPR_STRING _ s) = Inr (VString (Some s))"
| "den env \<sigma> (CDSL_EXPR_DATE _ d) = Inr (VDate d)"
| "den env \<sigma> (CDSL_EXPR_LONG _ l) = Inr (VLong l)"
| "den env \<sigma> (CDSL_EXPR_UNARY _ op e) =
     (case den env \<sigma> e of Inl st \<Rightarrow> Inl st | Inr v \<Rightarrow> outcome_of (cdsl_value_unop op v))"
| "den env \<sigma> (CDSL_EXPR_BINARY _ op a b) =
     (case den env \<sigma> a of Inl st \<Rightarrow> Inl st
      | Inr x \<Rightarrow>
          if op = CDSL_OP_AND \<and> \<not> c_true (raw_lo env x) then Inr (VBool 0)
          else if op = CDSL_OP_OR \<and> c_true (raw_lo env x) then Inr (VBool 1)
          else (case den env \<sigma> b of Inl st \<Rightarrow> Inl st
            | Inr y \<Rightarrow> if op = CDSL_OP_AND \<or> op = CDSL_OP_OR then Inr (VBool (raw_lo env y))
                      else outcome_of (cdsl_value_binop op x y)))"
| "den env \<sigma> _ = Inr void0"

text \<open>Expressions of literals, variables and operators of the right arity, as the parser builds them.\<close>

fun scalar_expr :: "cdsl_expr \<Rightarrow> bool" where
  "scalar_expr (CDSL_EXPR_UNARY _ op e) = (cdsl_op_is_unary op \<and> scalar_expr e)"
| "scalar_expr (CDSL_EXPR_BINARY _ op a b) = (\<not> cdsl_op_is_unary op \<and> scalar_expr a \<and> scalar_expr b)"
| "scalar_expr (CDSL_EXPR_ARRAY _ _) = False"
| "scalar_expr (CDSL_EXPR_CALL _ _ _) = False"
| "scalar_expr (CDSL_EXPR_ERROR _) = False"
| "scalar_expr _ = True"

fun height :: "cdsl_expr \<Rightarrow> nat" where
  "height (CDSL_EXPR_UNARY _ op e) = Suc (height e)"
| "height (CDSL_EXPR_BINARY _ op a b) = Suc (max (height a) (height b))"
| "height _ = 1"

fun vars :: "cdsl_expr \<Rightarrow> string list" where
  "vars (CDSL_EXPR_ID _ x) = [x]"
| "vars (CDSL_EXPR_UNARY _ op e) = vars e"
| "vars (CDSL_EXPR_BINARY _ op a b) = vars a @ vars b"
| "vars _ = []"

definition unlimited :: "cdsl_vm \<Rightarrow> bool" where
  "unlimited vm \<longleftrightarrow> vm_instruction_limit vm \<le> 0 \<and> vm_memory_limit vm \<le> 0 \<and> vm_timeout_us vm \<le> 0"

definition valop_raise :: "cdsl_vm \<Rightarrow> loc \<Rightarrow> cdsl_valop_status \<Rightarrow> cdsl_vm" where
  "valop_raise vm l st =
     vm_raise vm CDSL_ERR_RUNTIME l (cdsl_valop_status_message st) (cdsl_valop_status_hint st)"

subsection \<open>The tree walker computes the semantics\<close>

lemma unlimited_tick [simp]: "unlimited vm \<Longrightarrow> vm_tick vm = (True, vm)"
  by (simp add: unlimited_def vm_tick_def)

lemma unlimited_strdup [simp]: "unlimited vm \<Longrightarrow> cdsl_vm_strdup vm s = (s, vm)"
  by (simp add: unlimited_def cdsl_vm_strdup_def cdsl_vm_track_alloc_def split: option.split)

lemma eval_id_unlimited:
  "unlimited vm \<Longrightarrow> eval_id ctx x vm = (case context_value ctx x of None \<Rightarrow> void0 | Some v \<Rightarrow> v, vm)"
  by (simp add: eval_id_def context_value_def split: option.split cdsl_value.split)

lemma valop_raise_error [simp]: "vm_error_state (valop_raise vm l st)"
  by (simp add: valop_raise_def vm_raise_def)

lemma finish_op_outcome:
  "finish_op l r vm = (case outcome_of r of Inr v \<Rightarrow> (v, vm) | Inl st \<Rightarrow> (void0, valop_raise vm l st))"
  by (simp add: finish_op_def outcome_of_def valop_raise_def split: prod.split)

definition run_outcome :: "cdsl_vm \<Rightarrow> loc \<Rightarrow> outcome \<Rightarrow> cdsl_value \<times> cdsl_vm" where
  "run_outcome vm l r = (case r of Inr v \<Rightarrow> (v, vm) | Inl st \<Rightarrow> (void0, valop_raise vm l st))"

lemma eval_unlimited:
  "unlimited vm \<Longrightarrow> depth < vm_max_expr_depth vm \<Longrightarrow>
     cdsl_eval_expr_internal env ctx e depth vm = eval_node env ctx e depth vm"
  by (simp add: eval_unfold)

lemma height_pos: "0 < height e"
  by (cases e) auto

lemma eval_den:
  assumes "scalar_expr e" and "unlimited vm" and "\<not> vm_error_state vm"
    and "depth + int (height e) \<le> vm_max_expr_depth vm"
  shows "\<exists>l. cdsl_eval_expr_internal env ctx e depth vm = run_outcome vm l (den env (context_value ctx) e)"
proof -
  have d: "depth < vm_max_expr_depth vm" using assms(4) height_pos [of e] by linarith
  have "\<exists>l. eval_node env ctx e depth vm = run_outcome vm l (den env (context_value ctx) e)"
    using assms(1,4)
  proof (induction e arbitrary: depth)
    case (CDSL_EXPR_UNARY l op e)
    then have "depth + 1 < vm_max_expr_depth vm" using height_pos [of e] by simp
    then obtain l' where 1: "cdsl_eval_expr_internal env ctx e (depth + 1) vm =
        run_outcome vm l' (den env (context_value ctx) e)"
      using CDSL_EXPR_UNARY.IH [of "depth + 1"] CDSL_EXPR_UNARY.prems eval_unlimited [OF assms(2)] by auto
    show ?case
    proof (cases "den env (context_value ctx) e")
      case (Inl st)
      then show ?thesis by (intro exI [of _ l']) (simp add: 1 run_outcome_def)
    next
      case (Inr v)
      then show ?thesis using assms(3)
        by (intro exI [of _ l]) (simp add: 1 run_outcome_def finish_op_outcome)
    qed
  next
    case (CDSL_EXPR_BINARY l op a b)
    then have da: "depth + 1 + int (height a) \<le> vm_max_expr_depth vm"
      and db: "depth + 1 + int (height b) \<le> vm_max_expr_depth vm"
      and sa: "scalar_expr a" and sb: "scalar_expr b" by auto
    have d: "depth + 1 < vm_max_expr_depth vm" using da height_pos [of a] by linarith
    obtain l1 where 1: "cdsl_eval_expr_internal env ctx a (depth + 1) vm =
        run_outcome vm l1 (den env (context_value ctx) a)"
      using CDSL_EXPR_BINARY.IH(1) [OF sa da] unfolding eval_unlimited [OF assms(2) d] by blast
    obtain l2 where 2: "cdsl_eval_expr_internal env ctx b (depth + 1) vm =
        run_outcome vm l2 (den env (context_value ctx) b)"
      using CDSL_EXPR_BINARY.IH(2) [OF sb db] unfolding eval_unlimited [OF assms(2) d] by blast
    show ?case
    proof (cases "den env (context_value ctx) a")
      case (Inl st)
      then show ?thesis by (intro exI [of _ l1]) (simp add: 1 run_outcome_def)
    next
      case a: (Inr x)
      show ?thesis
      proof (cases "den env (context_value ctx) b")
        case (Inl st)
        with a show ?thesis using assms(3)
          by (intro exI [of _ l2]) (auto simp: 1 2 run_outcome_def)
      next
        case (Inr v)
        with a show ?thesis using assms(3)
          by (intro exI [of _ l]) (auto simp: 1 2 run_outcome_def finish_op_outcome)
      qed
    qed
  qed (use assms(2) in \<open>auto simp: run_outcome_def eval_id_unlimited\<close>)
  then show ?thesis by (simp add: eval_unlimited [OF assms(2) d])
qed

text \<open>
  Claim C2. On an unlimited VM without an error, the tree walker computes the reference semantics of
  an expression of literals, variables and operators whose height fits the depth bound: the
  value, with the VM unchanged, or the error of the first operation that failed.
\<close>

theorem tree_walker_computes_den:
  assumes "scalar_expr e" and "unlimited vm" and "\<not> vm_error_state vm"
    and "depth + int (height e) \<le> vm_max_expr_depth vm"
  shows "\<exists>l. cdsl_eval_expr_internal env ctx e depth vm = run_outcome vm l (den env (context_value ctx) e)"
  using assms by (rule eval_den)

lemma tree_walker_computes_den_witness:
  "\<exists>l. cdsl_eval_expr_internal env_plain (cdsl_context_create None)
     (CDSL_EXPR_BINARY (1, 2) CDSL_OP_DIV (CDSL_EXPR_INT (1, 1) 7)
        (CDSL_EXPR_BINARY (1, 4) CDSL_OP_SUB (CDSL_EXPR_INT (1, 3) 2) (CDSL_EXPR_INT (1, 5) 2)))
     0 cdsl_vm_create = (void0, valop_raise cdsl_vm_create l CDSL_VALOP_DIV_ZERO)"
  using tree_walker_computes_den [of "CDSL_EXPR_BINARY (1, 2) CDSL_OP_DIV (CDSL_EXPR_INT (1, 1) 7)
        (CDSL_EXPR_BINARY (1, 4) CDSL_OP_SUB (CDSL_EXPR_INT (1, 3) 2) (CDSL_EXPR_INT (1, 5) 2))"
      cdsl_vm_create 0 env_plain "cdsl_context_create None"]
  by (simp add: unlimited_def vm_create_fields outcome_of_def run_outcome_def
      cdsl_value_binop_def binop_numeric_def binop_int_def Let_def)

subsection \<open>Type soundness\<close>

text \<open>The variables that are set hold a value of their registered type, and none holds an array.\<close>

definition well_typed :: "cdsl_schema \<Rightarrow> (string \<Rightarrow> cdsl_value option) \<Rightarrow> string list \<Rightarrow> bool" where
  "well_typed s \<sigma> xs = list_all (\<lambda>x. case \<sigma> x of None \<Rightarrow> True
     | Some v \<Rightarrow> vtype v \<noteq> CDSL_TYPE_ARRAY
         \<and> (case find_var s x of None \<Rightarrow> True | Some d \<Rightarrow> vtype v = vs_type d)) xs"

text \<open>The two faults a checked expression can still have.\<close>

definition arithmetic_fault :: "cdsl_valop_status \<Rightarrow> bool" where
  "arithmetic_fault st \<longleftrightarrow> st = CDSL_VALOP_DIV_ZERO \<or> st = CDSL_VALOP_OVERFLOW"

fun has_type :: "outcome \<Rightarrow> cdsl_type \<Rightarrow> bool" where
  "has_type (Inl st) t = arithmetic_fault st"
| "has_type (Inr v) t = (vtype v = t)"

lemma has_type_ok [simp]:
  "has_type (outcome_of (CDSL_VALOP_OK, v)) t \<longleftrightarrow> vtype v = t"
  "has_type (outcome_of (valop_fail CDSL_VALOP_DIV_ZERO)) t"
  "has_type (outcome_of (valop_fail CDSL_VALOP_OVERFLOW)) t"
  "has_type (outcome_of (bool_ok b)) t \<longleftrightarrow> t = CDSL_TYPE_BOOL"
  by (auto simp: outcome_of_def arithmetic_fault_def bool_ok_def)

text \<open>A value of the type, or VOID when some variable (not \<open>A\<close>) is unset.\<close>

fun may_have_type :: "bool \<Rightarrow> outcome \<Rightarrow> cdsl_type \<Rightarrow> bool" where
  "may_have_type A (Inl st) t = arithmetic_fault st"
| "may_have_type A (Inr v) t =
     (vtype v \<noteq> CDSL_TYPE_ARRAY \<and> (vtype v = t \<or> (vtype v = CDSL_TYPE_VOID \<and> \<not> A)))"

lemma may_have_type_weaken: "has_type r t \<Longrightarrow> t \<noteq> CDSL_TYPE_ARRAY \<Longrightarrow> may_have_type A r t"
  by (cases r) auto

lemma vtype_cases:
  "vtype v = CDSL_TYPE_VOID \<longleftrightarrow> (\<exists>r. v = VVoid r)"
  "vtype v = CDSL_TYPE_INT \<longleftrightarrow> (\<exists>r. v = VInt r)"
  "vtype v = CDSL_TYPE_FLOAT \<longleftrightarrow> (\<exists>r. v = VFloat r)"
  "vtype v = CDSL_TYPE_BOOL \<longleftrightarrow> (\<exists>r. v = VBool r)"
  "vtype v = CDSL_TYPE_STRING \<longleftrightarrow> (\<exists>r. v = VString r)"
  "vtype v = CDSL_TYPE_DATE \<longleftrightarrow> (\<exists>r. v = VDate r)"
  "vtype v = CDSL_TYPE_LONG \<longleftrightarrow> (\<exists>r. v = VLong r)"
  "vtype v = CDSL_TYPE_ARRAY \<longleftrightarrow> (\<exists>r. v = VArray r)"
  by (cases v; simp)+

lemma binop_int_typed:
  "cdsl_op_is_arithmetic op \<Longrightarrow> has_type (outcome_of (binop_int op i j)) CDSL_TYPE_INT"
  "cdsl_op_is_relational op \<Longrightarrow> \<not> cdsl_op_is_arithmetic op \<Longrightarrow> has_type (outcome_of (binop_int op i j)) CDSL_TYPE_BOOL"
  by (auto simp: binop_int_def Let_def)

lemma binop_long_typed:
  "cdsl_op_is_arithmetic op \<Longrightarrow> has_type (outcome_of (binop_long op i j)) CDSL_TYPE_LONG"
  "cdsl_op_is_relational op \<Longrightarrow> \<not> cdsl_op_is_arithmetic op \<Longrightarrow> has_type (outcome_of (binop_long op i j)) CDSL_TYPE_BOOL"
  by (auto simp: binop_long_def long_arith_def Let_def split: sum.split option.splits if_splits)

lemma binop_float_typed:
  "cdsl_op_is_arithmetic op \<Longrightarrow> has_type (outcome_of (binop_float op i j)) CDSL_TYPE_FLOAT"
  "cdsl_op_is_relational op \<Longrightarrow> \<not> cdsl_op_is_arithmetic op \<Longrightarrow> has_type (outcome_of (binop_float op i j)) CDSL_TYPE_BOOL"
  by (auto simp: binop_float_def)

lemma date_result_typed: "has_type (outcome_of (date_result sub b d)) CDSL_TYPE_DATE"
  by (auto simp: date_result_def split: option.split)

lemma date_offset_typed:
  "numeric_or_date_step (vtype v) \<Longrightarrow> has_type (outcome_of (eval_date_offset b v sub)) CDSL_TYPE_DATE"
  by (cases v) (auto simp: Let_def date_result_typed split: option.split)

lemma binop_numeric_typed:
  assumes "is_numeric_type (vtype x)" "is_numeric_type (vtype y)"
  shows "cdsl_op_is_arithmetic op \<Longrightarrow> has_type (outcome_of (binop_numeric op x y))
     (if vtype x = CDSL_TYPE_FLOAT \<or> vtype y = CDSL_TYPE_FLOAT then CDSL_TYPE_FLOAT
      else if vtype x = CDSL_TYPE_LONG \<or> vtype y = CDSL_TYPE_LONG then CDSL_TYPE_LONG
            else CDSL_TYPE_INT)"
  "cdsl_op_is_relational op \<Longrightarrow> \<not> cdsl_op_is_arithmetic op \<Longrightarrow> has_type (outcome_of (binop_numeric op x y)) CDSL_TYPE_BOOL"
  using assms
  by (auto simp: binop_numeric_def vtype_cases binop_int_typed binop_long_typed binop_float_typed)

lemma fst_type_err [simp]: "fst (type_err m l errs) = CDSL_TYPE_VOID"
  by (simp add: type_err_def)

lemma binop_date_typed:
  "has_type (outcome_of (binop_dates CDSL_OP_SUB a b)) CDSL_TYPE_INT"
  "cdsl_op_is_relational op \<Longrightarrow> op \<noteq> CDSL_OP_SUB \<Longrightarrow> has_type (outcome_of (binop_dates op a b)) CDSL_TYPE_BOOL"
  by (auto simp: binop_dates_def Let_def)

lemma fst_arith_type:
  "fst (arith_type op lt rt l errs) =
     (if lt = CDSL_TYPE_DATE \<and> rt = CDSL_TYPE_DATE \<and> op = CDSL_OP_SUB then CDSL_TYPE_INT
      else if lt = CDSL_TYPE_DATE \<and> is_numeric_type rt \<and> (op = CDSL_OP_ADD \<or> op = CDSL_OP_SUB)
      then CDSL_TYPE_DATE
      else if is_numeric_type lt \<and> rt = CDSL_TYPE_DATE \<and> op = CDSL_OP_ADD then CDSL_TYPE_DATE
      else if is_numeric_type lt \<and> is_numeric_type rt then
        (if lt = CDSL_TYPE_FLOAT \<or> rt = CDSL_TYPE_FLOAT then CDSL_TYPE_FLOAT
         else if lt = CDSL_TYPE_LONG \<or> rt = CDSL_TYPE_LONG then CDSL_TYPE_LONG else CDSL_TYPE_INT)
      else CDSL_TYPE_VOID)"
  unfolding arith_type_def by (cases lt; cases rt) simp_all

lemma binop_date_number:
  assumes "is_numeric_type (vtype y)"
  shows "op = CDSL_OP_ADD \<or> op = CDSL_OP_SUB \<Longrightarrow>
      cdsl_value_binop op (VDate t) y = eval_date_offset t y (op = CDSL_OP_SUB)"
    and "cdsl_value_binop CDSL_OP_ADD y (VDate t) = eval_date_offset t y False"
  using assms
  by (cases y; auto simp: cdsl_value_binop_def binop_with_date_def simp del: eval_date_offset.simps)+

lemma binop_numbers:
  assumes "is_numeric_type (vtype x)" and "is_numeric_type (vtype y)"
  shows "cdsl_value_binop op x y = (if op = CDSL_OP_DIV \<and> is_zero_divisor y
        then valop_fail CDSL_VALOP_DIV_ZERO else binop_numeric op x y)"
  using assms by (cases x; cases y) (simp_all add: cdsl_value_binop_def)

lemma binop_arith_typed:
  assumes "cdsl_op_is_arithmetic op" "fst (arith_type op (vtype x) (vtype y) l errs) = t" "t \<noteq> CDSL_TYPE_VOID"
  shows "has_type (outcome_of (cdsl_value_binop op x y)) t"
proof -
  consider (dd) "vtype x = CDSL_TYPE_DATE" "vtype y = CDSL_TYPE_DATE" "op = CDSL_OP_SUB" "t = CDSL_TYPE_INT"
    | (dn) "vtype x = CDSL_TYPE_DATE" "is_numeric_type (vtype y)" "op = CDSL_OP_ADD \<or> op = CDSL_OP_SUB"
        "t = CDSL_TYPE_DATE"
    | (nd) "is_numeric_type (vtype x)" "vtype y = CDSL_TYPE_DATE" "op = CDSL_OP_ADD" "t = CDSL_TYPE_DATE"
    | (nn) "is_numeric_type (vtype x)" "is_numeric_type (vtype y)"
    using assms(2,3) unfolding fst_arith_type
    by (simp del: is_numeric_type.simps split: if_split_asm)
  then show ?thesis
  proof cases
    case dd
    then obtain a b where "x = VDate a" "y = VDate b" unfolding vtype_cases by blast
    with dd show ?thesis by (simp add: cdsl_value_binop_def binop_with_date_def binop_date_typed)
  next
    case dn
    then obtain a where "x = VDate a" unfolding vtype_cases by blast
    with dn show ?thesis using date_offset_typed [of y] by (simp add: binop_date_number)
  next
    case nd
    then obtain a where "y = VDate a" unfolding vtype_cases by blast
    with nd show ?thesis using date_offset_typed [of x] by (simp add: binop_date_number)
  next
    case nn
    then show ?thesis
      using binop_numeric_typed(1) [OF nn assms(1)] assms(2) unfolding binop_numbers [OF nn] fst_arith_type
      by auto
  qed
qed

lemma binop_compare_typed:
  assumes "cdsl_op_is_relational op" and "fst (compare_type op (vtype x) (vtype y) l errs) = t"
    and "t \<noteq> CDSL_TYPE_VOID" and "vtype x \<noteq> CDSL_TYPE_ARRAY" "vtype x \<noteq> CDSL_TYPE_VOID"
  shows "t = CDSL_TYPE_BOOL \<and> has_type (outcome_of (cdsl_value_binop op x y)) t"
proof -
  have op: "\<not> cdsl_op_is_arithmetic op" using assms(1) by auto
  have t: "t = CDSL_TYPE_BOOL" using assms(2,3) by (auto simp: compare_type_def split: if_splits)
  have "fst (compare_type op (vtype x) (vtype y) l errs) \<noteq> CDSL_TYPE_VOID" using assms by simp
  then consider (n) "is_numeric_type (vtype x)" "is_numeric_type (vtype y)"
    | (s) "vtype x = CDSL_TYPE_STRING" "vtype y = CDSL_TYPE_STRING" "op = CDSL_OP_EQ \<or> op = CDSL_OP_NE"
    | (b) "vtype x = CDSL_TYPE_BOOL" "vtype y = CDSL_TYPE_BOOL"
    | (d) "vtype x = CDSL_TYPE_DATE" "vtype y = CDSL_TYPE_DATE"
    using assms(4,5) unfolding compare_type_def
    by (cases "vtype x"; cases "vtype y") (simp_all split: if_split_asm)
  then show ?thesis
  proof cases
    case n
    then show ?thesis using t binop_numeric_typed(2) [OF n assms(1) op] assms(1)
      unfolding binop_numbers [OF n] by auto
  next
    case s
    then obtain a b where "x = VString a" "y = VString b" unfolding vtype_cases by blast
    with s t show ?thesis by (auto simp: cdsl_value_binop_def binop_string_def)
  next
    case b
    then obtain c d where "x = VBool c" "y = VBool d" unfolding vtype_cases by blast
    with t assms(1) show ?thesis by (auto simp: cdsl_value_binop_def binop_bool_def)
  next
    case d
    then obtain a b where "x = VDate a" "y = VDate b" unfolding vtype_cases by blast
    with t assms(1) op show ?thesis
      by (auto simp: cdsl_value_binop_def binop_with_date_def binop_date_typed)
  qed
qed

lemma unop_typed:
  assumes "fst (unary_type op (vtype v) l errs) = t" and "t \<noteq> CDSL_TYPE_VOID" and "cdsl_op_is_unary op"
    and "vtype v \<noteq> CDSL_TYPE_VOID"
  shows "has_type (outcome_of (cdsl_value_unop op v)) t"
  using assms by (cases v) (auto simp: unary_type_def cdsl_value_unop_def split: if_splits)


lemma binop_may_type:
  assumes "\<not> cdsl_op_is_unary op" "\<not> cdsl_op_is_logical_binary op"
    and "fst (binary_type op lt rt l errs) = t" "t \<noteq> CDSL_TYPE_VOID"
    and "vtype x = lt \<or> vtype x = CDSL_TYPE_VOID \<and> \<not> A"
    and "vtype y = rt \<or> vtype y = CDSL_TYPE_VOID \<and> \<not> B"
    and "vtype x \<noteq> CDSL_TYPE_ARRAY"
  shows "may_have_type (A \<and> B) (outcome_of (cdsl_value_binop op x y)) t"
proof -
  have nv: "lt \<noteq> CDSL_TYPE_VOID" "rt \<noteq> CDSL_TYPE_VOID"
    using assms(3,4) by (auto simp: binary_type_def split: if_splits)
  have op: "cdsl_op_is_arithmetic op \<or> cdsl_op_is_relational op"
    using assms(1,2) by (cases op) auto
  have na: "t \<noteq> CDSL_TYPE_ARRAY"
    using assms(3) fst_arith_type [of op lt rt l errs]
    by (auto simp: binary_type_def compare_type_def split: if_splits)
  show ?thesis
  proof (cases "vtype x = CDSL_TYPE_VOID \<or> vtype y = CDSL_TYPE_VOID")
    case True
    then have "\<not> (A \<and> B)" using assms(5,6) nv by auto
    moreover have "t = CDSL_TYPE_BOOL" if "cdsl_op_is_relational op"
      using that assms(2-4) nv
      by (auto simp: binary_type_def compare_type_def split: if_splits)
    ultimately show ?thesis using True
      by (auto simp: cdsl_value_binop_def outcome_of_def arithmetic_fault_def)
  next
    case False
    then have xy: "vtype x = lt" "vtype y = rt" using assms(5,6) by auto
    show ?thesis
    proof (cases "cdsl_op_is_arithmetic op")
      case True
      then have "fst (arith_type op (vtype x) (vtype y) l errs) = t"
        using assms(2,3) nv xy unfolding binary_type_def by simp
      from binop_arith_typed [OF True this assms(4)] na show ?thesis by (rule may_have_type_weaken)
    next
      case False
      then have "fst (compare_type op (vtype x) (vtype y) l errs) = t"
        using assms(2,3) nv xy unfolding binary_type_def by simp
      then show ?thesis
        using binop_compare_typed [of op x y l errs t] op False assms(4,7) nv xy na
        by (blast intro: may_have_type_weaken)
    qed
  qed
qed

lemma den_may_type:
  assumes "scalar_expr e" and "well_typed s \<sigma> (vars e)"
    and "fst (resolve_expr_type s e errs) = t" and "t \<noteq> CDSL_TYPE_VOID"
  shows "may_have_type (\<forall>x \<in> set (vars e). \<sigma> x \<noteq> None) (den env \<sigma> e) t"
  using assms
proof (induction e arbitrary: errs t)
  case (CDSL_EXPR_ID l x)
  then show ?case by (auto simp: well_typed_def split: option.splits)
next
  case (CDSL_EXPR_UNARY l op e)
  obtain t1 errs1 where 1: "resolve_expr_type s e errs = (t1, errs1)" by force
  with CDSL_EXPR_UNARY have t1: "t1 \<noteq> CDSL_TYPE_VOID" "fst (unary_type op t1 l errs1) = t"
    by (auto split: if_splits)
  have na: "t \<noteq> CDSL_TYPE_ARRAY"
    using t1 CDSL_EXPR_UNARY.prems(1) by (auto simp: unary_type_def split: if_splits)
  let ?A = "\<forall>x \<in> set (vars e). \<sigma> x \<noteq> None"
  have IH: "may_have_type ?A (den env \<sigma> e) t1"
    using CDSL_EXPR_UNARY.IH [of errs t1] CDSL_EXPR_UNARY.prems(1,2) t1(1) by (simp add: 1)
  show ?case
  proof (cases "den env \<sigma> e")
    case (Inr v)
    show ?thesis
    proof (cases "vtype v = CDSL_TYPE_VOID")
      case True
      then show ?thesis using IH Inr t1 CDSL_EXPR_UNARY.prems(1,4)
        by (auto simp: cdsl_value_unop_def outcome_of_def unary_type_def split: if_splits)
    next
      case False
      then have "vtype v = t1" using IH Inr by simp
      then have "has_type (outcome_of (cdsl_value_unop op v)) t"
        using unop_typed [of op v l errs1 t] t1 CDSL_EXPR_UNARY.prems by simp
      then show ?thesis using na by (simp add: Inr may_have_type_weaken)
    qed
  qed (use IH in simp)
next
  case (CDSL_EXPR_BINARY l op a b)
  obtain lt errs1 where 1: "resolve_expr_type s a errs = (lt, errs1)" by force
  obtain rt errs2 where 2: "resolve_expr_type s b errs1 = (rt, errs2)" by force
  have t: "fst (binary_type op lt rt l errs2) = t" using CDSL_EXPR_BINARY.prems(3) by (simp add: 1 2)
  then have nv: "lt \<noteq> CDSL_TYPE_VOID" "rt \<noteq> CDSL_TYPE_VOID"
    using CDSL_EXPR_BINARY.prems(4) by (auto simp: binary_type_def split: if_splits)
  let ?A = "\<forall>x \<in> set (vars a). \<sigma> x \<noteq> None" and ?B = "\<forall>x \<in> set (vars b). \<sigma> x \<noteq> None"
  have AB: "(\<forall>x \<in> set (vars (CDSL_EXPR_BINARY l op a b)). \<sigma> x \<noteq> None) \<longleftrightarrow> ?A \<and> ?B" by auto
  have IHa: "may_have_type ?A (den env \<sigma> a) lt"
    using CDSL_EXPR_BINARY.IH(1) [of errs lt] CDSL_EXPR_BINARY.prems(1,2) nv by (simp add: 1 well_typed_def)
  have IHb: "may_have_type ?B (den env \<sigma> b) rt"
    using CDSL_EXPR_BINARY.IH(2) [of errs1 rt] CDSL_EXPR_BINARY.prems(1,2) nv by (simp add: 2 well_typed_def)
  have logical: "t = CDSL_TYPE_BOOL" if "cdsl_op_is_logical_binary op"
    using t CDSL_EXPR_BINARY.prems(4) nv that by (auto simp: binary_type_def split: if_splits)
  show ?case
  proof (cases "den env \<sigma> a")
    case a: (Inr x)
    show ?thesis
    proof (cases "den env \<sigma> b")
      case (Inl st)
      then show ?thesis using IHb logical by (auto simp: a)
    next
      case b: (Inr y)
      show ?thesis
      proof (cases "cdsl_op_is_logical_binary op")
        case True
        then show ?thesis using logical by (auto simp: a b)
      next
        case False
        have "may_have_type (?A \<and> ?B) (outcome_of (cdsl_value_binop op x y)) t"
          using IHa IHb a b CDSL_EXPR_BINARY.prems(1,4) t False
          by (intro binop_may_type [of op lt rt l errs2]) auto
        then show ?thesis using False unfolding AB by (simp add: a b)
      qed
    qed
  qed (use IHa in simp)
qed auto



end
