(* ===== verification/Cdsl_Bytecode_Correct.thy ===== *)
theory Cdsl_Bytecode_Correct
  imports Cdsl_Bytecode_Total Cdsl_Semantics "HOL-Library.Sublist"
begin

section \<open>The compiler is correct for expressions\<close>

text \<open>
  The code \<open>compile_expr\<close> emits computes the reference semantics \<open>den\<close>: \<open>bc_moves\<close> is one turn of
  the machine as a step relation, \<open>delivers\<close> what a run of an expression's code does, and
  \<open>correct\<close> relates an expression to the code appended for it, in any chunk that has it in place.
\<close>


subsection \<open>Constant folding\<close>

text \<open>Operators give scalars, and booleans in canonical form.\<close>

definition plain_result :: "valop \<Rightarrow> bool" where
  "plain_result r \<longleftrightarrow> (fst r = CDSL_VALOP_OK \<longrightarrow> vtype (snd r) \<notin> {CDSL_TYPE_VOID, CDSL_TYPE_ARRAY})
     \<and> (\<forall>c. snd r = VBool c \<longrightarrow> c = 0 \<or> c = 1)"

lemma plain_intros [simp]:
  "st \<noteq> CDSL_VALOP_OK \<Longrightarrow> plain_result (st, void0)" "plain_result (bool_ok b)" "plain_result (st, VInt i)" "plain_result (st, VLong l)"
  "plain_result (st, VFloat f)" "plain_result (st, VDate d)"
  "plain_result (st, VBool 0)" "plain_result (st, VBool 1)"
  by (simp_all add: plain_result_def bool_ok_def c_bool_def)

lemma plain_int: "plain_result (binop_int op i j)"
  by (simp add: binop_int_def Let_def)

lemma long_arith_fails: "long_arith op i j \<noteq> Inr CDSL_VALOP_OK"
  by (simp add: long_arith_def Let_def split: option.split)

lemma plain_long: "plain_result (binop_long op i j)"
  using long_arith_fails [of op i j] by (cases "long_arith op i j") (auto simp: binop_long_def Let_def)

lemma plain_float: "plain_result (binop_float op i j)"
  by (simp add: binop_float_def)

lemma plain_date: "plain_result (eval_date_offset d v sub)"
  by (cases v) (auto simp: date_result_def Let_def split: option.split)

lemma plain_binop: "plain_result (cdsl_value_binop op x y)"
proof -
  have "plain_result (binop_with_date op x y)"
    using plain_date by (auto simp: binop_with_date_def binop_dates_def Let_def
        simp del: eval_date_offset.simps split: cdsl_value.split)
  moreover have "plain_result (binop_numeric op x y)"
    using plain_int plain_long plain_float by (auto simp: binop_numeric_def split: cdsl_value.split)
  moreover have "plain_result (binop_string op a b)" "plain_result (binop_bool op c d)" for a b c d
    by (simp_all add: binop_string_def binop_bool_def)
  ultimately show ?thesis
    unfolding cdsl_value_binop_def by (simp del: relational_iff split: cdsl_value.split)
qed

lemma plain_unop: "plain_result (cdsl_value_unop op v)"
  unfolding cdsl_value_unop_def by (simp split: cdsl_value.split)

lemma ok_value_outcome: "ok_value r = Some v \<Longrightarrow> outcome_of r = Inr v"
  by (auto simp: ok_value_def outcome_of_def split: prod.splits if_splits)

lemma ok_value_scalar: "ok_value r = Some v \<Longrightarrow> plain_result r \<Longrightarrow> vtype v \<notin> {CDSL_TYPE_VOID, CDSL_TYPE_ARRAY}"
  by (auto simp: ok_value_def plain_result_def split: prod.splits if_splits)

lemma fold_const_den: "fold_const_expr e = Some v \<Longrightarrow>
    den env \<sigma> e = Inr v \<and> vtype v \<notin> {CDSL_TYPE_VOID, CDSL_TYPE_ARRAY}"
proof (induction e arbitrary: v)
  case (CDSL_EXPR_UNARY l op e)
  then obtain w where w: "fold_const_expr e = Some w" "ok_value (cdsl_value_unop op w) = Some v"
    by (auto split: option.splits)
  with CDSL_EXPR_UNARY.IH [OF w(1)] show ?case
    using ok_value_outcome [OF w(2)] ok_value_scalar [OF w(2) plain_unop] by simp
next
  case (CDSL_EXPR_BINARY l op a b)
  then obtain x y where w: "fold_const_expr a = Some x" "fold_const_expr b = Some y"
      "op \<noteq> CDSL_OP_AND" "op \<noteq> CDSL_OP_OR" "ok_value (cdsl_value_binop op x y) = Some v"
    by (auto split: option.splits if_splits)
  with CDSL_EXPR_BINARY.IH(1) [OF w(1)] CDSL_EXPR_BINARY.IH(2) [OF w(2)] show ?case
    using ok_value_outcome [OF w(5)] ok_value_scalar [OF w(5) plain_binop] by simp
qed auto

subsection \<open>Runs of the machine\<close>

inductive bc_moves ::
  "cdsl_env \<Rightarrow> cdsl_context \<Rightarrow> cdsl_bytecode \<Rightarrow> bool \<Rightarrow> f64 \<Rightarrow> bc_state \<Rightarrow> bc_state \<Rightarrow> bool"
  for env ctx bc handler t0
where
  move: "bc_step env ctx bc handler t0 s = Next s' \<Longrightarrow> bc_moves env ctx bc handler t0 s s'"

inductive_simps bc_moves_iff: "bc_moves env ctx bc handler t0 s s'"

definition halts ::
  "cdsl_env \<Rightarrow> cdsl_context \<Rightarrow> cdsl_bytecode \<Rightarrow> bool \<Rightarrow> f64 \<Rightarrow> bc_state \<Rightarrow> bc_state \<Rightarrow> bool" where
  "halts env ctx bc handler t0 s s' \<longleftrightarrow>
     (\<exists>s1. (bc_moves env ctx bc handler t0)\<^sup>*\<^sup>* s s1 \<and> bc_step env ctx bc handler t0 s1 = Done s')"

lemma halts_run:
  assumes "halts env ctx bc handler t0 s s'" and "bc_run env ctx bc handler t0 n s \<noteq> None"
  shows "bc_run env ctx bc handler t0 n s = Some s'"
proof -
  obtain s1 where "(bc_moves env ctx bc handler t0)\<^sup>*\<^sup>* s s1" and d: "bc_step env ctx bc handler t0 s1 = Done s'"
    using assms(1) by (auto simp: halts_def)
  then show ?thesis using assms(2)
  proof (induction arbitrary: n rule: converse_rtranclp_induct)
    case base
    then show ?case by (cases n) auto
  next
    case (step y z)
    then show ?case by (cases n) (auto simp: bc_moves_iff)
  qed
qed

lemma moves_halts:
  "(bc_moves env ctx bc handler t0)\<^sup>*\<^sup>* s s1 \<Longrightarrow> halts env ctx bc handler t0 s1 s' \<Longrightarrow> halts env ctx bc handler t0 s s'"
  unfolding halts_def by (meson rtranclp_trans)

text \<open>The part of a machine state that evaluation depends on.\<close>

definition config ::
  "cdsl_vm \<Rightarrow> cdsl_metric_result list \<Rightarrow> cdsl_value list \<Rightarrow> nat \<Rightarrow> bc_state \<Rightarrow> bool" where
  "config vm ms stk p s \<longleftrightarrow> bs_vm s = vm \<and> bs_metrics s = ms \<and> bs_stack s = stk \<and> bs_ip s = int p"

text \<open>What running the code of an expression does: push its value, or stop with its error.\<close>

definition delivers ::
  "cdsl_env \<Rightarrow> cdsl_context \<Rightarrow> cdsl_bytecode \<Rightarrow> bool \<Rightarrow> f64 \<Rightarrow> cdsl_vm \<Rightarrow> cdsl_metric_result list
   \<Rightarrow> cdsl_value list \<Rightarrow> nat \<Rightarrow> outcome \<Rightarrow> bc_state \<Rightarrow> bool" where
  "delivers env ctx bc handler t0 vm ms stk p r s =
     (case r of
        Inr v \<Rightarrow> \<exists>s'. (bc_moves env ctx bc handler t0)\<^sup>*\<^sup>* s s' \<and> config vm ms (v # stk) p s'
      | Inl st \<Rightarrow> \<exists>s'. halts env ctx bc handler t0 s s' \<and> bs_vm s' = valop_raise vm (0, 0) st \<and> bs_metrics s' = ms)"

fun code_at :: "bc_inst list \<Rightarrow> nat \<Rightarrow> bc_inst list \<Rightarrow> bool" where
  "code_at code p [] = True"
| "code_at code p (i # is) = (p < length code \<and> code ! p = i \<and> code_at code (p + 1) is)"

lemma code_at_append: "code_at code p (is @ js) = (code_at code p is \<and> code_at code (p + length is) js)"
  by (induction "is" arbitrary: p) auto

lemma code_at_self: "code_at (pre @ is @ post) (length pre) is"
proof (induction "is" arbitrary: pre)
  case (Cons i "is")
  then show ?case using Cons.IH [of "pre @ [i]"] by (simp add: nth_append)
qed simp

lemma bc_check_quiet:
  assumes "unlimited vm" and "\<not> vm_error_state vm" and "config vm ms stk p s"
  obtains s1 where "bc_check env t0 s = (True, s1)" and "config vm ms stk p s1"
proof -
  have "cdsl_vm_check_abort env vm t0 = (False, vm)"
    using assms(1,2) by (simp add: cdsl_vm_check_abort_def unlimited_def)
  then have "bc_check env t0 s = (True, s\<lparr>bs_vm := vm, bs_loop := bs_loop s + 1\<rparr>)"
    using assms by (simp add: bc_check_def config_def)
  then show thesis by (rule that) (use assms(3) in \<open>simp add: config_def\<close>)
qed

lemma step_at:
  assumes "unlimited vm" and "\<not> vm_error_state vm" and "config vm ms stk p s" and "code_at (bc_code bc) p (i # is)"
  obtains s1 where "config vm ms stk p s1"
    and "bc_step env ctx bc handler t0 s = bc_exec env ctx bc handler i s1"
proof -
  obtain s1 where 1: "bc_check env t0 s = (True, s1)" "config vm ms stk p s1"
    using bc_check_quiet [OF assms(1-3)] by blast
  then have "bc_step env ctx bc handler t0 s = bc_exec env ctx bc handler i s1"
    using assms(3,4) by (simp add: bc_step_def config_def)
  with 1(2) show thesis by (rule that)
qed

lemma step_next:
  assumes "unlimited vm" and "\<not> vm_error_state vm" and "config vm ms stk p s" and "code_at (bc_code bc) p (i # is)"
    and "\<And>s1. config vm ms stk p s1 \<Longrightarrow> \<exists>s2. bc_exec env ctx bc handler i s1 = Next s2 \<and> config vm2 ms2 stk2 p2 s2"
  obtains s2 where "(bc_moves env ctx bc handler t0)\<^sup>*\<^sup>* s s2" and "config vm2 ms2 stk2 p2 s2"
proof -
  obtain s1 where 1: "config vm ms stk p s1" "bc_step env ctx bc handler t0 s = bc_exec env ctx bc handler i s1"
    using step_at [OF assms(1-4)] by blast
  then obtain s2 where "bc_step env ctx bc handler t0 s = Next s2" "config vm2 ms2 stk2 p2 s2"
    using assms(5) by force
  then show thesis by (intro that) (auto simp: bc_moves_iff)
qed

lemma step_done:
  assumes "unlimited vm" and "\<not> vm_error_state vm" and "config vm ms stk p s" and "code_at (bc_code bc) p (i # is)"
    and "\<And>s1. config vm ms stk p s1 \<Longrightarrow> \<exists>s2. bc_exec env ctx bc handler i s1 = Done s2 \<and> P s2"
  shows "\<exists>s2. halts env ctx bc handler t0 s s2 \<and> P s2"
proof -
  obtain s1 where 1: "config vm ms stk p s1" "bc_step env ctx bc handler t0 s = bc_exec env ctx bc handler i s1"
    using step_at [OF assms(1-4)] by blast
  then obtain s2 where "bc_step env ctx bc handler t0 s = Done s2" "P s2"
    using assms(5) by force
  then show ?thesis unfolding halts_def by blast
qed

subsection \<open>One instruction\<close>

lemma exec_push_next:
  "config vm ms stk p s \<Longrightarrow> length stk < CDSL_BYTECODE_MAX_STACK \<Longrightarrow>
     \<exists>s'. push_next env v s = Next s' \<and> config vm ms (v # stk) (p + 1) s'"
  by (auto simp: push_next_def config_def)

lemma exec_push_result:
  "config vm ms stk p s \<Longrightarrow> length stk < CDSL_BYTECODE_MAX_STACK \<Longrightarrow>
     \<exists>s'. push_result env v s = Next s' \<and> config vm ms (v # stk) (p + 1) s'"
  unfolding push_result_def by (rule exec_push_next) (auto simp: config_def)

lemma delivers_push:
  assumes "unlimited vm" and "\<not> vm_error_state vm" and "config vm ms stk p s" and "code_at (bc_code bc) p [i]"
    and "length stk < CDSL_BYTECODE_MAX_STACK"
    and "\<And>s. bc_exec env ctx bc handler i s = push_result env v s"
  shows "delivers env ctx bc handler t0 vm ms stk (p + 1) (Inr v) s"
proof -
  have "\<exists>s2. bc_exec env ctx bc handler i s1 = Next s2 \<and> config vm ms (v # stk) (p + 1) s2"
    if "config vm ms stk p s1" for s1
    unfolding assms(6) using that assms(5) by (rule exec_push_result)
  then obtain s2 where "(bc_moves env ctx bc handler t0)\<^sup>*\<^sup>* s s2" "config vm ms (v # stk) (p + 1) s2"
    by (rule step_next [OF assms(1-4)])
  then show ?thesis by (auto simp: delivers_def)
qed

lemma exec_push_var:
  assumes "unlimited vm" and "config vm ms stk p s" and "length stk < CDSL_BYTECODE_MAX_STACK"
  shows "\<exists>s'. bc_push_var env ctx (Some x) s = Next s'
     \<and> config vm ms ((case context_value ctx x of None \<Rightarrow> void0 | Some v \<Rightarrow> v) # stk) (p + 1) s'"
proof (cases "cdsl_context_get_entry_internal ctx x")
  case None
  then show ?thesis using exec_push_result [OF assms(2,3)] by (simp add: bc_push_var_def context_value_def)
next
  case (Some e)
  have "\<exists>s'. push_next env v (s\<lparr>bs_vm := vm\<rparr>) = Next s' \<and> config vm ms (v # stk) (p + 1) s'" for v
    by (rule exec_push_next) (use assms in \<open>auto simp: config_def\<close>)
  moreover have "s\<lparr>bs_vm := vm\<rparr> = s" using assms(2) by (simp add: config_def)
  ultimately show ?thesis using Some assms(1,2)
    by (auto simp: bc_push_var_def context_value_def config_def split: cdsl_value.split option.split)
qed

lemma exec_binary:
  assumes "\<not> vm_error_state vm" and "config vm ms (y # x # stk) p s" and "length stk < CDSL_BYTECODE_MAX_STACK"
  shows "case outcome_of (cdsl_value_binop op x y) of
     Inr v \<Rightarrow> \<exists>s'. bc_binary env op s = Next s' \<and> config vm ms (v # stk) (p + 1) s'
   | Inl st \<Rightarrow> \<exists>s'. bc_binary env op s = Done s' \<and> bs_vm s' = valop_raise vm (0, 0) st \<and> bs_metrics s' = ms"
proof -
  obtain s1 where 1: "pop s = (y, s1)" "config vm ms (x # stk) p s1"
    using assms(2) by (auto simp: pop_def config_def)
  obtain s2 where 2: "pop s1 = (x, s2)" "config vm ms stk p s2"
    using 1(2) by (auto simp: pop_def config_def)
  obtain st v where r: "cdsl_value_binop op x y = (st, v)" by force
  have e: "\<not> vm_error_state (bs_vm s2)" using 2(2) assms(1) by (simp add: config_def)
  show ?thesis
  proof (cases "st \<noteq> CDSL_VALOP_OK \<and> st \<noteq> CDSL_VALOP_VOID_OPERAND")
    case True
    then show ?thesis using 2(2) e
      by (simp add: bc_binary_def 1(1) 2(1) r outcome_of_def raise_if_clear_def valop_raise_def config_def)
  next
    case False
    then show ?thesis using exec_push_result [OF 2(2) assms(3), of env v] e
      by (auto simp add: bc_binary_def 1(1) 2(1) r outcome_of_def)
  qed
qed

lemma exec_unary:
  assumes "\<not> vm_error_state vm" and "config vm ms (x # stk) p s" and "length stk < CDSL_BYTECODE_MAX_STACK"
  shows "case outcome_of (cdsl_value_unop op x) of
     Inr v \<Rightarrow> \<exists>s'. bc_unary env op s = Next s' \<and> config vm ms (v # stk) (p + 1) s'
   | Inl st \<Rightarrow> \<exists>s'. bc_unary env op s = Done s' \<and> bs_vm s' = valop_raise vm (0, 0) st \<and> bs_metrics s' = ms"
proof -
  obtain s1 where 1: "pop s = (x, s1)" "config vm ms stk p s1"
    using assms(2) by (auto simp: pop_def config_def)
  obtain st v where r: "cdsl_value_unop op x = (st, v)" by force
  have e: "\<not> vm_error_state (bs_vm s1)" using 1(2) assms(1) by (simp add: config_def)
  show ?thesis
  proof (cases "st \<noteq> CDSL_VALOP_OK \<and> st \<noteq> CDSL_VALOP_VOID_OPERAND")
    case True
    then show ?thesis using 1(2) e
      by (simp add: bc_unary_def 1(1) r outcome_of_def raise_if_clear_def valop_raise_def config_def)
  next
    case False
    then show ?thesis using exec_push_result [OF 1(2) assms(3), of env v] e
      by (auto simp add: bc_unary_def 1(1) r outcome_of_def)
  qed
qed


subsection \<open>Which expressions\<close>

text \<open>
  A conditional jump pops its condition when it falls through, and the compiler emits a POP for it
  as well. The second one is harmless only on an otherwise empty stack: an AND or OR may stand
  where nothing waits below it (\<open>bc_safe\<close>), not inside the right operand of an operator.
\<close>

fun logic_free :: "cdsl_expr \<Rightarrow> bool" where
  "logic_free (CDSL_EXPR_UNARY _ op e) = logic_free e"
| "logic_free (CDSL_EXPR_BINARY _ op a b) = (\<not> cdsl_op_is_logical_binary op \<and> logic_free a \<and> logic_free b)"
| "logic_free _ = True"

fun bc_safe :: "cdsl_expr \<Rightarrow> bool" where
  "bc_safe (CDSL_EXPR_UNARY _ op e) = bc_safe e"
| "bc_safe (CDSL_EXPR_BINARY _ op a b) =
     (bc_safe a \<and> (if cdsl_op_is_logical_binary op then bc_safe b else logic_free b))"
| "bc_safe _ = True"

lemma logic_free_safe: "logic_free e \<Longrightarrow> bc_safe e"
  by (induction e) auto

text \<open>The operands of AND and OR are booleans in canonical form.\<close>

fun canonical :: "outcome \<Rightarrow> bool" where
  "canonical (Inl st) = True"
| "canonical (Inr v) = (v = VBool 0 \<or> v = VBool 1)"

fun bool_operands :: "cdsl_env \<Rightarrow> (string \<Rightarrow> cdsl_value option) \<Rightarrow> cdsl_expr \<Rightarrow> bool" where
  "bool_operands env \<sigma> (CDSL_EXPR_UNARY _ op e) = bool_operands env \<sigma> e"
| "bool_operands env \<sigma> (CDSL_EXPR_BINARY _ op a b) =
     (bool_operands env \<sigma> a \<and> bool_operands env \<sigma> b
      \<and> (cdsl_op_is_logical_binary op \<longrightarrow> canonical (den env \<sigma> a) \<and> canonical (den env \<sigma> b)))"
| "bool_operands env \<sigma> _ = True"

subsection \<open>The code of an expression computes its meaning\<close>

definition computes ::
  "cdsl_env \<Rightarrow> cdsl_context \<Rightarrow> cdsl_bytecode \<Rightarrow> nat \<Rightarrow> nat \<Rightarrow> nat \<Rightarrow> cdsl_expr \<Rightarrow> bool" where
  "computes env ctx bc p q n e \<longleftrightarrow> (\<forall>handler t0 vm ms stk s.
     unlimited vm \<longrightarrow> \<not> vm_error_state vm \<longrightarrow> config vm ms stk p s \<longrightarrow>
     length stk + n \<le> CDSL_BYTECODE_MAX_STACK \<longrightarrow> stk = [] \<or> logic_free e \<longrightarrow>
     delivers env ctx bc handler t0 vm ms stk q (den env (context_value ctx) e) s)"

text \<open>Appending code, extending the constants and raising the stack bound.\<close>

definition appends :: "cdsl_bytecode \<Rightarrow> cdsl_bytecode \<Rightarrow> bc_inst list \<Rightarrow> bool" where
  "appends bc0 bc1 is \<longleftrightarrow> (\<exists>cs m. bc1 = bc0\<lparr>bc_code := bc_code bc0 @ is,
     bc_constants := bc_constants bc0 @ cs, bc_max_stack := max m (bc_max_stack bc0)\<rparr>)"

definition correct ::
  "cdsl_env \<Rightarrow> cdsl_context \<Rightarrow> cdsl_expr \<Rightarrow> cdsl_bytecode \<Rightarrow> nat \<Rightarrow> cdsl_bytecode \<Rightarrow> bool" where
  "correct env ctx e bc0 n bc1 \<longleftrightarrow> 1 \<le> n \<and> (\<exists>is. appends bc0 bc1 is
     \<and> (\<forall>bc. code_at (bc_code bc) (length (bc_code bc0)) is \<longrightarrow> prefix (bc_constants bc1) (bc_constants bc) \<longrightarrow>
         computes env ctx bc (length (bc_code bc0)) (length (bc_code bc0) + length is) n e))"

lemma appends_trans: "appends bc0 bc1 is \<Longrightarrow> appends bc1 bc2 js \<Longrightarrow> appends bc0 bc2 (is @ js)"
proof -
  assume "appends bc0 bc1 is" "appends bc1 bc2 js"
  then obtain cs m ds k where "bc1 = bc0\<lparr>bc_code := bc_code bc0 @ is,
      bc_constants := bc_constants bc0 @ cs, bc_max_stack := max m (bc_max_stack bc0)\<rparr>"
    "bc2 = bc1\<lparr>bc_code := bc_code bc1 @ js,
      bc_constants := bc_constants bc1 @ ds, bc_max_stack := max k (bc_max_stack bc1)\<rparr>"
    by (auto simp: appends_def)
  then show ?thesis unfolding appends_def
    by (intro exI [of _ "cs @ ds"] exI [of _ "max k m"]) (simp add: max.assoc)
qed

lemma appends_code: "appends bc0 bc1 is \<Longrightarrow> bc_code bc1 = bc_code bc0 @ is"
  and appends_prefix: "appends bc0 bc1 is \<Longrightarrow> prefix (bc_constants bc0) (bc_constants bc1)"
  by (auto simp: appends_def)

lemma appends_emit [intro]: "appends bc (bc_emit bc i) [i]"
  by (auto simp: appends_def bc_emit_def intro!: exI [of _ "[]"] exI [of _ 0])

lemma appends_raise [intro]: "appends bc (raise_max bc n) []"
  by (auto simp: appends_def raise_max_def intro!: exI [of _ "[]"])

lemma appends_constant: "appends bc (snd (bc_add_constant bc v)) []"
proof -
  have "\<exists>cs. snd (bc_add_constant bc v) = bc\<lparr>bc_constants := bc_constants bc @ cs\<rparr>"
    by (cases "case v of VString s \<Rightarrow> find_string (bc_constants bc) s | _ \<Rightarrow> None")
      (auto simp: bc_add_constant_def intro: exI [of _ "[]"])
  then obtain cs where "snd (bc_add_constant bc v) = bc\<lparr>bc_constants := bc_constants bc @ cs\<rparr>" by blast
  then show ?thesis unfolding appends_def by (intro exI [of _ cs] exI [of _ 0]) simp
qed

lemma correct_raise: "correct env ctx e bc0 n bc1 \<Longrightarrow> correct env ctx e bc0 n (raise_max bc1 k)"
  unfolding correct_def
  by (metis append_Nil2 appends_raise appends_trans appends_prefix prefix_order.trans)

lemma find_string_sound: "find_string cs s = Some i \<Longrightarrow> i < length cs \<and> cs ! i = VString s"
  by (induction cs arbitrary: i) (auto split: if_splits)

lemma add_constant_at:
  assumes "bc_add_constant bc (VString s) = (i, bc1)" and "prefix (bc_constants bc1) (bc_constants bc2)"
  shows "const_string bc2 i = s"
proof -
  have "i < length (bc_constants bc1) \<and> bc_constants bc1 ! i = VString s"
    using assms(1) find_string_sound by (fastforce simp: bc_add_constant_def split: option.splits)
  then have "i < length (bc_constants bc2) \<and> bc_constants bc2 ! i = VString s"
    using assms(2) by (auto simp: prefix_def nth_append)
  then show ?thesis by (simp add: const_string_def)
qed

lemma computesI:
  assumes "\<And>handler t0 vm ms stk s. unlimited vm \<Longrightarrow> \<not> vm_error_state vm \<Longrightarrow> config vm ms stk p s \<Longrightarrow>
     length stk + n \<le> CDSL_BYTECODE_MAX_STACK \<Longrightarrow> stk = [] \<or> logic_free e \<Longrightarrow>
     delivers env ctx bc handler t0 vm ms stk q (den env (context_value ctx) e) s"
  shows "computes env ctx bc p q n e"
  using assms unfolding computes_def by blast

lemma correctI:
  assumes "1 \<le> n" and "appends bc0 bc1 is"
    and "\<And>bc. code_at (bc_code bc) (length (bc_code bc0)) is \<Longrightarrow> prefix (bc_constants bc1) (bc_constants bc) \<Longrightarrow>
       computes env ctx bc (length (bc_code bc0)) (length (bc_code bc0) + length is) n e"
  shows "correct env ctx e bc0 n bc1"
  using assms unfolding correct_def by blast

lemma correctE:
  assumes "correct env ctx e bc0 n bc1"
  obtains "is" where "1 \<le> n" and "appends bc0 bc1 is"
    and "\<And>bc. code_at (bc_code bc) (length (bc_code bc0)) is \<Longrightarrow> prefix (bc_constants bc1) (bc_constants bc) \<Longrightarrow>
       computes env ctx bc (length (bc_code bc0)) (length (bc_code bc0) + length is) n e"
  using assms unfolding correct_def by blast

lemma correct_push:
  assumes "appends bc0 bc1 [i]" and "den env (context_value ctx) e = Inr v"
    and "\<And>bc handler s. prefix (bc_constants bc1) (bc_constants bc) \<Longrightarrow>
       bc_exec env ctx bc handler i s = push_result env v s"
  shows "correct env ctx e bc0 1 bc1"
proof (rule correctI [OF _ assms(1)])
  fix bc :: cdsl_bytecode
  assume c: "code_at (bc_code bc) (length (bc_code bc0)) [i]" and p: "prefix (bc_constants bc1) (bc_constants bc)"
  then show "computes env ctx bc (length (bc_code bc0)) (length (bc_code bc0) + length [i]) 1 e"
    using delivers_push [OF _ _ _ c _ assms(3) [OF p]] by (intro computesI) (simp add: assms(2))
qed simp

lemma appends_push_constant:
  assumes "bc_add_constant bc0 (VString x) = (i, bc1)"
  shows "appends bc0 (bc_emit bc1 inst) [inst]"
  using appends_trans [OF appends_constant [of bc0 "VString x"] appends_emit] by (simp add: assms)

lemma correct_literals:
  "correct env ctx (CDSL_EXPR_INT l i) bc0 1 (bc_emit_int bc0 i)"
  "correct env ctx (CDSL_EXPR_LONG l n) bc0 1 (bc_emit_long bc0 n)"
  "correct env ctx (CDSL_EXPR_FLOAT l f) bc0 1 (bc_emit_float bc0 f)"
  "correct env ctx (CDSL_EXPR_BOOL l b) bc0 1 (bc_emit_bool bc0 b)"
  "correct env ctx (CDSL_EXPR_DATE l d) bc0 1 (bc_emit_date bc0 d)"
  unfolding bc_emit_int_def bc_emit_long_def bc_emit_float_def bc_emit_bool_def bc_emit_date_def
  by (rule correct_push [OF appends_emit]; simp)+

lemma correct_string:
  assumes "den env (context_value ctx) e = Inr (VString s)"
  shows "correct env ctx e bc0 1 (bc_emit_string bc0 s)"
proof -
  obtain i bc1 where 1: "bc_add_constant bc0 (VString s) = (i, bc1)" by force
  show ?thesis unfolding bc_emit_string_def 1 prod.case
    by (rule correct_push [OF appends_push_constant [OF 1] assms])
      (use add_constant_at [OF 1] in \<open>simp add: bc_emit_def\<close>)
qed

lemma correct_cong:
  "correct env ctx e bc0 n bc1 \<Longrightarrow> den env (context_value ctx) e' = den env (context_value ctx) e \<Longrightarrow>
     logic_free e \<Longrightarrow> correct env ctx e' bc0 n bc1"
  unfolding correct_def computes_def by (elim conjE exE) (intro conjI exI, auto)

lemma correct_folded:
  assumes "fold_const_expr e = Some v"
  shows "correct env ctx e bc0 1 (emit_folded bc0 v)"
proof -
  have v: "den env (context_value ctx) e = Inr v" "vtype v \<noteq> CDSL_TYPE_VOID" "vtype v \<noteq> CDSL_TYPE_ARRAY"
    using fold_const_den [OF assms, of env "context_value ctx"] by auto
  show ?thesis
  proof (cases v)
    case (VInt i)
    then show ?thesis using correct_cong [OF correct_literals(1) [of env ctx "(0, 0)" i]] v
      by (simp add: emit_folded_def)
  next
    case (VFloat f)
    then show ?thesis using correct_cong [OF correct_literals(3) [of env ctx "(0, 0)" f]] v
      by (simp add: emit_folded_def)
  next
    case (VBool b)
    then show ?thesis using correct_cong [OF correct_literals(4) [of env ctx "(0, 0)" b]] v
      by (simp add: emit_folded_def)
  next
    case (VDate d)
    then show ?thesis using correct_cong [OF correct_literals(5) [of env ctx "(0, 0)" d]] v
      by (simp add: emit_folded_def)
  next
    case (VLong n)
    then show ?thesis using correct_cong [OF correct_literals(2) [of env ctx "(0, 0)" n]] v
      by (simp add: emit_folded_def)
  next
    case (VString s)
    then show ?thesis using correct_string v by (simp add: emit_folded_def)
  qed (use v in auto)
qed

lemma correct_var: "correct env ctx (CDSL_EXPR_ID l x) bc0 1 (bc_emit_var bc0 x)"
proof -
  obtain i bc1 where 1: "bc_add_constant bc0 (VString (Some x)) = (i, bc1)" by force
  show ?thesis unfolding bc_emit_var_def 1 prod.case
  proof (rule correctI [OF _ appends_push_constant [OF 1]], simp, rule computesI)
    fix bc :: cdsl_bytecode and handler t0 vm ms stk s
    let ?v = "case context_value ctx x of None \<Rightarrow> void0 | Some v \<Rightarrow> v" and ?p = "length (bc_code bc0)"
    assume vm: "unlimited vm" "\<not> vm_error_state vm" and s: "config vm ms stk ?p s"
      and room: "length stk + 1 \<le> CDSL_BYTECODE_MAX_STACK" and c: "code_at (bc_code bc) ?p [BC_PUSH_VAR i]"
      and pre: "prefix (bc_constants (bc_emit bc1 (BC_PUSH_VAR i))) (bc_constants bc)"
    have "\<exists>s2. bc_exec env ctx bc handler (BC_PUSH_VAR i) s1 = Next s2 \<and> config vm ms (?v # stk) (?p + 1) s2"
      if "config vm ms stk ?p s1" for s1
      using exec_push_var [OF vm(1) that, of env ctx x] room add_constant_at [OF 1, of bc] pre
      by (simp add: bc_emit_def)
    from step_next [OF vm s c this] show "delivers env ctx bc handler t0 vm ms stk
        (?p + length [BC_PUSH_VAR i]) (den env (context_value ctx) (CDSL_EXPR_ID l x)) s"
      by (auto simp: delivers_def)
  qed
qed

subsection \<open>Operators\<close>

lemma delivers_bind:
  assumes "delivers env ctx bc handler t0 vm ms stk p r s"
    and "\<And>v s1. r = Inr v \<Longrightarrow> config vm ms (v # stk) p s1 \<Longrightarrow> delivers env ctx bc handler t0 vm ms stk2 q (f v) s1"
  shows "delivers env ctx bc handler t0 vm ms stk2 q (case r of Inl st \<Rightarrow> Inl st | Inr v \<Rightarrow> f v) s"
proof (cases r)
  case (Inr v)
  then obtain s1 where 1: "(bc_moves env ctx bc handler t0)\<^sup>*\<^sup>* s s1" "config vm ms (v # stk) p s1"
    using assms(1) by (auto simp: delivers_def)
  have "delivers env ctx bc handler t0 vm ms stk2 q (f v) s1" using assms(2) [OF Inr 1(2)] .
  then show ?thesis using 1(1) Inr unfolding delivers_def
    by (auto split: sum.splits intro: moves_halts rtranclp_trans)
qed (use assms(1) in \<open>simp add: delivers_def\<close>)

lemma delivers_after:
  "(bc_moves env ctx bc handler t0)\<^sup>*\<^sup>* s s1 \<Longrightarrow> delivers env ctx bc handler t0 vm ms stk p r s1 \<Longrightarrow>
     delivers env ctx bc handler t0 vm ms stk p r s"
  unfolding delivers_def by (auto split: sum.splits intro: moves_halts rtranclp_trans)

lemma delivers_exec:
  assumes "unlimited vm" and "\<not> vm_error_state vm" and "config vm ms stk0 p s" and "code_at (bc_code bc) p [i]"
    and "\<And>s1. config vm ms stk0 p s1 \<Longrightarrow> case r of
       Inr v \<Rightarrow> \<exists>s2. bc_exec env ctx bc handler i s1 = Next s2 \<and> config vm ms (v # stk) (p + 1) s2
     | Inl st \<Rightarrow> \<exists>s2. bc_exec env ctx bc handler i s1 = Done s2 \<and> bs_vm s2 = valop_raise vm (0, 0) st \<and> bs_metrics s2 = ms"
  shows "delivers env ctx bc handler t0 vm ms stk (p + 1) r s"
proof (cases r)
  case (Inl st)
  then show ?thesis using step_done [OF assms(1-4), of env ctx handler
      "\<lambda>s2. bs_vm s2 = valop_raise vm (0, 0) st \<and> bs_metrics s2 = ms"] assms(5)
    by (simp add: delivers_def)
next
  case (Inr v)
  then have "\<And>s1. config vm ms stk0 p s1 \<Longrightarrow>
      \<exists>s2. bc_exec env ctx bc handler i s1 = Next s2 \<and> config vm ms (v # stk) (p + 1) s2"
    using assms(5) by simp
  from step_next [OF assms(1-4) this] show ?thesis by (auto simp: delivers_def Inr)
qed

lemma op_instruction:
  "cdsl_op_is_unary op \<Longrightarrow> \<exists>i. cdsl_op_to_bc op = Some i \<and> bc_exec env ctx bc handler i s = bc_unary env op s"
  "\<not> cdsl_op_is_unary op \<Longrightarrow> \<not> cdsl_op_is_logical_binary op \<Longrightarrow>
     \<exists>i. cdsl_op_to_bc op = Some i \<and> bc_exec env ctx bc handler i s = bc_binary env op s"
  by (cases op; simp)+


lemma computesD:
  assumes "computes env ctx bc p q n e"
    and "unlimited vm" and "\<not> vm_error_state vm" and "config vm ms stk p s"
    and "length stk + n \<le> CDSL_BYTECODE_MAX_STACK" and "stk = [] \<or> logic_free e"
  shows "delivers env ctx bc handler t0 vm ms stk q (den env (context_value ctx) e) s"
  using assms unfolding computes_def by blast

lemma correct_unary:
  assumes a: "correct env ctx a bc0 n bc1" and op: "cdsl_op_is_unary op"
  shows "correct env ctx (CDSL_EXPR_UNARY l op a) bc0 n (emit_op bc1 op)"
proof -
  obtain i where i: "cdsl_op_to_bc op = Some i"
    and exec: "\<And>bc handler s. bc_exec env ctx bc handler i s = bc_unary env op s"
    using op by (cases op) auto
  obtain "is" where n: "1 \<le> n" and A: "appends bc0 bc1 is"
    and C: "\<And>bc. code_at (bc_code bc) (length (bc_code bc0)) is \<Longrightarrow> prefix (bc_constants bc1) (bc_constants bc) \<Longrightarrow>
       computes env ctx bc (length (bc_code bc0)) (length (bc_code bc0) + length is) n a"
    by (rule correctE [OF a]) (rule that)
  have emit: "emit_op bc1 op = bc_emit bc1 i" by (simp add: emit_op_def i)
  show ?thesis unfolding emit
  proof (rule correctI [OF n appends_trans [OF A appends_emit]], rule computesI)
    fix bc :: cdsl_bytecode and handler t0 vm ms stk s
    let ?p = "length (bc_code bc0)"
    assume c: "code_at (bc_code bc) ?p (is @ [i])" and pre: "prefix (bc_constants (bc_emit bc1 i)) (bc_constants bc)"
      and vm: "unlimited vm" "\<not> vm_error_state vm" and s: "config vm ms stk ?p s"
      and room: "length stk + n \<le> CDSL_BYTECODE_MAX_STACK" and stk: "stk = [] \<or> logic_free (CDSL_EXPR_UNARY l op a)"
    have d: "delivers env ctx bc handler t0 vm ms stk (?p + length is) (den env (context_value ctx) a) s"
      using c pre stk by (intro computesD [OF C vm s room]) (simp_all add: code_at_append bc_emit_def)
    have "delivers env ctx bc handler t0 vm ms stk (?p + length is + 1) (outcome_of (cdsl_value_unop op v)) s1"
      if "config vm ms (v # stk) (?p + length is) s1" for v s1
      using c n room
      by (intro delivers_exec [OF vm that, of bc i], simp add: code_at_append)
        (unfold exec, rule exec_unary [OF vm(2)], simp_all)
    then show "delivers env ctx bc handler t0 vm ms stk (?p + length (is @ [i]))
        (den env (context_value ctx) (CDSL_EXPR_UNARY l op a)) s"
      using delivers_bind [OF d, where f = "\<lambda>v. outcome_of (cdsl_value_unop op v)"] by (simp add: add.assoc)
  qed
qed

lemma correct_binary:
  assumes a: "correct env ctx a bc0 n bc1" and b: "correct env ctx b bc1 m bc2"
    and op: "\<not> cdsl_op_is_unary op" "\<not> cdsl_op_is_logical_binary op" and lf: "logic_free b"
  shows "correct env ctx (CDSL_EXPR_BINARY l op a b) bc0 (max n (m + 1)) (emit_op bc2 op)"
proof -
  obtain i where i: "cdsl_op_to_bc op = Some i"
    and exec: "\<And>bc handler s. bc_exec env ctx bc handler i s = bc_binary env op s"
    using op by (cases op) auto
  obtain "is" where n: "1 \<le> n" and A: "appends bc0 bc1 is"
    and C: "\<And>bc. code_at (bc_code bc) (length (bc_code bc0)) is \<Longrightarrow> prefix (bc_constants bc1) (bc_constants bc) \<Longrightarrow>
       computes env ctx bc (length (bc_code bc0)) (length (bc_code bc0) + length is) n a"
    by (rule correctE [OF a]) (rule that)
  obtain js where m: "1 \<le> m" and B: "appends bc1 bc2 js"
    and D: "\<And>bc. code_at (bc_code bc) (length (bc_code bc1)) js \<Longrightarrow> prefix (bc_constants bc2) (bc_constants bc) \<Longrightarrow>
       computes env ctx bc (length (bc_code bc1)) (length (bc_code bc1) + length js) m b"
    by (rule correctE [OF b]) (rule that)
  have emit: "emit_op bc2 op = bc_emit bc2 i" by (simp add: emit_op_def i)
  have len: "length (bc_code bc1) = length (bc_code bc0) + length is" by (simp add: appends_code [OF A])
  show ?thesis unfolding emit
  proof (rule correctI [OF _ appends_trans [OF A appends_trans [OF B appends_emit]]], simp, rule computesI)
    fix bc :: cdsl_bytecode and handler t0 vm ms stk s
    let ?p = "length (bc_code bc0)" and ?\<sigma> = "context_value ctx"
    assume c: "code_at (bc_code bc) ?p (is @ js @ [i])" and pre: "prefix (bc_constants (bc_emit bc2 i)) (bc_constants bc)"
      and vm: "unlimited vm" "\<not> vm_error_state vm" and s: "config vm ms stk ?p s"
      and room: "length stk + max n (m + 1) \<le> CDSL_BYTECODE_MAX_STACK"
      and stk: "stk = [] \<or> logic_free (CDSL_EXPR_BINARY l op a b)"
    have pre2: "prefix (bc_constants bc2) (bc_constants bc)" using pre by (simp add: bc_emit_def)
    have pre1: "prefix (bc_constants bc1) (bc_constants bc)"
      using appends_prefix [OF B] pre2 by (rule prefix_order.trans)
    have da: "delivers env ctx bc handler t0 vm ms stk (?p + length is) (den env ?\<sigma> a) s"
      using c pre1 stk room by (intro computesD [OF C vm s]) (auto simp: code_at_append)
    have op_step: "delivers env ctx bc handler t0 vm ms stk (?p + length is + length js + 1)
        (outcome_of (cdsl_value_binop op x y)) s2"
      if "config vm ms (y # x # stk) (?p + length is + length js) s2" for x y s2
      using c room
      by (intro delivers_exec [OF vm that, of bc i], simp add: code_at_append)
        (unfold exec, rule exec_binary [OF vm(2)], simp_all)
    have "delivers env ctx bc handler t0 vm ms stk (?p + length is + length js + 1)
        (case den env ?\<sigma> b of Inl st \<Rightarrow> Inl st | Inr y \<Rightarrow> outcome_of (cdsl_value_binop op x y)) s1"
      if s1: "config vm ms (x # stk) (?p + length is) s1" for x s1
    proof -
      have "delivers env ctx bc handler t0 vm ms (x # stk) (?p + length is + length js) (den env ?\<sigma> b) s1"
        using c pre2 room lf len s1
        by (intro computesD [OF D [unfolded len] vm s1]) (simp_all add: code_at_append)
      then show ?thesis by (rule delivers_bind) (rule op_step)
    qed
    from delivers_bind [OF da this]
    show "delivers env ctx bc handler t0 vm ms stk (?p + length (is @ js @ [i]))
        (den env ?\<sigma> (CDSL_EXPR_BINARY l op a b)) s"
      using op(2) by (simp add: add.assoc cong: sum.case_cong)
  qed
qed


subsection \<open>AND and OR\<close>

lemma appends_patch:
  assumes "appends bc1 bc2 (i # is)"
  shows "appends bc1 (bc_patch_jmp bc2 (length (bc_code bc1)) t)
    (set_offset i (int t - int (length (bc_code bc1))) # is)"
proof -
  obtain cs m where "bc2 = bc1\<lparr>bc_code := bc_code bc1 @ i # is,
      bc_constants := bc_constants bc1 @ cs, bc_max_stack := max m (bc_max_stack bc1)\<rparr>"
    using assms by (auto simp: appends_def)
  then show ?thesis unfolding appends_def
    by (intro exI [of _ cs] exI [of _ m]) (simp add: bc_patch_jmp_def)
qed

lemma exec_jump:
  assumes "config vm ms [VBool c] p s"
  shows "\<exists>s'. bc_jump_if env want (int d) s = Next s'
     \<and> (if c_true c = want then config vm ms [VBool c] (p + d) s' else config vm ms [] (p + 1) s')"
  using assms by (auto simp: bc_jump_if_def peek_def pop_def config_def)

lemma moves_jump:
  assumes "unlimited vm" and "\<not> vm_error_state vm" and "config vm ms [VBool c] p s" and "code_at (bc_code bc) p [i]"
    and "\<And>s. bc_exec env ctx bc handler i s = bc_jump_if env want (int d) s"
  obtains s' where "(bc_moves env ctx bc handler t0)\<^sup>*\<^sup>* s s'"
    and "if c_true c = want then config vm ms [VBool c] (p + d) s' else config vm ms [] (p + 1) s'"
proof (cases "c_true c = want")
  case True
  then have "\<And>s1. config vm ms [VBool c] p s1 \<Longrightarrow>
      \<exists>s2. bc_exec env ctx bc handler i s1 = Next s2 \<and> config vm ms [VBool c] (p + d) s2"
    using exec_jump [of vm ms c p _ env want d] by (auto simp add: assms(5))
  from step_next [OF assms(1-4) this] True that show thesis by metis
next
  case False
  then have "\<And>s1. config vm ms [VBool c] p s1 \<Longrightarrow>
      \<exists>s2. bc_exec env ctx bc handler i s1 = Next s2 \<and> config vm ms [] (p + 1) s2"
    using exec_jump [of vm ms c p _ env want d] by (auto simp add: assms(5))
  from step_next [OF assms(1-4) this] False that show thesis by metis
qed

lemma moves_pop:
  assumes "unlimited vm" and "\<not> vm_error_state vm" and "config vm ms [] p s" and "code_at (bc_code bc) p [BC_POP]"
  obtains s' where "(bc_moves env ctx bc handler t0)\<^sup>*\<^sup>* s s'" and "config vm ms [] (p + 1) s'"
proof -
  have "\<And>s1. config vm ms [] p s1 \<Longrightarrow>
      \<exists>s2. bc_exec env ctx bc handler BC_POP s1 = Next s2 \<and> config vm ms [] (p + 1) s2"
    by (auto simp: config_def)
  from step_next [OF assms this] that show thesis by blast
qed

lemma correct_logical:
  assumes a: "correct env ctx a bc0 n bc1"
    and b: "correct env ctx b (bc_emit (bc_emit bc1 i) BC_POP) m bc3"
    and op: "(op, i, want) \<in> {(CDSL_OP_AND, BC_JMP_IF_FALSE (- 1), False), (CDSL_OP_OR, BC_JMP_IF_TRUE (- 1), True)}"
    and ca: "canonical (den env (context_value ctx) a)" and cb: "canonical (den env (context_value ctx) b)"
  shows "correct env ctx (CDSL_EXPR_BINARY l op a b) bc0 (max n (m + 1))
    (bc_patch_jmp bc3 (length (bc_code bc1)) (length (bc_code bc3)))"
proof -
  let ?\<sigma> = "context_value ctx"
  obtain "is" where n: "1 \<le> n" and A: "appends bc0 bc1 is"
    and C: "\<And>bc. code_at (bc_code bc) (length (bc_code bc0)) is \<Longrightarrow> prefix (bc_constants bc1) (bc_constants bc) \<Longrightarrow>
       computes env ctx bc (length (bc_code bc0)) (length (bc_code bc0) + length is) n a"
    by (rule correctE [OF a]) (rule that)
  obtain js where m: "1 \<le> m" and B: "appends (bc_emit (bc_emit bc1 i) BC_POP) bc3 js"
    and D: "\<And>bc. code_at (bc_code bc) (length (bc_code bc1) + 2) js \<Longrightarrow> prefix (bc_constants bc3) (bc_constants bc) \<Longrightarrow>
       computes env ctx bc (length (bc_code bc1) + 2) (length (bc_code bc1) + 2 + length js) m b"
    by (rule correctE [OF b]) (auto intro: that simp: bc_emit_def)
  have B': "appends bc1 bc3 (i # BC_POP # js)"
    using appends_trans [OF appends_emit appends_trans [OF appends_emit B]] by simp
  define d where "d = length js + 2"
  define j where "j = set_offset i (int d)"
  have "int (length (bc_code bc3)) - int (length (bc_code bc1)) = int d"
    by (simp add: appends_code [OF B'] d_def)
  then have P: "appends bc1 (bc_patch_jmp bc3 (length (bc_code bc1)) (length (bc_code bc3))) (j # BC_POP # js)"
    (is "appends bc1 ?bc4 _")
    using appends_patch [OF B', of "length (bc_code bc3)"] by (simp add: j_def)
  have cs: "bc_constants ?bc4 = bc_constants bc3" by (simp add: bc_patch_jmp_def)
  have exec: "bc_exec env ctx bc handler j s = bc_jump_if env want (int d) s" for bc handler s
    using op by (auto simp: j_def)
  have len: "length (bc_code bc1) = length (bc_code bc0) + length is" by (simp add: appends_code [OF A])
  show ?thesis
  proof (rule correctI [OF _ appends_trans [OF A P]], simp, rule computesI)
    fix bc :: cdsl_bytecode and handler t0 vm ms stk s
    let ?p = "length (bc_code bc0)"
    let ?q = "?p + length is" and ?r = "?p + length is + d"
    assume c: "code_at (bc_code bc) ?p (is @ j # BC_POP # js)" and pre: "prefix (bc_constants ?bc4) (bc_constants bc)"
      and vm: "unlimited vm" "\<not> vm_error_state vm" and s: "config vm ms stk ?p s"
      and room: "length stk + max n (m + 1) \<le> CDSL_BYTECODE_MAX_STACK"
      and stk: "stk = [] \<or> logic_free (CDSL_EXPR_BINARY l op a b)"
    have stk: "stk = []" using stk op by auto
    have pre3: "prefix (bc_constants bc3) (bc_constants bc)" using pre cs by simp
    have pre1: "prefix (bc_constants bc1) (bc_constants bc)"
      using appends_prefix [OF B'] pre3 by (rule prefix_order.trans)
    have da: "delivers env ctx bc handler t0 vm ms [] ?q (den env ?\<sigma> a) s"
      using c pre1 stk room s by (intro computesD [OF C vm]) (simp_all add: code_at_append)
    let ?right = "\<lambda>x. if c_true x = want then Inr (VBool x) else den env ?\<sigma> b"
    have "delivers env ctx bc handler t0 vm ms [] ?r (?right x) s1"
      if s1: "config vm ms [VBool x] ?q s1" for x s1
    proof -
      obtain s2 where 2: "(bc_moves env ctx bc handler t0)\<^sup>*\<^sup>* s1 s2"
        "if c_true x = want then config vm ms [VBool x] ?r s2 else config vm ms [] (?q + 1) s2"
        by (rule moves_jump [OF vm s1, of bc j env ctx handler want d t0]) (use c exec in \<open>auto simp: code_at_append\<close>)
      show ?thesis
      proof (cases "c_true x = want")
        case True
        then show ?thesis using 2 by (auto simp: delivers_def)
      next
        case False
        then have s2: "config vm ms [] (?q + 1) s2" using 2(2) by simp
        obtain s3 where 3: "(bc_moves env ctx bc handler t0)\<^sup>*\<^sup>* s2 s3" "config vm ms [] (?q + 1 + 1) s3"
          by (rule moves_pop [OF vm s2, of bc env ctx handler t0]) (use c in \<open>auto simp: code_at_append\<close>)
        have "delivers env ctx bc handler t0 vm ms [] ?r (den env ?\<sigma> b) s3"
          using computesD [OF D vm, of bc ms "[]" s3 handler t0] c pre3 room 3(2)
          by (simp add: code_at_append len d_def add.assoc)
        then show ?thesis using False delivers_after [OF rtranclp_trans [OF 2(1) 3(1)]] by simp
      qed
    qed
    moreover have "\<exists>x. v = VBool x" if "den env ?\<sigma> a = Inr v" for v using ca that by auto
    ultimately have right: "delivers env ctx bc handler t0 vm ms [] ?r (?right (raw_lo env v)) s1"
      if "den env ?\<sigma> a = Inr v" "config vm ms [v] ?q s1" for v s1
      using that by fastforce
    have "delivers env ctx bc handler t0 vm ms [] ?r
        (case den env ?\<sigma> a of Inl st \<Rightarrow> Inl st | Inr v \<Rightarrow> ?right (raw_lo env v)) s"
      by (rule delivers_bind [OF da]) (rule right)
    moreover have "(case den env ?\<sigma> a of Inl st \<Rightarrow> Inl st | Inr v \<Rightarrow> ?right (raw_lo env v)) =
        den env ?\<sigma> (CDSL_EXPR_BINARY l op a b)"
      using op ca cb by (cases "den env ?\<sigma> a"; cases "den env ?\<sigma> b") (auto simp: c_true_def)
    ultimately have "delivers env ctx bc handler t0 vm ms [] ?r
        (den env ?\<sigma> (CDSL_EXPR_BINARY l op a b)) s" by metis
    moreover have "?p + length (is @ j # BC_POP # js) = ?r" by (simp add: d_def)
    ultimately show "delivers env ctx bc handler t0 vm ms stk (?p + length (is @ j # BC_POP # js))
        (den env ?\<sigma> (CDSL_EXPR_BINARY l op a b)) s"
      using stk by metis
  qed
qed


subsection \<open>The compiler is correct\<close>

lemma compile_node_correct:
  assumes "(if is_const_expr e then fold_const_expr e else None) = None \<Longrightarrow>
     \<exists>n bc1. compile_node e bc0 = (True, n, bc1) \<and> correct env ctx e bc0 n bc1"
  shows "\<exists>n bc1. compile_expr e bc0 = (True, n, bc1) \<and> correct env ctx e bc0 n bc1 \<and> n \<le> bc_max_stack bc1"
proof (cases "if is_const_expr e then fold_const_expr e else None")
  case None
  then obtain n bc1 where "compile_node e bc0 = (True, n, bc1)" "correct env ctx e bc0 n bc1"
    using assms by blast
  then have "compile_expr e bc0 = (True, n, raise_max bc1 n)" "correct env ctx e bc0 n (raise_max bc1 n)"
    by (simp_all add: compile_expr_node [OF None] correct_raise)
  then show ?thesis by (auto simp: raise_max_def)
next
  case (Some v)
  then have "fold_const_expr e = Some v" by (simp split: if_splits)
  from correct_raise [OF correct_folded [OF this], of env ctx bc0 1] compile_expr_folded [OF Some]
  show ?thesis by (intro exI conjI) (assumption | simp add: raise_max_def)+
qed

lemma compile_expr_correct:
  assumes "scalar_expr e" and "bc_safe e" and "bool_operands env (context_value ctx) e"
  shows "\<exists>n bc1. compile_expr e bc0 = (True, n, bc1) \<and> correct env ctx e bc0 n bc1 \<and> n \<le> bc_max_stack bc1"
  using assms
proof (induction e arbitrary: bc0)
  case (CDSL_EXPR_UNARY l op e)
  then obtain n bc1 where 1: "compile_expr e bc0 = (True, n, bc1)" "correct env ctx e bc0 n bc1" by fastforce
  with correct_unary [OF this(2), of op l] CDSL_EXPR_UNARY.prems show ?case
    by (intro compile_node_correct) (simp add: 1(1))
next
  case (CDSL_EXPR_BINARY l op a b)
  obtain n bc1 where a: "compile_expr a bc0 = (True, n, bc1)" "correct env ctx a bc0 n bc1"
    using CDSL_EXPR_BINARY.IH(1) [of bc0] CDSL_EXPR_BINARY.prems by auto
  have sb: "bc_safe b" using CDSL_EXPR_BINARY.prems(2) logic_free_safe by (auto split: if_splits)
  have b: "\<exists>m bc3. compile_expr b bc2 = (True, m, bc3) \<and> correct env ctx b bc2 m bc3" for bc2
    using CDSL_EXPR_BINARY.IH(2) [of bc2] CDSL_EXPR_BINARY.prems sb by auto
  show ?case
  proof (rule compile_node_correct, cases "cdsl_op_is_logical_binary op")
    case True
    define i :: bc_inst where "i = (if op = CDSL_OP_AND then BC_JMP_IF_FALSE (- 1) else BC_JMP_IF_TRUE (- 1))"
    have op: "op = CDSL_OP_AND \<or> op = CDSL_OP_OR" using True by auto
    then have op': "(op, i, op = CDSL_OP_OR) \<in>
        {(CDSL_OP_AND, BC_JMP_IF_FALSE (- 1), False), (CDSL_OP_OR, BC_JMP_IF_TRUE (- 1), True)}"
      by (auto simp: i_def)
    have emit: "(if op = CDSL_OP_AND then bc_emit_jmp_placeholder bc1 else bc_emit_jmp_true_placeholder bc1) =
        (length (bc_code bc1), bc_emit bc1 i)"
      by (simp add: i_def bc_emit_jmp_placeholder_def bc_emit_jmp_true_placeholder_def)
    obtain m bc3 where b3: "compile_expr b (bc_emit (bc_emit bc1 i) BC_POP) = (True, m, bc3)"
      "correct env ctx b (bc_emit (bc_emit bc1 i) BC_POP) m bc3" using b by blast
    have "compile_node (CDSL_EXPR_BINARY l op a b) bc0 =
        (True, max n (m + 1), bc_patch_jmp bc3 (length (bc_code bc1)) (length (bc_code bc3)))"
      using op by (simp add: a(1) emit b3(1))
    with correct_logical [OF a(2) b3(2) op', of l] True CDSL_EXPR_BINARY.prems(3)
    show "\<exists>n bc1. compile_node (CDSL_EXPR_BINARY l op a b) bc0 = (True, n, bc1)
        \<and> correct env ctx (CDSL_EXPR_BINARY l op a b) bc0 n bc1"
      by simp
  next
    case False
    obtain m bc2 where b2: "compile_expr b bc1 = (True, m, bc2)" "correct env ctx b bc1 m bc2" using b by blast
    have "compile_node (CDSL_EXPR_BINARY l op a b) bc0 = (True, max n (m + 1), emit_op bc2 op)"
      using False by (simp add: a(1) b2(1))
    with correct_binary [OF a(2) b2(2), of op l] False CDSL_EXPR_BINARY.prems(1,2)
    show "\<exists>n bc1. compile_node (CDSL_EXPR_BINARY l op a b) bc0 = (True, n, bc1)
        \<and> correct env ctx (CDSL_EXPR_BINARY l op a b) bc0 n bc1"
      by simp
  qed
qed (rule compile_node_correct; use correct_literals correct_string correct_var in simp)+

end
