(* ===== verification/Cdsl_Engines.thy ===== *)
theory Cdsl_Engines
  imports Cdsl_Bytecode_Correct
begin

section \<open>The two engines agree\<close>

text \<open>
  From expressions to rules: the code of a simple rule with its action (\<open>when_halts\<close>), what a verified
  condition guarantees about its operands (\<open>verified_operands\<close>), and the reports of the tree walker and
  of the bytecode, both computed from the reference semantics (\<open>simple_outcome\<close>).
\<close>


subsection \<open>Actions\<close>

text \<open>The arguments of an action: plain expressions that have a value.\<close>

fun args_value ::
  "cdsl_env \<Rightarrow> (string \<Rightarrow> cdsl_value option) \<Rightarrow> cdsl_expr list \<Rightarrow> cdsl_value list option" where
  "args_value env \<sigma> [] = Some []"
| "args_value env \<sigma> (e # es) =
     (case den env \<sigma> e of Inl st \<Rightarrow> None | Inr v \<Rightarrow> map_option (Cons v) (args_value env \<sigma> es))"

lemma args_value_length: "args_value env \<sigma> es = Some vs \<Longrightarrow> length vs = length es"
  by (induction es arbitrary: vs) (auto split: sum.splits)

definition plain_expr :: "cdsl_expr \<Rightarrow> bool" where
  "plain_expr e \<longleftrightarrow> scalar_expr e \<and> logic_free e"

lemma logic_free_operands: "logic_free e \<Longrightarrow> bool_operands env \<sigma> e"
  by (induction e) auto

text \<open>Running a piece of code that ends: the machine gets from one configuration to another.\<close>

definition runs ::
  "cdsl_env \<Rightarrow> cdsl_context \<Rightarrow> cdsl_bytecode \<Rightarrow> cdsl_vm \<Rightarrow> cdsl_value list \<Rightarrow> nat
   \<Rightarrow> cdsl_vm \<Rightarrow> cdsl_value list \<Rightarrow> nat \<Rightarrow> bool" where
  "runs env ctx bc vm stk p vm' stk' q \<longleftrightarrow> (\<forall>handler t0 ms s. config vm ms stk p s \<longrightarrow>
     (\<exists>s'. (bc_moves env ctx bc handler t0)\<^sup>*\<^sup>* s s' \<and> config vm' ms stk' q s'))"

lemma runs_refl: "runs env ctx bc vm stk p vm stk p"
  unfolding runs_def by blast

lemma runs_trans [trans]:
  "runs env ctx bc vm stk p vm1 stk1 q \<Longrightarrow> runs env ctx bc vm1 stk1 q vm2 stk2 r \<Longrightarrow>
     runs env ctx bc vm stk p vm2 stk2 r"
  unfolding runs_def by (meson rtranclp_trans)

lemma runs_step:
  assumes "unlimited vm" and "\<not> vm_error_state vm" and "code_at (bc_code bc) p [i]"
    and "\<And>handler ms s1. config vm ms stk p s1 \<Longrightarrow>
      \<exists>s2. bc_exec env ctx bc handler i s1 = Next s2 \<and> config vm' ms stk' q s2"
  shows "runs env ctx bc vm stk p vm' stk' q"
  unfolding runs_def
proof (intro allI impI)
  fix handler t0 ms s
  assume "config vm ms stk p s"
  from step_next [OF assms(1,2) this assms(3) assms(4)]
  show "\<exists>s'. (bc_moves env ctx bc handler t0)\<^sup>*\<^sup>* s s' \<and> config vm' ms stk' q s'" by blast
qed

lemma runs_computes:
  assumes "computes env ctx bc p q n e" and "unlimited vm" and "\<not> vm_error_state vm"
    and "length stk + n \<le> CDSL_BYTECODE_MAX_STACK" and "stk = [] \<or> logic_free e"
    and "den env (context_value ctx) e = Inr v"
  shows "runs env ctx bc vm stk p vm (v # stk) q"
  using computesD [OF assms(1-3) _ assms(4,5)] assms(6)
  unfolding runs_def delivers_def by fastforce

lemma action_args_correct:
  assumes "list_all plain_expr es" and "args_value env (context_value ctx) es = Some vs"
  shows "\<exists>m bc1 is. compile_action_args es k m0 bc0 = (True, k + length es, m, bc1) \<and> m0 \<le> m
    \<and> (es \<noteq> [] \<longrightarrow> k + length es \<le> m) \<and> appends bc0 bc1 is
    \<and> (\<forall>bc vm stk. code_at (bc_code bc) (length (bc_code bc0)) is \<longrightarrow> prefix (bc_constants bc1) (bc_constants bc) \<longrightarrow>
        unlimited vm \<longrightarrow> \<not> vm_error_state vm \<longrightarrow> length stk = k \<longrightarrow> m \<le> CDSL_BYTECODE_MAX_STACK \<longrightarrow>
        runs env ctx bc vm stk (length (bc_code bc0)) vm (rev vs @ stk) (length (bc_code bc0) + length is))"
  using assms
proof (induction es arbitrary: k m0 bc0 vs)
  case Nil
  have "appends bc0 bc0 []" by (auto simp: appends_def intro!: exI [of _ "[]"] exI [of _ 0])
  then show ?case using Nil by (auto intro!: exI [of _ "[]"] runs_refl)
next
  case (Cons e es)
  obtain v vs' where v: "den env (context_value ctx) e = Inr v" "args_value env (context_value ctx) es = Some vs'"
    "vs = v # vs'" using Cons.prems(2) by (auto split: sum.splits)
  have e: "scalar_expr e" "logic_free e" using Cons.prems(1) by (auto simp: plain_expr_def)
  obtain n bc1 where 1: "compile_expr e bc0 = (True, n, bc1)" "correct env ctx e bc0 n bc1"
    using compile_expr_correct [OF e(1) logic_free_safe [OF e(2)] logic_free_operands [OF e(2)]] by blast
  obtain "is" where n: "1 \<le> n" and A: "appends bc0 bc1 is"
    and C: "\<And>bc. code_at (bc_code bc) (length (bc_code bc0)) is \<Longrightarrow> prefix (bc_constants bc1) (bc_constants bc) \<Longrightarrow>
       computes env ctx bc (length (bc_code bc0)) (length (bc_code bc0) + length is) n e"
    by (rule correctE [OF 1(2)]) (rule that)
  obtain m bc2 js where 2: "compile_action_args es (k + 1) (max (n + k) m0) bc1 = (True, k + 1 + length es, m, bc2)"
    and m: "max (n + k) m0 \<le> m" "es \<noteq> [] \<longrightarrow> k + 1 + length es \<le> m" and B: "appends bc1 bc2 js"
    and D: "\<And>bc vm stk. code_at (bc_code bc) (length (bc_code bc1)) js \<Longrightarrow> prefix (bc_constants bc2) (bc_constants bc) \<Longrightarrow>
        unlimited vm \<Longrightarrow> \<not> vm_error_state vm \<Longrightarrow> length stk = k + 1 \<Longrightarrow> m \<le> CDSL_BYTECODE_MAX_STACK \<Longrightarrow>
        runs env ctx bc vm stk (length (bc_code bc1)) vm (rev vs' @ stk) (length (bc_code bc1) + length js)"
  proof -
    have "list_all plain_expr es" using Cons.prems(1) by simp
    from Cons.IH [OF this v(2), of "k + 1" "max (n + k) m0" bc1] that show thesis by blast
  qed
  have len: "length (bc_code bc1) = length (bc_code bc0) + length is" by (simp add: appends_code [OF A])
  have "runs env ctx bc vm stk (length (bc_code bc0)) vm (rev vs @ stk) (length (bc_code bc0) + length (is @ js))"
    if c: "code_at (bc_code bc) (length (bc_code bc0)) (is @ js)" and pre: "prefix (bc_constants bc2) (bc_constants bc)"
      and vm: "unlimited vm" "\<not> vm_error_state vm" and stk: "length stk = k" and room: "m \<le> CDSL_BYTECODE_MAX_STACK"
    for bc :: cdsl_bytecode and vm stk
  proof -
    have "runs env ctx bc vm stk (length (bc_code bc0)) vm (v # stk) (length (bc_code bc0) + length is)"
      using c prefix_order.trans [OF appends_prefix [OF B] pre] stk room m(1) e(2)
      by (intro runs_computes [OF C vm _ _ v(1)]) (simp_all add: code_at_append)
    moreover have "runs env ctx bc vm (v # stk) (length (bc_code bc1)) vm (rev vs' @ v # stk) (length (bc_code bc1) + length js)"
      using c pre vm stk room by (intro D) (simp_all add: code_at_append len)
    ultimately show ?thesis using runs_trans by (fastforce simp: len v(3) add.assoc)
  qed
  moreover have "compile_action_args (e # es) k m0 bc0 = (True, k + length (e # es), m, bc2)"
    using 2 by (simp add: 1(1))
  ultimately show ?case using appends_trans [OF A B] m n by (intro exI [of _ m] exI [of _ bc2] exI [of _ "is @ js"]) auto
qed

lemma pop_n_values:
  assumes "bs_stack s = rev vs @ stk"
  shows "pop_n (length vs) s acc = (vs @ acc, s\<lparr>bs_stack := stk\<rparr>)"
  using assms
proof (induction vs arbitrary: s acc rule: rev_induct)
  case (snoc v vs)
  then have "pop s = (v, s\<lparr>bs_stack := rev vs @ stk\<rparr>)" by (simp add: pop_def)
  then show ?case using snoc.IH [of "s\<lparr>bs_stack := rev vs @ stk\<rparr>" "v # acc"] by simp
qed simp

lemma exec_action:
  assumes "config vm ms (VInt (of_nat (length vs)) # rev vs @ stk) p s" and "length vs < 256"
  shows "\<exists>s'. bc_action env (Some f) s = Next s' \<and> config (call_action vm f (map val_to_temp_expr vs)) ms stk (p + 1) s'"
proof -
  have "sint (of_nat (length vs) :: i32) = int (length vs)"
    using assms(2) by (simp add: signed_of_nat signed_take_bit_int_eq_self)
  then have "pop_args env s = (map val_to_temp_expr vs, s\<lparr>bs_stack := stk\<rparr>)"
    using assms(1) pop_n_values [of "s\<lparr>bs_stack := rev vs @ stk\<rparr>" vs stk "[]"]
    by (simp add: pop_args_def pop_def config_def)
  then show ?thesis using assms(1) by (auto simp: bc_action_def config_def)
qed

lemma action_call_correct:
  assumes "list_all plain_expr (act_args a)" and "args_value env (context_value ctx) (act_args a) = Some vs"
  shows "\<exists>m bc1 is. compile_action_call (Some a) m0 bc0 = (True, m, bc1) \<and> m0 \<le> m \<and> appends bc0 bc1 is
    \<and> (\<forall>bc vm. code_at (bc_code bc) (length (bc_code bc0)) is \<longrightarrow> prefix (bc_constants bc1) (bc_constants bc) \<longrightarrow>
        unlimited vm \<longrightarrow> \<not> vm_error_state vm \<longrightarrow> m \<le> CDSL_BYTECODE_MAX_STACK \<longrightarrow>
        runs env ctx bc vm [] (length (bc_code bc0)) (call_action vm (act_name a) (map val_to_temp_expr vs)) []
          (length (bc_code bc0) + length is))"
proof -
  let ?n = "length (act_args a)" and ?p = "length (bc_code bc0)"
  have len: "length vs = ?n"
    using assms(2) by (rule args_value_length)
  obtain m bc1 "is" where F: "compile_action_args (act_args a) 0 0 bc0 = (True, 0 + ?n, m, bc1)"
    and A: "appends bc0 bc1 is"
    and R: "\<forall>bc vm stk. code_at (bc_code bc) ?p is \<longrightarrow> prefix (bc_constants bc1) (bc_constants bc) \<longrightarrow>
        unlimited vm \<longrightarrow> \<not> vm_error_state vm \<longrightarrow> length stk = 0 \<longrightarrow> m \<le> CDSL_BYTECODE_MAX_STACK \<longrightarrow>
        runs env ctx bc vm stk ?p vm (rev vs @ stk) (?p + length is)"
    using action_args_correct [OF assms, of 0 0 bc0] by blast
  have 1: "compile_action_args (act_args a) 0 0 bc0 = (True, ?n, m, bc1)" using F by simp
  have C: "\<And>bc vm. code_at (bc_code bc) ?p is \<Longrightarrow> prefix (bc_constants bc1) (bc_constants bc) \<Longrightarrow>
        unlimited vm \<Longrightarrow> \<not> vm_error_state vm \<Longrightarrow> m \<le> CDSL_BYTECODE_MAX_STACK \<Longrightarrow>
        runs env ctx bc vm [] ?p vm (rev vs) (?p + length is)"
    using R [THEN spec, THEN spec, THEN spec [of _ "[]"]] by simp
  obtain i bc2 where 2: "bc_add_constant (bc_emit_int bc1 (of_nat ?n)) (VString (Some (act_name a))) = (i, bc2)" by force
  let ?m = "max (max (?n + 1) m) m0" and ?bc3 = "bc_emit bc2 (BC_ACTION i)"
  have B: "appends bc0 ?bc3 (is @ [BC_PUSH_INT (of_nat ?n)] @ [BC_ACTION i])"
    using appends_trans [OF A appends_trans [OF appends_emit appends_push_constant [OF 2 [unfolded bc_emit_int_def]]]] .
  have run: "runs env ctx bc vm [] ?p (call_action vm (act_name a) (map val_to_temp_expr vs)) []
      (?p + length (is @ [BC_PUSH_INT (of_nat ?n)] @ [BC_ACTION i]))"
    if c: "code_at (bc_code bc) ?p (is @ [BC_PUSH_INT (of_nat ?n)] @ [BC_ACTION i])"
      and pre: "prefix (bc_constants ?bc3) (bc_constants bc)" and vm: "unlimited vm" "\<not> vm_error_state vm"
      and room: "?m \<le> CDSL_BYTECODE_MAX_STACK" for bc :: cdsl_bytecode and vm
  proof -
    let ?q = "?p + length is"
    have pre2: "prefix (bc_constants bc2) (bc_constants bc)" using pre by (simp add: bc_emit_def)
    have "prefix (bc_constants (bc_emit_int bc1 (of_nat ?n))) (bc_constants bc2)"
      using appends_prefix [OF appends_constant, of "bc_emit_int bc1 (of_nat ?n)" "VString (Some (act_name a))"]
      by (simp add: 2)
    then have "prefix (bc_constants bc1) (bc_constants bc)"
      using pre2 prefix_order.trans by (fastforce simp: bc_emit_int_def bc_emit_def)
    then have "runs env ctx bc vm [] ?p vm (rev vs) ?q" using c vm room by (intro C) (simp_all add: code_at_append)
    also have "runs env ctx bc vm (rev vs) ?q vm (VInt (of_nat ?n) # rev vs) (?q + 1)"
      using c room len by (intro runs_step [OF vm, of bc ?q "BC_PUSH_INT (of_nat ?n)"])
        (simp_all add: code_at_append exec_push_result [simplified])
    also have "runs env ctx bc vm (VInt (of_nat ?n) # rev vs) (?q + 1)
        (call_action vm (act_name a) (map val_to_temp_expr vs)) [] (?q + 1 + 1)"
      using c room len exec_action [of vm _ vs "[]"] add_constant_at [OF 2 pre2]
      by (intro runs_step [OF vm, of bc "?q + 1" "BC_ACTION i"])
        (simp_all add: code_at_append CDSL_BYTECODE_MAX_STACK_def)
    finally show ?thesis by simp
  qed
  have "compile_action_call (Some a) m0 bc0 = (True, ?m, ?bc3)"
    by (simp add: compile_action_call_def 1 2)
  moreover have "m0 \<le> ?m" by simp
  ultimately show ?thesis using B run by blast
qed


subsection \<open>WHEN and THEN\<close>

definition action_ok ::
  "cdsl_env \<Rightarrow> (string \<Rightarrow> cdsl_value option) \<Rightarrow> cdsl_action option \<Rightarrow> bool" where
  "action_ok env \<sigma> act = (case act of None \<Rightarrow> True
     | Some a \<Rightarrow> list_all plain_expr (act_args a) \<and> args_value env \<sigma> (act_args a) \<noteq> None)"

text \<open>What the bytecode does for the action: the callback gets the values of the arguments.\<close>

definition act_on_values ::
  "cdsl_env \<Rightarrow> (string \<Rightarrow> cdsl_value option) \<Rightarrow> cdsl_action option \<Rightarrow> cdsl_vm \<Rightarrow> cdsl_vm" where
  "act_on_values env \<sigma> act vm = (case act of None \<Rightarrow> vm
     | Some a \<Rightarrow> call_action vm (act_name a) (map val_to_temp_expr (the (args_value env \<sigma> (act_args a)))))"

lemma call_action_quiet [simp]:
  "unlimited (call_action vm f args) = unlimited vm"
  "vm_error_state (call_action vm f args) = vm_error_state vm"
  by (simp_all add: call_action_def unlimited_def split: option.split)

lemma act_on_values_quiet [simp]:
  "unlimited (act_on_values env \<sigma> act vm) = unlimited vm"
  "vm_error_state (act_on_values env \<sigma> act vm) = vm_error_state vm"
  by (simp_all add: act_on_values_def split: option.split)

lemma halts_ret:
  assumes "unlimited vm" and "\<not> vm_error_state vm" and "config vm ms (v # stk) p s" and "code_at (bc_code bc) p [BC_RET]"
  shows "\<exists>s'. halts env ctx bc handler t0 s s' \<and> bs_result s' = v \<and> bs_vm s' = vm \<and> bs_metrics s' = ms"
  by (rule step_done [OF assms]) (auto simp: config_def pop_def)

definition when_outcome ::
  "cdsl_env \<Rightarrow> (string \<Rightarrow> cdsl_value option) \<Rightarrow> cdsl_action option \<Rightarrow> cdsl_vm \<Rightarrow> cdsl_metric_result list
   \<Rightarrow> outcome \<Rightarrow> bc_state \<Rightarrow> bool" where
  "when_outcome env \<sigma> act vm ms r s \<longleftrightarrow> bs_metrics s = ms \<and>
     (case r of Inl st \<Rightarrow> bs_vm s = valop_raise vm (0, 0) st
      | Inr v \<Rightarrow> bs_result s = v \<and> bs_vm s = (if c_true (raw_lo env v) then act_on_values env \<sigma> act vm else vm))"

lemma when_action_halts:
  assumes "action_ok env (context_value ctx) (Some a)" and "unlimited vm" and "\<not> vm_error_state vm"
    and "compile_when e (Some a) bc0 = (su, b)" and "compile_expr e bc0 = (True, n, bc1)"
    and "su \<le> CDSL_BYTECODE_MAX_STACK"
  shows "\<exists>is. appends bc1 b is \<and> is \<noteq> [] \<and> n \<le> su \<and> (\<forall>bc handler t0 ms s c. code_at (bc_code bc) (length (bc_code bc1)) is \<longrightarrow>
     prefix (bc_constants b) (bc_constants bc) \<longrightarrow> config vm ms [VBool c] (length (bc_code bc1)) s \<longrightarrow> c = 0 \<or> c = 1 \<longrightarrow>
     (\<exists>s'. halts env ctx bc handler t0 s s' \<and> when_outcome env (context_value ctx) (Some a) vm ms (Inr (VBool c)) s'))"
proof -
  let ?\<sigma> = "context_value ctx" and ?p = "length (bc_code bc1)" and ?jmp = "BC_JMP_IF_FALSE (- 1)"
  obtain vs where vs: "args_value env ?\<sigma> (act_args a) = Some vs" and pl: "list_all plain_expr (act_args a)"
    using assms(1) by (auto simp: action_ok_def)
  define bc2 where "bc2 = bc_emit bc1 ?jmp"
  obtain m bc3 js where 3: "compile_action_call (Some a) n bc2 = (True, m, bc3)" and nm: "n \<le> m" and A: "appends bc2 bc3 js"
    and R: "\<forall>bc vm. code_at (bc_code bc) (length (bc_code bc2)) js \<longrightarrow> prefix (bc_constants bc3) (bc_constants bc) \<longrightarrow>
        unlimited vm \<longrightarrow> \<not> vm_error_state vm \<longrightarrow> m \<le> CDSL_BYTECODE_MAX_STACK \<longrightarrow>
        runs env ctx bc vm [] (length (bc_code bc2)) (call_action vm (act_name a) (map val_to_temp_expr vs)) []
          (length (bc_code bc2) + length js)"
    using action_call_correct [OF pl vs, of n bc2] by blast
  define d where "d = length js + 2"
  let ?vm1 = "call_action vm (act_name a) (map val_to_temp_expr vs)"
  have B: "appends bc1 (bc_emit bc3 (BC_PUSH_BOOL 1)) (?jmp # js @ [BC_PUSH_BOOL 1])"
    using appends_trans [OF appends_emit appends_trans [OF A [unfolded bc2_def] appends_emit]] by simp
  have "int (length (bc_code (bc_emit bc3 (BC_PUSH_BOOL 1)))) - int ?p = int d"
    by (simp add: appends_code [OF B] d_def)
  then have P: "appends bc1 (bc_patch_jmp (bc_emit bc3 (BC_PUSH_BOOL 1)) ?p (length (bc_code (bc_emit bc3 (BC_PUSH_BOOL 1)))))
      (BC_JMP_IF_FALSE (int d) # js @ [BC_PUSH_BOOL 1])" (is "appends bc1 ?bc4 _")
    using appends_patch [OF B, of "length (bc_code (bc_emit bc3 (BC_PUSH_BOOL 1)))"] by simp
  have su: "su = m" and b: "b = bc_emit ?bc4 BC_RET"
    using assms(4) by (simp_all add: compile_when_def assms(5) bc_emit_jmp_placeholder_def 3 [unfolded bc2_def]
        bc_emit_bool_def Let_def)
  have Q: "appends bc1 b ((BC_JMP_IF_FALSE (int d) # js @ [BC_PUSH_BOOL 1]) @ [BC_RET])"
    unfolding b by (rule appends_trans [OF P appends_emit])
  have "\<exists>s'. halts env ctx bc handler t0 s s' \<and> when_outcome env ?\<sigma> (Some a) vm ms (Inr (VBool c)) s'"
    if c: "code_at (bc_code bc) ?p ((BC_JMP_IF_FALSE (int d) # js @ [BC_PUSH_BOOL 1]) @ [BC_RET])"
      and pre: "prefix (bc_constants b) (bc_constants bc)" and s: "config vm ms [VBool c] ?p s" and bool: "c = 0 \<or> c = 1"
    for bc :: cdsl_bytecode and handler t0 ms s c
  proof -
    obtain s1 where 1: "(bc_moves env ctx bc handler t0)\<^sup>*\<^sup>* s s1"
      "if c_true c = False then config vm ms [VBool c] (?p + d) s1 else config vm ms [] (?p + 1) s1"
      by (rule moves_jump [OF assms(2,3) s, of bc "BC_JMP_IF_FALSE (int d)" env ctx handler False d t0]) (use c in auto)
    have ret: "code_at (bc_code bc) (?p + d) [BC_RET]" using c by (simp add: code_at_append d_def)
    show ?thesis
    proof (cases "c_true c")
      case False
      then obtain s2 where "halts env ctx bc handler t0 s1 s2 \<and> bs_result s2 = VBool c \<and> bs_vm s2 = vm \<and> bs_metrics s2 = ms"
        using halts_ret [OF assms(2,3) _ ret] 1(2) by (metis (full_types))
      then show ?thesis using moves_halts [OF 1(1)] False by (intro exI [of _ s2]) (simp add: when_outcome_def)
    next
      case True
      have "prefix (bc_constants bc3) (bc_constants bc)"
        using pre by (simp add: b bc_emit_def bc_patch_jmp_def split: if_split_asm)
      then have "runs env ctx bc vm [] (?p + 1) ?vm1 [] (?p + 1 + length js)"
        using R [THEN spec [of _ bc], THEN spec [of _ vm]] c assms(2,3,6) su
        by (simp add: bc2_def bc_emit_def code_at_append)
      also have "runs env ctx bc ?vm1 [] (?p + 1 + length js) ?vm1 [VBool 1] (?p + 1 + length js + 1)"
        using c assms(2,3) by (intro runs_step [of _ bc _ "BC_PUSH_BOOL 1"])
          (simp_all add: code_at_append exec_push_result [simplified] CDSL_BYTECODE_MAX_STACK_def)
      finally have "runs env ctx bc vm [] (?p + 1) ?vm1 [VBool 1] (?p + d)" by (simp add: d_def)
      moreover have "config vm ms [] (?p + 1) s1" using 1(2) True by simp
      ultimately obtain s2 where 2: "(bc_moves env ctx bc handler t0)\<^sup>*\<^sup>* s1 s2" "config ?vm1 ms [VBool 1] (?p + d) s2"
        unfolding runs_def by blast
      obtain s3 where "halts env ctx bc handler t0 s2 s3 \<and> bs_result s3 = VBool 1 \<and> bs_vm s3 = ?vm1 \<and> bs_metrics s3 = ms"
        using halts_ret [OF _ _ 2(2) ret] assms(2,3) call_action_quiet by blast
      moreover have "c = 1" using bool True by (auto simp: c_true_def)
      ultimately show ?thesis using moves_halts [OF rtranclp_trans [OF 1(1) 2(1)]] True
        by (intro exI [of _ s3]) (simp add: when_outcome_def act_on_values_def vs)
    qed
  qed
  then show ?thesis using Q nm su by (intro exI [of _ "(BC_JMP_IF_FALSE (int d) # js @ [BC_PUSH_BOOL 1]) @ [BC_RET]"]) auto
qed


lemma when_halts:
  assumes e: "scalar_expr e" "bc_safe e" "bool_operands env (context_value ctx) e"
    and can: "canonical (den env (context_value ctx) e)"
    and act: "action_ok env (context_value ctx) act" and vm: "unlimited vm" "\<not> vm_error_state vm"
    and comp: "compile_when e act bc0 = (su, b)" and room: "su \<le> CDSL_BYTECODE_MAX_STACK"
  shows "\<exists>is. appends bc0 b is \<and> is \<noteq> [] \<and> (\<forall>bc handler t0 ms s. code_at (bc_code bc) (length (bc_code bc0)) is \<longrightarrow>
     prefix (bc_constants b) (bc_constants bc) \<longrightarrow> config vm ms [] (length (bc_code bc0)) s \<longrightarrow>
     (\<exists>s'. halts env ctx bc handler t0 s s'
        \<and> when_outcome env (context_value ctx) act vm ms (den env (context_value ctx) e) s'))"
proof -
  let ?\<sigma> = "context_value ctx" and ?p = "length (bc_code bc0)"
  obtain n bc1 where 1: "compile_expr e bc0 = (True, n, bc1)" "correct env ctx e bc0 n bc1"
    using compile_expr_correct [OF e] by blast
  obtain "is" where A: "appends bc0 bc1 is"
    and C: "\<And>bc. code_at (bc_code bc) ?p is \<Longrightarrow> prefix (bc_constants bc1) (bc_constants bc) \<Longrightarrow>
       computes env ctx bc ?p (?p + length is) n e"
    by (rule correctE [OF 1(2)]) (rule that)
  have len: "length (bc_code bc1) = ?p + length is" by (simp add: appends_code [OF A])
  obtain js where B: "appends bc1 b js" "js \<noteq> []" and n: "n \<le> su"
    and R: "\<And>bc handler t0 ms s c. code_at (bc_code bc) (?p + length is) js \<Longrightarrow>
     prefix (bc_constants b) (bc_constants bc) \<Longrightarrow> config vm ms [VBool c] (?p + length is) s \<Longrightarrow> c = 0 \<or> c = 1 \<Longrightarrow>
     \<exists>s'. halts env ctx bc handler t0 s s' \<and> when_outcome env ?\<sigma> act vm ms (Inr (VBool c)) s'"
  proof (cases act)
    case None
    then have "b = bc_emit bc1 BC_RET" "su = n" using comp by (simp_all add: compile_when_def 1(1))
    moreover have "\<exists>s'. halts env ctx bc handler t0 s s' \<and> when_outcome env ?\<sigma> act vm ms (Inr (VBool c)) s'"
      if "code_at (bc_code bc) (?p + length is) [BC_RET]" "config vm ms [VBool c] (?p + length is) s"
      for bc :: cdsl_bytecode and handler t0 ms s c
      using halts_ret [OF vm that(2,1), of env ctx handler t0] None by (auto simp: when_outcome_def act_on_values_def)
    ultimately show thesis using that [of "[BC_RET]"] by auto
  next
    case (Some a)
    from when_action_halts [OF act [unfolded Some] vm comp [unfolded Some] 1(1) room]
    obtain js where J: "appends bc1 b js" "js \<noteq> []" "n \<le> su"
      and R: "\<forall>bc handler t0 ms s c. code_at (bc_code bc) (length (bc_code bc1)) js \<longrightarrow>
       prefix (bc_constants b) (bc_constants bc) \<longrightarrow> config vm ms [VBool c] (length (bc_code bc1)) s \<longrightarrow> c = 0 \<or> c = 1 \<longrightarrow>
       (\<exists>s'. halts env ctx bc handler t0 s s' \<and> when_outcome env ?\<sigma> (Some a) vm ms (Inr (VBool c)) s')"
      by blast
    show thesis by (rule that [OF J]) (use R in \<open>unfold Some len, blast\<close>)
  qed
  have "\<exists>s'. halts env ctx bc handler t0 s s' \<and> when_outcome env ?\<sigma> act vm ms (den env ?\<sigma> e) s'"
    if c: "code_at (bc_code bc) ?p (is @ js)" and pre: "prefix (bc_constants b) (bc_constants bc)"
      and s: "config vm ms [] ?p s" for bc :: cdsl_bytecode and handler t0 ms s
  proof -
    have "delivers env ctx bc handler t0 vm ms [] (?p + length is) (den env ?\<sigma> e) s"
      using c prefix_order.trans [OF appends_prefix [OF B(1)] pre] room n
      by (intro computesD [OF C vm s]) (simp_all add: code_at_append)
    then show ?thesis
    proof (cases "den env ?\<sigma> e")
      case (Inl st)
      then show ?thesis using \<open>delivers env ctx bc handler t0 vm ms [] (?p + length is) (den env ?\<sigma> e) s\<close>
        by (auto simp: delivers_def when_outcome_def)
    next
      case (Inr v)
      then obtain c where v: "v = VBool c" "c = 0 \<or> c = 1" using can by auto
      obtain s1 where 1: "(bc_moves env ctx bc handler t0)\<^sup>*\<^sup>* s s1" "config vm ms [VBool c] (?p + length is) s1"
        using \<open>delivers env ctx bc handler t0 vm ms [] (?p + length is) (den env ?\<sigma> e) s\<close> Inr v(1)
        by (auto simp: delivers_def)
      have "code_at (bc_code bc) (?p + length is) js" using c by (simp add: code_at_append)
      from R [OF this pre 1(2) v(2)] show ?thesis unfolding Inr v(1) using moves_halts [OF 1(1)] by blast
    qed
  qed
  then show ?thesis using appends_trans [OF A B(1)] B(2) by (intro exI [of _ "is @ js"]) auto
qed


subsection \<open>Verified conditions have boolean operands\<close>

fun canonical_leaves :: "(string \<Rightarrow> cdsl_value option) \<Rightarrow> cdsl_expr \<Rightarrow> bool" where
  "canonical_leaves \<sigma> (CDSL_EXPR_ID _ x) = (case \<sigma> x of Some (VBool c) \<Rightarrow> c = 0 \<or> c = 1 | _ \<Rightarrow> True)"
| "canonical_leaves \<sigma> (CDSL_EXPR_BOOL _ c) = (c = 0 \<or> c = 1)"
| "canonical_leaves \<sigma> (CDSL_EXPR_UNARY _ op e) = canonical_leaves \<sigma> e"
| "canonical_leaves \<sigma> (CDSL_EXPR_BINARY _ op a b) = (canonical_leaves \<sigma> a \<and> canonical_leaves \<sigma> b)"
| "canonical_leaves \<sigma> _ = True"

lemma plain_canonical:
  "plain_result r \<Longrightarrow> may_have_type True (outcome_of r) CDSL_TYPE_BOOL \<Longrightarrow> canonical (outcome_of r)"
  by (auto simp: outcome_of_def plain_result_def vtype_cases split: prod.splits if_splits)

lemma verified_operands:
  assumes "scalar_expr e" and "well_typed s \<sigma> (vars e)" and "fst (resolve_expr_type s e errs) = t" and "t \<noteq> CDSL_TYPE_VOID"
    and "\<forall>x\<in>set (vars e). \<sigma> x \<noteq> None" and "canonical_leaves \<sigma> e"
  shows "bool_operands env \<sigma> e \<and> (t = CDSL_TYPE_BOOL \<longrightarrow> canonical (den env \<sigma> e))"
  using assms
proof (induction e arbitrary: errs t)
  case (CDSL_EXPR_ID l x)
  then obtain v where v: "\<sigma> x = Some v" by auto
  then have "canonical (Inr v)" if "t = CDSL_TYPE_BOOL"
    using that CDSL_EXPR_ID.prems by (cases v) (auto simp: well_typed_def split: option.splits)
  then show ?case by (simp add: v)
next
  case (CDSL_EXPR_UNARY l op e)
  obtain t1 errs1 where 1: "resolve_expr_type s e errs = (t1, errs1)" by force
  with CDSL_EXPR_UNARY.prems have t1: "t1 \<noteq> CDSL_TYPE_VOID" by (auto split: if_splits)
  then have IH: "bool_operands env \<sigma> e" using CDSL_EXPR_UNARY.IH [of errs t1] CDSL_EXPR_UNARY.prems 1 by auto
  have "may_have_type True (den env \<sigma> (CDSL_EXPR_UNARY l op e)) t"
    using den_may_type [OF CDSL_EXPR_UNARY.prems(1-4), of env] CDSL_EXPR_UNARY.prems(5) by simp
  then have "canonical (den env \<sigma> (CDSL_EXPR_UNARY l op e))" if "t = CDSL_TYPE_BOOL"
    using that plain_canonical [OF plain_unop] by (auto split: sum.splits)
  with IH show ?case by simp
next
  case (CDSL_EXPR_BINARY l op a b)
  obtain lt errs1 where 1: "resolve_expr_type s a errs = (lt, errs1)" by force
  obtain rt errs2 where 2: "resolve_expr_type s b errs1 = (rt, errs2)" by force
  have t: "fst (binary_type op lt rt l errs2) = t" using CDSL_EXPR_BINARY.prems(3) by (simp add: 1 2)
  then have nv: "lt \<noteq> CDSL_TYPE_VOID" "rt \<noteq> CDSL_TYPE_VOID"
    using CDSL_EXPR_BINARY.prems(4) by (auto simp: binary_type_def split: if_splits)
  have a: "bool_operands env \<sigma> a \<and> (lt = CDSL_TYPE_BOOL \<longrightarrow> canonical (den env \<sigma> a))"
    using CDSL_EXPR_BINARY.IH(1) [of errs lt] CDSL_EXPR_BINARY.prems nv by (simp add: 1 well_typed_def)
  have b: "bool_operands env \<sigma> b \<and> (rt = CDSL_TYPE_BOOL \<longrightarrow> canonical (den env \<sigma> b))"
    using CDSL_EXPR_BINARY.IH(2) [of errs1 rt] CDSL_EXPR_BINARY.prems nv by (simp add: 2 well_typed_def)
  show ?case
  proof (cases "cdsl_op_is_logical_binary op")
    case True
    then have "lt = CDSL_TYPE_BOOL" "rt = CDSL_TYPE_BOOL"
      using t nv CDSL_EXPR_BINARY.prems(4) by (auto simp: binary_type_def split: if_splits)
    then show ?thesis using a b True
      by (cases "den env \<sigma> a"; cases "den env \<sigma> b") auto
  next
    case False
    have "may_have_type True (den env \<sigma> (CDSL_EXPR_BINARY l op a b)) t"
      using den_may_type [OF CDSL_EXPR_BINARY.prems(1-4), of env] CDSL_EXPR_BINARY.prems(5) by simp
    then have "canonical (den env \<sigma> (CDSL_EXPR_BINARY l op a b))" if "t = CDSL_TYPE_BOOL"
      using that False plain_canonical [OF plain_binop] by (auto split: sum.splits)
    with a b False show ?thesis by simp
  qed
qed auto

subsection \<open>Both engines report the same\<close>

text \<open>The bytecode keeps no source locations: its errors are at line 0, column 0.\<close>

definition forget_loc :: "cdsl_rule_report \<Rightarrow> cdsl_rule_report" where
  "forget_loc rpt = rpt\<lparr>rr_error := map_option (\<lambda>e. e\<lparr>err_line := 0, err_column := 0\<rparr>) (rr_error rpt)\<rparr>"

definition rule_condition_ok ::
  "cdsl_schema \<Rightarrow> cdsl_env \<Rightarrow> (string \<Rightarrow> cdsl_value option) \<Rightarrow> cdsl_rule \<Rightarrow> cdsl_expr \<Rightarrow> bool" where
  "rule_condition_ok s env \<sigma> r e \<longleftrightarrow> rule_metrics r = [] \<and> rule_when r = Some e \<and> action_ok env \<sigma> (rule_then r)
     \<and> scalar_expr e \<and> bc_safe e \<and> well_typed s \<sigma> (vars e) \<and> list_all (\<lambda>x. \<sigma> x \<noteq> None) (vars e)
     \<and> canonical_leaves \<sigma> e \<and> fst (resolve_expr_type s e cdsl_error_list_create) = CDSL_TYPE_BOOL"

lemma condition_canonical:
  assumes "rule_condition_ok s env \<sigma> r e"
  shows "bool_operands env \<sigma> e" and "canonical (den env \<sigma> e)"
  using verified_operands [of e s \<sigma> cdsl_error_list_create CDSL_TYPE_BOOL env] assms
  by (auto simp: rule_condition_ok_def list_all_iff)

definition chunk_header :: "cdsl_bytecode \<Rightarrow> string \<times> string \<times> bc_metric_info list" where
  "chunk_header bc = (bc_rule_name bc, bc_description bc, bc_metric_infos bc)"

lemma appends_header: "appends bc0 bc1 is \<Longrightarrow> chunk_header bc1 = chunk_header bc0"
  by (auto simp: appends_def chunk_header_def)

text \<open>A compiled simple rule: its header, and how its code runs.\<close>

lemma compiled_rule_halts:
  assumes c: "rule_condition_ok s env (context_value ctx) r e" and "cdsl_bytecode_compile r = (True, bc)"
    and vm: "unlimited vm" "\<not> vm_error_state vm"
  shows "bc_code bc \<noteq> []"
    and "chunk_header bc = (rule_name r, meta_description (rule_meta r), [])"
    and "bc_run_instructions env vm bc ctx handler = Some s' \<Longrightarrow>
      when_outcome env (context_value ctx) (rule_then r) (snd (cdsl_get_time_us_internal env vm)) []
        (den env (context_value ctx) e) s'"
proof -
  let ?\<sigma> = "context_value ctx"
  note r = c [unfolded rule_condition_ok_def]
  define bc0 where "bc0 = bc_zero\<lparr>bc_rule_name := rule_name r, bc_description := meta_description (rule_meta r),
      bc_pass_threshold := cdsl_meta_get_int (rule_meta r) ''pass_threshold'' 80,
      bc_partial_threshold := cdsl_meta_get_int (rule_meta r) ''partial_threshold'' 60,
      bc_is_metric_rule := False\<rparr>"
  obtain su b where b: "compile_when e (rule_then r) bc0 = (su, b)" by force
  have bc: "bc = raise_max b su" and room: "su \<le> CDSL_BYTECODE_MAX_STACK"
  proof -
    have "cdsl_bytecode_compile r = (if CDSL_BYTECODE_MAX_STACK < bc_max_stack (raise_max b su)
        then (False, bc_zero) else (True, raise_max b su))"
      using r b [unfolded bc0_def] by (simp add: cdsl_bytecode_compile_def Let_def)
    then show "bc = raise_max b su" "su \<le> CDSL_BYTECODE_MAX_STACK"
      using assms(2) by (auto simp: raise_max_def split: if_splits)
  qed
  let ?vm1 = "snd (cdsl_get_time_us_internal env vm)" and ?t0 = "fst (cdsl_get_time_us_internal env vm)"
  have vm1: "unlimited ?vm1" "\<not> vm_error_state ?vm1"
    using vm by (simp_all add: cdsl_get_time_us_internal_def unlimited_def)
  obtain "is" where A: "appends bc0 b is" and ne: "is \<noteq> []"
    and H: "\<And>bc handler t0 ms s. code_at (bc_code bc) (length (bc_code bc0)) is \<Longrightarrow>
     prefix (bc_constants b) (bc_constants bc) \<Longrightarrow> config ?vm1 ms [] (length (bc_code bc0)) s \<Longrightarrow>
     \<exists>s'. halts env ctx bc handler t0 s s' \<and> when_outcome env ?\<sigma> (rule_then r) ?vm1 ms (den env ?\<sigma> e) s'"
    using when_halts [OF _ _ condition_canonical [OF c] _ vm1 b room] r by blast
  have code: "bc_code bc = is" using appends_code [OF A] by (simp add: bc raise_max_def bc0_def bc_zero_def)
  then show "bc_code bc \<noteq> []" using ne by simp
  show "chunk_header bc = (rule_name r, meta_description (rule_meta r), [])"
    using appends_header [OF appends_trans [OF A appends_raise [of b su]]]
    by (simp add: bc bc0_def bc_zero_def chunk_header_def)
  have zero: "length (bc_code bc0) = 0" by (simp add: bc0_def bc_zero_def)
  have "code_at (bc_code bc) (length (bc_code bc0)) is" using code_at_self [of "[]" "is" "[]"] by (simp add: code zero)
  moreover have "prefix (bc_constants b) (bc_constants bc)" by (simp add: bc raise_max_def)
  moreover have "config ?vm1 [] [] (length (bc_code bc0)) (bc_init ?vm1)" by (simp add: config_def bc_init_def zero)
  ultimately obtain s1 where h: "halts env ctx bc handler ?t0 (bc_init ?vm1) s1"
    and o: "when_outcome env ?\<sigma> (rule_then r) ?vm1 [] (den env ?\<sigma> e) s1"
    using H by blast
  assume run: "bc_run_instructions env vm bc ctx handler = Some s'"
  then have "bc_run env ctx bc handler ?t0 (bc_fuel bc) (bc_init ?vm1) = Some s'"
    by (simp add: bc_run_instructions_def split: prod.splits)
  with halts_run [OF h, of "bc_fuel bc"] have "s' = s1" by simp
  with o show "when_outcome env ?\<sigma> (rule_then r) ?vm1 [] (den env ?\<sigma> e) s'" by simp
qed


lemma scalar_no_error: "scalar_expr e \<Longrightarrow> no_error e"
  by (induction e) auto

lemma condition_no_error: "rule_condition_ok s env \<sigma> r e \<Longrightarrow> no_error_rule r"
  by (auto simp: rule_condition_ok_def no_error_rule_def no_error_action_def action_ok_def plain_expr_def
      list_all_iff scalar_no_error split: option.splits)

text \<open>The report of the tree walker, up to the VM.\<close>

definition simple_outcome :: "cdsl_rule \<Rightarrow> outcome \<Rightarrow> cdsl_rule_report" where
  "simple_outcome r res =
     (case res of
        Inl st \<Rightarrow> (simple_report r 0 0 CDSL_STATUS_ERROR ''ERROR'')\<lparr>rr_error :=
          Some (cdsl_error_create CDSL_ERR_RUNTIME 0 0 (Some (cdsl_valop_status_message st)) (cdsl_valop_status_hint st))\<rparr>
      | Inr (VBool c) \<Rightarrow> if c_true c then simple_report r 0 100 CDSL_STATUS_FAILED ''FAILED (score: 0/100)''
          else simple_report r 100 100 CDSL_STATUS_PASSED ''PASSED (score: 100/100)''
      | _ \<Rightarrow> simple_report r 100 100 CDSL_STATUS_PASSED ''PASSED (score: 100/100)'')"

lemma fire_trace_error [simp]: "vm_error_state (fire_trace env vm k x d v) = vm_error_state vm"
  by (simp add: fire_trace_def cdsl_get_time_us_internal_def)

lemma trigger_error [simp]: "vm_error_state (cdsl_trigger_action_internal vm act) = vm_error_state vm"
  by (simp add: cdsl_trigger_action_internal_def split: option.split)

lemma begin_quiet:
  "unlimited (cdsl_vm_begin_execution vm) = unlimited vm" "\<not> vm_error_state (cdsl_vm_begin_execution vm)"
  "vm_max_expr_depth (cdsl_vm_begin_execution vm) = vm_max_expr_depth vm"
  by (simp_all add: cdsl_vm_begin_execution_def unlimited_def)

lemma clock_quiet:
  "unlimited (snd (cdsl_get_time_us_internal env vm)) = unlimited vm"
  "vm_error_state (snd (cdsl_get_time_us_internal env vm)) = vm_error_state vm"
  "vm_max_expr_depth (snd (cdsl_get_time_us_internal env vm)) = vm_max_expr_depth vm"
  by (simp_all add: cdsl_get_time_us_internal_def unlimited_def)

lemma simple_report_no_error [simp]: "rr_error (simple_report r o1 w st m) = None"
  by (simp add: simple_report_def Let_def)

lemma tree_simple_report:
  assumes "rule_metrics r = []" and "rule_when r = Some e" and "scalar_expr e" and "unlimited vm"
    and "int (height e) \<le> vm_max_expr_depth vm"
  shows "forget_loc (fst (cdsl_vm_execute env vm r ctx)) = simple_outcome r (den env (context_value ctx) e)"
proof -
  obtain t0 vm0 where t: "cdsl_get_time_us_internal env vm = (t0, vm0)" by force
  let ?vm1 = "cdsl_vm_begin_execution vm0"
  have vm1: "unlimited ?vm1" "\<not> vm_error_state ?vm1" "0 + int (height e) \<le> vm_max_expr_depth ?vm1"
    using assms(4,5) clock_quiet [of env vm] by (simp_all add: t begin_quiet)
  obtain l where ev: "cdsl_eval_expr_internal env ctx e 0 ?vm1 = run_outcome ?vm1 l (den env (context_value ctx) e)"
    using eval_den [OF assms(3) vm1] by blast
  show ?thesis
  proof (cases "den env (context_value ctx) e")
    case (Inl st)
    then show ?thesis using assms(1,2) vm1(2)
      by (simp add: cdsl_vm_execute_def t Let_def execute_simple_rule_def eval_opt_def ev run_outcome_def
          finish_report_def valop_raise_def vm_raise_def cdsl_vm_set_last_error_def simple_outcome_def
          forget_loc_def cdsl_error_create_def simple_report_def split: prod.split)
  next
    case (Inr v)
    then show ?thesis using assms(1,2) vm1(2)
      by (cases v) (simp_all add: cdsl_vm_execute_def t Let_def execute_simple_rule_def eval_opt_def ev run_outcome_def
          finish_report_def simple_outcome_def forget_loc_def split: prod.split)
  qed
qed

lemma bytecode_simple_report:
  assumes c: "rule_condition_ok s env (context_value ctx) r e" and comp: "cdsl_bytecode_compile r = (True, bc)"
    and vm: "unlimited vm"
  shows "\<exists>rpt vm'. cdsl_bytecode_execute_rule env vm bc ctx = Some (rpt, vm')
    \<and> rpt = simple_outcome r (den env (context_value ctx) e)"
proof -
  let ?\<sigma> = "context_value ctx"
  obtain t0 vm0 where t: "cdsl_get_time_us_internal env vm = (t0, vm0)" by force
  let ?vm1 = "cdsl_vm_begin_execution vm0"
  have vm1: "unlimited ?vm1" "\<not> vm_error_state ?vm1"
    using vm clock_quiet [of env vm] by (simp_all add: t begin_quiet)
  obtain s' where run: "bc_run_instructions env ?vm1 bc ctx True = Some s'"
    using compiled_run_some [OF condition_no_error [OF c] comp] by blast
  let ?vm2 = "snd (cdsl_get_time_us_internal env ?vm1)"
  have o: "when_outcome env ?\<sigma> (rule_then r) ?vm2 [] (den env ?\<sigma> e) s'"
    and ne: "bc_code bc \<noteq> []" and hd: "chunk_header bc = (rule_name r, meta_description (rule_meta r), [])"
    using compiled_rule_halts [OF c comp vm1] run by blast+
  have vm2: "\<not> vm_error_state ?vm2" using vm1 by (simp add: clock_quiet)
  have "fst (bc_report bc s') = simple_outcome r (den env ?\<sigma> e)"
  proof (cases "den env ?\<sigma> e")
    case (Inl st)
    then show ?thesis using o hd
      by (simp add: bc_report_def when_outcome_def finish_report_def simple_outcome_def simple_report_def Let_def
          valop_raise_def vm_raise_def cdsl_vm_set_last_error_def chunk_header_def bc_report_init_def bc_metric_entry_def
          cdsl_error_create_def metric_zero_def c_bool_def)
  next
    case (Inr v)
    then obtain b where "v = VBool b" "b = 0 \<or> b = 1" using condition_canonical(2) [OF c] by auto
    then show ?thesis using o hd vm2 Inr
      by (auto simp: bc_report_def when_outcome_def simple_outcome_def simple_report_def Let_def
          chunk_header_def bc_report_init_def bc_metric_entry_def bc_finalize_simple_rule_report_def metric_zero_def
          c_bool_def c_true_def)
  qed
  moreover obtain rpt vm3 where "bc_report bc s' = (rpt, vm3)" by force
  ultimately show ?thesis using ne by (simp add: cdsl_bytecode_execute_rule_def t run)
qed




end
