(* ===== verification/Cdsl_Analysis.thy ===== *)
theory Cdsl_Analysis
  imports Cdsl_Semantics
begin

section \<open>What the static analyser's warnings mean\<close>

text \<open>
  The analyser of \<open>src/schema/schema.c\<close> and the tree walker of \<open>src/vm/eval.c\<close> meet here:
  the conditions it calls always true or always false are, a CASE after an always-true one is
  never reached, and neither is a CASE that repeats an earlier comparison. The one exception is
  recorded as well: a bare INT literal is called always true but never matches.
\<close>

subsection \<open>Constant conditions\<close>

lemma relational_cases:
  assumes "cdsl_op_eval_cmp op c" shows "cdsl_op_is_relational op"
  using assms by (cases op) auto

lemma den_int_comparison:
  assumes "cdsl_op_is_relational op"
  shows "den env \<sigma> (CDSL_EXPR_BINARY l op (CDSL_EXPR_INT l1 a) (CDSL_EXPR_INT l2 b)) =
    Inr (VBool (c_bool (cdsl_op_eval_cmp op (cmp3 (sint a) (sint b)))))"
  using assms by (auto simp: cdsl_value_binop_def binop_numeric_def binop_int_def outcome_of_def bool_ok_def)

lemma const_true_den:
  "expr_is_const_true e \<Longrightarrow> \<exists>v. den env \<sigma> e = Inr v \<and> c_true (raw_lo env v)"
  by (induction e rule: expr_is_const_true.induct)
    (auto simp: den_int_comparison [OF relational_cases] c_true_def simp del: den.simps(9))

lemma const_false_den:
  "expr_is_const_false e \<Longrightarrow> \<exists>v. den env \<sigma> e = Inr v \<and> \<not> c_true (raw_lo env v)"
  by (induction e rule: expr_is_const_false.induct)
    (auto simp: den_int_comparison c_true_def simp del: den.simps(9) relational_iff)


lemma const_den_bool:
  assumes "expr_is_const_true e \<or> expr_is_const_false e"
  shows "scalar_expr e \<and> height e \<le> 2"
  using assms by (induction e rule: expr_is_const_true.induct)
    (auto dest: relational_cases)

text \<open>
  The constant conditions of the analyser are what it says: one it calls always true
  evaluates, in any context, to a value whose truth bits are set, and one it calls always false to
  one whose truth bits are clear; no condition is called both.
\<close>

lemma constant_conditions_sound:
  "\<not> (expr_is_const_true e \<and> expr_is_const_false e)
   \<and> (if expr_is_const_true e then \<exists>v. den env \<sigma> e = Inr v \<and> c_true (raw_lo env v)
      else if expr_is_const_false e then \<exists>v. den env \<sigma> e = Inr v \<and> \<not> c_true (raw_lo env v)
      else True)"
proof -
  have "\<not> (expr_is_const_true e \<and> expr_is_const_false e)"
    using const_true_den [of e env \<sigma>] const_false_den [of e env \<sigma>] by auto
  then show ?thesis using const_true_den [of e env \<sigma>] const_false_den [of e env \<sigma>] by simp
qed

subsection \<open>Branches that are never reached\<close>

lemma evolves_unlimited: "evolves vm vm' \<Longrightarrow> unlimited vm \<Longrightarrow> unlimited vm'"
  by (simp add: evolves_def same_config_def unlimited_def)

lemma evolves_depth: "evolves vm vm' \<Longrightarrow> vm_max_expr_depth vm' = vm_max_expr_depth vm"
  by (simp add: evolves_def same_config_def)

lemma evolves_opt:
  "env_ok env \<Longrightarrow> evolves vm (snd (eval_opt env ctx e vm))"
  by (simp add: eval_opt_def eval_evolves split: option.split)

text \<open>Two tails that agree from every state the branches before them can leave.\<close>

lemma eval_cases_tail:
  assumes "env_ok env" and "\<not> vm_error_state vm"
    and "\<And>vm'. evolves vm vm' \<Longrightarrow> \<not> vm_error_state vm' \<Longrightarrow>
      eval_cases env ctx ys mr vm' = eval_cases env ctx zs mr vm'"
  shows "eval_cases env ctx (xs @ ys) mr vm = eval_cases env ctx (xs @ zs) mr vm"
  using assms(2,3)
proof (induction xs arbitrary: vm)
  case (Cons c xs)
  obtain v vm1 where 1: "eval_opt env ctx (case_condition c) vm = (v, vm1)" by force
  then have "evolves vm vm1" using evolves_opt [OF assms(1), of vm ctx "case_condition c"] by simp
  then have "eval_cases env ctx (xs @ ys) mr vm1 = eval_cases env ctx (xs @ zs) mr vm1"
    if "\<not> vm_error_state vm1"
    using that by (intro Cons.IH) (auto intro: Cons.prems(2) evolves_trans)
  then show ?case by (simp add: 1 split: cdsl_value.split)
qed simp

fun is_int_literal :: "cdsl_expr \<Rightarrow> bool" where
  "is_int_literal (CDSL_EXPR_INT _ _) = True"
| "is_int_literal _ = False"

lemma const_true_bool:
  assumes "expr_is_const_true e" and "\<not> is_int_literal e"
  shows "\<exists>b. den env \<sigma> e = Inr (VBool b) \<and> c_true b"
  using assms by (induction e rule: expr_is_const_true.induct)
    (auto simp: den_int_comparison [OF relational_cases] c_true_def simp del: den.simps(9))

lemma eval_opt_den:
  assumes "scalar_expr e" and "unlimited vm" and "\<not> vm_error_state vm"
    and "int (height e) \<le> vm_max_expr_depth vm"
  shows "\<exists>l. eval_opt env ctx (Some e) vm = run_outcome vm l (den env (context_value ctx) e)"
  using eval_den [OF assms(1-3), of 0 env ctx] assms(4) by (simp add: eval_opt_def)

lemma cases_after_true:
  assumes "case_condition c = Some e" and "expr_is_const_true e" and "\<not> is_int_literal e"
    and "unlimited vm" and "\<not> vm_error_state vm" and "2 \<le> vm_max_expr_depth vm"
  shows "eval_cases env ctx (c # ys) mr vm = eval_cases env ctx [c] mr vm"
proof -
  have e: "scalar_expr e" "height e \<le> 2" using const_den_bool assms(2) by blast+
  obtain b where b: "den env (context_value ctx) e = Inr (VBool b)" "c_true b"
    using const_true_bool assms(2,3) by blast
  obtain l where "eval_opt env ctx (Some e) vm = run_outcome vm l (Inr (VBool b))"
    using eval_opt_den [OF e(1) assms(4,5), of env ctx] e(2) assms(6) unfolding b by auto
  then show ?thesis using b assms(1,5) by (simp add: run_outcome_def)
qed

text \<open>
  A CASE after one the analyser calls always true is dead code: whatever branches come
  before, the tree walker gives the same result without the branches after it. (The condition is a
  comparison of literals or a BOOL literal; a bare INT literal is the exception, see the next claim.)
\<close>

lemma cases_after_always_true_dead:
  assumes "env_ok env" and "case_condition c = Some e" and "expr_is_const_true e"
    and "\<not> is_int_literal e" and "unlimited vm" and "\<not> vm_error_state vm"
    and "2 \<le> vm_max_expr_depth vm"
  shows "eval_cases env ctx (xs @ c # ys) mr vm = eval_cases env ctx (xs @ [c]) mr vm"
  using assms evolves_unlimited evolves_depth
  by (intro eval_cases_tail cases_after_true) auto


lemma cases_after_always_true_dead_witness:
  "let t = \<lparr>case_condition = Some (CDSL_EXPR_BOOL (1, 1) 1), case_action = None\<rparr>;
       u = \<lparr>case_condition = Some (CDSL_EXPR_CALL (2, 1) ''f'' []), case_action = None\<rparr> in
   eval_cases env_plain (cdsl_context_create None) [u, t, u] metric_zero cdsl_vm_create
     = eval_cases env_plain (cdsl_context_create None) [u, t] metric_zero cdsl_vm_create"
  using cases_after_always_true_dead [of env_plain
      "\<lparr>case_condition = Some (CDSL_EXPR_BOOL (1, 1) 1), case_action = None\<rparr>" "CDSL_EXPR_BOOL (1, 1) 1"
      cdsl_vm_create "cdsl_context_create None"
      "[\<lparr>case_condition = Some (CDSL_EXPR_CALL (2, 1) ''f'' []), case_action = None\<rparr>]"
      "[\<lparr>case_condition = Some (CDSL_EXPR_CALL (2, 1) ''f'' []), case_action = None\<rparr>]" metric_zero]
  by (simp add: Let_def c_true_def unlimited_def)

lemma float_cmp_same:
  assumes "cdsl_op_is_relational op" and "f64_eq f g"
  shows "float_cmp op x f = float_cmp op x g"
  using assms by (auto simp: f64_eq_def f64_lt_def f64_le_def)

lemma binop_same_float:
  assumes "cdsl_op_is_relational op" and "f64_eq f g"
  shows "cdsl_value_binop op x (VFloat f) = cdsl_value_binop op x (VFloat g)"
proof -
  have "binop_float op y f = binop_float op y g" for y
    using assms(1) float_cmp_same [OF assms] by (auto simp: binop_float_def)
  moreover have "op \<noteq> CDSL_OP_DIV" "op \<noteq> CDSL_OP_ADD" "op \<noteq> CDSL_OP_SUB" using assms(1) by auto
  ultimately show ?thesis
    by (cases x) (simp_all add: cdsl_value_binop_def binop_with_date_def binop_numeric_def
        del: eval_date_offset.simps)
qed

lemma same_condition_shape:
  assumes "same_condition (CDSL_EXPR_BINARY l op a b) e"
  obtains (int) m x l2 m2 k k2 i where "a = CDSL_EXPR_ID m x" "e = CDSL_EXPR_BINARY l2 op (CDSL_EXPR_ID m2 x) (CDSL_EXPR_INT k2 i)"
      "b = CDSL_EXPR_INT k i"
  | (float) m x l2 m2 k k2 f g where "a = CDSL_EXPR_ID m x" "e = CDSL_EXPR_BINARY l2 op (CDSL_EXPR_ID m2 x) (CDSL_EXPR_FLOAT k2 g)"
      "b = CDSL_EXPR_FLOAT k f" "f64_eq f g"
proof -
  from assms obtain m x l2 m2 r2 where s: "a = CDSL_EXPR_ID m x" "e = CDSL_EXPR_BINARY l2 op (CDSL_EXPR_ID m2 x) r2"
    and r: "case (b, r2) of (CDSL_EXPR_INT _ i, CDSL_EXPR_INT _ j) \<Rightarrow> i = j
       | (CDSL_EXPR_FLOAT _ f, CDSL_EXPR_FLOAT _ g) \<Rightarrow> f64_eq f g | _ \<Rightarrow> False"
    by (erule_tac same_condition.elims(2)) simp
  show ?thesis
  proof (cases b)
    case (CDSL_EXPR_INT k i)
    then show ?thesis using r s int by (cases r2) auto
  next
    case (CDSL_EXPR_FLOAT k f)
    then show ?thesis using r s float by (cases r2) auto
  qed (use r in simp_all)
qed

lemma same_condition_den:
  assumes "same_condition (CDSL_EXPR_BINARY l op a b) e" and "cdsl_op_is_relational op"
  shows "scalar_expr e" "scalar_expr (CDSL_EXPR_BINARY l op a b)"
    "height e = 2" "height (CDSL_EXPR_BINARY l op a b) = 2"
    "den env \<sigma> (CDSL_EXPR_BINARY l op a b) = den env \<sigma> e"
proof -
  have "scalar_expr e \<and> scalar_expr (CDSL_EXPR_BINARY l op a b) \<and> height e = 2 \<and> height (CDSL_EXPR_BINARY l op a b) = 2
    \<and> den env \<sigma> (CDSL_EXPR_BINARY l op a b) = den env \<sigma> e"
    using assms(1)
  proof (cases rule: same_condition_shape)
    case (float m x l2 m2 k k2 f g)
    then show ?thesis using binop_same_float [OF assms(2) float(4)] assms(2) by auto
  qed (use assms(2) in auto)
  then show "scalar_expr e" "scalar_expr (CDSL_EXPR_BINARY l op a b)"
    "height e = 2" "height (CDSL_EXPR_BINARY l op a b) = 2"
    "den env \<sigma> (CDSL_EXPR_BINARY l op a b) = den env \<sigma> e" by blast+
qed

fun true_bool :: "outcome \<Rightarrow> bool" where
  "true_bool (Inr (VBool b)) = c_true b"
| "true_bool _ = False"

lemma eval_cases_den:
  assumes "case_condition c = Some e" and "scalar_expr e" and "unlimited vm" and "\<not> vm_error_state vm"
    and "int (height e) \<le> vm_max_expr_depth vm"
  shows "\<exists>l. eval_cases env ctx (c # ys) mr vm =
    (case den env (context_value ctx) e of
       Inl st \<Rightarrow> (False, mr, valop_raise vm l st)
     | Inr v \<Rightarrow> if true_bool (Inr v) then (True, apply_case_action env ctx (case_action c) mr
                       (cdsl_trigger_action_internal vm (case_action c)))
               else eval_cases env ctx ys mr vm)"
proof -
  obtain l where "eval_opt env ctx (Some e) vm = run_outcome vm l (den env (context_value ctx) e)"
    using eval_opt_den [OF assms(2-5)] by blast
  then show ?thesis using assms(1,4)
    by (intro exI [of _ l]) (simp add: run_outcome_def split: sum.split cdsl_value.split)
qed

lemma repeated_case_skipped:
  assumes "env_ok env" and "case_condition c = Some (CDSL_EXPR_BINARY l op a b)"
    and "case_condition c' = Some e" and "same_condition (CDSL_EXPR_BINARY l op a b) e"
    and "cdsl_op_is_relational op" and "unlimited vm" and "\<not> vm_error_state vm" and "2 \<le> vm_max_expr_depth vm"
  shows "eval_cases env ctx (c # ys @ c' # zs) mr vm = eval_cases env ctx (c # ys @ zs) mr vm"
proof (cases "case den env (context_value ctx) e of Inl st \<Rightarrow> True | Inr v \<Rightarrow> true_bool (Inr v)")
  note d = same_condition_den [OF assms(4,5)]
  have h: "int (height (CDSL_EXPR_BINARY l op a b)) \<le> vm_max_expr_depth vm" "int (height e) \<le> 2"
    using assms(8) d(3,4) by simp_all
  obtain k where 1: "eval_opt env ctx (Some (CDSL_EXPR_BINARY l op a b)) vm =
      run_outcome vm k (den env (context_value ctx) e)"
    using eval_opt_den [OF d(2) assms(6,7) h(1)] unfolding d(5) by blast
  case True
  then show ?thesis using assms(2,7)
    by (cases "den env (context_value ctx) e") (auto simp: 1 run_outcome_def elim!: true_bool.elims)
next
  note d = same_condition_den [OF assms(4,5)]
  have h: "int (height (CDSL_EXPR_BINARY l op a b)) \<le> vm_max_expr_depth vm" "int (height e) \<le> 2"
    using assms(8) d(3,4) by simp_all
  case False
  then obtain v where v: "den env (context_value ctx) e = Inr v" "\<not> true_bool (Inr v)"
    by (auto split: sum.splits)
  have skip: "eval_cases env ctx (c' # zs) mr vm' = eval_cases env ctx zs mr vm'"
    if "evolves vm vm'" "\<not> vm_error_state vm'" for vm'
    using eval_cases_den [OF assms(3) d(1), of vm' env ctx zs mr] v that d(3) assms(8)
      evolves_unlimited [OF that(1) assms(6)] evolves_depth [OF that(1)] by auto
  have first: "eval_cases env ctx (c # us) mr vm = eval_cases env ctx us mr vm" for us
    using eval_cases_den [OF assms(2) d(2) assms(6,7) h(1), of env ctx us mr] v unfolding d(5) by auto
  show ?thesis unfolding first
    by (rule eval_cases_tail [OF assms(1,7) skip])
qed

text \<open>
  A CASE whose condition repeats the comparison of an earlier one (the analyser's
  "shadows earlier identical condition") is dead code: wherever the two stand, the tree walker
  gives the same result without the later one, also when the comparison fails with an error.
\<close>

lemma repeated_case_dead:
  assumes "env_ok env" and "case_condition c = Some (CDSL_EXPR_BINARY l op a b)"
    and "case_condition c' = Some e" and "same_condition (CDSL_EXPR_BINARY l op a b) e"
    and "cdsl_op_is_relational op" and "unlimited vm" and "\<not> vm_error_state vm"
    and "2 \<le> vm_max_expr_depth vm"
  shows "eval_cases env ctx (xs @ c # ys @ c' # zs) mr vm = eval_cases env ctx (xs @ c # ys @ zs) mr vm"
  using assms evolves_unlimited evolves_depth
  by (intro eval_cases_tail repeated_case_skipped [where l = l and op = op and a = a and b = b]) auto

lemma repeated_case_dead_witness:
  "let cond = \<lambda>n. CDSL_EXPR_BINARY (n, 6) CDSL_OP_GT (CDSL_EXPR_ID (n, 1) ''age'') (CDSL_EXPR_INT (n, 9) 18);
       c = \<lambda>n. \<lparr>case_condition = Some (cond n), case_action = None\<rparr> in
   eval_cases env_plain (cdsl_context_create None) ([] @ c 1 # [] @ c 2 # []) metric_zero cdsl_vm_create
     = eval_cases env_plain (cdsl_context_create None) ([] @ c 1 # [] @ []) metric_zero cdsl_vm_create"
  unfolding Let_def
  by (rule repeated_case_dead [where op = CDSL_OP_GT and l = "(1, 6)" and a = "CDSL_EXPR_ID (1, 1) ''age''"
        and b = "CDSL_EXPR_INT (1, 9) 18"
        and e = "CDSL_EXPR_BINARY (2, 6) CDSL_OP_GT (CDSL_EXPR_ID (2, 1) ''age'') (CDSL_EXPR_INT (2, 9) 18)"])
    (simp_all add: unlimited_def)

text \<open>
  The exception to the analyser's dead-code warnings: it reports a nonzero INT literal as
  always true, yet the tree walker, which only accepts a BOOL, never takes a CASE whose condition is
  such a literal: the branch is skipped.
\<close>

lemma int_literal_condition_never_matches:
  assumes "i \<noteq> 0" and "case_condition c = Some (CDSL_EXPR_INT l i)"
    and "unlimited vm" and "\<not> vm_error_state vm" and "1 \<le> vm_max_expr_depth vm"
  shows "expr_is_const_true (CDSL_EXPR_INT l i)
    \<and> eval_cases env ctx (c # cs) mr vm = eval_cases env ctx cs mr vm"
proof -
  have "eval_opt env ctx (Some (CDSL_EXPR_INT l i)) vm = (VInt i, vm)"
    using eval_opt_den [of "CDSL_EXPR_INT l i" vm env ctx] assms(3-5) by (auto simp: run_outcome_def)
  then show ?thesis using assms by simp
qed

lemma int_literal_condition_never_matches_witness:
  "eval_cases env_plain (cdsl_context_create None)
     [\<lparr>case_condition = Some (CDSL_EXPR_INT (1, 1) 5), case_action = None\<rparr>] metric_zero cdsl_vm_create
     = (False, metric_zero, cdsl_vm_create)"
  using int_literal_condition_never_matches [of 5
      "\<lparr>case_condition = Some (CDSL_EXPR_INT (1, 1) 5), case_action = None\<rparr>" "(1, 1)" cdsl_vm_create
      env_plain "cdsl_context_create None" "[]" metric_zero]
  by (simp add: unlimited_def)

end
