(* ===== verification/Cdsl_Json.thy ===== *)
theory Cdsl_Json
  imports Cdsl_Report
begin

section \<open>JSON (\<open>src/util/json.c\<close>)\<close>

text \<open>
  The parser works on a NUL-terminated text; the model keeps the part that is left to read, whose
  end is the NUL. Every function returns what it has parsed, \<open>None\<close> for \<open>NULL\<close>, together with the
  text that is left: where a failed attempt stops matters to its caller.
\<close>

subsection \<open>\<open>strtod\<close>\<close>

text \<open>
  The C library function in the C locale: an optional sign, then a decimal or hexadecimal number, an
  infinity or a NaN; the result is the nearest double. \<open>None\<close>: nothing is converted.
\<close>

definition c_isxdigit :: "char \<Rightarrow> bool" where
  "c_isxdigit c \<longleftrightarrow> c_isdigit c \<or> (97 \<le> char_code c \<and> char_code c \<le> 102) \<or> (65 \<le> char_code c \<and> char_code c \<le> 70)"

definition xdigit_value :: "char \<Rightarrow> nat" where
  "xdigit_value c = (if c_isdigit c then char_code c - 48 else char_code (c_tolower c) - 87)"

definition radix_value :: "nat \<Rightarrow> string \<Rightarrow> nat" where
  "radix_value r ds = foldl (\<lambda>acc c. acc * r + xdigit_value c) 0 ds"

text \<open>An exponent part: the letter, an optional sign and at least one digit; without them nothing is read.\<close>

definition exponent_part :: "char \<Rightarrow> string \<Rightarrow> int \<times> string" where
  "exponent_part letter s =
     (case s of
        [] \<Rightarrow> (0, s)
      | c # t \<Rightarrow>
          if c_tolower c \<noteq> letter then (0, s)
          else let neg = (t \<noteq> [] \<and> hd t = CHR ''-'');
                   t1 = (if t \<noteq> [] \<and> (hd t = CHR ''-'' \<or> hd t = CHR ''+'') then tl t else t);
                   ds = takeWhile c_isdigit t1
               in if ds = [] then (0, s)
                  else ((if neg then - int (radix_value 10 ds) else int (radix_value 10 ds)), dropWhile c_isdigit t1))"

definition f64_scale :: "bool \<Rightarrow> nat \<Rightarrow> nat \<Rightarrow> int \<Rightarrow> f64" where
  "f64_scale neg m r e =
     (if 0 \<le> e then f64_round neg (m * r ^ nat e * f64_unit) 1
      else f64_round neg (m * f64_unit) (r ^ nat (- e)))"

text \<open>Digits with an optional point, in radix 10 with exponent \<open>e\<close> or in radix 16 with exponent \<open>p\<close>.\<close>

definition number_body :: "bool \<Rightarrow> bool \<Rightarrow> string \<Rightarrow> (f64 \<times> string) option" where
  "number_body neg hex s =
     (let digit = (if hex then c_isxdigit else c_isdigit);
          ip = takeWhile digit s;
          s1 = dropWhile digit s;
          point = (s1 \<noteq> [] \<and> hd s1 = CHR ''.'');
          fp = (if point then takeWhile digit (tl s1) else []);
          s2 = (if point then dropWhile digit (tl s1) else s1)
      in if ip = [] \<and> fp = [] then None
         else if hex
         then (case exponent_part (CHR ''p'') s2 of (e, r) \<Rightarrow>
                 Some (f64_scale neg (radix_value 16 (ip @ fp)) 2 (e - 4 * int (length fp)), r))
         else (case exponent_part (CHR ''e'') s2 of (e, r) \<Rightarrow>
                 Some (f64_scale neg (radix_value 10 (ip @ fp)) 10 (e - int (length fp)), r)))"

definition lower_prefix :: "string \<Rightarrow> string \<Rightarrow> bool" where
  "lower_prefix p s \<longleftrightarrow> map c_tolower (take (length p) s) = p"

definition nan_tail :: "string \<Rightarrow> string" where
  "nan_tail s =
     (if s \<noteq> [] \<and> hd s = CHR ''(''
      then let t = dropWhile (\<lambda>c. c_isdigit c \<or> (97 \<le> char_code (c_tolower c) \<and> char_code (c_tolower c) \<le> 122)
                                   \<or> c = CHR ''_'') (tl s)
           in if t \<noteq> [] \<and> hd t = CHR '')'' then tl t else s
      else s)"

definition c_strtod :: "string \<Rightarrow> (f64 \<times> string) option" where
  "c_strtod s0 =
     (let s1 = dropWhile c_isspace s0;
          neg = (s1 \<noteq> [] \<and> hd s1 = CHR ''-'');
          s = (if s1 \<noteq> [] \<and> (hd s1 = CHR ''-'' \<or> hd s1 = CHR ''+'') then tl s1 else s1)
      in if lower_prefix ''infinity'' s then Some (f64_inf neg, drop 8 s)
         else if lower_prefix ''inf'' s then Some (f64_inf neg, drop 3 s)
         else if lower_prefix ''nan'' s then Some (f64_nan, nan_tail (drop 3 s))
         else if lower_prefix ''0x'' s
         then (case number_body neg True (drop 2 s) of
                 None \<Rightarrow> Some (f64_zero neg, tl s)
               | Some r \<Rightarrow> Some r)
         else number_body neg False s)"

subsection \<open>Strings\<close>

definition skip_ws :: "string \<Rightarrow> string" where
  "skip_ws s = dropWhile c_isspace s"

text \<open>The four hexadecimal digits of \<open>\\u\<close>; it stops at the first character that is none.\<close>

fun hex_digits :: "nat \<Rightarrow> nat \<Rightarrow> string \<Rightarrow> nat option \<times> string" where
  "hex_digits 0 code s = (Some code, s)"
| "hex_digits (Suc n) code [] = (None, [])"
| "hex_digits (Suc n) code (c # cs) =
     (if c_isxdigit c then hex_digits n (code * 16 + xdigit_value c) cs else (None, c # cs))"

definition utf8 :: "nat \<Rightarrow> string" where
  "utf8 code =
     (if code < 128 then [char_of code]
      else if code < 0x800 then [char_of (0xC0 + code div 64), char_of (0x80 + code mod 64)]
      else [char_of (0xE0 + code div 4096), char_of (0x80 + code div 64 mod 64), char_of (0x80 + code mod 64)])"

definition escaped :: "char \<Rightarrow> char" where
  "escaped c =
     (if c = CHR ''b'' then CHR 0x08 else if c = CHR ''f'' then CHR 0x0C
      else if c = CHR ''n'' then CHR 0x0A else if c = CHR ''r'' then CHR 0x0D
      else if c = CHR ''t'' then CHR 0x09 else c)"

text \<open>The loop over the characters behind the opening quote.\<close>

definition push :: "string \<Rightarrow> string option \<times> string \<Rightarrow> string option \<times> string" where
  "push bytes r = (map_option ((@) bytes) (fst r), snd r)"

lemma hex_digits_shorter: "hex_digits n code s = (r, s') \<Longrightarrow> length s' \<le> length s"
  by (induction n code s rule: hex_digits.induct) (auto split: if_splits)

lemma hex_digits_shorter_Suc [termination_simp]:
  "(r, s') = hex_digits n code s \<Longrightarrow> length s' < Suc (Suc (length s))"
  using hex_digits_shorter [of n code s r s'] by simp

fun string_chars :: "string \<Rightarrow> string option \<times> string" where
  "string_chars [] = (None, [])"
| "string_chars (c # cs) =
     (if c = CHR 0x22 then (Some [], cs)
      else if c = CHR 0x5C then
        (case cs of
           [] \<Rightarrow> (None, [])
         | d # ds \<Rightarrow>
             if d = CHR ''u'' then
               (case hex_digits 4 0 ds of
                  (None, r) \<Rightarrow> (None, r)
                | (Some code, r) \<Rightarrow> push (utf8 code) (string_chars r))
             else push [escaped d] (string_chars ds))
      else push [c] (string_chars cs))"

text \<open>The bytes are read as a C string later on, up to the first NUL.\<close>

definition c_string :: "string \<Rightarrow> string" where
  "c_string bytes = takeWhile (\<lambda>c. c \<noteq> CHR 0x00) bytes"

definition parse_string_raw :: "string \<Rightarrow> string option \<times> string" where
  "parse_string_raw s =
     (case s of
        c # cs \<Rightarrow> if c = CHR 0x22 then (case string_chars cs of (r, t) \<Rightarrow> (map_option c_string r, t)) else (None, s)
      | [] \<Rightarrow> (None, s))"

subsection \<open>Values\<close>

datatype cdsl_json =
    CDSL_JSON_NULL
  | CDSL_JSON_BOOL i32
  | CDSL_JSON_NUMBER f64
  | CDSL_JSON_STRING string
  | CDSL_JSON_OBJECT "(string \<times> cdsl_json) list"
  | CDSL_JSON_ARRAY "cdsl_json list"

definition CDSL_JSON_MAX_DEPTH :: nat where
  "CDSL_JSON_MAX_DEPTH = 256"

definition skip_comma :: "string \<Rightarrow> string" where
  "skip_comma s = (if s \<noteq> [] \<and> hd s = CHR '','' then tl s else s)"

text \<open>The scalars: everything but objects and arrays.\<close>

definition parse_scalar :: "string \<Rightarrow> cdsl_json option \<times> string" where
  "parse_scalar s =
     (case s of
        [] \<Rightarrow> (None, s)
      | c # cs \<Rightarrow>
          if c = CHR 0x22 then (case parse_string_raw s of (r, t) \<Rightarrow> (map_option CDSL_JSON_STRING r, t))
          else if c = CHR ''t'' then
            (if take 4 s = ''true'' then (Some (CDSL_JSON_BOOL 1), drop 4 s) else (None, s))
          else if c = CHR ''f'' then
            (if take 5 s = ''false'' then (Some (CDSL_JSON_BOOL 0), drop 5 s) else (None, s))
          else if c = CHR ''n'' then
            (if take 4 s = ''null'' then (Some CDSL_JSON_NULL, drop 4 s) else (None, s))
          else if c = CHR ''-'' \<or> c_isdigit c then
            (case c_strtod s of
               None \<Rightarrow> (Some (CDSL_JSON_NUMBER (f64_zero False)), s)
             | Some (f, t) \<Rightarrow> (Some (CDSL_JSON_NUMBER f), t))
          else (None, s))"

text \<open>
  \<open>parse_object\<close> and \<open>parse_array\<close> around their loops, which are passed as functions. Fuel bounds the
  recursion, \<open>None\<close> when it does not suffice. A loop stops at the closing bracket, at the end of the
  text or at a malformed entry; its caller then looks for the bracket.
\<close>

definition parse_object ::
  "(string \<Rightarrow> ((string \<times> cdsl_json) list \<times> string) option) \<Rightarrow> string \<Rightarrow> (cdsl_json option \<times> string) option" where
  "parse_object items s =
     map_option (\<lambda>(vs, r). if r \<noteq> [] \<and> hd r = CHR ''}'' then (Some (CDSL_JSON_OBJECT vs), tl r) else (None, r))
       (items (skip_ws (tl s)))"

definition parse_array ::
  "(string \<Rightarrow> (cdsl_json list \<times> string) option) \<Rightarrow> string \<Rightarrow> (cdsl_json option \<times> string) option" where
  "parse_array items s =
     map_option (\<lambda>(vs, r). if r \<noteq> [] \<and> hd r = CHR '']'' then (Some (CDSL_JSON_ARRAY vs), tl r) else (None, r))
       (items (skip_ws (tl s)))"

function (sequential) parse_value :: "nat \<Rightarrow> nat \<Rightarrow> string \<Rightarrow> (cdsl_json option \<times> string) option"
  and object_items :: "nat \<Rightarrow> nat \<Rightarrow> string \<Rightarrow> ((string \<times> cdsl_json) list \<times> string) option"
  and array_items :: "nat \<Rightarrow> nat \<Rightarrow> string \<Rightarrow> (cdsl_json list \<times> string) option"
where
  "parse_value 0 depth s0 = None"
| "parse_value (Suc n) depth s0 =
     (if CDSL_JSON_MAX_DEPTH \<le> depth then Some (None, s0)
      else let s = skip_ws s0 in
        if s \<noteq> [] \<and> hd s = CHR ''{'' then parse_object (\<lambda>t. object_items n (depth + 1) t) s
        else if s \<noteq> [] \<and> hd s = CHR ''['' then parse_array (\<lambda>t. array_items n (depth + 1) t) s
        else Some (parse_scalar s))"
| "object_items 0 depth s = None"
| "object_items (Suc n) depth s =
     (if s = [] \<or> hd s = CHR ''}'' then Some ([], s)
      else case parse_string_raw (skip_ws s) of
        (None, r) \<Rightarrow> Some ([], r)
      | (Some key, r) \<Rightarrow>
          let r1 = skip_ws r in
          if r1 = [] \<or> hd r1 \<noteq> CHR '':'' then Some ([], r1)
          else (case parse_value n depth (skip_ws (tl r1)) of
             None \<Rightarrow> None
           | Some (None, r2) \<Rightarrow> Some ([], r2)
           | Some (Some v, r2) \<Rightarrow>
               map_option (\<lambda>(items, r3). ((key, v) # items, r3)) (object_items n depth (skip_comma (skip_ws r2)))))"
| "array_items 0 depth s = None"
| "array_items (Suc n) depth s =
     (if s = [] \<or> hd s = CHR '']'' then Some ([], s)
      else case parse_value n depth (skip_ws s) of
          None \<Rightarrow> None
        | Some (None, r2) \<Rightarrow> Some ([], r2)
        | Some (Some v, r2) \<Rightarrow>
            map_option (\<lambda>(items, r3). (v # items, r3)) (array_items n depth (skip_comma (skip_ws r2))))"
  by pat_completeness auto

termination
  by (relation "measure (\<lambda>x. case x of Inl (n, d, s) \<Rightarrow> n | Inr (Inl (n, d, s)) \<Rightarrow> n | Inr (Inr (n, d, s)) \<Rightarrow> n)") auto

declare parse_value.simps [simp del] object_items.simps [simp del] array_items.simps [simp del]

definition cdsl_json_parse :: "nat \<Rightarrow> string option \<Rightarrow> cdsl_json option option" where
  "cdsl_json_parse fuel json =
     (case json of None \<Rightarrow> Some None | Some s \<Rightarrow> map_option fst (parse_value fuel 0 s))"

subsection \<open>Access\<close>

fun cdsl_json_object_length :: "cdsl_json option \<Rightarrow> nat" where
  "cdsl_json_object_length (Some (CDSL_JSON_OBJECT items)) = length items"
| "cdsl_json_object_length _ = 0"

fun cdsl_json_array_length :: "cdsl_json option \<Rightarrow> nat" where
  "cdsl_json_array_length (Some (CDSL_JSON_ARRAY items)) = length items"
| "cdsl_json_array_length _ = 0"

fun find_item :: "(string \<times> cdsl_json) list \<Rightarrow> string \<Rightarrow> cdsl_json option" where
  "find_item [] key = None"
| "find_item (it # items) key = (if fst it = key then Some (snd it) else find_item items key)"

fun cdsl_json_get_object :: "cdsl_json option \<Rightarrow> string option \<Rightarrow> cdsl_json option" where
  "cdsl_json_get_object (Some (CDSL_JSON_OBJECT items)) (Some key) = find_item items key"
| "cdsl_json_get_object _ _ = None"

fun cdsl_json_get_array :: "cdsl_json option \<Rightarrow> int \<Rightarrow> cdsl_json option" where
  "cdsl_json_get_array (Some (CDSL_JSON_ARRAY items)) idx =
     (if idx < 0 then None else if nat idx < length items then Some (items ! nat idx) else None)"
| "cdsl_json_get_array _ _ = None"

end
