(* ===== verification/Cdsl_Json_Total.thy ===== *)
theory Cdsl_Json_Total
  imports Cdsl_Json "HOL-Library.Sublist"
begin

section \<open>Termination of the JSON parser\<close>

text \<open>
  More fuel never changes a result; the parser returns on every text in which a minus sign starts a
  number, and does not on others.
\<close>

subsection \<open>Fuel\<close>

lemma parse_fuel_Suc:
  "(\<forall>d s. parse_value n d s = None \<or> parse_value (Suc n) d s = parse_value n d s)
   \<and> (\<forall>d s. object_items n d s = None \<or> object_items (Suc n) d s = object_items n d s)
   \<and> (\<forall>d s. array_items n d s = None \<or> array_items (Suc n) d s = array_items n d s)"
proof (induction n)
  case (Suc n)
  then have v: "\<And>d s. parse_value n d s = None \<or> parse_value (Suc n) d s = parse_value n d s"
    and ob: "\<And>d s. object_items n d s = None \<or> object_items (Suc n) d s = object_items n d s"
    and ar: "\<And>d s. array_items n d s = None \<or> array_items (Suc n) d s = array_items n d s" by blast+
  have "parse_value (Suc n) d s = None \<or> parse_value (Suc (Suc n)) d s = parse_value (Suc n) d s" for d s
    using ob [of "d + 1" "skip_ws (tl (skip_ws s))"] ar [of "d + 1" "skip_ws (tl (skip_ws s))"]
    unfolding parse_value.simps(2) [of n d s] parse_value.simps(2) [of "Suc n" d s] Let_def parse_object_def parse_array_def
    by auto
  moreover have "object_items (Suc n) d s = None \<or> object_items (Suc (Suc n)) d s = object_items (Suc n) d s" for d s
  proof -
    obtain k t where k: "parse_string_raw (skip_ws s) = (k, t)" by force
    show ?thesis
    proof (cases "parse_value n d (skip_ws (tl (skip_ws t)))")
      case None
      then show ?thesis
        unfolding object_items.simps(2) [of n d s] object_items.simps(2) [of "Suc n" d s] k Let_def
        by (auto split: option.split)
    next
      case (Some p)
      with v [of d "skip_ws (tl (skip_ws t))"] have "parse_value (Suc n) d (skip_ws (tl (skip_ws t))) = Some p" by simp
      then show ?thesis
        using ob [of d "skip_comma (skip_ws (snd p))"]
        unfolding object_items.simps(2) [of n d s] object_items.simps(2) [of "Suc n" d s] k Let_def
        by (cases p) (auto simp: Some split: option.split)
    qed
  qed
  moreover have "array_items (Suc n) d s = None \<or> array_items (Suc (Suc n)) d s = array_items (Suc n) d s" for d s
  proof (cases "parse_value n d (skip_ws s)")
    case None
    then show ?thesis unfolding array_items.simps(2) [of n d s] array_items.simps(2) [of "Suc n" d s] by simp
  next
    case (Some p)
    with v [of d "skip_ws s"] have "parse_value (Suc n) d (skip_ws s) = Some p" by simp
    then show ?thesis
      using ar [of d "skip_comma (skip_ws (snd p))"]
      unfolding array_items.simps(2) [of n d s] array_items.simps(2) [of "Suc n" d s]
      by (cases p) (auto simp: Some split: option.split)
  qed
  ultimately show ?case by blast
qed (simp add: parse_value.simps object_items.simps array_items.simps)

lemma parse_fuel_mono: "parse_value n d s = Some r \<Longrightarrow> n \<le> m \<Longrightarrow> parse_value m d s = Some r"
proof (induction m)
  case (Suc m)
  then show ?case using parse_fuel_Suc [of m] by (metis le_Suc_eq option.distinct(1))
qed simp

subsection \<open>Termination\<close>

text \<open>A text on which \<open>strtod\<close> moves on wherever the parser calls it.\<close>

definition numbers_advance :: "string \<Rightarrow> bool" where
  "numbers_advance s = list_all (\<lambda>t. t \<noteq> [] \<and> hd t = CHR ''-'' \<longrightarrow> c_strtod t \<noteq> None) (suffixes s)"

lemma numbers_advance_suffix: "numbers_advance s \<Longrightarrow> suffix t s \<Longrightarrow> numbers_advance t"
  by (auto simp: numbers_advance_def list_all_iff intro: suffix_order.trans)

lemma suffix_dropWhile_c: "suffix (dropWhile P s) s"
  by (rule suffix_dropWhile)

lemma exponent_suffix: "exponent_part l s = (e, r) \<Longrightarrow> suffix r s"
proof (cases s)
  case (Cons c t)
  assume "exponent_part l s = (e, r)"
  moreover have "suffix (dropWhile c_isdigit (tl t)) (c # t)" "suffix (dropWhile c_isdigit t) (c # t)"
    by (metis suffix_ConsI suffix_dropWhile suffix_order.trans suffix_tl)+
  ultimately show ?thesis using Cons by (auto simp: exponent_part_def Let_def split: if_splits)
qed (simp add: exponent_part_def)

lemma number_body_advances:
  assumes "number_body neg hex s = Some (f, r)"
  shows "suffix r s" and "length r < length s"
proof -
  define digit where "digit = (if hex then c_isxdigit else c_isdigit)"
  define s1 where "s1 = dropWhile digit s"
  define point where "point = (s1 \<noteq> [] \<and> hd s1 = CHR ''.'')"
  define s2 where "s2 = (if point then dropWhile digit (tl s1) else s1)"
  have 1: "suffix s1 s" by (simp add: s1_def suffix_dropWhile)
  have 2: "suffix s2 s1" by (simp add: s2_def) (metis suffix_dropWhile suffix_order.trans suffix_tl)
  have "suffix r s2"
    using assms unfolding number_body_def Let_def digit_def [symmetric] s1_def [symmetric] point_def [symmetric] s2_def [symmetric]
    by (auto split: if_splits prod.splits dest: exponent_suffix)
  with 1 2 show "suffix r s" by (metis suffix_order.trans)
  have "takeWhile digit s \<noteq> [] \<or> point"
    using assms unfolding number_body_def Let_def digit_def [symmetric] s1_def [symmetric] point_def [symmetric] s2_def [symmetric]
    by (auto split: if_splits)
  then have "length s2 < length s"
  proof
    assume "takeWhile digit s \<noteq> []"
    then have "length s1 < length s"
      by (metis add_diff_cancel_left' length_append length_greater_0_conv s1_def takeWhile_dropWhile_id less_add_same_cancel2)
    then show ?thesis using suffix_length_le [OF 2] by simp
  next
    assume p: point
    then have "length (tl s1) < length s1" by (simp add: point_def)
    moreover have "length s2 \<le> length (tl s1)"
      using p length_dropWhile_le [of digit "tl s1"] by (simp add: s2_def)
    ultimately show ?thesis using suffix_length_le [OF 1] by simp
  qed
  then show "length r < length s" using suffix_length_le [OF \<open>suffix r s2\<close>] by simp
qed

lemma strtod_advances:
  assumes "c_strtod s0 = Some (f, r)"
  shows "suffix r s0" and "length r < length s0"
proof -
  define s1 where "s1 = dropWhile c_isspace s0"
  define s where "s = (if s1 \<noteq> [] \<and> (hd s1 = CHR ''-'' \<or> hd s1 = CHR ''+'') then tl s1 else s1)"
  have "suffix s s1" by (simp add: s_def suffix_tl)
  then have 1: "suffix s s0" using suffix_dropWhile [of c_isspace s0] unfolding s1_def by (rule suffix_order.trans)
  have nan: "suffix (nan_tail t) t" for t
  proof -
    have "suffix (tl (dropWhile P (tl t))) t" for P
      by (rule suffix_order.trans [OF suffix_tl suffix_order.trans [OF suffix_dropWhile suffix_tl]])
    then show ?thesis by (simp add: nan_tail_def Let_def)
  qed
  have shorter: "lower_prefix p t \<Longrightarrow> length p \<le> length t" for p t
    unfolding lower_prefix_def by (metis length_map length_take min.cobounded1)
  have r: "c_strtod s0 =
      (if lower_prefix ''infinity'' s then Some (f64_inf (s1 \<noteq> [] \<and> hd s1 = CHR ''-''), drop 8 s)
       else if lower_prefix ''inf'' s then Some (f64_inf (s1 \<noteq> [] \<and> hd s1 = CHR ''-''), drop 3 s)
       else if lower_prefix ''nan'' s then Some (f64_nan, nan_tail (drop 3 s))
       else if lower_prefix ''0x'' s
       then (case number_body (s1 \<noteq> [] \<and> hd s1 = CHR ''-'') True (drop 2 s) of
               None \<Rightarrow> Some (f64_zero (s1 \<noteq> [] \<and> hd s1 = CHR ''-''), tl s)
             | Some r \<Rightarrow> Some r)
       else number_body (s1 \<noteq> [] \<and> hd s1 = CHR ''-'') False s)"
    unfolding c_strtod_def Let_def s1_def [symmetric] s_def [symmetric] ..
  have cut: "suffix t s \<and> length t < length s" if "suffix t (drop k s)" and "k \<le> length s" and "0 < k" for t k
    using that suffix_length_le [OF that(1)] by (auto intro: suffix_order.trans suffix_drop)
  have "suffix r s \<and> length r < length s"
  proof (cases "lower_prefix ''infinity'' s")
    case True
    with shorter [OF True] assms r show ?thesis by (intro cut [of _ 8]) auto
  next
    case not1: False
    show ?thesis
    proof (cases "lower_prefix ''inf'' s")
      case True
      with shorter [OF True] assms r not1 show ?thesis by (intro cut [of _ 3]) auto
    next
      case not2: False
      show ?thesis
      proof (cases "lower_prefix ''nan'' s")
        case True
        with shorter [OF True] assms r not1 not2 nan show ?thesis by (intro cut [of _ 3]) auto
      next
        case not3: False
        show ?thesis
        proof (cases "lower_prefix ''0x'' s")
          case True
          with shorter [OF True] have l: "2 \<le> length s" by simp
          show ?thesis
          proof (cases "number_body (s1 \<noteq> [] \<and> hd s1 = CHR ''-'') True (drop 2 s)")
            case None
            with l True assms r not1 not2 not3 show ?thesis by (intro cut [of _ 1]) (auto simp: drop_Suc)
          next
            case (Some q)
            with True assms r not1 not2 not3 have "q = (f, r)" by simp
            with number_body_advances(1) Some have "suffix r (drop 2 s)" by metis
            with l show ?thesis by (intro cut [of _ 2]) auto
          qed
        next
          case False
          with assms r not1 not2 not3 number_body_advances show ?thesis by simp
        qed
      qed
    qed
  qed
  with 1 show "suffix r s0" and "length r < length s0"
    by (auto intro: suffix_order.trans dest: suffix_length_le)
qed

lemma hex_digits_suffix: "suffix (snd (hex_digits n k s)) s"
  by (induction n k s rule: hex_digits.induct) (auto intro: suffix_ConsI)

lemma push_snd [simp]: "snd (push b r) = snd r"
  by (simp add: push_def)

lemma string_chars_snd: "suffix (snd (string_chars s)) s"
proof (induction s rule: string_chars.induct)
  case (2 c cs)
  show ?case
  proof (cases cs)
    case Nil
    then show ?thesis using 2 by simp
  next
    case (Cons d ds)
    obtain q u where h: "hex_digits 4 0 ds = (q, u)" by force
    with hex_digits_suffix [of 4 0 ds] have u: "suffix u (c # d # ds)" by (auto intro: suffix_ConsI)
    have 1: "suffix (snd (string_chars u)) u" if "c = CHR 0x5C" "d = CHR ''u''" "q \<noteq> None"
      using 2(1) [OF _ _ Cons _ h [symmetric]] that by auto
    have 3: "suffix (snd (string_chars ds)) ds" if "c = CHR 0x5C" "d \<noteq> CHR ''u''"
      using 2(2) [OF _ _ Cons] that by auto
    have 4: "suffix (snd (string_chars cs)) cs" if "c \<noteq> CHR 0x5C" "c \<noteq> CHR 0x22"
      using 2(3) that by auto
    show ?thesis
    proof (cases "c = CHR 0x22")
      case True
      then show ?thesis by (simp add: suffix_ConsI)
    next
      case q: False
      show ?thesis
      proof (cases "c = CHR 0x5C")
        case True
        then show ?thesis using u 1 3 Cons h
          by (cases "d = CHR ''u''"; cases q) (auto intro: suffix_ConsI suffix_order.trans)
      next
        case False
        then show ?thesis using 4 q by (simp add: suffix_ConsI)
      qed
    qed
  qed
qed simp

lemma string_chars_suffix: "string_chars s = (r, t) \<Longrightarrow> suffix t s"
  using string_chars_snd [of s] by simp

lemma parse_string_suffix:
  assumes "parse_string_raw s = (r, t)"
  shows "suffix t s" and "r \<noteq> None \<Longrightarrow> length t < length s"
proof -
  have "suffix t s \<and> (r \<noteq> None \<longrightarrow> length t < length s)"
    using assms by (auto simp: parse_string_raw_def split: list.splits if_splits prod.splits
        dest!: string_chars_suffix intro: suffix_ConsI dest: suffix_length_le)
  then show "suffix t s" and "r \<noteq> None \<Longrightarrow> length t < length s" by blast+
qed

lemma strtod_digit: "s \<noteq> [] \<Longrightarrow> c_isdigit (hd s) \<Longrightarrow> c_strtod s \<noteq> None"
proof -
  assume a: "s \<noteq> []" "c_isdigit (hd s)"
  then have "\<not> c_isspace (hd s)" "hd s \<noteq> CHR ''-''" "hd s \<noteq> CHR ''+''"
    by (auto simp: c_isdigit_def c_isspace_def char_code_def)
  moreover have "number_body neg False s \<noteq> None" for neg
    using a by (cases s) (auto simp: number_body_def Let_def split: prod.split)
  ultimately show ?thesis using a by (cases s) (auto simp: c_strtod_def Let_def split: option.split)
qed

lemma parse_scalar_advances:
  assumes "parse_scalar s = (v, r)" and "numbers_advance s"
  shows "suffix r s" and "v \<noteq> None \<Longrightarrow> length r < length s"
proof -
  have num: "c_strtod s \<noteq> None" if "s \<noteq> []" "hd s = CHR ''-'' \<or> c_isdigit (hd s)"
    using that assms(2) strtod_digit [of s] by (auto simp: numbers_advance_def list_all_iff)
  have t: "take k s = w \<Longrightarrow> w \<noteq> [] \<Longrightarrow> length w = k \<Longrightarrow> length (drop k s) < length s" for k w
    by (cases s) auto
  have "suffix r s \<and> (v \<noteq> None \<longrightarrow> length r < length s)"
  proof (cases s)
    case (Cons c cs)
    then show ?thesis
      using assms(1) num t [of 4 "''true''"] t [of 5 "''false''"] t [of 4 "''null''"]
      by (auto simp: parse_scalar_def split: if_splits prod.splits option.splits
          dest: parse_string_suffix strtod_advances intro: suffix_drop suffix_ConsI)
  qed (use assms(1) in \<open>simp add: parse_scalar_def\<close>)
  then show "suffix r s" and "v \<noteq> None \<Longrightarrow> length r < length s" by blast+
qed

lemma skip_suffix: "suffix (skip_ws s) s" "suffix (skip_comma s) s"
  by (simp_all add: skip_ws_def skip_comma_def suffix_dropWhile suffix_tl)

lemma skip_length: "length (skip_ws s) \<le> length s" "length (skip_comma s) \<le> length s"
  by (simp_all add: skip_suffix suffix_length_le)

text \<open>What the parsers return, when they read a suffix and values are not empty.\<close>

definition advanced :: "string \<Rightarrow> (cdsl_json option \<times> string) option \<Rightarrow> bool" where
  "advanced s q = (case q of None \<Rightarrow> False
     | Some (v, r) \<Rightarrow> suffix r s \<and> (v \<noteq> None \<longrightarrow> length r < length s))"

lemma parsers_return:
  "(\<forall>d s. numbers_advance s \<and> 2 * length s + 2 \<le> n \<longrightarrow> advanced s (parse_value n d s))
   \<and> (\<forall>d s. numbers_advance s \<and> 2 * length s + 3 \<le> n \<longrightarrow> (\<exists>vs r. object_items n d s = Some (vs, r) \<and> suffix r s))
   \<and> (\<forall>d s. numbers_advance s \<and> 2 * length s + 3 \<le> n \<longrightarrow> (\<exists>vs r. array_items n d s = Some (vs, r) \<and> suffix r s))"
proof (induction n)
  case (Suc n)
  then have v: "\<And>d s. numbers_advance s \<Longrightarrow> 2 * length s + 2 \<le> n \<Longrightarrow> advanced s (parse_value n d s)"
    and ob: "\<And>d s. numbers_advance s \<Longrightarrow> 2 * length s + 3 \<le> n \<Longrightarrow> \<exists>vs r. object_items n d s = Some (vs, r) \<and> suffix r s"
    and ar: "\<And>d s. numbers_advance s \<Longrightarrow> 2 * length s + 3 \<le> n \<Longrightarrow> \<exists>vs r. array_items n d s = Some (vs, r) \<and> suffix r s"
    by blast+
  have "advanced s0 (parse_value (Suc n) d s0)" if a: "numbers_advance s0" "2 * length s0 + 2 \<le> Suc n" for d s0
  proof -
    define s where "s = skip_ws s0"
    have s: "suffix s s0" "numbers_advance s" using a(1) skip_suffix numbers_advance_suffix by (auto simp: s_def)
    have scalar: "advanced s0 (Some (parse_scalar s))"
      using parse_scalar_advances [OF _ s(2)] s(1)
      by (cases "parse_scalar s") (auto simp: advanced_def intro: suffix_order.trans dest: suffix_length_le)
    define t where "t = skip_ws (tl s)"
    have t: "suffix t s" unfolding t_def by (rule suffix_order.trans [OF skip_suffix(1) suffix_tl])
    have tn: "numbers_advance t" by (rule numbers_advance_suffix [OF s(2) t])
    have len: "2 * length t + 3 \<le> n" if "s \<noteq> []"
      using that skip_length(1) [of "tl s"] suffix_length_le [OF s(1)] a(2) by (cases s) (auto simp: t_def)
    have close: "advanced s0 (Some (if r \<noteq> [] \<and> hd r = b then (w, tl r) else (None, r)))"
      if "suffix r t" and "s \<noteq> []" for r b w
    proof -
      have "length (tl r) < length s0 \<or> r = []"
        using suffix_length_le [OF that(1)] suffix_length_le [OF t] suffix_length_le [OF s(1)] by (cases r) auto
      moreover have "suffix r s0" "suffix (tl r) s0"
        using that(1) t s(1) by (blast intro: suffix_order.trans suffix_tl)+
      ultimately show ?thesis by (auto simp: advanced_def)
    qed
    show ?thesis
    proof (cases "CDSL_JSON_MAX_DEPTH \<le> d")
      case True
      then show ?thesis by (simp add: parse_value.simps advanced_def)
    next
      case False
      show ?thesis
      proof (cases "s = []")
        case True
        then show ?thesis using False scalar
          by (simp add: parse_value.simps s_def [symmetric] Let_def)
      next
        case ne: False
        obtain vs r where 1: "object_items n (d + 1) t = Some (vs, r)" "suffix r t"
          using ob [OF tn len [OF ne]] by blast
        obtain ws q where 2: "array_items n (d + 1) t = Some (ws, q)" "suffix q t"
          using ar [OF tn len [OF ne]] by blast
        show ?thesis
          using False ne scalar 1 2 close [OF 1(2) ne] close [OF 2(2) ne]
          by (simp add: parse_value.simps s_def [symmetric] Let_def parse_object_def parse_array_def t_def [symmetric])
      qed
    qed
  qed
  moreover have "\<exists>vs r. object_items (Suc n) d s = Some (vs, r) \<and> suffix r s"
    if a: "numbers_advance s" "2 * length s + 3 \<le> Suc n" for d s
  proof -
    obtain k t0 where k: "parse_string_raw (skip_ws s) = (k, t0)" by force
    have t0: "suffix t0 s" using parse_string_suffix(1) [OF k] skip_suffix(1) suffix_order.trans by blast
    define t where "t = skip_ws (tl (skip_ws t0))"
    have t: "suffix t s" unfolding t_def using t0 by (meson skip_suffix(1) suffix_order.trans suffix_tl)
    have "2 * length t + 2 \<le> n" using suffix_length_le [OF t] a(2) by simp
    with v [OF numbers_advance_suffix [OF a(1) t]] have "advanced t (parse_value n d t)" .
    then obtain w r where w: "parse_value n d t = Some (w, r)" "suffix r t" "w \<noteq> None \<Longrightarrow> length r < length t"
      by (auto simp: advanced_def split: option.splits)
    define u where "u = skip_comma (skip_ws r)"
    have u: "suffix u r" unfolding u_def by (meson skip_suffix suffix_order.trans)
    have us: "suffix u s" using u w(2) t by (meson suffix_order.trans)
    have "2 * length u + 3 \<le> n" if "w \<noteq> None"
      using w(3) [OF that] suffix_length_le [OF u] suffix_length_le [OF t] a(2) by simp
    with ob [OF numbers_advance_suffix [OF a(1) us], of d]
    have rest: "w \<noteq> None \<Longrightarrow> \<exists>vs q. object_items n d u = Some (vs, q) \<and> suffix q u" by blast
    have "suffix (skip_ws t0) s" "suffix r s" using t0 skip_suffix(1) w(2) t by (meson suffix_order.trans)+
    then show ?thesis
      using w rest t0 us unfolding object_items.simps(2) [of n d s] k Let_def t_def [symmetric]
      by (cases k; cases w) (auto simp: u_def [symmetric] t_def [symmetric] intro: suffix_order.trans)
  qed
  moreover have "\<exists>vs r. array_items (Suc n) d s = Some (vs, r) \<and> suffix r s"
    if a: "numbers_advance s" "2 * length s + 3 \<le> Suc n" for d s
  proof -
    define t where "t = skip_ws s"
    have t: "suffix t s" by (simp add: t_def skip_suffix)
    have "2 * length t + 2 \<le> n" using suffix_length_le [OF t] a(2) by simp
    with v [OF numbers_advance_suffix [OF a(1) t]] have "advanced t (parse_value n d t)" .
    then obtain w r where w: "parse_value n d t = Some (w, r)" "suffix r t" "w \<noteq> None \<Longrightarrow> length r < length t"
      by (auto simp: advanced_def split: option.splits)
    define u where "u = skip_comma (skip_ws r)"
    have u: "suffix u r" unfolding u_def by (meson skip_suffix suffix_order.trans)
    have us: "suffix u s" using u w(2) t by (meson suffix_order.trans)
    have "2 * length u + 3 \<le> n" if "w \<noteq> None"
      using w(3) [OF that] suffix_length_le [OF u] suffix_length_le [OF t] a(2) by simp
    with ar [OF numbers_advance_suffix [OF a(1) us], of d]
    have rest: "w \<noteq> None \<Longrightarrow> \<exists>vs q. array_items n d u = Some (vs, q) \<and> suffix q u" by blast
    have "suffix r s" using w(2) t by (meson suffix_order.trans)
    then show ?thesis
      using w rest us unfolding array_items.simps(2) [of n d s] t_def [symmetric]
      by (cases w) (auto simp: u_def [symmetric] intro: suffix_order.trans)
  qed
  ultimately show ?case by blast
qed simp

text \<open>
  Claim C27. Parsing terminates, with recursion bounded by twice the length of the text, when every
  minus sign starts a number.
\<close>

theorem json_parse_terminates:
  assumes "numbers_advance s" and "2 * length s + 2 \<le> fuel"
  shows "\<exists>v. cdsl_json_parse fuel (Some s) = Some v"
proof -
  have "advanced s (parse_value fuel 0 s)" 
    by (rule mp [OF conjunct1 [OF parsers_return [of fuel], THEN spec, THEN spec, of s 0]])
      (use assms in simp)
  then obtain v r where "parse_value fuel 0 s = Some (v, r)" by (auto simp: advanced_def split: option.splits)
  then show ?thesis by (simp add: cdsl_json_parse_def)
qed

lemma json_parse_terminates_witness:
  "\<exists>v. cdsl_json_parse 16 (Some ''[[],0]'') = Some v"
proof -
  have "numbers_advance ''[[],0]''" by (simp add: numbers_advance_def)
  from json_parse_terminates [OF this, of 16] show ?thesis by simp
qed

text \<open>
  Claim C33. A minus sign without a number stops the parser from returning: it converts nothing,
  stays where it is and is appended to the array for ever.
\<close>

theorem json_parse_hangs: "cdsl_json_parse fuel (Some ''[-]'') = None"
proof -
  have scalar: "parse_scalar ''-]'' = (Some (CDSL_JSON_NUMBER (f64_zero False)), ''-]'')"
    by (simp add: parse_scalar_def) code_simp
  have ws: "skip_ws ''-]'' = ''-]''" "skip_ws ''[-]'' = ''[-]''" "skip_comma ''-]'' = ''-]''" by code_simp+
  have v: "parse_value n (Suc 0) ''-]'' = (if n = 0 then None else Some (parse_scalar ''-]''))" for n
    by (cases n) (simp_all add: parse_value.simps ws CDSL_JSON_MAX_DEPTH_def)
  have loop: "array_items n (Suc 0) ''-]'' = None" for n
    by (induction n) (simp_all add: array_items.simps ws v scalar)
  have "parse_value fuel 0 ''[-]'' = None"
    by (cases fuel) (simp_all add: parse_value.simps ws CDSL_JSON_MAX_DEPTH_def parse_array_def loop)
  then show ?thesis by (simp add: cdsl_json_parse_def)
qed

end
