(* ===== verification/Cdsl_Json_Text.thy ===== *)
theory Cdsl_Json_Text
  imports Cdsl_Json
begin

section \<open>Round trip of JSON texts\<close>

text \<open>
  The escaping of strings in \<open>src/vm/eval.c\<close>, a printer for JSON values, and the proof that the
  parser reads back what is printed, stated with the text that follows.
\<close>

subsection \<open>Escaping (\<open>src/vm/eval.c\<close>)\<close>

definition hex_char :: "nat \<Rightarrow> char" where
  "hex_char n = char_of (if n < 10 then 48 + n else 87 + n)"

definition escape_char :: "char \<Rightarrow> string" where
  "escape_char c =
     (if c = CHR 0x22 then [CHR 0x5C, CHR 0x22] else if c = CHR 0x5C then [CHR 0x5C, CHR 0x5C]
      else if c = CHR 0x0A then [CHR 0x5C, CHR ''n''] else if c = CHR 0x0D then [CHR 0x5C, CHR ''r'']
      else if c = CHR 0x09 then [CHR 0x5C, CHR ''t''] else if c = CHR 0x08 then [CHR 0x5C, CHR ''b'']
      else if c = CHR 0x0C then [CHR 0x5C, CHR ''f'']
      else if char_code c < 0x20
      then [CHR 0x5C, CHR ''u'', CHR ''0'', CHR ''0'', hex_char (char_code c div 16), hex_char (char_code c mod 16)]
      else [c])"

fun json_escape_len :: "string \<Rightarrow> nat" where
  "json_escape_len [] = 0"
| "json_escape_len (c # cs) =
     (if c \<in> {CHR 0x22, CHR 0x5C, CHR 0x0A, CHR 0x0D, CHR 0x09, CHR 0x08, CHR 0x0C} then 2
      else if char_code c < 0x20 then 6 else 1) + json_escape_len cs"

text \<open>It stops, without an error, when seven bytes or fewer are left in the buffer.\<close>

fun json_escape_buf :: "string \<Rightarrow> nat \<Rightarrow> string" where
  "json_escape_buf [] dst_cap = []"
| "json_escape_buf (c # cs) dst_cap =
     (if dst_cap \<le> 7 then [] else escape_char c @ json_escape_buf cs (dst_cap - length (escape_char c)))"

lemma json_escape_len: "json_escape_len s = length (concat (map escape_char s))"
  by (induction s) (auto simp: escape_char_def)

lemma json_escape_complete:
  "json_escape_len s + 7 < dst_cap \<Longrightarrow> json_escape_buf s dst_cap = concat (map escape_char s)"
  by (induction s arbitrary: dst_cap) (auto simp: json_escape_len escape_char_def)

definition quoted :: "string \<Rightarrow> string" where
  "quoted s = CHR 0x22 # concat (map escape_char s) @ [CHR 0x22]"

definition c_text :: "string \<Rightarrow> bool" where
  "c_text s = list_all (\<lambda>c. c \<noteq> CHR 0x00) s"

lemma hex_char_value:
  assumes "n < 16"
  shows "c_isxdigit (hex_char n)" and "xdigit_value (hex_char n) = n"
  using assms by (simp_all add: hex_char_def c_isxdigit_def c_isdigit_def xdigit_value_def c_tolower_def char_code_def)

lemma string_chars_escape: "string_chars (escape_char c @ r) = push [c] (string_chars r)"
proof -
  consider (short) "c \<in> {CHR 0x22, CHR 0x5C, CHR 0x0A, CHR 0x0D, CHR 0x09, CHR 0x08, CHR 0x0C}"
    | (hex) "c \<notin> {CHR 0x22, CHR 0x5C, CHR 0x0A, CHR 0x0D, CHR 0x09, CHR 0x08, CHR 0x0C}" "char_code c < 0x20"
    | (plain) "c \<notin> {CHR 0x22, CHR 0x5C, CHR 0x0A, CHR 0x0D, CHR 0x09, CHR 0x08, CHR 0x0C}" "\<not> char_code c < 0x20"
    by blast
  then show ?thesis
  proof cases
    case short
    then show ?thesis
      unfolding insert_iff empty_iff
      by (elim disjE FalseE; hypsubst) (simp_all add: escape_char_def escaped_def)
  next
    case hex
    have four: "(4 :: nat) = Suc (Suc (Suc (Suc 0)))" by simp
    have zero: "c_isxdigit CHR ''0''" "xdigit_value CHR ''0'' = 0" by code_simp+
    have "hex_digits 4 0 (CHR ''0'' # CHR ''0'' # hex_char (char_code c div 16) # hex_char (char_code c mod 16) # r)
        = (Some (char_code c), r)"
      using hex(2) hex_char_value [of "char_code c div 16"] hex_char_value [of "char_code c mod 16"]
      unfolding four by (simp add: zero)
    moreover have "utf8 (char_code c) = [c]" using hex(2) by (simp add: utf8_def char_code_def)
    ultimately show ?thesis using hex by (simp add: escape_char_def)
  next
    case plain
    then show ?thesis by (simp add: escape_char_def)
  qed
qed

lemma string_chars_quoted: "string_chars (concat (map escape_char s) @ CHR 0x22 # r) = (Some s, r)"
  by (induction s) (simp_all add: string_chars_escape push_def)

lemma parse_quoted: "c_text s \<Longrightarrow> parse_string_raw (quoted s @ r) = (Some s, r)"
proof -
  assume "c_text s"
  then have "c_string s = s" by (simp add: c_text_def c_string_def takeWhile_eq_all_conv list_all_iff)
  then show ?thesis using string_chars_quoted [of s r] by (simp add: quoted_def parse_string_raw_def)
qed

subsection \<open>Numbers\<close>

text \<open>What follows a value in a text: nothing, a comma or a closing bracket.\<close>

definition ends_value :: "string \<Rightarrow> bool" where
  "ends_value r \<longleftrightarrow> r = [] \<or> hd r \<in> {CHR '','', CHR ''}'', CHR '']''}"

lemma radix_value_append: "radix_value k (xs @ [c]) = radix_value k xs * k + xdigit_value c"
  by (simp add: radix_value_def)

lemma digit_char: "n < 10 \<Longrightarrow> c_isdigit (char_of (48 + n)) \<and> xdigit_value (char_of (48 + n)) = n"
  by (simp add: c_isdigit_def xdigit_value_def char_code_def)

lemma dec_of_nat_digits: "list_all c_isdigit (dec_of_nat n) \<and> radix_value 10 (dec_of_nat n) = n"
proof (induction n rule: dec_of_nat.induct)
  case (1 n)
  show ?case
  proof (cases "n < 10")
    case True
    then show ?thesis using digit_char [of n] by (subst (1 2) dec_of_nat.simps) (simp add: radix_value_def)
  next
    case False
    with 1 digit_char [of "n mod 10"] show ?thesis
      by (subst (1 2) dec_of_nat.simps) (simp add: radix_value_append)
  qed
qed

lemma digit_neq:
  assumes "c_isdigit c"
  shows "c_tolower c = c" and "\<not> c_isspace c" and "c \<noteq> CHR ''-''" and "c \<noteq> CHR ''+''" and "c \<noteq> CHR ''i''"
    and "c \<noteq> CHR ''n''" and "c \<noteq> CHR ''x''"
  using assms by (auto simp: c_isdigit_def c_tolower_def c_isspace_def char_code_def)

lemma strtod_digits:
  assumes d: "list_all c_isdigit ds" "ds \<noteq> []" and r: "ends_value r"
    and s: "s = (if neg then CHR ''-'' # ds else ds)"
  shows "c_strtod (s @ r) = Some (f64_round neg (radix_value 10 ds * f64_unit) 1, r)"
proof -
  obtain c cs where c: "ds = c # cs" "c_isdigit c" using d by (cases ds) auto
  have r': "r = [] \<or> \<not> c_isdigit (hd r) \<and> hd r \<noteq> CHR ''.'' \<and> c_tolower (hd r) \<noteq> CHR ''e'' \<and> c_tolower (hd r) \<noteq> CHR ''x''"
    using r by (auto simp: ends_value_def c_isdigit_def c_tolower_def char_code_def)
  have tw: "takeWhile c_isdigit (ds @ r) = ds" "dropWhile c_isdigit (ds @ r) = r"
    using d(1) r' by (cases r; simp add: list_all_iff)+
  have ex: "exponent_part (CHR ''e'') r = (0, r)" using r' by (cases r) (auto simp: exponent_part_def)
  have body: "number_body neg False (ds @ r) = Some (f64_round neg (radix_value 10 ds * f64_unit) 1, r)"
    using r' d(2) ex unfolding number_body_def Let_def if_False tw by (auto simp: f64_scale_def)
  have first: "lower_prefix (p # ps) (c # xs) \<Longrightarrow> c_tolower c = p" for p ps xs
    by (simp add: lower_prefix_def)
  have second: "lower_prefix [p, q] (c # xs) \<Longrightarrow> xs \<noteq> [] \<and> c_tolower (hd xs) = q" for p q xs
    by (cases xs) (simp_all add: lower_prefix_def)
  have x: "cs @ r = [] \<or> c_tolower (hd (cs @ r)) \<noteq> CHR ''x''"
    using d(1) c(1) r' by (cases cs) (auto simp: digit_neq)
  have pre: "\<not> lower_prefix ''infinity'' (ds @ r)" "\<not> lower_prefix ''inf'' (ds @ r)"
    "\<not> lower_prefix ''nan'' (ds @ r)" "\<not> lower_prefix ''0x'' (ds @ r)"
    using first [of _ _ "cs @ r"] second [of _ _ "cs @ r"] x digit_neq [OF c(2)] unfolding c(1) append_Cons by metis+
  have strip: "dropWhile c_isspace (s @ r) = s @ r"
  proof -
    have "\<not> c_isspace CHR ''-''" by (simp add: c_isspace_def char_code_def)
    then show ?thesis using s c digit_neq(2) [OF c(2)] by simp
  qed
  show ?thesis
  proof (cases neg)
    case True
    then show ?thesis using s pre body unfolding c_strtod_def strip Let_def by simp
  next
    case False
    then show ?thesis using s pre body c digit_neq [OF c(2)] unfolding c_strtod_def strip Let_def by simp
  qed
qed

lemma strtod_int:
  assumes "ends_value r"
  shows "c_strtod (dec_of_int i @ r) = Some (f64_of_int i, r)"
proof (cases "i < 0")
  case True
  then show ?thesis
    using strtod_digits [OF _ dec_of_nat_not_Nil assms, of "nat (- i)" "dec_of_int i" True] dec_of_nat_digits [of "nat (- i)"]
    by (simp add: dec_of_int_def f64_of_int_def)
next
  case False
  then show ?thesis
    using strtod_digits [OF _ dec_of_nat_not_Nil assms, of "nat i" "dec_of_int i" False] dec_of_nat_digits [of "nat i"]
    by (simp add: dec_of_int_def f64_of_int_def)
qed

subsection \<open>Values\<close>

text \<open>A printer for values with integral numbers, and the values it is good for.\<close>

fun json_text :: "cdsl_json \<Rightarrow> string"
  and items_text :: "(string \<times> cdsl_json) list \<Rightarrow> string"
  and elems_text :: "cdsl_json list \<Rightarrow> string"
where
  "json_text CDSL_JSON_NULL = ''null''"
| "json_text (CDSL_JSON_BOOL b) = (if c_true b then ''true'' else ''false'')"
| "json_text (CDSL_JSON_NUMBER f) = dec_of_int (f64_trunc f)"
| "json_text (CDSL_JSON_STRING s) = quoted s"
| "json_text (CDSL_JSON_OBJECT items) = ''{'' @ items_text items @ ''}''"
| "json_text (CDSL_JSON_ARRAY elems) = ''['' @ elems_text elems @ '']''"
| "items_text [] = []"
| "items_text ((k, v) # items) =
     quoted k @ '':'' @ json_text v @ (if items = [] then [] else '','' @ items_text items)"
| "elems_text [] = []"
| "elems_text (v # elems) = json_text v @ (if elems = [] then [] else '','' @ elems_text elems)"

fun printable :: "nat \<Rightarrow> cdsl_json \<Rightarrow> bool" where
  "printable d CDSL_JSON_NULL = True"
| "printable d (CDSL_JSON_BOOL b) = (b = 0 \<or> b = 1)"
| "printable d (CDSL_JSON_NUMBER f) = (f = f64_of_int (f64_trunc f))"
| "printable d (CDSL_JSON_STRING s) = c_text s"
| "printable d (CDSL_JSON_OBJECT items) = (1 < d \<and> list_all (\<lambda>(k, v). c_text k \<and> printable (d - 1) v) items)"
| "printable d (CDSL_JSON_ARRAY elems) = (1 < d \<and> list_all (printable (d - 1)) elems)"

lemma skip_ws_start: "s \<noteq> [] \<Longrightarrow> \<not> c_isspace (hd s) \<Longrightarrow> skip_ws s = s"
  by (cases s) (simp_all add: skip_ws_def)

lemma ends_value_skip: "ends_value r \<Longrightarrow> skip_ws r = r"
  by (cases r) (auto simp: skip_ws_def ends_value_def c_isspace_def char_code_def)

definition starts_value :: "string \<Rightarrow> bool" where
  "starts_value s \<longleftrightarrow> s \<noteq> [] \<and> (hd s \<in> {CHR ''{'', CHR ''['', CHR 0x22, CHR ''t'', CHR ''f'', CHR ''n'', CHR ''-''} \<or> c_isdigit (hd s))"

lemma starts_value_text: "starts_value (json_text v @ r)"
proof (cases v)
  case (CDSL_JSON_NUMBER f)
  have "c_isdigit (hd (dec_of_nat n))" for n
    using dec_of_nat_digits [of n] dec_of_nat_not_Nil [of n] by (cases "dec_of_nat n") auto
  then show ?thesis by (simp add: CDSL_JSON_NUMBER starts_value_def dec_of_int_def)
qed (auto simp: starts_value_def quoted_def)

lemma starts_value_skip: "starts_value s \<Longrightarrow> skip_ws s = s"
  by (rule skip_ws_start) (auto simp: starts_value_def c_isspace_def c_isdigit_def char_code_def)

lemma starts_value_open: "starts_value s \<Longrightarrow> s \<noteq> [] \<and> hd s \<noteq> CHR '']'' \<and> hd s \<noteq> CHR ''}''"
  by (auto simp: starts_value_def c_isdigit_def char_code_def)

lemma parse_scalar_text:
  assumes "printable d v" and "ends_value r" and "\<And>vs. v \<noteq> CDSL_JSON_OBJECT vs" and "\<And>vs. v \<noteq> CDSL_JSON_ARRAY vs"
  shows "parse_scalar (json_text v @ r) = (Some v, r)"
proof (cases v)
  case (CDSL_JSON_NUMBER f)
  have "c_isdigit (hd (dec_of_nat n))" for n
    using dec_of_nat_digits [of n] dec_of_nat_not_Nil [of n] by (cases "dec_of_nat n") auto
  then obtain c cs where c: "dec_of_int (f64_trunc f) = c # cs" "c = CHR ''-'' \<or> c_isdigit c"
    by (cases "dec_of_int (f64_trunc f)") (auto simp: dec_of_int_def split: if_splits, metis list.sel(1))
  then have ne: "c \<noteq> CHR 0x22" "c \<noteq> CHR ''t''" "c \<noteq> CHR ''f''" "c \<noteq> CHR ''n''"
    by (auto simp: c_isdigit_def char_code_def)
  have "c_strtod (c # cs @ r) = Some (f, r)"
    using strtod_int [OF assms(2), of "f64_trunc f"] assms(1) CDSL_JSON_NUMBER c(1) by simp
  then show ?thesis using CDSL_JSON_NUMBER c ne by (simp add: parse_scalar_def)
next
  case (CDSL_JSON_STRING s)
  obtain t where t: "quoted s @ r = CHR 0x22 # t" by (simp add: quoted_def)
  have "parse_string_raw (quoted s @ r) = (Some s, r)"
    using parse_quoted [of s r] assms(1) CDSL_JSON_STRING by simp
  then show ?thesis unfolding CDSL_JSON_STRING json_text.simps t by (simp add: parse_scalar_def)
qed (use assms in \<open>auto simp: parse_scalar_def\<close>)

lemma parse_value_scalar:
  assumes "printable (CDSL_JSON_MAX_DEPTH - d) v" and "d < CDSL_JSON_MAX_DEPTH" and "ends_value r" and "0 < n"
    and "\<And>vs. v \<noteq> CDSL_JSON_OBJECT vs" and "\<And>vs. v \<noteq> CDSL_JSON_ARRAY vs"
  shows "parse_value n d (json_text v @ r) = Some (Some v, r)"
proof -
  have s: "parse_scalar (json_text v @ r) = (Some v, r)" by (rule parse_scalar_text [OF assms(1,3,5,6)])
  have h: "hd (json_text v @ r) \<noteq> CHR ''{''" "hd (json_text v @ r) \<noteq> CHR ''[''"
    using s by (auto simp: parse_scalar_def c_isdigit_def char_code_def split: list.splits)
  obtain m where "n = Suc m" using assms(4) by (cases n) auto
  then show ?thesis
    using assms(2) h by (simp add: parse_value.simps Let_def starts_value_skip [OF starts_value_text] s)
qed

text \<open>The remaining depth is \<open>256 - depth\<close>, and twice the length of the text is fuel enough.\<close>

lemma parse_printed:
  "printable (CDSL_JSON_MAX_DEPTH - d) v \<Longrightarrow> d < CDSL_JSON_MAX_DEPTH \<Longrightarrow> ends_value r
   \<Longrightarrow> 2 * length (json_text v) + 1 \<le> n \<Longrightarrow> parse_value n d (json_text v @ r) = Some (Some v, r)"
  "list_all (\<lambda>(k, v). c_text k \<and> printable (CDSL_JSON_MAX_DEPTH - d) v) items \<Longrightarrow> d < CDSL_JSON_MAX_DEPTH
   \<Longrightarrow> 2 * length (items_text items) + 2 \<le> n
   \<Longrightarrow> object_items n d (items_text items @ CHR ''}'' # r) = Some (items, CHR ''}'' # r)"
  "list_all (printable (CDSL_JSON_MAX_DEPTH - d)) elems \<Longrightarrow> d < CDSL_JSON_MAX_DEPTH
   \<Longrightarrow> 2 * length (elems_text elems) + 2 \<le> n
   \<Longrightarrow> array_items n d (elems_text elems @ CHR '']'' # r) = Some (elems, CHR '']'' # r)"
proof (induction v and items and elems arbitrary: d n r and d n r and d n r rule: json_text_items_text_elems_text.induct)
  case (5 items)
  obtain m where m: "n = Suc m" using 5(5) by (cases n) auto
  have "object_items m (Suc d) (items_text items @ CHR ''}'' # r) = Some (items, CHR ''}'' # r)"
    using 5 m by (intro 5(1)) (auto simp: CDSL_JSON_MAX_DEPTH_def)
  moreover have "skip_ws (items_text items @ CHR ''}'' # r) = items_text items @ CHR ''}'' # r"
    by (cases items) (auto intro!: skip_ws_start simp: quoted_def c_isspace_def char_code_def)
  moreover have "skip_ws (CHR ''{'' # items_text items @ CHR ''}'' # r) = CHR ''{'' # items_text items @ CHR ''}'' # r"
    by (intro skip_ws_start) (auto simp: c_isspace_def char_code_def)
  ultimately show ?case using 5(3) by (simp add: m parse_value.simps Let_def parse_object_def)
next
  case (6 elems)
  obtain m where m: "n = Suc m" using 6(5) by (cases n) auto
  have "array_items m (Suc d) (elems_text elems @ CHR '']'' # r) = Some (elems, CHR '']'' # r)"
    using 6 m by (intro 6(1)) (auto simp: CDSL_JSON_MAX_DEPTH_def)
  moreover have "skip_ws (elems_text elems @ CHR '']'' # r) = elems_text elems @ CHR '']'' # r"
    by (cases elems) (auto simp: skip_ws_start c_isspace_def char_code_def intro: starts_value_skip starts_value_text)
  moreover have "skip_ws (CHR ''['' # elems_text elems @ CHR '']'' # r) = CHR ''['' # elems_text elems @ CHR '']'' # r"
    by (intro skip_ws_start) (auto simp: c_isspace_def char_code_def)
  ultimately show ?case using 6(3) by (simp add: m parse_value.simps Let_def parse_array_def)
next
  case (7)
  then show ?case by (cases n) (auto simp: object_items.simps)
next
  case (8 k v items)
  obtain m where m: "n = Suc m" using 8(5) by (cases n) auto
  define rest where "rest = (if items = [] then [] else '','' @ items_text items) @ CHR ''}'' # r"
  have ends: "ends_value rest" by (simp add: rest_def ends_value_def)
  have len1: "2 * length (json_text v) + 1 \<le> m" and len2: "items \<noteq> [] \<Longrightarrow> 2 * length (items_text items) + 2 \<le> m"
    and pos: "2 \<le> m"
    using 8(5) m by (auto simp: quoted_def)
  have v: "parse_value m d (json_text v @ rest) = Some (Some v, rest)"
    using 8(3,4) ends len1 by (intro 8(1)) auto
  have items: "object_items m d (items_text items @ CHR ''}'' # r) = Some (items, CHR ''}'' # r)"
  proof (cases "items = []")
    case True
    then show ?thesis using pos by (cases m) (auto simp: object_items.simps)
  next
    case False
    then show ?thesis using 8(3,4) len2 by (intro 8(2)) auto
  qed
  have comma: "skip_comma (skip_ws rest) = items_text items @ CHR ''}'' # r"
    using ends_value_skip [OF ends] by (cases items) (auto simp: rest_def skip_comma_def)
  have shape: "items_text ((k, v) # items) @ CHR ''}'' # r = quoted k @ CHR '':'' # json_text v @ rest"
    by (simp add: rest_def)
  have ws: "skip_ws (quoted k @ t) = quoted k @ t" "skip_ws (CHR '':'' # t) = CHR '':'' # t" for t
    by (simp_all add: skip_ws_def quoted_def c_isspace_def char_code_def)
  show ?case
    unfolding shape using 8(3) v items comma
    by (simp add: m object_items.simps ws parse_quoted Let_def starts_value_skip [OF starts_value_text])
      (simp add: quoted_def)
next
  case 9
  then show ?case by (cases n) (auto simp: array_items.simps)
next
  case (10 v elems)
  obtain m where m: "n = Suc m" using 10(5) by (cases n) auto
  define rest where "rest = (if elems = [] then [] else '','' @ elems_text elems) @ CHR '']'' # r"
  have ends: "ends_value rest" by (simp add: rest_def ends_value_def)
  have len1: "2 * length (json_text v) + 1 \<le> m" and len2: "elems \<noteq> [] \<Longrightarrow> 2 * length (elems_text elems) + 2 \<le> m"
    using 10(5) m by auto
  have pos: "0 < length (json_text v)" using starts_value_text [of v "[]"] by (simp add: starts_value_def)
  have v: "parse_value m d (json_text v @ rest) = Some (Some v, rest)"
    using 10(3,4) ends len1 by (intro 10(1)) auto
  have elems: "array_items m d (elems_text elems @ CHR '']'' # r) = Some (elems, CHR '']'' # r)"
  proof (cases "elems = []")
    case True
    then show ?thesis using len1 pos by (cases m) (auto simp: array_items.simps)
  next
    case False
    then show ?thesis using 10(3,4) len2 by (intro 10(2)) auto
  qed
  have comma: "skip_comma (skip_ws rest) = elems_text elems @ CHR '']'' # r"
    using ends_value_skip [OF ends] by (cases elems) (auto simp: rest_def skip_comma_def)
  have shape: "elems_text (v # elems) @ CHR '']'' # r = json_text v @ rest" by (simp add: rest_def)
  show ?case
    unfolding shape using v elems comma starts_value_open [OF starts_value_text, of v rest]
    by (simp add: m array_items.simps starts_value_skip [OF starts_value_text])
qed (auto simp del: json_text.simps intro!: parse_value_scalar)

end
