(* ===== verification/Cdsl_Blind.thy ===== *)
theory Cdsl_Blind
  imports Cdsl_Report
begin

section \<open>Executions do not observe the bookkeeping\<close>

text \<open>
  The report of a rule depends on the VM only through its functions and limits: statistics, logs,
  traces, callbacks and earlier executions have no influence (\<open>execute_same_report\<close>). This is what
  makes batches and parallel runs of rules well defined.
\<close>


subsection \<open>What an execution can see of the VM\<close>

text \<open>
  Neither the statistics, the logs, the callbacks nor the number of clock readings can influence a
  value: two VMs that agree on the rest (\<open>same_view\<close>) are indistinguishable to an evaluation.
\<close>

definition same_limits :: "cdsl_vm \<Rightarrow> cdsl_vm \<Rightarrow> bool" where
  "same_limits vm vm' \<longleftrightarrow> vm_functions vm' = vm_functions vm \<and> vm_max_expr_depth vm' = vm_max_expr_depth vm
     \<and> vm_timeout_us vm' = vm_timeout_us vm \<and> vm_memory_limit vm' = vm_memory_limit vm
     \<and> vm_instruction_limit vm' = vm_instruction_limit vm"

definition same_view :: "cdsl_vm \<Rightarrow> cdsl_vm \<Rightarrow> bool" where
  "same_view vm vm' \<longleftrightarrow> same_limits vm vm' \<and> vm_alloc_bytes vm' = vm_alloc_bytes vm
     \<and> vm_instruction_count vm' = vm_instruction_count vm \<and> vm_error_state vm' = vm_error_state vm
     \<and> vm_last_error vm' = vm_last_error vm"

lemmas view_defs = same_view_def same_limits_def

text \<open>A step is blind when it cannot tell such VMs apart; it also leaves the limits alone.\<close>

definition blind :: "(cdsl_vm \<Rightarrow> 'a \<times> cdsl_vm) \<Rightarrow> bool" where
  "blind f \<longleftrightarrow> (\<forall>vm. same_limits vm (snd (f vm)))
     \<and> (\<forall>vm vm'. same_view vm vm' \<longrightarrow> fst (f vm) = fst (f vm') \<and> same_view (snd (f vm)) (snd (f vm')))"

lemma blindI:
  assumes "\<And>vm vm'. same_view vm vm' \<Longrightarrow> fst (f vm) = fst (f vm') \<and> same_view (snd (f vm)) (snd (f vm'))"
    and "\<And>vm. same_limits vm (snd (f vm))"
  shows "blind f"
  using assms by (simp add: blind_def)

lemma blindD:
  "blind f \<Longrightarrow> same_view vm vm' \<Longrightarrow> fst (f vm) = fst (f vm') \<and> same_view (snd (f vm)) (snd (f vm'))"
  by (simp add: blind_def)

lemma blind_limits: "blind f \<Longrightarrow> same_limits vm (snd (f vm))"
  by (simp add: blind_def)

lemma same_limits_refl [simp]: "same_limits vm vm"
  and same_limits_trans: "same_limits a b \<Longrightarrow> same_limits b c \<Longrightarrow> same_limits a c"
  by (simp_all add: same_limits_def)

lemma blind_return [simp, intro]: "blind (\<lambda>vm. (x, vm))"
  by (simp add: blind_def)

lemma blind_bind:
  assumes "blind f" and "\<And>x. blind (g x)"
  shows "blind (\<lambda>vm. case f vm of (x, vm1) \<Rightarrow> g x vm1)"
proof (rule blindI)
  fix vm vm'
  assume v: "same_view vm vm'"
  obtain x vm1 where 1: "f vm = (x, vm1)" by force
  obtain y vm2 where 2: "f vm' = (y, vm2)" by force
  have "x = y" "same_view vm1 vm2" using blindD [OF assms(1) v] by (simp_all add: 1 2)
  then show "fst (case f vm of (x, vm1) \<Rightarrow> g x vm1) = fst (case f vm' of (x, vm1) \<Rightarrow> g x vm1)
    \<and> same_view (snd (case f vm of (x, vm1) \<Rightarrow> g x vm1)) (snd (case f vm' of (x, vm1) \<Rightarrow> g x vm1))"
    using blindD [OF assms(2)] by (simp add: 1 2)
next
  fix vm
  obtain x vm1 where 1: "f vm = (x, vm1)" by force
  show "same_limits vm (snd (case f vm of (x, vm1) \<Rightarrow> g x vm1))"
    using same_limits_trans [OF blind_limits [OF assms(1)] blind_limits [OF assms(2)], of vm x] by (simp add: 1)
qed

lemma blind_if:
  assumes "\<And>vm vm'. same_view vm vm' \<Longrightarrow> c vm = c vm'" and "blind f" and "blind g"
  shows "blind (\<lambda>vm. if c vm then f vm else g vm)"
  using assms by (auto simp: blind_def)

lemma view_state:
  "same_view vm vm' \<Longrightarrow> vm_error_state vm' = vm_error_state vm"
  "same_view vm vm' \<Longrightarrow> vm_functions vm' = vm_functions vm"
  "same_view vm vm' \<Longrightarrow> vm_max_expr_depth vm' = vm_max_expr_depth vm"
  by (simp_all add: view_defs)

lemma blind_raise: "blind (\<lambda>vm. (x, vm_raise vm k l m h))"
  by (rule blindI; simp add: view_defs vm_raise_def cdsl_vm_set_last_error_def)

lemma blind_tick: "blind vm_tick"
  by (rule blindI; simp add: view_defs vm_tick_def vm_raise_def cdsl_vm_set_last_error_def Let_def)

lemma blind_track_alloc: "blind (\<lambda>vm. cdsl_vm_track_alloc vm n)"
  by (rule blindI; simp add: view_defs cdsl_vm_track_alloc_def vm_raise_def cdsl_vm_set_last_error_def Let_def)

text \<open>A test that does not look at the VM.\<close>

lemma blind_test: "(c \<Longrightarrow> blind f) \<Longrightarrow> (\<not> c \<Longrightarrow> blind g) \<Longrightarrow> blind (\<lambda>vm. if c then f vm else g vm)"
  by (cases c) simp_all

lemma blind_strdup: "blind (\<lambda>vm. cdsl_vm_strdup vm s)"
  by (cases s) (auto simp: cdsl_vm_strdup_def intro!: blind_bind [OF blind_track_alloc])

lemma blind_calloc: "blind (\<lambda>vm. cdsl_vm_calloc vm n k)"
  unfolding cdsl_vm_calloc_def by (rule blind_test) (simp_all add: blind_track_alloc)

lemma blind_finish: "blind (finish_op l r)"
proof (cases r)
  case (Pair st v)
  then show ?thesis unfolding finish_op_def [abs_def] by (simp only: prod.case) (rule blind_test; simp add: blind_raise)
qed

lemma blind_alloc_array: "blind (\<lambda>vm. alloc_array vm n)"
proof -
  have "blind (case ok of True \<Rightarrow> \<lambda>vm. cdsl_vm_calloc vm (if 0 < n then int n else 1) 24 | False \<Rightarrow> \<lambda>vm. (False, vm))" for ok
    by (cases ok) (simp_all add: blind_calloc)
  from blind_bind [OF blind_calloc [of 1 16] this] show ?thesis
    unfolding alloc_array_def by (rule back_subst [of blind]) (auto split: prod.split bool.split)
qed

lemma blind_id: "blind (eval_id ctx x)"
proof (cases "cdsl_context_get_entry_internal ctx x")
  case None
  then show ?thesis by (simp add: eval_id_def [abs_def])
next
  case (Some e)
  show ?thesis
  proof (cases "ce_value e")
    case (VString s)
    show ?thesis
    proof (cases s)
      case (Some str)
      have oom: "blind (\<lambda>vm1. (void0, (if vm_last_error vm1 = None
             then cdsl_vm_set_last_error vm1 CDSL_ERR_RESOURCE_LIMIT (0, 0)
                    ''Out of memory duplicating string variable'' None
             else vm1)\<lparr>vm_error_state := True\<rparr>))"
        by (rule blindI; simp add: view_defs cdsl_vm_set_last_error_def)
      have "blind (\<lambda>vm. case cdsl_vm_strdup vm (Some str) of (r, vm1) \<Rightarrow>
          (case r of Some s' \<Rightarrow> \<lambda>vm1. (VString (Some s'), vm1)
           | None \<Rightarrow> \<lambda>vm1. (void0, (if vm_last_error vm1 = None
             then cdsl_vm_set_last_error vm1 CDSL_ERR_RESOURCE_LIMIT (0, 0)
                    ''Out of memory duplicating string variable'' None
             else vm1)\<lparr>vm_error_state := True\<rparr>)) vm1)"
        by (rule blind_bind [OF blind_strdup]) (use oom in \<open>auto split: option.split\<close>)
      then show ?thesis using VString \<open>cdsl_context_get_entry_internal ctx x = Some e\<close> Some
        unfolding eval_id_def by (elim back_subst [of blind]) (auto split: prod.split option.split)
    qed (use VString \<open>cdsl_context_get_entry_internal ctx x = Some e\<close> in \<open>simp add: eval_id_def [abs_def]\<close>)
  qed (use \<open>cdsl_context_get_entry_internal ctx x = Some e\<close> in \<open>simp_all add: eval_id_def [abs_def]\<close>)
qed

subsection \<open>Built-ins\<close>

lemma blind_arg1:
  assumes "\<And>a. a \<in> set args \<Longrightarrow> blind (ev a)" and "\<And>v. blind (f v)"
  shows "blind (with_arg1 ev d f args)"
  using assms by (cases args) (auto simp: with_arg1_def [abs_def] intro!: blind_bind)

lemma blind_arg2:
  assumes "\<And>a. a \<in> set args \<Longrightarrow> blind (ev a)" and "\<And>v w. blind (f v w)"
  shows "blind (with_arg2 ev d f args)"
  using assms unfolding with_arg2_def [abs_def]
  by (cases args; cases "tl args") (auto intro!: blind_bind)

lemma blind_alloc_string: "blind (\<lambda>vm. alloc_string vm s)"
  unfolding alloc_string_def by (rule blind_bind [OF blind_calloc]) simp

lemma blind_trim: "blind (trim_string s)"
  unfolding trim_string_def [abs_def] Let_def
  by (rule blind_test) (auto intro!: blind_bind [OF blind_strdup] blind_alloc_string)

lemma blind_map_string: "(\<And>s. blind (f s)) \<Longrightarrow> blind (map_string f v)"
  unfolding map_string_def [abs_def]
proof (cases v)
  case (VString x)
  then show "(\<And>s. blind (f s)) \<Longrightarrow> blind (\<lambda>vm. case v of VString (Some s) \<Rightarrow> f s vm | _ \<Rightarrow> (VString None, vm))"
    by (cases x) simp_all
qed simp_all

lemma blind_approx_eq:
  assumes "\<And>a. a \<in> set args \<Longrightarrow> blind (ev a)"
  shows "blind (builtin_approx_eq ev args)"
proof -
  have third: "blind (ev (args ! 2))" if "\<not> length args < 3"
    using assms [of "args ! 2"] nth_mem [of 2 args] that by simp
  show ?thesis unfolding builtin_approx_eq_def [abs_def]
  proof (rule blind_test)
    show "blind (with_arg2 ev (VBool 0)
        (\<lambda>v1 v2 vm2.
           case (value_to_double v1, value_to_double v2) of
             (Some a, Some b) \<Rightarrow>
               if length args < 3
               then (VBool (c_bool (approx_eq CDSL_DEFAULT_FLOAT_EPSILON a b)), vm2)
               else (case ev (args ! 2) vm2 of (v3, vm3) \<Rightarrow>
                 (case value_to_double v3 of
                    None \<Rightarrow> (VBool 0, vm3)
                  | Some eps \<Rightarrow>
                      (VBool (if f64_lt eps (f64_zero False) then 0 else c_bool (approx_eq eps a b)), vm3)))
           | _ \<Rightarrow> (VBool 0, vm2)) args)"
    proof (rule blind_arg2 [OF assms])
      fix v w
      show "blind (\<lambda>vm2. case (value_to_double v, value_to_double w) of
             (Some a, Some b) \<Rightarrow>
               if length args < 3
               then (VBool (c_bool (approx_eq CDSL_DEFAULT_FLOAT_EPSILON a b)), vm2)
               else (case ev (args ! 2) vm2 of (v3, vm3) \<Rightarrow>
                 (case value_to_double v3 of
                    None \<Rightarrow> (VBool 0, vm3)
                  | Some eps \<Rightarrow>
                      (VBool (if f64_lt eps (f64_zero False) then 0 else c_bool (approx_eq eps a b)), vm3)))
           | _ \<Rightarrow> (VBool 0, vm2))"
      proof (cases "value_to_double v"; cases "value_to_double w")
        fix a b
        assume "value_to_double v = Some a" "value_to_double w = Some b"
        moreover have "blind (\<lambda>vm3. case value_to_double v3 of None \<Rightarrow> (VBool 0, vm3)
            | Some eps \<Rightarrow> (VBool (if f64_lt eps (f64_zero False) then 0 else c_bool (approx_eq eps a b)), vm3))" for v3
          by (cases "value_to_double v3") simp_all
        ultimately show ?thesis by (simp only: prod.case option.case) (rule blind_test; simp add: third blind_bind)
      qed simp_all
    qed
  qed simp
qed

definition env_blind :: "cdsl_env \<Rightarrow> bool" where
  "env_blind env \<longleftrightarrow> (\<forall>n f args ctx. blind (env_custom env n f args ctx)) \<and> (\<forall>m n. env_time env m = env_time env n)"

lemma blind_builtin:
  assumes "env_blind env" and "\<And>a. a \<in> set args \<Longrightarrow> blind (ev a)"
  shows "blind (call_builtin env b ev args)"
proof -
  have now: "blind (builtin_now env)"
    using assms(1) by (simp add: builtin_now_def [abs_def] blind_def env_blind_def view_defs)
  show ?thesis using now assms(2) 
    by (cases b) (simp_all add: builtin_strlen_def builtin_contains_def builtin_is_before_def builtin_is_after_def
        builtin_days_between_def builtin_uppercase_def builtin_lowercase_def builtin_trim_def builtin_startswith_def
        builtin_endswith_def builtin_abs_def builtin_minmax_def builtin_round_def builtin_typeof_def builtin_count_def
        builtin_sum_def builtin_date_add_def Let_def blind_arg1 blind_arg2 blind_map_string blind_alloc_string
        blind_trim blind_approx_eq call_builtin.simps [abs_def])
qed


subsection \<open>Expressions\<close>

lemma blind_guard:
  assumes "blind (eval_node env ctx e depth)"
  shows "blind (cdsl_eval_expr_internal env ctx e depth)"
proof (rule blindI)
  fix vm vm'
  assume v: "same_view vm vm'"
  note t = blindD [OF blind_tick v]
  show "fst (cdsl_eval_expr_internal env ctx e depth vm) = fst (cdsl_eval_expr_internal env ctx e depth vm')
    \<and> same_view (snd (cdsl_eval_expr_internal env ctx e depth vm)) (snd (cdsl_eval_expr_internal env ctx e depth vm'))"
    using v t blindD [OF assms conjunct2 [OF t]] view_state(3) [OF v] by (simp add: eval_unfold)
next
  fix vm
  show "same_limits vm (snd (cdsl_eval_expr_internal env ctx e depth vm))"
    using blind_limits [OF blind_tick, of vm] same_limits_trans [OF blind_limits [OF blind_tick] blind_limits [OF assms]]
    by (simp add: eval_unfold)
qed

lemma blind_items:
  assumes "\<And>e. e \<in> set es \<Longrightarrow> blind (cdsl_eval_expr_internal env ctx e depth)"
  shows "blind (eval_items env ctx es depth)"
  using assms
proof (induction es)
  case (Cons e es)
  have "blind (\<lambda>vm. case cdsl_eval_expr_internal env ctx e depth vm of (v, vm1) \<Rightarrow>
      (\<lambda>vm1. case eval_items env ctx es depth vm1 of (vs, vm2) \<Rightarrow> (\<lambda>vm. (v # vs, vm)) vm2) vm1)"
    using Cons by (intro blind_bind) auto
  then show ?case by (simp add: eval_items.simps(2) [abs_def])
qed (simp add: eval_items.simps(1) [abs_def])

text \<open>Continuing only when no error was raised.\<close>

lemma blind_unless_error:
  "blind f \<Longrightarrow> blind (\<lambda>vm. if vm_error_state vm then (x, vm) else f vm)"
  by (rule blind_if) (auto dest: view_state(1))

lemma blind_call:
  assumes "env_blind env" and "\<And>a. a \<in> set args \<Longrightarrow> blind (cdsl_eval_expr_internal env ctx a 0)"
  shows "blind (eval_node env ctx (CDSL_EXPR_CALL l f args) depth)"
proof (rule blindI)
  fix vm vm'
  assume v: "same_view vm vm'"
  show "fst (eval_node env ctx (CDSL_EXPR_CALL l f args) depth vm) = fst (eval_node env ctx (CDSL_EXPR_CALL l f args) depth vm')
    \<and> same_view (snd (eval_node env ctx (CDSL_EXPR_CALL l f args) depth vm)) (snd (eval_node env ctx (CDSL_EXPR_CALL l f args) depth vm'))"
  proof (cases "assoc_first (vm_functions vm) f")
    case None
    then show ?thesis using v view_state(2) [OF v] by simp
  next
    case (Some cb)
    show ?thesis
    proof (cases cb)
      case (Builtin b)
      then show ?thesis using Some view_state(2) [OF v]
          blindD [OF blind_builtin [OF assms(1), of args "\<lambda>e v. cdsl_eval_expr_internal env ctx e 0 v", OF assms(2)] v]
        by simp
    next
      case (Custom n)
      then have "blind (env_custom env n f args ctx)" using assms(1) by (simp add: env_blind_def)
      from blindD [OF this v] Some Custom view_state(2) [OF v] show ?thesis by simp
    qed
  qed
next
  fix vm
  show "same_limits vm (snd (eval_node env ctx (CDSL_EXPR_CALL l f args) depth vm))"
    using blind_limits [OF blind_builtin [OF assms(1), of args "\<lambda>e v. cdsl_eval_expr_internal env ctx e 0 v", OF assms(2)]]
      assms(1) by (auto simp: env_blind_def blind_limits split: option.split func_cb.split)
qed

lemma blind_eval:
  assumes "env_blind env"
  shows "blind (cdsl_eval_expr_internal env ctx e depth)"
proof (induction e arbitrary: depth)
  case (CDSL_EXPR_ARRAY l es)
  have items: "blind (eval_items env ctx es (depth + 1))"
    by (rule blind_items) (rule CDSL_EXPR_ARRAY)
  have "blind (\<lambda>vm. case alloc_array vm (length es) of (ok, vm1) \<Rightarrow>
      (if ok then \<lambda>vm1. case eval_items env ctx es (depth + 1) vm1 of (vs, vm2) \<Rightarrow> (\<lambda>vm. (VArray (Some vs), vm)) vm2
       else (\<lambda>vm1. (VArray None, vm1))) vm1)"
    by (rule blind_bind [OF blind_alloc_array]) (auto intro!: blind_bind items)
  then show ?case
    by (intro blind_guard, elim back_subst [of blind]) (auto split: prod.split)
next
  case (CDSL_EXPR_UNARY l op e)
  have "blind (\<lambda>vm. case cdsl_eval_expr_internal env ctx e (depth + 1) vm of (v, vm1) \<Rightarrow>
      (\<lambda>vm1. if vm_error_state vm1 then (void0, vm1) else finish_op l (cdsl_value_unop op v) vm1) vm1)"
    by (intro blind_bind CDSL_EXPR_UNARY blind_unless_error blind_finish)
  then show ?case by (intro blind_guard) (simp add: eval_node.simps [abs_def])
next
  case (CDSL_EXPR_BINARY l op a b)
  have right: "blind (\<lambda>vm1. case cdsl_eval_expr_internal env ctx b (depth + 1) vm1 of (y, vm2) \<Rightarrow>
      (\<lambda>vm2. if vm_error_state vm2 then (void0, vm2)
        else if op = CDSL_OP_AND \<or> op = CDSL_OP_OR then (VBool (raw_lo env y), vm2)
        else finish_op l (cdsl_value_binop op x y) vm2) vm2)" for x
    by (intro blind_bind CDSL_EXPR_BINARY(2) blind_unless_error blind_test blind_return blind_finish)
  have "blind (\<lambda>vm. case cdsl_eval_expr_internal env ctx a (depth + 1) vm of (x, vm1) \<Rightarrow>
      (\<lambda>vm1. if vm_error_state vm1 then (void0, vm1)
        else if op = CDSL_OP_AND \<and> \<not> c_true (raw_lo env x) then (VBool 0, vm1)
        else if op = CDSL_OP_OR \<and> c_true (raw_lo env x) then (VBool 1, vm1)
        else (case cdsl_eval_expr_internal env ctx b (depth + 1) vm1 of (y, vm2) \<Rightarrow>
          if vm_error_state vm2 then (void0, vm2)
          else if op = CDSL_OP_AND \<or> op = CDSL_OP_OR then (VBool (raw_lo env y), vm2)
          else finish_op l (cdsl_value_binop op x y) vm2)) vm1)"
    by (intro blind_bind CDSL_EXPR_BINARY(1) blind_unless_error blind_test blind_return right)
  then show ?case by (intro blind_guard) (simp add: eval_node.simps [abs_def])
next
  case (CDSL_EXPR_CALL l f args)
  show ?case by (rule blind_guard, rule blind_call [OF assms], rule CDSL_EXPR_CALL)
qed (rule blind_guard, simp add: eval_node.simps [abs_def] blind_id)+


subsection \<open>Rules\<close>

text \<open>Changes of the logs, the trace, the clock and the statistics are invisible.\<close>

lemma view_invisible:
  "same_view vm (call_action vm f args)" "same_view vm (cdsl_trigger_action_internal vm act)"
  "same_view vm (fire_trace env vm k r d x)" "same_view vm (add_stats env t0 rpt vm)"
  by (auto simp: view_defs call_action_def cdsl_trigger_action_internal_def fire_trace_def add_stats_def
      cdsl_get_time_us_internal_def Let_def split: option.split)

lemma same_view_refl [simp]: "same_view vm vm"
  and same_view_sym: "same_view vm vm' \<Longrightarrow> same_view vm' vm"
  and same_view_trans: "same_view a b \<Longrightarrow> same_view b c \<Longrightarrow> same_view a c"
  by (simp_all add: view_defs)

lemma blind_after:
  assumes "blind f" and "\<And>vm. same_view vm (g vm)"
  shows "blind (\<lambda>vm. f (g vm))"
proof (rule blindI)
  fix vm vm'
  assume "same_view vm vm'"
  then have "same_view (g vm) (g vm')" using assms(2) same_view_trans same_view_sym by meson
  then show "fst (f (g vm)) = fst (f (g vm')) \<and> same_view (snd (f (g vm))) (snd (f (g vm')))"
    by (rule blindD [OF assms(1)])
next
  fix vm
  have "same_limits vm (g vm)" using assms(2) by (simp add: same_view_def)
  then show "same_limits vm (snd (f (g vm)))" using blind_limits [OF assms(1)] by (rule same_limits_trans)
qed

lemma blind_opt: "env_blind env \<Longrightarrow> blind (eval_opt env ctx e)"
  by (cases e) (simp_all add: eval_opt_def [abs_def] blind_eval)

lemma blind_reason:
  assumes "env_blind env"
  shows "blind (eval_reason env ctx args mr)"
proof (cases "\<exists>a r rest. args = a # r # rest")
  case True
  then obtain a r rest where args: "args = a # r # rest" by blast
  have "blind (\<lambda>vm. case cdsl_eval_expr_internal env ctx r 0 vm of (rv, vm1) \<Rightarrow>
      (\<lambda>vm1. case rv of VString (Some s) \<Rightarrow>
           (if vm_error_state vm1 then mr else mr\<lparr>mr_violation_reason := Some s\<rparr>, vm1)
         | _ \<Rightarrow> (mr, vm1)) vm1)"
  proof (rule blind_bind [OF blind_eval [OF assms]])
    fix rv
    show "blind (\<lambda>vm1. case rv of VString (Some s) \<Rightarrow>
           (if vm_error_state vm1 then mr else mr\<lparr>mr_violation_reason := Some s\<rparr>, vm1)
         | _ \<Rightarrow> (mr, vm1))"
    proof (cases rv)
      case (VString x)
      then show ?thesis by (cases x) (auto simp: blind_def dest: view_state(1))
    qed simp_all
  qed
  then show ?thesis by (simp add: args eval_reason_def [abs_def])
next
  case False
  then show ?thesis by (cases args; cases "tl args") (auto simp: eval_reason_def [abs_def])
qed

lemma blind_score:
  assumes "env_blind env"
  shows "blind (\<lambda>vm. case cdsl_eval_expr_internal env ctx e 0 vm of (sv, vm1) \<Rightarrow>
     let mr1 = mr\<lparr>mr_score_obtained := int_or_zero sv\<rparr> in
     (if vm_error_state vm1 then mr1 else set_passed mr1, vm1))"
  by (rule blind_bind [OF blind_eval [OF assms]]) (auto simp: blind_def Let_def dest: view_state(1))

lemma blind_case_action:
  assumes "env_blind env"
  shows "blind (apply_case_action env ctx act mr)"
proof (cases act)
  case (Some a)
  show ?thesis unfolding apply_case_action_def [abs_def] Some option.case
    by (intro blind_test blind_return blind_score [OF assms] blind_bind blind_reason [OF assms])
qed (simp add: apply_case_action_def [abs_def])

lemma blind_cases:
  assumes "env_blind env"
  shows "blind (\<lambda>vm. case eval_cases env ctx cs mr vm of (m, r, vm1) \<Rightarrow> ((m, r), vm1))"
proof (induction cs)
  case (Cons c cs)
  let ?rest = "\<lambda>vm. case eval_cases env ctx cs mr vm of (m, r, vm1) \<Rightarrow> ((m, r), vm1)"
  let ?hit = "\<lambda>vm. case apply_case_action env ctx (case_action c) mr (cdsl_trigger_action_internal vm (case_action c))
      of (r, vm1) \<Rightarrow> (\<lambda>vm1. ((True, r), vm1)) vm1"
  have hit: "blind ?hit"
    by (rule blind_after [OF blind_bind [OF blind_case_action [OF assms] blind_return] view_invisible(2)])
  have "blind (\<lambda>vm. case eval_opt env ctx (case_condition c) vm of (cond, vm1) \<Rightarrow>
      (\<lambda>vm1. if vm_error_state vm1 then ((False, mr), vm1)
        else (case cond of VBool b \<Rightarrow> if c_true b then ?hit vm1 else ?rest vm1 | _ \<Rightarrow> ?rest vm1)) vm1)"
  proof (rule blind_bind [OF blind_opt [OF assms] blind_unless_error])
    fix cond
    show "blind (\<lambda>vm1. case cond of VBool b \<Rightarrow> if c_true b then ?hit vm1 else ?rest vm1 | _ \<Rightarrow> ?rest vm1)"
      using Cons hit by (cases cond) (simp_all add: blind_test)
  qed
  then show ?case by (rule back_subst [of blind]) (auto split: prod.split cdsl_value.split)
qed simp

lemma blind_default:
  assumes "env_blind env"
  shows "blind (apply_default env ctx act mr)"
proof -
  let ?body = "\<lambda>vm. case act of
              None \<Rightarrow> (mr\<lparr>mr_score_obtained := 0\<rparr>, vm)
            | Some a \<Rightarrow>
                if \<not> vm_error_state vm \<and> act_name a = ''score'' \<and> act_args a \<noteq> [] then
                  (case cdsl_eval_expr_internal env ctx (hd (act_args a)) 0 vm of (sv, vm1) \<Rightarrow>
                     (mr\<lparr>mr_score_obtained := int_or_zero sv\<rparr>, vm1))
                else if \<not> vm_error_state vm \<and> act_name a = ''fail_metric'' then
                  eval_reason env ctx (act_args a) (mr\<lparr>mr_score_obtained := 0\<rparr>) vm
                else (mr\<lparr>mr_score_obtained := 0\<rparr>, vm)"
  have body: "blind ?body"
  proof (cases act)
    case (Some a)
    show ?thesis unfolding Some option.case
      by (intro blind_if blind_bind blind_eval [OF assms] blind_return blind_reason [OF assms])
        (auto dest: view_state(1))
  qed simp
  have "blind (\<lambda>vm. case ?body vm of (mr1, vm1) \<Rightarrow>
      (\<lambda>vm1. let mr2 = set_passed mr1 in
          (if mr_violation_reason mr2 = None \<and> mr_is_passed mr2 = 0
           then mr2\<lparr>mr_violation_reason := Some ''default_condition_triggered''\<rparr> else mr2, vm1)) vm1)"
    by (rule blind_bind [OF body]) (simp add: Let_def)
  from blind_after [OF this view_invisible(2)] show ?thesis
    unfolding apply_default_def Let_def by (rule back_subst [of blind]) simp
qed

lemma blind_metric:
  assumes "env_blind env"
  shows "blind (\<lambda>vm. case eval_metric env ctx m vm of (go, mr, vm1) \<Rightarrow> ((go, mr), vm1))"
proof -
  have d: "blind (\<lambda>vm1. case apply_default env ctx (met_default m) mr vm1 of (r, vm2) \<Rightarrow> (\<lambda>vm2. ((True, r), vm2)) vm2)" for mr
    by (rule blind_bind [OF blind_default [OF assms] blind_return])
  have "blind (\<lambda>vm. case (case eval_cases env ctx (met_cases m) (metric_init m) vm of (m, r, vm1) \<Rightarrow> ((m, r), vm1)) of
      (x, vm1) \<Rightarrow> (\<lambda>vm1. if vm_error_state vm1 then ((False, snd x), vm1)
         else if fst x then ((True, snd x), vm1)
         else (case apply_default env ctx (met_default m) (snd x) vm1 of (r, vm2) \<Rightarrow> ((True, r), vm2))) vm1)"
    by (rule blind_bind [OF blind_cases [OF assms]], rule blind_unless_error, rule blind_test) (use d in auto)
  then show ?thesis unfolding eval_metric_def by (rule back_subst [of blind]) (auto split: prod.split)
qed


lemma blind_metrics:
  assumes "env_blind env"
  shows "blind (eval_metrics env ctx ms t)"
proof (induction ms arbitrary: t)
  case (Cons m ms)
  let ?t1 = "\<lambda>mr. t\<lparr>mt_results := mt_results t @ [mr], mt_max := mt_max t + mr_max_weight mr\<rparr>"
  have "blind (\<lambda>vm. if vm_error_state vm
      then (t\<lparr>mt_results := mt_results t @ replicate (length (m # ms)) metric_zero\<rparr>, vm)
      else (case (case eval_metric env ctx m vm of (go, mr, vm1) \<Rightarrow> ((go, mr), vm1)) of (x, vm1) \<Rightarrow>
        (\<lambda>vm1. if \<not> fst x
        then ((?t1 (snd x))\<lparr>mt_results := mt_results (?t1 (snd x)) @ replicate (length ms) metric_zero\<rparr>, vm1)
        else eval_metrics env ctx ms
          ((?t1 (snd x))\<lparr>mt_obtained := mt_obtained t + mr_score_obtained (snd x),
              mt_critical_failed := mt_critical_failed t
                \<or> (c_true (mr_is_critical (snd x)) \<and> \<not> c_true (mr_is_passed (snd x)))\<rparr>) vm1) vm1))"
    by (intro blind_unless_error blind_bind blind_metric [OF assms] blind_test blind_return Cons.IH)
  then show ?case by (rule back_subst [of blind]) (auto simp: Let_def split: prod.split)
qed (simp add: eval_metrics.simps(1) [abs_def])

lemma blind_metric_rule:
  assumes "env_blind env"
  shows "blind (\<lambda>vm. execute_metric_rule env vm rule ctx)"
  unfolding execute_metric_rule_def by (rule blind_bind [OF blind_metrics [OF assms]]) (simp add: Let_def)

lemma blind_simple_rule:
  assumes "env_blind env"
  shows "blind (\<lambda>vm. execute_simple_rule env vm rule ctx)"
proof -
  let ?fired = "\<lambda>vm2. fire_trace env (fire_trace env (cdsl_trigger_action_internal vm2 (rule_then rule)) CDSL_TRACE_ACTION (rule_name rule)
                        (case rule_then rule of None \<Rightarrow> ''?'' | Some a \<Rightarrow> act_name a) void0) CDSL_TRACE_RULE (rule_name rule) ''FAILED'' void0"
  let ?quiet = "\<lambda>vm2. fire_trace env vm2 CDSL_TRACE_RULE (rule_name rule) ''PASSED'' void0"
  have tail: "blind (\<lambda>vm2. if (case cond of VBool b \<Rightarrow> c_true b | _ \<Rightarrow> False)
      then (simple_report rule 0 100 CDSL_STATUS_FAILED ''FAILED (score: 0/100)'', ?fired vm2)
      else (simple_report rule 100 100 CDSL_STATUS_PASSED ''PASSED (score: 100/100)'', ?quiet vm2))" for cond
    using view_invisible same_view_trans
    by (intro blind_test blind_after [OF blind_return]) meson+
  have "blind (\<lambda>vm. if vm_error_state vm then (simple_report rule 0 0 CDSL_STATUS_ERROR ''ERROR'', vm)
      else (case eval_opt env ctx (rule_when rule) vm of (cond, vm1) \<Rightarrow>
        (\<lambda>vm1. if vm_error_state vm1 then (simple_report rule 0 0 CDSL_STATUS_ERROR ''ERROR'', vm1)
        else (\<lambda>vm2. if (case cond of VBool b \<Rightarrow> c_true b | _ \<Rightarrow> False)
          then (simple_report rule 0 100 CDSL_STATUS_FAILED ''FAILED (score: 0/100)'', ?fired vm2)
          else (simple_report rule 100 100 CDSL_STATUS_PASSED ''PASSED (score: 100/100)'', ?quiet vm2))
            (fire_trace env vm1 CDSL_TRACE_EXPR (rule_name rule) ''WHEN'' cond)) vm1))"
    by (intro blind_unless_error blind_bind blind_opt [OF assms] blind_after [OF tail] view_invisible(3))
  then show ?thesis unfolding execute_simple_rule_def Let_def by simp
qed

lemma blind_finish_report: "blind (finish_report rpt)"
  by (rule blindI; auto simp: finish_report_def view_defs split: option.split)

text \<open>Two VMs with the same limits and functions give the same report for a rule.\<close>

lemma execute_same_report:
  assumes "env_blind env" and "same_limits vm vm'"
  shows "fst (cdsl_vm_execute env vm rule ctx) = fst (cdsl_vm_execute env vm' rule ctx)"
    and "same_limits vm (snd (cdsl_vm_execute env vm rule ctx))"
proof -
  let ?run = "\<lambda>vm1. case (if rule_metrics rule \<noteq> [] then execute_metric_rule env vm1 rule ctx
            else execute_simple_rule env vm1 rule ctx) of (rpt, vm2) \<Rightarrow> finish_report rpt vm2"
  have run: "blind ?run"
    by (rule blind_bind [OF blind_test blind_finish_report])
      (rule blind_metric_rule [OF assms(1)], rule blind_simple_rule [OF assms(1)])
  let ?start = "\<lambda>vm. cdsl_vm_begin_execution (snd (cdsl_get_time_us_internal env vm))"
  have start: "same_view (?start vm) (?start vm')" "same_limits vm (?start vm)"
    using assms(2) by (simp_all add: view_defs cdsl_vm_begin_execution_def cdsl_get_time_us_internal_def)
  have ex: "cdsl_vm_execute env v rule ctx = (fst (?run (?start v)),
      add_stats env (fst (cdsl_get_time_us_internal env v)) (fst (?run (?start v))) (snd (?run (?start v))))" for v
    by (simp add: cdsl_vm_execute_def Let_def split: prod.split)
  show "fst (cdsl_vm_execute env vm rule ctx) = fst (cdsl_vm_execute env vm' rule ctx)"
    unfolding ex using blindD [OF run start(1)] by simp
  have "same_limits (snd (?run (?start vm))) (snd (cdsl_vm_execute env vm rule ctx))"
    unfolding ex using view_invisible(4) by (simp add: same_view_def)
  with start(2) blind_limits [OF run] show "same_limits vm (snd (cdsl_vm_execute env vm rule ctx))"
    using same_limits_trans by blast
qed

end
