(* ===== verification/Cdsl_Ruleset.thy ===== *)
theory Cdsl_Ruleset
  imports Cdsl_Blind Cdsl_Schema "HOL-Library.Multiset"
begin

section \<open>Rule sets\<close>

text \<open>
  \<open>src/vm/ruleset.c\<close>: a list of rules ordered by priority, executed as a batch by one VM or by
  worker threads, loaded through the parser and the verifier, and sorted by the dependencies named
  in the rules' metadata. The structs are in \<open>include/cdsl/ruleset.h\<close>.
\<close>

subsection \<open>Sets of rules\<close>

record ruleset_entry =
  re_rule :: cdsl_rule
  re_priority :: int

record cdsl_ruleset =
  rs_entries :: "ruleset_entry list"
  rs_count :: nat

definition cdsl_ruleset_create :: cdsl_ruleset where
  "cdsl_ruleset_create = \<lparr>rs_entries = [], rs_count = 0\<rparr>"

definition entry_name :: "ruleset_entry \<Rightarrow> string" where
  "entry_name e = rule_name (re_rule e)"

text \<open>The insertion loop: walk while the next entry's priority is not greater.\<close>

fun insert_after :: "ruleset_entry \<Rightarrow> ruleset_entry list \<Rightarrow> ruleset_entry list" where
  "insert_after e [] = [e]"
| "insert_after e (x # xs) =
     (if re_priority x \<le> re_priority e then x # insert_after e xs else e # x # xs)"

definition cdsl_ruleset_add :: "cdsl_ruleset \<Rightarrow> cdsl_rule \<Rightarrow> int \<Rightarrow> cdsl_ruleset" where
  "cdsl_ruleset_add rs rule priority =
     (let e = \<lparr>re_rule = rule, re_priority = priority\<rparr> in
      rs\<lparr>rs_entries := (case rs_entries rs of
            [] \<Rightarrow> [e]
          | h # t \<Rightarrow> if priority < re_priority h then e # h # t else h # insert_after e t),
          rs_count := rs_count rs + 1\<rparr>)"

fun remove_entry :: "string \<Rightarrow> ruleset_entry list \<Rightarrow> ruleset_entry list option" where
  "remove_entry n [] = None"
| "remove_entry n (x # xs) =
     (if entry_name x = n then Some xs else map_option (Cons x) (remove_entry n xs))"

definition cdsl_ruleset_remove :: "cdsl_ruleset \<Rightarrow> string \<Rightarrow> bool \<times> cdsl_ruleset" where
  "cdsl_ruleset_remove rs n =
     (case remove_entry n (rs_entries rs) of
        None \<Rightarrow> (False, rs)
      | Some es \<Rightarrow> (True, rs\<lparr>rs_entries := es, rs_count := rs_count rs - 1\<rparr>))"

text \<open>The position of the first entry of the name.\<close>

fun find_entry_by_name :: "ruleset_entry list \<Rightarrow> string \<Rightarrow> nat option" where
  "find_entry_by_name [] n = None"
| "find_entry_by_name (x # xs) n =
     (if entry_name x = n then Some 0 else map_option Suc (find_entry_by_name xs n))"

subsection \<open>Batch execution\<close>

record ruleset_report =
  br_rule_reports :: "cdsl_rule_report list"
  br_rule_count :: nat
  br_total_passed :: nat
  br_total_partially :: nat
  br_total_failed :: nat
  br_total_error :: nat
  br_aggregate_score :: i32
  br_aggregate_max :: i32
  br_summary :: string

definition batch_zero :: "nat \<Rightarrow> ruleset_report" where
  "batch_zero n = \<lparr>br_rule_reports = [], br_rule_count = n, br_total_passed = 0, br_total_partially = 0,
     br_total_failed = 0, br_total_error = 0, br_aggregate_score = 0, br_aggregate_max = 0, br_summary = ''''\<rparr>"

definition count_report :: "cdsl_rule_report \<Rightarrow> ruleset_report \<Rightarrow> ruleset_report" where
  "count_report r b0 =
     (let b = b0\<lparr>br_aggregate_score := br_aggregate_score b0 + rr_total_obtained_score r,
                  br_aggregate_max := br_aggregate_max b0 + rr_total_max_score r\<rparr> in
      case rr_status r of
        CDSL_STATUS_PASSED \<Rightarrow> b\<lparr>br_total_passed := br_total_passed b + 1\<rparr>
      | CDSL_STATUS_PARTIALLY_PASSED \<Rightarrow> b\<lparr>br_total_partially := br_total_partially b + 1\<rparr>
      | CDSL_STATUS_FAILED \<Rightarrow> b\<lparr>br_total_failed := br_total_failed b + 1\<rparr>
      | CDSL_STATUS_ERROR \<Rightarrow> b\<lparr>br_total_error := br_total_error b + 1\<rparr>)"

definition batch_summary :: "string \<Rightarrow> ruleset_report \<Rightarrow> string" where
  "batch_summary label b = snprintf_buf 512 (label @ '' completed: '' @ dec_of_nat (br_total_passed b)
     @ '' passed, '' @ dec_of_nat (br_total_partially b) @ '' partially, '' @ dec_of_nat (br_total_failed b)
     @ '' failed, '' @ dec_of_nat (br_total_error b) @ '' errors. Total score: ''
     @ dec_of_int (sint (br_aggregate_score b)) @ ''/'' @ dec_of_int (sint (br_aggregate_max b)))"

fun run_rules ::
  "cdsl_env \<Rightarrow> cdsl_context \<Rightarrow> cdsl_rule list \<Rightarrow> cdsl_vm \<Rightarrow> cdsl_rule_report list \<times> cdsl_vm" where
  "run_rules env ctx [] vm = ([], vm)"
| "run_rules env ctx (r # rs) vm =
     (case cdsl_vm_execute env vm r ctx of (rpt, vm1) \<Rightarrow>
      case run_rules env ctx rs vm1 of (rpts, vm2) \<Rightarrow> (rpt # rpts, vm2))"

definition finish_batch :: "string \<Rightarrow> nat \<Rightarrow> cdsl_rule_report list \<Rightarrow> ruleset_report" where
  "finish_batch label n rpts =
     (let b = (fold count_report rpts (batch_zero n))\<lparr>br_rule_reports := rpts\<rparr>
      in b\<lparr>br_summary := batch_summary label b\<rparr>)"

definition cdsl_vm_execute_ruleset ::
  "cdsl_env \<Rightarrow> cdsl_vm \<Rightarrow> cdsl_ruleset \<Rightarrow> cdsl_context \<Rightarrow> ruleset_report \<times> cdsl_vm" where
  "cdsl_vm_execute_ruleset env vm rs ctx =
     (case run_rules env ctx (map re_rule (rs_entries rs)) vm of (rpts, vm1) \<Rightarrow>
        (finish_batch ''Batch'' (rs_count rs) rpts, vm1))"

subsection \<open>Parallel execution\<close>

text \<open>
  Each rule index is claimed by exactly one thread through an atomic counter, and a thread claims
  its indices in increasing order. A \<open>schedule\<close> says who claims which index: \<open>Some t\<close> worker \<open>t\<close>,
  \<open>None\<close> the calling thread, which also runs what no worker claims.
\<close>

type_synonym schedule = "nat \<Rightarrow> nat option"

definition claims :: "schedule \<Rightarrow> nat \<Rightarrow> nat option \<Rightarrow> nat list" where
  "claims sched n who = filter (\<lambda>i. sched i = who) [0..<n]"

definition worker_vm :: "cdsl_vm \<Rightarrow> cdsl_vm" where
  "worker_vm vm = cdsl_vm_init_worker (vm_max_expr_depth vm) (vm_timeout_us vm) (vm_memory_limit vm)
     (vm_instruction_limit vm) (vm_trace_cb vm) (vm_callbacks vm) (vm_functions vm)"

definition run_claims ::
  "cdsl_env \<Rightarrow> cdsl_context \<Rightarrow> cdsl_rule list \<Rightarrow> schedule \<Rightarrow> nat option \<Rightarrow> cdsl_vm
   \<Rightarrow> (nat \<times> cdsl_rule_report) list \<times> cdsl_vm" where
  "run_claims env ctx rules sched who vm =
     (let js = claims sched (length rules) who in
      case run_rules env ctx (map (nth rules) js) vm of (rpts, vm1) \<Rightarrow> (zip js rpts, vm1))"

definition add_worker_stats :: "cdsl_stats \<Rightarrow> cdsl_stats \<Rightarrow> cdsl_stats" where
  "add_worker_stats w s = s\<lparr>st_total_executions := st_total_executions s + st_total_executions w,
     st_total_rules_executed := st_total_rules_executed s + st_total_rules_executed w,
     st_total_metrics_evaluated := st_total_metrics_evaluated s + st_total_metrics_evaluated w,
     st_total_actions_triggered := st_total_actions_triggered s + st_total_actions_triggered w,
     st_total_time_us := f64_add (st_total_time_us s) (st_total_time_us w)\<rparr>"

definition merge_stats :: "cdsl_stats list \<Rightarrow> cdsl_stats \<Rightarrow> cdsl_stats" where
  "merge_stats ws s0 =
     (let s = fold add_worker_stats ws s0 in
      if 0 < st_total_executions s
      then s\<lparr>st_avg_time_us := f64_div (st_total_time_us s) (f64_of_int (st_total_executions s))\<rparr>
      else s)"

text \<open>The results: the batch report, the caller's VM and the workers' VMs.\<close>

definition cdsl_vm_execute_ruleset_parallel ::
  "cdsl_env \<Rightarrow> cdsl_vm \<Rightarrow> cdsl_ruleset \<Rightarrow> cdsl_context \<Rightarrow> int \<Rightarrow> schedule
   \<Rightarrow> ruleset_report \<times> cdsl_vm \<times> cdsl_vm list" where
  "cdsl_vm_execute_ruleset_parallel env vm rs ctx thread_count sched =
     (if thread_count \<le> 1 \<or> rs_count rs \<le> 1
      then (case cdsl_vm_execute_ruleset env vm rs ctx of (b, vm1) \<Rightarrow> (b, vm1, []))
      else
        let rules = map re_rule (rs_entries rs);
            nthreads = (if thread_count < int (rs_count rs) then nat thread_count else rs_count rs);
            ws = map (\<lambda>t. run_claims env ctx rules sched (Some t) (worker_vm vm)) [0..<nthreads];
            who = (\<lambda>i. case sched i of Some t \<Rightarrow> if t < nthreads then Some t else None | None \<Rightarrow> None)
        in case run_claims env ctx rules who None vm of (mine, vm1) \<Rightarrow>
          let all = mine @ concat (map fst ws);
              rpts = map (\<lambda>i. the (map_of all i)) [0..<length rules];
              vm2 = vm1\<lparr>vm_stats := merge_stats (map (\<lambda>w. vm_stats (snd w)) ws) (vm_stats vm1)\<rparr>
          in (finish_batch ''Parallel batch'' (rs_count rs) rpts, vm2, map snd ws))"

subsection \<open>Loading\<close>

text \<open>The parser and the file system are parameters: \<open>parse\<close> and \<open>read_file\<close>.\<close>

definition cdsl_ruleset_load_string ::
  "(string \<Rightarrow> cdsl_rule option) \<Rightarrow> cdsl_ruleset \<Rightarrow> string \<Rightarrow> int \<Rightarrow> cdsl_schema option \<Rightarrow> nat
   \<Rightarrow> bool \<times> string option \<times> cdsl_ruleset" where
  "cdsl_ruleset_load_string parse rs code priority schema n =
     (case parse code of
        None \<Rightarrow> (False, Some (snprintf_buf n ''Parse error''), rs)
      | Some rule \<Rightarrow>
          (case (case schema of None \<Rightarrow> (True, None) | Some s \<Rightarrow> cdsl_verify_rule (Some rule) (Some s) n) of
             (ok, msg) \<Rightarrow> if ok then (True, msg, cdsl_ruleset_add rs rule priority) else (False, msg, rs)))"

definition cdsl_ruleset_load_file ::
  "(string \<Rightarrow> string option) \<Rightarrow> (string \<Rightarrow> cdsl_rule option) \<Rightarrow> cdsl_ruleset \<Rightarrow> string \<Rightarrow> int
   \<Rightarrow> cdsl_schema option \<Rightarrow> nat \<Rightarrow> bool \<times> string option \<times> cdsl_ruleset" where
  "cdsl_ruleset_load_file read_file parse rs path priority schema n =
     (case read_file path of
        None \<Rightarrow> (False, Some (snprintf_buf n (''Could not open file: '' @ path)), rs)
      | Some text \<Rightarrow>
          if text = [] then (False, Some (snprintf_buf n (''Empty or unreadable file: '' @ path)), rs)
          else cdsl_ruleset_load_string parse rs text priority schema n)"

definition cdsl_ruleset_reload_file ::
  "(string \<Rightarrow> string option) \<Rightarrow> (string \<Rightarrow> cdsl_rule option) \<Rightarrow> cdsl_ruleset \<Rightarrow> string \<Rightarrow> string
   \<Rightarrow> cdsl_schema option \<Rightarrow> nat \<Rightarrow> bool \<times> string option \<times> cdsl_ruleset" where
  "cdsl_ruleset_reload_file read_file parse rs0 name path schema n =
     (let rs = snd (cdsl_ruleset_remove rs0 name) in
      if c_strstr path ''RULE '' \<or> c_strstr path ''META''
      then cdsl_ruleset_load_string parse rs path 0 schema n
      else cdsl_ruleset_load_file read_file parse rs path 0 schema n)"

subsection \<open>Dependencies\<close>

text \<open>
  \<open>strtok\<close> keeps its position in a hidden static variable, the text that is left to scan. The
  recursion restarts it on another buffer, which it frees: what a later \<open>strtok(NULL)\<close> then reads
  is undefined, and the parameter \<open>reread\<close> says which text is found there.
\<close>

definition strtok :: "string \<Rightarrow> string option \<times> string" where
  "strtok s =
     (case dropWhile (\<lambda>c. c = CHR '','') s of
        [] \<Rightarrow> (None, [])
      | t \<Rightarrow> (Some (takeWhile (\<lambda>c. c \<noteq> CHR '','') t), drop 1 (dropWhile (\<lambda>c. c \<noteq> CHR '','') t)))"

definition depends_on :: "ruleset_entry \<Rightarrow> string option" where
  "depends_on e = cdsl_meta_get (rule_meta (re_rule e)) ''depends_on''"

definition dep_name :: "string \<Rightarrow> string" where
  "dep_name token = dropWhile (\<lambda>c. c = CHR '' '') token"

datatype mark = Unvisited | Visiting | Visited

definition unvisited :: "mark list \<Rightarrow> nat" where
  "unvisited states = card {i. i < length states \<and> states ! i = Unvisited}"

lemma unvisited_mark: "m \<noteq> Unvisited \<Longrightarrow> unvisited (states[i := m]) \<le> unvisited states"
  unfolding unvisited_def
  by (rule card_mono) (cases "i < length states"; auto simp: nth_list_update list_update_beyond split: if_splits)+

lemma unvisited_visit:
  assumes "i < length states" and "states ! i = Unvisited" and "m \<noteq> Unvisited"
  shows "unvisited (states[i := m]) < unvisited states"
  unfolding unvisited_def using assms by (intro psubset_card_mono) (auto simp: nth_list_update)

lemma strtok_shorter: "strtok s = (Some t, s') \<Longrightarrow> length s' < length s"
proof -
  assume a: "strtok s = (Some t, s')"
  let ?d = "dropWhile (\<lambda>c. c = CHR '','') s"
  have "length ?d \<le> length s" by (rule length_dropWhile_le)
  moreover have "length (dropWhile (\<lambda>c. c \<noteq> CHR '','') ?d) \<le> length ?d" by (rule length_dropWhile_le)
  ultimately show ?thesis using a by (cases ?d) (auto simp: strtok_def)
qed

lemma strtok_end: "strtok s = (None, s') \<Longrightarrow> s' = []"
  by (auto simp: strtok_def split: list.splits)

text \<open>
  The result: the text for the error buffer when validation fails, the marks, and the position of
  \<open>strtok\<close>. \<open>validate_tokens\<close> is the loop over the tokens of rule \<open>i\<close>.
\<close>

function (sequential) validate_deps_recursive ::
    "(string \<Rightarrow> string) \<Rightarrow> ruleset_entry list \<Rightarrow> nat \<Rightarrow> mark list \<Rightarrow> string \<Rightarrow> string option \<times> mark list \<times> string"
  and validate_tokens ::
    "(string \<Rightarrow> string) \<Rightarrow> ruleset_entry list \<Rightarrow> nat \<Rightarrow> string option \<Rightarrow> mark list \<Rightarrow> string
     \<Rightarrow> string option \<times> mark list \<times> string"
where
  "validate_deps_recursive reread es i states st =
     (if length states \<le> i then (None, states, st)
      else case states ! i of
        Visiting \<Rightarrow> (Some (''Dependency cycle detected involving rule '' @ [CHR 0x27] @ entry_name (es ! i) @ [CHR 0x27]),
                     states, st)
      | Visited \<Rightarrow> (None, states, st)
      | Unvisited \<Rightarrow>
          (case depends_on (es ! i) of
             None \<Rightarrow> (None, states[i := Visited], st)
           | Some deps \<Rightarrow>
               (case strtok deps of (token, st1) \<Rightarrow>
                case validate_tokens reread es i token (states[i := Visiting]) st1 of (err, states2, st2) \<Rightarrow>
                  (err, if err = None then states2[i := Visited] else states2, reread st2))))"
| "validate_tokens reread es i None states st = (None, states, st)"
| "validate_tokens reread es i (Some token) states st =
     (case find_entry_by_name es (dep_name token) of
        None \<Rightarrow> (Some (''Missing dependency '' @ [CHR 0x27] @ dep_name token @ [CHR 0x27] @ '' for rule ''
                  @ [CHR 0x27] @ entry_name (es ! i) @ [CHR 0x27]), states, st)
      | Some j \<Rightarrow>
          (case validate_deps_recursive reread es j states st of (err, states1, st1) \<Rightarrow>
             if err \<noteq> None then (err, states1, st1)
             else (case strtok st1 of (token1, st2) \<Rightarrow> validate_tokens reread es i token1 states1 st2)))"
  by pat_completeness auto

termination
proof (relation "measures [\<lambda>x. case x of Inl (r, es, i, states, st) \<Rightarrow> unvisited states
      | Inr (r, es, i, token, states, st) \<Rightarrow> unvisited states,
    \<lambda>x. case x of Inl (r, es, i, states, st) \<Rightarrow> 2 * length st + 1
      | Inr (r, es, i, token, states, st) \<Rightarrow> 2 * length st + (if token = None then 0 else 2)]",
    goal_cases)
  have dec: "validate_deps_recursive_validate_tokens_dom (Inl (reread, es, i, states, st)) \<Longrightarrow>
      (case validate_deps_recursive reread es i states st of (err, states1, st1) \<Rightarrow>
         unvisited states1 < unvisited states \<or> unvisited states1 = unvisited states \<and> st1 = st)"
    and "validate_deps_recursive_validate_tokens_dom (Inr (reread, es, i, token, states, st)) \<Longrightarrow>
      unvisited (fst (snd (validate_tokens reread es i token states st))) \<le> unvisited states"
    for reread es i token states st
  proof (induction reread es i states st and reread es i token states st
      rule: validate_deps_recursive_validate_tokens.pinduct)
    case (1 reread es i states st)
    show ?case
    proof (cases "i < length states \<and> states ! i = Unvisited")
      case True
      then have v: "unvisited (states[i := m]) < unvisited states" if "m \<noteq> Unvisited" for m
        using unvisited_visit that by simp
      show ?thesis
      proof (cases "depends_on (es ! i)")
        case None
        then show ?thesis using True v by (simp add: validate_deps_recursive.psimps [OF 1(1)])
      next
        case (Some deps)
        obtain token st1 where t: "strtok deps = (token, st1)" by force
        obtain err states2 st2 where r: "validate_tokens reread es i token (states[i := Visiting]) st1 = (err, states2, st2)"
          by (metis prod_cases3)
        have "unvisited states2 \<le> unvisited (states[i := Visiting])"
          using 1(2) [OF _ _ Some t [symmetric]] True r by simp
        then have "unvisited states2 < unvisited states" using v [of Visiting] by simp
        then show ?thesis using True Some t r unvisited_mark [of Visited states2 i]
          by (auto simp: validate_deps_recursive.psimps [OF 1(1)])
      qed
    next
      case False
      then show ?thesis
        by (auto simp: validate_deps_recursive.psimps [OF 1(1)] split: mark.split)
    qed
  next
    case (2 reread es i states st)
    then show ?case by (simp add: validate_tokens.psimps)
  next
    case (3 reread es i token states st)
    show ?case
    proof (cases "find_entry_by_name es (dep_name token)")
      case (Some j)
      obtain err states1 st1 where r: "validate_deps_recursive reread es j states st = (err, states1, st1)"
        by (metis prod_cases3)
      obtain token1 st2 where t: "strtok st1 = (token1, st2)" by force
      show ?thesis using 3(2) [OF Some] 3(3) [OF Some r [symmetric] refl _ t [symmetric]] r t Some
        by (auto simp: validate_tokens.psimps(2) [OF 3(1)])
    qed (simp add: validate_tokens.psimps(2) [OF 3(1)])
  qed
  {
    case 1
    show ?case by simp
  next
    case (2 reread es i states st)
    then show ?case using unvisited_visit [of i states Visiting] by simp
  next
    case (3 reread es i token states st)
    then show ?case by simp
  next
    case (4 reread es i token states st j err y states1 st1 token1 st2)
    have "unvisited states1 < unvisited states \<or> unvisited states1 = unvisited states \<and> st1 = st"
      using dec(1) [OF 4(6)] unfolding 4(2) [symmetric] 4(3) [symmetric] prod.case .
    moreover have "length st2 + (if token1 = None then 0 else 1) \<le> length st1"
      using strtok_shorter [of st1] strtok_end [of st1] 4(5) [symmetric] by (cases token1) (auto simp: Suc_le_eq)
    ultimately show ?case by (auto split: if_splits)
  }
qed

declare validate_deps_recursive.simps [simp del]

fun validate_all ::
  "(string \<Rightarrow> string) \<Rightarrow> ruleset_entry list \<Rightarrow> nat list \<Rightarrow> mark list \<Rightarrow> string \<Rightarrow> string option" where
  "validate_all reread es [] states st = None"
| "validate_all reread es (i # is) states st =
     (if states ! i = Unvisited then
        (case validate_deps_recursive reread es i states st of (err, states1, st1) \<Rightarrow>
           if err \<noteq> None then err else validate_all reread es is states1 st1)
      else validate_all reread es is states st)"

definition cdsl_ruleset_validate_deps ::
  "(string \<Rightarrow> string) \<Rightarrow> cdsl_ruleset \<Rightarrow> nat \<Rightarrow> bool \<times> string option" where
  "cdsl_ruleset_validate_deps reread rs n =
     (if rs_count rs = 0 then (True, None)
      else case validate_all reread (rs_entries rs) [0..<rs_count rs] (replicate (rs_count rs) Unvisited) [] of
        None \<Rightarrow> (True, None)
      | Some msg \<Rightarrow> (False, Some (snprintf_buf n msg)))"

subsection \<open>Topological order\<close>

definition pending :: "bool list \<Rightarrow> nat" where
  "pending visited = card {i. i < length visited \<and> \<not> visited ! i}"

lemma pending_visit: "i < length visited \<Longrightarrow> \<not> visited ! i \<Longrightarrow> pending (visited[i := True]) < pending visited"
  unfolding pending_def by (intro psubset_card_mono) (auto simp: nth_list_update split: if_splits)

text \<open>The third component of the result is the output array, as positions.\<close>

function (sequential) topo_sort_recursive ::
    "(string \<Rightarrow> string) \<Rightarrow> ruleset_entry list \<Rightarrow> nat \<Rightarrow> bool list \<Rightarrow> nat list \<Rightarrow> string
     \<Rightarrow> bool list \<times> nat list \<times> string"
  and topo_tokens ::
    "(string \<Rightarrow> string) \<Rightarrow> ruleset_entry list \<Rightarrow> string option \<Rightarrow> bool list \<Rightarrow> nat list \<Rightarrow> string
     \<Rightarrow> bool list \<times> nat list \<times> string"
where
  "topo_sort_recursive reread es i visited out st =
     (if length visited \<le> i then (visited, out, st)
      else if visited ! i then (visited, out, st)
      else
        (case depends_on (es ! i) of
           None \<Rightarrow> (visited[i := True], out @ [i], st)
         | Some deps \<Rightarrow>
             (case strtok deps of (token, st1) \<Rightarrow>
              case topo_tokens reread es token (visited[i := True]) out st1 of (visited2, out2, st2) \<Rightarrow>
                (visited2, out2 @ [i], reread st2))))"
| "topo_tokens reread es None visited out st = (visited, out, st)"
| "topo_tokens reread es (Some token) visited out st =
     (case (case find_entry_by_name es (dep_name token) of
              None \<Rightarrow> (visited, out, st)
            | Some j \<Rightarrow> topo_sort_recursive reread es j visited out st) of (visited1, out1, st1) \<Rightarrow>
        (case strtok st1 of (token1, st2) \<Rightarrow> topo_tokens reread es token1 visited1 out1 st2))"
  by pat_completeness auto

termination
proof (relation "measures [\<lambda>x. case x of Inl (r, es, i, visited, out, st) \<Rightarrow> pending visited
      | Inr (r, es, token, visited, out, st) \<Rightarrow> pending visited,
    \<lambda>x. case x of Inl (r, es, i, visited, out, st) \<Rightarrow> 2 * length st + 1
      | Inr (r, es, token, visited, out, st) \<Rightarrow> 2 * length st + (if token = None then 0 else 2)]",
    goal_cases)
  have dec: "topo_sort_recursive_topo_tokens_dom (Inl (reread, es, i, visited, out, st)) \<Longrightarrow>
      (case topo_sort_recursive reread es i visited out st of (visited1, out1, st1) \<Rightarrow>
         pending visited1 < pending visited \<or> pending visited1 = pending visited \<and> st1 = st)"
    and "topo_sort_recursive_topo_tokens_dom (Inr (reread, es, token, visited, out, st)) \<Longrightarrow>
      pending (fst (topo_tokens reread es token visited out st)) \<le> pending visited"
    for reread es i token visited out st
  proof (induction reread es i visited out st and reread es token visited out st
      rule: topo_sort_recursive_topo_tokens.pinduct)
    case (1 reread es i visited out st)
    show ?case
    proof (cases "i < length visited \<and> \<not> visited ! i")
      case True
      then have v: "pending (visited[i := True]) < pending visited" using pending_visit by simp
      show ?thesis
      proof (cases "depends_on (es ! i)")
        case None
        then show ?thesis using True v by (simp add: topo_sort_recursive.psimps [OF 1(1)])
      next
        case (Some deps)
        obtain token st1 where t: "strtok deps = (token, st1)" by force
        obtain visited2 out2 st2 where r: "topo_tokens reread es token (visited[i := True]) out st1 = (visited2, out2, st2)"
          by (metis prod_cases3)
        have "pending visited2 \<le> pending (visited[i := True])"
          using 1(2) [OF _ _ Some t [symmetric]] True r by simp
        then show ?thesis using True Some t r v by (auto simp: topo_sort_recursive.psimps [OF 1(1)])
      qed
    next
      case False
      then show ?thesis by (auto simp: topo_sort_recursive.psimps [OF 1(1)])
    qed
  next
    case (2 reread es visited out st)
    then show ?case by (simp add: topo_tokens.psimps)
  next
    case (3 reread es token visited out st)
    obtain visited1 out1 st1 where r: "(case find_entry_by_name es (dep_name token) of
              None \<Rightarrow> (visited, out, st)
            | Some j \<Rightarrow> topo_sort_recursive reread es j visited out st) = (visited1, out1, st1)"
      by (metis prod_cases3)
    obtain token1 st2 where t: "strtok st1 = (token1, st2)" by force
    have "pending visited1 \<le> pending visited"
      using 3(2) r by (cases "find_entry_by_name es (dep_name token)") (auto split: prod.splits)
    then show ?case using 3(3) [OF r [symmetric] refl t [symmetric]] r t
      by (simp add: topo_tokens.psimps(2) [OF 3(1)])
  qed
  {
    case 1
    show ?case by simp
  next
    case (2 reread es i visited out st)
    then show ?case using pending_visit [of i visited] by simp
  next
    case (3 reread es token visited out st)
    then show ?case by simp
  next
    case (4 reread es token visited out st visited1 y out1 st1 token1 st2)
    have "pending visited1 < pending visited \<or> pending visited1 = pending visited \<and> st1 = st"
    proof (cases "find_entry_by_name es (dep_name token)")
      case None
      then show ?thesis using 4 by simp
    next
      case (Some j)
      then show ?thesis using 4 dec(1) [of reread es j visited out st] by (auto split: prod.splits)
    qed
    moreover have "length st2 + (if token1 = None then 0 else 1) \<le> length st1"
      using strtok_shorter [of st1] strtok_end [of st1] 4(3) [symmetric] by (cases token1) (auto simp: Suc_le_eq)
    ultimately show ?case by (auto split: if_splits)
  }
qed

declare topo_sort_recursive.simps [simp del]

fun topo_all ::
  "(string \<Rightarrow> string) \<Rightarrow> ruleset_entry list \<Rightarrow> nat list \<Rightarrow> bool list \<Rightarrow> nat list \<Rightarrow> string \<Rightarrow> nat list" where
  "topo_all reread es [] visited out st = out"
| "topo_all reread es (i # is) visited out st =
     (if \<not> visited ! i then
        (case topo_sort_recursive reread es i visited out st of (visited1, out1, st1) \<Rightarrow>
           topo_all reread es is visited1 out1 st1)
      else topo_all reread es is visited out st)"

definition cdsl_ruleset_topo_sort :: "(string \<Rightarrow> string) \<Rightarrow> cdsl_ruleset \<Rightarrow> bool \<times> cdsl_ruleset" where
  "cdsl_ruleset_topo_sort reread rs =
     (if rs_count rs \<le> 1 then (True, rs)
      else if \<not> fst (cdsl_ruleset_validate_deps reread rs 0) then (False, rs)
      else (True, rs\<lparr>rs_entries := map (nth (rs_entries rs))
              (topo_all reread (rs_entries rs) [0..<rs_count rs] (replicate (rs_count rs) False) [] [])\<rparr>))"

subsection \<open>Priority order\<close>

definition prio_sorted :: "ruleset_entry list \<Rightarrow> bool" where
  "prio_sorted es = sorted (map re_priority es)"

text \<open>The operations keep the counter; adding and removing also keep the order by priority.\<close>

definition ruleset_ok :: "cdsl_ruleset \<Rightarrow> bool" where
  "ruleset_ok rs \<longleftrightarrow> rs_count rs = length (rs_entries rs)"

lemma ruleset_add_entries:
  "rs_entries (cdsl_ruleset_add rs rule p) = insert_after \<lparr>re_rule = rule, re_priority = p\<rparr> (rs_entries rs)"
  "rs_count (cdsl_ruleset_add rs rule p) = rs_count rs + 1"
  by (cases "rs_entries rs"; simp add: cdsl_ruleset_add_def Let_def)+

lemma mset_insert_after: "mset (insert_after e es) = add_mset e (mset es)"
  by (induction es) auto

lemma set_insert_after [simp]: "set (insert_after e es) = insert e (set es)"
  by (induction es) auto

lemma length_insert_after [simp]: "length (insert_after e es) = Suc (length es)"
  by (induction es) auto

lemma sorted_insert_after: "prio_sorted es \<Longrightarrow> prio_sorted (insert_after e es)"
  unfolding prio_sorted_def by (induction es) auto

text \<open>Among entries of the same priority the new one comes last.\<close>

lemma stable_insert_after:
  "prio_sorted es \<Longrightarrow> filter (\<lambda>x. re_priority x = k) (insert_after e es) =
     filter (\<lambda>x. re_priority x = k) es @ (if re_priority e = k then [e] else [])"
  unfolding prio_sorted_def
proof (induction es)
  case (Cons x es)
  show ?case
  proof (cases "re_priority x \<le> re_priority e")
    case False
    then have "filter (\<lambda>y. re_priority y = re_priority e) (x # es) = []"
      using Cons.prems by (fastforce simp: filter_empty_conv)
    then show ?thesis using False by auto
  qed (use Cons in auto)
qed simp

definition add_all :: "(cdsl_rule \<times> int) list \<Rightarrow> cdsl_ruleset \<Rightarrow> cdsl_ruleset" where
  "add_all xs rs = fold (\<lambda>(r, p) rs. cdsl_ruleset_add rs r p) xs rs"

definition entry_of :: "cdsl_rule \<times> int \<Rightarrow> ruleset_entry" where
  "entry_of x = \<lparr>re_rule = fst x, re_priority = snd x\<rparr>"

lemma add_all_invariant:
  "prio_sorted (rs_entries rs) \<Longrightarrow> prio_sorted (rs_entries (add_all xs rs))
    \<and> mset (rs_entries (add_all xs rs)) = mset (map entry_of xs) + mset (rs_entries rs)
    \<and> filter (\<lambda>x. re_priority x = k) (rs_entries (add_all xs rs)) =
        filter (\<lambda>x. re_priority x = k) (rs_entries rs @ map entry_of xs)
    \<and> rs_count (add_all xs rs) = rs_count rs + length xs"
proof (induction xs arbitrary: rs)
  case (Cons x xs)
  obtain r p where x: "x = (r, p)" by force
  have s: "prio_sorted (rs_entries (cdsl_ruleset_add rs r p))"
    using Cons.prems by (simp add: ruleset_add_entries sorted_insert_after)
  show ?case using Cons.IH [OF s] stable_insert_after [OF Cons.prems]
    by (simp add: add_all_def x ruleset_add_entries mset_insert_after entry_of_def)
qed (simp add: add_all_def)

text \<open>
  Claim C37. Rules added to an empty set end up stably sorted by priority, as by the library's
  stable sort: lower priorities first, equal ones in the order they were added.
\<close>

theorem ruleset_priority_order:
  "rs_entries (add_all xs cdsl_ruleset_create) = sort_key re_priority (map entry_of xs)"
proof -
  have s: "prio_sorted (rs_entries cdsl_ruleset_create)" by (simp add: prio_sorted_def cdsl_ruleset_create_def)
  have e: "rs_entries cdsl_ruleset_create = []" by (simp add: cdsl_ruleset_create_def)
  note inv = add_all_invariant [OF s, of xs, unfolded e]
  show ?thesis
  proof (rule properties_for_sort_key [symmetric])
    show "mset (rs_entries (add_all xs cdsl_ruleset_create)) = mset (map entry_of xs)" using inv by simp
    show "filter (\<lambda>x. re_priority k = re_priority x) (rs_entries (add_all xs cdsl_ruleset_create)) =
        filter (\<lambda>x. re_priority k = re_priority x) (map entry_of xs)" for k
      using inv [of "re_priority k"] unfolding eq_commute [of "re_priority k"] by simp
    show "sorted (map re_priority (rs_entries (add_all xs cdsl_ruleset_create)))"
      using inv by (simp add: prio_sorted_def)
  qed
qed

subsection \<open>The order is a permutation\<close>

definition topo_ext :: "bool list \<times> nat list \<Rightarrow> bool list \<times> nat list \<Rightarrow> bool" where
  "topo_ext a b \<longleftrightarrow> length (fst b) = length (fst a) \<and> (\<forall>k. fst a ! k \<longrightarrow> fst b ! k)
     \<and> (\<exists>new. snd b = snd a @ new \<and> distinct new
          \<and> set new = {k. k < length (fst a) \<and> \<not> fst a ! k \<and> fst b ! k})"

lemma topo_ext_refl [simp, intro]: "topo_ext a a"
  by (auto simp: topo_ext_def)

lemma topo_ext_trans:
  assumes "topo_ext a b" and "topo_ext b c"
  shows "topo_ext a c"
proof -
  obtain n1 n2 where "snd b = snd a @ n1" "distinct n1" "set n1 = {k. k < length (fst a) \<and> \<not> fst a ! k \<and> fst b ! k}"
    "snd c = snd b @ n2" "distinct n2" "set n2 = {k. k < length (fst b) \<and> \<not> fst b ! k \<and> fst c ! k}"
    using assms by (auto simp: topo_ext_def)
  then show ?thesis using assms unfolding topo_ext_def by (intro conjI exI [of _ "n1 @ n2"]) auto
qed

text \<open>Marking \<open>i\<close> first and putting it out last is an extension.\<close>

lemma topo_ext_around:
  assumes "i < length v" and "\<not> v ! i" and "topo_ext (v[i := True], out) (v2, out2)"
  shows "topo_ext (v, out) (v2, out2 @ [i])"
proof -
  obtain new where new: "out2 = out @ new" "distinct new" "length v2 = length v"
      "set new = {k. k < length v \<and> \<not> v[i := True] ! k \<and> v2 ! k}"
    and mono: "\<And>k. v[i := True] ! k \<Longrightarrow> v2 ! k"
    using assms(3) by (auto simp: topo_ext_def)
  have "v2 ! i" using mono [of i] assms(1) by simp
  moreover have "v ! k \<Longrightarrow> v2 ! k" for k using mono [of k] assms by (cases "k = i") auto
  ultimately show ?thesis using new assms(1,2) unfolding topo_ext_def
    by (intro conjI exI [of _ "new @ [i]"]) (auto simp: nth_list_update split: if_splits)
qed

lemma topo_extends:
  "case topo_sort_recursive reread es i visited out st of (visited1, out1, st1) \<Rightarrow>
     topo_ext (visited, out) (visited1, out1) \<and> (i < length visited \<longrightarrow> visited1 ! i)"
  "case topo_tokens reread es token visited out st of (visited1, out1, st1) \<Rightarrow>
     topo_ext (visited, out) (visited1, out1)"
proof (induction reread es i visited out st and reread es token visited out st
    rule: topo_sort_recursive_topo_tokens.induct)
  case (1 reread es i visited out st)
  show ?case
  proof (cases "i < length visited \<and> \<not> visited ! i")
    case False
    then show ?thesis by (auto simp: topo_sort_recursive.simps)
  next
    case True
    note around = topo_ext_around [OF conjunct1 [OF True] conjunct2 [OF True]]
    show ?thesis
    proof (cases "depends_on (es ! i)")
      case None
      then show ?thesis using True around [OF topo_ext_refl] by (simp add: topo_sort_recursive.simps)
    next
      case (Some deps)
      obtain token st1 where t: "strtok deps = (token, st1)" by force
      obtain visited2 out2 st2 where r: "topo_tokens reread es token (visited[i := True]) out st1 = (visited2, out2, st2)"
        by (metis prod_cases3)
      have e: "topo_ext (visited[i := True], out) (visited2, out2)"
        using 1 [OF _ _ Some t [symmetric]] True r by simp
      then have "visited2 ! i" using True unfolding topo_ext_def by auto
      then show ?thesis using True Some t r around [OF e] by (simp add: topo_sort_recursive.simps)
    qed
  qed
next
  case (3 reread es token visited out st)
  obtain visited1 out1 st1 where r: "(case find_entry_by_name es (dep_name token) of
            None \<Rightarrow> (visited, out, st)
          | Some j \<Rightarrow> topo_sort_recursive reread es j visited out st) = (visited1, out1, st1)"
    by (metis prod_cases3)
  obtain token1 st2 where t: "strtok st1 = (token1, st2)" by force
  have "topo_ext (visited, out) (visited1, out1)"
    using 3(1) r by (cases "find_entry_by_name es (dep_name token)") auto
  then show ?case using 3(2) [OF r [symmetric] refl t [symmetric]] r t topo_ext_trans
    by (fastforce split: prod.splits)
qed simp

lemma topo_all_extends:
  "\<exists>v1. topo_ext (v, out) (v1, topo_all reread es is v out st) \<and> (\<forall>i\<in>set is. i < length v \<longrightarrow> v1 ! i)"
proof (induction "is" arbitrary: v out st)
  case Nil
  show ?case by (intro exI [of _ v]) simp
next
  case (Cons i "is")
  show ?case
  proof (cases "v ! i")
    case True
    obtain v1 where "topo_ext (v, out) (v1, topo_all reread es is v out st)" "\<forall>i\<in>set is. i < length v \<longrightarrow> v1 ! i"
      using Cons.IH by blast
    with True show ?thesis by (intro exI [of _ v1]) (auto simp: topo_ext_def)
  next
    case False
    obtain v2 out2 st2 where r: "topo_sort_recursive reread es i v out st = (v2, out2, st2)" by (metis prod_cases3)
    have e: "topo_ext (v, out) (v2, out2)" "i < length v \<longrightarrow> v2 ! i"
      using topo_extends(1) [where reread = reread and es = es and i = i and visited = v and out = out and st = st] by (simp_all add: r)
    obtain v1 where v1: "topo_ext (v2, out2) (v1, topo_all reread es is v2 out2 st2)" "\<forall>i\<in>set is. i < length v2 \<longrightarrow> v1 ! i"
      using Cons.IH by blast
    have "length v2 = length v" "v2 ! i \<longrightarrow> v1 ! i" using e(1) v1(1) by (simp_all add: topo_ext_def)
    with e v1 topo_ext_trans [OF e(1) v1(1)] False show ?thesis by (intro exI [of _ v1]) (auto simp: r)
  qed
qed

lemma topo_permutes:
  "mset (topo_all reread es [0..<n] (replicate n False) [] st) = mset [0..<n]"
proof -
  obtain v1 where v1: "topo_ext (replicate n False, []) (v1, topo_all reread es [0..<n] (replicate n False) [] st)"
      "\<forall>i\<in>set [0..<n]. i < length (replicate n False) \<longrightarrow> v1 ! i"
    using topo_all_extends [of "replicate n False" "[]" reread es "[0..<n]" st] by blast
  then have "distinct (topo_all reread es [0..<n] (replicate n False) [] st)"
    "set (topo_all reread es [0..<n] (replicate n False) [] st) = {0..<n}"
    by (auto simp: topo_ext_def)
  then show ?thesis by (intro set_eq_iff_mset_eq_distinct [THEN iffD1]) auto
qed

definition named_rule :: "string \<Rightarrow> string option \<Rightarrow> cdsl_rule" where
  "named_rule n deps = \<lparr>rule_name = n, rule_meta = (case deps of None \<Rightarrow> [] | Some d \<Rightarrow> [(''depends_on'', d)]),
     rule_when = None, rule_then = None, rule_metrics = [], rule_line = 0, rule_column = 0\<rparr>"

text \<open>
  Claim C35. Topological sorting keeps the rules: whatever is found in freed memory, it returns,
  and the new order is a permutation of the old entries (the old list itself when it fails).
\<close>

theorem topo_sort_permutes:
  assumes "ruleset_ok rs"
  shows "case cdsl_ruleset_topo_sort reread rs of (ok, rs') \<Rightarrow>
     mset (rs_entries rs') = mset (rs_entries rs) \<and> ruleset_ok rs' \<and> (ok \<or> rs' = rs)"
proof -
  let ?out = "topo_all reread (rs_entries rs) [0..<rs_count rs] (replicate (rs_count rs) False) [] []"
  have "mset (map (nth (rs_entries rs)) ?out) = image_mset (nth (rs_entries rs)) (mset [0..<rs_count rs])"
    unfolding mset_map topo_permutes ..
  also have "\<dots> = mset (rs_entries rs)"
    using assms unfolding mset_map [symmetric] ruleset_ok_def by (simp add: map_nth)
  finally have m: "mset (map (nth (rs_entries rs)) ?out) = mset (rs_entries rs)" .
  then have "length ?out = length (rs_entries rs)" by (metis length_map size_mset)
  with m assms show ?thesis by (simp add: cdsl_ruleset_topo_sort_def ruleset_ok_def)
qed

lemma topo_sort_permutes_witness:
  "let rs = add_all [(named_rule ''A'' (Some ''B''), 0), (named_rule ''B'' None, 0)] cdsl_ruleset_create in
   case cdsl_ruleset_topo_sort id rs of (ok, rs') \<Rightarrow>
     mset (rs_entries rs') = mset (rs_entries rs) \<and> ruleset_ok rs' \<and> (ok \<or> rs' = rs)"
proof -
  have "ruleset_ok (add_all [(named_rule ''A'' (Some ''B''), 0), (named_rule ''B'' None, 0)] cdsl_ruleset_create)"
    by code_simp
  from topo_sort_permutes [OF this] show ?thesis unfolding Let_def .
qed

subsection \<open>Single dependencies\<close>

text \<open>Every rule names at most one dependency; \<open>dep_edges\<close> is then the dependency relation.\<close>

definition single_deps :: "ruleset_entry list \<Rightarrow> bool" where
  "single_deps es = list_all (\<lambda>e. case depends_on e of None \<Rightarrow> True | Some d \<Rightarrow> CHR '','' \<notin> set d) es"

definition dep_token :: "ruleset_entry list \<Rightarrow> nat \<Rightarrow> string option" where
  "dep_token es i = (case depends_on (es ! i) of None \<Rightarrow> None | Some d \<Rightarrow> if d = [] then None else Some d)"

definition dep_of :: "ruleset_entry list \<Rightarrow> nat \<Rightarrow> nat option" where
  "dep_of es i = (case dep_token es i of None \<Rightarrow> None | Some d \<Rightarrow> find_entry_by_name es (dep_name d))"

definition dep_edges :: "ruleset_entry list \<Rightarrow> (nat \<times> nat) set" where
  "dep_edges es = {(i, j). i < length es \<and> dep_of es i = Some j}"

lemma find_entry_sound: "find_entry_by_name es n = Some j \<Longrightarrow> j < length es \<and> entry_name (es ! j) = n"
  by (induction es arbitrary: j) (auto split: if_splits)

lemma strtok_empty [simp]: "strtok [] = (None, [])"
  by (simp add: strtok_def)

lemma strtok_single: "CHR '','' \<notin> set d \<Longrightarrow> d \<noteq> [] \<Longrightarrow> strtok d = (Some d, [])"
proof -
  assume a: "CHR '','' \<notin> set d" "d \<noteq> []"
  then have "dropWhile (\<lambda>c. c = CHR '','') d = d" by (cases d) auto
  then have "strtok d = (Some (takeWhile (\<lambda>c. c \<noteq> CHR '','') d), drop 1 (dropWhile (\<lambda>c. c \<noteq> CHR '','') d))"
    using a(2) unfolding strtok_def by (simp split: list.split)
  moreover have "takeWhile (\<lambda>c. c \<noteq> CHR '','') d = d" "dropWhile (\<lambda>c. c \<noteq> CHR '','') d = []"
    using a(1) by (auto simp: takeWhile_eq_all_conv dropWhile_eq_Nil_conv)
  ultimately show ?thesis by simp
qed

lemma single_strtok:
  assumes "single_deps es" and "i < length es" and "depends_on (es ! i) = Some d"
  shows "strtok d = (dep_token es i, [])"
  using assms strtok_single [of d] by (cases d) (auto simp: single_deps_def list_all_length dep_token_def)

text \<open>One rule of the searches for such sets, when freed memory still holds its terminator.\<close>

lemma topo_visit:
  assumes "single_deps es" and "reread [] = []" and "i < length es" and "length v = length es" and "\<not> v ! i"
    and "\<And>j. dep_of es i = Some j \<Longrightarrow> snd (snd (topo_sort_recursive reread es j (v[i := True]) out [])) = []"
  shows "topo_sort_recursive reread es i v out [] =
     (case dep_of es i of None \<Rightarrow> (v[i := True], out @ [i], [])
      | Some j \<Rightarrow> (case topo_sort_recursive reread es j (v[i := True]) out [] of
          (v2, out2, st2) \<Rightarrow> (v2, out2 @ [i], [])))"
proof (cases "depends_on (es ! i)")
  case None
  then show ?thesis using assms(3-5) by (subst topo_sort_recursive.simps) (simp add: dep_of_def dep_token_def)
next
  case (Some d)
  note st = single_strtok [OF assms(1,3) Some]
  show ?thesis
  proof (cases "dep_of es i")
    case None
    then show ?thesis using Some st assms(2-5)
      by (subst topo_sort_recursive.simps) (auto simp: dep_of_def split: option.splits)
  next
    case (Some j)
    obtain v2 out2 where r: "topo_sort_recursive reread es j (v[i := True]) out [] = (v2, out2, [])"
      using assms(6) [OF Some] by (metis prod.collapse)
    show ?thesis using Some \<open>depends_on (es ! i) = Some d\<close> st assms(2-5) r
      by (subst topo_sort_recursive.simps) (auto simp: dep_of_def split: option.splits)
  qed
qed

definition in_order :: "ruleset_entry list \<Rightarrow> nat list \<Rightarrow> bool" where
  "in_order es out \<longleftrightarrow> (\<forall>p < length out. \<forall>j. (out ! p, j) \<in> dep_edges es \<longrightarrow> j \<in> set (take p out))"

lemma in_order_snoc: "in_order es (out @ [i]) \<longleftrightarrow> in_order es out \<and> (\<forall>j. (i, j) \<in> dep_edges es \<longrightarrow> j \<in> set out)"
  by (auto simp: in_order_def nth_append less_Suc_eq)

text \<open>The entries being visited but not yet put out.\<close>

definition in_progress :: "bool list \<Rightarrow> nat list \<Rightarrow> nat set" where
  "in_progress v out = {k. k < length v \<and> v ! k \<and> k \<notin> set out}"

lemma topo_order:
  assumes "single_deps es" and "reread [] = []" and "acyclic (dep_edges es)"
    and "i < length es" and "length v = length es" and "in_progress v out \<subseteq> {k. (k, i) \<in> (dep_edges es)\<^sup>+}"
    and "in_order es out"
  shows "case topo_sort_recursive reread es i v out [] of (v1, out1, st1) \<Rightarrow>
     st1 = [] \<and> in_order es out1 \<and> i \<in> set out1 \<and> set out \<subseteq> set out1 \<and> in_progress v1 out1 = in_progress v out
     \<and> length v1 = length v"
  using assms(4-7)
proof (induction "pending v" arbitrary: i v out rule: less_induct)
  case less
  show ?case
  proof (cases "v ! i")
    case True
    then have "i \<in> set out" using less.prems assms(3) by (auto simp: in_progress_def acyclic_def)
    with True less.prems show ?thesis by (subst topo_sort_recursive.simps) simp
  next
    case False
    then have lt: "pending (v[i := True]) < pending v" using pending_visit less.prems by simp
    have ni: "i \<notin> set out \<Longrightarrow> in_progress (v[i := True]) out = insert i (in_progress v out)"
      using less.prems by (auto simp: in_progress_def nth_list_update)
    have prog: "in_progress (v[i := True]) out \<subseteq> insert i (in_progress v out)"
      by (auto simp: in_progress_def nth_list_update split: if_splits)
    show ?thesis
    proof (cases "dep_of es i")
      case None
      then have "\<forall>j. (i, j) \<notin> dep_edges es" by (simp add: dep_edges_def)
      then show ?thesis
        using topo_visit [where reread = reread and i = i and v = v and out = out, OF assms(1,2) less.prems(1,2) False] None less.prems False
        by (auto simp: in_order_snoc in_progress_def nth_list_update split: if_splits)
    next
      case (Some j)
      then have ij: "(i, j) \<in> dep_edges es" using less.prems(1) by (simp add: dep_edges_def)
      have j: "j < length es" using Some find_entry_sound by (auto simp: dep_of_def split: option.splits)
      have pre: "in_progress (v[i := True]) out \<subseteq> {k. (k, j) \<in> (dep_edges es)\<^sup>+}"
        using prog less.prems(3) ij by (auto intro: trancl_into_trancl)
      obtain v2 out2 st2 where r: "topo_sort_recursive reread es j (v[i := True]) out [] = (v2, out2, st2)"
        by (metis prod_cases3)
      have IH: "st2 = []" "in_order es out2" "j \<in> set out2" "set out \<subseteq> set out2"
        "in_progress v2 out2 = in_progress (v[i := True]) out" "length v2 = length v"
        using less.hyps [OF lt j _ pre less.prems(4)] less.prems(2) r by simp_all
      have "topo_sort_recursive reread es i v out [] = (v2, out2 @ [i], [])"
        using topo_visit [where reread = reread and i = i and v = v and out = out, OF assms(1,2) less.prems(1,2) False] Some r IH(1) by simp
      moreover have "in_progress v2 (out2 @ [i]) = in_progress v out"
        using IH(5) False less.prems(1,2) by (auto simp: in_progress_def nth_list_update split: if_splits)
      moreover have "in_order es (out2 @ [i])"
        using IH(2,3) Some by (auto simp: in_order_snoc dep_edges_def)
      ultimately show ?thesis using IH by auto
    qed
  qed
qed

text \<open>The same for validation: what it has visited has its dependencies, without a cycle.\<close>

lemma validate_visit:
  assumes "single_deps es" and "reread [] = []" and "i < length es" and "length v = length es" and "v ! i = Unvisited"
    and "\<And>j. dep_of es i = Some j \<Longrightarrow> snd (snd (validate_deps_recursive reread es j (v[i := Visiting]) [])) = []"
    and "validate_deps_recursive reread es i v [] = (None, v1, st1)"
  shows "case dep_of es i of
      None \<Rightarrow> dep_token es i = None \<and> v1 = v[i := Visited] \<and> st1 = []
    | Some j \<Rightarrow> \<exists>v2. validate_deps_recursive reread es j (v[i := Visiting]) [] = (None, v2, [])
        \<and> v1 = v2[i := Visited] \<and> st1 = []"
proof (cases "depends_on (es ! i)")
  case None
  then show ?thesis using assms(3-5,7)
    by (simp add: dep_of_def dep_token_def validate_deps_recursive.simps [of reread es i])
next
  case (Some d)
  note st = single_strtok [OF assms(1,3) Some]
  show ?thesis
  proof (cases "dep_of es i")
    case None
    then show ?thesis using Some st assms(2-5,7)
      by (auto simp: dep_of_def validate_deps_recursive.simps [of reread es i] split: option.splits)
  next
    case (Some j)
    obtain err v2 where r: "validate_deps_recursive reread es j (v[i := Visiting]) [] = (err, v2, [])"
      using assms(6) [OF Some] by (metis prod.collapse)
    show ?thesis using Some \<open>depends_on (es ! i) = Some d\<close> st assms(2-5,7) r
      by (auto simp: dep_of_def validate_deps_recursive.simps [of reread es i] split: option.splits if_splits)
  qed
qed

lemma validate_rest:
  assumes "single_deps es" and "reread [] = []" and "length v = length es"
  shows "snd (snd (validate_deps_recursive reread es i v [])) = []"
  using assms(3)
proof (induction "unvisited v" arbitrary: i v rule: less_induct)
  case less
  show ?case
  proof (cases "i < length es \<and> v ! i = Unvisited")
    case False
    then show ?thesis using less.prems by (auto simp: validate_deps_recursive.simps [of reread es i] split: mark.split)
  next
    case True
    then have lt: "unvisited (v[i := Visiting]) < unvisited v" using unvisited_visit less.prems by simp
    show ?thesis
    proof (cases "depends_on (es ! i)")
      case (Some d)
      note st = single_strtok [OF assms(1) conjunct1 [OF True] Some]
      have "snd (snd (validate_tokens reread es i (dep_token es i) (v[i := Visiting]) [])) = []"
      proof (cases "dep_token es i")
        case t: (Some t)
        show ?thesis
        proof (cases "find_entry_by_name es (dep_name t)")
          case j: (Some j)
          obtain err v2 where "validate_deps_recursive reread es j (v[i := Visiting]) [] = (err, v2, [])"
            using less.hyps [OF lt, of j] less.prems by (metis length_list_update prod.collapse)
          then show ?thesis by (simp add: t j)
        qed (simp add: t)
      qed simp
      then show ?thesis using True less.prems Some st assms(2)
        by (auto simp: validate_deps_recursive.simps [of reread es i] split: prod.splits)
    qed (use True less.prems in \<open>simp add: validate_deps_recursive.simps [of reread es i]\<close>)
  qed
qed

definition visited_edges :: "ruleset_entry list \<Rightarrow> mark list \<Rightarrow> (nat \<times> nat) set" where
  "visited_edges es v = {(k, j) \<in> dep_edges es. v ! k = Visited}"

definition validated :: "ruleset_entry list \<Rightarrow> mark list \<Rightarrow> bool" where
  "validated es v \<longleftrightarrow> length v = length es \<and> acyclic (visited_edges es v)
     \<and> (\<forall>k < length es. v ! k = Visited \<longrightarrow> (dep_token es k \<noteq> None \<longrightarrow> dep_of es k \<noteq> None)
          \<and> (\<forall>j. dep_of es k = Some j \<longrightarrow> v ! j = Visited))"

lemma dep_of_bound: "dep_of es i = Some j \<Longrightarrow> j < length es"
  using find_entry_sound by (auto simp: dep_of_def split: option.splits)

lemma validated_visiting: "validated es v \<Longrightarrow> v ! i = Unvisited \<Longrightarrow> validated es (v[i := Visiting])"
proof -
  assume a: "validated es v" "v ! i = Unvisited"
  have "v[i := Visiting] ! k = Visited \<longleftrightarrow> v ! k = Visited" if "k < length v" for k
    using a(2) that by (cases "k = i") auto
  moreover have "visited_edges es (v[i := Visiting]) = visited_edges es v"
    using calculation a(1) by (auto simp: visited_edges_def dep_edges_def validated_def)
  ultimately show ?thesis using a(1) dep_of_bound unfolding validated_def by auto
qed

text \<open>Completing an entry whose dependency is validated adds no cycle.\<close>

lemma validated_complete:
  assumes "validated es v" and "i < length es" and "v ! i \<noteq> Visited"
    and "dep_token es i \<noteq> None \<longrightarrow> dep_of es i \<noteq> None" and "\<forall>j. dep_of es i = Some j \<longrightarrow> v ! j = Visited"
  shows "validated es (v[i := Visited])"
proof -
  have len: "length v = length es" and acyc: "acyclic (visited_edges es v)"
    and closed: "\<And>k j. k < length es \<Longrightarrow> v ! k = Visited \<Longrightarrow> dep_of es k = Some j \<Longrightarrow> v ! j = Visited"
    using assms(1) by (auto simp: validated_def)
  have at: "v[i := Visited] ! k = Visited \<longleftrightarrow> k = i \<or> v ! k = Visited" if "k < length es" for k
    using that assms(2) len by (simp add: nth_list_update)
  have "acyclic (visited_edges es (v[i := Visited]))"
  proof (cases "dep_of es i")
    case None
    then have "visited_edges es (v[i := Visited]) = visited_edges es v"
      using at by (auto simp: visited_edges_def dep_edges_def)
    with acyc show ?thesis by simp
  next
    case (Some j)
    then have e: "visited_edges es (v[i := Visited]) = insert (i, j) (visited_edges es v)"
      using at assms(2) by (auto simp: visited_edges_def dep_edges_def)
    have "v ! k = Visited" if "(j, k) \<in> (visited_edges es v)\<^sup>*" for k
      using that Some assms(5) closed by (induction rule: rtrancl_induct) (auto simp: visited_edges_def dep_edges_def)
    then have "(j, i) \<notin> (visited_edges es v)\<^sup>*" using assms(3) by blast
    then show ?thesis using acyc by (simp add: e acyclic_insert)
  qed
  moreover have "v[i := Visited] ! j = Visited" if "v ! j = Visited" "dep_of es k = Some j" for j k
    using that at dep_of_bound by blast
  ultimately show ?thesis unfolding validated_def
    using assms(1,4,5) closed len by (simp add: at validated_def)
qed

lemma validate_sound:
  assumes "single_deps es" and "reread [] = []" and "i < length es" and "validated es v"
    and "validate_deps_recursive reread es i v [] = (None, v1, st1)"
  shows "validated es v1 \<and> v1 ! i = Visited \<and> (\<forall>k < length es. (v1 ! k = Visiting) = (v ! k = Visiting))
    \<and> (\<forall>k < length es. v ! k = Visited \<longrightarrow> v1 ! k = Visited)"
  using assms(3-5)
proof (induction "unvisited v" arbitrary: i v v1 st1 rule: less_induct)
  case less
  have len: "length v = length es" using less.prems(2) by (simp add: validated_def)
  consider "v ! i = Visited" | "v ! i = Visiting" | (u) "v ! i = Unvisited" by (cases "v ! i") auto
  then show ?case
  proof cases
    case u
    then have lt: "unvisited (v[i := Visiting]) < unvisited v" using unvisited_visit less.prems(1) len by simp
    have val: "validated es (v[i := Visiting])" by (rule validated_visiting [OF less.prems(2) u])
    have step: "case dep_of es i of
      None \<Rightarrow> dep_token es i = None \<and> v1 = v[i := Visited] \<and> st1 = []
    | Some j \<Rightarrow> \<exists>v2. validate_deps_recursive reread es j (v[i := Visiting]) [] = (None, v2, [])
        \<and> v1 = v2[i := Visited] \<and> st1 = []"
      by (rule validate_visit [OF assms(1,2) less.prems(1) len u _ less.prems(3)])
        (rule validate_rest [where reread = reread, OF assms(1,2)], simp add: len)
    show ?thesis
    proof (cases "dep_of es i")
      case None
      then have "validated es v1" using step validated_complete [OF less.prems(2,1)] u by simp
      then show ?thesis using None step len less.prems(1) u by (auto simp: nth_list_update)
    next
      case (Some j)
      then obtain v2 where r: "validate_deps_recursive reread es j (v[i := Visiting]) [] = (None, v2, [])"
        and v1: "v1 = v2[i := Visited]" using step by auto
      note IH = less.hyps [OF lt dep_of_bound [OF Some] val r]
      have "v2 ! i = Visiting" using IH len less.prems(1) by simp
      then have "validated es v1" unfolding v1
        using IH less.prems(1) Some by (intro validated_complete) auto
      moreover have "length v2 = length es" using IH by (simp add: validated_def)
      ultimately show ?thesis using IH len less.prems(1) u by (auto simp: v1 nth_list_update)
    qed
  qed (use less.prems len in \<open>simp_all add: validate_deps_recursive.simps [of reread es i]\<close>)
qed

lemma validate_all_sound:
  assumes "single_deps es" and "reread [] = []"
  shows "validated es v \<Longrightarrow> list_all (\<lambda>i. i < length es) ks \<Longrightarrow> \<forall>k < length es. v ! k \<noteq> Visiting \<Longrightarrow>
    validate_all reread es ks v [] = None \<Longrightarrow>
    \<exists>v1. validated es v1 \<and> (\<forall>k < length es. v ! k = Visited \<longrightarrow> v1 ! k = Visited) \<and> list_all (\<lambda>i. v1 ! i = Visited) ks"
proof (induction ks arbitrary: v)
  case (Cons i ks)
  have i: "i < length es" using Cons.prems(2) by simp
  show ?case
  proof (cases "v ! i = Unvisited")
    case True
    obtain v2 st2 where r: "validate_deps_recursive reread es i v [] = (None, v2, st2)"
      and rest: "validate_all reread es ks v2 st2 = None"
      using Cons.prems(4) True by (auto split: prod.splits if_splits)
    have "st2 = []" using validate_rest [where reread = reread and v = v and i = i, OF assms] Cons.prems(1) r by (simp add: validated_def)
    note v2 = validate_sound [OF assms i Cons.prems(1) r]
    obtain v1 where v1: "validated es v1" "\<forall>k < length es. v2 ! k = Visited \<longrightarrow> v1 ! k = Visited"
      "list_all (\<lambda>i. v1 ! i = Visited) ks"
      using Cons.IH [of v2] v2 Cons.prems(2,3) rest \<open>st2 = []\<close> by auto
    then show ?thesis using v2 i by (intro exI [of _ v1]) auto
  next
    case False
    then have "v ! i = Visited" using Cons.prems(3) i by (cases "v ! i") auto
    moreover obtain v1 where "validated es v1" "\<forall>k < length es. v ! k = Visited \<longrightarrow> v1 ! k = Visited"
      "list_all (\<lambda>i. v1 ! i = Visited) ks"
      using Cons.IH [of v] Cons.prems False by auto
    ultimately show ?thesis using i by (intro exI [of _ v1]) auto
  qed
qed auto

lemma validate_deps_sound:
  assumes "single_deps (rs_entries rs)" and "reread [] = []" and "ruleset_ok rs"
    and "fst (cdsl_ruleset_validate_deps reread rs n)"
  shows "acyclic (dep_edges (rs_entries rs))"
    and "\<forall>k < length (rs_entries rs). dep_token (rs_entries rs) k \<noteq> None \<longrightarrow> dep_of (rs_entries rs) k \<noteq> None"
proof -
  let ?es = "rs_entries rs"
  have len: "rs_count rs = length ?es" using assms(3) by (simp add: ruleset_ok_def)
  have "visited_edges ?es (replicate (length ?es) Unvisited) = {}" by (auto simp: visited_edges_def dep_edges_def)
  then have "validated ?es (replicate (length ?es) Unvisited)" by (simp add: validated_def acyclic_def)
  moreover have "validate_all reread ?es [0..<length ?es] (replicate (length ?es) Unvisited) [] = None"
    using assms(4) by (cases "?es = []") (auto simp: cdsl_ruleset_validate_deps_def len split: option.splits)
  ultimately obtain v1 where v1: "validated ?es v1" "list_all (\<lambda>i. v1 ! i = Visited) [0..<length ?es]"
    using validate_all_sound [where reread = reread and v = "replicate (length ?es) Unvisited"
        and ks = "[0..<length ?es]", OF assms(1,2)]
    by (auto simp: list_all_iff)
  then have all: "v1 ! k = Visited" if "k < length ?es" for k using that by (auto simp: list_all_iff)
  then have "visited_edges ?es v1 = dep_edges ?es" by (auto simp: visited_edges_def dep_edges_def)
  with v1(1) show "acyclic (dep_edges ?es)" by (simp add: validated_def)
  show "\<forall>k < length ?es. dep_token ?es k \<noteq> None \<longrightarrow> dep_of ?es k \<noteq> None"
    using v1(1) all by (simp add: validated_def)
qed

lemma topo_all_order:
  assumes "single_deps es" and "reread [] = []" and "acyclic (dep_edges es)"
  shows "list_all (\<lambda>i. i < length es) ks \<Longrightarrow> length v = length es \<Longrightarrow> in_progress v out = {} \<Longrightarrow> in_order es out \<Longrightarrow>
    in_order es (topo_all reread es ks v out [])"
proof (induction ks arbitrary: v out)
  case (Cons i ks)
  obtain v1 out1 st1 where r: "topo_sort_recursive reread es i v out [] = (v1, out1, st1)" by (metis prod_cases3)
  have "st1 = [] \<and> in_order es out1 \<and> in_progress v1 out1 = {} \<and> length v1 = length es"
    using topo_order [where reread = reread and i = i and v = v and out = out, OF assms] Cons.prems r by simp
  then show ?case using Cons r by (cases "v ! i") auto
qed simp

text \<open>
  Claim C25. When every rule names at most one dependency, sorting a set of several rules that it
  accepts puts every rule behind the rule it depends on (freed memory is taken to keep its
  terminator; the code reads it after every nested visit).
\<close>

theorem topo_orders_single_dependencies:
  assumes "ruleset_ok rs" and "1 < rs_count rs" and "single_deps (rs_entries rs)" and "reread [] = []"
    and "cdsl_ruleset_topo_sort reread rs = (True, rs')" and "p < length (rs_entries rs')"
    and "depends_on (rs_entries rs' ! p) = Some d" and "d \<noteq> []"
  shows "\<exists>q < p. entry_name (rs_entries rs' ! q) = dep_name d"
proof -
  let ?es = "rs_entries rs"
  let ?out = "topo_all reread ?es [0..<length ?es] (replicate (length ?es) False) [] []"
  have len: "rs_count rs = length ?es" using assms(1) by (simp add: ruleset_ok_def)
  have ok: "fst (cdsl_ruleset_validate_deps reread rs 0)" and es': "rs_entries rs' = map (nth ?es) ?out"
    using assms(2,5) by (auto simp: cdsl_ruleset_topo_sort_def len split: if_splits)
  note sound = validate_deps_sound [where reread = reread, OF assms(3,4,1) ok]
  have order: "in_order ?es ?out"
    by (rule topo_all_order [where reread = reread, OF assms(3,4) sound(1)])
      (auto simp: list_all_iff in_progress_def in_order_def)
  have set: "set ?out = {0..<length ?es}"
    using topo_permutes [of reread ?es "length ?es" "[]"] by (metis set_mset_mset set_upt)
  have p: "p < length ?out" using assms(6) es' by simp
  then have k: "?out ! p < length ?es" using set nth_mem by fastforce
  have "dep_token ?es (?out ! p) = Some d" using assms(7,8) p by (simp add: es' dep_token_def)
  with sound(2) k obtain j where j: "dep_of ?es (?out ! p) = Some j" by blast
  then have "j \<in> set (take p ?out)" using order p k by (auto simp: in_order_def dep_edges_def)
  then obtain q where q: "q < p" "?out ! q = j" using p by (auto simp: in_set_conv_nth)
  have "entry_name (?es ! j) = dep_name d"
    using j \<open>dep_token ?es (?out ! p) = Some d\<close> find_entry_sound by (auto simp: dep_of_def)
  then show ?thesis using q p by (intro exI [of _ q]) (simp add: es')
qed

lemma topo_orders_single_dependencies_witness:
  "\<exists>q < 2. entry_name (rs_entries (snd (cdsl_ruleset_topo_sort id (add_all
     [(named_rule ''A'' (Some ''B''), 0), (named_rule ''B'' (Some ''C''), 0), (named_rule ''C'' None, 0)]
     cdsl_ruleset_create))) ! q) = ''B''"
proof -
  let ?rs = "add_all [(named_rule ''A'' (Some ''B''), 0), (named_rule ''B'' (Some ''C''), 0), (named_rule ''C'' None, 0)]
       cdsl_ruleset_create"
  have "\<exists>q < 2. entry_name (rs_entries (snd (cdsl_ruleset_topo_sort id ?rs)) ! q) = dep_name ''B''"
    by (rule topo_orders_single_dependencies [where reread = id and rs = ?rs]) code_simp+
  moreover have "dep_name ''B'' = ''B''" by code_simp
  ultimately show ?thesis by metis
qed

text \<open>
  With more dependencies some are lost: the nested visit of the first dependency restarts
  \<open>strtok\<close>, so the second one is never looked at. A set with a missing rule is accepted, and a
  rule is put before a rule it depends on.
\<close>

lemma topo_sort_loses_dependencies:
  "fst (cdsl_ruleset_validate_deps id (add_all [(named_rule ''A'' (Some ''B,missing''), 0),
      (named_rule ''B'' (Some ''D''), 0), (named_rule ''D'' None, 0)] cdsl_ruleset_create) 100)
   \<and> map entry_name (rs_entries (snd (cdsl_ruleset_topo_sort id (add_all [(named_rule ''A'' (Some ''B,C''), 0),
      (named_rule ''B'' (Some ''D''), 0), (named_rule ''C'' None, 0), (named_rule ''D'' None, 0)] cdsl_ruleset_create))))
     = [''D'', ''B'', ''A'', ''C'']"
  by code_simp

subsection \<open>Batches\<close>

definition count_status :: "cdsl_rule_status \<Rightarrow> cdsl_rule_report list \<Rightarrow> nat" where
  "count_status st rpts = length (filter (\<lambda>r. rr_status r = st) rpts)"

lemma count_reports:
  "let b = fold count_report rpts b0 in
     br_total_passed b = br_total_passed b0 + count_status CDSL_STATUS_PASSED rpts
     \<and> br_total_partially b = br_total_partially b0 + count_status CDSL_STATUS_PARTIALLY_PASSED rpts
     \<and> br_total_failed b = br_total_failed b0 + count_status CDSL_STATUS_FAILED rpts
     \<and> br_total_error b = br_total_error b0 + count_status CDSL_STATUS_ERROR rpts
     \<and> br_aggregate_score b = br_aggregate_score b0 + sum_list (map rr_total_obtained_score rpts)
     \<and> br_aggregate_max b = br_aggregate_max b0 + sum_list (map rr_total_max_score rpts)
     \<and> br_rule_count b = br_rule_count b0"
proof (induction rpts arbitrary: b0)
  case (Cons r rpts)
  then show ?case
    by (cases "rr_status r") (simp_all add: Let_def count_report_def count_status_def add.assoc)
qed (simp add: count_status_def)

lemma statuses_partition:
  "count_status CDSL_STATUS_PASSED rpts + count_status CDSL_STATUS_PARTIALLY_PASSED rpts
   + count_status CDSL_STATUS_FAILED rpts + count_status CDSL_STATUS_ERROR rpts = length rpts"
proof (induction rpts)
  case (Cons r rpts)
  then show ?case by (cases "rr_status r") (simp_all add: count_status_def)
qed (simp add: count_status_def)

text \<open>
  Claim C38. A batch executes every rule of the set once, in the order of the set, and its totals
  are those of the reports: one counter per status, and the sums of the scores (in 32 bits).
\<close>

theorem batch_report_totals:
  "case cdsl_vm_execute_ruleset env vm rs ctx of (b, vm') \<Rightarrow>
     br_rule_reports b = fst (run_rules env ctx (map re_rule (rs_entries rs)) vm)
     \<and> length (br_rule_reports b) = length (rs_entries rs)
     \<and> (br_total_passed b, br_total_partially b, br_total_failed b, br_total_error b) =
         (count_status CDSL_STATUS_PASSED (br_rule_reports b), count_status CDSL_STATUS_PARTIALLY_PASSED (br_rule_reports b),
          count_status CDSL_STATUS_FAILED (br_rule_reports b), count_status CDSL_STATUS_ERROR (br_rule_reports b))
     \<and> br_total_passed b + br_total_partially b + br_total_failed b + br_total_error b = length (rs_entries rs)
     \<and> br_aggregate_score b = sum_list (map rr_total_obtained_score (br_rule_reports b))
     \<and> br_aggregate_max b = sum_list (map rr_total_max_score (br_rule_reports b))"
proof -
  have len: "length (fst (run_rules env ctx rules vm)) = length rules" for rules vm
    by (induction rules arbitrary: vm) (auto split: prod.split, metis fst_conv)
  obtain rpts vm1 where r: "run_rules env ctx (map re_rule (rs_entries rs)) vm = (rpts, vm1)" by force
  with len [of "map re_rule (rs_entries rs)" vm] have "length rpts = length (rs_entries rs)" by simp
  then show ?thesis
    using count_reports [of rpts "batch_zero (rs_count rs)"] statuses_partition [of rpts]
    by (simp add: cdsl_vm_execute_ruleset_def r finish_batch_def Let_def batch_zero_def)
qed

subsection \<open>Parallel batches\<close>

lemma run_rules_reports:
  assumes "env_blind env"
  shows "same_limits vm0 vm \<Longrightarrow>
    fst (run_rules env ctx rules vm) = map (\<lambda>r. fst (cdsl_vm_execute env vm0 r ctx)) rules"
proof (induction rules arbitrary: vm)
  case (Cons r rules)
  obtain rpt vm1 where 1: "cdsl_vm_execute env vm r ctx = (rpt, vm1)" by force
  have "same_limits vm0 vm1"
    using same_limits_trans [OF Cons.prems execute_same_report(2) [OF assms same_limits_refl, of vm r ctx]] by (simp add: 1)
  from Cons.IH [OF this] execute_same_report(1) [OF assms Cons.prems, of r ctx] show ?case
    by (simp add: 1 split: prod.split) (metis fst_conv)
qed simp

lemma run_claims_reports:
  assumes "env_blind env" and "same_limits vm0 vm"
  shows "fst (run_claims env ctx rules sched who vm) =
    map (\<lambda>i. (i, fst (cdsl_vm_execute env vm0 (rules ! i) ctx))) (claims sched (length rules) who)"
proof -
  define mine where "mine = claims sched (length rules) who"
  obtain rpts vm1 where r: "run_rules env ctx (map (nth rules) mine) vm = (rpts, vm1)" by force
  with run_rules_reports [OF assms, of ctx "map (nth rules) mine"]
  have "rpts = map (\<lambda>i. fst (cdsl_vm_execute env vm0 (rules ! i) ctx)) mine" by simp
  then show ?thesis
    by (simp add: run_claims_def Let_def mine_def [symmetric] r zip_map2 zip_same_conv_map)
qed

lemma map_of_function:
  "i \<in> set is \<Longrightarrow> map_of (map (\<lambda>i. (i, f i)) is) i = Some (f i)"
  by (induction "is") auto

lemma worker_limits: "0 < vm_max_expr_depth vm \<Longrightarrow> same_limits vm (worker_vm vm)"
  by (simp add: same_limits_def worker_vm_def cdsl_vm_init_worker_def vm_zero_def)


lemma env_blind_plain: "env_blind env_plain"
  by (simp add: env_blind_def env_plain_def blind_def)


end
