(* ===== verification/Cdsl_Report_Json.thy ===== *)
theory Cdsl_Report_Json
  imports Cdsl_Json_Text Cdsl_Ruleset
begin

section \<open>Reports as text and JSON\<close>

text \<open>
  The printed report and the JSON writer of \<open>src/vm/eval.c\<close>, the printed batch report of
  \<open>src/vm/ruleset.c\<close>, and the round trip of a report through the writer and the parser.
\<close>

subsection \<open>The output buffer\<close>

text \<open>
  \<open>cdsl_report_to_json\<close> appends to a growing buffer, \<open>off += snprintf(...)\<close> for a fixed or formatted
  piece and \<open>off += json_escape_buf(...)\<close> for an escaped string. When a formatted piece does not
  fit, \<open>snprintf\<close> truncates it and the offset runs past what was written: that outcome is \<open>None\<close>.
\<close>

record json_buf =
  jb_text :: string
  jb_cap :: nat

datatype json_piece = Raw string | Escaped string

fun jb_write :: "json_piece list \<Rightarrow> json_buf \<Rightarrow> json_buf option" where
  "jb_write [] b = Some b"
| "jb_write (Raw s # ps) b =
     (if length (jb_text b) + length s < jb_cap b then jb_write ps (b\<lparr>jb_text := jb_text b @ s\<rparr>) else None)"
| "jb_write (Escaped s # ps) b =
     jb_write ps (b\<lparr>jb_text := jb_text b @ json_escape_buf s (jb_cap b - length (jb_text b))\<rparr>)"

text \<open>The macro \<open>JSON_CHECK_CAP\<close>.\<close>

definition jb_check_cap :: "nat \<Rightarrow> json_buf \<Rightarrow> json_buf" where
  "jb_check_cap n b =
     (if jb_cap b < length (jb_text b) + n + 1 then b\<lparr>jb_cap := (length (jb_text b) + n + 1) * 2\<rparr> else b)"

definition or_empty :: "string option \<Rightarrow> string" where
  "or_empty s = (case s of None \<Rightarrow> [] | Some t \<Rightarrow> t)"

definition dec32 :: "i32 \<Rightarrow> string" where
  "dec32 i = dec_of_int (sint i)"

subsection \<open>\<open>cdsl_report_to_json\<close>\<close>

definition metric_pieces :: "nat \<Rightarrow> cdsl_metric_result \<Rightarrow> json_piece list" where
  \<open>metric_pieces i m =
     (if 0 < i then [Raw '',''] else [])
     @ [Raw ''{"metric_name":"'', Escaped (or_empty (mr_metric_name m)),
        Raw ''","description":"'', Escaped (or_empty (mr_description m)),
        Raw (''","max_weight":'' @ dec32 (mr_max_weight m) @ '',"score_obtained":'' @ dec32 (mr_score_obtained m)
             @ '',"is_critical":'' @ dec32 (mr_is_critical m) @ '',"is_passed":'' @ dec32 (mr_is_passed m))]
     @ (case mr_violation_reason m of None \<Rightarrow> []
        | Some r \<Rightarrow> [Raw '',"violation_reason":"'', Escaped r, Raw ''"''])
     @ [Raw ''}'']\<close>

fun json_metrics :: "nat \<Rightarrow> cdsl_metric_result list \<Rightarrow> json_buf \<Rightarrow> json_buf option" where
  "json_metrics i [] b = Some b"
| "json_metrics i (m # ms) b =
     (let b1 = jb_check_cap (256 + json_escape_len (or_empty (mr_metric_name m))
                 + json_escape_len (or_empty (mr_description m)) + json_escape_len (or_empty (mr_violation_reason m))) b
      in Option.bind (jb_write (metric_pieces i m) b1) (json_metrics (i + 1) ms))"

definition report_pieces :: "cdsl_rule_report \<Rightarrow> json_piece list" where
  \<open>report_pieces r =
     [Raw ''{"rule_name":"'', Escaped (or_empty (rr_rule_name r)),
      Raw ''","description":"'', Escaped (or_empty (rr_description r)),
      Raw (''","status":"'' @ cdsl_status_str_internal (rr_status r) @ ''","total_max_score":''
           @ dec32 (rr_total_max_score r) @ '',"total_obtained_score":'' @ dec32 (rr_total_obtained_score r)
           @ '',"decision_summary":"''),
      Escaped (or_empty (rr_decision_summary r)), Raw ''","metrics":['']\<close>

definition cdsl_report_to_json :: "cdsl_rule_report option \<Rightarrow> string option" where
  "cdsl_report_to_json report =
     (case report of
        None \<Rightarrow> Some ''{}''
      | Some r \<Rightarrow>
          let needed = 256 + json_escape_len (or_empty (rr_rule_name r)) + json_escape_len (or_empty (rr_description r))
                       + json_escape_len (or_empty (rr_decision_summary r));
              b = \<lparr>jb_text = [], jb_cap = (if 1024 < needed then needed * 2 else 1024)\<rparr>
          in Option.bind (jb_write (report_pieces r) b) (\<lambda>b1.
             Option.bind (json_metrics 0 (rr_metrics r) b1) (\<lambda>b2.
             map_option jb_text (jb_write [Raw '']}''] (jb_check_cap 4 b2)))))"

subsection \<open>Printing\<close>

text \<open>\<open>printf\<close> shows \<open>NULL\<close> as \<open>(null)\<close>.\<close>

definition or_null :: "string option \<Rightarrow> string" where
  "or_null s = (case s of None \<Rightarrow> ''(null)'' | Some t \<Rightarrow> t)"

definition line :: "string \<Rightarrow> string" where
  "line s = s @ [CHR 0x0A]"

definition rule_off :: string where
  "rule_off = ''========================================''"

definition cdsl_report_print :: "cdsl_rule_report option \<Rightarrow> string" where
  "cdsl_report_print report =
     (case report of
        None \<Rightarrow> line ''No report.''
      | Some r \<Rightarrow>
          line [] @ line rule_off @ line (''  AUDIT REPORT: '' @ or_null (rr_rule_name r))
          @ line (''  '' @ or_null (rr_description r)) @ line rule_off
          @ concat (map print_metric (rr_metrics r))
          @ line ''----------------------------------------''
          @ line (''  Status:   '' @ cdsl_status_str_internal (rr_status r))
          @ line (''  Score:    '' @ dec32 (rr_total_obtained_score r) @ '' / '' @ dec32 (rr_total_max_score r))
          @ line (''  Summary:  '' @ or_null (rr_decision_summary r)) @ line rule_off @ line [])"

definition cdsl_ruleset_report_print :: "ruleset_report option \<Rightarrow> string" where
  "cdsl_ruleset_report_print report =
     (case report of
        None \<Rightarrow> line ''No batch report.''
      | Some b \<Rightarrow>
          concat (map (\<lambda>r. cdsl_report_print (Some r)) (br_rule_reports b))
          @ line [] @ line rule_off @ line ''  BATCH SUMMARY'' @ line rule_off
          @ line (''  '' @ br_summary b) @ line rule_off @ line [])"

subsection \<open>The JSON value a report stands for\<close>

definition json_int :: "i32 \<Rightarrow> cdsl_json" where
  "json_int i = CDSL_JSON_NUMBER (f64_of_int (sint i))"

definition json_str :: "string option \<Rightarrow> cdsl_json" where
  "json_str s = CDSL_JSON_STRING (or_empty s)"

definition metric_json :: "cdsl_metric_result \<Rightarrow> cdsl_json" where
  "metric_json m = CDSL_JSON_OBJECT
     ([(''metric_name'', json_str (mr_metric_name m)), (''description'', json_str (mr_description m)),
       (''max_weight'', json_int (mr_max_weight m)), (''score_obtained'', json_int (mr_score_obtained m)),
       (''is_critical'', json_int (mr_is_critical m)), (''is_passed'', json_int (mr_is_passed m))]
      @ (case mr_violation_reason m of None \<Rightarrow> [] | Some r \<Rightarrow> [(''violation_reason'', CDSL_JSON_STRING r)]))"

definition report_json :: "cdsl_rule_report \<Rightarrow> cdsl_json" where
  "report_json r = CDSL_JSON_OBJECT
     [(''rule_name'', json_str (rr_rule_name r)), (''description'', json_str (rr_description r)),
      (''status'', CDSL_JSON_STRING (cdsl_status_str_internal (rr_status r))),
      (''total_max_score'', json_int (rr_total_max_score r)),
      (''total_obtained_score'', json_int (rr_total_obtained_score r)),
      (''decision_summary'', json_str (rr_decision_summary r)),
      (''metrics'', CDSL_JSON_ARRAY (map metric_json (rr_metrics r)))]"

subsection \<open>The buffer always suffices\<close>

fun piece_text :: "json_piece \<Rightarrow> string" where
  "piece_text (Raw s) = s"
| "piece_text (Escaped s) = concat (map escape_char s)"

definition pieces_text :: "json_piece list \<Rightarrow> string" where
  "pieces_text ps = concat (map piece_text ps)"

lemma jb_write_fits:
  "length (jb_text b) + length (pieces_text ps) + 7 < jb_cap b
   \<Longrightarrow> jb_write ps b = Some (b\<lparr>jb_text := jb_text b @ pieces_text ps\<rparr>)"
proof (induction ps b rule: jb_write.induct)
  case (3 s ps b)
  have "json_escape_len s + 7 < jb_cap b - length (jb_text b)"
    using 3(2) by (simp add: pieces_text_def json_escape_len)
  from json_escape_complete [OF this] 3 show ?case by (simp add: pieces_text_def add.assoc)
qed (simp_all add: pieces_text_def)

lemma dec_of_nat_length: "0 < k \<Longrightarrow> n < 10 ^ k \<Longrightarrow> length (dec_of_nat n) \<le> k"
proof (induction k arbitrary: n)
  case (Suc k)
  show ?case
  proof (cases "n < 10")
    case True
    then show ?thesis by (subst dec_of_nat.simps) simp
  next
    case False
    with Suc have "0 < k" "n div 10 < 10 ^ k" by (cases k; auto simp: less_mult_imp_div_less)+
    from Suc.IH [OF this] False show ?thesis by (subst dec_of_nat.simps) simp
  qed
qed simp

lemma dec32_length: "length (dec32 i) \<le> 11"
proof -
  have "in_i32 (sint i)" by simp
  then have "nat (sint i) < 10 ^ 10" "nat (- sint i) < 10 ^ 10" by (auto simp: in_i32_def)
  with dec_of_nat_length [of 10] show ?thesis by (fastforce simp: dec32_def dec_of_int_def)
qed

lemma json_int_text: "json_text (json_int i) = dec32 i"
  by (simp add: json_int_def dec32_def)

lemma quoted_plain: "list_all (\<lambda>c. escape_char c = [c]) s \<Longrightarrow> quoted s = CHR 0x22 # s @ [CHR 0x22]"
  by (induction s) (auto simp: quoted_def)

lemma metric_pieces_text:
  "pieces_text (metric_pieces i m) = (if 0 < i then '','' else []) @ json_text (metric_json m)"
proof -
  have keys: "quoted ''metric_name'' = CHR 0x22 # ''metric_name'' @ [CHR 0x22]"
    "quoted ''description'' = CHR 0x22 # ''description'' @ [CHR 0x22]"
    "quoted ''max_weight'' = CHR 0x22 # ''max_weight'' @ [CHR 0x22]"
    "quoted ''score_obtained'' = CHR 0x22 # ''score_obtained'' @ [CHR 0x22]"
    "quoted ''is_critical'' = CHR 0x22 # ''is_critical'' @ [CHR 0x22]"
    "quoted ''is_passed'' = CHR 0x22 # ''is_passed'' @ [CHR 0x22]"
    "quoted ''violation_reason'' = CHR 0x22 # ''violation_reason'' @ [CHR 0x22]"
    by code_simp+
  show ?thesis
    unfolding metric_pieces_def metric_json_def pieces_text_def
    by (cases "mr_violation_reason m") (simp_all add: keys json_int_text json_str_def, simp_all add: quoted_def)
qed

lemma metric_pieces_length:
  "length (pieces_text (metric_pieces i m)) \<le> 216 + json_escape_len (or_empty (mr_metric_name m))
     + json_escape_len (or_empty (mr_description m)) + json_escape_len (or_empty (mr_violation_reason m))"
  using dec32_length [of "mr_max_weight m"] dec32_length [of "mr_score_obtained m"]
    dec32_length [of "mr_is_critical m"] dec32_length [of "mr_is_passed m"]
  by (cases "mr_violation_reason m")
    (simp_all add: metric_pieces_def pieces_text_def json_escape_len or_empty_def [of None] or_empty_def [of "Some _"])

lemma report_pieces_text:
  "pieces_text (report_pieces r) @ elems_text (map metric_json (rr_metrics r)) @ '']}'' = json_text (report_json r)"
proof -
  have keys: "quoted ''rule_name'' = CHR 0x22 # ''rule_name'' @ [CHR 0x22]"
    "quoted ''description'' = CHR 0x22 # ''description'' @ [CHR 0x22]"
    "quoted ''status'' = CHR 0x22 # ''status'' @ [CHR 0x22]"
    "quoted ''total_max_score'' = CHR 0x22 # ''total_max_score'' @ [CHR 0x22]"
    "quoted ''total_obtained_score'' = CHR 0x22 # ''total_obtained_score'' @ [CHR 0x22]"
    "quoted ''decision_summary'' = CHR 0x22 # ''decision_summary'' @ [CHR 0x22]"
    "quoted ''metrics'' = CHR 0x22 # ''metrics'' @ [CHR 0x22]"
    by code_simp+
  have status: "quoted (cdsl_status_str_internal st) = CHR 0x22 # cdsl_status_str_internal st @ [CHR 0x22]" for st
    by (cases st; simp only: cdsl_status_str_internal.simps) code_simp+
  show ?thesis
    unfolding report_pieces_def report_json_def pieces_text_def
    by (simp add: keys status json_int_text json_str_def) (simp add: quoted_def)
qed

lemma report_pieces_length:
  "length (pieces_text (report_pieces r)) \<le> 200 + json_escape_len (or_empty (rr_rule_name r))
     + json_escape_len (or_empty (rr_description r)) + json_escape_len (or_empty (rr_decision_summary r))"
  using dec32_length [of "rr_total_max_score r"] dec32_length [of "rr_total_obtained_score r"]
  by (cases "rr_status r") (simp_all add: report_pieces_def pieces_text_def json_escape_len)

lemma json_metrics_text:
  "json_metrics i ms b \<noteq> None \<and> jb_text (the (json_metrics i ms b)) =
     jb_text b @ (if 0 < i \<and> ms \<noteq> [] then '','' else []) @ elems_text (map metric_json ms)"
proof (induction ms arbitrary: i b)
  case (Cons m ms)
  define n where "n = 256 + json_escape_len (or_empty (mr_metric_name m))
      + json_escape_len (or_empty (mr_description m)) + json_escape_len (or_empty (mr_violation_reason m))"
  have cap: "jb_text (jb_check_cap n b) = jb_text b" "length (jb_text b) + n < jb_cap (jb_check_cap n b)"
    by (auto simp: jb_check_cap_def)
  have "jb_write (metric_pieces i m) (jb_check_cap n b)
      = Some ((jb_check_cap n b)\<lparr>jb_text := jb_text b @ pieces_text (metric_pieces i m)\<rparr>)"
    using jb_write_fits [of "jb_check_cap n b" "metric_pieces i m"] metric_pieces_length [of i m] cap
    by (simp add: n_def)
  then show ?case
    using Cons.IH [of "i + 1" "(jb_check_cap n b)\<lparr>jb_text := jb_text b @ pieces_text (metric_pieces i m)\<rparr>"]
    by (simp add: Let_def n_def [symmetric] metric_pieces_text)
qed simp

lemma report_to_json_text: "cdsl_report_to_json (Some r) = Some (json_text (report_json r))"
proof -
  define needed where "needed = 256 + json_escape_len (or_empty (rr_rule_name r)) + json_escape_len (or_empty (rr_description r))
      + json_escape_len (or_empty (rr_decision_summary r))"
  define b where "b = \<lparr>jb_text = [], jb_cap = (if 1024 < needed then needed * 2 else 1024)\<rparr>"
  define b1 where "b1 = b\<lparr>jb_text := pieces_text (report_pieces r)\<rparr>"
  have 1: "jb_write (report_pieces r) b = Some b1"
    using jb_write_fits [of b "report_pieces r"] report_pieces_length [of r] by (simp add: b_def b1_def needed_def)
  obtain b2 where 2: "json_metrics 0 (rr_metrics r) b1 = Some b2"
      "jb_text b2 = pieces_text (report_pieces r) @ elems_text (map metric_json (rr_metrics r))"
    using json_metrics_text [of 0 "rr_metrics r" b1] by (auto simp: b1_def)
  have "jb_write [Raw '']}''] (jb_check_cap 4 b2) = Some ((jb_check_cap 4 b2)\<lparr>jb_text := jb_text b2 @ '']}''\<rparr>)"
    by (simp add: jb_check_cap_def)
  then show ?thesis
    using 1 2 report_pieces_text [of r]
    by (simp add: cdsl_report_to_json_def needed_def [symmetric] b_def [symmetric])
qed

subsection \<open>Round trip\<close>

definition metric_c_text :: "cdsl_metric_result \<Rightarrow> bool" where
  "metric_c_text m \<longleftrightarrow> c_text (or_empty (mr_metric_name m)) \<and> c_text (or_empty (mr_description m))
     \<and> c_text (or_empty (mr_violation_reason m))"

definition report_c_text :: "cdsl_rule_report \<Rightarrow> bool" where
  "report_c_text r \<longleftrightarrow> c_text (or_empty (rr_rule_name r)) \<and> c_text (or_empty (rr_description r))
     \<and> c_text (or_empty (rr_decision_summary r)) \<and> list_all metric_c_text (rr_metrics r)"

lemma printable_metric: "metric_c_text m \<Longrightarrow> 2 \<le> d \<Longrightarrow> printable d (metric_json m)"
  by (cases "mr_violation_reason m")
    (auto simp: metric_json_def json_str_def json_int_def metric_c_text_def c_text_def or_empty_def)

lemma printable_report:
  assumes "report_c_text r"
  shows "printable 256 (report_json r)"
proof -
  have keys: "c_text ''rule_name''" "c_text ''description''" "c_text ''status''" "c_text ''total_max_score''"
    "c_text ''total_obtained_score''" "c_text ''decision_summary''" "c_text ''metrics''"
    by (simp_all add: c_text_def)
  have "c_text (cdsl_status_str_internal (rr_status r))" by (cases "rr_status r") (simp_all add: c_text_def)
  moreover have "list_all (printable 254) (map metric_json (rr_metrics r))"
    using assms by (simp add: report_c_text_def list_all_iff printable_metric)
  ultimately show ?thesis
    using assms keys by (simp add: report_json_def json_str_def json_int_def report_c_text_def list.pred_map)
qed

text \<open>
  Claim C3. A report survives the trip through JSON: whatever its strings hold, the writer's buffer
  suffices, the text it writes parses, and the parsed value is the report's, field by field.
\<close>

theorem report_json_roundtrip:
  assumes "report_c_text r"
  shows "\<exists>j. cdsl_report_to_json (Some r) = Some j
    \<and> cdsl_json_parse (2 * length j + 2) (Some j) = Some (Some (report_json r))"
proof -
  have "parse_value (2 * length (json_text (report_json r)) + 2) 0 (json_text (report_json r) @ []) = Some (Some (report_json r), [])"
    by (rule parse_printed(1)) (use printable_report [OF assms] in \<open>auto simp: CDSL_JSON_MAX_DEPTH_def ends_value_def\<close>)
  then show ?thesis by (simp add: report_to_json_text cdsl_json_parse_def)
qed

lemma report_json_roundtrip_witness:
  "let r = \<lparr>rr_rule_name = Some [CHR 0x22, CHR 0x0A, CHR 0x01], rr_description = None, rr_metrics = [metric_zero],
       rr_total_max_score = 10, rr_total_obtained_score = - 3, rr_status = CDSL_STATUS_FAILED,
       rr_decision_summary = None, rr_error = None\<rparr>
   in \<exists>j. cdsl_report_to_json (Some r) = Some j
    \<and> cdsl_json_parse (2 * length j + 2) (Some j) = Some (Some (report_json r))"
  unfolding Let_def by (rule report_json_roundtrip) code_simp

end
