(* ===== verification/Cdsl_Template.thy ===== *)
theory Cdsl_Template
  imports Cdsl_Bytecode_Total
begin

section \<open>Building trees, templates and inheritance\<close>

text \<open>
  The node constructors of \<open>src/ast/ast.c\<close> the parser's actions call, the deep copy and the template
  registry of \<open>src/ast/template.c\<close>, and rules that extend a template. Whether a node lives in the
  parser's arena or on the heap is not modelled, and memory is taken to suffice.
\<close>

subsection \<open>Constructors\<close>

definition cdsl_create_expr_id :: "string \<Rightarrow> int \<Rightarrow> int \<Rightarrow> cdsl_expr" where
  "cdsl_create_expr_id ident line column = CDSL_EXPR_ID (line, column) ident"

definition cdsl_create_expr_int :: "i32 \<Rightarrow> int \<Rightarrow> int \<Rightarrow> cdsl_expr" where
  "cdsl_create_expr_int val line column = CDSL_EXPR_INT (line, column) val"

definition cdsl_create_expr_float :: "f64 \<Rightarrow> int \<Rightarrow> int \<Rightarrow> cdsl_expr" where
  "cdsl_create_expr_float val line column = CDSL_EXPR_FLOAT (line, column) val"

definition cdsl_create_expr_bool :: "i32 \<Rightarrow> int \<Rightarrow> int \<Rightarrow> cdsl_expr" where
  "cdsl_create_expr_bool val line column = CDSL_EXPR_BOOL (line, column) val"

definition cdsl_create_expr_string :: "string \<Rightarrow> int \<Rightarrow> int \<Rightarrow> cdsl_expr" where
  "cdsl_create_expr_string val line column = CDSL_EXPR_STRING (line, column) val"

definition cdsl_create_expr_date :: "i64 \<Rightarrow> int \<Rightarrow> int \<Rightarrow> cdsl_expr" where
  "cdsl_create_expr_date val line column = CDSL_EXPR_DATE (line, column) val"

definition cdsl_create_expr_long :: "i64 \<Rightarrow> int \<Rightarrow> int \<Rightarrow> cdsl_expr" where
  "cdsl_create_expr_long val line column = CDSL_EXPR_LONG (line, column) val"

definition cdsl_create_expr_array :: "cdsl_expr list \<Rightarrow> int \<Rightarrow> int \<Rightarrow> cdsl_expr" where
  "cdsl_create_expr_array elements line column = CDSL_EXPR_ARRAY (line, column) elements"

definition cdsl_create_expr_binary :: "cdsl_op \<Rightarrow> cdsl_expr \<Rightarrow> cdsl_expr \<Rightarrow> int \<Rightarrow> int \<Rightarrow> cdsl_expr" where
  "cdsl_create_expr_binary op left right line column = CDSL_EXPR_BINARY (line, column) op left right"

definition cdsl_create_expr_unary :: "cdsl_op \<Rightarrow> cdsl_expr \<Rightarrow> int \<Rightarrow> int \<Rightarrow> cdsl_expr" where
  "cdsl_create_expr_unary op e line column = CDSL_EXPR_UNARY (line, column) op e"

definition cdsl_create_expr_call :: "string \<Rightarrow> cdsl_expr list \<Rightarrow> int \<Rightarrow> int \<Rightarrow> cdsl_expr" where
  "cdsl_create_expr_call func_name args line column = CDSL_EXPR_CALL (line, column) func_name args"

definition cdsl_create_expr_error :: "int \<Rightarrow> int \<Rightarrow> cdsl_expr" where
  "cdsl_create_expr_error line column = CDSL_EXPR_ERROR (line, column)"

definition cdsl_create_action :: "string \<Rightarrow> cdsl_expr list \<Rightarrow> int \<Rightarrow> int \<Rightarrow> cdsl_action" where
  "cdsl_create_action name args line column = \<lparr>act_name = name, act_args = args, act_loc = (line, column)\<rparr>"

definition cdsl_create_case :: "cdsl_expr option \<Rightarrow> cdsl_action option \<Rightarrow> cdsl_case" where
  "cdsl_create_case cond action = \<lparr>case_condition = cond, case_action = action\<rparr>"

definition cdsl_create_metric ::
  "string \<Rightarrow> cdsl_meta \<Rightarrow> cdsl_case list \<Rightarrow> cdsl_action option \<Rightarrow> cdsl_metric" where
  "cdsl_create_metric name meta cases def_act =
     \<lparr>met_name = name, met_meta = meta, met_cases = cases, met_default = def_act\<rparr>"

definition cdsl_create_simple_rule ::
  "string \<Rightarrow> cdsl_meta \<Rightarrow> cdsl_expr option \<Rightarrow> cdsl_action option \<Rightarrow> int \<Rightarrow> int \<Rightarrow> cdsl_rule" where
  "cdsl_create_simple_rule name meta when_expr then_action line column =
     \<lparr>rule_name = name, rule_meta = meta, rule_when = when_expr, rule_then = then_action, rule_metrics = [],
      rule_line = line, rule_column = column\<rparr>"

definition cdsl_create_metric_rule ::
  "string \<Rightarrow> cdsl_meta \<Rightarrow> cdsl_metric list \<Rightarrow> int \<Rightarrow> int \<Rightarrow> cdsl_rule" where
  "cdsl_create_metric_rule name meta metrics line column =
     \<lparr>rule_name = name, rule_meta = meta, rule_when = None, rule_then = None, rule_metrics = metrics,
      rule_line = line, rule_column = column\<rparr>"

lemmas create_defs = cdsl_create_expr_id_def cdsl_create_expr_int_def cdsl_create_expr_float_def
  cdsl_create_expr_bool_def cdsl_create_expr_string_def cdsl_create_expr_date_def cdsl_create_expr_long_def
  cdsl_create_expr_array_def cdsl_create_expr_binary_def cdsl_create_expr_unary_def cdsl_create_expr_call_def
  cdsl_create_action_def cdsl_create_case_def cdsl_create_metric_def cdsl_create_metric_rule_def

subsection \<open>Deep copies\<close>

text \<open>
  The copy of an error node is \<open>NULL\<close>. A node around a \<open>NULL\<close> operand is no value of \<open>cdsl_expr\<close>, so
  the copy of a tree that holds an error node has no value here (\<open>None\<close>); the parser returns such
  trees only to callers that pass it an error list.
\<close>

fun copy_expr :: "cdsl_expr \<Rightarrow> cdsl_expr option"
  and copy_args :: "cdsl_expr list \<Rightarrow> cdsl_expr list \<Rightarrow> cdsl_expr list option"
where
  "copy_expr (CDSL_EXPR_INT l i) = Some (cdsl_create_expr_int i (fst l) (snd l))"
| "copy_expr (CDSL_EXPR_FLOAT l f) = Some (cdsl_create_expr_float f (fst l) (snd l))"
| "copy_expr (CDSL_EXPR_BOOL l b) = Some (cdsl_create_expr_bool b (fst l) (snd l))"
| "copy_expr (CDSL_EXPR_ID l x) = Some (cdsl_create_expr_id x (fst l) (snd l))"
| "copy_expr (CDSL_EXPR_STRING l s) = Some (cdsl_create_expr_string s (fst l) (snd l))"
| "copy_expr (CDSL_EXPR_DATE l d) = Some (cdsl_create_expr_date d (fst l) (snd l))"
| "copy_expr (CDSL_EXPR_LONG l i) = Some (cdsl_create_expr_long i (fst l) (snd l))"
| "copy_expr (CDSL_EXPR_ARRAY l es) =
     map_option (\<lambda>elems. cdsl_create_expr_array elems (fst l) (snd l)) (copy_args [] es)"
| "copy_expr (CDSL_EXPR_UNARY l op e) =
     map_option (\<lambda>e'. cdsl_create_expr_unary op e' (fst l) (snd l)) (copy_expr e)"
| "copy_expr (CDSL_EXPR_BINARY l op a b) =
     Option.bind (copy_expr a) (\<lambda>a'. map_option (\<lambda>b'. cdsl_create_expr_binary op a' b' (fst l) (snd l)) (copy_expr b))"
| "copy_expr (CDSL_EXPR_CALL l f es) =
     map_option (\<lambda>args. cdsl_create_expr_call f args (fst l) (snd l)) (copy_args [] es)"
| "copy_expr (CDSL_EXPR_ERROR l) = None"
| "copy_args args [] = Some args"
| "copy_args args (e # es) = Option.bind (copy_expr e) (\<lambda>e'. copy_args (cdsl_append_arg args e') es)"

definition copy_action :: "cdsl_action option \<Rightarrow> cdsl_action option option" where
  "copy_action action =
     (case action of
        None \<Rightarrow> Some None
      | Some a \<Rightarrow> map_option (\<lambda>args. Some (cdsl_create_action (act_name a) args (fst (act_loc a)) (snd (act_loc a))))
                     (copy_args [] (act_args a)))"

definition copy_condition :: "cdsl_expr option \<Rightarrow> cdsl_expr option option" where
  "copy_condition cond = (case cond of None \<Rightarrow> Some None | Some e \<Rightarrow> map_option Some (copy_expr e))"

fun copy_meta :: "cdsl_meta \<Rightarrow> cdsl_meta \<Rightarrow> cdsl_meta" where
  "copy_meta meta [] = meta"
| "copy_meta meta (mi # mis) = copy_meta (cdsl_append_meta_kv meta (Some (fst mi)) (Some (snd mi))) mis"

fun copy_cases :: "cdsl_case list \<Rightarrow> cdsl_case list \<Rightarrow> cdsl_case list option" where
  "copy_cases cases [] = Some cases"
| "copy_cases cases (c # cs) =
     Option.bind (copy_condition (case_condition c)) (\<lambda>cond.
     Option.bind (copy_action (case_action c)) (\<lambda>action.
     copy_cases (cdsl_append_case cases [cdsl_create_case cond action]) cs))"

fun copy_metric_list :: "cdsl_metric list \<Rightarrow> cdsl_metric list option" where
  "copy_metric_list [] = Some []"
| "copy_metric_list (m # ms) =
     Option.bind (copy_cases [] (met_cases m)) (\<lambda>cases.
     Option.bind (copy_action (met_default m)) (\<lambda>def_act.
     map_option (\<lambda>copies. cdsl_create_metric (met_name m) (copy_meta [] (met_meta m)) cases def_act # copies)
       (copy_metric_list ms)))"

subsection \<open>The registry\<close>

text \<open>A linked list with the newest registration first; the caller gives the rule away.\<close>

type_synonym template_registry = "(string \<times> cdsl_rule) list"

definition cdsl_template_register :: "template_registry \<Rightarrow> cdsl_rule option \<Rightarrow> template_registry" where
  "cdsl_template_register reg template_rule =
     (case template_rule of None \<Rightarrow> reg | Some r \<Rightarrow> (rule_name r, r) # reg)"

fun cdsl_template_get :: "template_registry \<Rightarrow> string \<Rightarrow> cdsl_rule option" where
  "cdsl_template_get [] name = None"
| "cdsl_template_get (e # es) name = (if fst e = name then Some (snd e) else cdsl_template_get es name)"

definition cdsl_template_clear :: "template_registry \<Rightarrow> template_registry" where
  "cdsl_template_clear reg = []"

text \<open>The metrics of the template come first; its metadata is not inherited.\<close>

definition cdsl_create_extends_rule ::
  "template_registry \<Rightarrow> string \<Rightarrow> string \<Rightarrow> cdsl_meta \<Rightarrow> cdsl_metric list \<Rightarrow> int \<Rightarrow> int \<Rightarrow> cdsl_rule option" where
  "cdsl_create_extends_rule reg name template_name meta metrics line column =
     (case cdsl_template_get reg template_name of
        None \<Rightarrow> None
      | Some tpl \<Rightarrow>
          map_option (\<lambda>copied.
             let rule = cdsl_create_metric_rule name meta copied line column
             in if metrics \<noteq> [] then rule\<lparr>rule_metrics := cdsl_append_metric (rule_metrics rule) metrics\<rparr> else rule)
            (copy_metric_list (rule_metrics tpl)))"

subsection \<open>Copies are equal\<close>

lemma copy_expr_id:
  "no_error e \<Longrightarrow> copy_expr e = Some e"
  "list_all no_error es \<Longrightarrow> copy_args acc es = Some (acc @ es)"
  by (induction e and acc es rule: copy_expr_copy_args.induct) (auto simp: create_defs)

lemma copy_args_error: "\<not> list_all no_error es \<Longrightarrow> (\<And>e. e \<in> set es \<Longrightarrow> \<not> no_error e \<Longrightarrow> copy_expr e = None)
    \<Longrightarrow> copy_args acc es = None"
  by (induction es arbitrary: acc) (auto simp: copy_expr_id split: bind_splits)

lemma copy_expr_error: "\<not> no_error e \<Longrightarrow> copy_expr e = None"
  by (induction e) (auto simp: list_all_iff intro!: copy_args_error split: bind_splits)

lemma copy_action_id: "no_error_action a \<Longrightarrow> copy_action a = Some a"
  by (cases a) (auto simp: no_error_action_def copy_action_def copy_expr_id create_defs)

lemma copy_condition_id: "(case c of None \<Rightarrow> True | Some e \<Rightarrow> no_error e) \<Longrightarrow> copy_condition c = Some c"
  by (cases c) (auto simp: copy_condition_def copy_expr_id)

lemma copy_meta_id: "copy_meta acc ms = acc @ ms"
  by (induction ms arbitrary: acc) (auto simp: cdsl_append_meta_kv_def cdsl_create_meta_item_def)

lemma copy_cases_id: "list_all no_error_case cs \<Longrightarrow> copy_cases acc cs = Some (acc @ cs)"
  by (induction cs arbitrary: acc)
    (auto simp: no_error_case_def copy_action_id copy_condition_id create_defs)

lemma copy_metrics_id:
  "list_all (\<lambda>m. list_all no_error_case (met_cases m) \<and> no_error_action (met_default m)) ms \<Longrightarrow> copy_metric_list ms = Some ms"
  by (induction ms) (auto simp: copy_cases_id copy_action_id copy_meta_id create_defs)

text \<open>
  Claim C32. A rule that extends a template is the flat rule: of the templates of that name the one
  registered last counts, the copies of its metrics come first, unchanged, and the rule's own metrics
  and metadata follow. An unknown template gives no rule.
\<close>

theorem extends_rule_flattens:
  assumes "list_all no_error_rule (map snd reg)"
  shows "cdsl_create_extends_rule reg name t meta metrics line column =
    map_option (\<lambda>tpl. cdsl_create_metric_rule name meta (rule_metrics tpl @ metrics) line column) (map_of reg t)"
proof -
  have get: "cdsl_template_get reg t = map_of reg t" by (induction reg) auto
  show ?thesis
  proof (cases "map_of reg t")
    case (Some tpl)
    then have "tpl \<in> set (map snd reg)" by (force dest: map_of_SomeD)
    with assms have "no_error_rule tpl" by (auto simp: list_all_iff)
    then have "copy_metric_list (rule_metrics tpl) = Some (rule_metrics tpl)"
      by (intro copy_metrics_id) (simp add: no_error_rule_def)
    then show ?thesis using Some get
      by (auto simp: cdsl_create_extends_rule_def cdsl_create_metric_rule_def Let_def)
  qed (simp add: cdsl_create_extends_rule_def get)
qed

lemma extends_rule_flattens_witness:
  "let m = (\<lambda>n. cdsl_create_metric n [(''weight'', ''50'')] [cdsl_create_case (Some (cdsl_create_expr_bool 1 1 1)) None] None);
       old = cdsl_create_metric_rule ''base'' [] [m ''m0''] 1 1; new = cdsl_create_metric_rule ''base'' [] [m ''m1''] 1 1;
       reg = cdsl_template_register (cdsl_template_register [] (Some old)) (Some new)
   in cdsl_create_extends_rule reg ''r'' ''base'' [] [m ''m2''] 1 1 = Some (cdsl_create_metric_rule ''r'' [] [m ''m1'', m ''m2''] 1 1)"
  unfolding Let_def
  by (subst extends_rule_flattens)
    (simp_all add: cdsl_template_register_def create_defs no_error_rule_def no_error_case_def no_error_action_def)

end
