(* ===== verification/Cdsl_Cache.thy ===== *)
theory Cdsl_Cache
  imports Cdsl_Template Cdsl_Schema
begin

section \<open>The parser's driver and the compile cache\<close>

text \<open>
  \<open>src/ast/parse.c\<close>, around the generated parser, and \<open>src/vm/cache.c\<close>: parsed, verified and compiled
  rules kept by their source text and shared by threads. A call of \<open>cdsl_compile\<close> holds the cache's
  lock twice, for the lookup and for the insertion, and parses in between without it; the threads are
  modelled as a step relation with one step per locked section.
\<close>

subsection \<open>The driver of the parser\<close>

definition CDSL_MAX_INPUT_LENGTH :: nat where
  "CDSL_MAX_INPUT_LENGTH = 65536"

text \<open>
  The generated parser is a parameter: from the text and the error list it makes its return value,
  the rule, the error count and the error list. \<open>errors\<close> is the caller's list: \<open>None\<close> no list is
  wanted, \<open>Some None\<close> one is to be made.
\<close>

type_synonym yyparse = "string \<Rightarrow> cdsl_error_list option \<Rightarrow> int \<times> cdsl_rule option \<times> nat \<times> cdsl_error_list option"

definition cdsl_parse_string ::
  "yyparse \<Rightarrow> string option \<Rightarrow> cdsl_error_list option option \<Rightarrow> cdsl_rule option \<times> cdsl_error_list option option" where
  "cdsl_parse_string yyparse dsl_code errors =
     (case dsl_code of
        None \<Rightarrow> (None, errors)
      | Some s \<Rightarrow>
          if CDSL_MAX_INPUT_LENGTH \<le> length s
          then (None, map_option (\<lambda>l.
             let buf = snprintf_buf 128 (''DSL input length ('' @ dec_of_nat (length s)
                         @ '') exceeds maximum allowed ('' @ dec_of_nat CDSL_MAX_INPUT_LENGTH @ '')'');
                 err = cdsl_error_create CDSL_ERR_SYNTAX 0 0 (Some buf) None
             in Some (cdsl_error_list_add (case l of None \<Rightarrow> cdsl_error_list_create | Some el \<Rightarrow> el) (Some err))) errors)
          else
            let error_list = (case errors of None \<Rightarrow> None
                              | Some None \<Rightarrow> Some cdsl_error_list_create | Some (Some l) \<Rightarrow> Some l)
            in case yyparse s error_list of (ret, rule, error_count, error_list') \<Rightarrow>
                 (if (ret \<noteq> 0 \<or> error_count > 0) \<and> errors = None then None else rule,
                  case errors of None \<Rightarrow> None | Some _ \<Rightarrow> Some error_list'))"

text \<open>What loading and compiling see: the parse without an error list.\<close>

definition parse_strict :: "yyparse \<Rightarrow> string \<Rightarrow> cdsl_rule option" where
  "parse_strict yyparse code = fst (cdsl_parse_string yyparse (Some code) None)"

subsection \<open>The cache\<close>

text \<open>An entry is known by its address, since callers keep pointers to it.\<close>

record cdsl_compiled_rule =
  cr_addr :: nat
  cr_rule :: cdsl_rule
  cr_dsl_hash :: string
  cr_verified :: bool
  cr_bc :: cdsl_bytecode

record cdsl_compile_cache =
  cc_map :: "cdsl_compiled_rule cdsl_hashmap"
  cc_next_addr :: nat

definition cdsl_compile_cache_create :: "int \<Rightarrow> cdsl_compile_cache" where
  "cdsl_compile_cache_create capacity =
     \<lparr>cc_map = cdsl_hashmap_create (if 0 < capacity then capacity else 64), cc_next_addr = 0\<rparr>"

text \<open>The slow path, without the lock: parse and verify.\<close>

definition compile_source ::
  "yyparse \<Rightarrow> string \<Rightarrow> cdsl_schema option \<Rightarrow> nat \<Rightarrow> string + cdsl_rule" where
  "compile_source yyparse code schema n =
     (case parse_strict yyparse code of
        None \<Rightarrow> Inl (snprintf_buf n ''Parse error'')
      | Some rule \<Rightarrow>
          (case schema of
             None \<Rightarrow> Inr rule
           | Some s \<Rightarrow>
               (case cdsl_verify_rule (Some rule) (Some s) 512 of (ok, verr) \<Rightarrow>
                  if ok then Inr rule
                  else Inl (snprintf_buf n (''Verify failed: '' @ (case verr of None \<Rightarrow> [] | Some m \<Rightarrow> m))))))"

text \<open>The write path, under the lock: the entry another thread has put in meanwhile wins.\<close>

definition cache_insert ::
  "cdsl_compile_cache \<Rightarrow> string \<Rightarrow> cdsl_rule \<Rightarrow> cdsl_compiled_rule \<times> cdsl_compile_cache" where
  "cache_insert cache code rule =
     (case cdsl_hashmap_get (cc_map cache) code of
        Some existing \<Rightarrow> (existing, cache)
      | None \<Rightarrow>
          let e = \<lparr>cr_addr = cc_next_addr cache, cr_rule = rule, cr_dsl_hash = code, cr_verified = True,
                   cr_bc = snd (cdsl_bytecode_compile rule)\<rparr>
          in (e, \<lparr>cc_map = cdsl_hashmap_put (cc_map cache) code e, cc_next_addr = cc_next_addr cache + 1\<rparr>))"

definition cdsl_compile ::
  "yyparse \<Rightarrow> cdsl_compile_cache option \<Rightarrow> string option \<Rightarrow> cdsl_schema option \<Rightarrow> nat
   \<Rightarrow> (string + cdsl_compiled_rule) \<times> cdsl_compile_cache option" where
  "cdsl_compile yyparse cache dsl_code schema n =
     (case (cache, dsl_code) of
        (Some c, Some code) \<Rightarrow>
          (case cdsl_hashmap_get (cc_map c) code of
             Some existing \<Rightarrow> (Inr existing, cache)
           | None \<Rightarrow>
               (case compile_source yyparse code schema n of
                  Inl msg \<Rightarrow> (Inl msg, cache)
                | Inr rule \<Rightarrow> (case cache_insert c code rule of (e, c') \<Rightarrow> (Inr e, Some c'))))
      | _ \<Rightarrow> (Inl (snprintf_buf n ''NULL cache or dsl_code''), cache))"

definition cdsl_compile_cache_remove :: "cdsl_compile_cache \<Rightarrow> string \<Rightarrow> bool \<times> cdsl_compile_cache" where
  "cdsl_compile_cache_remove cache code =
     (case cdsl_hashmap_remove (cc_map cache) code of (removed, m) \<Rightarrow> (removed, cache\<lparr>cc_map := m\<rparr>))"

text \<open>Outer \<open>None\<close>: the machine does not stop; inner \<open>None\<close>: no report.\<close>

definition cdsl_vm_execute_compiled ::
  "cdsl_env \<Rightarrow> cdsl_vm \<Rightarrow> cdsl_compiled_rule option \<Rightarrow> cdsl_context \<Rightarrow> (cdsl_rule_report \<times> cdsl_vm) option" where
  "cdsl_vm_execute_compiled env vm compiled ctx =
     (case compiled of
        None \<Rightarrow> None
      | Some c \<Rightarrow>
          if bc_code (cr_bc c) \<noteq> [] then cdsl_bytecode_execute_rule env vm (cr_bc c) ctx
          else Some (cdsl_vm_execute env vm (cr_rule c) ctx))"

subsection \<open>Threads\<close>

text \<open>Where a call of \<open>cdsl_compile\<close> stands between its locked sections.\<close>

datatype compile_call =
    Called string "cdsl_schema option"
  | Parsed string cdsl_rule
  | Returned string "cdsl_compiled_rule option"

record cache_system =
  sys_cache :: cdsl_compile_cache
  sys_calls :: "compile_call list"

inductive cache_step :: "yyparse \<Rightarrow> cache_system \<Rightarrow> cache_system \<Rightarrow> bool" for yyparse where
  hit: "\<lbrakk>i < length (sys_calls s); sys_calls s ! i = Called code schema;
         cdsl_hashmap_get (cc_map (sys_cache s)) code = Some e\<rbrakk>
        \<Longrightarrow> cache_step yyparse s (s\<lparr>sys_calls := (sys_calls s)[i := Returned code (Some e)]\<rparr>)"
| miss: "\<lbrakk>i < length (sys_calls s); sys_calls s ! i = Called code schema;
         cdsl_hashmap_get (cc_map (sys_cache s)) code = None; compile_source yyparse code schema n = Inr rule\<rbrakk>
        \<Longrightarrow> cache_step yyparse s (s\<lparr>sys_calls := (sys_calls s)[i := Parsed code rule]\<rparr>)"
| refuse: "\<lbrakk>i < length (sys_calls s); sys_calls s ! i = Called code schema;
         cdsl_hashmap_get (cc_map (sys_cache s)) code = None; compile_source yyparse code schema n = Inl msg\<rbrakk>
        \<Longrightarrow> cache_step yyparse s (s\<lparr>sys_calls := (sys_calls s)[i := Returned code None]\<rparr>)"
| insert: "\<lbrakk>i < length (sys_calls s); sys_calls s ! i = Parsed code rule;
         cache_insert (sys_cache s) code rule = (e, c)\<rbrakk>
        \<Longrightarrow> cache_step yyparse s \<lparr>sys_cache = c, sys_calls = (sys_calls s)[i := Returned code (Some e)]\<rparr>"

inductive_cases cache_stepE: "cache_step yyparse s t"

text \<open>Invariants of a step relation hold after any number of steps.\<close>

locale preserved =
  fixes step :: "'s \<Rightarrow> 's \<Rightarrow> bool" and inv :: "'s \<Rightarrow> bool"
  assumes inv_step: "step s t \<Longrightarrow> inv s \<Longrightarrow> inv t"
begin

lemma inv_steps: "step\<^sup>*\<^sup>* s t \<Longrightarrow> inv s \<Longrightarrow> inv t"
  by (induction rule: rtranclp_induct) (auto intro: inv_step)

end

text \<open>Entries are what the parser and the compiler make of their text, at addresses of their own.\<close>

definition cache_ok :: "yyparse \<Rightarrow> cdsl_compile_cache \<Rightarrow> bool" where
  "cache_ok yyparse c \<longleftrightarrow> hm_ok (cc_map c)
     \<and> (\<forall>code e. cdsl_hashmap_get (cc_map c) code = Some e \<longrightarrow>
          cr_dsl_hash e = code \<and> parse_strict yyparse code = Some (cr_rule e)
          \<and> cr_bc e = snd (cdsl_bytecode_compile (cr_rule e)) \<and> cr_addr e < cc_next_addr c)
     \<and> (\<forall>code1 code2 e1 e2. cdsl_hashmap_get (cc_map c) code1 = Some e1 \<longrightarrow> cdsl_hashmap_get (cc_map c) code2 = Some e2
          \<longrightarrow> cr_addr e1 = cr_addr e2 \<longrightarrow> code1 = code2)"

definition call_ok :: "yyparse \<Rightarrow> cdsl_compile_cache \<Rightarrow> compile_call \<Rightarrow> bool" where
  "call_ok yyparse c call = (case call of
       Called code schema \<Rightarrow> True
     | Parsed code rule \<Rightarrow> parse_strict yyparse code = Some rule
     | Returned code r \<Rightarrow> (case r of None \<Rightarrow> True | Some e \<Rightarrow> cdsl_hashmap_get (cc_map c) code = Some e))"

definition system_ok :: "yyparse \<Rightarrow> cache_system \<Rightarrow> bool" where
  "system_ok yyparse s \<longleftrightarrow> cache_ok yyparse (sys_cache s) \<and> list_all (call_ok yyparse (sys_cache s)) (sys_calls s)"

lemma cache_ok_create: "cache_ok yyparse (cdsl_compile_cache_create n)"
  by (simp add: cache_ok_def cdsl_compile_cache_create_def hm_ok_create)

lemma cache_insert_ok:
  assumes "cache_ok yyparse c" and "cache_insert c code rule = (e, c')" and "parse_strict yyparse code = Some rule"
  shows "cache_ok yyparse c'" and "cdsl_hashmap_get (cc_map c') code = Some e"
    and "cdsl_hashmap_get (cc_map c) x = Some f \<Longrightarrow> cdsl_hashmap_get (cc_map c') x = Some f"
proof -
  have ok: "hm_ok (cc_map c)" using assms(1) by (simp add: cache_ok_def)
  have "cache_ok yyparse c' \<and> cdsl_hashmap_get (cc_map c') code = Some e
    \<and> (\<forall>x f. cdsl_hashmap_get (cc_map c) x = Some f \<longrightarrow> cdsl_hashmap_get (cc_map c') x = Some f)"
  proof (cases "cdsl_hashmap_get (cc_map c) code")
    case None
    define e0 where "e0 = \<lparr>cr_addr = cc_next_addr c, cr_rule = rule, cr_dsl_hash = code, cr_verified = True,
                   cr_bc = snd (cdsl_bytecode_compile rule)\<rparr>"
    have c': "e = e0" "c' = \<lparr>cc_map = cdsl_hashmap_put (cc_map c) code e0, cc_next_addr = cc_next_addr c + 1\<rparr>"
      using assms(2) None by (auto simp: cache_insert_def e0_def Let_def)
    have "cache_ok yyparse c'"
      using assms(1,3) hm.invar_put [OF ok] unfolding c' cache_ok_def
      by (auto simp: hm.get_put [OF ok] e0_def less_Suc_eq split: if_splits) (metis less_irrefl)+
    then show ?thesis using None by (auto simp: c' hm.get_put [OF ok])
  qed (use assms in \<open>auto simp: cache_insert_def\<close>)
  then show "cache_ok yyparse c'" and "cdsl_hashmap_get (cc_map c') code = Some e"
    and "cdsl_hashmap_get (cc_map c) x = Some f \<Longrightarrow> cdsl_hashmap_get (cc_map c') x = Some f" by blast+
qed

lemma compile_source_parse: "compile_source yyparse code schema n = Inr rule \<Longrightarrow> parse_strict yyparse code = Some rule"
  by (auto simp: compile_source_def split: option.splits prod.splits if_splits)

lemma list_all_update: "list_all P xs \<Longrightarrow> P x \<Longrightarrow> list_all P (xs[i := x])"
  by (auto simp: list_all_iff dest!: subsetD [OF set_update_subset_insert])

lemma system_step_ok: "cache_step yyparse s t \<Longrightarrow> system_ok yyparse s \<Longrightarrow> system_ok yyparse t"
proof (induction rule: cache_step.induct)
  case (insert i s code rule e c)
  have p: "parse_strict yyparse code = Some rule"
    using insert(1,2,4) by (auto simp: system_ok_def list_all_length call_ok_def)
  from insert(4) have "cache_ok yyparse (sys_cache s)" by (simp add: system_ok_def)
  note new = cache_insert_ok [OF this insert(3) p]
  have "list_all (call_ok yyparse c) (sys_calls s)"
    using insert(4) new(3) by (auto simp: system_ok_def call_ok_def list_all_iff split: compile_call.splits option.splits)
  then show ?case using new(1,2) by (auto simp: system_ok_def call_ok_def intro!: list_all_update)
qed (auto simp: system_ok_def call_ok_def compile_source_parse intro!: list_all_update)

interpretation cache: preserved "cache_step yyparse" "system_ok yyparse" for yyparse
  by unfold_locales (rule system_step_ok)

definition call_system :: "int \<Rightarrow> (string \<times> cdsl_schema option) list \<Rightarrow> cache_system" where
  "call_system capacity requests =
     \<lparr>sys_cache = cdsl_compile_cache_create capacity, sys_calls = map (\<lambda>(code, schema). Called code schema) requests\<rparr>"

lemma call_system_ok: "system_ok yyparse (call_system capacity requests)"
  by (auto simp: system_ok_def call_system_def cache_ok_create list_all_iff call_ok_def)

lemma returned_ok:
  assumes "(cache_step yyparse)\<^sup>*\<^sup>* (call_system capacity requests) s" and "Returned code (Some e) \<in> set (sys_calls s)"
  shows "cache_ok yyparse (sys_cache s)" and "cdsl_hashmap_get (cc_map (sys_cache s)) code = Some e"
  using cache.inv_steps [OF assms(1) call_system_ok] assms(2) by (auto simp: system_ok_def list_all_iff call_ok_def)

text \<open>
  Claim C6. However the calls of several threads interleave, calls for one text return one and the
  same entry, calls for different texts different ones, and the entry is what the parser and the
  compiler make of the text.
\<close>

theorem cache_shares_entries:
  assumes "(cache_step yyparse)\<^sup>*\<^sup>* (call_system capacity requests) s"
    and "Returned code1 (Some e1) \<in> set (sys_calls s)" and "Returned code2 (Some e2) \<in> set (sys_calls s)"
  shows "(cr_addr e1 = cr_addr e2) = (code1 = code2) \<and> (e1 = e2) = (code1 = code2)
    \<and> parse_strict yyparse code1 = Some (cr_rule e1) \<and> cr_bc e1 = snd (cdsl_bytecode_compile (cr_rule e1))"
  using returned_ok [OF assms(1,2)] returned_ok(2) [OF assms(1,3)] unfolding cache_ok_def by auto

text \<open>A parser for the witnesses: every text is a rule of that name.\<close>

definition toy_parse :: yyparse where
  "toy_parse code errors = (0, Some (cdsl_create_simple_rule code [] (Some (cdsl_create_expr_bool 1 1 1)) None 1 1), 0, errors)"

text \<open>Two threads miss the same text, both parse it, and the second insertion finds the first one's entry.\<close>

lemma two_threads:
  "\<exists>s e. (cache_step toy_parse)\<^sup>*\<^sup>* (call_system 4 [(''r'', None), (''r'', None)]) s
    \<and> sys_calls s = [Returned ''r'' (Some e), Returned ''r'' (Some e)]"
proof -
  let ?rule = "cdsl_create_simple_rule ''r'' [] (Some (cdsl_create_expr_bool 1 1 1)) None 1 1"
  let ?c = "cdsl_compile_cache_create 4"
  have src: "compile_source toy_parse ''r'' None 0 = Inr ?rule" by (simp add: compile_source_def parse_strict_def cdsl_parse_string_def toy_parse_def CDSL_MAX_INPUT_LENGTH_def)
  have none: "cdsl_hashmap_get (cc_map ?c) ''r'' = None" by (simp add: cdsl_compile_cache_create_def)
  obtain e c where e: "cache_insert ?c ''r'' ?rule = (e, c)" by force
  have "parse_strict toy_parse ''r'' = Some ?rule" by (rule compile_source_parse [OF src])
  then have get: "cdsl_hashmap_get (cc_map c) ''r'' = Some e" using cache_insert_ok(2) [OF cache_ok_create e] by blast
  then have e2: "cache_insert c ''r'' ?rule = (e, c)" by (simp add: cache_insert_def)
  let ?sys = "\<lambda>c a b. \<lparr>sys_cache = c, sys_calls = [a, b]\<rparr>"
  have "cache_step toy_parse (call_system 4 [(''r'', None), (''r'', None)]) (?sys ?c (Parsed ''r'' ?rule) (Called ''r'' None))"
    using cache_step.miss [of 0 "call_system 4 [(''r'', None), (''r'', None)]" "''r''" None toy_parse 0 ?rule] none src
    by (simp add: call_system_def)
  moreover have "cache_step toy_parse (?sys ?c (Parsed ''r'' ?rule) (Called ''r'' None)) (?sys ?c (Parsed ''r'' ?rule) (Parsed ''r'' ?rule))"
    using cache_step.miss [of 1 "?sys ?c (Parsed ''r'' ?rule) (Called ''r'' None)" "''r''" None toy_parse 0 ?rule] none src
    by simp
  moreover have "cache_step toy_parse (?sys ?c (Parsed ''r'' ?rule) (Parsed ''r'' ?rule)) (?sys c (Parsed ''r'' ?rule) (Returned ''r'' (Some e)))"
    using cache_step.insert [of 1 "?sys ?c (Parsed ''r'' ?rule) (Parsed ''r'' ?rule)" "''r''" ?rule e c toy_parse] e by simp
  moreover have "cache_step toy_parse (?sys c (Parsed ''r'' ?rule) (Returned ''r'' (Some e))) (?sys c (Returned ''r'' (Some e)) (Returned ''r'' (Some e)))"
    using cache_step.insert [of 0 "?sys c (Parsed ''r'' ?rule) (Returned ''r'' (Some e))" "''r''" ?rule e c toy_parse] e2 by simp
  ultimately have "(cache_step toy_parse)\<^sup>*\<^sup>* (call_system 4 [(''r'', None), (''r'', None)]) (?sys c (Returned ''r'' (Some e)) (Returned ''r'' (Some e)))"
    by (meson converse_rtranclp_into_rtranclp rtranclp.rtrancl_refl)
  then show ?thesis by (intro exI [of _ e] exI [of _ "?sys c (Returned ''r'' (Some e)) (Returned ''r'' (Some e))"]) simp
qed

lemma cache_shares_entries_witness:
  "\<exists>(s :: cache_system) (e1 :: cdsl_compiled_rule) (e2 :: cdsl_compiled_rule). sys_calls s = [Returned ''r'' (Some e1), Returned ''r'' (Some e2)] \<and> (cr_addr e1 = cr_addr e2) = (''r'' = ''r'')"
proof -
  obtain s e where s: "(cache_step toy_parse)\<^sup>*\<^sup>* (call_system 4 [(''r'', None), (''r'', None)]) s"
    "sys_calls s = [Returned ''r'' (Some e), Returned ''r'' (Some e)]" using two_threads by blast
  have "(cr_addr e = cr_addr e) = (''r'' = ''r'')" by (rule conjunct1 [OF cache_shares_entries [OF s(1)]]) (simp_all add: s(2))
  from conjI [OF s(2) this] show ?thesis by blast
qed

text \<open>What is left to do for a call, in steps.\<close>

fun steps_left :: "compile_call \<Rightarrow> nat" where
  "steps_left (Called code schema) = 2"
| "steps_left (Parsed code rule) = 1"
| "steps_left (Returned code r) = 0"

lemma sum_list_update_less:
  "i < length xs \<Longrightarrow> f x < f (xs ! i) \<Longrightarrow> sum_list (map f (xs[i := x])) < sum_list (map f xs :: nat list)"
  by (induction xs arbitrary: i) (auto split: nat.splits simp: add_strict_mono)

lemma cache_step_decreases:
  "cache_step yyparse s t \<Longrightarrow> sum_list (map steps_left (sys_calls t)) < sum_list (map steps_left (sys_calls s))"
  by (induction rule: cache_step.induct) (auto intro!: sum_list_update_less)

lemma cache_steps_bound:
  "(cache_step yyparse ^^ k) s t \<Longrightarrow> k + sum_list (map steps_left (sys_calls t)) \<le> sum_list (map steps_left (sys_calls s))"
proof (induction k arbitrary: t)
  case (Suc k)
  then obtain u where "(cache_step yyparse ^^ k) s u" "cache_step yyparse u t" by auto
  with Suc.IH [of u] cache_step_decreases [of yyparse u t] show ?case by simp
qed simp

lemma cache_step_enabled:
  assumes "i < length (sys_calls s)" and "\<forall>code r. sys_calls s ! i \<noteq> Returned code r"
  shows "\<exists>t. cache_step yyparse s t"
proof (cases "sys_calls s ! i")
  case (Called code schema)
  show ?thesis
  proof (cases "cdsl_hashmap_get (cc_map (sys_cache s)) code")
    case None
    show ?thesis
    proof (cases "compile_source yyparse code schema 0")
      case (Inl msg)
      show ?thesis by (rule exI, rule cache_step.refuse [OF assms(1) Called None Inl])
    next
      case (Inr rule)
      show ?thesis by (rule exI, rule cache_step.miss [OF assms(1) Called None Inr])
    qed
  next
    case (Some e)
    show ?thesis by (rule exI, rule cache_step.hit [OF assms(1) Called Some])
  qed
next
  case (Parsed code rule)
  obtain e c where e: "cache_insert (sys_cache s) code rule = (e, c)" by force
  show ?thesis by (rule exI, rule cache_step.insert [OF assms(1) Parsed e])
qed (use assms(2) in blast)



text \<open>The sequential call is a run of the same steps.\<close>

lemma compile_is_run:
  assumes "cdsl_compile yyparse (Some c) (Some code) schema n = (r, Some c')"
  shows "(cache_step yyparse)\<^sup>*\<^sup>* \<lparr>sys_cache = c, sys_calls = [Called code schema]\<rparr>
    \<lparr>sys_cache = c', sys_calls = [Returned code (case r of Inl msg \<Rightarrow> None | Inr e \<Rightarrow> Some e)]\<rparr>"
proof -
  let ?sys = "\<lambda>c a. \<lparr>sys_cache = c, sys_calls = [a]\<rparr>"
  show ?thesis
  proof (cases "cdsl_hashmap_get (cc_map c) code")
    case (Some e)
    have "cache_step yyparse (?sys c (Called code schema)) (?sys c (Returned code (Some e)))"
      using cache_step.hit [of 0 "?sys c (Called code schema)" code schema e yyparse] Some by simp
    then show ?thesis using assms Some by (auto simp: cdsl_compile_def)
  next
    case None
    show ?thesis
    proof (cases "compile_source yyparse code schema n")
      case (Inl msg)
      have "cache_step yyparse (?sys c (Called code schema)) (?sys c (Returned code None))"
        using cache_step.refuse [of 0 "?sys c (Called code schema)" code schema yyparse n msg] None Inl by simp
      then show ?thesis using assms None Inl by (auto simp: cdsl_compile_def)
    next
      case (Inr rule)
      obtain e d where e: "cache_insert c code rule = (e, d)" by force
      have "cache_step yyparse (?sys c (Called code schema)) (?sys c (Parsed code rule))"
        using cache_step.miss [of 0 "?sys c (Called code schema)" code schema yyparse n rule] None Inr by simp
      moreover have "cache_step yyparse (?sys c (Parsed code rule)) (?sys d (Returned code (Some e)))"
        using cache_step.insert [of 0 "?sys c (Parsed code rule)" code rule e d yyparse] e by simp
      ultimately show ?thesis using assms None Inr e by (auto simp: cdsl_compile_def)
    qed
  qed
qed

text \<open>
  Claim C34. A cached rule can be executed: when the parser returns no rule with an error node, the
  entry a call returns, from its own compilation or another thread's, runs to the end on every
  context.
\<close>

theorem cached_rules_execute:
  assumes "(cache_step yyparse)\<^sup>*\<^sup>* (call_system capacity requests) s"
    and "Returned code (Some e) \<in> set (sys_calls s)"
    and "\<And>text r. parse_strict yyparse text = Some r \<Longrightarrow> no_error_rule r"
  shows "cdsl_vm_execute_compiled env vm (Some e) ctx \<noteq> None"
proof -
  have e: "parse_strict yyparse code = Some (cr_rule e)" "cr_bc e = snd (cdsl_bytecode_compile (cr_rule e))"
    using returned_ok [OF assms(1,2)] unfolding cache_ok_def by auto
  have ne: "no_error_rule (cr_rule e)" by (rule assms(3) [OF e(1)])
  show ?thesis
  proof (cases "bc_code (cr_bc e) = []")
    case False
    have b: "cdsl_bytecode_compile (cr_rule e) = (fst (cdsl_bytecode_compile (cr_rule e)), cr_bc e)" by (simp add: e(2))
    obtain t0 vm0 where t: "cdsl_get_time_us_internal env vm = (t0, vm0)" by force
    obtain s where "bc_run_instructions env (cdsl_vm_begin_execution vm0) (cr_bc e) ctx True = Some s"
      using compiled_run_some [OF ne b] by blast
    then show ?thesis
      using False by (simp add: cdsl_vm_execute_compiled_def cdsl_bytecode_execute_rule_def t split: prod.split)
  qed (simp add: cdsl_vm_execute_compiled_def)
qed

lemma cached_rules_execute_witness:
  "\<exists>e. cdsl_vm_execute_compiled env_plain cdsl_vm_create (Some e) (cdsl_context_create None) \<noteq> None"
proof -
  obtain s e where s: "(cache_step toy_parse)\<^sup>*\<^sup>* (call_system 4 [(''r'', None), (''r'', None)]) s"
    "sys_calls s = [Returned ''r'' (Some e), Returned ''r'' (Some e)]" using two_threads by blast
  have "cdsl_vm_execute_compiled env_plain cdsl_vm_create (Some e) (cdsl_context_create None) \<noteq> None"
    by (rule cached_rules_execute [OF s(1), of "''r''"])
      (auto simp: s(2) parse_strict_def cdsl_parse_string_def toy_parse_def no_error_rule_def no_error_action_def
        cdsl_create_simple_rule_def cdsl_create_expr_bool_def split: if_splits)
  then show ?thesis by blast
qed

text \<open>The schema counts only for the call that fills the entry; the flag \<open>verified\<close> is set without one.\<close>

lemma cache_ignores_schema:
  assumes "parse_strict yyparse code = Some r" and "\<not> fst (cdsl_verify_rule (Some r) (Some sch) 512)"
  shows "\<exists>msg. fst (cdsl_compile yyparse (Some (cdsl_compile_cache_create 64)) (Some code) (Some sch) n) = Inl msg"
    and "\<exists>e. fst (cdsl_compile yyparse (snd (cdsl_compile yyparse (Some (cdsl_compile_cache_create 64)) (Some code) None n))
            (Some code) (Some sch) n) = Inr e \<and> cr_verified e"
proof -
  let ?c = "cdsl_compile_cache_create 64"
  have none: "cdsl_hashmap_get (cc_map ?c) code = None" by (simp add: cdsl_compile_cache_create_def)
  have bad: "\<exists>msg. compile_source yyparse code (Some sch) n = Inl msg"
    using assms by (auto simp: compile_source_def split: prod.split)
  then show "\<exists>msg. fst (cdsl_compile yyparse (Some ?c) (Some code) (Some sch) n) = Inl msg"
    using none by (auto simp: cdsl_compile_def)
  have good: "compile_source yyparse code None n = Inr r" using assms(1) by (simp add: compile_source_def)
  obtain e c where e: "cache_insert ?c code r = (e, c)" by force
  have "cr_verified e" using e none by (auto simp: cache_insert_def Let_def)
  moreover have "cdsl_hashmap_get (cc_map c) code = Some e" by (rule cache_insert_ok(2) [OF cache_ok_create e assms(1)])
  ultimately show "\<exists>e. fst (cdsl_compile yyparse (snd (cdsl_compile yyparse (Some ?c) (Some code) None n))
            (Some code) (Some sch) n) = Inr e \<and> cr_verified e"
    using none good e by (auto simp: cdsl_compile_def)
qed

end
