(* ===== verification/Cdsl_Arena.thy ===== *)
theory Cdsl_Arena
  imports Cdsl_Prelude
begin

unbundle bit_operations_syntax

section \<open>The arena allocator (\<open>src/util/arena.c\<close>)\<close>

text \<open>
  An arena hands out 8-byte aligned pieces of large blocks; the syntax tree of a rule lives in one.
  Sizes are 64-bit \<open>size_t\<close> values and wrap. A pointer is a block and an offset; a block's memory is a
  function from offsets to characters. Whether \<open>malloc\<close> can serve a size is the parameter
  \<open>malloc_ok\<close>.
\<close>

subsection \<open>State\<close>

type_synonym size_t = "64 word"

record arena_block =
  ab_id :: nat
  ab_data :: "nat \<Rightarrow> char"
  ab_used :: size_t
  ab_capacity :: size_t

record cdsl_arena =
  ar_blocks :: "arena_block list"
  ar_block_size :: size_t
  ar_next_id :: nat

type_synonym arena_ptr = "nat \<times> size_t"

definition CDSL_ARENA_DEFAULT_BLOCK_SIZE :: size_t where
  "CDSL_ARENA_DEFAULT_BLOCK_SIZE = 65536"

definition cdsl_arena_create :: "size_t \<Rightarrow> cdsl_arena" where
  "cdsl_arena_create block_size =
     \<lparr>ar_blocks = [], ar_block_size = (if block_size > 0 then block_size else CDSL_ARENA_DEFAULT_BLOCK_SIZE),
      ar_next_id = 0\<rparr>"

subsection \<open>Allocation\<close>

text \<open>The new block becomes the first of the list, the only one later allocations look at.\<close>

definition arena_new_block :: "(size_t \<Rightarrow> bool) \<Rightarrow> cdsl_arena \<Rightarrow> size_t \<Rightarrow> cdsl_arena option" where
  "arena_new_block malloc_ok arena min_size =
     (let cap = (if min_size > ar_block_size arena then min_size else ar_block_size arena) in
      if malloc_ok cap
      then Some (arena\<lparr>ar_blocks := \<lparr>ab_id = ar_next_id arena, ab_data = (\<lambda>_. CHR 0x00), ab_used = 0, ab_capacity = cap\<rparr>
                         # ar_blocks arena, ar_next_id := ar_next_id arena + 1\<rparr>)
      else None)"

definition align8 :: "size_t \<Rightarrow> size_t" where
  "align8 sz = (sz + 7) AND NOT 7"

text \<open>Taking \<open>sz\<close> bytes of the first block.\<close>

definition bump :: "cdsl_arena \<Rightarrow> size_t \<Rightarrow> arena_ptr option \<times> cdsl_arena" where
  "bump arena sz =
     (case ar_blocks arena of
        [] \<Rightarrow> (None, arena)
      | b # bs \<Rightarrow> (Some (ab_id b, ab_used b), arena\<lparr>ar_blocks := b\<lparr>ab_used := ab_used b + sz\<rparr> # bs\<rparr>))"

definition cdsl_arena_alloc ::
  "(size_t \<Rightarrow> bool) \<Rightarrow> cdsl_arena \<Rightarrow> size_t \<Rightarrow> arena_ptr option \<times> cdsl_arena" where
  "cdsl_arena_alloc malloc_ok arena sz0 =
     (if sz0 = 0 then (None, arena)
      else
        let sz = align8 sz0 in
        if (case ar_blocks arena of [] \<Rightarrow> True | b # _ \<Rightarrow> ab_used b + sz > ab_capacity b)
        then (case arena_new_block malloc_ok arena sz of
                None \<Rightarrow> (None, arena)
              | Some arena1 \<Rightarrow> bump arena1 sz)
        else bump arena sz)"

text \<open>\<open>memcpy\<close> into a block; \<open>cdsl_arena_strdup\<close> does not check the pointer it copies to.\<close>

definition write_block :: "nat \<Rightarrow> nat \<Rightarrow> string \<Rightarrow> arena_block \<Rightarrow> arena_block" where
  "write_block bid off bytes b =
     (if ab_id b = bid
      then b\<lparr>ab_data := (\<lambda>k. if off \<le> k \<and> k < off + length bytes then bytes ! (k - off) else ab_data b k)\<rparr>
      else b)"

datatype strdup_result = Null | Copied arena_ptr | Null_Write

definition cdsl_arena_strdup ::
  "(size_t \<Rightarrow> bool) \<Rightarrow> cdsl_arena \<Rightarrow> string option \<Rightarrow> strdup_result \<times> cdsl_arena" where
  "cdsl_arena_strdup malloc_ok arena s =
     (case s of
        None \<Rightarrow> (Null, arena)
      | Some t \<Rightarrow>
          (case cdsl_arena_alloc malloc_ok arena (of_nat (length t + 1)) of
             (None, arena1) \<Rightarrow> (Null_Write, arena1)
           | (Some p, arena1) \<Rightarrow>
               (Copied p, arena1\<lparr>ar_blocks := map (write_block (fst p) (unat (snd p)) (t @ [CHR 0x00])) (ar_blocks arena1)\<rparr>)))"

definition cdsl_arena_free :: "cdsl_arena \<Rightarrow> cdsl_arena" where
  "cdsl_arena_free arena = arena\<lparr>ar_blocks := []\<rparr>"

subsection \<open>Alignment\<close>

lemma unat_align8:
  assumes "unat sz + 7 < 2 ^ 64"
  shows "unat (align8 sz) = 8 * ((unat sz + 7) div 8)"
proof -
  have m: "(7 :: size_t) = mask 3" by (simp add: mask_eq_exp_minus_1)
  have "unat (sz + 7) = unat sz + 7" using assms by (subst unat_add_lem [THEN iffD1]) simp_all
  moreover have "align8 sz = push_bit 3 (drop_bit 3 (sz + 7))"
    unfolding align8_def m by (rule bit_word_eqI) (auto simp: bit_simps)
  moreover have "unat (push_bit 3 (drop_bit 3 w)) = 8 * (unat w div 8)" for w :: size_t
    
  proof -
    have "unat w < 2 ^ LENGTH(64)" by (rule unsigned_less)
    then have "unat w div 8 < 2 ^ 61" by (simp add: less_mult_imp_div_less)
    then show ?thesis
      unfolding unsigned_push_bit_eq unat_drop_bit_eq by (simp add: push_bit_eq_mult drop_bit_eq_div take_bit_eq_mod)
  qed
  ultimately show ?thesis by simp
qed

lemma align8_covers:
  assumes "unat sz \<le> 2 ^ 62" and "sz \<noteq> 0"
  shows "unat sz \<le> unat (align8 sz)" and "unat (align8 sz) \<le> 2 ^ 62" and "8 dvd unat (align8 sz)"
proof -
  have a: "unat (align8 sz) = 8 * ((unat sz + 7) div 8)" by (rule unat_align8) (use assms in simp)
  show "unat sz \<le> unat (align8 sz)" unfolding a by linarith
  have "(unat sz + 7) div 8 \<le> (2 ^ 62 + 7) div 8" using assms(1) by (intro div_le_mono) simp
  then show "unat (align8 sz) \<le> 2 ^ 62" unfolding a by simp
  show "8 dvd unat (align8 sz)" unfolding a by simp
qed

subsection \<open>Allocated regions\<close>

text \<open>
  Sizes up to \<open>2 ^ 62\<close> cannot wrap. A region is the block, the offset and the size of an
  allocation; \<open>covers\<close> says the arena has it in use.
\<close>

definition moderate :: "size_t \<Rightarrow> bool" where
  "moderate sz \<longleftrightarrow> unat sz \<le> 2 ^ 62"

type_synonym region = "nat \<times> nat \<times> nat"

definition block_ok :: "arena_block \<Rightarrow> bool" where
  "block_ok b \<longleftrightarrow> unat (ab_used b) \<le> unat (ab_capacity b) \<and> moderate (ab_capacity b) \<and> 8 dvd unat (ab_used b)"

definition arena_ok :: "cdsl_arena \<Rightarrow> bool" where
  "arena_ok ar \<longleftrightarrow> list_all block_ok (ar_blocks ar) \<and> moderate (ar_block_size ar)
     \<and> list_all (\<lambda>b. ab_id b < ar_next_id ar) (ar_blocks ar) \<and> distinct (map ab_id (ar_blocks ar))"

definition covers :: "cdsl_arena \<Rightarrow> region \<Rightarrow> bool" where
  "covers ar r = (case r of (i, off, n) \<Rightarrow>
     list_ex (\<lambda>b. ab_id b = i \<and> off + n \<le> unat (ab_used b)) (ar_blocks ar))"

definition apart :: "region \<Rightarrow> region \<Rightarrow> bool" where
  "apart r r' = (case (r, r') of ((i, off, n), (i', off', n')) \<Rightarrow> i \<noteq> i' \<or> off + n \<le> off')"

lemma arena_ok_create: "moderate bs \<Longrightarrow> arena_ok (cdsl_arena_create bs)"
  by (simp add: arena_ok_def cdsl_arena_create_def moderate_def CDSL_ARENA_DEFAULT_BLOCK_SIZE_def)

lemma bump_ok:
  assumes ok: "arena_ok ar" and b: "ar_blocks ar = b # bs" and fits: "unat (ab_used b) + unat sz \<le> unat (ab_capacity b)"
    and n: "n \<le> unat sz" "8 dvd unat sz" and p: "bump ar sz = (Some p, ar')"
  shows "arena_ok ar'" and "8 dvd unat (snd p)" and "covers ar' (fst p, unat (snd p), n)"
    and "covers ar r \<Longrightarrow> covers ar' r \<and> apart r (fst p, unat (snd p), n)"
proof -
  have p': "p = (ab_id b, ab_used b)" "ar' = ar\<lparr>ar_blocks := b\<lparr>ab_used := ab_used b + sz\<rparr> # bs\<rparr>"
    using p b by (auto simp: bump_def)
  have bok: "block_ok b" using ok b by (simp add: arena_ok_def)
  have "unat (ab_used b) + unat sz < 2 ^ 64" using fits bok by (simp add: block_ok_def moderate_def)
  then have sum: "unat (ab_used b + sz) = unat (ab_used b) + unat sz" by (subst unat_add_lem [THEN iffD1]) simp_all
  show "arena_ok ar'" using ok b bok fits n(2) by (auto simp: arena_ok_def p' sum block_ok_def)
  show "8 dvd unat (snd p)" using bok by (simp add: p' block_ok_def)
  show "covers ar' (fst p, unat (snd p), n)" using n(1) by (simp add: covers_def p' sum)
  show "covers ar' r \<and> apart r (fst p, unat (snd p), n)" if c: "covers ar r"
  proof -
    obtain i off k where r: "r = (i, off, k)" by (cases r)
    have "off + k \<le> unat (ab_used b)" if "i = ab_id b"
    proof -
      from c obtain c where c: "c \<in> set (b # bs)" "ab_id c = i" "off + k \<le> unat (ab_used c)"
        using b by (auto simp: covers_def r list_ex_iff)
      have "c = b" using c(1,2) that ok b by (auto simp: arena_ok_def) (metis imageI)
      with c(3) show ?thesis by simp
    qed
    with c show ?thesis using b by (auto simp: covers_def apart_def r p' sum list_ex_iff)
  qed
qed

lemma new_block_ok:
  assumes ok: "arena_ok ar" and m: "moderate sz" and new: "arena_new_block malloc_ok ar sz = Some ar1"
  shows "arena_ok ar1" and "covers ar r \<Longrightarrow> covers ar1 r"
    and "\<exists>b bs. ar_blocks ar1 = b # bs \<and> unat (ab_used b) + unat sz \<le> unat (ab_capacity b)"
proof -
  define cap where "cap = (if sz > ar_block_size ar then sz else ar_block_size ar)"
  have cap: "moderate cap" "unat sz \<le> unat cap" using ok m by (auto simp: cap_def arena_ok_def word_le_nat_alt word_less_nat_alt)
  have ar1: "ar1 = ar\<lparr>ar_blocks := \<lparr>ab_id = ar_next_id ar, ab_data = (\<lambda>_. CHR 0x00), ab_used = 0, ab_capacity = cap\<rparr>
                         # ar_blocks ar, ar_next_id := ar_next_id ar + 1\<rparr>"
    using new by (auto simp: arena_new_block_def Let_def cap_def split: if_splits)
  show "arena_ok ar1" using ok cap
    by (auto simp: ar1 arena_ok_def block_ok_def list_all_iff)
  show "covers ar r \<Longrightarrow> covers ar1 r" by (auto simp: covers_def ar1 split: prod.splits)
  show "\<exists>b bs. ar_blocks ar1 = b # bs \<and> unat (ab_used b) + unat sz \<le> unat (ab_capacity b)" using cap by (simp add: ar1)
qed

lemma alloc_ok:
  assumes ok: "arena_ok ar" and m: "moderate sz" and p: "cdsl_arena_alloc malloc_ok ar sz = (Some p, ar')"
  shows "arena_ok ar'" and "8 dvd unat (snd p)" and "covers ar' (fst p, unat (snd p), unat sz)"
    and "covers ar r \<Longrightarrow> covers ar' r \<and> apart r (fst p, unat (snd p), unat sz)"
proof -
  have nz: "sz \<noteq> 0" using p by (auto simp: cdsl_arena_alloc_def)
  note al = align8_covers [OF m [unfolded moderate_def] nz]
  have mal: "moderate (align8 sz)" using al(2) by (simp add: moderate_def)
  let ?full = "case ar_blocks ar of [] \<Rightarrow> True | b # _ \<Rightarrow> ab_used b + align8 sz > ab_capacity b"
  obtain ar1 b bs where 1: "arena_ok ar1" "\<And>r. covers ar r \<Longrightarrow> covers ar1 r" "ar_blocks ar1 = b # bs"
      "unat (ab_used b) + unat (align8 sz) \<le> unat (ab_capacity b)" "bump ar1 (align8 sz) = (Some p, ar')"
  proof (cases ?full)
    case True
    then obtain ar1 where new: "arena_new_block malloc_ok ar (align8 sz) = Some ar1" "bump ar1 (align8 sz) = (Some p, ar')"
      using p nz by (auto simp: cdsl_arena_alloc_def Let_def split: option.splits)
    with new_block_ok [OF ok mal new(1)] that show ?thesis by blast
  next
    case False
    then obtain b bs where b: "ar_blocks ar = b # bs" "ab_used b + align8 sz \<le> ab_capacity b" "bump ar (align8 sz) = (Some p, ar')"
      using p nz by (auto simp: cdsl_arena_alloc_def Let_def split: list.splits)
    have "block_ok b" using ok b(1) by (simp add: arena_ok_def)
    then have "unat (ab_used b) + unat (align8 sz) < 2 ^ 64" using al(2) by (simp add: block_ok_def moderate_def)
    then have "unat (ab_used b + align8 sz) = unat (ab_used b) + unat (align8 sz)"
      by (subst unat_add_lem [THEN iffD1]) simp_all
    with b that [OF ok _ b(1)] show ?thesis by (simp add: word_le_nat_alt)
  qed
  note b = bump_ok [OF 1(1,3,4) al(1,3) 1(5)]
  show "arena_ok ar'" "8 dvd unat (snd p)" "covers ar' (fst p, unat (snd p), unat sz)" by (rule b)+
  show "covers ar r \<Longrightarrow> covers ar' r \<and> apart r (fst p, unat (snd p), unat sz)" using b(4) 1(2) by blast
qed

lemma alloc_fails: "arena_ok ar \<Longrightarrow> moderate sz \<Longrightarrow> cdsl_arena_alloc malloc_ok ar sz = (None, ar') \<Longrightarrow> ar' = ar"
  by (auto simp: cdsl_arena_alloc_def Let_def bump_def arena_new_block_def split: if_splits list.splits option.splits)

text \<open>A sequence of allocations and the regions of those that succeed.\<close>

fun alloc_all :: "(size_t \<Rightarrow> bool) \<Rightarrow> size_t list \<Rightarrow> cdsl_arena \<Rightarrow> region list \<times> cdsl_arena" where
  "alloc_all malloc_ok [] ar = ([], ar)"
| "alloc_all malloc_ok (sz # szs) ar =
     (case cdsl_arena_alloc malloc_ok ar sz of
        (None, ar1) \<Rightarrow> alloc_all malloc_ok szs ar1
      | (Some p, ar1) \<Rightarrow> (case alloc_all malloc_ok szs ar1 of (rs, ar2) \<Rightarrow> ((fst p, unat (snd p), unat sz) # rs, ar2)))"

definition in_block :: "cdsl_arena \<Rightarrow> region \<Rightarrow> bool" where
  "in_block ar r = (case r of (i, off, n) \<Rightarrow>
     8 dvd off \<and> list_ex (\<lambda>b. ab_id b = i \<and> off + n \<le> unat (ab_capacity b)) (ar_blocks ar))"

lemma covers_in_block: "arena_ok ar \<Longrightarrow> covers ar (i, off, n) \<Longrightarrow> 8 dvd off \<Longrightarrow> in_block ar (i, off, n)"
  by (fastforce simp: covers_def in_block_def list_ex_iff arena_ok_def list_all_iff block_ok_def)

lemma alloc_all_ok:
  "arena_ok ar \<Longrightarrow> list_all moderate szs \<Longrightarrow> alloc_all malloc_ok szs ar = (rs, ar') \<Longrightarrow>
     arena_ok ar' \<and> sorted_wrt apart rs \<and> list_all (in_block ar') rs
     \<and> (\<forall>r. covers ar r \<longrightarrow> covers ar' r \<and> list_all (apart r) rs)"
proof (induction szs arbitrary: ar rs)
  case (Cons sz szs)
  obtain p ar1 where p: "cdsl_arena_alloc malloc_ok ar sz = (p, ar1)" by force
  show ?case
  proof (cases p)
    case None
    with alloc_fails [OF Cons.prems(1)] Cons.prems(2) p have "ar1 = ar" by auto
    with Cons.IH [OF Cons.prems(1)] Cons.prems None p show ?thesis by simp
  next
    case (Some q)
    obtain rs1 where rs: "alloc_all malloc_ok szs ar1 = (rs1, ar')" "rs = (fst q, unat (snd q), unat sz) # rs1"
      using Cons.prems(3) p Some by (auto split: prod.splits)
    have m: "moderate sz" using Cons.prems(2) by simp
    note a = alloc_ok [OF Cons.prems(1) m, of malloc_ok q ar1, unfolded p Some, OF refl]
    have IH: "arena_ok ar'" "sorted_wrt apart rs1" "list_all (in_block ar') rs1"
      "\<And>r. covers ar1 r \<Longrightarrow> covers ar' r \<and> list_all (apart r) rs1"
      using Cons.IH [OF a(1) _ rs(1)] Cons.prems(2) by auto
    have "in_block ar' (fst q, unat (snd q), unat sz)"
      using IH(4) [OF a(3)] a(2) by (intro covers_in_block [OF IH(1)]) auto
    moreover have "list_all (apart (fst q, unat (snd q), unat sz)) rs1" using IH(4) [OF a(3)] by blast
    moreover have "covers ar' r \<and> apart r (fst q, unat (snd q), unat sz) \<and> list_all (apart r) rs1" if "covers ar r" for r
      using a(4) [OF that] IH(4) [of r] by blast
    ultimately show ?thesis using IH(1-3) by (simp add: rs(2) list_all_iff)
  qed
qed simp

text \<open>
  Claim C8. An arena is a sound allocator: the pieces of any sequence of allocations up to \<open>2 ^ 62\<close> bytes
  are 8-byte aligned, lie inside their blocks and never overlap, whatever \<open>malloc\<close> refuses.
\<close>

theorem arena_pieces_disjoint:
  assumes "moderate block_size" and "list_all moderate szs"
  shows "case alloc_all malloc_ok szs (cdsl_arena_create block_size) of (rs, ar) \<Rightarrow>
    sorted_wrt apart rs \<and> list_all (in_block ar) rs"
  using alloc_all_ok [OF arena_ok_create [OF assms(1)] assms(2)] by (auto split: prod.split)

lemma arena_pieces_disjoint_witness:
  "case alloc_all (\<lambda>_. True) [5, 16, 100] (cdsl_arena_create 64) of (rs, ar) \<Rightarrow>
    sorted_wrt apart rs \<and> list_all (in_block ar) rs"
  by (rule arena_pieces_disjoint) (simp_all add: moderate_def)

text \<open>
  Without the bound the sizes wrap: a request for the largest \<open>size_t\<close> is rounded up to no
  bytes at all, succeeds, and shares its address with the next allocation.
\<close>

lemma arena_size_wraps:
  "map fst (map (\<lambda>(i, off, n). (off, n)) (fst (alloc_all (\<lambda>_. True) [8, - 1, 8] (cdsl_arena_create 64)))) = [0, 8, 8]"
  by (simp add: cdsl_arena_alloc_def cdsl_arena_create_def arena_new_block_def bump_def align8_def Let_def)

subsection \<open>Strings\<close>

text \<open>The bytes at a pointer are a string with its terminator.\<close>

definition holds_string :: "cdsl_arena \<Rightarrow> arena_ptr \<times> string \<Rightarrow> bool" where
  "holds_string ar q = (case q of ((i, off), s) \<Rightarrow>
     list_ex (\<lambda>b. ab_id b = i \<and> map (ab_data b) [unat off..<unat off + (length s + 1)] = s @ [CHR 0x00]) (ar_blocks ar))"

fun strdup_all :: "(size_t \<Rightarrow> bool) \<Rightarrow> string list \<Rightarrow> cdsl_arena \<Rightarrow> (arena_ptr \<times> string) list \<times> cdsl_arena" where
  "strdup_all malloc_ok [] ar = ([], ar)"
| "strdup_all malloc_ok (s # ss) ar =
     (case cdsl_arena_strdup malloc_ok ar (Some s) of
        (Copied p, ar1) \<Rightarrow> (case strdup_all malloc_ok ss ar1 of (qs, ar2) \<Rightarrow> ((p, s) # qs, ar2))
      | (_, ar1) \<Rightarrow> strdup_all malloc_ok ss ar1)"

text \<open>A string in a region in use.\<close>

definition stored :: "cdsl_arena \<Rightarrow> arena_ptr \<times> string \<Rightarrow> bool" where
  "stored ar q \<longleftrightarrow> holds_string ar q \<and> covers ar (fst (fst q), unat (snd (fst q)), length (snd q) + 1)"

lemma write_block_fields [simp]:
  "ab_id (write_block i off bytes b) = ab_id b" "ab_used (write_block i off bytes b) = ab_used b"
  "ab_capacity (write_block i off bytes b) = ab_capacity b"
  by (simp_all add: write_block_def)

lemma write_blocks_ok:
  "arena_ok (ar\<lparr>ar_blocks := map (write_block i off bytes) (ar_blocks ar)\<rparr>) = arena_ok ar"
  "covers (ar\<lparr>ar_blocks := map (write_block i off bytes) (ar_blocks ar)\<rparr>) r = covers ar r"
  by (auto simp: arena_ok_def covers_def block_ok_def list_all_iff list_ex_iff comp_def)

lemma data_bump:
  "bump ar sz = (Some p, ar') \<Longrightarrow> holds_string ar q \<Longrightarrow> holds_string ar' q"
  by (auto simp: bump_def holds_string_def split: list.splits)

lemma data_alloc:
  "cdsl_arena_alloc malloc_ok ar sz = (Some p, ar') \<Longrightarrow> holds_string ar q \<Longrightarrow> holds_string ar' q"
proof -
  assume a: "cdsl_arena_alloc malloc_ok ar sz = (Some p, ar')" "holds_string ar q"
  have new: "holds_string ar1 q" if "arena_new_block malloc_ok ar n = Some ar1" for ar1 n
    using that a(2) by (auto simp: arena_new_block_def Let_def holds_string_def split: if_splits)
  show ?thesis
    using a by (auto simp: cdsl_arena_alloc_def Let_def dest: data_bump new split: if_splits option.splits)
qed

lemma unat_string_size: "length s < 2 ^ 62 \<Longrightarrow> unat (of_nat (length s + 1) :: size_t) = length s + 1"
  unfolding unat_of_nat by simp

lemma map_upt_offset: "(\<And>k. k < length xs \<Longrightarrow> f (m + k) = xs ! k) \<Longrightarrow> map f [m..<m + length xs] = xs"
  by (rule nth_equalityI) simp_all

lemma strdup_ok:
  assumes ok: "arena_ok ar" and m: "length s < 2 ^ 62" and p: "cdsl_arena_strdup malloc_ok ar (Some s) = (Copied p, ar')"
  shows "arena_ok ar'" and "stored ar' (p, s)" and "stored ar q \<Longrightarrow> stored ar' q"
proof -
  define sz :: size_t where "sz = of_nat (length s + 1)"
  have sz: "unat sz = length s + 1" unfolding sz_def by (rule unat_string_size [OF m])
  obtain ar1 where a: "cdsl_arena_alloc malloc_ok ar sz = (Some p, ar1)"
    and ar': "ar' = ar1\<lparr>ar_blocks := map (write_block (fst p) (unat (snd p)) (s @ [CHR 0x00])) (ar_blocks ar1)\<rparr>"
    using p by (auto simp: cdsl_arena_strdup_def sz_def split: prod.splits option.splits)
  have "moderate sz" using m by (simp add: moderate_def sz)
  note al = alloc_ok [OF ok this a, unfolded sz]
  show "arena_ok ar'" using al(1) unfolding ar' write_blocks_ok .
  have cov: "covers ar' r = covers ar1 r" for r unfolding ar' write_blocks_ok ..
  obtain b where b: "b \<in> set (ar_blocks ar1)" "ab_id b = fst p" using al(3) by (auto simp: covers_def list_ex_iff)
  let ?b = "write_block (fst p) (unat (snd p)) (s @ [CHR 0x00]) b"
  have "map (ab_data ?b) [unat (snd p)..<unat (snd p) + length (s @ [CHR 0x00])] = s @ [CHR 0x00]"
    by (rule map_upt_offset) (simp add: write_block_def b(2))
  moreover have "?b \<in> set (ar_blocks ar')" using b(1) by (simp add: ar')
  moreover have "ab_id ?b = fst p" using b(2) by simp
  ultimately have "holds_string ar' (p, s)"
    unfolding holds_string_def list_ex_iff by (cases p) (auto simp del: upt_Suc intro!: bexI [of _ ?b])
  with al(3) show "stored ar' (p, s)" by (simp add: stored_def cov)
  show "stored ar' q" if q: "stored ar q"
  proof -
    obtain i off t where q': "q = ((i, off), t)" by (metis surj_pair)
    have h: "holds_string ar1 q" using data_alloc [OF a] q by (simp add: stored_def)
    have c: "covers ar1 (i, unat off, length t + 1)" "apart (i, unat off, length t + 1) (fst p, unat (snd p), length s + 1)"
      using al(4) q by (auto simp: stored_def q')
    from h obtain b where b: "b \<in> set (ar_blocks ar1)" "ab_id b = i" "map (ab_data b) [unat off..<unat off + (length t + 1)] = t @ [CHR 0x00]"
      by (auto simp: holds_string_def q' list_ex_iff)
    have "map (ab_data (write_block (fst p) (unat (snd p)) (s @ [CHR 0x00]) b)) [unat off..<unat off + (length t + 1)]
        = map (ab_data b) [unat off..<unat off + (length t + 1)]"
      using c(2) b(2) by (intro map_cong) (auto simp: write_block_def apart_def)
    then have "holds_string ar' q"
      using b unfolding holds_string_def q' ar' list_ex_iff by (auto simp del: upt_Suc add_Suc_right map_eq_conv intro!: bexI [of _ b])
    with c(1) show ?thesis by (simp add: stored_def cov q')
  qed
qed

lemma strdup_fails:
  assumes "arena_ok ar" and "length s < 2 ^ 62" and "cdsl_arena_strdup malloc_ok ar (Some s) = (r, ar')" and "\<nexists>p. r = Copied p"
  shows "ar' = ar"
proof -
  have "moderate (of_nat (length s + 1))" using assms(2) unfolding moderate_def unat_string_size [OF assms(2)] by simp
  from alloc_fails [OF assms(1) this] show ?thesis
    using assms(3,4) by (auto simp: cdsl_arena_strdup_def split: prod.splits option.splits)
qed

lemma strdup_all_ok:
  "arena_ok ar \<Longrightarrow> list_all (\<lambda>s. length s < 2 ^ 62) ss \<Longrightarrow> strdup_all malloc_ok ss ar = (qs, ar') \<Longrightarrow>
     list_all (stored ar') qs \<and> (\<forall>q. stored ar q \<longrightarrow> stored ar' q)"
proof (induction ss arbitrary: ar qs)
  case (Cons s ss)
  obtain r ar1 where r: "cdsl_arena_strdup malloc_ok ar (Some s) = (r, ar1)" by force
  have m: "length s < 2 ^ 62" using Cons.prems(2) by simp
  show ?case
  proof (cases "\<exists>p. r = Copied p")
    case True
    then obtain p where p: "r = Copied p" by blast
    obtain qs1 where qs: "strdup_all malloc_ok ss ar1 = (qs1, ar')" "qs = (p, s) # qs1"
      using Cons.prems(3) r p by (auto split: prod.splits)
    note s = strdup_ok [OF Cons.prems(1) m r [unfolded p]]
    have "list_all (stored ar') qs1 \<and> (\<forall>q. stored ar1 q \<longrightarrow> stored ar' q)"
      using Cons.IH [OF s(1) _ qs(1)] Cons.prems(2) by simp
    with s(2,3) show ?thesis unfolding qs(2) list.pred_inject by blast
  next
    case False
    then have "ar1 = ar" by (rule strdup_fails [OF Cons.prems(1) m r])
    moreover have "strdup_all malloc_ok ss ar1 = (qs, ar')" using Cons.prems(3) r False by (cases r) auto
    ultimately show ?thesis using Cons.IH [OF Cons.prems(1)] Cons.prems(2) by simp
  qed
qed simp

text \<open>
  Claim C22. Strings duplicated into an arena stay intact: after any sequence of duplications every
  pointer handed out still points to its string and terminator.
\<close>

theorem arena_strings_intact:
  assumes "moderate block_size" and "list_all (\<lambda>s. length s < 2 ^ 62) ss"
  shows "case strdup_all malloc_ok ss (cdsl_arena_create block_size) of (qs, ar) \<Rightarrow> list_all (holds_string ar) qs"
  using strdup_all_ok [OF arena_ok_create [OF assms(1)] assms(2)]
  by (auto simp: stored_def list_all_iff split: prod.split)

lemma arena_strings_intact_witness:
  "case strdup_all (\<lambda>_. True) [''RULE'', ''audit_of_expenses'', []] (cdsl_arena_create 16) of (qs, ar) \<Rightarrow> list_all (holds_string ar) qs"
  by (rule arena_strings_intact) (simp_all add: moderate_def)

end
