(* ===== verification/Cdsl_Context_Json.thy ===== *)
theory Cdsl_Context_Json
  imports Cdsl_Json Cdsl_Context
begin

section \<open>Loading JSON into a context (\<open>cdsl_context_load_json\<close> in \<open>src/vm/context.c\<close>)\<close>

text \<open>
  A JSON object is flattened into variables named by the keys on the way to a value, joined by
  dots. Numbers become INT where the conversion to \<open>int\<close> and back keeps them, FLOAT otherwise; the
  result of a conversion that is undefined in C is the parameter \<open>ub\<close>. Array elements that are no
  number, boolean or string keep the zeroed value of \<open>calloc\<close>, which is the INT 0.
\<close>

definition json_number :: "(f64 \<Rightarrow> i32) \<Rightarrow> f64 \<Rightarrow> cdsl_value" where
  "json_number ub v =
     (if \<not> f64_eq v (f64_of_int (sint (f64_to_i32 ub v))) then VFloat v else VInt (f64_to_i32 ub v))"

fun json_element :: "(f64 \<Rightarrow> i32) \<Rightarrow> cdsl_json \<Rightarrow> cdsl_value" where
  "json_element ub (CDSL_JSON_NUMBER v) = json_number ub v"
| "json_element ub (CDSL_JSON_BOOL b) = VBool b"
| "json_element ub (CDSL_JSON_STRING s) = VString (Some s)"
| "json_element ub _ = VInt 0"

definition dotted_key :: "string \<Rightarrow> string \<Rightarrow> string" where
  "dotted_key prefix key = (if prefix \<noteq> [] then prefix @ ''.'' @ key else key)"

text \<open>Arrays are stored as the setters store scalars, except that the entry takes the new array over.\<close>

definition context_set_array :: "cdsl_context \<Rightarrow> string \<Rightarrow> cdsl_value list \<Rightarrow> cdsl_context" where
  "context_set_array ctx key items =
     (case cdsl_context_get_entry_internal ctx key of
        Some e \<Rightarrow>
          if \<not> context_var_is_readonly ctx key
          then ctx\<lparr>ctx_entries := store (ctx_entries ctx) (ce_addr e) (VArray (Some items))\<rparr> else ctx
      | None \<Rightarrow>
          ctx\<lparr>ctx_entries := \<lparr>ce_addr = ctx_next_addr ctx, ce_name = key, ce_value = VArray (Some items)\<rparr>
                # ctx_entries ctx,
              ctx_map := cdsl_hashmap_put (ctx_map ctx) key (ctx_next_addr ctx),
              ctx_next_addr := ctx_next_addr ctx + 1\<rparr>)"

text \<open>A child that is no object.\<close>

fun load_leaf :: "(f64 \<Rightarrow> i32) \<Rightarrow> cdsl_context \<Rightarrow> string \<Rightarrow> cdsl_json \<Rightarrow> cdsl_context" where
  "load_leaf ub ctx key (CDSL_JSON_NUMBER v) =
     (if \<not> f64_eq v (f64_of_int (sint (f64_to_i32 ub v))) then cdsl_context_set_float ctx key v
      else cdsl_context_set_int ctx key (f64_to_i32 ub v))"
| "load_leaf ub ctx key (CDSL_JSON_BOOL b) = cdsl_context_set_bool ctx key b"
| "load_leaf ub ctx key (CDSL_JSON_STRING s) = cdsl_context_set_string ctx key (Some s)"
| "load_leaf ub ctx key (CDSL_JSON_ARRAY elems) = context_set_array ctx key (map (json_element ub) elems)"
| "load_leaf ub ctx key _ = ctx"

fun is_object :: "cdsl_json \<Rightarrow> bool" where
  "is_object (CDSL_JSON_OBJECT _) = True"
| "is_object _ = False"

function (sequential) load_json_recursive ::
    "(f64 \<Rightarrow> i32) \<Rightarrow> cdsl_context \<Rightarrow> cdsl_json \<Rightarrow> string \<Rightarrow> cdsl_context"
  and load_children ::
    "(f64 \<Rightarrow> i32) \<Rightarrow> cdsl_context \<Rightarrow> (string \<times> cdsl_json) list \<Rightarrow> string \<Rightarrow> cdsl_context"
where
  "load_json_recursive ub ctx (CDSL_JSON_OBJECT items) prefix = load_children ub ctx items prefix"
| "load_json_recursive ub ctx obj prefix = ctx"
| "load_children ub ctx [] prefix = ctx"
| "load_children ub ctx ((k, child) # items) prefix =
     load_children ub
       (if is_object child then load_json_recursive ub ctx child (dotted_key prefix k)
        else load_leaf ub ctx (dotted_key prefix k) child) items prefix"
  by pat_completeness auto

termination
  by (relation "measure (\<lambda>x. case x of Inl (ub, c, j, p) \<Rightarrow> 2 * size j
        | Inr (ub, c, items, p) \<Rightarrow> 2 * size_list (size_prod (\<lambda>_. 0) size) items + 1)") auto

definition cdsl_context_load_json ::
  "(f64 \<Rightarrow> i32) \<Rightarrow> nat \<Rightarrow> cdsl_context \<Rightarrow> string option \<Rightarrow> (bool \<times> cdsl_context) option" where
  "cdsl_context_load_json ub fuel ctx json_str =
     (case cdsl_json_parse fuel json_str of
        None \<Rightarrow> None
      | Some None \<Rightarrow> Some (False, ctx)
      | Some (Some root) \<Rightarrow> Some (True, load_json_recursive ub ctx root []))"

subsection \<open>Documents as maps from paths to values\<close>

text \<open>The value a leaf of the document is bound to: no objects and no nulls.\<close>

fun leaf_value :: "(f64 \<Rightarrow> i32) \<Rightarrow> cdsl_json \<Rightarrow> cdsl_value option" where
  "leaf_value ub (CDSL_JSON_NUMBER v) = Some (json_number ub v)"
| "leaf_value ub (CDSL_JSON_BOOL b) = Some (VBool b)"
| "leaf_value ub (CDSL_JSON_STRING s) = Some (VString (Some s))"
| "leaf_value ub (CDSL_JSON_ARRAY elems) = Some (VArray (Some (map (json_element ub) elems)))"
| "leaf_value ub _ = None"

text \<open>The value the accessors of the JSON module find along a path of keys, and the variable it names.\<close>

definition json_at :: "cdsl_json \<Rightarrow> string list \<Rightarrow> cdsl_json option" where
  "json_at root path = foldl (\<lambda>j k. cdsl_json_get_object j (Some k)) (Some root) path"

definition dotted :: "string list \<Rightarrow> string" where
  "dotted path = foldl dotted_key [] path"

text \<open>Keys of an object are distinct, not empty and without dots, at every level.\<close>

fun tidy :: "cdsl_json \<Rightarrow> bool" where
  "tidy (CDSL_JSON_OBJECT items) \<longleftrightarrow> distinct (map fst items)
     \<and> list_all (\<lambda>(k, j). k \<noteq> [] \<and> CHR ''.'' \<notin> set k \<and> tidy j) items"
| "tidy _ \<longleftrightarrow> True"

lemma set_array_bind [simp]: "context_set_array ctx key items = context_bind ctx key (VArray (Some items))"
  by (simp add: context_set_array_def context_bind_def split: option.splits)

lemma load_leaf_bind:
  "load_leaf ub ctx key j = (case leaf_value ub j of None \<Rightarrow> ctx | Some v \<Rightarrow> context_bind ctx key v)"
  by (cases j) (simp_all add: ctx_setter_defs json_number_def)

text \<open>The bindings of a document in the order they are made.\<close>

lemma size_item: "(k, j) \<in> set items \<Longrightarrow> size j < Suc (size_list (size_prod (\<lambda>_. 0) size) items)"
  by (induction items) auto

fun bindings :: "(f64 \<Rightarrow> i32) \<Rightarrow> cdsl_json \<Rightarrow> (string list \<times> cdsl_value) list" where
  "bindings ub (CDSL_JSON_OBJECT items) =
     concat (map (\<lambda>(k, j). map (\<lambda>(p, v). (k # p, v)) (bindings ub j)) items)"
| "bindings ub j = (case leaf_value ub j of None \<Rightarrow> [] | Some v \<Rightarrow> [([], v)])"

lemma bindings_leaf:
  "\<not> is_object j \<Longrightarrow> bindings ub j = (case leaf_value ub j of None \<Rightarrow> [] | Some v \<Rightarrow> [([], v)])"
  by (cases j) simp_all

abbreviation bind_at :: "string \<Rightarrow> string list \<times> cdsl_value \<Rightarrow> cdsl_context \<Rightarrow> cdsl_context" where
  "bind_at prefix b c \<equiv> context_bind c (foldl dotted_key prefix (fst b)) (snd b)"

lemma load_bindings:
  "is_object j \<Longrightarrow> load_json_recursive ub ctx j prefix = fold (bind_at prefix) (bindings ub j) ctx"
  "load_children ub ctx items prefix = fold (bind_at prefix) (bindings ub (CDSL_JSON_OBJECT items)) ctx"
proof (induction ub ctx j prefix and ub ctx items prefix
    rule: load_json_recursive_load_children.induct)
  case (4 ub ctx prefix k child items)
  then show ?case
    by (simp add: load_leaf_bind bindings_leaf fold_map comp_def case_prod_beta split: option.splits)
qed simp_all

lemma distinct_paths:
  "\<lbrakk>distinct (map fst items); list_all (\<lambda>(k, j). distinct (f j)) items\<rbrakk>
     \<Longrightarrow> distinct (concat (map (\<lambda>(k, j). map ((#) k) (f j)) items))"
proof (induction items)
  case (Cons it items)
  obtain k j where it: "it = (k, j)" by (cases it)
  have "distinct (map ((#) k) (f j))" using Cons.prems by (simp add: it distinct_map)
  moreover have "(k # p) \<notin> set (concat (map (\<lambda>(k, j). map ((#) k) (f j)) items))" for p
    using Cons.prems(1) by (auto simp: it image_iff)
  ultimately show ?case using Cons by (force simp: it)
qed simp

lemma bindings_distinct: "tidy j \<Longrightarrow> distinct (map fst (bindings ub j))"
proof (induction ub j rule: bindings.induct)
  case (1 ub items)
  have "map fst (bindings ub (CDSL_JSON_OBJECT items))
      = concat (map (\<lambda>(k, j). map ((#) k) (map fst (bindings ub j))) items)"
    by (simp add: map_concat comp_def split_def)
  moreover have "list_all (\<lambda>(k, j). distinct (map fst (bindings ub j))) items"
    using 1 by (fastforce simp: list_all_iff)
  ultimately show ?case
    using distinct_paths [of items "\<lambda>j. map fst (bindings ub j)"] 1 by simp
qed (simp_all split: option.splits)

lemma find_item_distinct:
  "distinct (map fst items) \<Longrightarrow> find_item items k = Some j \<longleftrightarrow> (k, j) \<in> set items"
  by (induction items) (auto simp: image_iff)

lemma json_at_Cons:
  "json_at j (k # p) = (case cdsl_json_get_object (Some j) (Some k) of None \<Rightarrow> None | Some j' \<Rightarrow> json_at j' p)"
proof -
  have "foldl (\<lambda>j k. cdsl_json_get_object j (Some k)) None p = None" by (induction p) simp_all
  then show ?thesis by (simp add: json_at_def split: option.splits)
qed

lemma json_at_Nil [simp]: "json_at j [] = Some j"
  by (simp add: json_at_def)

lemma get_object_leaf: "\<not> is_object j \<Longrightarrow> cdsl_json_get_object (Some j) (Some k) = None"
  by (cases j) simp_all

lemma bindings_at_leaf:
  assumes "\<not> is_object j"
  shows "(p, v) \<in> set (bindings ub j) \<longleftrightarrow> (\<exists>l. json_at j p = Some l \<and> leaf_value ub l = Some v)"
  unfolding bindings_leaf [OF assms]
  by (cases p) (auto simp: json_at_Cons get_object_leaf [OF assms] split: option.splits)

lemma bindings_at:
  "tidy j \<Longrightarrow> (p, v) \<in> set (bindings ub j) \<longleftrightarrow> (\<exists>l. json_at j p = Some l \<and> leaf_value ub l = Some v)"
proof (induction ub j arbitrary: p rule: bindings.induct)
  case (1 ub items)
  show ?case
  proof (cases p)
    case (Cons k q)
    have d: "distinct (map fst items)" using 1 by simp
    have IH: "(k, j) \<in> set items \<Longrightarrow> (q, v) \<in> set (bindings ub j)
        \<longleftrightarrow> (\<exists>l. json_at j q = Some l \<and> leaf_value ub l = Some v)" for j
      using 1 by (fastforce simp: list_all_iff)
    have "(p, v) \<in> set (bindings ub (CDSL_JSON_OBJECT items))
        \<longleftrightarrow> (\<exists>j. (k, j) \<in> set items \<and> (q, v) \<in> set (bindings ub j))"
      by (force simp: Cons)
    also have "\<dots> \<longleftrightarrow> (\<exists>j. find_item items k = Some j
        \<and> (\<exists>l. json_at j q = Some l \<and> leaf_value ub l = Some v))"
      using IH by (auto simp: find_item_distinct [OF d])
    finally show ?thesis by (auto simp: Cons json_at_Cons split: option.splits)
  qed auto
qed (rule bindings_at_leaf, simp)+

text \<open>Dotted names of tidy paths are never ambiguous.\<close>

definition path_ok :: "string list \<Rightarrow> bool" where
  "path_ok p \<longleftrightarrow> list_all (\<lambda>k. k \<noteq> [] \<and> CHR ''.'' \<notin> set k) p"

lemma dotted_suffix: "pre \<noteq> [] \<Longrightarrow> foldl dotted_key pre p = pre @ concat (map ((#) CHR ''.'') p)"
  by (induction p arbitrary: pre) (simp_all add: dotted_key_def)

lemma dotted_Cons: "k \<noteq> [] \<Longrightarrow> dotted (k # p) = k @ concat (map ((#) CHR ''.'') p)"
  using dotted_suffix [of k p] by (simp add: dotted_def dotted_key_def)

lemma takeWhile_dot:
  "CHR ''.'' \<notin> set k \<Longrightarrow> takeWhile (\<lambda>c. c \<noteq> CHR ''.'') (k @ concat (map ((#) CHR ''.'') p)) = k"
  by (induction k) (auto intro!: takeWhile_eq_Nil_iff [THEN iffD2], cases p, simp_all)

lemma dotted_inj: "\<lbrakk>path_ok p; path_ok q; dotted p = dotted q\<rbrakk> \<Longrightarrow> p = q"
proof (induction p arbitrary: q)
  case Nil
  then show ?case by (cases q) (simp_all add: path_ok_def dotted_Cons, simp add: dotted_def)
next
  case (Cons k p)
  then obtain k' q' where q: "q = k' # q'"
    by (cases q) (simp_all add: path_ok_def dotted_Cons, simp add: dotted_def)
  from Cons q have ok: "k \<noteq> []" "CHR ''.'' \<notin> set k" "k' \<noteq> []" "CHR ''.'' \<notin> set k'" "path_ok p" "path_ok q'"
    by (simp_all add: path_ok_def)
  have eq: "k @ concat (map ((#) CHR ''.'') p) = k' @ concat (map ((#) CHR ''.'') q')"
    using Cons.prems ok by (simp add: q dotted_Cons)
  then have k: "k = k'" using takeWhile_dot [OF ok(2)] takeWhile_dot [OF ok(4)] by metis
  have "dotted p = dotted q'"
  proof (cases p; cases q')
    fix a r b t
    assume "p = a # r" "q' = b # t"
    with eq k ok show ?thesis by (simp add: dotted_Cons path_ok_def)
  qed (use eq k in simp_all)
  with Cons.IH ok q k show ?case by simp
qed

lemma bindings_path_ok: "tidy j \<Longrightarrow> (p, v) \<in> set (bindings ub j) \<Longrightarrow> path_ok p"
proof (induction ub j arbitrary: p rule: bindings.induct)
  case (1 ub items)
  then show ?case by (fastforce simp: path_ok_def list_all_iff)
qed (auto simp: path_ok_def split: option.splits)

subsection \<open>What a context holds after loading\<close>

lemma fold_binds:
  "\<lbrakk>ctx_ok c; distinct (map f kvs)\<rbrakk> \<Longrightarrow>
     ctx_ok (fold (\<lambda>b c. context_bind c (f b) (g b)) kvs c)
     \<and> context_value (fold (\<lambda>b c. context_bind c (f b) (g b)) kvs c) x =
        (case map_of (map (\<lambda>b. (f b, g b)) kvs) x of
           Some v \<Rightarrow> if context_value c x \<noteq> None \<and> context_var_is_readonly c x then context_value c x else Some v
         | None \<Rightarrow> context_value c x)"
proof (induction kvs arbitrary: c)
  case (Cons b kvs)
  have ro: "context_var_is_readonly (context_bind c n v) x = context_var_is_readonly c x" for n v
    by (simp add: readonly_schema)
  have "x = f b \<Longrightarrow> map_of (map (\<lambda>b. (f b, g b)) kvs) x = None"
    using Cons.prems(2) by (auto simp: map_of_eq_None_iff)
  with Cons.IH [of "context_bind c (f b) (g b)"] Cons.prems show ?case
    by (auto simp: bind_ok context_value_bind ro split: option.splits)
qed simp

text \<open>
  Claim C28. Loading a JSON object binds, for every path of keys that leads to a value, the variable
  named by the path joined by dots, unless it is bound already and read-only; paths to nulls and
  all other variables keep what they were. The keys are distinct, not empty and free of dots at
  every level, so that no two paths have the same name.
\<close>

theorem load_json_binds_paths:
  assumes "ctx_ok ctx" and "cdsl_json_parse fuel (Some text) = Some (Some root)"
    and "is_object root" and "tidy root"
  shows "\<exists>ctx'. cdsl_context_load_json ub fuel ctx (Some text) = Some (True, ctx') \<and> ctx_ok ctx'
    \<and> (\<forall>path l v. (json_at root path = Some l \<and> leaf_value ub l = Some v) \<longrightarrow>
          context_value ctx' (dotted path) =
            (if context_value ctx (dotted path) \<noteq> None \<and> context_var_is_readonly ctx (dotted path)
             then context_value ctx (dotted path) else Some v))
    \<and> (\<forall>x. \<not> (\<exists>path l v. x = dotted path \<and> json_at root path = Some l \<and> leaf_value ub l = Some v) \<longrightarrow>
          context_value ctx' x = context_value ctx x)"
proof -
  let ?b = "bindings ub root"
  let ?c = "fold (\<lambda>b c. context_bind c (dotted (fst b)) (snd b)) ?b ctx"
  have "path_ok p" if "p \<in> fst ` set ?b" for p
    using that bindings_path_ok [OF assms(4)] by auto
  then have "inj_on dotted (set (map fst ?b))"
    by (auto simp: inj_on_def dest: dotted_inj)
  then have "distinct (map dotted (map fst ?b))"
    using bindings_distinct [OF assms(4), of ub] by (simp only: distinct_map)
  then have d: "distinct (map (\<lambda>b. dotted (fst b)) ?b)" by (simp add: comp_def)
  note f = fold_binds [OF assms(1) d, of snd]
  have m: "map_of (map (\<lambda>b. (dotted (fst b), snd b)) ?b) x = Some v
      \<longleftrightarrow> (\<exists>path l. x = dotted path \<and> json_at root path = Some l \<and> leaf_value ub l = Some v)" for x v
  proof -
    have "map_of (map (\<lambda>b. (dotted (fst b), snd b)) ?b) x = Some v
        \<longleftrightarrow> (x, v) \<in> (\<lambda>b. (dotted (fst b), snd b)) ` set ?b"
      using d by (subst map_of_eq_Some_iff) (simp_all add: comp_def)
    also have "\<dots> \<longleftrightarrow> (\<exists>path. x = dotted path \<and> (path, v) \<in> set ?b)"
      by (auto simp: image_iff Bex_def)
    finally show ?thesis by (auto simp: bindings_at [OF assms(4)])
  qed
  have "cdsl_context_load_json ub fuel ctx (Some text) = Some (True, ?c)"
    using load_bindings(1) [OF assms(3), of ub ctx "[]"] assms(2)
    by (simp add: cdsl_context_load_json_def dotted_def)
  moreover have "context_value ?c (dotted path) =
            (if context_value ctx (dotted path) \<noteq> None \<and> context_var_is_readonly ctx (dotted path)
             then context_value ctx (dotted path) else Some v)"
    if "json_at root path = Some l" "leaf_value ub l = Some v" for path l v
    using f [of "dotted path"] m [of "dotted path" v] that by (auto split: option.splits)
  moreover have "context_value ?c x = context_value ctx x"
    if "\<not> (\<exists>path l v. x = dotted path \<and> json_at root path = Some l \<and> leaf_value ub l = Some v)" for x
    using f [of x] m [of x] that by (auto split: option.splits)
  ultimately show ?thesis using f by blast
qed

abbreviation sample_json :: string where
  "sample_json \<equiv> ''{''  @ [CHR 0x22] @ ''a'' @ [CHR 0x22] @ '':{'' @ [CHR 0x22] @ ''b'' @ [CHR 0x22] @ '':true}}''"

lemma load_json_binds_paths_witness:
  "\<exists>ctx'. cdsl_context_load_json (\<lambda>_. 0) 20 (cdsl_context_create None) (Some sample_json) = Some (True, ctx')
     \<and> context_value ctx' ''a.b'' = Some (VBool 1)"
proof -
  let ?j = "CDSL_JSON_OBJECT [(''a'', CDSL_JSON_OBJECT [(''b'', CDSL_JSON_BOOL 1)])]"
  have p: "cdsl_json_parse 20 (Some sample_json) = Some (Some ?j)" by code_simp
  have t: "tidy ?j" and o: "is_object ?j" by simp_all
  have l: "json_at ?j [''a'', ''b''] = Some (CDSL_JSON_BOOL 1) \<and> leaf_value (\<lambda>_. 0) (CDSL_JSON_BOOL 1) = Some (VBool 1)"
    and n: "dotted [''a'', ''b''] = ''a.b''"
    by (simp_all add: json_at_def dotted_def dotted_key_def)
  have e: "context_value (cdsl_context_create None) x = None" for x
    by (simp add: context_value_lookup)
  from load_json_binds_paths [OF ctx_ok_create [of None] p o t, of "\<lambda>_. 0"] l n e
  show ?thesis by metis
qed

end
