(* ===== verification/Cdsl_Ai_Request.thy ===== *)
theory Cdsl_Ai_Request
  imports Cdsl_Json_Text Cdsl_Schema
begin

section \<open>Requests to a language model (\<open>src/ai/bridge.c\<close>)\<close>

text \<open>
  How the AI bridge escapes a prompt for JSON and for the shell, the body of a request and the
  \<open>curl\<close> command line it builds. A splitter for the shell's quoting rules says what the command
  line means: the shell runs \<open>curl\<close> with the intended arguments, whatever the prompt is, and the
  JSON parser reads the prompt back from the body.
\<close>

subsection \<open>Escaping\<close>

text \<open>A single quote closes the quotation, is quoted by double quotes, and opens a new quotation.\<close>

definition shell_escape_char :: "char \<Rightarrow> string" where
  "shell_escape_char c = (if c = CHR 0x27 then [CHR 0x27, CHR 0x22, CHR 0x27, CHR 0x22, CHR 0x27] else [c])"

definition cdsl_ai_escape_shell_sq_internal :: "string option \<Rightarrow> string option" where
  "cdsl_ai_escape_shell_sq_internal s = map_option (\<lambda>t. concat (map shell_escape_char t)) s"

definition json_escape_char :: "char \<Rightarrow> string" where
  "json_escape_char c =
     (if c = CHR 0x22 then [CHR 0x5C, CHR 0x22] else if c = CHR 0x5C then [CHR 0x5C, CHR 0x5C]
      else if c = CHR 0x0A then [CHR 0x5C, CHR ''n''] else if c = CHR 0x0D then [CHR 0x5C, CHR ''r'']
      else if c = CHR 0x09 then [CHR 0x5C, CHR ''t'']
      else if char_code c < 32 then [] else [c])"

definition escape_json_string :: "string option \<Rightarrow> string option" where
  "escape_json_string s = map_option (\<lambda>t. concat (map json_escape_char t)) s"

text \<open>The same escapes into a fixed buffer; it stops when two bytes or fewer are left.\<close>

fun json_escape_small :: "nat \<Rightarrow> nat \<Rightarrow> string \<Rightarrow> string" where
  "json_escape_small j dst_size [] = []"
| "json_escape_small j dst_size (c # cs) =
     (if j + 2 < dst_size
      then json_escape_char c @ json_escape_small (j + length (json_escape_char c)) dst_size cs else [])"

subsection \<open>Body and command line\<close>

text \<open>The body of both builds, with and without libcurl; \<open>prompt\<close> is escaped.\<close>

definition request_body :: "string \<Rightarrow> string \<Rightarrow> bool \<Rightarrow> string" where
  \<open>request_body model prompt stream =
     ''{"model":"'' @ model @ ''","messages":[{"role":"user","content":"'' @ prompt
     @ ''"}],"temperature":0.1'' @ (if stream then '',"stream":true'' else []) @ ''}''\<close>

text \<open>
  Caches are supplied by the user: what their functions do is part of the state \<open>'w\<close> of the world
  outside, and each may be missing.
\<close>

record 'w cdsl_ai_cache =
  ca_get :: "('w \<Rightarrow> string \<Rightarrow> string option \<times> 'w) option"
  ca_put :: "('w \<Rightarrow> string \<Rightarrow> string \<Rightarrow> 'w) option"

record 'w cdsl_ai_config =
  ai_use_mock :: bool
  ai_api_key :: "string option"
  ai_api_base :: "string option"
  ai_model :: "string option"
  ai_business_context :: "string option"
  ai_cache :: "'w cdsl_ai_cache option"
  ai_provider_name :: "string option"
  ai_cache_driver_name :: "string option"

definition cdsl_ai_config_default :: "'w cdsl_ai_config" where
  "cdsl_ai_config_default =
     \<lparr>ai_use_mock = True, ai_api_key = None, ai_api_base = None, ai_model = None, ai_business_context = None,
      ai_cache = None, ai_provider_name = None, ai_cache_driver_name = None\<rparr>"

definition command_text :: "string \<Rightarrow> string \<Rightarrow> string \<Rightarrow> string \<Rightarrow> bool \<Rightarrow> string" where
  \<open>command_text s_url s_key s_model s_prompt stream =
     ''curl -s '' @ (if stream then ''-N '' else []) @ ''-X POST '' @ [CHR 0x27] @ s_url
     @ ''/chat/completions'' @ [CHR 0x27] @ '' -H '' @ [CHR 0x27] @ ''Content-Type: application/json'' @ [CHR 0x27]
     @ '' -H '' @ [CHR 0x27] @ ''Authorization: Bearer '' @ s_key @ [CHR 0x27] @ '' -d '' @ [CHR 0x27]
     @ ''{"model":"'' @ s_model @ ''","messages":[{"role":"user","content":"'' @ s_prompt
     @ ''"}],"temperature":0.1'' @ (if stream then '',"stream":true'' else []) @ ''}'' @ [CHR 0x27]\<close>

definition build_curl_cmd :: "'w cdsl_ai_config \<Rightarrow> string option \<Rightarrow> bool \<Rightarrow> string option" where
  "build_curl_cmd config escaped_prompt stream =
     (case (cdsl_ai_escape_shell_sq_internal (ai_api_base config), cdsl_ai_escape_shell_sq_internal (ai_api_key config),
            cdsl_ai_escape_shell_sq_internal (ai_model config), cdsl_ai_escape_shell_sq_internal escaped_prompt) of
        (Some s_url, Some s_key, Some s_model, Some s_prompt) \<Rightarrow>
          Some (snprintf_buf (length s_url + length s_key + length s_model + length s_prompt + 256)
                  (command_text s_url s_key s_model s_prompt stream))
      | _ \<Rightarrow> None)"

subsection \<open>What the shell makes of a command line\<close>

text \<open>
  The quoting rules of a POSIX shell, as far as a simple command without expansions needs them:
  blanks separate words, single quotes keep everything, double quotes everything but the
  characters that start an expansion. Any character outside quotes that could mean something else
  to the shell gives \<open>None\<close>, so \<open>Some ws\<close> says that the line is one command with the words \<open>ws\<close>.
\<close>

datatype sh_mode = Unquoted | Single | Double

definition sh_plain :: "char \<Rightarrow> bool" where
  "sh_plain c \<longleftrightarrow> c_isdigit c \<or> (97 \<le> char_code c \<and> char_code c \<le> 122)
     \<or> (65 \<le> char_code c \<and> char_code c \<le> 90) \<or> c \<in> {CHR ''-'', CHR ''_'', CHR ''.'', CHR ''/'', CHR '':''}"

definition sh_flush :: "string option \<Rightarrow> string list" where
  "sh_flush w = (case w of None \<Rightarrow> [] | Some t \<Rightarrow> [t])"

definition sh_add :: "string option \<Rightarrow> string \<Rightarrow> string option" where
  "sh_add w t = Some ((case w of None \<Rightarrow> [] | Some u \<Rightarrow> u) @ t)"

fun sh_scan :: "sh_mode \<Rightarrow> string option \<Rightarrow> string \<Rightarrow> string list option" where
  "sh_scan Unquoted w [] = Some (sh_flush w)"
| "sh_scan Unquoted w (c # cs) =
     (if c = CHR '' '' then map_option ((@) (sh_flush w)) (sh_scan Unquoted None cs)
      else if c = CHR 0x27 then sh_scan Single (sh_add w []) cs
      else if c = CHR 0x22 then sh_scan Double (sh_add w []) cs
      else if sh_plain c then sh_scan Unquoted (sh_add w [c]) cs
      else None)"
| "sh_scan Single w [] = None"
| "sh_scan Single w (c # cs) =
     (if c = CHR 0x27 then sh_scan Unquoted w cs else sh_scan Single (sh_add w [c]) cs)"
| "sh_scan Double w [] = None"
| "sh_scan Double w (c # cs) =
     (if c = CHR 0x22 then sh_scan Unquoted w cs
      else if c \<in> {CHR ''$'', CHR 0x60, CHR 0x5C, CHR ''!''} then None
      else sh_scan Double (sh_add w [c]) cs)"

definition sh_words :: "string \<Rightarrow> string list option" where
  "sh_words line = sh_scan Unquoted None line"

lemma sh_add_simps [simp]: "sh_add (Some u) t = Some (u @ t)" "sh_add None t = Some t"
  by (simp_all add: sh_add_def)

lemma sh_single_plain:
  "list_all (\<lambda>c. c \<noteq> CHR 0x27) s \<Longrightarrow> sh_scan Single (Some w) (s @ r) = sh_scan Single (Some (w @ s)) r"
  by (induction s arbitrary: w) simp_all

lemma sh_single_escaped:
  "sh_scan Single (Some w) (concat (map shell_escape_char s) @ r) = sh_scan Single (Some (w @ s)) r"
  by (induction s arbitrary: w) (simp_all add: shell_escape_char_def)

lemma command_length:
  "length (command_text u k m p stream) < length u + length k + length m + length p + 256"
  by (simp add: command_text_def)

lemma build_curl_cmd_text:
  "\<lbrakk>ai_api_base config = Some url; ai_api_key config = Some key; ai_model config = Some model\<rbrakk> \<Longrightarrow>
   build_curl_cmd config (Some prompt) stream =
     Some (command_text (concat (map shell_escape_char url)) (concat (map shell_escape_char key))
             (concat (map shell_escape_char model)) (concat (map shell_escape_char prompt)) stream)"
  using command_length [of "concat (map shell_escape_char url)" "concat (map shell_escape_char key)"
      "concat (map shell_escape_char model)" "concat (map shell_escape_char prompt)" stream]
  by (simp add: build_curl_cmd_def cdsl_ai_escape_shell_sq_internal_def snprintf_buf_def)

lemma command_words:
  "sh_words (command_text (concat (map shell_escape_char url)) (concat (map shell_escape_char key))
             (concat (map shell_escape_char model)) (concat (map shell_escape_char prompt)) stream) =
     Some ([''curl'', ''-s''] @ (if stream then [''-N''] else [])
       @ [''-X'', ''POST'', url @ ''/chat/completions'', ''-H'', ''Content-Type: application/json'',
          ''-H'', ''Authorization: Bearer '' @ key, ''-d'', request_body model prompt stream])"
  by (cases stream)
    (simp_all add: sh_words_def command_text_def request_body_def sh_single_escaped sh_flush_def
      sh_plain_def c_isdigit_def char_code_def)

subsection \<open>What the service reads from the body\<close>

text \<open>Control characters other than the three with an escape are dropped from a prompt.\<close>

definition kept :: "char \<Rightarrow> bool" where
  "kept c \<longleftrightarrow> 32 \<le> char_code c \<or> c \<in> {CHR 0x0A, CHR 0x0D, CHR 0x09}"

lemma string_chars_plain:
  "list_all (\<lambda>c. c \<noteq> CHR 0x22 \<and> c \<noteq> CHR 0x5C) s \<Longrightarrow> string_chars (s @ r) = push s (string_chars r)"
  by (induction s; cases "string_chars r"; cases "fst (string_chars r)") (simp_all add: push_def)

lemma json_escape_char_chars:
  "string_chars (json_escape_char c @ r) = (if kept c then push [c] (string_chars r) else string_chars r)"
proof -
  have "\<not> char_code CHR 0x22 < 32" "\<not> char_code CHR 0x5C < 32" by (simp_all add: char_code_def)
  then show ?thesis
    by (auto simp: json_escape_char_def kept_def escaped_def)
qed

lemma string_chars_escaped_prompt:
  "string_chars (concat (map json_escape_char p) @ CHR 0x22 # r) = (Some (filter kept p), r)"
  by (induction p) (simp_all add: json_escape_char_chars push_def)

lemma object_items_step:
  assumes "list_all (\<lambda>c. c \<noteq> CHR 0x22 \<and> c \<noteq> CHR 0x5C \<and> c \<noteq> CHR 0x00) k" and "starts_value t"
    and "parse_value m d t = Some (Some v, rest)" and "ends_value rest"
    and "object_items m d (skip_comma rest) = Some (items, r)"
  shows "object_items (Suc m) d (CHR 0x22 # k @ CHR 0x22 # CHR '':'' # t) = Some ((k, v) # items, r)"
proof -
  have "string_chars (k @ CHR 0x22 # u) = (Some k, u)" for u
    using string_chars_plain [of k "CHR 0x22 # u"] assms(1) by (auto simp: push_def list_all_iff)
  moreover have "c_string k = k"
    using assms(1) by (auto simp: c_string_def takeWhile_eq_all_conv list_all_iff)
  ultimately have k: "parse_string_raw (CHR 0x22 # k @ CHR 0x22 # u) = (Some k, u)" for u
    by (simp add: parse_string_raw_def)
  have ws: "skip_ws (CHR 0x22 # u) = CHR 0x22 # u" "skip_ws (CHR '':'' # u) = CHR '':'' # u" for u
    by (simp_all add: skip_ws_def c_isspace_def char_code_def)
  show ?thesis
    using assms(3-5)
    by (simp add: object_items.simps k ws Let_def starts_value_skip [OF assms(2)] ends_value_skip)
qed

lemma parse_value_string:
  assumes "string_chars t = (Some s, rest)" and "d < CDSL_JSON_MAX_DEPTH"
  shows "parse_value (Suc n) d (CHR 0x22 # t) = Some (Some (CDSL_JSON_STRING (c_string s)), rest)"
proof -
  have "skip_ws (CHR 0x22 # t) = CHR 0x22 # t" by (simp add: skip_ws_def c_isspace_def char_code_def)
  with assms show ?thesis by (simp add: parse_value.simps parse_scalar_def parse_string_raw_def)
qed

lemma strtod_tenth: 
  assumes "ends_value r" shows "c_strtod (''0.1'' @ r) = Some (f64_scale False 1 10 (- 1), r)"
proof -
  have "takeWhile c_isdigit r = []" "dropWhile c_isdigit r = r"
    using assms by (cases r; auto simp: ends_value_def c_isdigit_def char_code_def)+
  moreover have "exponent_part CHR ''e'' r = (0, r)"
    using assms by (cases r) (auto simp: ends_value_def exponent_part_def c_tolower_def char_code_def)
  moreover have "lower_prefix ''0x'' (''0.1'' @ r) = False" "lower_prefix ''inf'' (''0.1'' @ r) = False"
    "lower_prefix ''nan'' (''0.1'' @ r) = False" "lower_prefix ''infinity'' (''0.1'' @ r) = False"
    by (simp_all add: lower_prefix_def c_tolower_def char_code_def)
  ultimately show ?thesis
    by (simp add: c_strtod_def number_body_def c_isspace_def c_isdigit_def char_code_def Let_def
        radix_value_def xdigit_value_def)
qed

text \<open>The document the body is meant to be.\<close>

definition request_document :: "string \<Rightarrow> string \<Rightarrow> bool \<Rightarrow> cdsl_json" where
  "request_document model prompt stream =
     CDSL_JSON_OBJECT
      ([(''model'', CDSL_JSON_STRING model),
        (''messages'', CDSL_JSON_ARRAY [CDSL_JSON_OBJECT
            [(''role'', CDSL_JSON_STRING ''user''), (''content'', CDSL_JSON_STRING prompt)]]),
        (''temperature'', CDSL_JSON_NUMBER (f64_scale False 1 10 (- 1)))]
       @ (if stream then [(''stream'', CDSL_JSON_BOOL 1)] else []))"

definition json_plain :: "string \<Rightarrow> bool" where
  "json_plain s \<longleftrightarrow> list_all (\<lambda>c. c \<noteq> CHR 0x22 \<and> c \<noteq> CHR 0x5C \<and> c \<noteq> CHR 0x00) s"

lemma kept_c_string: "c_string (filter kept p) = filter kept p"
  by (auto simp: c_string_def takeWhile_eq_all_conv kept_def char_code_def)

lemma body_parses:
  assumes "json_plain model"
  shows "parse_value (Suc (Suc (Suc (Suc (Suc (Suc (Suc (Suc (Suc m)))))))))
     0 (request_body model (concat (map json_escape_char prompt)) stream) =
       Some (Some (request_document model (filter kept prompt) stream), [])"
proof -
  have m: "string_chars (model @ CHR 0x22 # r) = (Some model, r)" for r
    using string_chars_plain [of model "CHR 0x22 # r"] assms by (auto simp: push_def json_plain_def list_all_iff)
  have c: "c_string model = model"
    using assms by (auto simp: c_string_def takeWhile_eq_all_conv json_plain_def list_all_iff)
  show ?thesis
    by (cases stream)
      (simp_all add: request_body_def request_document_def parse_value.simps object_items.simps array_items.simps
        parse_object_def parse_array_def parse_scalar_def parse_string_raw_def m string_chars_escaped_prompt
        c [unfolded c_string_def] kept_c_string [unfolded c_string_def] c_string_def skip_ws_def skip_comma_def c_isspace_def c_isdigit_def char_code_def push_def
        strtod_tenth [simplified] ends_value_def CDSL_JSON_MAX_DEPTH_def)
qed

text \<open>
  Claim C23. Whatever the prompt is, the command line the bridge gives to the shell is a single command
  that runs \<open>curl\<close> with the configured address and key, and the body it posts parses to a request
  that holds the prompt without its control characters, as long as the name of the model needs no
  escapes of its own.
\<close>

theorem request_reaches_service:
  assumes "ai_api_base config = Some url" and "ai_api_key config = Some key" and "ai_model config = Some model"
    and "json_plain model"
  shows "\<exists>cmd body.
    build_curl_cmd config (escape_json_string (Some prompt)) stream = Some cmd
    \<and> sh_words cmd = Some ([''curl'', ''-s''] @ (if stream then [''-N''] else [])
         @ [''-X'', ''POST'', url @ ''/chat/completions'', ''-H'', ''Content-Type: application/json'',
            ''-H'', ''Authorization: Bearer '' @ key, ''-d'', body])
    \<and> cdsl_json_parse (2 * length body + 2) (Some body)
         = Some (Some (request_document model (filter kept prompt) stream))"
proof -
  let ?p = "concat (map json_escape_char prompt)" 
  let ?body = "request_body model ?p stream"
  define n where "n = 2 * length ?body + 2"
  have "9 \<le> n" by (simp add: n_def request_body_def)
  then obtain m where "n = Suc (Suc (Suc (Suc (Suc (Suc (Suc (Suc (Suc m))))))))"
    by (auto simp: le_iff_add numeral_eq_Suc)
  then have "cdsl_json_parse n (Some ?body) = Some (Some (request_document model (filter kept prompt) stream))"
    using body_parses [OF assms(4), of m prompt stream] by (simp add: cdsl_json_parse_def)
  moreover note build_curl_cmd_text [OF assms(1-3), of ?p stream] command_words [of url key model ?p stream]
  ultimately show ?thesis by (simp add: escape_json_string_def n_def)
qed

definition sample_config :: "unit cdsl_ai_config" where
  "sample_config = cdsl_ai_config_default
     \<lparr>ai_api_base := Some ''https://x'', ai_api_key := Some ''k'', ai_model := Some ''m''\<rparr>"

lemma request_reaches_service_witness:
  "\<exists>cmd. build_curl_cmd sample_config (escape_json_string (Some [CHR 0x27, CHR 0x22])) False = Some cmd
     \<and> length (the (sh_words cmd)) = 11"
  using request_reaches_service [of sample_config "''https://x''" "''k''" "''m''" "[CHR 0x27, CHR 0x22]" False]
  by (auto simp: sample_config_def cdsl_ai_config_default_def json_plain_def)

end
