(* ===== verification/Cdsl_Ai_Stream.thy ===== *)
theory Cdsl_Ai_Stream
  imports Cdsl_Ai_Request
begin

section \<open>Talking to a language model (\<open>src/ai/bridge.c\<close>)\<close>

text \<open>
  Responses and streams, caches, and the calls to the service. The world outside, with the service,
  the user's caches and providers, is a state \<open>'w\<close> that parameters of the model act on. Results are
  \<open>None\<close> where the JSON parser does not return.
\<close>

subsection \<open>Responses\<close>

definition find_json_key :: "cdsl_json option \<Rightarrow> string \<Rightarrow> cdsl_json option" where
  "find_json_key obj key = (case obj of Some (CDSL_JSON_OBJECT items) \<Rightarrow> find_item items key | _ \<Rightarrow> None)"

text \<open>The parser with the fuel that is enough whenever it returns at all.\<close>

definition parse_json :: "string \<Rightarrow> cdsl_json option option" where
  "parse_json s = cdsl_json_parse (2 * length s + 2) (Some s)"

text \<open>The content of the first choice, under \<open>message\<close> in a reply and under \<open>delta\<close> in a stream.\<close>

definition choice_content :: "string \<Rightarrow> cdsl_json \<Rightarrow> string option" where
  "choice_content part root =
     (case find_json_key (Some root) ''choices'' of
        Some (CDSL_JSON_ARRAY (first_choice # _)) \<Rightarrow>
          (case find_json_key (Some first_choice) part of
             Some message \<Rightarrow>
               (case find_json_key (Some message) ''content'' of Some (CDSL_JSON_STRING s) \<Rightarrow> Some s | _ \<Rightarrow> None)
           | None \<Rightarrow> None)
      | _ \<Rightarrow> None)"

subsection \<open>Streams\<close>

text \<open>
  What has been accumulated, the capacity of its buffer and the texts passed to the callback; the
  total length is the length of the text.
\<close>

record sse_state =
  sse_result :: string
  sse_cap :: nat
  sse_calls :: "string list"

definition sse_init :: sse_state where
  "sse_init = \<lparr>sse_result = [], sse_cap = 8192, sse_calls = []\<rparr>"

definition sse_append :: "string \<Rightarrow> sse_state \<Rightarrow> sse_state" where
  "sse_append chunk st =
     (let total = length (sse_result st); len = length chunk
      in st\<lparr>sse_cap := (if sse_cap st < total + len + 1 then total + len + 1024 else sse_cap st),
            sse_result := sse_result st @ chunk, sse_calls := sse_calls st @ [chunk]\<rparr>)"

definition process_sse_data :: "string \<Rightarrow> sse_state \<Rightarrow> sse_state option" where
  "process_sse_data data st =
     (if c_strncmp data ''[DONE]'' 6 = 0 then Some st
      else case parse_json data of
          None \<Rightarrow> None
        | Some None \<Rightarrow> Some st
        | Some (Some root) \<Rightarrow>
            (case choice_content ''delta'' root of None \<Rightarrow> Some st | Some chunk \<Rightarrow> Some (sse_append chunk st)))"

definition process_line :: "string \<Rightarrow> sse_state \<Rightarrow> sse_state option" where
  "process_line line st = (if c_strncmp line ''data: '' 6 = 0 then process_sse_data (drop 6 line) st else Some st)"

text \<open>With libcurl the reply comes in pieces, and lines are put together in a buffer of 16384 bytes.\<close>

record curl_stream_ctx =
  cs_line :: string
  cs_sse :: sse_state

definition stream_char :: "char \<Rightarrow> curl_stream_ctx \<Rightarrow> curl_stream_ctx option" where
  "stream_char c ctx =
     (if c = CHR 0x0A
      then map_option (\<lambda>st. ctx\<lparr>cs_line := [], cs_sse := st\<rparr>) (process_line (c_string (cs_line ctx)) (cs_sse ctx))
      else if length (cs_line ctx) < 16384 - 1 then Some (ctx\<lparr>cs_line := cs_line ctx @ [c]\<rparr>)
      else Some ctx)"

fun cdsl_curl_stream_callback :: "string \<Rightarrow> curl_stream_ctx \<Rightarrow> curl_stream_ctx option" where
  "cdsl_curl_stream_callback [] ctx = Some ctx"
| "cdsl_curl_stream_callback (c # cs) ctx =
     (case stream_char c ctx of None \<Rightarrow> None | Some ctx' \<Rightarrow> cdsl_curl_stream_callback cs ctx')"

fun deliver :: "string list \<Rightarrow> curl_stream_ctx \<Rightarrow> curl_stream_ctx option" where
  "deliver [] ctx = Some ctx"
| "deliver (p # ps) ctx = (case cdsl_curl_stream_callback p ctx of None \<Rightarrow> None | Some ctx' \<Rightarrow> deliver ps ctx')"

text \<open>Without libcurl lines are read by \<open>fgets\<close> into a buffer of 4096 bytes.\<close>

function read_lines :: "string \<Rightarrow> sse_state \<Rightarrow> sse_state option" where
  "read_lines input st =
     (if input = [] then Some st
      else let line = fgets_line 4096 input
           in case process_line (c_string line) st of
                None \<Rightarrow> None
              | Some st' \<Rightarrow> read_lines (drop (length line) input) st')"
  by auto

termination
  by (relation "measure (\<lambda>(input, st). length input)") (use fgets_line_progress [of _ 4096] in auto)

declare read_lines.simps [simp del]

subsection \<open>What a stream means\<close>

text \<open>The content of a line, if it is data that parses to a piece of content.\<close>

definition line_returns :: "string \<Rightarrow> bool" where
  "line_returns l \<longleftrightarrow> (take 6 l = ''data: '' \<longrightarrow> take 6 (drop 6 l) = ''[DONE]'' \<or> parse_json (drop 6 l) \<noteq> None)"

definition line_content :: "string \<Rightarrow> string list" where
  "line_content l =
     (if take 6 l = ''data: '' \<and> take 6 (drop 6 l) \<noteq> ''[DONE]''
      then (case parse_json (drop 6 l) of
              Some (Some root) \<Rightarrow> (case choice_content ''delta'' root of None \<Rightarrow> [] | Some c \<Rightarrow> [c])
            | _ \<Rightarrow> [])
      else [])"

definition stream_text :: "string list \<Rightarrow> string" where
  "stream_text ls = concat (map (\<lambda>l. l @ [CHR 0x0A]) ls)"

definition sse_line :: "nat \<Rightarrow> string \<Rightarrow> bool" where
  "sse_line n l \<longleftrightarrow> list_all (\<lambda>c. c \<noteq> CHR 0x0A \<and> c \<noteq> CHR 0x00) l \<and> length l < n"

lemma strncmp_take: "length t = n \<Longrightarrow> c_strncmp s t n = 0 \<longleftrightarrow> take n s = t"
  by (simp add: c_strncmp_def)

definition append_all :: "string list \<Rightarrow> sse_state \<Rightarrow> sse_state" where
  "append_all cs st = fold sse_append cs st"

lemma process_line_content:
  "line_returns l \<Longrightarrow> process_line l st = Some (append_all (line_content l) st)"
  by (auto simp: process_line_def process_sse_data_def strncmp_take line_returns_def line_content_def append_all_def
      split: option.splits)

lemma append_all_result [simp]:
  "sse_result (append_all cs st) = sse_result st @ concat cs"
  "sse_calls (append_all cs st) = sse_calls st @ cs"
  by (induction cs arbitrary: st) (simp_all add: append_all_def sse_append_def Let_def)

text \<open>Cutting the stream into pieces does not matter.\<close>

lemma callback_append:
  "cdsl_curl_stream_callback (s @ t) ctx = Option.bind (cdsl_curl_stream_callback s ctx) (cdsl_curl_stream_callback t)"
  by (induction s arbitrary: ctx) (simp_all split: option.splits)

lemma deliver_concat: "deliver ps ctx = cdsl_curl_stream_callback (concat ps) ctx"
  by (induction ps arbitrary: ctx) (simp_all add: callback_append split: option.splits)

lemma callback_line:
  "\<lbrakk>list_all (\<lambda>c. c \<noteq> CHR 0x0A) l; length (cs_line ctx) + length l < 16384\<rbrakk>
     \<Longrightarrow> cdsl_curl_stream_callback l ctx = Some (ctx\<lparr>cs_line := cs_line ctx @ l\<rparr>)"
  by (induction l arbitrary: ctx) (simp_all add: stream_char_def)

lemma sse_line_c_string: "sse_line n l \<Longrightarrow> c_string l = l"
  by (auto simp: sse_line_def c_string_def takeWhile_eq_all_conv list_all_iff)

lemma callback_stream:
  "list_all (\<lambda>l. sse_line 16384 l \<and> line_returns l) ls \<Longrightarrow> cs_line ctx = [] \<Longrightarrow>
     cdsl_curl_stream_callback (stream_text ls) ctx
       = Some (ctx\<lparr>cs_sse := append_all (concat (map line_content ls)) (cs_sse ctx)\<rparr>)"
proof (induction ls arbitrary: ctx)
  case Nil
  then show ?case by (simp add: stream_text_def append_all_def)
next
  case (Cons l ls)
  have l: "cdsl_curl_stream_callback l ctx = Some (ctx\<lparr>cs_line := l\<rparr>)"
    using callback_line [of l ctx] Cons.prems by (simp add: sse_line_def list_all_iff)
  let ?c = "ctx\<lparr>cs_line := [], cs_sse := append_all (line_content l) (cs_sse ctx)\<rparr>"
  have "stream_char (CHR 0x0A) (ctx\<lparr>cs_line := l\<rparr>) = Some ?c"
    using Cons.prems process_line_content [of l] sse_line_c_string [of 16384 l] by (simp add: stream_char_def)
  with l Cons.IH [of ?c] Cons.prems show ?case
    by (simp add: stream_text_def callback_append append_all_def)
qed

lemma read_stream:
  "list_all (\<lambda>l. sse_line 4095 l \<and> line_returns (l @ [CHR 0x0A])) ls \<Longrightarrow>
     read_lines (stream_text ls) st = Some (append_all (concat (map (\<lambda>l. line_content (l @ [CHR 0x0A])) ls)) st)"
proof (induction ls arbitrary: st)
  case Nil
  then show ?case by (simp add: stream_text_def append_all_def read_lines.simps)
next
  case (Cons l ls)
  have "takeWhile (\<lambda>c. c \<noteq> CHR 0x0A) (l @ CHR 0x0A # r) = l" for r
    using Cons.prems by (auto simp: sse_line_def takeWhile_eq_all_conv list_all_iff takeWhile_append)
  then have "fgets_line 4096 (l @ CHR 0x0A # r) = l @ [CHR 0x0A]" for r
    using Cons.prems by (simp add: fgets_line_def sse_line_def)
  moreover have "c_string (l @ [CHR 0x0A]) = l @ [CHR 0x0A]"
    using Cons.prems by (auto simp: c_string_def takeWhile_eq_all_conv sse_line_def list_all_iff)
  ultimately show ?case
    using Cons.IH [of "append_all (line_content (l @ [CHR 0x0A])) st"] Cons.prems process_line_content [of "l @ [CHR 0x0A]" st]
    by (simp add: stream_text_def read_lines.simps [of "l @ CHR 0x0A # r" for r] Let_def append_all_def)
qed

text \<open>The stream of a chat completion service: JSON events, each behind \<open>data:\<close>, and an end mark.\<close>

definition event_line :: "(string \<times> cdsl_json) list \<Rightarrow> string" where
  "event_line items = ''data: '' @ json_text (CDSL_JSON_OBJECT items)"

definition service_lines :: "(string \<times> cdsl_json) list list \<Rightarrow> string list" where
  "service_lines events = concat (map (\<lambda>items. [event_line items, []]) events) @ [''data: [DONE]'', []]"

definition event_contents :: "(string \<times> cdsl_json) list list \<Rightarrow> string list" where
  "event_contents events =
     concat (map (\<lambda>items. case choice_content ''delta'' (CDSL_JSON_OBJECT items) of None \<Rightarrow> [] | Some c \<Rightarrow> [c]) events)"

definition text_char :: "char \<Rightarrow> bool" where
  "text_char c \<longleftrightarrow> c \<noteq> CHR 0x0A \<and> c \<noteq> CHR 0x00"

lemma escape_char_text: "list_all text_char (escape_char c)"
proof -
  have h: "n < 16 \<Longrightarrow> text_char (hex_char n)" for n
    by (auto simp: text_char_def hex_char_def dest!: arg_cong [of _ _ char_code] simp: char_code_def)
  have "c \<noteq> CHR 0x0A \<Longrightarrow> \<not> char_code c < 32 \<Longrightarrow> text_char c"
    by (auto simp: text_char_def char_code_def)
  with h [of "char_code c div 16"] h [of "char_code c mod 16"] show ?thesis
    by (auto simp: escape_char_def text_char_def)
qed

lemma quoted_text: "list_all text_char (quoted s)"
  using escape_char_text by (auto simp: quoted_def list_all_iff text_char_def)

lemma dec_text: "list_all text_char (dec_of_int i)"
proof -
  have "list_all text_char (dec_of_nat n)" for n
    using dec_of_nat_digits [of n] by (auto simp: list_all_iff text_char_def c_isdigit_def char_code_def)
  then show ?thesis by (simp add: dec_of_int_def text_char_def)
qed

lemma json_text_chars:
  "list_all text_char (json_text v)" "list_all text_char (items_text items)" "list_all text_char (elems_text elems)"
  by (induction v and items and elems rule: json_text_items_text_elems_text.induct)
    (simp_all add: quoted_text [unfolded text_char_def] dec_text [unfolded text_char_def] text_char_def)

lemma parse_event:
  assumes "printable CDSL_JSON_MAX_DEPTH (CDSL_JSON_OBJECT items)"
  shows "parse_json (json_text (CDSL_JSON_OBJECT items) @ r) = Some (Some (CDSL_JSON_OBJECT items))"
proof -
  let ?t = "items_text items" and ?n = "2 * length (json_text (CDSL_JSON_OBJECT items) @ r) + 1"
  have "object_items ?n 1 (?t @ CHR ''}'' # r) = Some (items, CHR ''}'' # r)"
    using assms by (intro parse_printed(2)) (auto simp: CDSL_JSON_MAX_DEPTH_def)
  moreover have "skip_ws (?t @ CHR ''}'' # r) = ?t @ CHR ''}'' # r"
    by (cases items) (auto intro!: skip_ws_start simp: quoted_def c_isspace_def char_code_def)
  moreover have "skip_ws (CHR ''{'' # u) = CHR ''{'' # u" for u
    by (intro skip_ws_start) (auto simp: c_isspace_def char_code_def)
  ultimately show ?thesis
    by (simp add: parse_json_def cdsl_json_parse_def parse_value.simps CDSL_JSON_MAX_DEPTH_def parse_object_def)
qed

lemma event_line_content:
  assumes "printable CDSL_JSON_MAX_DEPTH (CDSL_JSON_OBJECT items)"
  shows "line_returns (event_line items @ r)"
    and "line_content (event_line items @ r)
      = (case choice_content ''delta'' (CDSL_JSON_OBJECT items) of None \<Rightarrow> [] | Some c \<Rightarrow> [c])"
  using parse_event [OF assms, of r]
  by (simp_all add: line_returns_def line_content_def event_line_def numeral_eq_Suc)

lemma service_stream_lines:
  assumes "list_all (\<lambda>items. printable CDSL_JSON_MAX_DEPTH (CDSL_JSON_OBJECT items)
      \<and> length (event_line items) < n) events" and "20 < n" and "r = [] \<or> r = [CHR 0x0A]"
  shows "list_all (\<lambda>l. sse_line n l \<and> line_returns (l @ r)) (service_lines events)"
proof -
  have "list_all text_char (event_line items)" for items
    using json_text_chars(1) [of "CDSL_JSON_OBJECT items"] by (simp add: event_line_def text_char_def)
  then have e: "sse_line n (event_line items)" if "length (event_line items) < n" for items
    using that by (simp add: sse_line_def flip: text_char_def)
  have d: "sse_line n ''data: [DONE]''" "sse_line n []" using assms(2) by (simp_all add: sse_line_def)
  have "line_returns (''data: [DONE]'' @ r)" "line_returns r"
    using assms(3) by (auto simp: line_returns_def)
  then have t: "list_all (\<lambda>l. sse_line n l \<and> line_returns (l @ r)) [''data: [DONE]'', []]"
    using d by simp
  have "list_all (\<lambda>l. sse_line n l \<and> line_returns (l @ r)) [event_line items, []]"
    if "printable CDSL_JSON_MAX_DEPTH (CDSL_JSON_OBJECT items)" "length (event_line items) < n" for items
    using e [OF that(2)] event_line_content(1) [OF that(1), of r] t by simp
  then have "list_all (\<lambda>l. sse_line n l \<and> line_returns (l @ r)) (concat (map (\<lambda>items. [event_line items, []]) events))"
    using assms(1) t by (induction events) (simp_all del: printable.simps)
  with t show ?thesis by (simp add: service_lines_def)
qed

lemma service_stream_contents:
  assumes "list_all (\<lambda>items. printable CDSL_JSON_MAX_DEPTH (CDSL_JSON_OBJECT items)) events"
    and "r = [] \<or> r = [CHR 0x0A]"
  shows "concat (map (\<lambda>l. line_content (l @ r)) (service_lines events)) = event_contents events"
proof -
  have "line_content (''data: [DONE]'' @ r) = []" "line_content r = []"
    using assms(2) by (auto simp: line_content_def)
  with assms(1) show ?thesis
    by (induction events)
      (simp_all add: service_lines_def event_contents_def event_line_content(2) del: printable.simps)
qed

text \<open>
  Claim C24. A streamed reply is put together completely and in order, one call of the callback for
  each piece of content, however libcurl cuts the stream into pieces, and the build that reads it
  from \<open>curl\<close> with \<open>fgets\<close> gives the same, as long as no event is longer than its line buffer.
\<close>

theorem streamed_reply_complete:
  assumes "list_all (\<lambda>items. printable CDSL_JSON_MAX_DEPTH (CDSL_JSON_OBJECT items)
      \<and> length (event_line items) < 4095) events"
    and "concat pieces = stream_text (service_lines events)"
  shows "\<exists>st. deliver pieces \<lparr>cs_line = [], cs_sse = sse_init\<rparr> = Some \<lparr>cs_line = [], cs_sse = st\<rparr>
    \<and> read_lines (concat pieces) sse_init = Some st
    \<and> sse_calls st = event_contents events \<and> sse_result st = concat (event_contents events)"
proof -
  let ?st = "append_all (event_contents events) sse_init"
  have p: "list_all (\<lambda>items. printable CDSL_JSON_MAX_DEPTH (CDSL_JSON_OBJECT items)) events"
    using assms(1) by (simp add: list_all_iff)
  have "list_all (\<lambda>items. printable CDSL_JSON_MAX_DEPTH (CDSL_JSON_OBJECT items)
      \<and> length (event_line items) < 16384) events"
    using assms(1) by (auto simp: list_all_iff)
  from service_stream_lines [OF this, of "[]"] service_stream_contents [OF p, of "[]"]
  have "deliver pieces \<lparr>cs_line = [], cs_sse = sse_init\<rparr> = Some \<lparr>cs_line = [], cs_sse = ?st\<rparr>"
    using callback_stream [of "service_lines events" "\<lparr>cs_line = [], cs_sse = sse_init\<rparr>"]
    by (simp add: deliver_concat assms(2))
  moreover have "read_lines (concat pieces) sse_init = Some ?st"
    using read_stream [of "service_lines events"] service_stream_lines [OF assms(1), of "[CHR 0x0A]"]
      service_stream_contents [OF p, of "[CHR 0x0A]"]
    by (simp add: assms(2))
  ultimately show ?thesis by (simp add: sse_init_def)
qed

definition sample_event :: "(string \<times> cdsl_json) list" where
  "sample_event = [(''choices'', CDSL_JSON_ARRAY [CDSL_JSON_OBJECT
     [(''delta'', CDSL_JSON_OBJECT [(''content'', CDSL_JSON_STRING ''hi'')])]])]"

lemma streamed_reply_complete_witness:
  "\<exists>st. deliver (map (\<lambda>c. [c]) (stream_text (service_lines [sample_event]))) \<lparr>cs_line = [], cs_sse = sse_init\<rparr>
       = Some \<lparr>cs_line = [], cs_sse = st\<rparr> \<and> sse_result st = ''hi''"
proof -
  have "printable CDSL_JSON_MAX_DEPTH (CDSL_JSON_OBJECT sample_event)"
    by (simp add: sample_event_def CDSL_JSON_MAX_DEPTH_def c_text_def)
  moreover have "length (event_line sample_event) < 4095"
    by (simp add: event_line_def sample_event_def quoted_def escape_char_def)
  moreover have "event_contents [sample_event] = [''hi'']"
    by (simp add: event_contents_def sample_event_def choice_content_def find_json_key_def)
  moreover have "concat (map (\<lambda>c. [c]) s) = s" for s :: string by (induction s) simp_all
  ultimately show ?thesis
    using streamed_reply_complete [of "[sample_event]" "map (\<lambda>c. [c]) (stream_text (service_lines [sample_event]))"]
    by auto
qed

end
