(* ===== verification/Cdsl_Ai.thy ===== *)
theory Cdsl_Ai
  imports Cdsl_Ai_Stream
begin

section \<open>Calls, caches and providers of the AI bridge (\<open>src/ai/bridge.c\<close>)\<close>

text \<open>
  Calls of the service in both builds, the registries of providers and cache drivers, and the mock
  reviewer. A provider registered by the user is a record of functions on the world outside.
  Locks, the one-time initialisation and the notices on the error stream are left out.
\<close>

subsection \<open>State\<close>

record cdsl_ai_review =
  rv_approved :: bool
  rv_risk_score :: i32
  rv_reason :: "string option"
  rv_suggestions :: "string option"

record 'w external_provider =
  ep_translate :: "string option \<Rightarrow> cdsl_schema option \<Rightarrow> 'w cdsl_ai_config option \<Rightarrow> 'w \<Rightarrow> string option \<times> 'w"
  ep_review :: "string option \<Rightarrow> cdsl_schema option \<Rightarrow> 'w cdsl_ai_config option \<Rightarrow> 'w \<Rightarrow> cdsl_ai_review option \<times> 'w"
  ep_translate_stream ::
    "string option \<Rightarrow> cdsl_schema option \<Rightarrow> 'w cdsl_ai_config option \<Rightarrow> 'w \<Rightarrow> (string option \<times> string list) \<times> 'w"
  ep_review_stream ::
    "string option \<Rightarrow> cdsl_schema option \<Rightarrow> 'w cdsl_ai_config option \<Rightarrow> 'w \<Rightarrow> (string option \<times> string list) \<times> 'w"

datatype 'w cdsl_ai_provider = Default_Provider | External_Provider "'w external_provider"

record 'w ai_state =
  g_providers :: "'w cdsl_ai_provider cdsl_hashmap"
  g_cache_drivers :: "'w cdsl_ai_cache cdsl_hashmap"
  ai_world :: 'w

definition init_registries :: "'w \<Rightarrow> 'w ai_state" where
  "init_registries w =
     \<lparr>g_providers = cdsl_hashmap_put (cdsl_hashmap_create 16) ''default'' Default_Provider,
      g_cache_drivers = cdsl_hashmap_create 16, ai_world = w\<rparr>"

definition cdsl_ai_register_provider :: "string \<Rightarrow> 'w cdsl_ai_provider \<Rightarrow> 'w ai_state \<Rightarrow> 'w ai_state" where
  "cdsl_ai_register_provider name provider st = st\<lparr>g_providers := cdsl_hashmap_put (g_providers st) name provider\<rparr>"

definition cdsl_ai_register_cache_driver :: "string \<Rightarrow> 'w cdsl_ai_cache \<Rightarrow> 'w ai_state \<Rightarrow> 'w ai_state" where
  "cdsl_ai_register_cache_driver name cache st =
     st\<lparr>g_cache_drivers := cdsl_hashmap_put (g_cache_drivers st) name cache\<rparr>"

definition get_provider :: "'w ai_state \<Rightarrow> string option \<Rightarrow> 'w cdsl_ai_provider" where
  "get_provider st name =
     (case cdsl_hashmap_get (g_providers st) (case name of None \<Rightarrow> ''default'' | Some n \<Rightarrow> n) of
        None \<Rightarrow> Default_Provider | Some p \<Rightarrow> p)"

definition get_cache_driver :: "'w ai_state \<Rightarrow> 'w cdsl_ai_config \<Rightarrow> 'w cdsl_ai_cache option" where
  "get_cache_driver st cfg =
     (case ai_cache cfg of
        Some c \<Rightarrow> Some c
      | None \<Rightarrow>
          (case ai_cache_driver_name cfg of None \<Rightarrow> None | Some n \<Rightarrow> cdsl_hashmap_get (g_cache_drivers st) n))"

definition cache_get :: "'w cdsl_ai_cache option \<Rightarrow> string \<Rightarrow> 'w \<Rightarrow> string option \<times> 'w" where
  "cache_get cache key w =
     (case cache of None \<Rightarrow> (None, w) | Some c \<Rightarrow> (case ca_get c of None \<Rightarrow> (None, w) | Some get \<Rightarrow> get w key))"

definition cache_put :: "'w cdsl_ai_cache option \<Rightarrow> string \<Rightarrow> string \<Rightarrow> 'w \<Rightarrow> 'w" where
  "cache_put cache key val w =
     (case cache of None \<Rightarrow> w | Some c \<Rightarrow> (case ca_put c of None \<Rightarrow> w | Some put \<Rightarrow> put w key val))"

subsection \<open>Sending a request\<close>

text \<open>
  Without libcurl the command is given to \<open>popen\<close>, which may fail or gives all output. With libcurl
  the address, the authorization header and the body are; the pieces of the reply come back, and
  whether the transfer succeeded. A buffer that never received a piece is not initialised:
  what it holds is the last parameter.
\<close>

datatype 'w transport =
    Popen "string \<Rightarrow> 'w \<Rightarrow> string option \<times> 'w"
  | Libcurl "string \<Rightarrow> string \<Rightarrow> string \<Rightarrow> 'w \<Rightarrow> (string list \<times> bool) \<times> 'w" string

definition cdsl_curl_write_callback :: "string \<Rightarrow> string \<Rightarrow> string" where
  "cdsl_curl_write_callback contents mem = mem @ contents"

definition response_data :: "string \<Rightarrow> string list \<Rightarrow> string" where
  "response_data uninit chunks = (if chunks = [] then uninit else fold cdsl_curl_write_callback chunks [])"

text \<open>Header, address and body of a request made with libcurl, with the buffers they are printed to.\<close>

definition curl_perform ::
  "(string \<Rightarrow> string \<Rightarrow> string \<Rightarrow> 'w \<Rightarrow> (string list \<times> bool) \<times> 'w) \<Rightarrow> string \<Rightarrow> string \<Rightarrow> string \<Rightarrow> string \<Rightarrow> bool
    \<Rightarrow> 'w \<Rightarrow> (string list \<times> bool) \<times> 'w" where
  "curl_perform perform base key model prompt stream w =
     (let escaped = concat (map json_escape_char prompt)
      in perform (snprintf_buf 512 (base @ ''/chat/completions''))
                 (snprintf_buf 512 (''Authorization: Bearer '' @ key))
                 (snprintf_buf (length model + length escaped + 128) (request_body model escaped stream)) w)"

definition configured :: "'w cdsl_ai_config \<Rightarrow> (string \<times> string \<times> string) option" where
  "configured config =
     (case (ai_api_base config, ai_api_key config, ai_model config) of
        (Some base, Some key, Some model) \<Rightarrow> Some (base, key, model) | _ \<Rightarrow> None)"

definition send_request :: "'w transport \<Rightarrow> 'w cdsl_ai_config \<Rightarrow> string \<Rightarrow> 'w \<Rightarrow> string option \<times> 'w" where
  "send_request tr config prompt w =
     (case (tr, configured config) of
        (_, None) \<Rightarrow> (None, w)
      | (Popen run, _) \<Rightarrow>
          (case build_curl_cmd config (escape_json_string (Some prompt)) False of
             None \<Rightarrow> (None, w) | Some cmd \<Rightarrow> run cmd w)
      | (Libcurl perform uninit, Some (base, key, model)) \<Rightarrow>
          (case curl_perform perform base key model prompt False w of
             ((chunks, ok), w') \<Rightarrow> ((if ok then Some (response_data uninit chunks) else None), w')))"

definition call_llm_api ::
  "'w transport \<Rightarrow> string \<Rightarrow> 'w cdsl_ai_config option \<Rightarrow> 'w ai_state \<Rightarrow> (string option \<times> 'w ai_state) option" where
  "call_llm_api tr prompt config st =
     (case config of None \<Rightarrow> Some (None, st) | Some cfg \<Rightarrow>
      if configured cfg = None then Some (None, st)
      else case cache_get (get_cache_driver st cfg) prompt (ai_world st) of
        (Some cached, w) \<Rightarrow> Some (Some cached, st\<lparr>ai_world := w\<rparr>)
      | (None, w) \<Rightarrow>
          (case send_request tr cfg prompt w of
             (None, w') \<Rightarrow> Some (None, st\<lparr>ai_world := w'\<rparr>)
           | (Some response, w') \<Rightarrow>
               (case parse_json (c_string response) of
                  None \<Rightarrow> None
                | Some None \<Rightarrow> Some (None, st\<lparr>ai_world := w'\<rparr>)
                | Some (Some root) \<Rightarrow>
                    (case choice_content ''message'' root of
                       None \<Rightarrow> Some (None, st\<lparr>ai_world := w'\<rparr>)
                     | Some decoded \<Rightarrow>
                         Some (Some decoded, st\<lparr>ai_world := cache_put (ai_cache cfg) prompt decoded w'\<rparr>)))))"

text \<open>The result of a stream, with the texts the callback was given.\<close>

definition stream_request ::
  "'w transport \<Rightarrow> 'w cdsl_ai_config \<Rightarrow> string \<Rightarrow> 'w \<Rightarrow> ((string option \<times> string list) \<times> 'w) option" where
  "stream_request tr config prompt w =
     (case (tr, configured config) of
        (_, None) \<Rightarrow> Some ((None, []), w)
      | (Popen run, _) \<Rightarrow>
          (case build_curl_cmd config (escape_json_string (Some prompt)) True of
             None \<Rightarrow> Some ((None, []), w)
           | Some cmd \<Rightarrow>
               (case run cmd w of
                  (None, w') \<Rightarrow> Some ((None, []), w')
                | (Some output, w') \<Rightarrow>
                    map_option (\<lambda>sse. ((Some (sse_result sse), sse_calls sse), w')) (read_lines output sse_init)))
      | (Libcurl perform uninit, Some (base, key, model)) \<Rightarrow>
          (case curl_perform perform base key model prompt True w of
             ((chunks, ok), w') \<Rightarrow>
               map_option (\<lambda>ctx. ((if ok then Some (sse_result (cs_sse ctx)) else None, sse_calls (cs_sse ctx)), w'))
                 (deliver chunks \<lparr>cs_line = [], cs_sse = sse_init\<rparr>)))"

definition call_llm_api_stream ::
  "'w transport \<Rightarrow> string \<Rightarrow> 'w cdsl_ai_config option \<Rightarrow> 'w ai_state
    \<Rightarrow> ((string option \<times> string list) \<times> 'w ai_state) option" where
  "call_llm_api_stream tr prompt config st =
     (case config of None \<Rightarrow> Some ((None, []), st) | Some cfg \<Rightarrow>
      if configured cfg = None then Some ((None, []), st)
      else case cache_get (get_cache_driver st cfg) prompt (ai_world st) of
        (Some cached, w) \<Rightarrow> Some ((Some cached, [cached]), st\<lparr>ai_world := w\<rparr>)
      | (None, w) \<Rightarrow>
          map_option (\<lambda>((result, calls), w').
              ((result, calls),
               st\<lparr>ai_world := (case result of None \<Rightarrow> w' | Some r \<Rightarrow> cache_put (get_cache_driver st cfg) prompt r w')\<rparr>))
            (stream_request tr cfg prompt w))"

subsection \<open>Caching\<close>

lemma answered_put:
  assumes "ai_cache cfg = Some c" and "ca_get c = Some get" and "ca_put c = Some put"
    and "fst (get (ai_world st) prompt) = None"
    and "call_llm_api tr prompt (Some cfg) st = Some (Some r, st')"
  shows "\<exists>w. st' = st\<lparr>ai_world := put w prompt r\<rparr>"
  using assms
  by (auto simp: call_llm_api_def get_cache_driver_def cache_get_def cache_put_def
      split: if_splits prod.splits option.splits)

lemma streamed_put:
  assumes "get_cache_driver st cfg = Some c" and "ca_get c = Some get" and "ca_put c = Some put"
    and "fst (get (ai_world st) prompt) = None"
    and "call_llm_api_stream tr prompt (Some cfg) st = Some ((Some r, calls), st')"
  shows "\<exists>w. st' = st\<lparr>ai_world := put w prompt r\<rparr>"
  using assms
  by (auto simp: call_llm_api_stream_def cache_get_def cache_put_def split: if_splits prod.splits option.splits)


definition list_cache :: "(string \<times> string) list cdsl_ai_cache" where
  "list_cache = \<lparr>ca_get = Some (\<lambda>w key. (map_of w key, w)), ca_put = Some (\<lambda>w key val. (key, val) # w)\<rparr>"

definition cached_config :: "(string \<times> string) list cdsl_ai_config" where
  "cached_config = cdsl_ai_config_default
     \<lparr>ai_api_base := Some ''u'', ai_api_key := Some ''k'', ai_model := Some ''m'', ai_cache := Some list_cache\<rparr>"

definition sample_reply :: string where
  "sample_reply = json_text (CDSL_JSON_OBJECT [(''choices'', CDSL_JSON_ARRAY [CDSL_JSON_OBJECT
     [(''message'', CDSL_JSON_OBJECT [(''content'', CDSL_JSON_STRING ''hi'')])]])])"


text \<open>
  A plain call never writes to a cache driver that is found by its name: results and the
  world outside do not depend on the function the driver stores with.
\<close>

lemma named_driver_never_written:
  "map_option (\<lambda>(r, st). (r, ai_world st)) (call_llm_api tr prompt (Some (cfg\<lparr>ai_cache := None\<rparr>))
      (cdsl_ai_register_cache_driver name (c\<lparr>ca_put := put\<rparr>) (init_registries w)))
   = map_option (\<lambda>(r, st). (r, ai_world st)) (call_llm_api tr prompt (Some (cfg\<lparr>ai_cache := None\<rparr>))
      (cdsl_ai_register_cache_driver name (c\<lparr>ca_put := put'\<rparr>) (init_registries w)))"
proof -
  let ?st = "\<lambda>put. cdsl_ai_register_cache_driver name (c\<lparr>ca_put := put\<rparr>) (init_registries w)"
  let ?cfg = "cfg\<lparr>ai_cache := None\<rparr>"
  have "hm_ok (g_cache_drivers (init_registries w))" by (simp add: init_registries_def hm_ok_create)
  then have "get_cache_driver (?st put) ?cfg =
      (if ai_cache_driver_name cfg = Some name then Some (c\<lparr>ca_put := put\<rparr>) else None)" for put
    by (auto simp: get_cache_driver_def cdsl_ai_register_cache_driver_def hm.get_put init_registries_def
        split: option.splits)
  then have "cache_get (get_cache_driver (?st put) ?cfg) prompt v = cache_get (get_cache_driver (?st put') ?cfg) prompt v" for v
    by (simp add: cache_get_def)
  moreover have "configured ?cfg = configured cfg" "ai_world (?st p) = w" for p
    by (simp_all add: configured_def cdsl_ai_register_cache_driver_def init_registries_def)
  ultimately show ?thesis
    by (simp add: call_llm_api_def cache_put_def split: option.splits prod.splits)
qed

subsection \<open>Reviews\<close>

definition text_lines :: "string list \<Rightarrow> string" where
  "text_lines ls = concat (map (\<lambda>l. l @ [CHR 0x0A]) ls)"

text \<open>The score of the mock reviewer with the texts of its suggestions, which fit their buffer.\<close>

definition mock_score :: "string \<Rightarrow> int" where
  "mock_score dsl =
     (let has_metric = c_strstr dsl ''METRIC''
      in 10 + (if c_strstr dsl ''META'' then 15 else 0)
         + (if has_metric then 15 + (if c_strstr dsl ''CASE'' \<and> c_strstr dsl ''DEFAULT'' then 15 else 0)
            else if c_strstr dsl ''WHEN'' then 15 else 0)
         + (if c_strstr dsl ''is_critical'' then 10 else 0)
         + (if c_strstr dsl ''score('' then 10 else 0))"

definition mock_suggestions :: "string \<Rightarrow> string" where
  "mock_suggestions dsl =
     (if c_strstr dsl ''META'' then [] else ''Add META block with description and thresholds. '')
     @ (if c_strstr dsl ''METRIC'' \<and> \<not> (c_strstr dsl ''CASE'' \<and> c_strstr dsl ''DEFAULT'')
        then ''Add CASE and DEFAULT branches to each METRIC. '' else [])
     @ (if c_strstr dsl ''METRIC'' \<and> \<not> c_strstr dsl ''is_critical''
        then ''Mark critical items with is_critical=true. '' else [])"

definition mock_review :: "string \<Rightarrow> cdsl_ai_review" where
  "mock_review dsl =
     (let score = mock_score dsl;
          risk = (if score < 30 then 100 - score * 2 else 100 - score);
          approved = 40 \<le> score;
          suggestions = mock_suggestions dsl
      in \<lparr>rv_approved = approved,
          rv_risk_score = word_of_int (if risk < 0 then 0 else if 100 < risk then 100 else risk),
          rv_reason = Some (''Analysis score: '' @ dec_of_int score @ ''/75. ''
             @ (if approved then ''Rule structure is adequate.'' else ''Rule structure needs improvement.'')),
          rv_suggestions = Some (if suggestions \<noteq> [] then suggestions else ''No issues found.'')\<rparr>)"

text \<open>A review read from the answer of a language model; what is missing keeps its zero or default.\<close>

definition json_review :: "(f64 \<Rightarrow> i32) \<Rightarrow> cdsl_json option \<Rightarrow> cdsl_ai_review" where
  "json_review ub root =
     \<lparr>rv_approved = (case find_json_key root ''approved'' of Some (CDSL_JSON_BOOL b) \<Rightarrow> c_true b | _ \<Rightarrow> False),
      rv_risk_score = (case find_json_key root ''risk_score'' of Some (CDSL_JSON_NUMBER f) \<Rightarrow> f64_to_i32 ub f | _ \<Rightarrow> 0),
      rv_reason = Some (case find_json_key root ''reason'' of
          Some (CDSL_JSON_STRING s) \<Rightarrow> s | _ \<Rightarrow> ''LLM review completed''),
      rv_suggestions = Some (case find_json_key root ''suggestions'' of Some (CDSL_JSON_STRING s) \<Rightarrow> s | _ \<Rightarrow> [])\<rparr>"

definition review_prompt :: "string list \<Rightarrow> string \<Rightarrow> string" where
  \<open>review_prompt checks dsl =
     snprintf_buf 8192
       (text_lines (''You are a DSL rule safety reviewer. Analyze the following C-DSL rule for:'' # checks)
        @ text_lines [[], ''DSL code:'', dsl, []]
        @ ''Respond in JSON: {"approved":true/false,"risk_score":0-100,"reason":"...","suggestions":"..."}'')\<close>

definition default_review ::
  "(f64 \<Rightarrow> i32) \<Rightarrow> 'w transport \<Rightarrow> string option \<Rightarrow> 'w cdsl_ai_config option \<Rightarrow> 'w ai_state
    \<Rightarrow> (cdsl_ai_review option \<times> 'w ai_state) option" where
  "default_review ub tr dsl_code config st =
     (case dsl_code of None \<Rightarrow> Some (None, st) | Some dsl \<Rightarrow>
        let generic = Some (Some \<lparr>rv_approved = True, rv_risk_score = 10, rv_reason = Some ''Generic review passed'',
                               rv_suggestions = Some ''No suggestions''\<rparr>, st)
        in case config of
          None \<Rightarrow> generic
        | Some cfg \<Rightarrow>
            if ai_use_mock cfg then Some (Some (mock_review dsl), st)
            else if ai_api_key cfg = None then generic
            else (case call_llm_api tr
                     (review_prompt [''1. Logical contradictions (e.g., x > 10 AND x < 5)'',
                        ''2. Missing META blocks or weights'', ''3. Security risks (e.g., unauthorized actions)''] dsl)
                     config st of
                None \<Rightarrow> None
              | Some (None, st') \<Rightarrow> Some (Some (json_review ub None), st')
              | Some (Some response, st') \<Rightarrow>
                  map_option (\<lambda>root. (Some (json_review ub root), st')) (parse_json response)))"

definition cdsl_ai_review_call ::
  "(f64 \<Rightarrow> i32) \<Rightarrow> 'w transport \<Rightarrow> string option \<Rightarrow> cdsl_schema option \<Rightarrow> 'w cdsl_ai_config option \<Rightarrow> 'w ai_state
    \<Rightarrow> (cdsl_ai_review option \<times> 'w ai_state) option" where
  "cdsl_ai_review_call ub tr dsl_code schema config st =
     (case get_provider st (Option.bind config ai_provider_name) of
        Default_Provider \<Rightarrow> default_review ub tr dsl_code config st
      | External_Provider p \<Rightarrow>
          (case ep_review p dsl_code schema config (ai_world st) of (r, w) \<Rightarrow> Some (r, st\<lparr>ai_world := w\<rparr>)))"

text \<open>A review as JSON text; the escaped texts are cut to their buffers of 512 bytes.\<close>

definition text_or_empty :: "string option \<Rightarrow> string" where
  "text_or_empty s = (case s of None \<Rightarrow> [] | Some t \<Rightarrow> t)"

definition review_text :: "cdsl_ai_review \<Rightarrow> string" where
  \<open>review_text rv =
     snprintf_buf 2048
       (''{"approved":'' @ (if rv_approved rv then ''true'' else ''false'')
        @ '',"risk_score":'' @ dec_of_int (sint (rv_risk_score rv))
        @ '',"reason":"'' @ json_escape_small 0 512 (text_or_empty (rv_reason rv))
        @ ''","suggestions":"'' @ json_escape_small 0 512 (text_or_empty (rv_suggestions rv)) @ ''"}'')\<close>

text \<open>
  \<open>None\<close> also stands for the read through a null pointer when a provider gives no review.
\<close>

definition default_review_stream ::
  "(f64 \<Rightarrow> i32) \<Rightarrow> 'w transport \<Rightarrow> string option \<Rightarrow> cdsl_schema option \<Rightarrow> 'w cdsl_ai_config option \<Rightarrow> 'w ai_state
    \<Rightarrow> ((string option \<times> string list) \<times> 'w ai_state) option" where
  "default_review_stream ub tr dsl_code schema config st =
     (case dsl_code of None \<Rightarrow> Some ((None, []), st) | Some dsl \<Rightarrow>
        if (case config of None \<Rightarrow> False | Some cfg \<Rightarrow> ai_use_mock cfg)
        then (case cdsl_ai_review_call ub tr dsl_code schema config st of
                Some (Some rv, st') \<Rightarrow> Some ((Some (review_text rv), [review_text rv]), st')
              | _ \<Rightarrow> None)
        else call_llm_api_stream tr
               (review_prompt [''1. Logical contradictions'', ''2. Missing META blocks or weights'',
                  ''3. Security risks''] dsl) config st)"

definition cdsl_ai_review_stream ::
  "(f64 \<Rightarrow> i32) \<Rightarrow> 'w transport \<Rightarrow> string option \<Rightarrow> cdsl_schema option \<Rightarrow> 'w cdsl_ai_config option \<Rightarrow> 'w ai_state
    \<Rightarrow> ((string option \<times> string list) \<times> 'w ai_state) option" where
  "cdsl_ai_review_stream ub tr dsl_code schema config st =
     (case get_provider st (Option.bind config ai_provider_name) of
        Default_Provider \<Rightarrow> default_review_stream ub tr dsl_code schema config st
      | External_Provider p \<Rightarrow>
          (case ep_review_stream p dsl_code schema config (ai_world st) of (r, w) \<Rightarrow> Some (r, st\<lparr>ai_world := w\<rparr>)))"

lemma escape_small_complete:
  "j + length (concat (map json_escape_char t)) + 2 < sz \<Longrightarrow> json_escape_small j sz t = concat (map json_escape_char t)"
  by (induction t arbitrary: j) simp_all

text \<open>Characters that stand for themselves in JSON strings.\<close>

definition literal_text :: "string \<Rightarrow> bool" where
  "literal_text t \<longleftrightarrow> list_all (\<lambda>c. json_escape_char c = [c] \<and> escape_char c = [c] \<and> c \<noteq> CHR 0x00) t"

lemma literal_escapes:
  assumes "literal_text t"
  shows "concat (map json_escape_char t) = t" and "quoted t = CHR 0x22 # t @ [CHR 0x22]" and "c_text t"
  using assms by (induction t) (auto simp: literal_text_def quoted_def c_text_def)

lemma literal_append: "literal_text (s @ t) \<longleftrightarrow> literal_text s \<and> literal_text t"
  by (simp add: literal_text_def)

lemma literal_dec: "literal_text (dec_of_int i)"
proof -
  have digit: "c_isdigit c \<Longrightarrow> json_escape_char c = [c] \<and> escape_char c = [c] \<and> c \<noteq> CHR 0x00" for c
  proof -
    assume c: "c_isdigit c"
    then have "c \<noteq> CHR 0x22" "c \<noteq> CHR 0x5C" "c \<noteq> CHR 0x0A" "c \<noteq> CHR 0x0D" "c \<noteq> CHR 0x09" "c \<noteq> CHR 0x08"
      "c \<noteq> CHR 0x0C" "c \<noteq> CHR 0x00" "\<not> char_code c < 32"
      by (auto simp: c_isdigit_def char_code_def)
    then show ?thesis by (simp add: json_escape_char_def escape_char_def)
  qed
  have "literal_text (dec_of_nat n)" for n
    using dec_of_nat_digits [of n] digit by (simp add: literal_text_def list_all_iff)
  then show ?thesis by (simp add: dec_of_int_def literal_text_def json_escape_char_def escape_char_def char_code_def)
qed

lemma mock_score_bounds: "10 \<le> mock_score dsl \<and> mock_score dsl \<le> 75"
  by (simp add: mock_score_def Let_def)

lemma two_digits: "length (dec_of_int i) = 2" if "10 \<le> i" "i < 100" for i
proof -
  have "length (dec_of_nat n) = 2" if "10 \<le> n" "n < 100" for n
    using that by (subst dec_of_nat.simps, subst dec_of_nat.simps) auto
  from this [of "nat i"] show ?thesis using that by (simp add: dec_of_int_def nat_less_iff le_nat_iff)
qed

text \<open>The document a review is meant to be.\<close>

definition review_json :: "cdsl_ai_review \<Rightarrow> cdsl_json" where
  "review_json rv = CDSL_JSON_OBJECT
     [(''approved'', CDSL_JSON_BOOL (c_bool (rv_approved rv))),
      (''risk_score'', CDSL_JSON_NUMBER (f64_of_int (sint (rv_risk_score rv)))),
      (''reason'', CDSL_JSON_STRING (text_or_empty (rv_reason rv))),
      (''suggestions'', CDSL_JSON_STRING (text_or_empty (rv_suggestions rv)))]"

lemma json_review_back:
  assumes "rv_reason rv = Some a" and "rv_suggestions rv = Some b"
  shows "json_review ub (Some (review_json rv)) = rv"
  using assms
  by (cases rv) (simp add: json_review_def review_json_def find_json_key_def text_or_empty_def f64_to_i32_def
      f64_isfinite_of_int in_i32_exact)

lemma mock_texts:
  "\<exists>a b. rv_reason (mock_review dsl) = Some a \<and> literal_text a \<and> length a \<le> 60
     \<and> rv_suggestions (mock_review dsl) = Some b \<and> literal_text b \<and> length b \<le> 160"
proof -
  have "literal_text ''Analysis score: ''" "literal_text ''/75. ''" "literal_text ''Rule structure is adequate.''"
    "literal_text ''Rule structure needs improvement.''" "literal_text ''No issues found.''"
    "literal_text ''Add META block with description and thresholds. ''"
    "literal_text ''Add CASE and DEFAULT branches to each METRIC. ''"
    "literal_text ''Mark critical items with is_critical=true. ''" "literal_text []"
    by (simp_all add: literal_text_def json_escape_char_def escape_char_def char_code_def)
  moreover have "length (dec_of_int (mock_score dsl)) = 2"
    using mock_score_bounds [of dsl] by (intro two_digits) auto
  ultimately show ?thesis
    by (simp add: mock_review_def Let_def literal_append literal_dec mock_suggestions_def del: append_Cons append.simps)
qed

lemma review_text_json:
  assumes "rv_reason rv = Some a" and "literal_text a" and "length a \<le> 60"
    and "rv_suggestions rv = Some b" and "literal_text b" and "length b \<le> 160"
    and "length (dec_of_int (sint (rv_risk_score rv))) \<le> 11"
  shows "review_text rv = json_text (review_json rv)"
proof -
  have small: "json_escape_small 0 512 a = a" "json_escape_small 0 512 b = b"
    using assms escape_small_complete [of 0 a 512] escape_small_complete [of 0 b 512]
    by (simp_all add: literal_escapes)
  have key: "quoted ''approved'' = CHR 0x22 # ''approved'' @ [CHR 0x22]"
    "quoted ''risk_score'' = CHR 0x22 # ''risk_score'' @ [CHR 0x22]"
    "quoted ''reason'' = CHR 0x22 # ''reason'' @ [CHR 0x22]"
    "quoted ''suggestions'' = CHR 0x22 # ''suggestions'' @ [CHR 0x22]"
    by (simp_all add: quoted_def escape_char_def char_code_def)
  show ?thesis
    using assms
    by (simp add: review_text_def review_json_def small key text_or_empty_def literal_escapes snprintf_buf_def)
qed

lemma mock_risk: "0 \<le> sint (rv_risk_score (mock_review dsl)) \<and> sint (rv_risk_score (mock_review dsl)) < 100"
proof -
  let ?s = "mock_score dsl"
  let ?r = "if ?s < 30 then 100 - ?s * 2 else 100 - ?s"
  have r: "0 \<le> ?r" "?r < 100" using mock_score_bounds [of dsl] by auto
  then have "sint (word_of_int ?r :: i32) = ?r"
    by (intro sint_word_of_int_i32) (simp add: in_i32_def)
  with r show ?thesis by (simp add: mock_review_def Let_def)
qed

text \<open>
  Claim C30. The text the mock reviewer streams is JSON, handed to the callback in one piece, and it is
  read back as the review it stands for, by the code that reads the reviews of a language model.
\<close>

theorem review_stream_roundtrip:
  assumes "ai_use_mock cfg" and "get_provider st (ai_provider_name cfg) = Default_Provider"
  shows "\<exists>json root. cdsl_ai_review_stream ub tr (Some dsl) schema (Some cfg) st = Some ((Some json, [json]), st)
    \<and> parse_json json = Some root
    \<and> cdsl_ai_review_call ub tr (Some dsl) schema (Some cfg) st = Some (Some (json_review ub root), st)"
proof -
  let ?rv = "mock_review dsl"
  obtain a b where ab: "rv_reason ?rv = Some a" "literal_text a" "length a \<le> 60"
      "rv_suggestions ?rv = Some b" "literal_text b" "length b \<le> 160"
    using mock_texts by blast
  have "length (dec_of_int i) \<le> 2" if "0 \<le> i" "i < 100" for i
    using that two_digits [of i] by (cases "10 \<le> i") (simp_all add: dec_of_int_def dec_of_nat.simps nat_less_iff)
  then have t: "review_text ?rv = json_text (review_json ?rv)"
    using mock_risk [of dsl] review_text_json [OF ab] by fastforce
  obtain items where items: "review_json ?rv = CDSL_JSON_OBJECT items" by (simp add: review_json_def)
  have "printable CDSL_JSON_MAX_DEPTH (review_json ?rv)"
    using ab by (simp add: review_json_def CDSL_JSON_MAX_DEPTH_def text_or_empty_def literal_escapes(3) [unfolded c_text_def] c_text_def c_bool_cases)
  then have "parse_json (json_text (review_json ?rv)) = Some (Some (review_json ?rv))"
    unfolding items using parse_event [of items "[]"] by (simp only: append_Nil2)
  then show ?thesis
    using assms json_review_back [OF ab(1,4), of ub]
    by (simp add: cdsl_ai_review_stream_def cdsl_ai_review_call_def default_review_stream_def default_review_def t)
qed

lemma review_stream_roundtrip_witness:
  "\<exists>json. cdsl_ai_review_stream (\<lambda>_. 0) (Popen (\<lambda>cmd w. (None, w))) (Some ''WHEN'') None (Some (cdsl_ai_config_default))
      (init_registries ()) = Some ((Some json, [json]), init_registries ())"
proof -
  have "get_provider (init_registries ()) (ai_provider_name (cdsl_ai_config_default :: unit cdsl_ai_config)) = Default_Provider"
    by (simp add: get_provider_def init_registries_def cdsl_ai_config_default_def hm.get_put hm_ok_create)
  then show ?thesis
    using review_stream_roundtrip [of cdsl_ai_config_default "init_registries ()" "\<lambda>_. 0" "Popen (\<lambda>cmd w. (None, w))" "''WHEN''" None]
    by (auto simp: cdsl_ai_config_default_def)
qed

text \<open>A rejected rule may be rated less risky than an accepted one.\<close>

lemma mock_risk_not_monotone:
  "\<not> rv_approved (mock_review ''META'') \<and> sint (rv_risk_score (mock_review ''META'')) = 50
     \<and> rv_approved (mock_review ''META METRIC'') \<and> sint (rv_risk_score (mock_review ''META METRIC'')) = 60"
  by code_simp

end
