(* ===== verification/Cdsl_Ai_Translate.thy ===== *)
theory Cdsl_Ai_Translate
  imports Cdsl_Ai
begin

section \<open>Translating natural language to rules (\<open>src/ai/bridge.c\<close>)\<close>

text \<open>
  The prompt with the variables and actions of the schema, the text of a rule cut out of the answer,
  and the mock translator that writes a rule itself. Texts are printed into fixed buffers; the
  lemmas say that they are cut off at the end and never overrun. An action that was registered
  twice is listed with its newest signature.
\<close>

subsection \<open>Buffers\<close>

text \<open>\<open>snprintf(buf + strlen(buf), sizeof(buf) - strlen(buf), ...)\<close>.\<close>

definition sn_append :: "nat \<Rightarrow> string \<Rightarrow> string \<Rightarrow> string" where
  "sn_append sz s buf = buf @ snprintf_buf (sz - length buf) s"

text \<open>A buffer with the position of its end, which runs on when the text is cut off.\<close>

definition safe_append :: "nat \<Rightarrow> string \<Rightarrow> string \<times> nat \<Rightarrow> string \<times> nat" where
  "safe_append sz s b =
     (case b of (buf, pos) \<Rightarrow>
        if sz - 1 \<le> pos then (buf, pos)
        else (take pos buf @ snprintf_buf (sz - pos) s, (if 0 < length s then pos + length s else pos)))"

subsection \<open>Schema prompt\<close>

definition schema_vars :: "cdsl_schema option \<Rightarrow> (string \<times> cdsl_type) list" where
  "schema_vars schema =
     (case schema of None \<Rightarrow> []
      | Some s \<Rightarrow> map (\<lambda>n. (n, case find_var s n of None \<Rightarrow> CDSL_TYPE_VOID | Some v \<Rightarrow> vs_type v)) (sc_vars s))"

definition schema_actions :: "cdsl_schema option \<Rightarrow> (string \<times> cdsl_action_schema) list" where
  "schema_actions schema =
     (case schema of None \<Rightarrow> []
      | Some s \<Rightarrow> concat (map (\<lambda>n. case find_action s n of None \<Rightarrow> [] | Some a \<Rightarrow> [(n, a)]) (sc_actions s)))"

definition count_schema_vars :: "cdsl_schema option \<Rightarrow> int" where
  "count_schema_vars schema = int (length (schema_vars schema))"

definition var_pieces :: "string \<times> cdsl_type \<Rightarrow> string list" where
  "var_pieces v = [''  - '' @ fst v @ '' ('' @ cdsl_type_name (snd v) @ '')'' @ [CHR 0x0A]]"

fun arg_pieces :: "nat \<Rightarrow> cdsl_type list \<Rightarrow> string list" where
  "arg_pieces i [] = []"
| "arg_pieces i (t # ts) = (if 0 < i then ['', ''] else []) @ [cdsl_type_name t] @ arg_pieces (i + 1) ts"

definition action_pieces :: "string \<times> cdsl_action_schema \<Rightarrow> string list" where
  "action_pieces a =
     [''  - '' @ fst a @ ''(''] @ arg_pieces 0 (as_arg_types (snd a))
     @ ['') -> '' @ cdsl_type_name (as_return_type (snd a)) @ [CHR 0x0A]]"

definition schema_pieces :: "cdsl_schema option \<Rightarrow> string list" where
  "schema_pieces schema =
     [''Available variables:'' @ [CHR 0x0A]] @ concat (map var_pieces (schema_vars schema))
     @ [[CHR 0x0A] @ ''Available actions:'' @ [CHR 0x0A]] @ concat (map action_pieces (schema_actions schema))"

definition build_schema_prompt :: "nat \<Rightarrow> cdsl_schema option \<Rightarrow> string \<Rightarrow> string" where
  "build_schema_prompt sz schema buf = fst (fold (safe_append sz) (schema_pieces schema) (buf, length buf))"

text \<open>The buffer holds the beginning of a text, and the position its end or one past the buffer.\<close>

definition holds_prefix :: "nat \<Rightarrow> string \<times> nat \<Rightarrow> string \<Rightarrow> bool" where
  "holds_prefix sz b t \<longleftrightarrow> fst b = take (sz - 1) t \<and> (snd b = length t \<or> sz - 1 \<le> snd b \<and> sz - 1 \<le> length t)"

lemma safe_append_prefix:
  assumes "1 < sz" and "holds_prefix sz b t"
  shows "holds_prefix sz (safe_append sz s b) (t @ s)"
proof (cases b)
  case (Pair buf pos)
  then show ?thesis
    using assms by (cases "sz - 1 \<le> pos") (auto simp: safe_append_def snprintf_buf_def holds_prefix_def)
qed

lemma safe_appends_prefix:
  "1 < sz \<Longrightarrow> holds_prefix sz b t \<Longrightarrow> holds_prefix sz (fold (safe_append sz) ss b) (t @ concat ss)"
proof (induction ss arbitrary: b t)
  case (Cons s ss)
  from Cons.IH [OF Cons.prems(1) safe_append_prefix [OF Cons.prems, of s]] show ?case by simp
qed simp

text \<open>Variables and actions are listed completely, up to the end of the buffer.\<close>

lemma schema_prompt_text:
  assumes "1 < sz" and "length buf < sz"
  shows "build_schema_prompt sz schema buf = take (sz - 1) (buf @ concat (schema_pieces schema))"
proof -
  have "holds_prefix sz (buf, length buf) buf" using assms(2) by (simp add: holds_prefix_def)
  from safe_appends_prefix [OF assms(1) this, of "schema_pieces schema"] show ?thesis
    by (simp add: build_schema_prompt_def holds_prefix_def)
qed

lemma sn_append_take: "length buf < sz \<Longrightarrow> sn_append sz s buf = take (sz - 1) (buf @ s)"
  by (simp add: sn_append_def snprintf_buf_def)

lemma sn_append_fits: "length buf < sz \<Longrightarrow> length (sn_append sz s buf) < sz"
  by (simp add: sn_append_def snprintf_buf_def)

subsection \<open>Keywords\<close>

definition before_word :: "char \<Rightarrow> bool" where
  "before_word c \<longleftrightarrow> c \<in> {CHR '' '', CHR 0x09, CHR 0x0A, CHR '','', CHR ''(''}"

definition after_word :: "string \<Rightarrow> bool" where
  "after_word r \<longleftrightarrow> r = [] \<or> hd r \<in> {CHR '' '', CHR 0x09, CHR 0x0A, CHR '','', CHR ''.'', CHR '')''}"

text \<open>The loop over the occurrences of the word, as a loop over the positions of the text.\<close>

fun keyword_from :: "char \<Rightarrow> string \<Rightarrow> string \<Rightarrow> bool" where
  "keyword_from before [] word = False"
| "keyword_from before (c # cs) word =
     (if c_strncmp (c # cs) word (length word) = 0 \<and> before_word before \<and> after_word (drop (length word) (c # cs))
      then True else keyword_from c cs word)"

definition has_keyword :: "string \<Rightarrow> string \<Rightarrow> bool" where
  "has_keyword text word = keyword_from (CHR '' '') text word"

lemma ex_list: "(\<exists>xs. P xs) \<longleftrightarrow> P [] \<or> (\<exists>x xs. P (x # xs))"
  by (metis neq_Nil_conv)

lemma strncmp_prefix: "c_strncmp s w (length w) = 0 \<longleftrightarrow> s = w @ drop (length w) s"
  by (simp add: c_strncmp_def) (metis append_take_drop_id append_eq_conv_conj)

lemma keyword_from_iff:
  assumes "w \<noteq> []"
  shows "keyword_from b s w \<longleftrightarrow>
    (\<exists>pre post. s = pre @ w @ post \<and> before_word (last (b # pre)) \<and> after_word post)"
proof (induction s arbitrary: b)
  case (Cons c cs)
  have here: "c_strncmp (c # cs) w (length w) = 0 \<and> before_word b \<and> after_word (drop (length w) (c # cs))
      \<longleftrightarrow> (\<exists>post. c # cs = w @ post \<and> before_word b \<and> after_word post)"
    unfolding strncmp_prefix by (metis append_eq_conv_conj)
  have "keyword_from b (c # cs) w \<longleftrightarrow>
      (\<exists>post. c # cs = w @ post \<and> before_word b \<and> after_word post) \<or> keyword_from c cs w"
    by (simp only: keyword_from.simps here split: if_split) blast
  then show ?case
    unfolding Cons.IH ex_list [of "\<lambda>pre. \<exists>post. c # cs = pre @ w @ post \<and> before_word (last (b # pre)) \<and> after_word post"]
    by simp
qed (use assms in simp)

text \<open>A word counts as a keyword exactly where blanks or punctuation stand around it.\<close>

lemma has_keyword_iff:
  assumes "word \<noteq> []"
  shows "has_keyword t word \<longleftrightarrow>
    (\<exists>pre post. t = pre @ word @ post \<and> (pre = [] \<or> before_word (last pre)) \<and> after_word post)"
  unfolding has_keyword_def keyword_from_iff [OF assms] by (auto simp: before_word_def)

subsection \<open>Cutting the rule out of an answer\<close>

text \<open>The rest of a text from the first occurrence of another.\<close>

definition extract_dsl :: "string \<Rightarrow> string" where
  "extract_dsl response =
     (case find_text response ''```dsl'' of
        None \<Rightarrow> response
      | Some found \<Rightarrow>
          let start = dropWhile (\<lambda>c. c = CHR 0x0A) (drop 6 found)
          in (case find_text start ''```'' of
                None \<Rightarrow> response
              | Some end_mark \<Rightarrow> take (length start - length end_mark) start))"

text \<open>The first code block of an answer is what is translated to, without the line break before it.\<close>

lemma code_block_extracted:
  assumes "\<not> c_strstr (pre @ ''```ds'') ''```dsl''" and "\<not> c_strstr (code @ ''``'') ''```''"
    and "code \<noteq> []" and "hd code \<noteq> CHR 0x0A"
  shows "extract_dsl (pre @ ''```dsl'' @ [CHR 0x0A] @ code @ ''```'' @ post) = code"
proof -
  have "find_text (pre @ ''```dsl'' @ (CHR 0x0A # code @ ''```'' @ post)) ''```dsl''
      = Some (''```dsl'' @ CHR 0x0A # code @ ''```'' @ post)"
    by (rule find_text_first) (use assms(1) in simp_all)
  moreover have "find_text (code @ ''```'' @ post) ''```'' = Some (''```'' @ post)"
    by (rule find_text_first) (use assms(2) in simp_all)
  moreover have "dropWhile (\<lambda>c. c = CHR 0x0A) (CHR 0x0A # code @ t) = code @ t" for t
    using assms(3,4) by (cases code) simp_all
  ultimately show ?thesis by (simp add: extract_dsl_def)
qed

subsection \<open>The mock translator\<close>

definition c_isalpha :: "char \<Rightarrow> bool" where
  "c_isalpha c \<longleftrightarrow> (97 \<le> char_code c \<and> char_code c \<le> 122) \<or> (65 \<le> char_code c \<and> char_code c \<le> 90)"

text \<open>The first word of the request in lower case, at most 32 letters.\<close>

fun rule_name_from :: "nat \<Rightarrow> string \<Rightarrow> string" where
  "rule_name_from rn [] = []"
| "rule_name_from rn (c # cs) =
     (if c = CHR '' '' \<or> c = CHR '','' \<or> c = CHR ''.'' \<or> 32 \<le> rn then []
      else if c_isalpha c \<or> c = CHR ''_'' then c_tolower c # rule_name_from (rn + 1) cs
      else rule_name_from rn cs)"

definition generated_name :: "string \<Rightarrow> string" where
  "generated_name nl =
     (let name = rule_name_from 0 (dropWhile (\<lambda>c. c = CHR '' '') nl) in if name = [] then ''rule'' else name)"

definition generated_description :: "string \<Rightarrow> string option \<Rightarrow> string" where
  "generated_description nl business_context =
     (let d = safe_append 256 nl ([], 0)
      in fst (case business_context of None \<Rightarrow> d | Some bc \<Rightarrow> safe_append 256 ('' | context: '' @ bc) d))"

definition fallback_rule :: string where
  \<open>fallback_rule = text_lines
     [''RULE generated_rule {'', ''    META {'', ''        description = "Auto-generated rule"'',
      ''        pass_threshold = "80"'', ''        partial_threshold = "50"'', ''    }'',
      ''    METRIC score {'', ''        META { description = "Score metric" weight = "100" }'',
      ''        DEFAULT score(0)'', ''    }'', ''}'']\<close>

definition simple_rule_text :: "string \<Rightarrow> string \<Rightarrow> string \<times> cdsl_type \<Rightarrow> string" where
  \<open>simple_rule_text name desc v =
     snprintf_buf 4096 (text_lines
       [''RULE '' @ name @ '' {'', ''    META {'', ''        description = "'' @ desc @ ''"'', ''    }'',
        ''    WHEN '' @ fst v @ '' '' @ (if snd v = CDSL_TYPE_INT \<or> snd v = CDSL_TYPE_FLOAT then ''>'' else ''=='')
          @ '' '' @ (if snd v = CDSL_TYPE_STRING then ''"expected"''
                     else if snd v = CDSL_TYPE_BOOL then ''true'' else ''0''),
        ''    THEN record_warning("triggered")'', ''}''])\<close>

text \<open>Behind the last dot of a name, if there is one (\<open>strrchr\<close>).\<close>

definition after_dot :: "string \<Rightarrow> string option" where
  "after_dot name = (if CHR ''.'' \<in> set name then Some (rev (takeWhile (\<lambda>c. c \<noteq> CHR ''.'') (rev name))) else None)"

definition metric_name_text :: "nat \<Rightarrow> string \<Rightarrow> string" where
  "metric_name_text i name =
     snprintf_buf 64 (''m'' @ dec_of_int (int i + 1) @ (case after_dot name of None \<Rightarrow> [] | Some d \<Rightarrow> ''_'' @ d))"

definition metric_cases_text :: "string \<times> cdsl_type \<Rightarrow> string \<Rightarrow> string" where
  \<open>metric_cases_text v weight =
     (let case_of = (\<lambda>cond. text_lines [''        CASE '' @ fst v @ cond @ '' THEN score('' @ weight @ '')'',
                                        ''        DEFAULT score(0)''])
      in if snd v = CDSL_TYPE_INT then case_of '' >= 0''
         else if snd v = CDSL_TYPE_FLOAT then case_of '' >= 0.0''
         else if snd v = CDSL_TYPE_BOOL then case_of '' == true''
         else if snd v = CDSL_TYPE_STRING then case_of '' != ""''
         else text_lines [''        DEFAULT score('' @ weight @ '')''])\<close>

definition metric_text :: "int \<Rightarrow> nat \<Rightarrow> string \<times> cdsl_type \<Rightarrow> string \<Rightarrow> string" where
  \<open>metric_text n_vars i v buf =
     (let weight = dec_of_int (100 div (if n_vars < 1 then 1 else n_vars))
      in sn_append 8192 (text_lines [''    }'']) (sn_append 8192 (metric_cases_text v weight)
           (sn_append 8192
              (text_lines [''    METRIC '' @ metric_name_text i (fst v) @ '' {'', ''        META {'',
                 ''            description = "Check '' @ fst v @ ''"'',
                 ''            weight = "'' @ weight @ ''"''
                   @ (if i = 0 then [CHR 0x0A] @ ''            is_critical = "true"'' else []),
                 ''        }'']) buf)))\<close>

fun metrics_text :: "int \<Rightarrow> nat \<Rightarrow> (string \<times> cdsl_type) list \<Rightarrow> string \<Rightarrow> string" where
  "metrics_text n_vars i [] buf = buf"
| "metrics_text n_vars i (v # vs) buf =
     (if i < 8 then metrics_text n_vars (i + 1) vs (metric_text n_vars i v buf) else buf)"

definition mock_translate_generic :: "string \<Rightarrow> cdsl_schema option \<Rightarrow> string option \<Rightarrow> string" where
  \<open>mock_translate_generic nl schema business_context =
     (let is_simple = has_keyword nl ''when'' \<or> has_keyword nl ''if'' \<or> has_keyword nl ''WHEN'' \<or> has_keyword nl ''IF'';
          n_vars = count_schema_vars schema;
          desc = generated_description nl business_context
      in case schema_vars schema of
           [] \<Rightarrow> fallback_rule
         | first_var # rest \<Rightarrow>
             if is_simple then simple_rule_text (generated_name nl) desc first_var
             else sn_append 8192 (text_lines [''}''])
                    (metrics_text n_vars 0 (first_var # rest)
                       (snprintf_buf 8192 (text_lines
                          [''RULE '' @ generated_name nl @ '' {'', ''    META {'',
                           ''        description = "'' @ desc @ ''"'', ''        pass_threshold = "80"'',
                           ''        partial_threshold = "50"'', ''    }'']))))\<close>

subsection \<open>Translation\<close>

definition syntax_reference :: "string \<Rightarrow> string \<Rightarrow> string \<Rightarrow> string" where
  \<open>syntax_reference role task functions =
     text_lines
       [''You are a C-DSL rule '' @ role @ ''. Convert the following '' @ task @ '' into a valid C-DSL rule.'', [],
        ''## C-DSL Syntax Reference'',
        ''- Simple rule: RULE name { META { description = "..." } WHEN <expr> THEN action("arg") }'',
        ''- Scoring rule: RULE name { META { description = "..." pass_threshold = "80" ''
          @ ''partial_threshold = "50" } METRIC m { META { weight = "40" is_critical = ''
          @ ''"true" } CASE <expr> THEN score(N) DEFAULT score(0) } }'',
        ''- Operators: == != < > <= >= AND OR NOT'', ''- Keywords: true false'',
        ''- Functions: score(N), fail_metric(N, "reason") '' @ functions, []]\<close>

definition context_prompt :: "'w cdsl_ai_config option \<Rightarrow> string \<Rightarrow> string" where
  "context_prompt config prompt =
     (case Option.bind config ai_business_context of
        None \<Rightarrow> prompt
      | Some bc \<Rightarrow> sn_append 16384 (text_lines [[], ''Additional business context:'', bc]) prompt)"

definition translate_prompt :: "string \<Rightarrow> cdsl_schema option \<Rightarrow> 'w cdsl_ai_config option \<Rightarrow> string" where
  "translate_prompt nl schema config =
     sn_append 16384
       (text_lines [[], ''User request: '' @ nl, []]
        @ ''Output ONLY the DSL code wrapped in a ```dsl code block. ''
        @ ''Use the exact variable names listed above. ''
        @ ''Choose appropriate threshold values based on the business context.'')
       (context_prompt config (build_schema_prompt 16384 schema
          (snprintf_buf 16384 (syntax_reference ''engine'' ''natural language description'' ''and registered actions''))))"

definition translate_stream_prompt :: "string \<Rightarrow> cdsl_schema option \<Rightarrow> 'w cdsl_ai_config option \<Rightarrow> string" where
  "translate_stream_prompt nl schema config =
     sn_append 16384
       (text_lines [[], ''User request: '' @ nl, []] @ ''Output ONLY the DSL code in a ```dsl code block.'')
       (context_prompt config (build_schema_prompt 16384 schema
          (snprintf_buf 16384 (syntax_reference ''translator'' ''request'' ''etc.''))))"

definition default_translate ::
  "'w transport \<Rightarrow> string option \<Rightarrow> cdsl_schema option \<Rightarrow> 'w cdsl_ai_config option \<Rightarrow> 'w ai_state
    \<Rightarrow> (string option \<times> 'w ai_state) option" where
  "default_translate tr natural_language schema config st =
     (case natural_language of None \<Rightarrow> Some (None, st) | Some nl \<Rightarrow>
        let mock = mock_translate_generic nl schema (Option.bind config ai_business_context)
        in case config of
          None \<Rightarrow> Some (Some mock, st)
        | Some cfg \<Rightarrow>
            if ai_use_mock cfg \<or> ai_api_key cfg = None then Some (Some mock, st)
            else (case call_llm_api tr (translate_prompt nl schema config) config st of
                None \<Rightarrow> None
              | Some (None, st') \<Rightarrow> Some (Some mock, st')
              | Some (Some response, st') \<Rightarrow> Some (Some (extract_dsl response), st')))"

definition default_translate_stream ::
  "'w transport \<Rightarrow> string option \<Rightarrow> cdsl_schema option \<Rightarrow> 'w cdsl_ai_config option \<Rightarrow> 'w ai_state
    \<Rightarrow> ((string option \<times> string list) \<times> 'w ai_state) option" where
  "default_translate_stream tr natural_language schema config st =
     (case natural_language of None \<Rightarrow> Some ((None, []), st) | Some nl \<Rightarrow>
        if (case config of None \<Rightarrow> False | Some cfg \<Rightarrow> ai_use_mock cfg)
        then (let mock = mock_translate_generic nl schema (Option.bind config ai_business_context)
              in Some ((Some mock, [mock]), st))
        else call_llm_api_stream tr (translate_stream_prompt nl schema config) config st)"

definition cdsl_ai_translate ::
  "'w transport \<Rightarrow> string option \<Rightarrow> cdsl_schema option \<Rightarrow> 'w cdsl_ai_config option \<Rightarrow> 'w ai_state
    \<Rightarrow> (string option \<times> 'w ai_state) option" where
  "cdsl_ai_translate tr natural_language schema config st =
     (case get_provider st (Option.bind config ai_provider_name) of
        Default_Provider \<Rightarrow> default_translate tr natural_language schema config st
      | External_Provider p \<Rightarrow>
          (case ep_translate p natural_language schema config (ai_world st) of (r, w) \<Rightarrow> Some (r, st\<lparr>ai_world := w\<rparr>)))"

definition cdsl_ai_translate_stream ::
  "'w transport \<Rightarrow> string option \<Rightarrow> cdsl_schema option \<Rightarrow> 'w cdsl_ai_config option \<Rightarrow> 'w ai_state
    \<Rightarrow> ((string option \<times> string list) \<times> 'w ai_state) option" where
  "cdsl_ai_translate_stream tr natural_language schema config st =
     (case get_provider st (Option.bind config ai_provider_name) of
        Default_Provider \<Rightarrow> default_translate_stream tr natural_language schema config st
      | External_Provider p \<Rightarrow>
          (case ep_translate_stream p natural_language schema config (ai_world st) of (r, w) \<Rightarrow> Some (r, st\<lparr>ai_world := w\<rparr>)))"

text \<open>Prompts fit their buffer, and a request is always answered, by the mock translator if need be.\<close>

lemma schema_prompt_fits: "1 < sz \<Longrightarrow> length buf < sz \<Longrightarrow> length (build_schema_prompt sz schema buf) < sz"
  by (simp add: schema_prompt_text)

lemma context_prompt_fits: "length p < 16384 \<Longrightarrow> length (context_prompt config p) < 16384"
  by (simp add: context_prompt_def sn_append_fits split: option.splits)

lemma translate_prompt_fits:
  "length (translate_prompt nl schema config) < 16384 \<and> length (translate_stream_prompt nl schema config) < 16384"
proof -
  have "length (build_schema_prompt 16384 schema (snprintf_buf 16384 t)) < 16384" for t
    by (rule schema_prompt_fits) (simp_all add: snprintf_buf_def)
  then show ?thesis
    unfolding translate_prompt_def translate_stream_prompt_def by (intro conjI sn_append_fits context_prompt_fits)
qed

lemma translation_answers:
  "default_translate tr (Some nl) schema config st = Some (r, st') \<Longrightarrow> r \<noteq> None"
  by (auto simp: default_translate_def Let_def split: option.splits if_splits prod.splits)

end
