(* ===== verification/Cdsl_Strbuf.thy ===== *)
theory Cdsl_Strbuf
  imports Cdsl_Ast
begin

section \<open>String buffers and printed doubles\<close>

text \<open>
  The string buffer of \<open>include/cdsl/util/strbuf.h\<close> and the two formats the generators print
  doubles with, \<open>%.17g\<close> and \<open>%.2f\<close>, exact on the value of the double with ties to even.
\<close>

subsection \<open>The buffer\<close>

record cdsl_strbuf =
  sb_buf :: string
  sb_size :: nat
  sb_cap :: nat

definition cdsl_strbuf_init :: "nat \<Rightarrow> cdsl_strbuf" where
  "cdsl_strbuf_init initial_cap =
     \<lparr>sb_buf = [], sb_size = 0, sb_cap = (if 0 < initial_cap then initial_cap else 128)\<rparr>"

text \<open>
  \<open>s\<close> is the formatted text. The second \<open>vsnprintf\<close> writes at the end of the buffer and is bounded
  by what is left of it.
\<close>

definition cdsl_strbuf_printf :: "string \<Rightarrow> cdsl_strbuf \<Rightarrow> cdsl_strbuf" where
  "cdsl_strbuf_printf s sb =
     (let n = length s;
          cap = (if sb_cap sb < sb_size sb + n + 1 then sb_size sb + n + 1 + 1024 else sb_cap sb)
      in sb\<lparr>sb_cap := cap,
            sb_buf := take (sb_size sb) (sb_buf sb) @ take (cap - sb_size sb - 1) s,
            sb_size := sb_size sb + n\<rparr>)"

definition strbuf_ok :: "cdsl_strbuf \<Rightarrow> bool" where
  "strbuf_ok sb \<longleftrightarrow> sb_size sb = length (sb_buf sb) \<and> sb_size sb < sb_cap sb"

lemma strbuf_init_ok [simp]: "strbuf_ok (cdsl_strbuf_init n)"
  by (simp add: strbuf_ok_def cdsl_strbuf_init_def)

lemma strbuf_printf:
  assumes "strbuf_ok sb"
  shows "strbuf_ok (cdsl_strbuf_printf s sb) \<and> sb_buf (cdsl_strbuf_printf s sb) = sb_buf sb @ s"
  using assms by (auto simp: strbuf_ok_def cdsl_strbuf_printf_def Let_def)

lemma strbuf_printfs:
  "strbuf_ok sb \<Longrightarrow> strbuf_ok (fold cdsl_strbuf_printf ss sb)
     \<and> sb_buf (fold cdsl_strbuf_printf ss sb) = sb_buf sb @ concat ss"
proof (induction ss arbitrary: sb)
  case (Cons s ss)
  with Cons.IH [of "cdsl_strbuf_printf s sb"] strbuf_printf [of sb s] show ?case by simp
qed simp

text \<open>Nothing is lost: a fresh buffer holds what has been printed, in order.\<close>

definition strbuf_text :: "nat \<Rightarrow> string list \<Rightarrow> string" where
  "strbuf_text cap ss = sb_buf (fold cdsl_strbuf_printf ss (cdsl_strbuf_init cap))"

lemma strbuf_text [simp]: "strbuf_text cap ss = concat ss"
proof -
  have "sb_buf (cdsl_strbuf_init cap) = []" by (simp add: cdsl_strbuf_init_def)
  with strbuf_printfs [of "cdsl_strbuf_init cap" ss] show ?thesis by (simp add: strbuf_text_def)
qed

definition out_line :: "string \<Rightarrow> string" where
  "out_line s = s @ [CHR 0x0A]"

subsection \<open>Files\<close>

text \<open>
  The file system: which files can be opened for writing, and what they hold.
\<close>

record files =
  fs_can_write :: "string \<Rightarrow> bool"
  fs_text :: "string \<Rightarrow> string option"

definition write_file :: "string \<Rightarrow> string \<Rightarrow> files \<Rightarrow> bool \<times> files" where
  "write_file path t fs = (if fs_can_write fs path then (True, fs\<lparr>fs_text := (fs_text fs)(path \<mapsto> t)\<rparr>) else (False, fs))"

subsection \<open>Doubles in decimal\<close>

definition pad_zeros :: "nat \<Rightarrow> string \<Rightarrow> string" where
  "pad_zeros k s = replicate (k - length s) (CHR ''0'') @ s"

definition special_double :: "f64 \<Rightarrow> string option" where
  "special_double f =
     (if f64_isnan f then Some (if f64_sign f then ''-nan'' else ''nan'')
      else if f64_isinf f then Some (if f64_sign f then ''-inf'' else ''inf'') else None)"

definition sign_text :: "f64 \<Rightarrow> string" where
  "sign_text f = (if f64_sign f then ''-'' else [])"

definition printf_f2 :: "f64 \<Rightarrow> string" where
  "printf_f2 f =
     (case special_double f of Some s \<Rightarrow> s
      | None \<Rightarrow> let d = round_half_even (f64_mag f * 100) f64_unit
                 in sign_text f @ dec_of_nat (d div 100) @ ''.'' @ pad_zeros 2 (dec_of_nat (d mod 100)))"

text \<open>The decimal exponent of a positive magnitude: of its first digit that is not zero.\<close>

definition decimal_exponent :: "nat \<Rightarrow> int" where
  "decimal_exponent mag =
     (if f64_unit \<le> mag then int (length (dec_of_nat (mag div f64_unit))) - 1
      else - int (case find (\<lambda>k. f64_unit \<le> mag * 10 ^ k) [1..<400] of None \<Rightarrow> 0 | Some k \<Rightarrow> k))"

text \<open>Seventeen digits and the exponent, after rounding.\<close>

definition seventeen_digits :: "nat \<Rightarrow> nat \<times> int" where
  "seventeen_digits mag =
     (let x = decimal_exponent mag;
          d = (if x \<le> 16 then round_half_even (mag * 10 ^ nat (16 - x)) f64_unit
               else round_half_even mag (f64_unit * 10 ^ nat (x - 16)))
      in if d = 10 ^ 17 then (10 ^ 16, x + 1) else (d, x))"

definition strip_zeros :: "string \<Rightarrow> string" where
  "strip_zeros s = rev (dropWhile (\<lambda>c. c = CHR ''0'') (rev s))"

definition with_fraction :: "string \<Rightarrow> string \<Rightarrow> string" where
  "with_fraction ip fp = (if strip_zeros fp = [] then ip else ip @ ''.'' @ strip_zeros fp)"

definition printf_g17 :: "f64 \<Rightarrow> string" where
  "printf_g17 f =
     (case special_double f of Some s \<Rightarrow> s
      | None \<Rightarrow>
          if f64_mag f = 0 then sign_text f @ ''0''
          else (case seventeen_digits (f64_mag f) of (d, x) \<Rightarrow>
            let ds = dec_of_nat d
            in sign_text f @
               (if x < - 4 \<or> 17 \<le> x
                then with_fraction (take 1 ds) (drop 1 ds) @ ''e'' @ (if x < 0 then ''-'' else ''+'')
                     @ pad_zeros 2 (dec_of_nat (nat \<bar>x\<bar>))
                else if 0 \<le> x then with_fraction (take (nat x + 1) ds) (drop (nat x + 1) ds)
                else with_fraction ''0'' (replicate (nat (- x) - 1) (CHR ''0'') @ ds))))"

end
