(* ===== verification/Cdsl_Codegen.thy ===== *)
theory Cdsl_Codegen
  imports Cdsl_Strbuf Cdsl_Ruleset
begin

section \<open>Generating C code (\<open>src/vm/codegen.c\<close>)\<close>

text \<open>
  The functions give the texts in the order they are printed to the string buffer; the generated
  code is what the buffer holds in the end. Variables are looked up in the list of the schema,
  which agrees with its map.
\<close>

subsection \<open>Expressions\<close>

definition c_isalnum :: "char \<Rightarrow> bool" where
  "c_isalnum c \<longleftrightarrow> c_isdigit c \<or> (97 \<le> char_code c \<and> char_code c \<le> 122) \<or> (65 \<le> char_code c \<and> char_code c \<le> 90)"

definition sanitize_identifier :: "nat \<Rightarrow> string \<Rightarrow> string" where
  "sanitize_identifier bufsize src =
     map (\<lambda>c. if c_isalnum c \<or> c = CHR ''_'' then c else CHR ''_'') (take (bufsize - 1) src)"

definition var_type :: "cdsl_schema \<Rightarrow> string \<Rightarrow> cdsl_type" where
  "var_type schema x = (case find_var schema x of None \<Rightarrow> CDSL_TYPE_INT | Some v \<Rightarrow> vs_type v)"

fun expr_get_type :: "cdsl_schema \<Rightarrow> cdsl_expr \<Rightarrow> cdsl_type" where
  "expr_get_type schema (CDSL_EXPR_INT _ _) = CDSL_TYPE_INT"
| "expr_get_type schema (CDSL_EXPR_FLOAT _ _) = CDSL_TYPE_FLOAT"
| "expr_get_type schema (CDSL_EXPR_BOOL _ _) = CDSL_TYPE_BOOL"
| "expr_get_type schema (CDSL_EXPR_STRING _ _) = CDSL_TYPE_STRING"
| "expr_get_type schema (CDSL_EXPR_DATE _ _) = CDSL_TYPE_DATE"
| "expr_get_type schema (CDSL_EXPR_LONG _ _) = CDSL_TYPE_LONG"
| "expr_get_type schema (CDSL_EXPR_ID _ x) = var_type schema x"
| "expr_get_type schema _ = CDSL_TYPE_VOID"

fun getter :: "cdsl_type \<Rightarrow> string" where
  "getter CDSL_TYPE_FLOAT = ''get_float''"
| "getter CDSL_TYPE_BOOL = ''get_bool''"
| "getter CDSL_TYPE_STRING = ''get_string''"
| "getter CDSL_TYPE_DATE = ''get_date''"
| "getter CDSL_TYPE_LONG = ''get_long''"
| "getter _ = ''get_int''"

definition c_escape :: "char \<Rightarrow> string" where
  "c_escape c =
     (if c = CHR 0x22 then [CHR 0x5C, CHR 0x22] else if c = CHR 0x5C then [CHR 0x5C, CHR 0x5C]
      else if c = CHR 0x0A then [CHR 0x5C, CHR ''n''] else if c = CHR 0x0D then [CHR 0x5C, CHR ''r'']
      else if c = CHR 0x09 then [CHR 0x5C, CHR ''t''] else [c])"

definition float_literal :: "f64 \<Rightarrow> string" where
  "float_literal f =
     (let fbuf = snprintf_buf 64 (printf_g17 f)
      in if f64_isfinite f \<and> CHR ''.'' \<notin> set fbuf \<and> CHR ''e'' \<notin> set fbuf \<and> CHR ''E'' \<notin> set fbuf
         then fbuf @ ''.0'' else fbuf)"

definition INT64_MIN_literal :: string where
  "INT64_MIN_literal = ''(-9223372036854775807LL - 1LL)''"

fun codegen_expr :: "cdsl_schema \<Rightarrow> cdsl_expr \<Rightarrow> string list"
  and codegen_list :: "cdsl_schema \<Rightarrow> bool \<Rightarrow> cdsl_expr list \<Rightarrow> string list"
where
  "codegen_expr s (CDSL_EXPR_INT _ i) = [dec_of_int (sint i)]"
| "codegen_expr s (CDSL_EXPR_FLOAT _ f) = [float_literal f]"
| "codegen_expr s (CDSL_EXPR_BOOL _ b) = [if c_true b then ''1'' else ''0'']"
| "codegen_expr s (CDSL_EXPR_STRING _ t) = [[CHR 0x22]] @ map c_escape t @ [[CHR 0x22]]"
| "codegen_expr s (CDSL_EXPR_DATE _ d) = [dec_of_int (sint d) @ ''LL'']"
| "codegen_expr s (CDSL_EXPR_LONG _ l) =
     [if l = INT64_MIN then INT64_MIN_literal else dec_of_int (sint l) @ ''LL'']"
| "codegen_expr s (CDSL_EXPR_ARRAY _ es) = [''{''] @ codegen_list s True es @ [''}'']"
| "codegen_expr s (CDSL_EXPR_ID _ x) =
     [getter (var_type s x) @ ''(ctx, '' @ [CHR 0x22] @ x @ [CHR 0x22] @ '')'']"
| "codegen_expr s (CDSL_EXPR_BINARY _ op a b) =
     (if (expr_get_type s a = CDSL_TYPE_STRING \<or> expr_get_type s b = CDSL_TYPE_STRING) \<and> cdsl_op_is_relational op
      then [''(strcmp(''] @ codegen_expr s a @ ['', ''] @ codegen_expr s b @ ['') '' @ cdsl_op_c_symbol op @ '' 0)'']
      else [''(''] @ codegen_expr s a @ ['' '' @ cdsl_op_c_symbol op @ '' ''] @ codegen_expr s b @ ['')''])"
| "codegen_expr s (CDSL_EXPR_UNARY _ op e) = [if op = CDSL_OP_NOT then ''!'' else ''-''] @ codegen_expr s e"
| "codegen_expr s (CDSL_EXPR_CALL _ f es) = [''func_'' @ f @ ''(ctx''] @ codegen_list s False es @ ['')'']"
| "codegen_expr s (CDSL_EXPR_ERROR _) = []"
| "codegen_list s first [] = []"
| "codegen_list s first (e # es) =
     (if first then [] else ['', '']) @ codegen_expr s e @ codegen_list s False es"

definition codegen_condition :: "cdsl_schema \<Rightarrow> cdsl_expr option \<Rightarrow> string list" where
  "codegen_condition s e = (case e of None \<Rightarrow> [] | Some e \<Rightarrow> codegen_expr s e)"

subsection \<open>Rules\<close>

text \<open>The text of argument \<open>n\<close> of an action when it is a string literal.\<close>

definition string_arg :: "nat \<Rightarrow> cdsl_action \<Rightarrow> string option" where
  "string_arg n a =
     (if n < length (act_args a) then (case act_args a ! n of CDSL_EXPR_STRING _ t \<Rightarrow> Some t | _ \<Rightarrow> None) else None)"

definition codegen_simple_action :: "cdsl_schema \<Rightarrow> cdsl_action option \<Rightarrow> string \<Rightarrow> string list" where
  \<open>codegen_simple_action s action indent =
     (case action of None \<Rightarrow> []
      | Some a \<Rightarrow>
          (if act_args a = [] then []
           else [indent @ ''/* action '' @ act_name a @ ''('']
                @ codegen_list s True (act_args a) @ [out_line '') */''])
          @ [out_line (indent @ ''if (action) action("'' @ act_name a @ ''", ud);'')])\<close>

definition fail_reason :: "string \<Rightarrow> cdsl_action \<Rightarrow> string" where
  "fail_reason d a = (case string_arg 1 a of None \<Rightarrow> d | Some t \<Rightarrow> t)"

definition metric_call :: "string \<Rightarrow> string \<Rightarrow> string \<Rightarrow> string" where
  \<open>metric_call indent name reason =
     out_line (indent @ ''if (action) action("'' @ name @ ''", 0, "'' @ reason @ ''", ud);'')\<close>

definition codegen_metric_action :: "cdsl_action \<Rightarrow> string \<Rightarrow> string list" where
  "codegen_metric_action a indent =
     [metric_call indent (act_name a)
        (case string_arg 1 a of Some t \<Rightarrow> t
         | None \<Rightarrow> (case string_arg 0 a of Some t \<Rightarrow> t | None \<Rightarrow> []))]"

definition codegen_case :: "cdsl_schema \<Rightarrow> string \<Rightarrow> cdsl_case \<Rightarrow> string list" where
  "codegen_case s safe_mname c =
     [''    if (''] @ codegen_condition s (case_condition c) @ [out_line '') {'']
     @ (case case_action c of None \<Rightarrow> []
        | Some a \<Rightarrow>
            if act_name a = ''score'' \<and> act_args a \<noteq> [] then
              [''        total_score += ''] @ codegen_expr s (hd (act_args a)) @ [out_line '';'']
            else if act_name a = ''fail_metric'' then
              [metric_call ''        '' ''fail_metric'' (fail_reason ''default'' a)]
            else codegen_metric_action a ''        '')
     @ [out_line (''        goto next_metric_'' @ safe_mname @ '';'') @ out_line ''    }'']"

definition codegen_default :: "cdsl_schema \<Rightarrow> bool \<Rightarrow> cdsl_action option \<Rightarrow> string list" where
  "codegen_default s critical action =
     (case action of None \<Rightarrow> []
      | Some a \<Rightarrow>
          if act_name a = ''fail_metric'' then
            [metric_call ''    '' ''fail_metric'' (fail_reason ''default'' a)]
            @ (if critical then [out_line ''    return -1;''] else [])
          else if act_name a = ''score'' \<and> act_args a \<noteq> [] then
            [''    total_score += ''] @ codegen_expr s (hd (act_args a)) @ [out_line '';'']
          else codegen_metric_action a ''    '')"

definition codegen_metric :: "cdsl_schema \<Rightarrow> cdsl_metric \<Rightarrow> string list" where
  "codegen_metric s m =
     (let weight = cdsl_meta_get_int (met_meta m) ''weight'' 0;
          critical = c_true (cdsl_meta_get_bool (met_meta m) ''is_critical'' 0);
          safe_mname = sanitize_identifier 256 (met_name m)
      in [out_line (''    /* Metric: '' @ met_name m @ '' (weight='' @ dec_of_int (sint weight)
            @ (if critical then '', is_critical=true'' else []) @ '') */'')]
         @ concat (map (codegen_case s safe_mname) (met_cases m))
         @ codegen_default s critical (met_default m)
         @ [out_line (''    next_metric_'' @ safe_mname @ '': ;'')])"

definition getter_decls :: string where
  "getter_decls =
     out_line ''#include <stdio.h>'' @ out_line ''#include <string.h>'' @ out_line []
     @ out_line ''#ifndef CDSL_GETTER_DECLS''
     @ out_line ''#define CDSL_GETTER_DECLS''
     @ out_line ''extern double get_float(void* ctx, const char* name);''
     @ out_line ''extern int get_bool(void* ctx, const char* name);''
     @ out_line ''extern const char* get_string(void* ctx, const char* name);''
     @ out_line ''extern long get_date(void* ctx, const char* name);''
     @ out_line ''extern long get_long(void* ctx, const char* name);''
     @ out_line ''#endif'' @ out_line []"

text \<open>The head of a rule's function; the callback of a metric rule takes a score and a reason.\<close>

definition rule_head :: "bool \<Rightarrow> string \<Rightarrow> string" where
  "rule_head metrics safe_rname =
     ''int cdsl_eval_rule_'' @ safe_rname @ ''(int (*get_int)(void* ctx, const char* name), ''
     @ (if metrics then ''void (*action)(const char* name, int score, const char* reason, void* ud), ''
        else ''void (*action)(const char* name, void* ud), '')
     @ ''void* ctx, void* ud)''"

definition meta_or :: "cdsl_meta \<Rightarrow> string \<Rightarrow> string \<Rightarrow> string" where
  "meta_or ms key d = (case cdsl_meta_get ms key of None \<Rightarrow> d | Some v \<Rightarrow> v)"

definition rule_pieces :: "cdsl_rule \<Rightarrow> cdsl_schema \<Rightarrow> string list" where
  "rule_pieces r s =
     (let safe_rname = sanitize_identifier 256 (rule_name r)
      in [out_line (''/* Auto-generated C code from DSL rule: '' @ rule_name r @ '' */''), getter_decls]
         @ (if rule_metrics r \<noteq> [] then
              [out_line (''/* Meta: pass_threshold='' @ meta_or (rule_meta r) ''pass_threshold'' ''100''
                 @ '', partial_threshold='' @ meta_or (rule_meta r) ''partial_threshold'' ''50'' @ '' */''),
               out_line (rule_head True safe_rname @ '' {''),
               out_line ''    int total_score = 0;'']
              @ concat (map (codegen_metric s) (rule_metrics r))
              @ [out_line ''    return total_score;'' @ out_line ''}'']
            else
              [out_line (rule_head False safe_rname @ '' {''), ''    if ('']
              @ codegen_condition s (rule_when r)
              @ [out_line '') {'']
              @ codegen_simple_action s (rule_then r) ''        ''
              @ [out_line ''        return 0;'' @ out_line ''    }'' @ out_line ''    return 1;'' @ out_line ''}'']))"

definition cdsl_codegen_rule_to_c :: "cdsl_rule \<Rightarrow> cdsl_schema option \<Rightarrow> string option" where
  "cdsl_codegen_rule_to_c r schema =
     (case schema of None \<Rightarrow> None | Some s \<Rightarrow> Some (strbuf_text 4096 (rule_pieces r s)))"

subsection \<open>Rule sets\<close>

definition c_upper :: "char \<Rightarrow> char" where
  "c_upper c = (if 97 \<le> char_code c \<and> char_code c \<le> 122 then char_of (char_code c - 32) else c)"

definition ruleset_head :: "string \<Rightarrow> string" where
  "ruleset_head module_name =
     ''int cdsl_eval_ruleset_'' @ module_name @ ''(int (*get_int)(void* ctx, const char* name), void* ctx, void* ud)''"

definition entry_head :: "ruleset_entry \<Rightarrow> string" where
  "entry_head e = rule_head (rule_metrics (re_rule e) \<noteq> []) (sanitize_identifier 256 (entry_name e))"

definition cdsl_codegen_ruleset_to_h :: "cdsl_ruleset \<Rightarrow> string option \<Rightarrow> string option" where
  "cdsl_codegen_ruleset_to_h set0 module_name =
     (case module_name of None \<Rightarrow> None
      | Some m \<Rightarrow>
          let guard = map c_upper (snprintf_buf 512 (''CDSL_GENERATED_'' @ sanitize_identifier 256 m @ ''_H''))
          in Some (strbuf_text 4096
               ([out_line (''#ifndef '' @ guard) @ out_line (''#define '' @ guard) @ out_line []]
                @ map (\<lambda>e. out_line (entry_head e @ '';'') @ out_line []) (rs_entries set0)
                @ [out_line (ruleset_head m @ '';'') @ out_line [] @ out_line ''#endif''])))"

definition rule_body :: "cdsl_schema option \<Rightarrow> ruleset_entry \<Rightarrow> string list" where
  "rule_body schema e =
     (case cdsl_codegen_rule_to_c (re_rule e) schema of None \<Rightarrow> []
      | Some t \<Rightarrow> (case find_text t ''int cdsl_eval_rule_'' of None \<Rightarrow> [] | Some b \<Rightarrow> [out_line b]))"

definition rule_call :: "ruleset_entry \<Rightarrow> string" where
  "rule_call e =
     out_line (''    res = cdsl_eval_rule_'' @ sanitize_identifier 256 (entry_name e) @ ''(get_int, NULL, ctx, ud);'')
     @ (if rule_metrics (re_rule e) \<noteq> [] then
          out_line ''    if (res < 0) return -1;'' @ out_line ''    total_score += res;''
        else out_line ''    if (res == 0) return -1;'')"

definition cdsl_codegen_ruleset_to_c :: "cdsl_ruleset \<Rightarrow> cdsl_schema option \<Rightarrow> string option \<Rightarrow> string option" where
  \<open>cdsl_codegen_ruleset_to_c set0 schema module_name =
     (case module_name of None \<Rightarrow> None
      | Some m \<Rightarrow>
          Some (strbuf_text 8192
            ([out_line (''#include "'' @ m @ ''.h"'') @ getter_decls]
             @ concat (map (rule_body schema) (rs_entries set0))
             @ [out_line (ruleset_head m @ '' {'') @ out_line ''    int total_score = 0, res;'']
             @ map rule_call (rs_entries set0)
             @ [out_line ''    return total_score;'' @ out_line ''}''])))\<close>

subsection \<open>Files\<close>

definition cdsl_codegen_to_file :: "cdsl_rule \<Rightarrow> cdsl_schema option \<Rightarrow> string \<Rightarrow> files \<Rightarrow> bool \<times> files" where
  "cdsl_codegen_to_file r schema path fs =
     (case cdsl_codegen_rule_to_c r schema of None \<Rightarrow> (False, fs) | Some t \<Rightarrow> write_file path t fs)"

definition cdsl_codegen_ruleset_to_files ::
  "cdsl_ruleset \<Rightarrow> cdsl_schema option \<Rightarrow> string option \<Rightarrow> files \<Rightarrow> bool \<times> files" where
  "cdsl_codegen_ruleset_to_files set0 schema base_path fs =
     (case base_path of None \<Rightarrow> (False, fs)
      | Some p \<Rightarrow>
          let module_name = rev (takeWhile (\<lambda>c. c \<noteq> CHR ''/'') (rev p))
          in case (cdsl_codegen_ruleset_to_h set0 (Some module_name), cdsl_codegen_ruleset_to_c set0 schema (Some module_name)) of
               (Some h, Some c) \<Rightarrow>
                 (True, snd (write_file (snprintf_buf 512 (p @ ''.c'')) c
                          (snd (write_file (snprintf_buf 512 (p @ ''.h'')) h fs))))
             | _ \<Rightarrow> (False, fs))"

text \<open>The name of a generated function is an identifier, of at most 255 characters behind its prefix.\<close>

lemma sanitize_identifier:
  "list_all (\<lambda>c. c_isalnum c \<or> c = CHR ''_'') (sanitize_identifier 256 x) \<and> length (sanitize_identifier 256 x) \<le> 255"
  by (auto simp: sanitize_identifier_def list_all_iff c_isalnum_def)

end
