(* ===== verification/Cdsl_Codegen_Correct.thy ===== *)
theory Cdsl_Codegen_Correct
  imports Cdsl_Codegen Cdsl_Semantics Cdsl_Json_Text
begin

section \<open>What generated conditions compute\<close>

text \<open>
  A reader for the C expressions that are generated and the meaning of those in C say what the
  code for a condition computes: for conditions over INT and BOOL variables, what the rule engine
  computes.
\<close>

subsection \<open>C expressions\<close>

text \<open>
  The expressions of C that conditions over integers become, read from their text. A minus behind a
  minus is the decrement operator and is not read.
\<close>

datatype c_expr =
    C_Int nat
  | C_Get string string
  | C_Not c_expr
  | C_Neg c_expr
  | C_Bin cdsl_op c_expr c_expr

definition c_symbol :: "string \<Rightarrow> cdsl_op option" where
  "c_symbol t = map_of (map (\<lambda>op. (cdsl_op_c_symbol op, op))
     [CDSL_OP_EQ, CDSL_OP_NE, CDSL_OP_LT, CDSL_OP_GT, CDSL_OP_LE, CDSL_OP_GE, CDSL_OP_AND, CDSL_OP_OR,
      CDSL_OP_ADD, CDSL_OP_SUB, CDSL_OP_MUL, CDSL_OP_DIV]) t"

text \<open>A call of a getter: its name, and the name of the variable in quotes.\<close>

definition read_getter :: "string \<Rightarrow> (c_expr \<times> string) option" where
  "read_getter t =
     (let g = takeWhile (\<lambda>c. c \<noteq> CHR ''('') t;
          r = dropWhile (\<lambda>c. c \<noteq> CHR ''('') t;
          x = takeWhile (\<lambda>c. c \<noteq> CHR 0x22) (drop 7 r);
          r2 = dropWhile (\<lambda>c. c \<noteq> CHR 0x22) (drop 7 r)
      in if take 7 r = ''(ctx, '' @ [CHR 0x22] \<and> take 2 r2 = [CHR 0x22, CHR '')'']
         then Some (C_Get g x, drop 2 r2) else None)"

fun read_c :: "nat \<Rightarrow> string \<Rightarrow> (c_expr \<times> string) option" where
  "read_c 0 t = None"
| "read_c (Suc n) [] = None"
| "read_c (Suc n) (c # cs) =
     (if c = CHR ''('' then
        (case read_c n cs of
           Some (a, r) \<Rightarrow>
             (let sym = takeWhile (\<lambda>c. c \<noteq> CHR '' '') (tl r);
                  r1 = dropWhile (\<lambda>c. c \<noteq> CHR '' '') (tl r)
              in case c_symbol sym of
                   Some op \<Rightarrow>
                     if take 1 r = '' '' \<and> take 1 r1 = '' '' then
                       (case read_c n (tl r1) of
                          Some (b, r2) \<Rightarrow> if take 1 r2 = '')'' then Some (C_Bin op a b, tl r2) else None
                        | None \<Rightarrow> None)
                     else None
                 | None \<Rightarrow> None)
         | None \<Rightarrow> None)
      else if c = CHR ''!'' then map_option (\<lambda>(a, r). (C_Not a, r)) (read_c n cs)
      else if c = CHR ''-'' then
        (if take 1 cs = ''-'' then None else map_option (\<lambda>(a, r). (C_Neg a, r)) (read_c n cs))
      else if c_isdigit c then
        Some (C_Int (radix_value 10 (takeWhile c_isdigit (c # cs))), dropWhile c_isdigit (c # cs))
      else read_getter (c # cs))"

text \<open>
  The value of an expression of type \<open>int\<close>, undefined when a result does not fit, on division by
  zero, and for literals that are no \<open>int\<close>.
\<close>

definition fits_int :: "int \<Rightarrow> int option" where
  "fits_int i = (if in_i32 i then Some i else None)"

definition c_arith :: "cdsl_op \<Rightarrow> int \<Rightarrow> int \<Rightarrow> int option" where
  "c_arith op a b =
     (if cdsl_op_is_arithmetic op
      then (if op = CDSL_OP_DIV \<and> b = 0 then None else fits_int (exact_arith op a b))
      else Some (of_bool (exact_cmp op a b)))"

fun c_value :: "(string \<Rightarrow> string \<Rightarrow> int option) \<Rightarrow> c_expr \<Rightarrow> int option" where
  "c_value get (C_Int n) = fits_int (int n)"
| "c_value get (C_Get g x) = get g x"
| "c_value get (C_Not a) = map_option (\<lambda>v. if v = 0 then 1 else 0) (c_value get a)"
| "c_value get (C_Neg a) = Option.bind (c_value get a) (\<lambda>v. fits_int (- v))"
| "c_value get (C_Bin op a b) =
     Option.bind (c_value get a) (\<lambda>v.
       if op = CDSL_OP_AND \<and> v = 0 then Some 0
       else if op = CDSL_OP_OR \<and> v \<noteq> 0 then Some 1
       else Option.bind (c_value get b) (\<lambda>w.
         if op = CDSL_OP_AND \<or> op = CDSL_OP_OR then Some (if w \<noteq> 0 then 1 else 0) else c_arith op v w))"

subsection \<open>Reading back what is generated\<close>

text \<open>
  The conditions the statement is about: INT and BOOL variables and literals under the operators
  the verifier allows on them, without a minus directly behind a minus, which C would read as a
  decrement.
\<close>

fun starts_minus :: "cdsl_expr \<Rightarrow> bool" where
  "starts_minus (CDSL_EXPR_UNARY _ op e) = (op = CDSL_OP_NEG)"
| "starts_minus _ = False"

fun c_type :: "cdsl_schema \<Rightarrow> cdsl_expr \<Rightarrow> cdsl_type option" where
  "c_type s (CDSL_EXPR_INT _ i) = (if 0 \<le> sint i then Some CDSL_TYPE_INT else None)"
| "c_type s (CDSL_EXPR_BOOL _ b) = (if b = 0 \<or> b = 1 then Some CDSL_TYPE_BOOL else None)"
| "c_type s (CDSL_EXPR_ID _ x) =
     (case find_var s x of None \<Rightarrow> None
      | Some v \<Rightarrow> if (vs_type v = CDSL_TYPE_INT \<or> vs_type v = CDSL_TYPE_BOOL) \<and> CHR 0x22 \<notin> set x
                 then Some (vs_type v) else None)"
| "c_type s (CDSL_EXPR_UNARY _ op e) =
     (if op = CDSL_OP_NOT \<and> c_type s e = Some CDSL_TYPE_BOOL then Some CDSL_TYPE_BOOL
      else if op = CDSL_OP_NEG \<and> c_type s e = Some CDSL_TYPE_INT \<and> \<not> starts_minus e then Some CDSL_TYPE_INT
      else None)"
| "c_type s (CDSL_EXPR_BINARY _ op a b) =
     (if c_type s a = Some CDSL_TYPE_INT \<and> c_type s b = Some CDSL_TYPE_INT then
        (if cdsl_op_is_arithmetic op then Some CDSL_TYPE_INT
         else if cdsl_op_is_relational op then Some CDSL_TYPE_BOOL else None)
      else if c_type s a = Some CDSL_TYPE_BOOL \<and> c_type s b = Some CDSL_TYPE_BOOL then
        (if op = CDSL_OP_EQ \<or> op = CDSL_OP_NE \<or> cdsl_op_is_logical_binary op then Some CDSL_TYPE_BOOL else None)
      else None)"
| "c_type s _ = None"

fun c_of :: "cdsl_schema \<Rightarrow> cdsl_expr \<Rightarrow> c_expr" where
  "c_of s (CDSL_EXPR_INT _ i) = C_Int (nat (sint i))"
| "c_of s (CDSL_EXPR_BOOL _ b) = C_Int (nat (sint b))"
| "c_of s (CDSL_EXPR_ID _ x) = C_Get (getter (var_type s x)) x"
| "c_of s (CDSL_EXPR_UNARY _ op e) = (if op = CDSL_OP_NOT then C_Not (c_of s e) else C_Neg (c_of s e))"
| "c_of s (CDSL_EXPR_BINARY _ op a b) = C_Bin op (c_of s a) (c_of s b)"
| "c_of s _ = C_Int 0"

definition c_text_of :: "cdsl_schema \<Rightarrow> cdsl_expr \<Rightarrow> string" where
  "c_text_of s e = concat (codegen_expr s e)"

lemma read_digits:
  assumes "r = [] \<or> \<not> c_isdigit (hd r)"
  shows "read_c (Suc n) (dec_of_nat k @ r) = Some (C_Int k, r)"
proof -
  obtain c cs where c: "dec_of_nat k = c # cs" by (cases "dec_of_nat k") auto
  have d: "list_all c_isdigit (c # cs)" "radix_value 10 (c # cs) = k"
    using dec_of_nat_digits [of k] by (simp_all add: c)
  then have "takeWhile c_isdigit (c # cs @ r) = c # cs" "dropWhile c_isdigit (c # cs @ r) = r"
    using assms by (cases r; simp add: list_all_iff)+
  moreover have "c \<noteq> CHR ''(''" "c \<noteq> CHR ''!''" "c \<noteq> CHR ''-''"
    using d(1) by (auto simp: c_isdigit_def char_code_def)
  ultimately show ?thesis using d by (simp add: c)
qed

lemma read_get:
  assumes "CHR 0x22 \<notin> set x" and "t = CDSL_TYPE_INT \<or> t = CDSL_TYPE_BOOL"
  shows "read_c (Suc n) (getter t @ ''(ctx, '' @ [CHR 0x22] @ x @ [CHR 0x22] @ '')'' @ r) = Some (C_Get (getter t) x, r)"
proof -
  have "takeWhile (\<lambda>c. c \<noteq> CHR 0x22) (x @ CHR 0x22 # u) = x" "dropWhile (\<lambda>c. c \<noteq> CHR 0x22) (x @ CHR 0x22 # u) = CHR 0x22 # u" for u
    using assms(1) by (induction x) auto
  then show ?thesis
    using assms(2) by (auto simp: read_getter_def c_isdigit_def char_code_def numeral_eq_Suc)
qed

lemma c_symbol:
  "\<not> cdsl_op_is_unary op \<Longrightarrow> c_symbol (cdsl_op_c_symbol op) = Some op \<and> CHR '' '' \<notin> set (cdsl_op_c_symbol op)"
  by (cases op) (simp_all add: c_symbol_def cdsl_op_c_symbol_def op_desc_def)

lemma text_first:
  assumes "c_type s e = Some t" and "\<not> starts_minus e"
  shows "\<exists>c cs. c_text_of s e = c # cs \<and> c \<noteq> CHR ''-''"
proof (cases e)
  case (CDSL_EXPR_INT l i)
  then obtain c cs where c: "dec_of_int (sint i) = c # cs" "c_isdigit c"
    using assms dec_of_nat_digits [of "nat (sint i)"]
    by (cases "dec_of_nat (nat (sint i))") (auto simp: dec_of_int_def split: if_splits)
  then show ?thesis by (auto simp: CDSL_EXPR_INT c_text_of_def c_isdigit_def char_code_def)
next
  case (CDSL_EXPR_ID l x)
  then show ?thesis by (cases "var_type s x") (simp_all add: c_text_of_def)
next
  case (CDSL_EXPR_UNARY l op f)
  with assms show ?thesis by (auto simp: c_text_of_def split: if_splits)
qed (use assms in \<open>auto simp: c_text_of_def\<close>)

lemma c_type_text:
  assumes "c_type s (CDSL_EXPR_BINARY l op a b) = Some t"
  shows "c_text_of s (CDSL_EXPR_BINARY l op a b)
    = ''('' @ c_text_of s a @ '' '' @ cdsl_op_c_symbol op @ '' '' @ c_text_of s b @ '')''"
proof -
  have "expr_get_type s e \<noteq> CDSL_TYPE_STRING" if "c_type s e = Some u" for e u
    using that by (cases e) (auto simp: var_type_def split: option.splits if_splits)
  moreover have "\<exists>u. c_type s a = Some u" "\<exists>u. c_type s b = Some u"
    using assms by (auto split: if_splits)
  ultimately show ?thesis by (auto simp: c_text_of_def)
qed

lemma c_type_binary:
  "c_type s (CDSL_EXPR_BINARY l op a b) = Some t \<Longrightarrow>
     \<not> cdsl_op_is_unary op \<and> (\<exists>u. c_type s a = Some u) \<and> (\<exists>u. c_type s b = Some u)"
  by (cases op) (auto split: if_splits)

text \<open>The text of a condition is one expression of C, the one with its operators and operands.\<close>

lemma read_back:
  "c_type s e = Some t \<Longrightarrow> height e \<le> n \<Longrightarrow> r = [] \<or> \<not> c_isdigit (hd r)
     \<Longrightarrow> read_c n (c_text_of s e @ r) = Some (c_of s e, r)"
proof (induction e arbitrary: t n r)
  case (CDSL_EXPR_ID l x)
  then obtain m where n: "n = Suc m" by (cases n) auto
  from CDSL_EXPR_ID obtain v where "find_var s x = Some v" "vs_type v = CDSL_TYPE_INT \<or> vs_type v = CDSL_TYPE_BOOL"
      "CHR 0x22 \<notin> set x"
    by (auto split: option.splits if_splits)
  then show ?case
    using read_get [of x "vs_type v" m r] by (simp add: n c_text_of_def var_type_def)
next
  case (CDSL_EXPR_INT l i)
  then obtain m where "n = Suc m" by (cases n) auto
  with CDSL_EXPR_INT show ?case
    using read_digits [of r m "nat (sint i)"] by (auto simp: c_text_of_def dec_of_int_def split: if_splits)
next
  case (CDSL_EXPR_BOOL l b)
  then obtain m where m: "n = Suc m" by (cases n) auto
  have "dec_of_nat 0 = ''0''" "dec_of_nat 1 = ''1''" by code_simp+
  with CDSL_EXPR_BOOL m show ?case
    using read_digits [of r m 0] read_digits [of r m 1] by (auto simp: c_text_of_def split: if_splits)
next
  case (CDSL_EXPR_UNARY l op e)
  then obtain m where m: "n = Suc m" by (cases n) auto
  from CDSL_EXPR_UNARY.prems(1) obtain u where u: "c_type s e = Some u" by (auto split: if_splits)
  have IH: "read_c m (c_text_of s e @ r) = Some (c_of s e, r)"
    using CDSL_EXPR_UNARY.IH [OF u, of m r] CDSL_EXPR_UNARY.prems m by simp
  show ?case
  proof (cases "op = CDSL_OP_NOT")
    case True
    then show ?thesis using IH by (simp add: m c_text_of_def)
  next
    case False
    then have "\<not> starts_minus e" using CDSL_EXPR_UNARY.prems(1) by (auto split: if_splits)
    from text_first [OF u this] obtain c cs where "c_text_of s e = c # cs" "c \<noteq> CHR ''-''" by blast
    then show ?thesis using IH False by (simp add: m c_text_of_def)
  qed
next
  case (CDSL_EXPR_BINARY l op a b)
  then obtain m where m: "n = Suc m" by (cases n) auto
  from c_type_binary [OF CDSL_EXPR_BINARY.prems(1)] obtain u v
    where u: "c_type s a = Some u" "c_type s b = Some v" and op: "\<not> cdsl_op_is_unary op" by blast
  let ?sym = "cdsl_op_c_symbol op"
  let ?r1 = "CHR '' '' # ?sym @ CHR '' '' # c_text_of s b @ CHR '')'' # r"
  have a: "read_c m (c_text_of s a @ ?r1) = Some (c_of s a, ?r1)"
    using CDSL_EXPR_BINARY.IH(1) [OF u(1), of m ?r1] CDSL_EXPR_BINARY.prems m by (simp add: c_isdigit_def char_code_def)
  have b: "read_c m (c_text_of s b @ CHR '')'' # r) = Some (c_of s b, CHR '')'' # r)"
    using CDSL_EXPR_BINARY.IH(2) [OF u(2), of m "CHR '')'' # r"] CDSL_EXPR_BINARY.prems m
    by (simp add: c_isdigit_def char_code_def)
  have "takeWhile (\<lambda>c. c \<noteq> CHR '' '') (?sym @ CHR '' '' # t) = ?sym"
    "dropWhile (\<lambda>c. c \<noteq> CHR '' '') (?sym @ CHR '' '' # t) = CHR '' '' # t" for t
    using c_symbol [OF op] by (auto simp: takeWhile_append takeWhile_eq_all_conv dropWhile_append)
  then show ?case
    unfolding c_type_text [OF CDSL_EXPR_BINARY.prems(1)] m
    using a b c_symbol [OF op] by (simp add: Let_def)
qed simp_all

subsection \<open>What the generated code computes\<close>

fun int_value :: "cdsl_value \<Rightarrow> int" where
  "int_value (VInt i) = sint i"
| "int_value (VBool b) = sint b"
| "int_value _ = 0"

text \<open>
  The getters the code is linked with give what the variables of the context hold; \<open>xs\<close> are the
  variables that are read.
\<close>

definition getters_agree ::
  "cdsl_schema \<Rightarrow> (string \<Rightarrow> cdsl_value option) \<Rightarrow> (string \<Rightarrow> string \<Rightarrow> int option) \<Rightarrow> string list \<Rightarrow> bool" where
  "getters_agree s \<sigma> get xs = list_all (\<lambda>x.
     case \<sigma> x of
       Some (VInt i) \<Rightarrow> var_type s x = CDSL_TYPE_INT \<and> get ''get_int'' x = Some (sint i)
     | Some (VBool b) \<Rightarrow> var_type s x = CDSL_TYPE_BOOL \<and> (b = 0 \<or> b = 1) \<and> get ''get_bool'' x = Some (sint b)
     | _ \<Rightarrow> False) xs"

definition typed_value :: "cdsl_type \<Rightarrow> cdsl_value \<Rightarrow> bool" where
  "typed_value t v \<longleftrightarrow> (t = CDSL_TYPE_INT \<and> (\<exists>i. v = VInt i)) \<or> (t = CDSL_TYPE_BOOL \<and> (v = VBool 0 \<or> v = VBool 1))"

lemma int_operator:
  assumes "cdsl_op_is_arithmetic op \<or> cdsl_op_is_relational op"
  shows "c_arith op (sint a) (sint b)
      = (case outcome_of (cdsl_value_binop op (VInt a) (VInt b)) of Inl st \<Rightarrow> None | Inr v \<Rightarrow> Some (int_value v))
    \<and> (\<forall>v. outcome_of (cdsl_value_binop op (VInt a) (VInt b)) = Inr v \<longrightarrow>
        typed_value (if cdsl_op_is_arithmetic op then CDSL_TYPE_INT else CDSL_TYPE_BOOL) v)"
proof (cases "cdsl_op_is_arithmetic op")
  case True
  define x where "x = exact_arith op (sint a) (sint b)"
  have z: "sint b = 0 \<longleftrightarrow> b = 0" by (simp add: signed_eq_0_iff)
  have v: "cdsl_value_binop op (VInt a) (VInt b) =
    (if op = CDSL_OP_DIV \<and> b = 0 then (CDSL_VALOP_DIV_ZERO, void0)
     else if in_i32 x then (CDSL_VALOP_OK, VInt (word_of_int x)) else (CDSL_VALOP_OVERFLOW, void0))"
    unfolding x_def by (rule int_arith_exact [OF True])
  have c: "c_arith op (sint a) (sint b) = (if op = CDSL_OP_DIV \<and> b = 0 then None else fits_int x)"
    using True by (simp only: c_arith_def x_def [symmetric] z if_True)
  show ?thesis
    using True unfolding v c by (simp add: fits_int_def outcome_of_def typed_value_def del: arithmetic_iff)
next
  case False
  then have r: "cdsl_op_is_relational op" using assms by simp
  have v: "cdsl_value_binop op (VInt a) (VInt b) = (CDSL_VALOP_OK, VBool (c_bool (exact_cmp op (sint a) (sint b))))"
    using int_comparison [OF r, of "VInt a" "VInt b"] by (simp add: is_integer_value_def)
  show ?thesis
    using False unfolding v by (simp add: c_arith_def outcome_of_def typed_value_def c_bool_def del: arithmetic_iff)
qed

lemma bool_operator:
  assumes "op = CDSL_OP_EQ \<or> op = CDSL_OP_NE" and "a = 0 \<or> a = 1" and "b = 0 \<or> b = 1"
  shows "c_arith op (sint a) (sint b)
      = (case outcome_of (cdsl_value_binop op (VBool a) (VBool b)) of Inl st \<Rightarrow> None | Inr v \<Rightarrow> Some (int_value v))
    \<and> (\<forall>v. outcome_of (cdsl_value_binop op (VBool a) (VBool b)) = Inr v \<longrightarrow> typed_value CDSL_TYPE_BOOL v)"
  using assms
  by (elim disjE) (simp_all add: c_arith_def cdsl_value_binop_def binop_bool_def outcome_of_def bool_ok_def
      typed_value_def c_bool_def)

lemma not_operator:
  "typed_value CDSL_TYPE_BOOL v \<Longrightarrow>
     \<exists>w. outcome_of (cdsl_value_unop CDSL_OP_NOT v) = Inr w \<and> typed_value CDSL_TYPE_BOOL w
       \<and> int_value w = of_bool (int_value v = 0)"
  by (auto simp: typed_value_def cdsl_value_unop_def outcome_of_def bool_ok_def c_bool_def)

lemma neg_operator:
  "fits_int (- sint i)
      = (case outcome_of (cdsl_value_unop CDSL_OP_NEG (VInt i)) of Inl st \<Rightarrow> None | Inr v \<Rightarrow> Some (int_value v))
    \<and> (\<forall>v. outcome_of (cdsl_value_unop CDSL_OP_NEG (VInt i)) = Inr v \<longrightarrow> typed_value CDSL_TYPE_INT v)"
proof (cases "i = 0x80000000")
  case True
  then show ?thesis by (simp add: cdsl_value_unop_def outcome_of_def fits_int_def in_i32_def)
next
  case False
  have "sint i \<noteq> - 2147483648"
  proof
    assume "sint i = - 2147483648"
    then have "i = 0x80000000" by (intro signed_word_eqI) simp
    with False show False by contradiction
  qed
  then have 1: "in_i32 (- sint i)" using in_i32_sint [of i] by (simp add: in_i32_def)
  have "sint (- i) = sint (word_of_int (- sint i) :: i32)" by simp
  with 1 have "sint (- i) = - sint i" by (simp only: sint_word_of_int_i32)
  with False 1 show ?thesis
    by (simp add: cdsl_value_unop_def outcome_of_def fits_int_def typed_value_def)
qed

text \<open>
  The value of a condition, and that it is undefined exactly where the engine reports an error. The
  cases of operators, over the results for their operands.
\<close>

definition c_agrees :: "int option \<Rightarrow> outcome \<Rightarrow> cdsl_type \<Rightarrow> bool" where
  "c_agrees i r t \<longleftrightarrow> i = (case r of Inl st \<Rightarrow> None | Inr v \<Rightarrow> Some (int_value v))
     \<and> (\<forall>v. r = Inr v \<longrightarrow> typed_value t v)"

lemma c_agreesE:
  assumes "c_agrees i r t"
  obtains (undefined) st where "r = Inl st" "i = None"
    | (defined) v where "r = Inr v" "i = Some (int_value v)" "typed_value t v"
  using assms by (cases r) (auto simp: c_agrees_def)

lemma agree_not:
  assumes "c_agrees (c_value get (c_of s e)) (den env \<sigma> e) CDSL_TYPE_BOOL"
  shows "c_agrees (c_value get (c_of s (CDSL_EXPR_UNARY l CDSL_OP_NOT e)))
    (den env \<sigma> (CDSL_EXPR_UNARY l CDSL_OP_NOT e)) CDSL_TYPE_BOOL"
  using assms
proof (cases rule: c_agreesE)
  case (defined v)
  from not_operator [OF defined(3)] defined show ?thesis by (auto simp: c_agrees_def)
qed (simp add: c_agrees_def)

lemma agree_neg:
  assumes "c_agrees (c_value get (c_of s e)) (den env \<sigma> e) CDSL_TYPE_INT"
  shows "c_agrees (c_value get (c_of s (CDSL_EXPR_UNARY l CDSL_OP_NEG e)))
    (den env \<sigma> (CDSL_EXPR_UNARY l CDSL_OP_NEG e)) CDSL_TYPE_INT"
  using assms
proof (cases rule: c_agreesE)
  case (defined v)
  then obtain i where "v = VInt i" by (auto simp: typed_value_def)
  with neg_operator [of i] defined show ?thesis by (simp add: c_agrees_def)
qed (simp add: c_agrees_def)

lemma agree_operator:
  assumes "c_agrees (c_value get (c_of s a)) (den env \<sigma> a) u" and "c_agrees (c_value get (c_of s b)) (den env \<sigma> b) u"
    and "u = CDSL_TYPE_INT \<and> (cdsl_op_is_arithmetic op \<and> t = CDSL_TYPE_INT \<or> cdsl_op_is_relational op \<and> t = CDSL_TYPE_BOOL)
      \<or> u = CDSL_TYPE_BOOL \<and> (op = CDSL_OP_EQ \<or> op = CDSL_OP_NE) \<and> t = CDSL_TYPE_BOOL"
  shows "c_agrees (c_value get (c_of s (CDSL_EXPR_BINARY l op a b))) (den env \<sigma> (CDSL_EXPR_BINARY l op a b)) t"
proof -
  have op: "op \<noteq> CDSL_OP_AND" "op \<noteq> CDSL_OP_OR" using assms(3) by auto
  from assms(1) show ?thesis
  proof (cases rule: c_agreesE)
    case x: (defined v)
    from assms(2) show ?thesis
    proof (cases rule: c_agreesE)
      case y: (defined w)
      have "c_agrees (c_arith op (int_value v) (int_value w)) (outcome_of (cdsl_value_binop op v w)) t"
        using assms(3)
      proof
        assume u: "u = CDSL_TYPE_INT \<and> (cdsl_op_is_arithmetic op \<and> t = CDSL_TYPE_INT \<or> cdsl_op_is_relational op \<and> t = CDSL_TYPE_BOOL)"
        then obtain i j where "v = VInt i" "w = VInt j" using x y by (auto simp: typed_value_def)
        moreover have "t = (if cdsl_op_is_arithmetic op then CDSL_TYPE_INT else CDSL_TYPE_BOOL)"
          using u by auto
        ultimately show ?thesis using int_operator [of op i j] u by (simp only: c_agrees_def int_value.simps) blast
      next
        assume u: "u = CDSL_TYPE_BOOL \<and> (op = CDSL_OP_EQ \<or> op = CDSL_OP_NE) \<and> t = CDSL_TYPE_BOOL"
        then obtain i j where "v = VBool i" "w = VBool j" "i = 0 \<or> i = 1" "j = 0 \<or> j = 1"
          using x y by (auto simp: typed_value_def)
        with bool_operator [of op i j] u show ?thesis by (simp add: c_agrees_def)
      qed
      then show ?thesis using op x y by (simp add: c_agrees_def)
    qed (use op x in \<open>simp add: c_agrees_def\<close>)
  qed (simp add: c_agrees_def)
qed

lemma agree_logical:
  assumes "c_agrees (c_value get (c_of s a)) (den env \<sigma> a) CDSL_TYPE_BOOL"
    and "c_agrees (c_value get (c_of s b)) (den env \<sigma> b) CDSL_TYPE_BOOL"
    and "op = CDSL_OP_AND \<or> op = CDSL_OP_OR"
  shows "c_agrees (c_value get (c_of s (CDSL_EXPR_BINARY l op a b))) (den env \<sigma> (CDSL_EXPR_BINARY l op a b)) CDSL_TYPE_BOOL"
  using assms(1)
proof (cases rule: c_agreesE)
  case x: (defined v)
  from assms(2) show ?thesis
  proof (cases rule: c_agreesE)
    case y: (defined w)
    with x assms(3) show ?thesis by (auto simp: c_agrees_def typed_value_def)
  next
    case undefined
    with x assms(3) show ?thesis by (auto simp: c_agrees_def typed_value_def)
  qed
qed (use assms(3) in \<open>auto simp: c_agrees_def\<close>)

lemma c_type_unary:
  assumes "c_type s (CDSL_EXPR_UNARY l op e) = Some t"
  obtains "op = CDSL_OP_NOT" "c_type s e = Some CDSL_TYPE_BOOL" "t = CDSL_TYPE_BOOL"
    | "op = CDSL_OP_NEG" "c_type s e = Some CDSL_TYPE_INT" "t = CDSL_TYPE_INT"
proof (cases "op = CDSL_OP_NOT \<and> c_type s e = Some CDSL_TYPE_BOOL")
  case True
  with assms that show ?thesis by simp
next
  case False
  with assms have "op = CDSL_OP_NEG \<and> c_type s e = Some CDSL_TYPE_INT \<and> t = CDSL_TYPE_INT"
    by (simp only: c_type.simps if_False option.inject split: if_split_asm) simp_all
  with that show ?thesis by blast
qed

lemma c_type_operands:
  assumes "c_type s (CDSL_EXPR_BINARY l op a b) = Some t"
  obtains u where "c_type s a = Some u" "c_type s b = Some u"
      "u = CDSL_TYPE_INT \<and> (cdsl_op_is_arithmetic op \<and> t = CDSL_TYPE_INT \<or> cdsl_op_is_relational op \<and> t = CDSL_TYPE_BOOL)
        \<or> u = CDSL_TYPE_BOOL \<and> (op = CDSL_OP_EQ \<or> op = CDSL_OP_NE) \<and> t = CDSL_TYPE_BOOL"
  | "c_type s a = Some CDSL_TYPE_BOOL" "c_type s b = Some CDSL_TYPE_BOOL"
      "op = CDSL_OP_AND \<or> op = CDSL_OP_OR" "t = CDSL_TYPE_BOOL"
proof (cases "c_type s a = Some CDSL_TYPE_INT \<and> c_type s b = Some CDSL_TYPE_INT")
  case True
  with assms have "cdsl_op_is_arithmetic op \<and> t = CDSL_TYPE_INT \<or> cdsl_op_is_relational op \<and> t = CDSL_TYPE_BOOL"
    by (simp del: arithmetic_iff relational_iff split: if_split_asm)
  with True show ?thesis by (intro that(1) [of CDSL_TYPE_INT]) simp_all
next
  case False
  with assms have b: "c_type s a = Some CDSL_TYPE_BOOL" "c_type s b = Some CDSL_TYPE_BOOL"
    and op: "op = CDSL_OP_EQ \<or> op = CDSL_OP_NE \<or> cdsl_op_is_logical_binary op" and t: "t = CDSL_TYPE_BOOL"
    by (simp_all del: arithmetic_iff relational_iff split: if_split_asm)
  from op show ?thesis
  proof (cases "op = CDSL_OP_EQ \<or> op = CDSL_OP_NE")
    case True
    then show ?thesis using b t by (intro that(1) [of CDSL_TYPE_BOOL]) simp_all
  next
    case False
    with op have "op = CDSL_OP_AND \<or> op = CDSL_OP_OR" by simp
    then show ?thesis using b t by (intro that(2))
  qed
qed

lemma c_value_den:
  "c_type s e = Some t \<Longrightarrow> getters_agree s \<sigma> get (vars e) \<Longrightarrow> c_agrees (c_value get (c_of s e)) (den env \<sigma> e) t"
proof (induction e arbitrary: t)
  case (CDSL_EXPR_ID l x)
  then have "t = var_type s x" by (auto simp: var_type_def split: option.splits if_split_asm)
  with CDSL_EXPR_ID.prems(2) show ?case
    by (auto simp: getters_agree_def typed_value_def c_agrees_def split: option.splits cdsl_value.splits)
next
  case (CDSL_EXPR_INT l i)
  then show ?case using in_i32_sint [of i] by (auto simp: fits_int_def typed_value_def c_agrees_def split: if_split_asm)
next
  case (CDSL_EXPR_BOOL l b)
  then show ?case by (auto simp: fits_int_def typed_value_def in_i32_def c_agrees_def split: if_split_asm)
next
  case (CDSL_EXPR_UNARY l op e)
  from CDSL_EXPR_UNARY.prems(2) have "getters_agree s \<sigma> get (vars e)" by simp
  note IH = CDSL_EXPR_UNARY.IH [OF _ this]
  from CDSL_EXPR_UNARY.prems(1) show ?case
    by (cases rule: c_type_unary) (simp_all only: agree_not agree_neg IH)
next
  case (CDSL_EXPR_BINARY l op a b)
  from CDSL_EXPR_BINARY.prems(2) have g: "getters_agree s \<sigma> get (vars a)" "getters_agree s \<sigma> get (vars b)"
    by (simp_all add: getters_agree_def)
  note IH = CDSL_EXPR_BINARY.IH(1) [OF _ g(1)] CDSL_EXPR_BINARY.IH(2) [OF _ g(2)]
  from CDSL_EXPR_BINARY.prems(1) show ?case
  proof (cases rule: c_type_operands)
    case (1 u)
    then show ?thesis by (intro agree_operator [where u = u] IH)
  next
    case 2
    show ?thesis unfolding 2(4) using 2(3) by (intro agree_logical IH 2)
  qed
qed simp_all

lemma c_type_scalar: "c_type s e = Some t \<Longrightarrow> scalar_expr e"
proof (induction e arbitrary: t)
  case (CDSL_EXPR_UNARY l op e)
  from CDSL_EXPR_UNARY.prems show ?case
    by (cases rule: c_type_unary) (use CDSL_EXPR_UNARY.IH in simp_all)
next
  case (CDSL_EXPR_BINARY l op a b)
  from c_type_binary [OF CDSL_EXPR_BINARY.prems] CDSL_EXPR_BINARY.IH show ?case by auto
qed simp_all

text \<open>
  Claim C11. The text generated for a condition over INT and BOOL variables is read back by C as one
  expression, and that expression computes what the rule engine does: its value is the tree
  walker's (0 and 1 for a BOOL), and it is undefined exactly where the engine stops with an
  error, a division by zero or an overflow.
\<close>

theorem generated_condition_equals_engine:
  assumes "c_type s e = Some t" and "getters_agree s (context_value ctx) get (vars e)"
    and "unlimited vm" and "\<not> vm_error_state vm" and "int (height e) \<le> vm_max_expr_depth vm"
  shows "\<exists>c. read_c (height e) (strbuf_text 4096 (codegen_expr s e)) = Some (c, [])
    \<and> (case cdsl_eval_expr_internal env ctx e 0 vm of (v, vm') \<Rightarrow>
         c_value get c = (if vm_error_state vm' then None else Some (int_value v)))"
proof -
  obtain l where 1: "cdsl_eval_expr_internal env ctx e 0 vm = run_outcome vm l (den env (context_value ctx) e)"
    using eval_den [OF c_type_scalar [OF assms(1)] assms(3,4), of 0 env ctx] assms(5) by auto
  have "read_c (height e) (strbuf_text 4096 (codegen_expr s e)) = Some (c_of s e, [])"
    using read_back [OF assms(1), of "height e" "[]"] by (simp add: c_text_of_def)
  moreover have "c_agrees (c_value get (c_of s e)) (den env (context_value ctx) e) t"
    using assms(1,2) by (rule c_value_den)
  ultimately show ?thesis
    unfolding 1 using assms(4) by (auto simp: run_outcome_def c_agrees_def split: sum.splits)
qed

definition age_limit :: cdsl_expr where
  "age_limit = CDSL_EXPR_BINARY (1, 5) CDSL_OP_GT
     (CDSL_EXPR_BINARY (1, 3) CDSL_OP_MUL (CDSL_EXPR_ID (1, 1) ''age'') (CDSL_EXPR_INT (1, 4) 2)) (CDSL_EXPR_INT (1, 6) 30)"

lemma generated_condition_equals_engine_witness:
  \<open>\<exists>c. read_c 3 ''((get_int(ctx, "age") * 2) > 30)'' = Some (c, [])
    \<and> c_value (\<lambda>g x. if g = ''get_int'' \<and> x = ''age'' then Some 20 else None) c = Some 1\<close>
proof -
  let ?s = "cdsl_schema_register_var cdsl_schema_create ''age'' CDSL_TYPE_INT"
  let ?ctx = "cdsl_context_set_int (cdsl_context_create None) ''age'' 20"
  have f: "find_var ?s ''age'' = Some \<lparr>vs_type = CDSL_TYPE_INT, vs_is_readonly = False\<rparr>" by (simp add: schema_eval)
  have x: "context_value ?ctx ''age'' = Some (VInt 20)" by (simp add: context_eval)
  have d: "dec_of_int 2 = ''2''" "dec_of_int 30 = ''30''" by code_simp+
  have t: \<open>concat (codegen_expr ?s age_limit) = ''((get_int(ctx, "age") * 2) > 30)''\<close>
    by (simp add: age_limit_def f var_type_def d cdsl_op_c_symbol_def op_desc_def)
  have v: "cdsl_eval_expr_internal env_plain ?ctx age_limit 0 cdsl_vm_create = (VBool 1, cdsl_vm_create)"
    using eval_den [of age_limit cdsl_vm_create 0 env_plain ?ctx]
    by (simp add: age_limit_def x unlimited_def vm_create_fields outcome_of_def run_outcome_def bool_ok_def
      cdsl_value_binop_def binop_numeric_def binop_int_def Let_def cmp3_def c_bool_def)
  show ?thesis
    using generated_condition_equals_engine [of ?s age_limit CDSL_TYPE_BOOL ?ctx
        "\<lambda>g x. if g = ''get_int'' \<and> x = ''age'' then Some 20 else None" cdsl_vm_create env_plain]
    unfolding strbuf_text t v
    by (simp add: age_limit_def f x var_type_def getters_agree_def unlimited_def vm_create_fields numeral_eq_Suc
      del: read_c.simps split: option.splits if_split_asm)
qed

end
