(* ===== verification/Cdsl_Visualize.thy ===== *)
theory Cdsl_Visualize
  imports Cdsl_Strbuf Cdsl_Ruleset
begin

section \<open>Graphs of rules (\<open>src/vm/visualize.c\<close>)\<close>

text \<open>
  The functions give the lines of the graph in the order they are printed. Lines for the nodes and
  edges of conditions are kept apart from the others, so that the graph they make up can be
  stated: every condition is a tree, and no two nodes share a number.
\<close>

subsection \<open>Expressions\<close>

datatype dot_item =
    Dot_Node nat string string string
  | Dot_Edge nat nat
  | Dot_Root string nat
  | Dot_Line string

fun dot_text :: "dot_item \<Rightarrow> string" where
  \<open>dot_text (Dot_Node i label shape color) =
     out_line (''  n'' @ dec_of_nat i @ '' [label="'' @ label @ ''",shape='' @ shape @ '',style=filled,fillcolor='' @ color @ ''];'')\<close>
| \<open>dot_text (Dot_Edge i j) = out_line (''  n'' @ dec_of_nat i @ '' -> n'' @ dec_of_nat j @ '';'')\<close>
| \<open>dot_text (Dot_Root name i) = out_line (''  '' @ name @ '' -> n'' @ dec_of_nat i @ '';'')\<close>
| \<open>dot_text (Dot_Line l) = out_line l\<close>

text \<open>\<open>fmt_date\<close> is \<open>strftime\<close> with \<open>%Y-%m-%d\<close> on the local time, which depends on the time zone.\<close>

fun dot_expr :: "(i64 \<Rightarrow> string) \<Rightarrow> cdsl_expr \<Rightarrow> nat \<Rightarrow> dot_item list \<times> nat"
  and dot_elements :: "(i64 \<Rightarrow> string) \<Rightarrow> nat \<Rightarrow> cdsl_expr list \<Rightarrow> nat \<Rightarrow> dot_item list \<times> nat"
where
  "dot_expr fmt_date (CDSL_EXPR_INT _ i) k =
     ([Dot_Node k (dec_of_int (sint i)) ''box'' ''lightyellow''], k + 1)"
| "dot_expr fmt_date (CDSL_EXPR_FLOAT _ f) k = ([Dot_Node k (printf_f2 f) ''box'' ''lightyellow''], k + 1)"
| "dot_expr fmt_date (CDSL_EXPR_BOOL _ b) k =
     ([Dot_Node k (if c_true b then ''true'' else ''false'') ''box'' ''lightyellow''], k + 1)"
| "dot_expr fmt_date (CDSL_EXPR_STRING _ t) k =
     ([Dot_Node k ([CHR 0x5C, CHR 0x22] @ t @ [CHR 0x5C, CHR 0x22]) ''box'' ''lightyellow''], k + 1)"
| "dot_expr fmt_date (CDSL_EXPR_DATE _ d) k =
     ([Dot_Node k (''@'' @ snprintf_buf 32 (fmt_date d)) ''box'' ''lightyellow''], k + 1)"
| "dot_expr fmt_date (CDSL_EXPR_LONG _ l) k =
     ([Dot_Node k (dec_of_int (sint l) @ ''L'') ''box'' ''lightyellow''], k + 1)"
| "dot_expr fmt_date (CDSL_EXPR_ARRAY _ es) k =
     (case dot_elements fmt_date k es (k + 1) of (ds, n) \<Rightarrow> (Dot_Node k ''[]'' ''diamond'' ''lightgreen'' # ds, n))"
| "dot_expr fmt_date (CDSL_EXPR_ID _ x) k = ([Dot_Node k x ''ellipse'' ''lightblue''], k + 1)"
| "dot_expr fmt_date (CDSL_EXPR_BINARY _ op a b) k =
     (case dot_expr fmt_date a (k + 1) of (da, m) \<Rightarrow>
        case dot_expr fmt_date b m of (db, n) \<Rightarrow>
          (Dot_Node k (cdsl_op_name op) ''diamond'' ''lightgreen'' # da @ [Dot_Edge k (k + 1)] @ db @ [Dot_Edge k m], n))"
| "dot_expr fmt_date (CDSL_EXPR_UNARY _ op e) k =
     (case dot_expr fmt_date e (k + 1) of (de, n) \<Rightarrow>
        (Dot_Node k (if op = CDSL_OP_NEG then ''NEG'' else ''NOT'') ''diamond'' ''lightgreen'' # de @ [Dot_Edge k (k + 1)], n))"
| "dot_expr fmt_date (CDSL_EXPR_CALL _ f es) k = ([Dot_Node k (f @ ''()'') ''box'' ''lightpink''], k + 1)"
| "dot_expr fmt_date (CDSL_EXPR_ERROR _) k = ([Dot_Node k ''<error>'' ''box'' ''red''], k + 1)"
| "dot_elements fmt_date root [] k = ([], k)"
| "dot_elements fmt_date root (e # es) k =
     (case dot_expr fmt_date e k of (de, m) \<Rightarrow>
        case dot_elements fmt_date root es m of (ds, n) \<Rightarrow> (de @ [Dot_Edge root k] @ ds, n))"

text \<open>A missing condition prints nothing, but the edge to it is still printed.\<close>

definition dot_condition :: "(i64 \<Rightarrow> string) \<Rightarrow> cdsl_expr option \<Rightarrow> string \<Rightarrow> nat \<Rightarrow> dot_item list \<times> nat" where
  "dot_condition fmt_date e parent k =
     (case (case e of None \<Rightarrow> ([], k) | Some e \<Rightarrow> dot_expr fmt_date e k) of
        (ds, n) \<Rightarrow> (ds @ [Dot_Root parent k], n))"

subsection \<open>Rules\<close>

fun dot_cases :: "(i64 \<Rightarrow> string) \<Rightarrow> string \<Rightarrow> nat \<Rightarrow> cdsl_case list \<Rightarrow> nat \<Rightarrow> dot_item list \<times> nat" where
  "dot_cases fmt_date m cnum [] k = ([], k)"
| \<open>dot_cases fmt_date m cnum (c # cs) k =
     (let name = ''case_'' @ m @ ''_'' @ dec_of_nat cnum
      in case dot_condition fmt_date (case_condition c) name k of (dc, k1) \<Rightarrow>
         case dot_cases fmt_date m (cnum + 1) cs k1 of (ds, n) \<Rightarrow>
           ([Dot_Line (''  '' @ name @ '' [label="CASE '' @ dec_of_nat (cnum + 1) @ ''",shape=diamond,style=filled,fillcolor=lightgreen];''),
             Dot_Line (''  metric_'' @ m @ '' -> '' @ name @ '';'')] @ dc @ ds, n))\<close>

definition dot_metric :: "(i64 \<Rightarrow> string) \<Rightarrow> string \<Rightarrow> cdsl_metric \<Rightarrow> nat \<Rightarrow> dot_item list \<times> nat" where
  \<open>dot_metric fmt_date rname m k =
     (let weight = cdsl_meta_get_int (met_meta m) ''weight'' 0;
          critical = c_true (cdsl_meta_get_bool (met_meta m) ''is_critical'' 0);
          name = met_name m
      in case dot_cases fmt_date name 0 (met_cases m) k of (ds, n) \<Rightarrow>
         ([Dot_Line (''  metric_'' @ name @ '' [label="'' @ name @ [CHR 0x5C] @ ''n(weight='' @ dec_of_int (sint weight)
             @ (if critical then '',critical'' else []) @ '')",shape=box,style=filled,fillcolor=''
             @ (if critical then ''salmon'' else ''lightcyan'') @ ''];''),
           Dot_Line (''  rule_'' @ rname @ '' -> metric_'' @ name @ '';''), Dot_Line []]
          @ ds
          @ [Dot_Line (''  default_'' @ name @ '' [label="DEFAULT",shape=box,style=filled,fillcolor=lightgray];''),
             Dot_Line (''  metric_'' @ name @ '' -> default_'' @ name @ '';''), Dot_Line []], n))\<close>

fun dot_metrics :: "(i64 \<Rightarrow> string) \<Rightarrow> string \<Rightarrow> cdsl_metric list \<Rightarrow> nat \<Rightarrow> dot_item list \<times> nat" where
  "dot_metrics fmt_date rname [] k = ([], k)"
| "dot_metrics fmt_date rname (m # ms) k =
     (case dot_metric fmt_date rname m k of (dm, k1) \<Rightarrow>
        case dot_metrics fmt_date rname ms k1 of (ds, n) \<Rightarrow> (dm @ ds, n))"

definition dot_simple :: "(i64 \<Rightarrow> string) \<Rightarrow> string \<Rightarrow> cdsl_rule \<Rightarrow> nat \<Rightarrow> dot_item list \<times> nat" where
  \<open>dot_simple fmt_date rname r k =
     (case dot_condition fmt_date (rule_when r) (''when_'' @ rname) k of (dw, n) \<Rightarrow>
        ([Dot_Line (''  when_'' @ rname @ '' [label="WHEN",shape=diamond,style=filled,fillcolor=lightgreen];''),
          Dot_Line (''  rule_'' @ rname @ '' -> when_'' @ rname @ '';'')]
         @ dw
         @ (case rule_then r of None \<Rightarrow> []
            | Some a \<Rightarrow>
                [Dot_Line (''  then_'' @ rname @ '' [label="THEN: '' @ act_name a @ ''()",shape=box,style=filled,fillcolor=lightpink];''),
                 Dot_Line (''  rule_'' @ rname @ '' -> then_'' @ rname @ '';'')])
         @ [Dot_Line (''  pass_'' @ rname @ '' [label="PASSED",shape=box,style=filled,fillcolor=lightgreen];''),
            Dot_Line (''  fail_'' @ rname @ '' [label="FAILED",shape=box,style=filled,fillcolor=salmon];''),
            Dot_Line (''  when_'' @ rname @ '' -> pass_'' @ rname @ '' [label="false"];''),
            Dot_Line (''  when_'' @ rname @ '' -> fail_'' @ rname @ '' [label="true"];'')], n))\<close>

definition dot_header :: "string \<Rightarrow> string \<Rightarrow> dot_item list" where
  \<open>dot_header name dir =
     [Dot_Line (''digraph '' @ name @ '' {''), Dot_Line (''  rankdir='' @ dir @ '';''),
      Dot_Line ''  node [fontname="Helvetica"];'', Dot_Line []]\<close>

definition rule_items :: "(i64 \<Rightarrow> string) \<Rightarrow> cdsl_rule \<Rightarrow> dot_item list" where
  \<open>rule_items fmt_date r =
     (let rname = rule_name r; simple = (rule_metrics r = [])
      in dot_header (''rule_'' @ rname) ''TB''
         @ [Dot_Line (''  rule_'' @ rname @ '' [label="'' @ rname @ [CHR 0x5C]
              @ (if simple then ''n(Simple Rule)'' else ''n(Metric Rule)'') @ ''",shape=box,style=filled,fillcolor=gray];''),
            Dot_Line []]
         @ fst (if simple then dot_simple fmt_date rname r 0 else dot_metrics fmt_date rname (rule_metrics r) 0)
         @ [Dot_Line ''}''])\<close>

definition cdsl_rule_to_dot :: "(i64 \<Rightarrow> string) \<Rightarrow> cdsl_rule option \<Rightarrow> string option" where
  "cdsl_rule_to_dot fmt_date r =
     map_option (\<lambda>r. strbuf_text 4096 (map dot_text (rule_items fmt_date r))) r"

definition cdsl_rule_to_dot_file :: "(i64 \<Rightarrow> string) \<Rightarrow> cdsl_rule option \<Rightarrow> string \<Rightarrow> files \<Rightarrow> bool \<times> files" where
  "cdsl_rule_to_dot_file fmt_date r path fs =
     (case cdsl_rule_to_dot fmt_date r of None \<Rightarrow> (False, fs) | Some dot \<Rightarrow> write_file path dot fs)"

subsection \<open>Rule sets\<close>

text \<open>The dependencies of a rule, cut off at 1023 bytes.\<close>

function dot_deps :: "string \<Rightarrow> string option \<times> string \<Rightarrow> string list" where
  "dot_deps name (None, st) = []"
| "dot_deps name (Some tok, st) =
     out_line (''  rule_'' @ name @ '' -> rule_'' @ dep_name tok @ '' [style=dashed,color=gray];'')
       # dot_deps name (strtok st)"
  by pat_completeness auto
termination
proof (relation "measure (\<lambda>(name, tok, st). case tok of None \<Rightarrow> 0 | Some _ \<Rightarrow> Suc (length st))")
  show "((name, strtok st), name, Some tok, st) \<in> measure (\<lambda>(name, tok, st). case tok of None \<Rightarrow> 0 | Some _ \<Rightarrow> Suc (length st))"
    for name tok st
    using strtok_shorter [of st] by (cases "strtok st") (auto split: option.split)
qed simp

definition dot_entry :: "ruleset_entry \<Rightarrow> string list" where
  \<open>dot_entry e =
     (let r = re_rule e
      in [out_line (''  rule_'' @ rule_name r @ '' [label="'' @ rule_name r @ [CHR 0x5C] @ ''npriority='' @ dec_of_int (re_priority e)
            @ [CHR 0x5C] @ ''n(vars: '' @ (case rule_when r of None \<Rightarrow> ''metrics'' | Some _ \<Rightarrow> ''present'')
            @ '', action: '' @ (case rule_then r of None \<Rightarrow> ''multiple'' | Some a \<Rightarrow> act_name a)
            @ '')",shape=box,style=filled,fillcolor=lightblue];'')]
         @ (case depends_on e of None \<Rightarrow> []
            | Some deps \<Rightarrow> dot_deps (rule_name r) (strtok (take 1023 deps))))\<close>

definition cdsl_ruleset_to_dot :: "cdsl_ruleset option \<Rightarrow> string option" where
  "cdsl_ruleset_to_dot set0 =
     map_option (\<lambda>rs. strbuf_text 4096
       (map dot_text (dot_header ''ruleset'' ''LR'') @ concat (map dot_entry (rs_entries rs)) @ [out_line ''}''])) set0"

definition cdsl_ruleset_to_dot_file :: "cdsl_ruleset option \<Rightarrow> string \<Rightarrow> files \<Rightarrow> bool \<times> files" where
  "cdsl_ruleset_to_dot_file set0 path fs =
     (case cdsl_ruleset_to_dot set0 of None \<Rightarrow> (False, fs) | Some dot \<Rightarrow> write_file path dot fs)"

subsection \<open>The graph is a forest\<close>

definition dot_nodes :: "dot_item list \<Rightarrow> nat list" where
  "dot_nodes ds = concat (map (\<lambda>d. case d of Dot_Node i _ _ _ \<Rightarrow> [i] | _ \<Rightarrow> []) ds)"

definition dot_edges :: "dot_item list \<Rightarrow> (nat \<times> nat) list" where
  "dot_edges ds = concat (map (\<lambda>d. case d of Dot_Edge i j \<Rightarrow> [(i, j)] | _ \<Rightarrow> []) ds)"

definition dot_roots :: "dot_item list \<Rightarrow> nat list" where
  "dot_roots ds = concat (map (\<lambda>d. case d of Dot_Root _ i \<Rightarrow> [i] | _ \<Rightarrow> []) ds)"

lemma dot_parts [simp]:
  "dot_nodes [] = []" "dot_nodes (d # ds) = (case d of Dot_Node i _ _ _ \<Rightarrow> [i] | _ \<Rightarrow> []) @ dot_nodes ds"
  "dot_nodes (ds @ ds') = dot_nodes ds @ dot_nodes ds'"
  "dot_edges [] = []" "dot_edges (d # ds) = (case d of Dot_Edge i j \<Rightarrow> [(i, j)] | _ \<Rightarrow> []) @ dot_edges ds"
  "dot_edges (ds @ ds') = dot_edges ds @ dot_edges ds'"
  "dot_roots [] = []" "dot_roots (d # ds) = (case d of Dot_Root _ i \<Rightarrow> [i] | _ \<Rightarrow> []) @ dot_roots ds"
  "dot_roots (ds @ ds') = dot_roots ds @ dot_roots ds'"
  by (simp_all add: dot_nodes_def dot_edges_def dot_roots_def)

text \<open>
  Lines for the nodes \<open>k, \<dots>, n - 1\<close>, each declared once, in order; edges lead to greater numbers, and
  each of the nodes \<open>j, \<dots>, n - 1\<close> has exactly one edge to it, the edges from outside a condition
  included.
\<close>

definition forest :: "nat \<Rightarrow> nat \<Rightarrow> nat \<Rightarrow> dot_item list \<Rightarrow> bool" where
  "forest k j n ds \<longleftrightarrow> k \<le> j \<and> j \<le> n \<and> dot_nodes ds = [k..<n]
     \<and> list_all (\<lambda>(a, b). a < b) (dot_edges ds)
     \<and> mset (map snd (dot_edges ds) @ dot_roots ds) = mset [j..<n]"

lemma forest_append:
  assumes "forest k j m ds" and "forest m m n ds'"
  shows "forest k j n (ds @ ds')"
proof -
  have "[i..<n] = [i..<m] @ [m..<n]" if "i \<le> m" for i
    using assms that upt_add_eq_append [of i m "n - m"] by (simp add: forest_def)
  note up = this [of k] this [of j]
  have "mset (map snd (dot_edges (ds @ ds')) @ dot_roots (ds @ ds'))
      = mset (map snd (dot_edges ds) @ dot_roots ds) + mset (map snd (dot_edges ds') @ dot_roots ds')"
    by simp
  also have "\<dots> = mset [j..<m] + mset [m..<n]" using assms unfolding forest_def by (simp only:)
  also have "\<dots> = mset [j..<n]" using up assms by (simp add: forest_def)
  finally show ?thesis using assms up unfolding forest_def by (simp del: mset_append mset_map)
qed

lemma forest_lines:
  "forest k j n ds \<Longrightarrow> list_all (\<lambda>d. \<exists>l. d = Dot_Line l) ls \<Longrightarrow> forest k j n (ls @ ds) \<and> forest k j n (ds @ ls)"
  by (induction ls) (auto simp: forest_def)

lemma forest_empty: "forest k k k []"
  by (simp add: forest_def)

lemma forest_node: "forest (Suc k) (Suc k) n ds \<Longrightarrow> forest k (Suc k) n (Dot_Node k x y z # ds)"
  by (auto simp: forest_def upt_rec [of k])

lemma forest_leaf: "forest k (Suc k) (Suc k) [Dot_Node k x y z]"
  by (simp add: forest_def)

lemma forest_edge: "forest k (Suc k) n ds \<Longrightarrow> i < k \<Longrightarrow> forest k k n (ds @ [Dot_Edge i k])"
  by (auto simp: forest_def upt_rec [of k])

lemma forest_root: "forest k (Suc k) n ds \<Longrightarrow> forest k k n (ds @ [Dot_Root p k])"
  by (auto simp: forest_def upt_rec [of k])

lemma forest_expr:
  "dot_expr fmt e k = (ds, n) \<Longrightarrow> forest k (Suc k) n ds"
  "dot_elements fmt root es k = (ds, n) \<Longrightarrow> root < k \<Longrightarrow> forest k k n ds"
proof (induction fmt e k and fmt root es k arbitrary: ds n and ds n rule: dot_expr_dot_elements.induct)
  case (9 fmt l op a b k)
  obtain da m where a: "dot_expr fmt a (k + 1) = (da, m)" by fastforce
  obtain db m' where b: "dot_expr fmt b m = (db, m')" by fastforce
  have "forest (Suc k) (Suc k) m (da @ [Dot_Edge k (Suc k)])"
    using 9(1) a by (intro forest_edge) simp_all
  moreover from this have "k < m" by (auto simp: forest_def)
  then have "forest m m m' (db @ [Dot_Edge k m])"
    using 9(2) a b by (intro forest_edge) simp_all
  ultimately have "forest (Suc k) (Suc k) m' ((da @ [Dot_Edge k (Suc k)]) @ db @ [Dot_Edge k m])"
    by (rule forest_append)
  then show ?case using 9(3) a b by (auto intro: forest_node)
next
  case (10 fmt l op e k)
  obtain de m where e: "dot_expr fmt e (k + 1) = (de, m)" by fastforce
  then have "forest (Suc k) (Suc k) m (de @ [Dot_Edge k (Suc k)])"
    using 10(1) by (intro forest_edge) simp_all
  then show ?case using 10(2) e by (auto intro: forest_node)
next
  case (14 fmt root e es k)
  obtain de m where e: "dot_expr fmt e k = (de, m)" by fastforce
  obtain ds' m' where es: "dot_elements fmt root es m = (ds', m')" by fastforce
  have f: "forest k k m (de @ [Dot_Edge root k])" using 14 e by (intro forest_edge) simp_all
  then have "root < m" using 14(4) by (auto simp: forest_def)
  then have "forest m m m' ds'" using 14(2) e es by simp
  from forest_append [OF f this] show ?case using 14(3) e es by simp
qed (auto simp: forest_leaf forest_empty intro: forest_node split: prod.splits)

lemma forest_condition:
  "dot_condition fmt (Some e) p k = (ds, n) \<Longrightarrow> forest k k n ds"
  using forest_expr(1) [of fmt e k] by (auto simp: dot_condition_def forest_root split: prod.splits)

lemma forest_cases:
  "list_all (\<lambda>c. case_condition c \<noteq> None) cs \<Longrightarrow> dot_cases fmt m i cs k = (ds, n) \<Longrightarrow> forest k k n ds"
proof (induction cs arbitrary: i k ds)
  case (Cons c cs)
  then obtain e where e: "case_condition c = Some e" by auto
  obtain dc k1 where 1: "dot_condition fmt (Some e) (''case_'' @ m @ ''_'' @ dec_of_nat i) k = (dc, k1)" by fastforce
  obtain ds' n' where 2: "dot_cases fmt m (i + 1) cs k1 = (ds', n')" by fastforce
  have "forest k k n' (dc @ ds')"
    using forest_condition [OF 1] Cons.IH [of "i + 1" k1 ds'] Cons.prems 2 e 1 by (intro forest_append) (auto simp: Let_def)
  then show ?case
    using Cons.prems(2) 1 2 e by (auto simp: Let_def forest_def ac_simps)
qed (simp add: forest_empty)

lemma forest_metric:
  assumes "list_all (\<lambda>c. case_condition c \<noteq> None) (met_cases m)" and "dot_metric fmt rname m k = (ds, n)"
  shows "forest k k n ds"
proof -
  obtain ds' n' where d: "dot_cases fmt (met_name m) 0 (met_cases m) k = (ds', n')" by fastforce
  from forest_cases [OF assms(1) this] have "forest k k n' ds'" .
  then show ?thesis using assms(2) d by (auto simp: dot_metric_def Let_def forest_def)
qed

lemma forest_metrics:
  "list_all (\<lambda>m. list_all (\<lambda>c. case_condition c \<noteq> None) (met_cases m)) ms
     \<Longrightarrow> dot_metrics fmt rname ms k = (ds, n) \<Longrightarrow> forest k k n ds"
proof (induction ms arbitrary: k ds)
  case (Cons m ms)
  obtain dm k1 where 1: "dot_metric fmt rname m k = (dm, k1)" by fastforce
  obtain ds' n' where 2: "dot_metrics fmt rname ms k1 = (ds', n')" by fastforce
  from Cons forest_metric [OF _ 1] 1 2 show ?case by (auto intro: forest_append)
qed (simp add: forest_empty)

definition has_conditions :: "cdsl_rule \<Rightarrow> bool" where
  "has_conditions r \<longleftrightarrow>
     (if rule_metrics r = [] then rule_when r \<noteq> None
      else list_all (\<lambda>m. list_all (\<lambda>c. case_condition c \<noteq> None) (met_cases m)) (rule_metrics r))"

lemma forest_rule:
  assumes "has_conditions r"
  shows "\<exists>n. forest 0 0 n (rule_items fmt r)"
proof -
  obtain ds n where d: "(if rule_metrics r = [] then dot_simple fmt (rule_name r) r 0
      else dot_metrics fmt (rule_name r) (rule_metrics r) 0) = (ds, n)" by fastforce
  have "forest 0 0 n ds"
  proof (cases "rule_metrics r = []")
    case True
    then obtain e where e: "rule_when r = Some e" using assms by (auto simp: has_conditions_def)
    obtain dw n' where w: "dot_condition fmt (Some e) (''when_'' @ rule_name r) 0 = (dw, n')" by fastforce
    from forest_condition [OF w] show ?thesis
      using d True e w by (auto simp: dot_simple_def forest_def split: option.split)
  next
    case False
    then show ?thesis using d assms forest_metrics by (auto simp: has_conditions_def)
  qed
  then show ?thesis using d by (intro exI [of _ n]) (simp add: rule_items_def Let_def dot_header_def forest_def)
qed

text \<open>
  Claim C36. The graph of a rule whose conditions are all there declares every numbered node once,
  and every such node has exactly one edge to it, from a node with a smaller number or from the
  case or \<open>WHEN\<close> node of its condition: each condition is drawn as a tree of its own.
\<close>

theorem rule_graph_forest:
  assumes "has_conditions r"
  shows "cdsl_rule_to_dot fmt (Some r) = Some (concat (map dot_text (rule_items fmt r)))
    \<and> (\<exists>n. dot_nodes (rule_items fmt r) = [0..<n]
        \<and> mset (map snd (dot_edges (rule_items fmt r)) @ dot_roots (rule_items fmt r)) = mset [0..<n]
        \<and> list_all (\<lambda>(a, b). a < b) (dot_edges (rule_items fmt r)))"
  using forest_rule [OF assms, of fmt] by (auto simp: forest_def cdsl_rule_to_dot_def)

definition rule_drawn :: cdsl_rule where
  "rule_drawn = \<lparr>rule_name = ''r'', rule_meta = [],
     rule_when = Some (CDSL_EXPR_BINARY (1, 2) CDSL_OP_AND (CDSL_EXPR_ID (1, 1) ''a'')
       (CDSL_EXPR_UNARY (1, 3) CDSL_OP_NOT (CDSL_EXPR_ID (1, 4) ''b''))),
     rule_then = None, rule_metrics = [], rule_line = 1, rule_column = 1\<rparr>"

lemma rule_graph_forest_witness:
  "dot_nodes (rule_items (\<lambda>_. []) rule_drawn) = [0, 1, 2, 3] \<and> dot_roots (rule_items (\<lambda>_. []) rule_drawn) = [0]
    \<and> dot_edges (rule_items (\<lambda>_. []) rule_drawn) = [(0, 1), (2, 3), (0, 2)]
    \<and> mset (map snd (dot_edges (rule_items (\<lambda>_. []) rule_drawn)) @ dot_roots (rule_items (\<lambda>_. []) rule_drawn)) = mset [0..<4]"
proof -
  let ?ds = "rule_items (\<lambda>_. []) rule_drawn"
  have n: "dot_nodes ?ds = [0, 1, 2, 3]" "dot_roots ?ds = [0]" "dot_edges ?ds = [(0, 1), (2, 3), (0, 2)]"
    by (simp_all add: rule_items_def rule_drawn_def dot_simple_def dot_condition_def dot_header_def Let_def)
  have "has_conditions rule_drawn" by (simp add: has_conditions_def rule_drawn_def)
  from rule_graph_forest [OF this, of "\<lambda>_. []"] obtain k
    where "dot_nodes ?ds = [0..<k]" "mset (map snd (dot_edges ?ds) @ dot_roots ?ds) = mset [0..<k]" by blast
  moreover from this(1) n(1) have "length [0..<k] = length [0, 1, 2, 3 :: nat]" by simp
  then have "k = 4" by simp
  ultimately show ?thesis using n by blast
qed

end
