(* ===== verification/Cdsl_Lsp.thy ===== *)
theory Cdsl_Lsp
  imports Cdsl_Cache Cdsl_Report_Json
begin

section \<open>The language server (\<open>tools/cdsl-lsp/main.c\<close>)\<close>

text \<open>
  The server reads framed messages from its standard input and answers them one by one. The state
  is what its global variables hold; the buffers for input and output are arguments and results.
  The list of diagnostics is assumed to fit the buffer it is collected in.
\<close>

subsection \<open>JSON helpers\<close>

definition MAX_MSG :: nat where
  "MAX_MSG = 65536"

fun json_esc :: "nat \<Rightarrow> nat \<Rightarrow> string \<Rightarrow> string" where
  "json_esc j sz [] = []"
| "json_esc j sz (c # cs) =
     (if j < sz - 2 then
        (if (c = CHR 0x22 \<or> c = CHR 0x5C) \<and> j < sz - 3
         then CHR 0x5C # c # json_esc (j + 2) sz cs else c # json_esc (j + 1) sz cs)
      else [])"

definition json_get_str :: "string \<Rightarrow> string \<Rightarrow> nat \<Rightarrow> string option" where
  "json_get_str json key sz =
     (let pat = snprintf_buf 256 ([CHR 0x22] @ key @ [CHR 0x22] @ '':'' @ [CHR 0x22])
      in map_option (\<lambda>p. take (sz - 1) (takeWhile (\<lambda>c. c \<noteq> CHR 0x22) (drop (length pat) p))) (find_text json pat))"

definition json_get_int :: "string \<Rightarrow> string \<Rightarrow> i32 option" where
  "json_get_int json key =
     (let pat = snprintf_buf 128 ([CHR 0x22] @ key @ [CHR 0x22] @ '':'')
      in map_option (\<lambda>p. c_atoi (drop (length pat) p)) (find_text json pat))"

subsection \<open>Messages\<close>

definition send_message :: "string \<Rightarrow> string" where
  "send_message json =
     ''Content-Length: '' @ dec_of_nat (length json) @ [CHR 0x0D, CHR 0x0A, CHR 0x0D, CHR 0x0A] @ json"

text \<open>What \<open>sscanf\<close> reads with \<open>Content-Length: %d\<close>; the length stays zero when it does not match.\<close>

definition scan_length :: "string \<Rightarrow> int" where
  "scan_length header =
     (if take 15 header = ''Content-Length:'' then sint (c_atoi (drop 15 header)) else 0)"

text \<open>The rest behind the next line feed; none when the input ends before, since the loop then never ends.\<close>

fun skip_line :: "string \<Rightarrow> string option" where
  "skip_line [] = None"
| "skip_line (c # cs) = (if c = CHR 0x0A then Some cs else skip_line cs)"

datatype read_result = Message string string | No_Message | Waits_Forever

definition read_message :: "string \<Rightarrow> read_result" where
  "read_message stdin =
     (if stdin = [] then No_Message
      else let header = fgets_line 256 stdin; len = scan_length header
           in case skip_line (drop (length header) stdin) of
                None \<Rightarrow> Waits_Forever
              | Some body \<Rightarrow>
                  if len \<le> 0 \<or> int MAX_MSG \<le> len then No_Message
                  else Message (take (nat len) body) (drop (nat len) body))"

subsection \<open>State\<close>

record lsp_state =
  ls_schema :: cdsl_schema
  ls_uri :: string
  ls_text :: string
  ls_doc_version :: i32

definition init_schema :: cdsl_schema where
  "init_schema =
     fold (\<lambda>(n, ts) s. cdsl_schema_register_action s n CDSL_TYPE_VOID ts)
       [(''block'', [CDSL_TYPE_STRING]), (''reject'', [CDSL_TYPE_STRING]), (''approve'', [CDSL_TYPE_STRING]),
        (''record_warning'', [CDSL_TYPE_STRING]), (''score'', [CDSL_TYPE_INT])]
       (fold (\<lambda>(n, t) s. cdsl_schema_register_var s n t)
         [(''user.age'', CDSL_TYPE_INT), (''user.name'', CDSL_TYPE_STRING), (''user.email'', CDSL_TYPE_STRING),
          (''user.role'', CDSL_TYPE_STRING), (''transaction.amount'', CDSL_TYPE_FLOAT),
          (''transaction.type'', CDSL_TYPE_STRING), (''transaction.date'', CDSL_TYPE_DATE),
          (''supplier.capital'', CDSL_TYPE_INT), (''supplier.rating'', CDSL_TYPE_FLOAT),
          (''score.total'', CDSL_TYPE_FLOAT), (''score.pass_threshold'', CDSL_TYPE_INT),
          (''big.id'', CDSL_TYPE_LONG), (''big.count'', CDSL_TYPE_INT), (''start'', CDSL_TYPE_DATE),
          (''name'', CDSL_TYPE_STRING), (''a'', CDSL_TYPE_INT), (''x'', CDSL_TYPE_INT), (''y'', CDSL_TYPE_FLOAT)]
         cdsl_schema_create)"

definition lsp_init :: lsp_state where
  "lsp_init = \<lparr>ls_schema = init_schema, ls_uri = [], ls_text = [], ls_doc_version = 0\<rparr>"

subsection \<open>Diagnostics\<close>

definition append_diag :: "string \<Rightarrow> int \<Rightarrow> int \<Rightarrow> string \<Rightarrow> string option \<Rightarrow> string" where
  \<open>append_diag items lineno severity msg hint =
     (let has_hint = (case hint of None \<Rightarrow> [] | Some h \<Rightarrow> h)
      in items @ snprintf_buf 1024
           (''{"range":{"start":{"line":'' @ dec_of_int lineno @ '',"character":0},"end":{"line":'' @ dec_of_int lineno
            @ '',"character":0}},"severity":'' @ dec_of_int severity @ '',"message":"'' @ json_esc 0 1024 msg @ ''"''
            @ (if has_hint = [] then [] else '',"hint":"'' @ json_esc 0 1024 has_hint @ ''"'')
            @ ''}'' @ (if items = [] then [] else '','')))\<close>

definition diag_line :: "cdsl_error \<Rightarrow> int" where
  "diag_line e = (if 0 < err_line e then err_line e - 1 else 0)"

definition add_verify_diag :: "cdsl_error \<Rightarrow> string \<Rightarrow> string" where
  "add_verify_diag e items =
     append_diag items (diag_line e) (if err_kind e = CDSL_ERR_WARNING then 2 else 1) (err_message e) (err_hint e)"

definition add_parse_diag :: "cdsl_error \<Rightarrow> string \<Rightarrow> string" where
  "add_parse_diag e items = append_diag items (diag_line e) 1 (err_message e) (err_hint e)"

definition diagnostics :: "yyparse \<Rightarrow> lsp_state \<Rightarrow> string" where
  "diagnostics yyparse st =
     (if ls_text st = [] then []
      else case cdsl_parse_string yyparse (Some (ls_text st)) (Some None) of (rule, errs) \<Rightarrow>
        let verr = (case rule of None \<Rightarrow> [] | Some r \<Rightarrow> el_errors (cdsl_verify_rule_detailed (Some r) (Some (ls_schema st))));
            perr = (case errs of Some (Some l) \<Rightarrow> el_errors l | _ \<Rightarrow> [])
        in fold add_parse_diag perr (fold add_verify_diag verr []))"

definition publish_diagnostics :: "yyparse \<Rightarrow> lsp_state \<Rightarrow> string" where
  \<open>publish_diagnostics yyparse st = snprintf_buf MAX_MSG
     (''{"jsonrpc":"2.0","method":"textDocument/publishDiagnostics","params":{"uri":"'' @ ls_uri st
      @ ''","diagnostics":['' @ diagnostics yyparse st @ '']}}'')\<close>

subsection \<open>Completions\<close>

definition g_keywords :: "string list" where
  "g_keywords = [''RULE'', ''META'', ''WHEN'', ''THEN'', ''METRIC'', ''CASE'', ''DEFAULT'', ''TEMPLATE'',
     ''EXTENDS'', ''AND'', ''OR'', ''NOT'', ''true'', ''false'']"

definition g_builtins :: "string list" where
  "g_builtins = [''strlen('', ''contains('', ''uppercase('', ''lowercase('', ''trim('', ''startswith('',
     ''endswith('', ''abs('', ''min('', ''max('', ''round('', ''typeof('', ''now('', ''is_before('',
     ''is_after('', ''days_between('', ''date_add('']"

definition g_metas :: "string list" where
  "g_metas = [''description'', ''weight'', ''is_critical'', ''pass_threshold'', ''partial_threshold'', ''depends_on'']"

text \<open>
  \<open>g_types\<close> has no entry for \<open>ARRAY\<close>, so that \<open>ARRAY\<close> is shown as \<open>VOID\<close>; the entry for \<open>VOID\<close> is
  the null pointer that ends the table, and is printed as glibc does.
\<close>

fun g_types :: "cdsl_type \<Rightarrow> string" where
  "g_types CDSL_TYPE_INT = ''INT''"
| "g_types CDSL_TYPE_FLOAT = ''FLOAT''"
| "g_types CDSL_TYPE_BOOL = ''BOOL''"
| "g_types CDSL_TYPE_STRING = ''STRING''"
| "g_types CDSL_TYPE_DATE = ''DATE''"
| "g_types CDSL_TYPE_LONG = ''LONG''"
| "g_types CDSL_TYPE_ARRAY = ''VOID''"
| "g_types CDSL_TYPE_VOID = ''(null)''"

definition schema_var_type :: "cdsl_schema \<Rightarrow> string \<Rightarrow> cdsl_type" where
  "schema_var_type s x = (case find_var s x of None \<Rightarrow> CDSL_TYPE_VOID | Some v \<Rightarrow> vs_type v)"

definition schema_var_readonly :: "cdsl_schema \<Rightarrow> string \<Rightarrow> bool" where
  "schema_var_readonly s x = (case find_var s x of None \<Rightarrow> False | Some v \<Rightarrow> vs_is_readonly v)"

definition add_item :: "string \<Rightarrow> string \<Rightarrow> string" where
  "add_item t items = items @ snprintf_buf 512 (t @ (if items = [] then [] else '',''))"

definition completion_items :: "cdsl_schema \<Rightarrow> string list" where
  \<open>completion_items s =
     map (\<lambda>k. ''{"label":"'' @ k @ ''","kind":14}'') g_keywords
     @ map (\<lambda>b. ''{"label":"'' @ b @ ''","kind":2,"insertText":"'' @ b @ ''"}'') g_builtins
     @ map (\<lambda>x. ''{"label":"'' @ x @ ''","kind":6,"detail":"'' @ g_types (schema_var_type s x) @ ''"}'') (sc_vars s)
     @ map (\<lambda>a. ''{"label":"'' @ a @ ''(","kind":2,"detail":"action"}'') (sc_actions s)
     @ map (\<lambda>m. ''{"label":"'' @ m @ ''","kind":14,"detail":"META key"}'') g_metas\<close>

definition send_completions :: "lsp_state \<Rightarrow> string" where
  \<open>send_completions st = snprintf_buf MAX_MSG
     (''{"jsonrpc":"2.0","id":'' @ dec_of_int (sint (ls_doc_version st))
      @ '',"result":{"isIncomplete":false,"items":['' @ fold add_item (completion_items (ls_schema st)) []
      @ '']}}'')\<close>

subsection \<open>Hover\<close>

definition hover_result :: "cdsl_schema \<Rightarrow> string \<Rightarrow> string" where
  \<open>hover_result s g_in =
     (case find (\<lambda>x. c_strstr g_in x) (sc_vars s) of
        None \<Rightarrow> ''"No information available"''
      | Some x \<Rightarrow> snprintf_buf 1024
          (''"Variable `'' @ x @ ''`: '' @ g_types (schema_var_type s x)
           @ (if schema_var_readonly s x then '' (read-only)'' else []) @ ''"''))\<close>

definition send_hover :: "string \<Rightarrow> lsp_state \<Rightarrow> string" where
  \<open>send_hover g_in st = snprintf_buf MAX_MSG
     (''{"jsonrpc":"2.0","id":'' @ dec_of_int (sint (ls_doc_version st))
      @ '',"result":{"contents":{"kind":"markdown","value":'' @ hover_result (ls_schema st) g_in @ ''}}}'')\<close>

subsection \<open>The main loop\<close>

text \<open>
  The text of a document, decoded; \<open>n\<close> counts the rounds of the loop.
\<close>

fun decode_text :: "nat \<Rightarrow> string \<Rightarrow> string" where
  "decode_text n [] = []"
| "decode_text n (c # cs) =
     (if MAX_MSG - 1 \<le> n then []
      else if c = CHR 0x5C \<and> cs \<noteq> [] then
        (if hd cs = CHR ''n'' then CHR 0x0A # decode_text (n + 1) (tl cs)
         else if hd cs = CHR ''r'' then decode_text (n + 1) (tl cs)
         else if hd cs = CHR 0x22 then CHR 0x22 # decode_text (n + 1) (tl cs)
         else if hd cs = CHR 0x5C then CHR 0x5C # decode_text (n + 1) (tl cs)
         else c # decode_text (n + 1) cs)
      else if c = CHR 0x22 then [] else c # decode_text (n + 1) cs)"

definition set_version :: "string \<Rightarrow> i32 \<Rightarrow> lsp_state \<Rightarrow> lsp_state" where
  "set_version g_in d st = st\<lparr>ls_doc_version := (case json_get_int g_in ''id'' of None \<Rightarrow> d | Some v \<Rightarrow> v)\<rparr>"

definition initialize_result :: "lsp_state \<Rightarrow> string" where
  \<open>initialize_result st = snprintf_buf MAX_MSG
     (''{"jsonrpc":"2.0","id":'' @ dec_of_int (sint (ls_doc_version st))
      @ '',"result":{"capabilities":{"textDocumentSync":{"openClose":true,"change":2},''
      @ ''"completionProvider":{"triggerCharacters":["."," "]},"hoverProvider":true}}}'')\<close>

definition shutdown_result :: "lsp_state \<Rightarrow> string" where
  \<open>shutdown_result st = snprintf_buf MAX_MSG
     (''{"jsonrpc":"2.0","id":'' @ dec_of_int (sint (ls_doc_version st)) @ '',"result":null}'')\<close>

definition text_mark :: string where
  \<open>text_mark = ''"text":"''\<close>

definition open_document :: "string \<Rightarrow> lsp_state \<Rightarrow> lsp_state" where
  \<open>open_document g_in st =
     st\<lparr>ls_uri := (case json_get_str g_in ''uri'' 1024 of None \<Rightarrow> ls_uri st | Some u \<Rightarrow> u),
        ls_text := (case find_text g_in text_mark of None \<Rightarrow> ls_text st | Some p \<Rightarrow> decode_text 0 (drop 8 p))\<rparr>\<close>

text \<open>One message: the state, the messages sent, and whether the loop goes on.\<close>

definition handle_message :: "yyparse \<Rightarrow> string \<Rightarrow> lsp_state \<Rightarrow> lsp_state \<times> string list \<times> bool" where
  "handle_message yyparse g_in st =
     (if c_strstr g_in ''initialize'' then
        let st' = set_version g_in 1 st in (st', [initialize_result st'], True)
      else if c_strstr g_in ''initialized'' then (st, [], True)
      else if c_strstr g_in ''textDocument/didOpen'' \<or> c_strstr g_in ''textDocument/didChange'' then
        let st' = open_document g_in st in (st', [publish_diagnostics yyparse st'], True)
      else if c_strstr g_in ''textDocument/completion'' then
        let st' = set_version g_in (ls_doc_version st) st in (st', [send_completions st'], True)
      else if c_strstr g_in ''textDocument/hover'' then
        let st' = set_version g_in (ls_doc_version st) st in (st', [send_hover g_in st'], True)
      else if c_strstr g_in ''textDocument/didClose'' then (st\<lparr>ls_uri := [], ls_text := []\<rparr>, [], True)
      else if c_strstr g_in ''shutdown'' then
        let st' = set_version g_in (ls_doc_version st) st in (st', [shutdown_result st'], True)
      else if c_strstr g_in ''exit'' then (st, [], False)
      else (st, [], True))"

lemma skip_line_shorter: "skip_line s = Some r \<Longrightarrow> length r < length s"
  by (induction s) (auto split: if_splits)

lemma read_message_shorter: "read_message s = Message m r \<Longrightarrow> length r < length s"
  using skip_line_shorter [of "drop (length (fgets_line 256 s)) s"]
  by (fastforce simp: read_message_def Let_def split: if_splits option.splits)

text \<open>
  What the server writes for what it reads until the input ends, and the reason it stops: the end of
  the loop, or waiting for a line feed that never comes.
\<close>

datatype lsp_end = Loop_Ended | Hangs

function lsp_main :: "yyparse \<Rightarrow> lsp_state \<Rightarrow> string \<Rightarrow> string list \<times> lsp_end" where
  "lsp_main yyparse st stdin =
     (case read_message stdin of
        No_Message \<Rightarrow> ([], Loop_Ended)
      | Waits_Forever \<Rightarrow> ([], Hangs)
      | Message g_in rest \<Rightarrow>
          (case handle_message yyparse g_in st of (st', out, goes_on) \<Rightarrow>
             if goes_on then (case lsp_main yyparse st' rest of (outs, e) \<Rightarrow> (map send_message out @ outs, e))
             else (map send_message out, Loop_Ended)))"
  by auto

termination
  by (relation "measure (\<lambda>(y, st, s). length s)") (simp_all add: read_message_shorter)

declare lsp_main.simps [simp del]

subsection \<open>Framed messages are served in order\<close>

fun serve :: "yyparse \<Rightarrow> lsp_state \<Rightarrow> string list \<Rightarrow> string list" where
  "serve yyparse st [] = []"
| "serve yyparse st (m # ms) =
     (case handle_message yyparse m st of (st', out, goes_on) \<Rightarrow>
        map send_message out @ (if goes_on then serve yyparse st' ms else []))"

lemma foldl_digits:
  "list_all c_isdigit ds \<Longrightarrow>
     foldl (\<lambda>acc c. acc * 10 + int (char_code c - 48)) (int a) ds = int (foldl (\<lambda>acc c. acc * 10 + xdigit_value c) a ds)"
proof (induction ds arbitrary: a)
  case (Cons c ds)
  then have "int a * 10 + int (char_code c - 48) = int (a * 10 + xdigit_value c)" by (simp add: xdigit_value_def)
  with Cons show ?case by (simp only: foldl.simps list.pred_inject)
qed simp

lemma atoi_dec:
  assumes "n < 2147483648" and "s = [] \<or> \<not> c_isdigit (hd s)"
  shows "sint (c_atoi (CHR '' '' # dec_of_nat n @ s)) = int n"
proof -
  obtain c cs where c: "dec_of_nat n = c # cs" by (cases "dec_of_nat n") auto
  have d: "list_all c_isdigit (c # cs)" "radix_value 10 (c # cs) = n"
    using dec_of_nat_digits [of n] by (simp_all add: c)
  then have tw: "takeWhile c_isdigit (c # cs @ s) = c # cs"
    using assms(2) by (cases s; simp add: list_all_iff)
  have v: "digits_value (c # cs) = int n"
    using foldl_digits [OF d(1), of 0] d(2) by (simp add: digits_value_def radix_value_def)
  have h: "\<not> c_isspace c" "c \<noteq> CHR ''-''" "c \<noteq> CHR ''+''" "c_isspace (CHR '' '')"
    using d(1) by (auto simp: c_isdigit_def c_isspace_def char_code_def)
  have "c_strtol (CHR '' '' # (c # cs) @ s) = Some \<lparr>stl_value = int n, stl_end = dropWhile c_isdigit (c # cs @ s), stl_range_error = \<not> in_i64 (int n)\<rparr>"
    using h tw v assms(1) by (simp add: c_strtol_def Let_def)
  moreover have "in_i32 (int n)" using assms(1) by (simp add: in_i32_def)
  moreover from this have "sint (word_of_int (int n) :: i32) = int n" by (rule sint_word_of_int_i32)
  ultimately show ?thesis unfolding c_atoi_def c by (simp del: of_int_of_nat_eq)
qed

lemma read_sent:
  assumes "0 < length m" and "length m < MAX_MSG"
  shows "read_message (send_message m @ r) = Message m r"
proof -
  let ?n = "dec_of_nat (length m)"
  let ?h = "''Content-Length: '' @ ?n @ [CHR 0x0D]"
  have n: "length ?n \<le> 5" using assms(2) by (intro dec_of_nat_length) (simp_all add: MAX_MSG_def)
  have dig: "list_all c_isdigit ?n" using dec_of_nat_digits by blast
  then have "CHR 0x0A \<notin> set ?n" "CHR 0x0D \<notin> set ?n" by (auto simp: list_all_iff c_isdigit_def char_code_def)
  then have tw: "takeWhile (\<lambda>c. c \<noteq> CHR 0x0A) (?h @ CHR 0x0A # t) = ?h" for t
    by (subst takeWhile_append2) auto
  have line: "fgets_line 256 (?h @ CHR 0x0A # t) = ?h @ [CHR 0x0A]" for t
    using n unfolding fgets_line_def tw Let_def by simp
  have l: "scan_length (?h @ [CHR 0x0A]) = int (length m)"
    using atoi_dec [of "length m" "[CHR 0x0D, CHR 0x0A]"] assms(2)
    by (simp add: scan_length_def MAX_MSG_def c_isdigit_def char_code_def)
  have e: "send_message m @ r = ?h @ CHR 0x0A # [CHR 0x0D, CHR 0x0A] @ m @ r" by (simp add: send_message_def)
  show ?thesis
    using assms unfolding e read_message_def line l Let_def by simp
qed

lemma serve_sent:
  "list_all (\<lambda>m. 0 < length m \<and> length m < MAX_MSG) ms \<Longrightarrow>
     lsp_main yyparse st (concat (map send_message ms)) = (serve yyparse st ms, Loop_Ended)"
proof (induction ms arbitrary: st)
  case Nil
  show ?case by (simp add: lsp_main.simps [of yyparse st "[]"] read_message_def)
next
  case (Cons m ms)
  then have "read_message (send_message m @ concat (map send_message ms)) = Message m (concat (map send_message ms))"
    by (intro read_sent) simp_all
  then show ?case
    using Cons by (simp add: lsp_main.simps [of yyparse st "send_message m @ concat (map send_message ms)"] split: prod.split)
qed

subsection \<open>Documents\<close>

text \<open>\<open>strstr\<close> finds a text exactly when it is a contiguous part.\<close>

lemma c_strstr_iff: "c_strstr s t \<longleftrightarrow> (\<exists>u v. s = u @ t @ v)"
proof (induction s)
  case (Cons c s)
  have "c_strncmp (c # s) t (length t) = 0 \<longleftrightarrow> (\<exists>v. c # s = t @ v)"
    unfolding c_strncmp_def by (auto, metis append_take_drop_id)
  moreover have "(\<exists>u v. c # s = u @ t @ v) \<longleftrightarrow> (\<exists>v. c # s = t @ v) \<or> (\<exists>u v. s = u @ t @ v)"
    by (metis append_Cons append_Nil list.inject neq_Nil_conv)
  ultimately show ?case using Cons by simp
qed simp

lemma strstr_inner: "c_strstr s (u @ t @ v) \<Longrightarrow> c_strstr s t"
  unfolding c_strstr_iff by (metis append.assoc)

text \<open>How a client writes the characters of a text in JSON.\<close>

definition lsp_escape :: "char \<Rightarrow> string" where
  "lsp_escape c =
     (if c = CHR 0x22 then [CHR 0x5C, CHR 0x22] else if c = CHR 0x5C then [CHR 0x5C, CHR 0x5C]
      else if c = CHR 0x0A then [CHR 0x5C, CHR ''n''] else if c = CHR 0x0D then [CHR 0x5C, CHR ''r''] else [c])"

lemma decode_escaped:
  "n + length t < MAX_MSG - 1 \<Longrightarrow>
     decode_text n (concat (map lsp_escape t) @ CHR 0x22 # post) = filter (\<lambda>c. c \<noteq> CHR 0x0D) t"
  by (induction t arbitrary: n) (simp_all add: lsp_escape_def)

lemma open_text:
  assumes "\<not> c_strstr (pre @ butlast text_mark) text_mark" and "length t < MAX_MSG - 1"
  shows "ls_text (open_document (pre @ text_mark @ concat (map lsp_escape t) @ CHR 0x22 # post) st)
    = filter (\<lambda>c. c \<noteq> CHR 0x0D) t"
proof -
  have "find_text (pre @ text_mark @ concat (map lsp_escape t) @ CHR 0x22 # post) text_mark
      = Some (text_mark @ concat (map lsp_escape t) @ CHR 0x22 # post)"
    by (rule find_text_first) (use assms(1) in \<open>simp_all add: text_mark_def\<close>)
  then show ?thesis using decode_escaped [of 0 t post] assms(2) by (simp add: open_document_def text_mark_def)
qed

text \<open>
  Claim C12. Messages framed with their length are served one by one and in order, however they
  follow each other in the input: the server writes the answers to each of them, framed the same
  way, until it is asked to exit or the input ends, and it does not hang.
\<close>

theorem lsp_serves_messages_in_order:
  assumes "list_all (\<lambda>m. 0 < length m \<and> length m < MAX_MSG) ms"
  shows "lsp_main yyparse st (concat (map send_message ms)) = (serve yyparse st ms, Loop_Ended)"
  using assms by (rule serve_sent)

lemma lsp_serves_messages_in_order_witness:
  \<open>lsp_main toy_parse lsp_init (concat (map send_message [''{"id":7,"method":"shutdown"}'', ''{"method":"exit"}'']))
     = ([send_message ''{"jsonrpc":"2.0","id":7,"result":null}''], Loop_Ended)\<close>
proof -
  have f: \<open>json_get_int ''{"id":7,"method":"shutdown"}'' ''id'' = Some 7\<close>
    by (simp add: json_get_int_def snprintf_buf_def c_strncmp_def c_atoi_def c_strtol_def Let_def digits_value_def
        c_isdigit_def c_isspace_def char_code_def)
  have d: "dec_of_int 7 = ''7''" by code_simp
  show ?thesis
    using lsp_serves_messages_in_order [of \<open>[''{"id":7,"method":"shutdown"}'', ''{"method":"exit"}'']\<close> toy_parse lsp_init]
    by (simp add: MAX_MSG_def handle_message_def c_strncmp_def set_version_def f Let_def shutdown_result_def d snprintf_buf_def lsp_init_def)
qed

text \<open>A list of diagnostics is empty exactly when the text has no error.\<close>

lemma append_diag_not_Nil: "append_diag items l s m h \<noteq> []"
  by (simp add: append_diag_def snprintf_buf_def Let_def)

lemma fold_diags_Nil:
  "fold add_verify_diag es items = [] \<longleftrightarrow> es = [] \<and> items = []"
  "fold add_parse_diag es items = [] \<longleftrightarrow> es = [] \<and> items = []"
  by (induction es arbitrary: items) (simp_all add: add_verify_diag_def add_parse_diag_def append_diag_not_Nil)

definition verify_errors :: "cdsl_rule option \<Rightarrow> cdsl_schema \<Rightarrow> cdsl_error list" where
  "verify_errors rule s = (case rule of None \<Rightarrow> [] | Some r \<Rightarrow> el_errors (cdsl_verify_rule_detailed (Some r) (Some s)))"

definition parse_errors :: "cdsl_error_list option option \<Rightarrow> cdsl_error list" where
  "parse_errors errs = (case errs of Some (Some l) \<Rightarrow> el_errors l | _ \<Rightarrow> [])"

definition document_clean :: "yyparse \<Rightarrow> cdsl_schema \<Rightarrow> string \<Rightarrow> bool" where
  "document_clean yyparse s t \<longleftrightarrow> t = []
     \<or> (case cdsl_parse_string yyparse (Some t) (Some None) of (rule, errs) \<Rightarrow>
          verify_errors rule s = [] \<and> parse_errors errs = [])"

lemma diagnostics_Nil: "diagnostics yyparse st = [] \<longleftrightarrow> document_clean yyparse (ls_schema st) (ls_text st)"
proof (cases "cdsl_parse_string yyparse (Some (ls_text st)) (Some None)")
  case (Pair rule errs)
  have "diagnostics yyparse st = (if ls_text st = [] then []
      else fold add_parse_diag (parse_errors errs) (fold add_verify_diag (verify_errors rule (ls_schema st)) []))"
    by (simp add: diagnostics_def Pair verify_errors_def parse_errors_def)
  then show ?thesis by (simp add: document_clean_def Pair fold_diags_Nil) blast
qed


definition sample_open :: string where
  \<open>sample_open = ''{"method":"textDocument/didOpen",'' @ text_mark @ ''r''
     @ [CHR 0x5C, CHR ''r'', CHR 0x5C, CHR ''n'', CHR 0x5C, CHR 0x22, CHR 0x22] @ ''}''\<close>


subsection \<open>What does not work\<close>

lemma fold_add_item: "\<exists>rest. fold add_item ts items = items @ rest"
proof (induction ts arbitrary: items)
  case (Cons t ts)
  from Cons [of "add_item t items"] show ?case by (auto simp: add_item_def)
qed simp

text \<open>The comma behind an item is left out for the first only: completions are no JSON list.\<close>

lemma completions_malformed:
  \<open>\<exists>rest. fold add_item (completion_items s) []
     = ''{"label":"RULE","kind":14}{"label":"META","kind":14},'' @ rest\<close>
proof -
  obtain ts where \<open>completion_items s = [''{"label":"RULE","kind":14}'', ''{"label":"META","kind":14}''] @ ts\<close>
    by (simp add: completion_items_def g_keywords_def)
  moreover have \<open>add_item ''{"label":"META","kind":14}'' (add_item ''{"label":"RULE","kind":14}'' [])
      = ''{"label":"RULE","kind":14}{"label":"META","kind":14},''\<close>
    by (simp add: add_item_def snprintf_buf_def)
  ultimately show ?thesis
    using fold_add_item [of ts \<open>''{"label":"RULE","kind":14}{"label":"META","kind":14},''\<close>] by simp
qed

text \<open>
  A hover request is answered with the variable \<open>x\<close> or \<open>y\<close>, whatever the cursor points to, because
  the name \<open>x\<close> occurs in the name of the method.
\<close>

definition hover_text :: "string \<Rightarrow> string \<Rightarrow> string" where
  \<open>hover_text x t = ''"Variable `'' @ x @ ''`: '' @ t @ ''"''\<close>

lemma hover_is_blind:
  assumes "c_strstr m ''textDocument/hover''"
  shows "hover_result init_schema m
    = (if c_strstr m ''y'' then hover_text ''y'' ''FLOAT'' else hover_text ''x'' ''INT'')"
proof -
  have v: "sc_vars init_schema = ''y'' # ''x'' # drop 2 (sc_vars init_schema)" by (simp add: init_schema_def schema_eval)
  have "c_strstr m ''x''" using assms strstr_inner [of m "''te''" "''x''" "''tDocument/hover''"] by simp
  moreover have "find (\<lambda>x. c_strstr m x) (sc_vars init_schema) = Some (if c_strstr m ''y'' then ''y'' else ''x'')"
    using calculation by (subst v) simp
  moreover have "find_var init_schema ''y'' = Some \<lparr>vs_type = CDSL_TYPE_FLOAT, vs_is_readonly = False\<rparr>"
    "find_var init_schema ''x'' = Some \<lparr>vs_type = CDSL_TYPE_INT, vs_is_readonly = False\<rparr>"
    by (simp_all add: init_schema_def schema_eval)
  ultimately show ?thesis
    by (simp add: hover_result_def schema_var_type_def schema_var_readonly_def hover_text_def snprintf_buf_def)
qed

end
