(* ===== verification/Cdsl_Xml.thy ===== *)
theory Cdsl_Xml
  imports Cdsl_Prelude
begin

section \<open>The XML tokenizer of the document parser (\<open>src/doc/xml_parser.cpp\<close>)\<close>

text \<open>
  A pull parser over a buffer. A pointer into the buffer is the text from there to the end; the end
  of the buffer is followed by a terminator, which is none of the characters that are looked for.
\<close>

subsection \<open>Tokens\<close>

datatype xml_type = START_ELEMENT | END_ELEMENT | TEXT | END

text \<open>\<open>xp_after\<close> is the text behind the name of the current tag, where \<open>attr\<close> searches.\<close>

record xml_parser =
  xp_pos :: string
  xp_type :: xml_type
  xp_tag :: string
  xp_after :: string
  xp_text :: string
  xp_pending :: "(string \<times> string) option"

definition XmlParser :: "string \<Rightarrow> xml_parser" where
  "XmlParser data =
     \<lparr>xp_pos = data, xp_type = END, xp_tag = [], xp_after = [], xp_text = [], xp_pending = None\<rparr>"

definition xml_space :: "char \<Rightarrow> bool" where
  "xml_space c \<longleftrightarrow> c = CHR '' '' \<or> c = CHR 0x09 \<or> c = CHR 0x0A \<or> c = CHR 0x0D"

definition skipWhitespace :: "string \<Rightarrow> string" where
  "skipWhitespace s = dropWhile xml_space s"

fun skip_comment :: "string \<Rightarrow> string" where
  "skip_comment (a # b # c # s) =
     (if a = CHR ''-'' \<and> b = CHR ''-'' \<and> c = CHR ''>'' then s else skip_comment (b # c # s))"
| "skip_comment s = s"

definition skip_declaration :: "string \<Rightarrow> string" where
  "skip_declaration s = drop 1 (dropWhile (\<lambda>c. c \<noteq> CHR ''>'') s)"

text \<open>A comment or declaration, from behind its \<open><\<close>.\<close>

definition skip_markup :: "string \<Rightarrow> string" where
  "skip_markup start =
     (if take 3 start = ''!--'' then skip_comment (drop 3 start) else skip_declaration start)"

definition name_char :: "char \<Rightarrow> bool" where
  "name_char c \<longleftrightarrow> c \<noteq> CHR ''>'' \<and> c \<noteq> CHR ''/'' \<and> \<not> xml_space c"

text \<open>A tag, from behind its \<open><\<close>.\<close>

definition read_tag :: "string \<Rightarrow> xml_parser \<Rightarrow> xml_parser" where
  "read_tag s xp =
     (let is_end = (take 1 s = ''/'');
          start = (if is_end then drop 1 s else s);
          name = takeWhile name_char start;
          after = dropWhile name_char start;
          skipped = (if is_end then [] else takeWhile (\<lambda>c. c \<noteq> CHR ''>'') after);
          self_closing = (name @ skipped \<noteq> [] \<and> last (name @ skipped) = CHR ''/'')
      in xp\<lparr>xp_tag := name, xp_after := after,
            xp_pos := drop (length skipped + 1) after,
            xp_type := (if is_end then END_ELEMENT else START_ELEMENT),
            xp_pending := (if self_closing then Some (name, after) else None)\<rparr>)"

definition read_text :: "string \<Rightarrow> xml_parser \<Rightarrow> xml_parser" where
  "read_text s xp =
     xp\<lparr>xp_text := takeWhile (\<lambda>c. c \<noteq> CHR ''<'') s, xp_pos := dropWhile (\<lambda>c. c \<noteq> CHR ''<'') s, xp_type := TEXT\<rparr>"

lemma skip_comment_le: "length (skip_comment s) \<le> length s"
  by (induction s rule: skip_comment.induct) auto

lemma skip_markup_le: "length (skip_markup s) \<le> length s"
proof -
  have "length (dropWhile P s) \<le> length s" for P by (rule length_dropWhile_le)
  then show ?thesis
    using skip_comment_le [of "drop 3 s"] by (auto simp: skip_markup_def skip_declaration_def intro: le_trans diff_le_self)
qed

lemma skipWhitespace_le: "length (skipWhitespace s) \<le> length s"
  by (simp add: skipWhitespace_def length_dropWhile_le)

text \<open>At a \<open><\<close>: comments and declarations are skipped, up to a tag, a text or the end.\<close>

function advanceTag :: "string \<Rightarrow> xml_parser \<Rightarrow> xml_parser" where
  "advanceTag start xp =
     (if take 1 start = ''?'' \<or> take 1 start = ''!'' then
        (case skipWhitespace (skip_markup start) of
           [] \<Rightarrow> xp\<lparr>xp_pos := [], xp_type := END\<rparr>
         | c # cs \<Rightarrow> if c = CHR ''<'' then advanceTag cs xp else read_text (c # cs) xp)
      else read_tag start xp)"
  by auto

termination
proof (relation "measure (\<lambda>(s, xp). length s)")
  show "((cs, xp), start, xp) \<in> measure (\<lambda>(s, xp). length s)"
    if "skipWhitespace (skip_markup start) = c # cs" for start c cs and xp :: xml_parser
    using skipWhitespace_le [of "skip_markup start"] skip_markup_le [of start] that by simp
qed simp

declare advanceTag.simps [simp del]

text \<open>
  The next token. \<open>advanceText\<close> finds a character that is no \<open><\<close>, so its call of \<open>next\<close> for an empty
  text is never made.
\<close>

definition next_token :: "xml_parser \<Rightarrow> xml_parser" where
  "next_token xp =
     (case xp_pending xp of
        Some (t, after) \<Rightarrow> xp\<lparr>xp_tag := t, xp_after := after, xp_pending := None, xp_type := END_ELEMENT\<rparr>
      | None \<Rightarrow>
          (case skipWhitespace (xp_pos xp) of
             [] \<Rightarrow> xp\<lparr>xp_pos := [], xp_type := END\<rparr>
           | c # cs \<Rightarrow> if c = CHR ''<'' then advanceTag cs xp else read_text (c # cs) xp))"

definition xml_match :: "string \<Rightarrow> xml_parser \<Rightarrow> bool" where
  "xml_match qname xp \<longleftrightarrow> qname = xp_tag xp"

subsection \<open>Attributes\<close>

text \<open>
  The search for an attribute, from behind the name of the tag. Values are copied to a buffer of 4096
  bytes.
\<close>

definition attr_value :: "string \<Rightarrow> string option" where
  "attr_value v =
     (case v of [] \<Rightarrow> None
      | q # r \<Rightarrow> if q = CHR 0x22 \<or> q = CHR 0x27 then Some (take 4095 (takeWhile (\<lambda>c. c \<noteq> q) r)) else None)"

definition attr_here :: "string \<Rightarrow> string \<Rightarrow> string option" where
  "attr_here name s =
     (if take (length name + 1) s = name @ ''='' then attr_value (drop (length name + 1) s) else None)"

definition attr_char :: "char \<Rightarrow> bool" where
  "attr_char c \<longleftrightarrow> \<not> c_isspace c \<and> c \<noteq> CHR ''>'' \<and> c \<noteq> CHR ''/''"

function find_attr :: "string \<Rightarrow> string \<Rightarrow> string option" where
  "find_attr name s =
     (if s = [] \<or> hd s = CHR ''>'' \<or> hd s = CHR ''/'' then None
      else let t = dropWhile c_isspace s
           in if t = [] \<or> hd t = CHR ''>'' \<or> hd t = CHR ''/'' then None
              else (case attr_here name t of
                      Some v \<Rightarrow> Some v
                    | None \<Rightarrow> find_attr name (dropWhile attr_char t)))"
  by auto

termination
proof (relation "measure (\<lambda>(n, s). length s)")
  show "((name, dropWhile attr_char t), name, s) \<in> measure (\<lambda>(n, s). length s)"
    if t: "t = dropWhile c_isspace s" and h: "\<not> (t = [] \<or> hd t = CHR ''>'' \<or> hd t = CHR ''/'')" for name s t
  proof -
    have "\<not> c_isspace (hd t)" using t h hd_dropWhile [of c_isspace s] by auto
    then obtain c u where "t = c # u" "attr_char c" using h by (cases t) (auto simp: attr_char_def)
    then have "length (dropWhile attr_char t) < length t" by (simp add: length_dropWhile_le less_Suc_eq_le)
    moreover have "length t \<le> length s" unfolding t by (rule length_dropWhile_le)
    ultimately show ?thesis by simp
  qed
qed simp

declare find_attr.simps [simp del]

definition xml_attr :: "string \<Rightarrow> xml_parser \<Rightarrow> string option" where
  "xml_attr name xp = find_attr name (xp_after xp)"

subsection \<open>All tokens\<close>

lemma read_tag_pos: "length (xp_pos (read_tag s xp)) < Suc (length s)"
proof -
  have "length (xp_pos (read_tag s xp)) \<le> length (dropWhile name_char (if take 1 s = ''/'' then drop 1 s else s))"
    by (simp add: read_tag_def Let_def)
  also have "\<dots> \<le> length (if take 1 s = ''/'' then drop 1 s else s)" by (rule length_dropWhile_le)
  also have "\<dots> \<le> length s" by simp
  finally show ?thesis by simp
qed

lemma read_text_pos: "c \<noteq> CHR ''<'' \<Longrightarrow> length (xp_pos (read_text (c # cs) xp)) < Suc (length cs)"
  by (simp add: read_text_def length_dropWhile_le less_Suc_eq_le)

lemma advanceTag_pos: "length (xp_pos (advanceTag s xp)) < Suc (length s)"
proof (induction s xp rule: advanceTag.induct)
  case (1 s xp)
  have "length (c # cs) \<le> length s" if "skipWhitespace (skip_markup s) = c # cs" for c cs
    using skipWhitespace_le [of "skip_markup s"] skip_markup_le [of s] that by simp
  with 1 read_text_pos show ?case
    by (subst advanceTag.simps) (fastforce split: list.split intro: read_tag_pos less_le_trans)
qed

definition tokens_left :: "xml_parser \<Rightarrow> nat" where
  "tokens_left xp = 2 * length (xp_pos xp) + (if xp_pending xp = None then 0 else 1)"

lemma next_token_progress:
  assumes "xp_type (next_token xp) \<noteq> END"
  shows "tokens_left (next_token xp) < tokens_left xp"
proof (cases "xp_pending xp")
  case (Some p)
  then show ?thesis by (cases p) (simp add: next_token_def tokens_left_def)
next
  case None
  from assms None obtain c cs where s: "skipWhitespace (xp_pos xp) = c # cs"
    by (cases "skipWhitespace (xp_pos xp)") (auto simp: next_token_def)
  have "length (c # cs) \<le> length (xp_pos xp)" using skipWhitespace_le [of "xp_pos xp"] s by simp
  moreover have "length (xp_pos (next_token xp)) < Suc (length cs)"
    using None s advanceTag_pos [of cs xp] read_text_pos [of c cs xp] by (simp add: next_token_def)
  ultimately show ?thesis using None by (auto simp: tokens_left_def)
qed

text \<open>
  What a client sees: the states of the parser after every token, up to the end of the document.
\<close>

function all_tokens :: "xml_parser \<Rightarrow> xml_parser list" where
  "all_tokens xp =
     (let xp' = next_token xp in if xp_type xp' = END then [] else xp' # all_tokens xp')"
  by auto

termination
  by (relation "measure tokens_left") (simp_all add: next_token_progress)

declare all_tokens.simps [simp del]

subsection \<open>Documents\<close>

datatype xml =
    Elem string "(string \<times> string) list" bool "xml list"
  | Chars string
  | Comment string
  | Declaration string
  | Space string

definition attr_text :: "string \<times> string \<Rightarrow> string" where
  \<open>attr_text a = '' '' @ fst a @ ''="'' @ snd a @ ''"''\<close>

definition attrs_text :: "(string \<times> string) list \<Rightarrow> string" where
  "attrs_text as = concat (map attr_text as)"

text \<open>An element without content is written with an end tag or, with the flag, as one tag.\<close>

fun render :: "xml \<Rightarrow> string" and renders :: "xml list \<Rightarrow> string" where
  "render (Elem n as short ns) =
     ''<'' @ n @ attrs_text as
     @ (if short \<and> ns = [] then ''/>'' else ''>'' @ renders ns @ ''</'' @ n @ ''>'')"
| "render (Chars t) = t"
| "render (Comment c) = ''<!--'' @ c @ ''-->''"
| "render (Declaration d) = ''<'' @ d @ ''>''"
| "render (Space w) = w"
| "renders [] = []"
| "renders (x # xs) = render x @ renders xs"

definition name_ok :: "string \<Rightarrow> bool" where
  "name_ok n \<longleftrightarrow> n \<noteq> [] \<and> list_all (\<lambda>c. name_char c \<and> attr_char c \<and> c \<noteq> CHR ''='') n \<and> hd n \<noteq> CHR ''!'' \<and> hd n \<noteq> CHR ''?''"

definition value_ok :: "string \<Rightarrow> bool" where
  "value_ok v \<longleftrightarrow> list_all (\<lambda>c. c \<noteq> CHR 0x22 \<and> c \<noteq> CHR ''>'' \<and> c \<noteq> CHR ''/'' \<and> c \<noteq> CHR ''='') v \<and> length v < 4096"

definition is_chars :: "xml \<Rightarrow> bool" where
  "is_chars x = (case x of Chars t \<Rightarrow> True | _ \<Rightarrow> False)"

definition is_markup :: "xml \<Rightarrow> bool" where
  "is_markup x = (case x of Chars t \<Rightarrow> False | Space w \<Rightarrow> False | _ \<Rightarrow> True)"

fun xml_ok :: "xml \<Rightarrow> bool" and xmls_ok :: "xml list \<Rightarrow> bool" where
  "xml_ok (Elem n as short ns) \<longleftrightarrow> name_ok n \<and> list_all (\<lambda>a. name_ok (fst a) \<and> value_ok (snd a)) as \<and> xmls_ok ns"
| "xml_ok (Chars t) \<longleftrightarrow> t \<noteq> [] \<and> \<not> xml_space (hd t) \<and> CHR ''<'' \<notin> set t"
| "xml_ok (Comment c) \<longleftrightarrow> \<not> c_strstr (c @ ''--'') ''-->''"
| "xml_ok (Declaration d) \<longleftrightarrow> d \<noteq> [] \<and> (hd d = CHR ''!'' \<or> hd d = CHR ''?'') \<and> take 3 (d @ ''>'') \<noteq> ''!--'' \<and> CHR ''>'' \<notin> set d"
| "xml_ok (Space w) \<longleftrightarrow> list_all xml_space w"
| "xmls_ok [] = True"
| "xmls_ok (x # xs) \<longleftrightarrow> xml_ok x \<and> xmls_ok xs \<and> (is_chars x \<and> xs \<noteq> [] \<longrightarrow> is_markup (hd xs))"

text \<open>The tokens of a document: kind, name or text, and for a start tag the value of attribute \<open>k\<close>.\<close>

fun events :: "string \<Rightarrow> xml \<Rightarrow> (xml_type \<times> string \<times> string option) list"
  and eventss :: "string \<Rightarrow> xml list \<Rightarrow> (xml_type \<times> string \<times> string option) list" where
  "events k (Elem n as short ns) =
     (START_ELEMENT, n, map_of as k) # eventss k ns @ [(END_ELEMENT, n, None)]"
| "events k (Chars t) = [(TEXT, t, None)]"
| "events k (Comment c) = []"
| "events k (Declaration d) = []"
| "events k (Space w) = []"
| "eventss k [] = []"
| "eventss k (x # xs) = events k x @ eventss k xs"

definition event_of :: "string \<Rightarrow> xml_parser \<Rightarrow> xml_type \<times> string \<times> string option" where
  "event_of k xp =
     (xp_type xp, if xp_type xp = TEXT then xp_text xp else xp_tag xp,
      if xp_type xp = START_ELEMENT then xml_attr k xp else None)"

subsection \<open>Attributes are found\<close>

definition ends_attr :: "string \<Rightarrow> bool" where
  "ends_attr r \<longleftrightarrow> r \<noteq> [] \<and> \<not> attr_char (hd r)"

definition no_attr :: "string \<Rightarrow> bool" where
  "no_attr u \<longleftrightarrow> list_all (\<lambda>c. c \<noteq> CHR ''='' \<and> c \<noteq> CHR ''>'' \<and> c \<noteq> CHR ''/'') u"

lemma find_attr_space: "find_attr k (dropWhile c_isspace s) = find_attr k s"
proof (cases "s = [] \<or> hd s = CHR ''>'' \<or> hd s = CHR ''/''")
  case True
  have "\<not> c_isspace (CHR ''>'')" "\<not> c_isspace (CHR ''/'')" by (simp_all add: c_isspace_def char_code_def)
  with True have "dropWhile c_isspace s = s" by (cases s) auto
  then show ?thesis by simp
next
  case False
  have "dropWhile c_isspace (dropWhile c_isspace s) = dropWhile c_isspace s" by simp
  with False show ?thesis
    unfolding find_attr.simps [of k s] find_attr.simps [of k "dropWhile c_isspace s"] by (simp add: Let_def)
qed

lemma attr_here_none:
  assumes "name_ok k" and "no_attr u" and "ends_attr r"
  shows "attr_here k (u @ r) = None"
proof -
  have "take (length k + 1) (u @ r) \<noteq> k @ ''=''"
  proof
    assume a: "take (length k + 1) (u @ r) = k @ ''=''"
    show False
    proof (cases "length k < length u")
      case True
      then have "u ! length k = (u @ r) ! length k" by (simp add: nth_append)
      also have "\<dots> = take (length k + 1) (u @ r) ! length k" by (rule nth_take [symmetric]) simp
      also have "\<dots> = (k @ ''='') ! length k" unfolding a ..
      finally have "u ! length k = CHR ''=''" by simp
      with True assms(2) show False by (auto simp: no_attr_def list_all_length)
    next
      case False
      then have l: "length u \<le> length k" by simp
      obtain c r' where r: "r = c # r'" "\<not> attr_char c" using assms(3) by (cases r) (auto simp: ends_attr_def)
      have "c = (u @ r) ! length u" using r by simp
      also have "\<dots> = take (length k + 1) (u @ r) ! length u" using l by (intro nth_take [symmetric]) simp
      also have "\<dots> = (k @ ''='') ! length u" unfolding a by simp
      finally have "c = (k @ ''='') ! length u" .
      moreover have "list_all attr_char (k @ ''='')"
        using assms(1) by (auto simp: name_ok_def list_all_iff attr_char_def c_isspace_def char_code_def)
      ultimately show False using r(2) l by (simp add: list_all_length)
    qed
  qed
  then show ?thesis by (simp add: attr_here_def)
qed

lemma no_attr_dropWhile: "no_attr u \<Longrightarrow> no_attr (dropWhile P u)"
  unfolding no_attr_def list_all_iff by (blast dest: set_dropWhileD)

lemma space_shorter:
  assumes "no_attr d" and "d \<noteq> []" and "\<not> attr_char (hd d)"
  shows "length (dropWhile c_isspace d) < length d"
proof -
  obtain c cs where d: "d = c # cs" using assms(2) by (cases d) auto
  then have "c_isspace c" using assms(1,3) by (simp add: no_attr_def attr_char_def)
  then show ?thesis unfolding d by (simp add: less_Suc_eq_le length_dropWhile_le)
qed

text \<open>A word that is no attribute is passed over.\<close>

lemma find_attr_word:
  assumes "name_ok k" and "no_attr e" and "ends_attr r" and "e \<noteq> []" and "\<not> c_isspace (hd e)"
  shows "find_attr k (e @ r) = find_attr k (dropWhile attr_char (e @ r))"
proof -
  obtain c cs where e: "e = c # cs" using assms(4) by (cases e) auto
  have "dropWhile c_isspace (e @ r) = e @ r" using assms(5) by (simp add: e)
  moreover have "c \<noteq> CHR ''>''" "c \<noteq> CHR ''/''" using assms(2) by (simp_all add: e no_attr_def)
  ultimately show ?thesis
    using attr_here_none [OF assms(1-3)] unfolding find_attr.simps [of k "e @ r"] by (simp add: Let_def e)
qed

lemma find_attr_skip:
  "name_ok k \<Longrightarrow> no_attr u \<Longrightarrow> ends_attr r \<Longrightarrow> find_attr k (dropWhile attr_char (u @ r)) = find_attr k r"
proof (induction "length u" arbitrary: u rule: less_induct)
  case less
  let ?d = "dropWhile attr_char u"
  have r: "dropWhile attr_char r = r" using less.prems(3) by (cases r) (auto simp: ends_attr_def)
  show ?case
  proof (cases "?d = []")
    case True
    then show ?thesis using r by (simp add: dropWhile_append)
  next
    case False
    then have d: "dropWhile attr_char (u @ r) = ?d @ r" by (auto simp: dropWhile_append)
    have nd: "no_attr ?d" using less.prems(2) by (rule no_attr_dropWhile)
    let ?e = "dropWhile c_isspace ?d"
    have ne: "no_attr ?e" using nd by (rule no_attr_dropWhile)
    show ?thesis
    proof (cases "?e = []")
      case True
      then have "dropWhile c_isspace (?d @ r) = dropWhile c_isspace r" by (simp add: dropWhile_append)
      then have "find_attr k (dropWhile c_isspace (?d @ r)) = find_attr k (dropWhile c_isspace r)" by (rule arg_cong)
      then show ?thesis unfolding d by (simp only: find_attr_space)
    next
      case False
      then have e: "dropWhile c_isspace (?d @ r) = ?e @ r" by (auto simp: dropWhile_append)
      have "\<not> attr_char (hd ?d)" using \<open>?d \<noteq> []\<close> by (rule hd_dropWhile)
      with nd \<open>?d \<noteq> []\<close> have "length ?e < length ?d" by (rule space_shorter)
      then have "length ?e < length u" using length_dropWhile_le [of attr_char u] by linarith
      from less.hyps [OF this less.prems(1) ne less.prems(3)]
      have 1: "find_attr k (dropWhile attr_char (?e @ r)) = find_attr k r" .
      have "find_attr k (?e @ r) = find_attr k (dropWhile attr_char (?e @ r))"
        using False less.prems(1,3) ne by (intro find_attr_word) (simp_all add: hd_dropWhile)
      with 1 have "find_attr k (dropWhile c_isspace (?d @ r)) = find_attr k r" unfolding e by simp
      then show ?thesis unfolding d by (simp only: find_attr_space)
    qed
  qed
qed

lemma find_attr_end: "r = CHR ''>'' # r' \<or> r = CHR ''/'' # r' \<Longrightarrow> find_attr k r = None"
  by (subst find_attr.simps) auto

lemma attr_here_own:
  assumes "value_ok v"
  shows "attr_here k (k @ CHR ''='' # CHR 0x22 # v @ CHR 0x22 # r) = Some v"
proof -
  have "takeWhile (\<lambda>c. c \<noteq> CHR 0x22) (v @ CHR 0x22 # r) = v"
    using assms by (auto simp: value_ok_def list_all_iff takeWhile_append)
  then show ?thesis using assms by (simp add: attr_here_def attr_value_def value_ok_def)
qed

lemma attr_here_other:
  assumes "name_ok k" and "name_ok n" and "k \<noteq> n"
  shows "attr_here k (n @ CHR ''='' # r) = None"
proof -
  have "take (length k + 1) (n @ CHR ''='' # r) \<noteq> k @ ''=''"
  proof
    assume a: "take (length k + 1) (n @ CHR ''='' # r) = k @ ''=''"
    have e: "CHR ''='' \<notin> set k" "CHR ''='' \<notin> set n" using assms(1,2) by (auto simp: name_ok_def list_all_iff)
    have "takeWhile (\<lambda>c. c \<noteq> CHR ''='') (k @ ''='' @ t) = k" for t
      using e(1) by (auto simp: takeWhile_append)
    moreover have "n @ CHR ''='' # r = (k @ ''='') @ drop (length k + 1) (n @ CHR ''='' # r)"
      unfolding a [symmetric] append_take_drop_id ..
    moreover have "takeWhile (\<lambda>c. c \<noteq> CHR ''='') (n @ CHR ''='' # r) = n"
      using e(2) by (auto simp: takeWhile_append)
    ultimately have "n = k" by (metis append.assoc)
    with assms(3) show False by simp
  qed
  then show ?thesis by (simp add: attr_here_def)
qed

lemma find_attrs:
  assumes "name_ok k" and "list_all (\<lambda>a. name_ok (fst a) \<and> value_ok (snd a)) as"
    and "r = CHR ''>'' # r' \<or> r = CHR ''/'' # r'"
  shows "find_attr k (attrs_text as @ r) = map_of as k"
  using assms(2)
proof (induction as)
  case Nil
  then show ?case using find_attr_end [OF assms(3)] by (simp add: attrs_text_def)
next
  case (Cons a as)
  obtain n v where a: "a = (n, v)" by (cases a)
  with Cons.prems have n: "name_ok n" and v: "value_ok v" by auto
  let ?rest = "attrs_text as @ r"
  let ?t = "n @ CHR ''='' # CHR 0x22 # v @ CHR 0x22 # ?rest"
  have t: "attrs_text (a # as) @ r = CHR '' '' # ?t" by (simp add: a attrs_text_def attr_text_def)
  have hn: "hd ?t \<noteq> CHR ''>''" "hd ?t \<noteq> CHR ''/''" "\<not> c_isspace (hd ?t)"
    using n by (cases n; auto simp: name_ok_def attr_char_def)+
  then have "dropWhile c_isspace ?t = ?t" by (cases n) auto
  moreover have "c_isspace (CHR '' '')" by (simp add: c_isspace_def char_code_def)
  ultimately have s: "dropWhile c_isspace (CHR '' '' # ?t) = ?t" by simp
  have 1: "find_attr k (CHR '' '' # ?t)
      = (case attr_here k ?t of Some w \<Rightarrow> Some w | None \<Rightarrow> find_attr k (dropWhile attr_char ?t))"
    unfolding find_attr.simps [of k "CHR '' '' # ?t"] s using hn by (simp add: Let_def)
  show ?case
  proof (cases "k = n")
    case True
    then show ?thesis unfolding t 1 using attr_here_own [OF v, of k ?rest] by (simp add: a)
  next
    case False
    have q: "attr_char (CHR ''='')" "attr_char (CHR 0x22)" by (simp_all add: attr_char_def c_isspace_def char_code_def)
    have "list_all attr_char n" using n by (auto simp: name_ok_def list_all_iff)
    then have "dropWhile attr_char ?t = dropWhile attr_char ((v @ [CHR 0x22]) @ ?rest)"
      using q by (simp add: dropWhile_append list_all_iff)
    also have "find_attr k \<dots> = find_attr k ?rest"
    proof (rule find_attr_skip [OF assms(1)])
      show "no_attr (v @ [CHR 0x22])" using v by (auto simp: no_attr_def value_ok_def list_all_iff)
      show "ends_attr ?rest"
        using assms(3) by (cases as) (auto simp: ends_attr_def attrs_text_def attr_text_def attr_char_def c_isspace_def char_code_def)
    qed
    finally show ?thesis
      unfolding t 1 using attr_here_other [OF assms(1) n False] Cons False by (simp add: a)
  qed
qed

subsection \<open>Documents are read back\<close>

text \<open>Reading past a rendered part: the events of the part, then the tokens of the rest.\<close>

definition reads :: "string \<Rightarrow> string \<Rightarrow> string \<Rightarrow> (xml_type \<times> string \<times> string option) list \<Rightarrow> bool" where
  "reads k s r es \<longleftrightarrow> (\<forall>xp :: xml_parser. xp_pos xp = s \<and> xp_pending xp = None \<longrightarrow>
     (\<exists>xp'. xp_pos xp' = r \<and> xp_pending xp' = None
        \<and> map (event_of k) (all_tokens xp) = es @ map (event_of k) (all_tokens xp')))"

lemma reads_trans: "reads k s r es \<Longrightarrow> reads k r q fs \<Longrightarrow> reads k s q (es @ fs)"
  unfolding reads_def by (metis append.assoc)

lemma reads_refl: "reads k s s []"
  unfolding reads_def by auto

lemma reads_step:
  assumes "\<And>xp :: xml_parser. xp_pos xp = s \<Longrightarrow> xp_pending xp = None \<Longrightarrow>
      xp_type (next_token xp) \<noteq> END \<and> xp_pos (next_token xp) = r \<and> xp_pending (next_token xp) = None
      \<and> event_of k (next_token xp) = e"
  shows "reads k s r [e]"
  unfolding reads_def
proof (intro allI impI)
  fix xp :: xml_parser assume "xp_pos xp = s \<and> xp_pending xp = None"
  with assms [of xp] show "\<exists>xp'. xp_pos xp' = r \<and> xp_pending xp' = None
      \<and> map (event_of k) (all_tokens xp) = [e] @ map (event_of k) (all_tokens xp')"
    by (intro exI [of _ "next_token xp"]) (subst all_tokens.simps, simp add: Let_def)
qed

lemma read_chars:
  assumes "xml_ok (Chars t)" and "r = [] \<or> hd r = CHR ''<''"
  shows "reads k (t @ r) r [(TEXT, t, None)]"
proof (rule reads_step)
  fix xp :: xml_parser assume xp: "xp_pos xp = t @ r" "xp_pending xp = None"
  obtain c u where t: "t = c # u" "\<not> xml_space c" "c \<noteq> CHR ''<''" using assms(1) by (cases t) auto
  have "takeWhile (\<lambda>c. c \<noteq> CHR ''<'') (t @ r) = t" "dropWhile (\<lambda>c. c \<noteq> CHR ''<'') (t @ r) = r"
    using assms by (cases r; auto simp: takeWhile_append dropWhile_append)+
  then show "xp_type (next_token xp) \<noteq> END \<and> xp_pos (next_token xp) = r \<and> xp_pending (next_token xp) = None
      \<and> event_of k (next_token xp) = (TEXT, t, None)"
    using xp t by (simp add: next_token_def skipWhitespace_def read_text_def event_of_def)
qed

lemma find_text_Cons:
  "find_text (c # cs) t = (if take (length t) (c # cs) = t then Some (c # cs) else find_text cs t)"
  by (simp only: find_text.simps c_strncmp_def c_strcmp_eq_0 take_all order.refl)

lemma skip_to: "find_text s ''-->'' = Some r \<Longrightarrow> skip_comment s = drop 3 r"
proof (induction s rule: skip_comment.induct)
  case (1 a b c s)
  from 1 show ?case
    by (cases "a = CHR ''-'' \<and> b = CHR ''-'' \<and> c = CHR ''>''") (auto simp: find_text_Cons [of a] find_text_Cons [of "CHR ''-''"] simp del: find_text.simps(2))
qed (auto simp: find_text_Cons simp del: find_text.simps(2) split: if_splits)

lemma advanceTag_cong: "advanceTag s (xp\<lparr>xp_pos := r\<rparr>) = advanceTag s xp"
proof (induction s xp rule: advanceTag.induct)
  case (1 s xp)
  have "read_text t (xp\<lparr>xp_pos := r\<rparr>) = read_text t xp" "read_tag t (xp\<lparr>xp_pos := r\<rparr>) = read_tag t xp" for t
    by (simp_all add: read_text_def read_tag_def Let_def)
  with 1 show ?case unfolding advanceTag.simps [of s] by (simp split: list.split)
qed

text \<open>Markup that is skipped, and white space.\<close>

lemma reads_skipped:
  assumes "\<And>xp :: xml_parser. xp_pos xp = s \<Longrightarrow> xp_pending xp = None \<Longrightarrow> next_token xp = next_token (xp\<lparr>xp_pos := r\<rparr>)"
  shows "reads k s r []"
  unfolding reads_def
proof (intro allI impI)
  fix xp :: xml_parser assume xp: "xp_pos xp = s \<and> xp_pending xp = None"
  then have "next_token xp = next_token (xp\<lparr>xp_pos := r\<rparr>)" using assms by blast
  then have "all_tokens xp = all_tokens (xp\<lparr>xp_pos := r\<rparr>)"
    unfolding all_tokens.simps [of xp] all_tokens.simps [of "xp\<lparr>xp_pos := r\<rparr>"] by simp
  with xp show "\<exists>xp'. xp_pos xp' = r \<and> xp_pending xp' = None
      \<and> map (event_of k) (all_tokens xp) = [] @ map (event_of k) (all_tokens xp')"
    by (intro exI [of _ "xp\<lparr>xp_pos := r\<rparr>"]) simp
qed

lemma at_tag: "skipWhitespace (CHR ''<'' # m) = CHR ''<'' # m"
  by (simp add: skipWhitespace_def xml_space_def)

lemma skipped_markup:
  assumes "m \<noteq> []" and "hd m = CHR ''!'' \<or> hd m = CHR ''?''" and "skip_markup m = r"
  shows "reads k (CHR ''<'' # m) r []"
proof (rule reads_skipped)
  fix xp :: xml_parser assume xp: "xp_pos xp = CHR ''<'' # m" "xp_pending xp = None"
  have t: "read_text t (xp\<lparr>xp_pos := r\<rparr>) = read_text t xp" for t by (simp add: read_text_def)
  have "take 1 m = ''?'' \<or> take 1 m = ''!''" using assms(1,2) by (cases m) auto
  then show "next_token xp = next_token (xp\<lparr>xp_pos := r\<rparr>)"
    using xp assms(3)
    by (cases "skipWhitespace r")
      (simp_all add: next_token_def at_tag advanceTag.simps [of m] advanceTag_cong t)
qed

lemma read_comment:
  assumes "xml_ok (Comment c)"
  shows "reads k (render (Comment c) @ r) r []"
proof -
  have "find_text (c @ ''-->'' @ r) ''-->'' = Some (''-->'' @ r)"
    by (rule find_text_first) (use assms in simp_all)
  then have "skip_markup (''!--'' @ c @ ''-->'' @ r) = r" by (simp add: skip_markup_def skip_to)
  from skipped_markup [OF _ _ this] show ?thesis by simp
qed

lemma read_declaration:
  assumes "xml_ok (Declaration d)"
  shows "reads k (render (Declaration d) @ r) r []"
proof -
  have "take 3 (d @ CHR ''>'' # r) \<noteq> ''!--''"
  proof
    assume a: "take 3 (d @ CHR ''>'' # r) = ''!--''"
    show False
    proof (cases "3 \<le> length d")
      case True
      with a assms show False by simp
    next
      case False
      then have "CHR ''>'' \<in> set (take 3 (d @ CHR ''>'' # r))" by (auto simp: take_Cons')
      then show False unfolding a by simp
    qed
  qed
  moreover have "dropWhile (\<lambda>c. c \<noteq> CHR ''>'') (d @ CHR ''>'' # r) = CHR ''>'' # r"
    using assms by (auto simp: dropWhile_append)
  ultimately have "skip_markup (d @ CHR ''>'' # r) = r" by (simp add: skip_markup_def skip_declaration_def)
  from skipped_markup [OF _ _ this] show ?thesis using assms by simp
qed

lemma read_space:
  assumes "list_all xml_space w"
  shows "reads k (w @ r) r []"
proof (rule reads_skipped)
  fix xp :: xml_parser assume xp: "xp_pos xp = w @ r" "xp_pending xp = None"
  have "skipWhitespace (w @ r) = skipWhitespace r" using assms by (simp add: skipWhitespace_def dropWhile_append list_all_iff)
  then show "next_token xp = next_token (xp\<lparr>xp_pos := r\<rparr>)"
    using xp by (simp add: next_token_def advanceTag_cong read_text_def split: list.split)
qed

text \<open>Tags.\<close>

lemma name_chars: "name_ok n \<Longrightarrow> \<forall>c \<in> set n. name_char c"
  by (simp add: name_ok_def list_all_iff)

lemma attrs_no_end:
  "list_all (\<lambda>a. name_ok (fst a) \<and> value_ok (snd a)) as \<Longrightarrow> CHR ''>'' \<notin> set (attrs_text as)"
proof (induction as)
  case (Cons a as)
  have "\<not> name_char (CHR ''>'')" by (simp add: name_char_def)
  then have "CHR ''>'' \<notin> set (fst a)" using Cons.prems name_chars [of "fst a"] by auto
  moreover have "CHR ''>'' \<notin> set (snd a)" using Cons.prems by (auto simp: value_ok_def list_all_iff)
  ultimately show ?case using Cons by (simp add: attrs_text_def attr_text_def)
qed (simp add: attrs_text_def)

lemma attrs_last: "as \<noteq> [] \<Longrightarrow> attrs_text as \<noteq> [] \<and> last (attrs_text as) = CHR 0x22"
  by (induction as rule: rev_induct) (simp_all add: attrs_text_def attr_text_def)

lemma name_of_tag:
  assumes "name_ok n" and "r = CHR ''>'' # q \<or> r = CHR ''/'' # q \<or> r = CHR '' '' # q"
  shows "takeWhile name_char (n @ r) = n" "dropWhile name_char (n @ r) = r"
proof -
  have "\<not> name_char (CHR ''>'')" "\<not> name_char (CHR ''/'')" "\<not> name_char (CHR '' '')"
    by (simp_all add: name_char_def xml_space_def)
  then have "takeWhile name_char r = []" "dropWhile name_char r = r" using assms(2) by auto
  then show "takeWhile name_char (n @ r) = n" "dropWhile name_char (n @ r) = r"
    using name_chars [OF assms(1)] by (simp_all add: takeWhile_append dropWhile_append)
qed

lemma attrs_start: "\<exists>q. attrs_text as @ c # r = c # q \<or> attrs_text as @ c # r = CHR '' '' # q"
  by (cases as) (auto simp: attrs_text_def attr_text_def)

lemma tag_first:
  assumes "name_ok n"
  shows "take 1 (n @ t) \<noteq> ''/''" "take 1 (n @ t) \<noteq> ''!''" "take 1 (n @ t) \<noteq> ''?''"
  using assms by (cases n; auto simp: name_ok_def name_char_def)+

lemma read_start_tag:
  assumes n: "name_ok n" and as: "list_all (\<lambda>a. name_ok (fst a) \<and> value_ok (snd a)) as" and k: "name_ok k"
  shows "reads k (''<'' @ n @ attrs_text as @ ''>'' @ r) r [(START_ELEMENT, n, map_of as k)]"
proof (rule reads_step)
  fix xp :: xml_parser
  assume xp: "xp_pos xp = ''<'' @ n @ attrs_text as @ ''>'' @ r" "xp_pending xp = None"
  let ?t = "attrs_text as @ CHR ''>'' # r"
  have name: "takeWhile name_char (n @ ?t) = n" "dropWhile name_char (n @ ?t) = ?t"
    using attrs_start [of as "CHR ''>''" r] name_of_tag [OF n] by blast+
  have skip: "takeWhile (\<lambda>c. c \<noteq> CHR ''>'') ?t = attrs_text as"
    using attrs_no_end [OF as] by (auto simp: takeWhile_append)
  have l: "last (n @ attrs_text as) \<noteq> CHR ''/''"
    using n attrs_last [of as] by (cases "as = []") (auto simp: name_ok_def list_all_iff name_char_def attrs_text_def last_append)
  have "read_tag (n @ ?t) xp = xp\<lparr>xp_tag := n, xp_after := ?t, xp_pos := r, xp_type := START_ELEMENT, xp_pending := None\<rparr>"
    using tag_first [OF n, of ?t] l unfolding read_tag_def Let_def by (simp add: name skip)
  moreover have "next_token xp = read_tag (n @ ?t) xp"
    using xp tag_first [OF n, of ?t] by (simp add: next_token_def at_tag advanceTag.simps [of "n @ ?t"])
  moreover have "find_attr k ?t = map_of as k" by (rule find_attrs [OF k as]) simp
  ultimately show "xp_type (next_token xp) \<noteq> END \<and> xp_pos (next_token xp) = r \<and> xp_pending (next_token xp) = None
      \<and> event_of k (next_token xp) = (START_ELEMENT, n, map_of as k)"
    by (simp add: event_of_def xml_attr_def)
qed

lemma read_end_tag:
  assumes n: "name_ok n"
  shows "reads k (''</'' @ n @ ''>'' @ r) r [(END_ELEMENT, n, None)]"
proof (rule reads_step)
  fix xp :: xml_parser
  assume xp: "xp_pos xp = ''</'' @ n @ ''>'' @ r" "xp_pending xp = None"
  let ?t = "CHR ''>'' # r"
  have name: "takeWhile name_char (n @ ?t) = n" "dropWhile name_char (n @ ?t) = ?t"
    using name_of_tag [OF n] by blast+
  have "n \<noteq> []" "last n \<noteq> CHR ''/''" using n by (auto simp: name_ok_def list_all_iff name_char_def)
  then have "read_tag (CHR ''/'' # n @ ?t) xp
      = xp\<lparr>xp_tag := n, xp_after := ?t, xp_pos := r, xp_type := END_ELEMENT, xp_pending := None\<rparr>"
    unfolding read_tag_def Let_def by (simp add: name)
  moreover have "next_token xp = read_tag (CHR ''/'' # n @ ?t) xp"
    using xp by (simp add: next_token_def at_tag advanceTag.simps [of "CHR ''/'' # n @ ?t"])
  ultimately show "xp_type (next_token xp) \<noteq> END \<and> xp_pos (next_token xp) = r \<and> xp_pending (next_token xp) = None
      \<and> event_of k (next_token xp) = (END_ELEMENT, n, None)"
    by (simp add: event_of_def)
qed

lemma read_empty_tag:
  assumes n: "name_ok n" and as: "list_all (\<lambda>a. name_ok (fst a) \<and> value_ok (snd a)) as" and k: "name_ok k"
  shows "reads k (''<'' @ n @ attrs_text as @ ''/>'' @ r) r [(START_ELEMENT, n, map_of as k), (END_ELEMENT, n, None)]"
  unfolding reads_def
proof (intro allI impI)
  fix xp :: xml_parser
  assume xp: "xp_pos xp = ''<'' @ n @ attrs_text as @ ''/>'' @ r \<and> xp_pending xp = None"
  let ?t = "attrs_text as @ CHR ''/'' # CHR ''>'' # r"
  have name: "takeWhile name_char (n @ ?t) = n" "dropWhile name_char (n @ ?t) = ?t"
    using attrs_start [of as "CHR ''/''" "CHR ''>'' # r"] name_of_tag [OF n] by blast+
  have skip: "takeWhile (\<lambda>c. c \<noteq> CHR ''>'') ?t = attrs_text as @ ''/''"
    using attrs_no_end [OF as] by (auto simp: takeWhile_append)
  have "read_tag (n @ ?t) xp = xp\<lparr>xp_tag := n, xp_after := ?t, xp_pos := r, xp_type := START_ELEMENT, xp_pending := Some (n, ?t)\<rparr>"
    using tag_first [OF n, of ?t] unfolding read_tag_def Let_def by (simp add: name skip)
  moreover have "next_token xp = read_tag (n @ ?t) xp"
    using xp tag_first [OF n, of ?t] by (simp add: next_token_def at_tag advanceTag.simps [of "n @ ?t"])
  ultimately have 1: "next_token xp
      = xp\<lparr>xp_tag := n, xp_after := ?t, xp_pos := r, xp_type := START_ELEMENT, xp_pending := Some (n, ?t)\<rparr>"
    by simp
  let ?xp2 = "next_token (next_token xp)"
  have 2: "?xp2 = (next_token xp)\<lparr>xp_tag := n, xp_after := ?t, xp_pending := None, xp_type := END_ELEMENT\<rparr>"
    unfolding 1 by (simp add: next_token_def)
  have "xp_type (next_token xp) = START_ELEMENT" by (simp add: 1)
  moreover have "xp_type ?xp2 = END_ELEMENT" by (simp add: 2)
  ultimately have "all_tokens xp = next_token xp # ?xp2 # all_tokens ?xp2"
    by (simp only: all_tokens.simps [of xp] all_tokens.simps [of "next_token xp"] Let_def xml_type.distinct if_False)
  moreover have "event_of k (next_token xp) = (START_ELEMENT, n, map_of as k)"
    using find_attrs [OF k as, of "CHR ''/'' # CHR ''>'' # r" "CHR ''>'' # r"] unfolding 1 by (simp add: event_of_def xml_attr_def)
  moreover have "event_of k ?xp2 = (END_ELEMENT, n, None)" unfolding 2 by (simp add: event_of_def)
  moreover have "xp_pos ?xp2 = r" "xp_pending ?xp2 = None" unfolding 2 by (simp_all add: 1)
  ultimately show "\<exists>xp'. xp_pos xp' = r \<and> xp_pending xp' = None
      \<and> map (event_of k) (all_tokens xp) = [(START_ELEMENT, n, map_of as k), (END_ELEMENT, n, None)] @ map (event_of k) (all_tokens xp')"
    by (intro exI [of _ ?xp2]) simp
qed

lemma renders_start:
  assumes "xs = [] \<or> is_markup (hd xs)" and "r = [] \<or> hd r = CHR ''<''"
  shows "renders xs @ r = [] \<or> hd (renders xs @ r) = CHR ''<''"
proof (cases xs)
  case (Cons x ys)
  with assms(1) show ?thesis by (cases x) (simp_all add: is_markup_def)
qed (use assms(2) in simp)

lemma reads_document:
  assumes k: "name_ok k"
  shows "xml_ok x \<Longrightarrow> is_chars x \<longrightarrow> r = [] \<or> hd r = CHR ''<'' \<Longrightarrow> reads k (render x @ r) r (events k x)"
    and "xmls_ok xs \<Longrightarrow> r = [] \<or> hd r = CHR ''<'' \<Longrightarrow> reads k (renders xs @ r) r (eventss k xs)"
proof (induction x and xs arbitrary: r and r rule: render_renders.induct)
  case (1 n as short ns)
  then have n: "name_ok n" and as: "list_all (\<lambda>a. name_ok (fst a) \<and> value_ok (snd a)) as" and ns: "xmls_ok ns" by simp_all
  show ?case
  proof (cases "short \<and> ns = []")
    case True
    then show ?thesis using read_empty_tag [OF n as k, of r] by simp
  next
    case False
    have "reads k (renders ns @ ''</'' @ n @ ''>'' @ r) (''</'' @ n @ ''>'' @ r) (eventss k ns)"
      using 1 ns False by simp
    from reads_trans [OF read_start_tag [OF n as k] reads_trans [OF this read_end_tag [OF n]]] False
    show ?thesis by auto
  qed
next
  case (2 t)
  then show ?case using read_chars [of t r k] by (simp add: is_chars_def)
next
  case (3 c)
  then show ?case using read_comment [of c k r] by simp
next
  case (4 d)
  then show ?case using read_declaration [of d k r] by simp
next
  case (5 w)
  then show ?case using read_space [of w k r] by simp
next
  case 6
  then show ?case by (simp add: reads_refl)
next
  case (7 x xs)
  have x: "reads k (render x @ renders xs @ r) (renders xs @ r) (events k x)"
    using 7(1,3,4) renders_start [of xs r] by (cases "is_chars x") auto
  have "reads k (renders xs @ r) r (eventss k xs)" using 7(2-4) by simp
  from reads_trans [OF x this] show ?case by simp
qed

text \<open>
  Claim C13. The tokenizer reads a document back: for elements with attributes, text, comments,
  declarations and white space in any nesting it gives the start and end of every element in
  order, with the values of its attributes, and every text, and then the end.
\<close>

theorem xml_document_read_back:
  assumes "xmls_ok xs" and "name_ok k"
  shows "map (event_of k) (all_tokens (XmlParser (renders xs))) = eventss k xs"
proof -
  have "reads k (renders xs) [] (eventss k xs)" using reads_document(2) [OF assms(2,1), of "[]"] by simp
  moreover have "xp_pos (XmlParser (renders xs)) = renders xs \<and> xp_pending (XmlParser (renders xs)) = None"
    by (simp add: XmlParser_def)
  ultimately obtain xp' where xp': "xp_pos xp' = []" "xp_pending xp' = None"
      "map (event_of k) (all_tokens (XmlParser (renders xs))) = eventss k xs @ map (event_of k) (all_tokens xp')"
    unfolding reads_def by blast
  have "all_tokens xp' = []"
    using xp'(1,2) by (subst all_tokens.simps) (simp add: next_token_def skipWhitespace_def Let_def)
  with xp'(3) show ?thesis by simp
qed

lemma xml_document_read_back_witness:
  "map (event_of ''style'') (all_tokens (XmlParser (renders
      [Declaration ''?xml version=1 ?'', Space [CHR 0x0A],
       Elem ''text:p'' [(''xml:id'', ''p 1''), (''style'', ''P1'')] False
         [Chars ''Hello, '', Elem ''text:s'' [] True [], Comment ''done'', Chars ''world'']])))
    = [(START_ELEMENT, ''text:p'', Some ''P1''), (TEXT, ''Hello, '', None), (START_ELEMENT, ''text:s'', None),
       (END_ELEMENT, ''text:s'', None), (TEXT, ''world'', None), (END_ELEMENT, ''text:p'', None)]"
  by (subst xml_document_read_back)
    (simp_all add: name_ok_def value_ok_def name_char_def attr_char_def xml_space_def c_isspace_def char_code_def
      is_chars_def is_markup_def c_strncmp_def)

end
