(* ===== verification/Cdsl_Doc_Style.thy ===== *)
theory Cdsl_Doc_Style
  imports Cdsl_Xml Cdsl_Json
begin

section \<open>Styles of documents (\<open>src/doc/doc_parse.cpp\<close>)\<close>

text \<open>
  The part of the document parser that reads styles from the XML of a document, and resolves what a
  style inherits. The table of styles is a list; pointers into it are indices.
\<close>

subsection \<open>Lengths and entities\<close>

definition f64_10 :: f64 where "f64_10 = 0x4024000000000000"

definition f64_inch :: f64 where "f64_inch = 0x4039666666666666"

definition f64_72 :: f64 where "f64_72 = 0x4052000000000000"

definition f64_100 :: f64 where "f64_100 = 0x4059000000000000"

definition num_0 :: f64 where "num_0 = f64_zero False"

definition parse_length :: "string \<Rightarrow> f64" where
  "parse_length s =
     (case c_strtod s of
        None \<Rightarrow> num_0
      | Some (val, rest) \<Rightarrow>
          let u = dropWhile (\<lambda>c. c = CHR '' '') rest
          in if take 2 u = ''cm'' then f64_mul val f64_10
             else if take 2 u = ''mm'' then val
             else if take 2 u = ''in'' then f64_mul val f64_inch
             else if take 2 u = ''pt'' then f64_div (f64_mul val f64_inch) f64_72
             else val)"

fun decode_xml_entities :: "string \<Rightarrow> string" where
  "decode_xml_entities [] = []"
| "decode_xml_entities (c # cs) =
     (if c = CHR ''&'' then
        (if take 4 cs = ''amp;'' then CHR ''&'' # decode_xml_entities (drop 4 cs)
         else if take 3 cs = ''lt;'' then CHR ''<'' # decode_xml_entities (drop 3 cs)
         else if take 3 cs = ''gt;'' then CHR ''>'' # decode_xml_entities (drop 3 cs)
         else if take 5 cs = ''quot;'' then CHR 0x22 # decode_xml_entities (drop 5 cs)
         else if take 5 cs = ''apos;'' then CHR 0x27 # decode_xml_entities (drop 5 cs)
         else c # decode_xml_entities cs)
      else c # decode_xml_entities cs)"

text \<open>The rest of the current element: to the end tag that matches; \<open>d\<close> is the depth.\<close>

function skip_to_end :: "nat \<Rightarrow> xml_parser \<Rightarrow> xml_parser" where
  "skip_to_end d xp =
     (if d = 0 then xp
      else let xp' = next_token xp
           in case xp_type xp' of
                END \<Rightarrow> xp'
              | START_ELEMENT \<Rightarrow> skip_to_end (d + 1) xp'
              | END_ELEMENT \<Rightarrow> skip_to_end (d - 1) xp'
              | TEXT \<Rightarrow> skip_to_end d xp')"
  by auto

termination
  by (relation "measure (\<lambda>(d, xp). tokens_left xp)") (simp_all add: next_token_progress)

declare skip_to_end.simps [simp del]

definition skip_element :: "xml_parser \<Rightarrow> xml_parser" where
  "skip_element xp = skip_to_end 1 xp"

subsection \<open>Properties\<close>

record TextProps =
  tp_font_name :: string
  tp_font_size_pt :: f64
  tp_bold :: bool
  tp_italic :: bool
  tp_underline :: bool
  tp_underline_style :: string
  tp_underline_color :: string
  tp_strikethrough :: bool
  tp_color :: string
  tp_background_color :: string
  tp_char_spacing_mm :: f64
  tp_vertical_align :: string

record ParaProps =
  pp_alignment :: string
  pp_margin_top_mm :: f64
  pp_margin_bottom_mm :: f64
  pp_margin_left_mm :: f64
  pp_margin_right_mm :: f64
  pp_line_spacing :: f64
  pp_indent_first_line_mm :: f64
  pp_background_color :: string
  pp_outline_level :: int
  pp_keep_with_next :: bool

record BorderProps =
  bp_style :: string
  bp_color :: string
  bp_width_mm :: f64

record TableProps =
  ta_width_mm :: f64
  ta_alignment :: string
  ta_background_color :: string
  ta_column_widths_mm :: "f64 list"

record CellProps =
  cp_background_color :: string
  cp_vertical_align :: string
  cp_border_top :: BorderProps
  cp_border_bottom :: BorderProps
  cp_border_left :: BorderProps
  cp_border_right :: BorderProps
  cp_padding_top_mm :: f64
  cp_padding_bottom_mm :: f64
  cp_padding_left_mm :: f64
  cp_padding_right_mm :: f64

record Style =
  st_name :: string
  st_family :: string
  st_parent :: string
  st_para :: ParaProps
  st_text :: TextProps
  st_table :: TableProps
  st_cell :: CellProps
  st_resolved :: bool

definition text_props_new :: TextProps where
  "text_props_new = \<lparr>tp_font_name = [], tp_font_size_pt = num_0, tp_bold = False, tp_italic = False,
     tp_underline = False, tp_underline_style = [], tp_underline_color = [], tp_strikethrough = False,
     tp_color = [], tp_background_color = [], tp_char_spacing_mm = num_0, tp_vertical_align = []\<rparr>"

definition para_props_new :: ParaProps where
  "para_props_new = \<lparr>pp_alignment = [], pp_margin_top_mm = num_0, pp_margin_bottom_mm = num_0,
     pp_margin_left_mm = num_0, pp_margin_right_mm = num_0, pp_line_spacing = num_0,
     pp_indent_first_line_mm = num_0, pp_background_color = [], pp_outline_level = 0, pp_keep_with_next = False\<rparr>"

definition border_props_new :: BorderProps where
  "border_props_new = \<lparr>bp_style = [], bp_color = [], bp_width_mm = num_0\<rparr>"

definition table_props_new :: TableProps where
  "table_props_new = \<lparr>ta_width_mm = num_0, ta_alignment = [], ta_background_color = [], ta_column_widths_mm = []\<rparr>"

definition cell_props_new :: CellProps where
  "cell_props_new = \<lparr>cp_background_color = [], cp_vertical_align = [], cp_border_top = border_props_new,
     cp_border_bottom = border_props_new, cp_border_left = border_props_new, cp_border_right = border_props_new,
     cp_padding_top_mm = num_0, cp_padding_bottom_mm = num_0, cp_padding_left_mm = num_0, cp_padding_right_mm = num_0\<rparr>"

definition style_new :: Style where
  "style_new = \<lparr>st_name = [], st_family = [], st_parent = [], st_para = para_props_new, st_text = text_props_new,
     st_table = table_props_new, st_cell = cell_props_new, st_resolved = False\<rparr>"

subsection \<open>Inheritance\<close>

text \<open>A value that is empty, zero or false is taken from the parent.\<close>

definition or_str :: "string \<Rightarrow> string \<Rightarrow> string" where
  "or_str dst src = (if dst = [] then src else dst)"

definition or_num :: "f64 \<Rightarrow> f64 \<Rightarrow> f64" where
  "or_num dst src = (if f64_eq dst num_0 then src else dst)"

definition or_bool :: "bool \<Rightarrow> bool \<Rightarrow> bool" where
  "or_bool dst src = (if \<not> dst then src else dst)"

definition merge_text_props :: "TextProps \<Rightarrow> TextProps \<Rightarrow> TextProps" where
  "merge_text_props src dst =
     \<lparr>tp_font_name = or_str (tp_font_name dst) (tp_font_name src),
      tp_font_size_pt = or_num (tp_font_size_pt dst) (tp_font_size_pt src),
      tp_bold = or_bool (tp_bold dst) (tp_bold src),
      tp_italic = or_bool (tp_italic dst) (tp_italic src),
      tp_underline = or_bool (tp_underline dst) (tp_underline src),
      tp_underline_style = or_str (tp_underline_style dst) (tp_underline_style src),
      tp_underline_color = or_str (tp_underline_color dst) (tp_underline_color src),
      tp_strikethrough = or_bool (tp_strikethrough dst) (tp_strikethrough src),
      tp_color = or_str (tp_color dst) (tp_color src),
      tp_background_color = or_str (tp_background_color dst) (tp_background_color src),
      tp_char_spacing_mm = or_num (tp_char_spacing_mm dst) (tp_char_spacing_mm src),
      tp_vertical_align = or_str (tp_vertical_align dst) (tp_vertical_align src)\<rparr>"

definition merge_para_props :: "ParaProps \<Rightarrow> ParaProps \<Rightarrow> ParaProps" where
  "merge_para_props src dst =
     \<lparr>pp_alignment = or_str (pp_alignment dst) (pp_alignment src),
      pp_margin_top_mm = or_num (pp_margin_top_mm dst) (pp_margin_top_mm src),
      pp_margin_bottom_mm = or_num (pp_margin_bottom_mm dst) (pp_margin_bottom_mm src),
      pp_margin_left_mm = or_num (pp_margin_left_mm dst) (pp_margin_left_mm src),
      pp_margin_right_mm = or_num (pp_margin_right_mm dst) (pp_margin_right_mm src),
      pp_line_spacing = or_num (pp_line_spacing dst) (pp_line_spacing src),
      pp_indent_first_line_mm = or_num (pp_indent_first_line_mm dst) (pp_indent_first_line_mm src),
      pp_background_color = or_str (pp_background_color dst) (pp_background_color src),
      pp_outline_level = (if pp_outline_level dst = 0 then pp_outline_level src else pp_outline_level dst),
      pp_keep_with_next = or_bool (pp_keep_with_next dst) (pp_keep_with_next src)\<rparr>"

definition merge_table_props :: "TableProps \<Rightarrow> TableProps \<Rightarrow> TableProps" where
  "merge_table_props src dst =
     \<lparr>ta_width_mm = or_num (ta_width_mm dst) (ta_width_mm src),
      ta_alignment = or_str (ta_alignment dst) (ta_alignment src),
      ta_background_color = or_str (ta_background_color dst) (ta_background_color src),
      ta_column_widths_mm = (if ta_column_widths_mm dst = [] then ta_column_widths_mm src else ta_column_widths_mm dst)\<rparr>"

definition or_border :: "BorderProps \<Rightarrow> BorderProps \<Rightarrow> BorderProps" where
  "or_border dst src = (if bp_style dst = [] then src else dst)"

definition merge_cell_props :: "CellProps \<Rightarrow> CellProps \<Rightarrow> CellProps" where
  "merge_cell_props src dst =
     \<lparr>cp_background_color = or_str (cp_background_color dst) (cp_background_color src),
      cp_vertical_align = or_str (cp_vertical_align dst) (cp_vertical_align src),
      cp_border_top = or_border (cp_border_top dst) (cp_border_top src),
      cp_border_bottom = or_border (cp_border_bottom dst) (cp_border_bottom src),
      cp_border_left = or_border (cp_border_left dst) (cp_border_left src),
      cp_border_right = or_border (cp_border_right dst) (cp_border_right src),
      cp_padding_top_mm = or_num (cp_padding_top_mm dst) (cp_padding_top_mm src),
      cp_padding_bottom_mm = or_num (cp_padding_bottom_mm dst) (cp_padding_bottom_mm src),
      cp_padding_left_mm = or_num (cp_padding_left_mm dst) (cp_padding_left_mm src),
      cp_padding_right_mm = or_num (cp_padding_right_mm dst) (cp_padding_right_mm src)\<rparr>"

definition merge_style :: "Style \<Rightarrow> Style \<Rightarrow> Style" where
  "merge_style src dst =
     dst\<lparr>st_para := merge_para_props (st_para src) (st_para dst), st_text := merge_text_props (st_text src) (st_text dst),
         st_table := merge_table_props (st_table src) (st_table dst), st_cell := merge_cell_props (st_cell src) (st_cell dst)\<rparr>"

subsection \<open>The table of styles\<close>

definition find_style :: "Style list \<Rightarrow> string \<Rightarrow> nat option" where
  "find_style db name = (if name = [] then None else find (\<lambda>i. st_name (db ! i) = name) [0..<length db])"

definition find_default_style :: "Style list \<Rightarrow> string \<Rightarrow> nat option" where
  "find_default_style db family = (if family = [] then None else find_style db (''__default_'' @ family @ ''__''))"

text \<open>The parent of a style: the one it names, or the default of its family.\<close>

definition parent_index :: "Style list \<Rightarrow> nat \<Rightarrow> nat option" where
  "parent_index db i =
     (case find_style db (st_parent (db ! i)) of
        Some j \<Rightarrow> Some j
      | None \<Rightarrow> if st_family (db ! i) \<noteq> [] \<and> \<not> c_strstr (st_name (db ! i)) ''__default_''
                then find_default_style db (st_family (db ! i)) else None)"

text \<open>The styles from \<open>curr\<close> up to one that is resolved or closes a cycle.\<close>

function collect_chain :: "Style list \<Rightarrow> nat list \<Rightarrow> nat option \<Rightarrow> nat list \<times> nat option" where
  "collect_chain db chain None = (chain, None)"
| "collect_chain db chain (Some i) =
     (if length db \<le> i \<or> st_resolved (db ! i) \<or> i \<in> set chain then (chain, Some i)
      else collect_chain db (chain @ [i]) (parent_index db i))"
  by pat_completeness auto

termination
proof (relation "measure (\<lambda>(db, chain, c). card ({..<length db} - set chain))")
  show "((db, chain @ [i], parent_index db i), db, chain, Some i)
      \<in> measure (\<lambda>(db, chain, c). card ({..<length db} - set chain))"
    if "\<not> (length db \<le> i \<or> st_resolved (db ! i) \<or> i \<in> set chain)" for db :: "Style list" and i chain
  proof -
    have "i \<in> {..<length db} - set chain" using that by simp
    then have "card ({..<length db} - set chain - {i}) < card ({..<length db} - set chain)"
      by (intro card_Diff1_less) simp_all
    moreover have "{..<length db} - set (chain @ [i]) = {..<length db} - set chain - {i}" by auto
    ultimately show ?thesis by (simp only: in_measure prod.case)
  qed
qed simp

definition resolve_step :: "nat \<Rightarrow> Style list \<times> Style \<Rightarrow> Style list \<times> Style" where
  "resolve_step i s =
     (case s of (db, base) \<Rightarrow>
        let x = (merge_style base (db ! i))\<lparr>st_resolved := True\<rparr> in (db[i := x], x))"

definition resolve_from :: "nat \<Rightarrow> Style list \<Rightarrow> Style list" where
  "resolve_from i db =
     (if st_resolved (db ! i) then db
      else case collect_chain db [] (Some i) of (chain, c) \<Rightarrow>
        fst (fold resolve_step (rev chain) (db, case c of None \<Rightarrow> style_new | Some j \<Rightarrow> db ! j)))"

definition resolve_all_styles :: "Style list \<Rightarrow> Style list" where
  "resolve_all_styles db = fold resolve_from [0..<length db] db"

definition resolve_style :: "Style list \<Rightarrow> string \<Rightarrow> Style" where
  "resolve_style db name = (case find_style db name of None \<Rightarrow> style_new | Some i \<Rightarrow> db ! i)"

subsection \<open>Reading properties\<close>

text \<open>The attributes of the current element.\<close>

type_synonym xml_attributes = "string \<Rightarrow> string option"

definition attributes :: "xml_parser \<Rightarrow> xml_attributes" where
  "attributes xp name = xml_attr name xp"

text \<open>An assignment of a field, made when the attribute is there.\<close>

definition on_attr :: "xml_attributes \<Rightarrow> string \<Rightarrow> (string \<Rightarrow> 'a \<Rightarrow> 'a) \<Rightarrow> 'a \<Rightarrow> 'a" where
  "on_attr at name f p = (case at name of None \<Rightarrow> p | Some v \<Rightarrow> f v p)"

text \<open>The first of two attributes that is there.\<close>

definition on_attr2 :: "xml_attributes \<Rightarrow> string \<Rightarrow> string \<Rightarrow> (string \<Rightarrow> 'a \<Rightarrow> 'a) \<Rightarrow> 'a \<Rightarrow> 'a" where
  "on_attr2 at name1 name2 f p = (case at name1 of Some v \<Rightarrow> f v p | None \<Rightarrow> on_attr at name2 f p)"

definition space_token :: "string \<Rightarrow> string option \<times> string" where
  "space_token s =
     (case dropWhile (\<lambda>c. c = CHR '' '') s of
        [] \<Rightarrow> (None, [])
      | t \<Rightarrow> (Some (takeWhile (\<lambda>c. c \<noteq> CHR '' '') t), drop 1 (dropWhile (\<lambda>c. c \<noteq> CHR '' '') t)))"

definition parse_border :: "string \<Rightarrow> BorderProps \<Rightarrow> BorderProps" where
  "parse_border s b =
     (if s = ''none'' then b
      else case space_token (take 255 s) of (width, s1) \<Rightarrow>
           case space_token s1 of (style, s2) \<Rightarrow>
           case space_token s2 of (color, s3) \<Rightarrow>
             \<lparr>bp_style = (case style of None \<Rightarrow> bp_style b | Some t \<Rightarrow> t),
              bp_color = (case color of None \<Rightarrow> bp_color b | Some c \<Rightarrow> c),
              bp_width_mm = (case width of None \<Rightarrow> bp_width_mm b | Some w \<Rightarrow> parse_length w)\<rparr>)"

definition strtod_value :: "string \<Rightarrow> f64" where
  "strtod_value s = (case c_strtod s of None \<Rightarrow> num_0 | Some (v, r) \<Rightarrow> v)"

definition text_position :: "string \<Rightarrow> string" where
  "text_position v = (if c_strstr v ''super'' then ''super'' else if c_strstr v ''sub'' then ''sub'' else ''baseline'')"

definition text_color :: "xml_attributes \<Rightarrow> TextProps \<Rightarrow> TextProps" where
  "text_color at p =
     (case at ''fo:color'' of
        Some v \<Rightarrow> p\<lparr>tp_color := v\<rparr>
      | None \<Rightarrow> if at ''style:use-window-font-color'' = Some ''true'' then p\<lparr>tp_color := ''#000000''\<rparr> else p)"

definition parse_text_props_elem :: "xml_attributes \<Rightarrow> TextProps \<Rightarrow> TextProps" where
  "parse_text_props_elem at p0 =
     (let p1 = on_attr2 at ''style:font-name-asian'' ''style:font-name'' (\<lambda>v p. p\<lparr>tp_font_name := v\<rparr>) p0;
          p2 = on_attr2 at ''style:font-size-asian'' ''fo:font-size'' (\<lambda>v p. p\<lparr>tp_font_size_pt := strtod_value v\<rparr>) p1;
          p3 = on_attr at ''fo:font-weight'' (\<lambda>v p. p\<lparr>tp_bold := (v = ''bold'')\<rparr>) p2;
          p4 = on_attr at ''fo:font-style'' (\<lambda>v p. p\<lparr>tp_italic := (v = ''italic'')\<rparr>) p3;
          p5 = on_attr at ''style:text-underline-style''
                 (\<lambda>v p. p\<lparr>tp_underline := (v \<noteq> ''none''), tp_underline_style := v\<rparr>) p4;
          p6 = on_attr at ''style:text-underline-color'' (\<lambda>v p. p\<lparr>tp_underline_color := v\<rparr>) p5;
          p7 = on_attr at ''style:text-line-through-style'' (\<lambda>v p. p\<lparr>tp_strikethrough := (v \<noteq> ''none'')\<rparr>) p6;
          p8 = text_color at p7;
          p9 = on_attr2 at ''fo:background-color'' ''style:text-background-color''
                 (\<lambda>v p. p\<lparr>tp_background_color := v\<rparr>) p8;
          p10 = on_attr at ''fo:letter-spacing'' (\<lambda>v p. p\<lparr>tp_char_spacing_mm := parse_length v\<rparr>) p9
      in on_attr at ''style:text-position'' (\<lambda>v p. p\<lparr>tp_vertical_align := text_position v\<rparr>) p10)"

definition line_height :: "string \<Rightarrow> f64" where
  "line_height v = (if CHR ''%'' \<in> set v then f64_div (strtod_value v) f64_100 else parse_length v)"

definition parse_para_props_elem :: "xml_attributes \<Rightarrow> ParaProps \<Rightarrow> ParaProps" where
  "parse_para_props_elem at p0 =
     (let p1 = on_attr at ''fo:text-align'' (\<lambda>v p. p\<lparr>pp_alignment := v\<rparr>) p0;
          p2 = on_attr at ''fo:margin-top'' (\<lambda>v p. p\<lparr>pp_margin_top_mm := parse_length v\<rparr>) p1;
          p3 = on_attr at ''fo:margin-bottom'' (\<lambda>v p. p\<lparr>pp_margin_bottom_mm := parse_length v\<rparr>) p2;
          p4 = on_attr at ''fo:margin-left'' (\<lambda>v p. p\<lparr>pp_margin_left_mm := parse_length v\<rparr>) p3;
          p5 = on_attr at ''fo:margin-right'' (\<lambda>v p. p\<lparr>pp_margin_right_mm := parse_length v\<rparr>) p4;
          p6 = on_attr at ''fo:line-height'' (\<lambda>v p. p\<lparr>pp_line_spacing := line_height v\<rparr>) p5;
          p7 = on_attr at ''fo:text-indent'' (\<lambda>v p. p\<lparr>pp_indent_first_line_mm := parse_length v\<rparr>) p6;
          p8 = on_attr at ''fo:background-color'' (\<lambda>v p. p\<lparr>pp_background_color := v\<rparr>) p7
      in on_attr at ''fo:keep-with-next'' (\<lambda>v p. p\<lparr>pp_keep_with_next := (v = ''always'' \<or> v = ''true'')\<rparr>) p8)"

definition parse_table_props_elem :: "xml_attributes \<Rightarrow> TableProps \<Rightarrow> TableProps" where
  "parse_table_props_elem at p0 =
     (let p1 = on_attr at ''style:width'' (\<lambda>v p. p\<lparr>ta_width_mm := parse_length v\<rparr>) p0;
          p2 = on_attr at ''table:align'' (\<lambda>v p. p\<lparr>ta_alignment := v\<rparr>) p1
      in on_attr at ''fo:background-color'' (\<lambda>v p. p\<lparr>ta_background_color := v\<rparr>) p2)"

definition all_borders :: "string \<Rightarrow> CellProps \<Rightarrow> CellProps" where
  "all_borders v p =
     (let b = parse_border v (cp_border_top p)
      in p\<lparr>cp_border_top := b, cp_border_bottom := b, cp_border_left := b, cp_border_right := b\<rparr>)"

definition all_paddings :: "string \<Rightarrow> CellProps \<Rightarrow> CellProps" where
  "all_paddings v p =
     p\<lparr>cp_padding_top_mm := parse_length v, cp_padding_bottom_mm := parse_length v,
       cp_padding_left_mm := parse_length v, cp_padding_right_mm := parse_length v\<rparr>"

definition parse_cell_props_elem :: "xml_attributes \<Rightarrow> CellProps \<Rightarrow> CellProps" where
  "parse_cell_props_elem at p0 =
     (let p1 = on_attr at ''fo:background-color'' (\<lambda>v p. p\<lparr>cp_background_color := v\<rparr>) p0;
          p2 = on_attr at ''style:vertical-align'' (\<lambda>v p. p\<lparr>cp_vertical_align := v\<rparr>) p1;
          p3 = on_attr at ''fo:border'' all_borders p2;
          p4 = on_attr at ''fo:border-top'' (\<lambda>v p. p\<lparr>cp_border_top := parse_border v (cp_border_top p)\<rparr>) p3;
          p5 = on_attr at ''fo:border-bottom'' (\<lambda>v p. p\<lparr>cp_border_bottom := parse_border v (cp_border_bottom p)\<rparr>) p4;
          p6 = on_attr at ''fo:border-left'' (\<lambda>v p. p\<lparr>cp_border_left := parse_border v (cp_border_left p)\<rparr>) p5;
          p7 = on_attr at ''fo:border-right'' (\<lambda>v p. p\<lparr>cp_border_right := parse_border v (cp_border_right p)\<rparr>) p6;
          p8 = on_attr at ''fo:padding'' all_paddings p7;
          p9 = on_attr at ''fo:padding-top'' (\<lambda>v p. p\<lparr>cp_padding_top_mm := parse_length v\<rparr>) p8;
          p10 = on_attr at ''fo:padding-bottom'' (\<lambda>v p. p\<lparr>cp_padding_bottom_mm := parse_length v\<rparr>) p9;
          p11 = on_attr at ''fo:padding-left'' (\<lambda>v p. p\<lparr>cp_padding_left_mm := parse_length v\<rparr>) p10
      in on_attr at ''fo:padding-right'' (\<lambda>v p. p\<lparr>cp_padding_right_mm := parse_length v\<rparr>) p11)"

text \<open>The children of a style element, up to the first token that is no start tag.\<close>

definition style_child :: "string \<Rightarrow> xml_attributes \<Rightarrow> Style \<Rightarrow> Style" where
  "style_child n at s =
     (if n = ''style:paragraph-properties'' then s\<lparr>st_para := parse_para_props_elem at (st_para s)\<rparr>
      else if n = ''style:text-properties'' then s\<lparr>st_text := parse_text_props_elem at (st_text s)\<rparr>
      else if n = ''style:table-properties'' then s\<lparr>st_table := parse_table_props_elem at (st_table s)\<rparr>
      else if n = ''style:table-cell-properties'' then s\<lparr>st_cell := parse_cell_props_elem at (st_cell s)\<rparr>
      else if n = ''style:table-column-properties'' then
        on_attr at ''style:column-width''
          (\<lambda>v s. s\<lparr>st_table := (st_table s)\<lparr>ta_column_widths_mm := ta_column_widths_mm (st_table s) @ [parse_length v]\<rparr>\<rparr>) s
      else s)"

lemma advanceTag_end: "xp_type (advanceTag s xp) = END \<Longrightarrow> xp_pos (advanceTag s xp) = [] \<and> xp_pending (advanceTag s xp) = xp_pending xp"
proof (induction s xp rule: advanceTag.induct)
  case (1 s xp)
  have "xp_type (read_text t xp) \<noteq> END" "xp_type (read_tag t xp) \<noteq> END" for t
    by (simp_all add: read_text_def read_tag_def Let_def)
  with 1 show ?case unfolding advanceTag.simps [of s] by (auto split: list.splits if_splits)
qed

lemma next_token_end: "xp_type (next_token xp) = END \<Longrightarrow> tokens_left (next_token xp) = 0"
  using advanceTag_end by (fastforce simp: next_token_def tokens_left_def read_text_def split: option.splits list.splits if_splits)

lemma next_token_le: "tokens_left (next_token xp) \<le> tokens_left xp"
  using next_token_progress [of xp] next_token_end [of xp] by (cases "xp_type (next_token xp) = END") auto

lemma skip_to_end_le: "tokens_left (skip_to_end d xp) \<le> tokens_left xp"
proof (induction d xp rule: skip_to_end.induct)
  case (1 d xp)
  have n: "tokens_left (next_token xp) \<le> tokens_left xp" by (rule next_token_le)
  show ?case
  proof (cases "d = 0")
    case True
    then show ?thesis by (subst skip_to_end.simps) simp
  next
    case False
    note IH = 1 [OF False refl]
    show ?thesis
      using False n IH by (subst skip_to_end.simps) (cases "xp_type (next_token xp)"; auto simp: Let_def intro: le_trans)
  qed
qed

function style_children :: "xml_parser \<Rightarrow> Style \<Rightarrow> xml_parser \<times> Style" where
  "style_children xp s =
     (let xp' = next_token xp
      in if xp_type xp' = START_ELEMENT then style_children (skip_element xp') (style_child (xp_tag xp') (attributes xp') s) else (xp', s))"
  by auto

termination
proof (relation "measure (\<lambda>(xp, s). tokens_left xp)")
  show "((skip_element xp', style_child (xp_tag xp') (attributes xp') s), xp, s) \<in> measure (\<lambda>(xp, s). tokens_left xp)"
    if "xp' = next_token xp" and "xp_type xp' = START_ELEMENT" for xp s xp'
    using next_token_progress [of xp] skip_to_end_le [of 1 xp'] that by (simp add: skip_element_def)
qed simp

declare style_children.simps [simp del]

definition style_header :: "xml_attributes \<Rightarrow> bool \<Rightarrow> Style" where
  "style_header at is_default =
     (let s1 = on_attr at ''style:name'' (\<lambda>v s. s\<lparr>st_name := v\<rparr>) style_new;
          s2 = on_attr at ''style:family'' (\<lambda>v s. s\<lparr>st_family := v\<rparr>) s1;
          s3 = on_attr at ''style:parent-style-name'' (\<lambda>v s. s\<lparr>st_parent := v\<rparr>) s2
      in if is_default \<and> st_family s3 \<noteq> [] then s3\<lparr>st_name := ''__default_'' @ st_family s3 @ ''__''\<rparr> else s3)"

text \<open>The table has room for 2048 styles; further ones are not read, and their tokens stay.\<close>

definition parse_style_elem :: "xml_parser \<Rightarrow> bool \<Rightarrow> Style list \<Rightarrow> xml_parser \<times> Style list" where
  "parse_style_elem xp is_default db =
     (if 2048 \<le> length db then (xp, db)
      else case style_children xp (style_header (attributes xp) is_default) of (xp', s) \<Rightarrow> (xp', db @ [s]))"

text \<open>What is known about a document as a whole.\<close>

record PageInfo =
  pg_page_width_mm :: f64
  pg_page_height_mm :: f64
  pg_margin_top_mm :: f64
  pg_margin_bottom_mm :: f64
  pg_margin_left_mm :: f64
  pg_margin_right_mm :: f64
  pg_page_count :: i32
  pg_paragraph_count :: i32
  pg_word_count :: i32
  pg_character_count :: i32
  pg_page_number_start :: i32
  pg_has_page_number_start :: bool
  pg_title :: string
  pg_creator :: string
  pg_created :: string
  pg_modified :: string
  pg_bookmarks :: "string list"

definition page_info_new :: PageInfo where
  "page_info_new = \<lparr>pg_page_width_mm = num_0, pg_page_height_mm = num_0, pg_margin_top_mm = num_0,
     pg_margin_bottom_mm = num_0, pg_margin_left_mm = num_0, pg_margin_right_mm = num_0, pg_page_count = 0,
     pg_paragraph_count = 0, pg_word_count = 0, pg_character_count = 0, pg_page_number_start = 0,
     pg_has_page_number_start = False, pg_title = [], pg_creator = [], pg_created = [], pg_modified = [],
     pg_bookmarks = []\<rparr>"

definition page_layout_props :: "xml_attributes \<Rightarrow> PageInfo \<Rightarrow> PageInfo" where
  "page_layout_props at p0 =
     (let p1 = on_attr at ''fo:page-width'' (\<lambda>v p. p\<lparr>pg_page_width_mm := parse_length v\<rparr>) p0;
          p2 = on_attr at ''fo:page-height'' (\<lambda>v p. p\<lparr>pg_page_height_mm := parse_length v\<rparr>) p1;
          p3 = on_attr at ''fo:margin-top'' (\<lambda>v p. p\<lparr>pg_margin_top_mm := parse_length v\<rparr>) p2;
          p4 = on_attr at ''fo:margin-bottom'' (\<lambda>v p. p\<lparr>pg_margin_bottom_mm := parse_length v\<rparr>) p3;
          p5 = on_attr at ''fo:margin-left'' (\<lambda>v p. p\<lparr>pg_margin_left_mm := parse_length v\<rparr>) p4;
          p6 = on_attr at ''fo:margin-right'' (\<lambda>v p. p\<lparr>pg_margin_right_mm := parse_length v\<rparr>) p5
      in on_attr at ''style:page-number''
           (\<lambda>v p. p\<lparr>pg_page_number_start := c_atoi v, pg_has_page_number_start := True\<rparr>) p6)"

function parse_page_layout :: "xml_parser \<Rightarrow> PageInfo \<Rightarrow> xml_parser \<times> PageInfo" where
  "parse_page_layout xp p =
     (let xp' = next_token xp
      in if xp_type xp' = START_ELEMENT
         then parse_page_layout (skip_element xp')
                (if xml_match ''style:page-layout-properties'' xp' then page_layout_props (attributes xp') p else p)
         else (xp', p))"
  by auto

termination
proof (relation "measure (\<lambda>(xp, s). tokens_left xp)")
  show "((skip_element xp', if xml_match ''style:page-layout-properties'' xp' then page_layout_props (attributes xp') p else p), xp, p)
      \<in> measure (\<lambda>(xp, s). tokens_left xp)"
    if "xp' = next_token xp" and "xp_type xp' = START_ELEMENT" for xp p xp'
    using next_token_progress [of xp] skip_to_end_le [of 1 xp'] that by (simp add: skip_element_def)
qed simp

declare parse_page_layout.simps [simp del]

subsection \<open>Styles inherit from their parents\<close>

text \<open>Merging leaves names, families and parents alone, so the parents stay the same.\<close>

definition same_names :: "Style list \<Rightarrow> Style list \<Rightarrow> bool" where
  "same_names db db' \<longleftrightarrow> map (\<lambda>s. (st_name s, st_family s, st_parent s)) db = map (\<lambda>s. (st_name s, st_family s, st_parent s)) db'"

lemma same_names_nth:
  assumes "same_names db db'"
  shows "length db = length db'"
    and "i < length db' \<Longrightarrow> st_name (db ! i) = st_name (db' ! i) \<and> st_family (db ! i) = st_family (db' ! i) \<and> st_parent (db ! i) = st_parent (db' ! i)"
proof -
  show l: "length db = length db'" using arg_cong [OF assms [unfolded same_names_def], of length] by simp
  show "i < length db' \<Longrightarrow> st_name (db ! i) = st_name (db' ! i) \<and> st_family (db ! i) = st_family (db' ! i) \<and> st_parent (db ! i) = st_parent (db' ! i)"
    using arg_cong [OF assms [unfolded same_names_def], of "\<lambda>l. l ! i"] l by simp
qed

lemma find_cong_set: "(\<And>x. x \<in> set xs \<Longrightarrow> P x = Q x) \<Longrightarrow> find P xs = find Q xs"
  by (induction xs) auto

lemma find_style_same: "same_names db db' \<Longrightarrow> find_style db n = find_style db' n"
  unfolding find_style_def using same_names_nth [of db db'] by (auto intro: find_cong_set)

lemma find_style_bound: "find_style db n = Some j \<Longrightarrow> j < length db"
  by (auto simp: find_style_def find_Some_iff split: if_splits)

lemma parent_bound: "parent_index db i = Some j \<Longrightarrow> j < length db"
  by (auto simp: parent_index_def find_default_style_def dest: find_style_bound split: option.splits if_splits)

lemma parent_same:
  assumes "same_names db db'" and "i < length db'"
  shows "parent_index db i = parent_index db' i"
  using same_names_nth(2) [OF assms] by (simp add: parent_index_def find_default_style_def find_style_same [OF assms(1)] cong: option.case_cong)

lemma same_names_step:
  assumes "resolve_step i (db, base) = (db', x)"
  shows "same_names db' db"
proof -
  have "db' = db[i := x]" "st_name x = st_name (db ! i)" "st_family x = st_family (db ! i)" "st_parent x = st_parent (db ! i)"
    using assms by (auto simp: resolve_step_def merge_style_def Let_def)
  then show ?thesis
    by (cases "i < length db") (simp_all add: same_names_def map_update list_update_same_conv list_update_beyond)
qed

text \<open>The value a style inherits from, in a table in which its parent is resolved.\<close>

definition inherited :: "Style list \<Rightarrow> nat option \<Rightarrow> Style" where
  "inherited db c = (case c of None \<Rightarrow> style_new | Some j \<Rightarrow> db ! j)"

definition settled :: "Style list \<Rightarrow> nat option \<Rightarrow> bool" where
  "settled db c \<longleftrightarrow> (case c of None \<Rightarrow> True | Some j \<Rightarrow> j < length db \<and> st_resolved (db ! j))"

text \<open>Half way: what is resolved has its final value, the rest is as it was read.\<close>

definition partly_resolved :: "Style list \<Rightarrow> Style list \<Rightarrow> bool" where
  "partly_resolved db0 db \<longleftrightarrow> same_names db db0 \<and>
     (\<forall>i < length db. if st_resolved (db ! i)
        then settled db (parent_index db0 i)
          \<and> db ! i = (merge_style (inherited db (parent_index db0 i)) (db0 ! i))\<lparr>st_resolved := True\<rparr>
        else db ! i = db0 ! i)"

lemma step_resolves:
  assumes p: "partly_resolved db0 db" and i: "i < length db" "\<not> st_resolved (db ! i)"
    and base: "base = inherited db (parent_index db0 i)" "settled db (parent_index db0 i)"
    and s: "resolve_step i (db, base) = (db', x)"
  shows "partly_resolved db0 db' \<and> x = inherited db' (Some i) \<and> settled db' (Some i)
    \<and> (\<forall>j. j \<noteq> i \<longrightarrow> db' ! j = db ! j) \<and> length db' = length db"
proof -
  have db': "db' = db[i := x]" and x: "x = (merge_style base (db ! i))\<lparr>st_resolved := True\<rparr>"
    using s by (auto simp: resolve_step_def Let_def)
  have own: "db ! i = db0 ! i" using p i by (auto simp: partly_resolved_def)
  have keep: "inherited db' c = inherited db c \<and> settled db' c" if "settled db c" for c
  proof (cases c)
    case (Some j)
    then have "j \<noteq> i" using that i(2) by (auto simp: settled_def)
    then show ?thesis using that Some by (simp add: inherited_def settled_def db')
  qed (simp add: inherited_def settled_def)
  have "same_names db' db0" using same_names_step [OF s] p by (simp add: partly_resolved_def same_names_def)
  moreover have "if st_resolved (db' ! j)
        then settled db' (parent_index db0 j)
          \<and> db' ! j = (merge_style (inherited db' (parent_index db0 j)) (db0 ! j))\<lparr>st_resolved := True\<rparr>
        else db' ! j = db0 ! j" if j: "j < length db'" for j
  proof (cases "j = i")
    case True
    then show ?thesis using keep [OF base(2)] base(1) own i(1) by (simp add: db' x)
  next
    case False
    then have "db' ! j = db ! j" by (simp add: db')
    moreover have "j < length db" using j by (simp add: db')
    ultimately show ?thesis using p keep [of "parent_index db0 j"] by (auto simp: partly_resolved_def split: if_splits)
  qed
  ultimately have "partly_resolved db0 db'" unfolding partly_resolved_def by blast
  then show ?thesis using i(1) by (simp add: inherited_def settled_def) (simp add: db' x)
qed

text \<open>A chain of styles, each the parent of the one before it.\<close>

fun chain_from :: "(nat \<Rightarrow> nat option) \<Rightarrow> nat option \<Rightarrow> nat list \<Rightarrow> nat option \<Rightarrow> bool" where
  "chain_from par c [] c' \<longleftrightarrow> c = c'"
| "chain_from par c (i # js) c' \<longleftrightarrow> c = Some i \<and> chain_from par (par i) js c'"

lemma chain_resolves:
  assumes "partly_resolved db0 db" and "settled db c'" and "base = inherited db c'"
  shows "chain_from (parent_index db0) c xs c' \<Longrightarrow> distinct xs
    \<Longrightarrow> \<forall>x \<in> set xs. x < length db \<and> \<not> st_resolved (db ! x)
    \<Longrightarrow> foldr resolve_step xs (db, base) = (db', base')
    \<Longrightarrow> partly_resolved db0 db' \<and> base' = inherited db' c \<and> settled db' c
      \<and> (\<forall>j. j \<notin> set xs \<longrightarrow> db' ! j = db ! j) \<and> length db' = length db"
proof (induction xs arbitrary: c db' base')
  case Nil
  then show ?case using assms by auto
next
  case (Cons x xs)
  obtain db1 b1 where 1: "foldr resolve_step xs (db, base) = (db1, b1)" by fastforce
  from Cons.prems have c: "c = Some x" "chain_from (parent_index db0) (parent_index db0 x) xs c'"
    and x: "x \<notin> set xs" "distinct xs" "x < length db" "\<not> st_resolved (db ! x)" by auto
  have IH: "partly_resolved db0 db1" "b1 = inherited db1 (parent_index db0 x)" "settled db1 (parent_index db0 x)"
    "\<forall>j. j \<notin> set xs \<longrightarrow> db1 ! j = db ! j" "length db1 = length db"
    using Cons.IH [OF c(2) x(2) _ 1] Cons.prems(3) by auto
  have "resolve_step x (db1, b1) = (db', base')" using Cons.prems(4) 1 by simp
  from step_resolves [OF IH(1) _ _ IH(2,3) this] IH(4,5) x c(1) show ?case by auto
qed

definition acyclic_parents :: "Style list \<Rightarrow> bool" where
  "acyclic_parents db \<longleftrightarrow> (\<exists>rank :: nat \<Rightarrow> nat. \<forall>i < length db. \<forall>j. parent_index db i = Some j \<longrightarrow> rank j < rank i)"

lemma chain_descends:
  assumes "\<forall>i < n. \<forall>j. par i = Some j \<longrightarrow> rank j < (rank i :: nat)"
  shows "chain_from par c xs (Some j) \<Longrightarrow> \<forall>x \<in> set xs. x < n \<Longrightarrow> \<forall>x \<in> set xs. rank j < rank x"
proof (induction xs arbitrary: c)
  case (Cons x xs)
  then have p: "chain_from par (par x) xs (Some j)" and IH: "\<forall>y \<in> set xs. rank j < rank y" and x: "x < n" by auto
  have "rank j < rank x"
  proof (cases xs)
    case Nil
    then show ?thesis using p assms x by simp
  next
    case (Cons y ys)
    then have "par x = Some y" using p by simp
    then show ?thesis using assms x IH Cons by fastforce
  qed
  with IH show ?case by simp
qed simp

lemma collect_chain_path:
  "same_names db db0 \<Longrightarrow> collect_chain db ch c = (ch', c') \<Longrightarrow> (\<forall>j. c = Some j \<longrightarrow> j < length db) \<Longrightarrow> distinct ch \<Longrightarrow>
     \<exists>new. ch' = ch @ new \<and> chain_from (parent_index db0) c new c' \<and> distinct ch'
       \<and> (\<forall>x \<in> set new. x < length db \<and> \<not> st_resolved (db ! x))
       \<and> (\<forall>j. c' = Some j \<longrightarrow> j < length db \<and> (st_resolved (db ! j) \<or> j \<in> set ch'))"
proof (induction db ch c rule: collect_chain.induct)
  case (2 db ch i)
  show ?case
  proof (cases "st_resolved (db ! i) \<or> i \<in> set ch")
    case True
    then show ?thesis using 2(3-5) by auto
  next
    case False
    have i: "i < length db" using 2(4) by simp
    then have par: "parent_index db i = parent_index db0 i"
      using parent_same [OF 2(2)] same_names_nth(1) [OF 2(2)] by simp
    have "collect_chain db (ch @ [i]) (parent_index db i) = (ch', c')" using 2(3) False i by simp
    from 2(1) [OF _ 2(2) this] obtain new where new: "ch' = (ch @ [i]) @ new"
        "chain_from (parent_index db0) (parent_index db i) new c'" "distinct ch'"
        "\<forall>x \<in> set new. x < length db \<and> \<not> st_resolved (db ! x)"
        "\<forall>j. c' = Some j \<longrightarrow> j < length db \<and> (st_resolved (db ! j) \<or> j \<in> set ch')"
      using False i 2(5) parent_bound [of db i] by auto
    then show ?thesis using par False i by (intro exI [of _ "i # new"]) auto
  qed
qed auto

lemma resolve_from_ok:
  assumes a: "acyclic_parents db0" and p: "partly_resolved db0 db" and i: "i < length db"
  shows "partly_resolved db0 (resolve_from i db) \<and> st_resolved (resolve_from i db ! i)
    \<and> length (resolve_from i db) = length db \<and> (\<forall>j. st_resolved (db ! j) \<longrightarrow> st_resolved (resolve_from i db ! j))"
proof (cases "st_resolved (db ! i)")
  case True
  then show ?thesis using p by (simp add: resolve_from_def)
next
  case False
  obtain xs c where col: "collect_chain db [] (Some i) = (xs, c)" by fastforce
  have sn: "same_names db db0" using p by (simp add: partly_resolved_def)
  from collect_chain_path [OF sn col] i have xs: "chain_from (parent_index db0) (Some i) xs c" "distinct xs"
      "\<forall>x \<in> set xs. x < length db \<and> \<not> st_resolved (db ! x)"
      "\<forall>j. c = Some j \<longrightarrow> j < length db \<and> (st_resolved (db ! j) \<or> j \<in> set xs)"
    by auto
  obtain rank :: "nat \<Rightarrow> nat" where rank: "\<forall>i < length db0. \<forall>j. parent_index db0 i = Some j \<longrightarrow> rank j < rank i"
    using a by (auto simp: acyclic_parents_def)
  have "settled db c"
  proof (cases c)
    case (Some j)
    have "\<forall>x \<in> set xs. x < length db0" using xs(3) same_names_nth(1) [OF sn] by auto
    from chain_descends [OF rank xs(1) [unfolded Some] this] have "j \<notin> set xs" by blast
    then show ?thesis using xs(4) Some by (simp add: settled_def)
  qed (simp add: settled_def)
  moreover obtain db' b where f: "foldr resolve_step xs (db, inherited db c) = (db', b)" by fastforce
  ultimately have r: "partly_resolved db0 db'" "settled db' (Some i)" "\<forall>j. j \<notin> set xs \<longrightarrow> db' ! j = db ! j" "length db' = length db"
    using chain_resolves [OF p _ refl xs(1-3) f] by auto
  have "resolve_from i db = db'"
    using False f by (simp add: resolve_from_def col inherited_def foldr_conv_fold del: collect_chain.simps)
  moreover have "\<forall>j. st_resolved (db ! j) \<longrightarrow> st_resolved (db' ! j)" using r(3) xs(3) by metis
  ultimately show ?thesis using r by (simp add: settled_def)
qed

lemma resolve_all_ok:
  assumes "acyclic_parents db0"
  shows "partly_resolved db0 db \<Longrightarrow> \<forall>i \<in> set is0. i < length db \<Longrightarrow>
    partly_resolved db0 (fold resolve_from is0 db) \<and> length (fold resolve_from is0 db) = length db
    \<and> (\<forall>j. j \<in> set is0 \<or> st_resolved (db ! j) \<longrightarrow> st_resolved (fold resolve_from is0 db ! j))"
proof (induction is0 arbitrary: db)
  case (Cons i is0)
  from resolve_from_ok [OF assms Cons.prems(1), of i] Cons.prems(2)
  have r: "partly_resolved db0 (resolve_from i db)" "st_resolved (resolve_from i db ! i)"
    "length (resolve_from i db) = length db" "\<forall>j. st_resolved (db ! j) \<longrightarrow> st_resolved (resolve_from i db ! j)" by auto
  from Cons.IH [OF r(1)] r Cons.prems(2) show ?case by auto
qed simp

text \<open>
  Claim C16. When no style inherits from itself, resolving the styles in place, chain by chain, leaves
  every style with its own values merged with those of its resolved parent: the style it names,
  the default of its family, or nothing.
\<close>

theorem styles_inherit_from_parents:
  assumes "acyclic_parents db" and "list_all (\<lambda>s. \<not> st_resolved s) db" and "i < length db"
  shows "resolve_all_styles db ! i
    = (merge_style (inherited (resolve_all_styles db) (parent_index db i)) (db ! i))\<lparr>st_resolved := True\<rparr>"
proof -
  have "partly_resolved db db" using assms(2) by (auto simp: partly_resolved_def same_names_def list_all_length)
  from resolve_all_ok [OF assms(1) this, of "[0..<length db]"]
  have "partly_resolved db (resolve_all_styles db)" "length (resolve_all_styles db) = length db"
    "st_resolved (resolve_all_styles db ! i)"
    using assms(3) by (auto simp: resolve_all_styles_def)
  then show ?thesis using assms(3) by (auto simp: partly_resolved_def)
qed

definition sample_style :: "string \<Rightarrow> string \<Rightarrow> bool \<Rightarrow> string \<Rightarrow> Style" where
  "sample_style name parent bold font =
     style_new\<lparr>st_name := name, st_family := ''paragraph'', st_parent := parent,
       st_text := text_props_new\<lparr>tp_bold := bold, tp_font_name := font\<rparr>\<rparr>"

definition sample_styles :: "Style list" where
  "sample_styles = [sample_style ''Title'' ''Standard'' True [], sample_style ''Standard'' [] False [],
     sample_style ''__default_paragraph__'' [] False ''Serif'']"

lemma styles_inherit_from_parents_witness:
  "tp_font_name (st_text (resolve_all_styles sample_styles ! 0)) = ''Serif'' \<and> tp_bold (st_text (resolve_all_styles sample_styles ! 0))
    \<and> \<not> tp_bold (st_text (resolve_all_styles sample_styles ! 1))"
proof -
  have p: "parent_index sample_styles 0 = Some 1" "parent_index sample_styles (Suc 0) = Some 2" "parent_index sample_styles 2 = None"
    by (simp_all add: parent_index_def find_default_style_def find_style_def sample_styles_def sample_style_def style_new_def
        upt_rec numeral_2_eq_2 c_strncmp_def)
  have a: "acyclic_parents sample_styles"
  proof -
    have "\<forall>i < length sample_styles. \<forall>j. parent_index sample_styles i = Some j \<longrightarrow> 3 - j < 3 - i"
    proof (intro allI impI)
      fix i j assume i: "i < length sample_styles" and j: "parent_index sample_styles i = Some j"
      from i have "i = 0 \<or> i = Suc 0 \<or> i = 2" by (auto simp: sample_styles_def)
      with j p show "3 - j < 3 - i" by auto
    qed
    then show ?thesis unfolding acyclic_parents_def by (intro exI [of _ "\<lambda>i. 3 - i"])
  qed
  have u: "list_all (\<lambda>s. \<not> st_resolved s) sample_styles" by (simp add: sample_styles_def sample_style_def style_new_def)
  note inh = styles_inherit_from_parents [OF a u]
  have 0: "resolve_all_styles sample_styles ! 0
      = (merge_style (resolve_all_styles sample_styles ! 1) (sample_styles ! 0))\<lparr>st_resolved := True\<rparr>"
    and 1: "resolve_all_styles sample_styles ! 1
      = (merge_style (resolve_all_styles sample_styles ! 2) (sample_styles ! 1))\<lparr>st_resolved := True\<rparr>"
    and 2: "resolve_all_styles sample_styles ! 2
      = (merge_style style_new (sample_styles ! 2))\<lparr>st_resolved := True\<rparr>"
    using inh [of 0] inh [of 1] inh [of 2] p by (simp_all add: inherited_def sample_styles_def)
  show ?thesis
    unfolding 0 1 2
    by (simp add: sample_styles_def sample_style_def merge_style_def merge_text_props_def or_str_def or_bool_def
        style_new_def text_props_new_def)
qed

text \<open>Entities are undone: the five entities of XML, each character written on its own.\<close>

definition xml_encode :: "char \<Rightarrow> string" where
  "xml_encode c =
     (if c = CHR ''&'' then ''&amp;'' else if c = CHR ''<'' then ''&lt;'' else if c = CHR ''>'' then ''&gt;''
      else if c = CHR 0x22 then ''&quot;'' else if c = CHR 0x27 then ''&apos;'' else [c])"

lemma decode_encoded: "decode_xml_entities (concat (map xml_encode t)) = t"
  by (induction t) (simp_all add: xml_encode_def)

end
