(* ===== verification/Cdsl_Doc.thy ===== *)
theory Cdsl_Doc
  imports Cdsl_Doc_Style
begin

section \<open>Bodies of documents (\<open>src/doc/doc_parse.cpp\<close>)\<close>

text \<open>
  The part of the document parser that turns the elements of a document into content blocks: loops
  over the tokens of an element, nested as the elements are.
\<close>

subsection \<open>Blocks\<close>

record TextBlock =
  tb_text :: string
  tb_props :: TextProps
  tb_hyperlink_url :: string
  tb_bbox_x_mm :: f64
  tb_bbox_y_mm :: f64
  tb_bbox_w_mm :: f64
  tb_bbox_h_mm :: f64

datatype BlockType = PARAGRAPH | TABLE | LIST | IMAGE | FOOTNOTE | FORMULA | HEADER | FOOTER

record TableCell =
  tc_text_blocks :: "TextBlock list"
  tc_props :: CellProps
  tc_colspan :: i32
  tc_rowspan :: i32

record TableRow =
  tr_cells :: "TableCell list"
  tr_background_color :: string

record ContentBlock =
  cb_type :: BlockType
  cb_page_index :: i32
  cb_page_number :: i32
  cb_indent_level :: i32
  cb_bbox_x_mm :: f64
  cb_bbox_y_mm :: f64
  cb_bbox_w_mm :: f64
  cb_bbox_h_mm :: f64
  cb_style_name :: string
  cb_para_props :: ParaProps
  cb_table_props :: TableProps
  cb_text_blocks :: "TextBlock list"
  cb_table_rows :: "TableRow list"
  cb_image_name :: string
  cb_image_base64 :: string
  cb_anchoring :: string
  cb_formula_mathml :: string
  cb_footnote_id :: string

definition text_block :: "TextProps \<Rightarrow> string \<Rightarrow> TextBlock" where
  "text_block props t = \<lparr>tb_text = t, tb_props = props, tb_hyperlink_url = [], tb_bbox_x_mm = num_0,
     tb_bbox_y_mm = num_0, tb_bbox_w_mm = num_0, tb_bbox_h_mm = num_0\<rparr>"

definition table_cell_new :: TableCell where
  "table_cell_new = \<lparr>tc_text_blocks = [], tc_props = cell_props_new, tc_colspan = 1, tc_rowspan = 1\<rparr>"

definition table_row_new :: TableRow where
  "table_row_new = \<lparr>tr_cells = [], tr_background_color = []\<rparr>"

definition block_new :: "BlockType \<Rightarrow> ContentBlock" where
  "block_new ty = \<lparr>cb_type = ty, cb_page_index = 0, cb_page_number = 0, cb_indent_level = 0, cb_bbox_x_mm = num_0,
     cb_bbox_y_mm = num_0, cb_bbox_w_mm = num_0, cb_bbox_h_mm = num_0, cb_style_name = [],
     cb_para_props = para_props_new, cb_table_props = table_props_new, cb_text_blocks = [], cb_table_rows = [],
     cb_image_name = [], cb_image_base64 = [], cb_anchoring = [], cb_formula_mathml = [], cb_footnote_id = []\<rparr>"

subsection \<open>Loops over the inside of an element\<close>

text \<open>
  The loop \<open>while (d > 0 && xp.next() != END)\<close>, whose body is \<open>step\<close>. A step never moves the parser back;
  for steps that do not, the test of \<open>tokens_left\<close> is always true, as \<open>while_inside_unfold\<close> states.
\<close>

function while_inside ::
  "(xml_parser \<Rightarrow> nat \<Rightarrow> 's \<Rightarrow> xml_parser \<times> nat \<times> 's) \<Rightarrow> nat \<Rightarrow> xml_parser \<Rightarrow> 's \<Rightarrow> xml_parser \<times> 's" where
  "while_inside step d xp s =
     (if d = 0 then (xp, s)
      else let xp1 = next_token xp
           in if xp_type xp1 = END then (xp1, s)
              else case step xp1 d s of (xp2, d2, s2) \<Rightarrow>
                if tokens_left xp2 \<le> tokens_left xp1 then while_inside step d2 xp2 s2 else (xp1, s))"
  by auto

termination
proof (relation "measure (\<lambda>(step, d, xp, s). tokens_left xp)")
  fix step :: "xml_parser \<Rightarrow> nat \<Rightarrow> 's \<Rightarrow> xml_parser \<times> nat \<times> 's" and d xp s xp1 r xp2 y d2 s2
  assume "xp1 = next_token xp" and "xp_type xp1 \<noteq> END" and "tokens_left xp2 \<le> tokens_left xp1"
  then show "((step, d2, xp2, s2), step, d, xp, s) \<in> measure (\<lambda>(step, d, xp, s). tokens_left xp)"
    using next_token_progress [of xp] by simp
qed simp

declare while_inside.simps [simp del]

text \<open>The bodies: what to do at a start tag, at the text; end tags count down.\<close>

definition inside :: "(xml_parser \<Rightarrow> 's \<Rightarrow> xml_parser \<times> 's) \<Rightarrow> (string \<Rightarrow> 's \<Rightarrow> 's) \<Rightarrow> xml_parser \<Rightarrow> nat \<Rightarrow> 's \<Rightarrow> xml_parser \<times> nat \<times> 's" where
  "inside start text_to xp d s =
     (case xp_type xp of
        START_ELEMENT \<Rightarrow> (case start xp s of (xp', s') \<Rightarrow> (xp', d, s'))
      | END_ELEMENT \<Rightarrow> (xp, d - 1, s)
      | TEXT \<Rightarrow> (xp, d, text_to (decode_xml_entities (xp_text xp)) s)
      | END \<Rightarrow> (xp, d, s))"

text \<open>With start tags that count up, the text of the elements inside included.\<close>

definition all_inside :: "(string \<Rightarrow> 's \<Rightarrow> 's) \<Rightarrow> xml_parser \<Rightarrow> nat \<Rightarrow> 's \<Rightarrow> xml_parser \<times> nat \<times> 's" where
  "all_inside text_to xp d s =
     (case xp_type xp of
        START_ELEMENT \<Rightarrow> (xp, d + 1, s)
      | END_ELEMENT \<Rightarrow> (xp, d - 1, s)
      | TEXT \<Rightarrow> (xp, d, text_to (decode_xml_entities (xp_text xp)) s)
      | END \<Rightarrow> (xp, d, s))"

definition no_text :: "string \<Rightarrow> 's \<Rightarrow> 's" where
  "no_text t s = s"

definition skipped :: "xml_parser \<Rightarrow> 's \<Rightarrow> xml_parser \<times> 's" where
  "skipped xp s = (skip_element xp, s)"

subsection \<open>Text\<close>

definition element_text :: "xml_parser \<Rightarrow> xml_parser \<times> string" where
  "element_text xp = while_inside (all_inside (\<lambda>t s. s @ t)) 1 xp []"

definition style_text :: "Style list \<Rightarrow> xml_attributes \<Rightarrow> TextProps" where
  "style_text db at =
     (case at ''text:style-name'' of None \<Rightarrow> text_props_new | Some n \<Rightarrow> st_text (resolve_style db n))"

definition push_text :: "TextProps \<Rightarrow> string \<Rightarrow> TextBlock list \<Rightarrow> TextBlock list" where
  "push_text props t tbs = (if t = [] then tbs else tbs @ [text_block props t])"

definition span_block :: "Style list \<Rightarrow> TextProps \<Rightarrow> xml_parser \<Rightarrow> TextBlock list \<Rightarrow> xml_parser \<times> TextBlock list" where
  "span_block db def xp tbs =
     (case element_text xp of (xp', t) \<Rightarrow> (xp', push_text (merge_text_props def (style_text db (attributes xp))) t tbs))"

definition page_number_block :: "TextProps \<Rightarrow> xml_parser \<Rightarrow> TextBlock list \<Rightarrow> xml_parser \<times> TextBlock list" where
  "page_number_block def xp tbs = (case element_text xp of (xp', t) \<Rightarrow> (xp', push_text def t tbs))"

definition attr_or_empty :: "string \<Rightarrow> xml_attributes \<Rightarrow> string" where
  "attr_or_empty name at = (case at name of None \<Rightarrow> [] | Some v \<Rightarrow> v)"

definition link_text :: "TextProps \<Rightarrow> string \<Rightarrow> string \<Rightarrow> TextBlock list \<Rightarrow> TextBlock list" where
  "link_text def url t tbs = tbs @ [(text_block def t)\<lparr>tb_hyperlink_url := url\<rparr>]"

definition link_blocks :: "TextProps \<Rightarrow> xml_parser \<Rightarrow> TextBlock list \<Rightarrow> xml_parser \<times> TextBlock list" where
  "link_blocks def xp tbs =
     while_inside (all_inside (link_text def (attr_or_empty ''xlink:href'' (attributes xp)))) 1 xp tbs"

text \<open>Text is added to the last block, or to a new one when there is none.\<close>

definition append_text :: "TextProps \<Rightarrow> string \<Rightarrow> TextBlock list \<Rightarrow> TextBlock list" where
  "append_text def t tbs =
     (let tbs1 = (if tbs = [] then [text_block def []] else tbs);
          b = last tbs1
      in butlast tbs1 @ [b\<lparr>tb_text := tb_text b @ t\<rparr>])"

text \<open>The body of a note, in the first block.\<close>

definition note_text :: "TextProps \<Rightarrow> string \<Rightarrow> TextBlock list \<Rightarrow> TextBlock list" where
  "note_text def t tbs =
     (let tbs1 = (if tbs = [] then [text_block def []] else tbs);
          b = hd tbs1
      in b\<lparr>tb_text := tb_text b @ t\<rparr> # tl tbs1)"

definition note_child :: "TextProps \<Rightarrow> xml_parser \<Rightarrow> TextBlock list \<Rightarrow> xml_parser \<times> TextBlock list" where
  "note_child def xp tbs =
     (if xml_match ''text:note-body'' xp then while_inside (all_inside (note_text def)) 1 xp tbs
      else skipped xp tbs)"

definition note_block :: "TextProps \<Rightarrow> xml_parser \<Rightarrow> xml_parser \<times> ContentBlock" where
  "note_block def xp =
     (case while_inside (inside (note_child def) no_text) 1 xp [] of
        (xp', tbs) \<Rightarrow>
          (xp', (block_new FOOTNOTE)\<lparr>cb_footnote_id := attr_or_empty ''text:id'' (attributes xp), cb_text_blocks := tbs\<rparr>))"

subsection \<open>Paragraphs\<close>

text \<open>What a body is read into.\<close>

type_synonym doc = "PageInfo \<times> ContentBlock list"

definition styled_paragraph :: "Style list \<Rightarrow> i32 \<Rightarrow> xml_attributes \<Rightarrow> ContentBlock" where
  "styled_paragraph db indent at =
     (let b = (block_new PARAGRAPH)\<lparr>cb_indent_level := indent\<rparr>
      in case at ''text:style-name'' of None \<Rightarrow> b
         | Some n \<Rightarrow> b\<lparr>cb_style_name := n, cb_para_props := st_para (resolve_style db n)\<rparr>)"

definition outline_level :: "xml_attributes \<Rightarrow> ContentBlock \<Rightarrow> ContentBlock" where
  "outline_level at b =
     (case at ''text:outline-level'' of None \<Rightarrow> b
      | Some v \<Rightarrow> b\<lparr>cb_para_props := (cb_para_props b)\<lparr>pp_outline_level := sint (c_atoi v)\<rparr>\<rparr>)"

definition bookmark :: "xml_attributes \<Rightarrow> PageInfo \<Rightarrow> PageInfo" where
  "bookmark at page = on_attr at ''text:name'' (\<lambda>n p. p\<lparr>pg_bookmarks := pg_bookmarks p @ [n]\<rparr>) page"

definition paragraph_child ::
  "Style list \<Rightarrow> TextProps \<Rightarrow> xml_parser \<Rightarrow> TextBlock list \<times> doc \<Rightarrow> xml_parser \<times> TextBlock list \<times> doc" where
  "paragraph_child db def xp s =
     (case s of (tbs, page, out) \<Rightarrow>
        if xml_match ''text:span'' xp then
          (case span_block db def xp tbs of (xp', tbs') \<Rightarrow> (xp', tbs', page, out))
        else if xml_match ''text:page-number'' xp then
          (case page_number_block def xp tbs of (xp', tbs') \<Rightarrow> (xp', tbs', page, out))
        else if xml_match ''text:a'' xp then
          (case link_blocks def xp tbs of (xp', tbs') \<Rightarrow> (xp', tbs', page, out))
        else if xml_match ''text:bookmark'' xp \<or> xml_match ''text:bookmark-start'' xp then
          (skip_element xp, tbs, bookmark (attributes xp) page, out)
        else if xml_match ''text:note'' xp then
          (case note_block def xp of (xp', fn) \<Rightarrow> (xp', tbs, page, out @ [fn]))
        else skipped xp (tbs, page, out))"

definition paragraph_text :: "TextProps \<Rightarrow> string \<Rightarrow> TextBlock list \<times> doc \<Rightarrow> TextBlock list \<times> doc" where
  "paragraph_text def t s = (append_text def t (fst s), snd s)"

definition parse_paragraph :: "Style list \<Rightarrow> i32 \<Rightarrow> xml_parser \<Rightarrow> doc \<Rightarrow> xml_parser \<times> doc" where
  "parse_paragraph db indent xp doc =
     (let b = outline_level (attributes xp) (styled_paragraph db indent (attributes xp)); def = style_text db (attributes xp)
      in case while_inside (inside (paragraph_child db def) (paragraph_text def)) 1 xp ([], doc) of
           (xp', tbs, page, out) \<Rightarrow> (xp', page, out @ [b\<lparr>cb_text_blocks := tbs\<rparr>]))"

subsection \<open>Tables\<close>

definition cell_paragraph_child :: "Style list \<Rightarrow> TextProps \<Rightarrow> xml_parser \<Rightarrow> TextBlock list \<Rightarrow> xml_parser \<times> TextBlock list" where
  "cell_paragraph_child db def xp tbs =
     (if xml_match ''text:span'' xp then span_block db def xp tbs
      else if xml_match ''text:page-number'' xp then page_number_block def xp tbs
      else skipped xp tbs)"

definition cell_child :: "Style list \<Rightarrow> xml_parser \<Rightarrow> TextBlock list \<Rightarrow> xml_parser \<times> TextBlock list" where
  "cell_child db xp tbs =
     (if xml_match ''text:p'' xp then
        (let def = style_text db (attributes xp)
         in while_inside (inside (cell_paragraph_child db def) (append_text def)) 1 xp tbs)
      else skipped xp tbs)"

definition cell_new :: "Style list \<Rightarrow> xml_attributes \<Rightarrow> TableCell" where
  "cell_new db at =
     (let c1 = on_attr at ''table:number-columns-spanned'' (\<lambda>v c. c\<lparr>tc_colspan := c_atoi v\<rparr>) table_cell_new;
          c2 = on_attr at ''table:number-rows-spanned'' (\<lambda>v c. c\<lparr>tc_rowspan := c_atoi v\<rparr>) c1
      in on_attr at ''table:style-name'' (\<lambda>v c. c\<lparr>tc_props := st_cell (resolve_style db v)\<rparr>) c2)"

definition parse_cell :: "Style list \<Rightarrow> xml_parser \<Rightarrow> xml_parser \<times> TableCell" where
  "parse_cell db xp =
     (case while_inside (inside (cell_child db) (append_text text_props_new)) 1 xp [] of
        (xp', tbs) \<Rightarrow> (xp', (cell_new db (attributes xp))\<lparr>tc_text_blocks := tbs\<rparr>))"

definition row_child :: "Style list \<Rightarrow> xml_parser \<Rightarrow> TableCell list \<Rightarrow> xml_parser \<times> TableCell list" where
  "row_child db xp cells =
     (if xml_match ''table:table-cell'' xp then (case parse_cell db xp of (xp', c) \<Rightarrow> (xp', cells @ [c]))
      else skipped xp cells)"

definition row_new :: "Style list \<Rightarrow> xml_attributes \<Rightarrow> TableRow" where
  "row_new db at = on_attr at ''table:style-name''
     (\<lambda>v r. r\<lparr>tr_background_color := pp_background_color (st_para (resolve_style db v))\<rparr>) table_row_new"

definition parse_row :: "Style list \<Rightarrow> xml_parser \<Rightarrow> xml_parser \<times> TableRow" where
  "parse_row db xp =
     (case while_inside (inside (row_child db) no_text) 1 xp [] of
        (xp', cells) \<Rightarrow> (xp', (row_new db (attributes xp))\<lparr>tr_cells := cells\<rparr>))"

text \<open>The width of a column comes from its style.\<close>

definition column_width :: "Style list \<Rightarrow> string \<Rightarrow> ContentBlock \<Rightarrow> ContentBlock" where
  "column_width db v b =
     (case ta_column_widths_mm (st_table (resolve_style db v)) of [] \<Rightarrow> b
      | w # ws \<Rightarrow> b\<lparr>cb_table_props := (cb_table_props b)\<lparr>ta_column_widths_mm := ta_column_widths_mm (cb_table_props b) @ [w]\<rparr>\<rparr>)"

definition table_child :: "Style list \<Rightarrow> xml_parser \<Rightarrow> ContentBlock \<Rightarrow> xml_parser \<times> ContentBlock" where
  "table_child db xp b =
     (if xml_match ''table:table-column'' xp then
        (skip_element xp, on_attr (attributes xp) ''table:style-name'' (column_width db) b)
      else if xml_match ''table:table-row'' xp then
        (case parse_row db xp of (xp', row) \<Rightarrow> (xp', b\<lparr>cb_table_rows := cb_table_rows b @ [row]\<rparr>))
      else skipped xp b)"

definition table_new :: "Style list \<Rightarrow> i32 \<Rightarrow> xml_attributes \<Rightarrow> ContentBlock" where
  "table_new db indent at =
     (on_attr at ''table:style-name'' (\<lambda>v b. b\<lparr>cb_style_name := v, cb_table_props := st_table (resolve_style db v)\<rparr>)
        (block_new TABLE))\<lparr>cb_indent_level := indent\<rparr>"

definition parse_table :: "Style list \<Rightarrow> i32 \<Rightarrow> xml_parser \<Rightarrow> doc \<Rightarrow> xml_parser \<times> doc" where
  "parse_table db indent xp doc =
     (case while_inside (inside (table_child db) no_text) 1 xp (table_new db indent (attributes xp)) of
        (xp', b) \<Rightarrow> (xp', fst doc, snd doc @ [b]))"

subsection \<open>Lists\<close>

definition list_paragraph_child :: "Style list \<Rightarrow> TextProps \<Rightarrow> xml_parser \<Rightarrow> TextBlock list \<Rightarrow> xml_parser \<times> TextBlock list" where
  "list_paragraph_child db def xp tbs =
     (if xml_match ''text:span'' xp then span_block db def xp tbs
      else if xml_match ''text:page-number'' xp then page_number_block def xp tbs
      else skipped xp tbs)"

definition list_paragraph :: "Style list \<Rightarrow> i32 \<Rightarrow> xml_parser \<Rightarrow> doc \<Rightarrow> xml_parser \<times> doc" where
  "list_paragraph db indent xp doc =
     (let b = styled_paragraph db (indent + 1) (attributes xp); def = style_text db (attributes xp)
      in case while_inside (inside (list_paragraph_child db def) (append_text def)) 1 xp [] of
           (xp', tbs) \<Rightarrow> (xp', fst doc, snd doc @ [b\<lparr>cb_text_blocks := tbs\<rparr>]))"

text \<open>\<open>nested\<close> reads a list inside an item.\<close>

definition item_child ::
  "(xml_parser \<Rightarrow> doc \<Rightarrow> xml_parser \<times> doc) \<Rightarrow> Style list \<Rightarrow> i32 \<Rightarrow> xml_parser \<Rightarrow> doc \<Rightarrow> xml_parser \<times> doc" where
  "item_child nested db indent xp doc =
     (if xml_match ''text:p'' xp \<or> xml_match ''text:h'' xp then list_paragraph db indent xp doc
      else if xml_match ''text:list'' xp then nested xp doc
      else skipped xp doc)"

definition list_child ::
  "(xml_parser \<Rightarrow> doc \<Rightarrow> xml_parser \<times> doc) \<Rightarrow> Style list \<Rightarrow> i32 \<Rightarrow> xml_parser \<Rightarrow> doc \<Rightarrow> xml_parser \<times> doc" where
  "list_child nested db indent xp doc =
     (if xml_match ''text:list-item'' xp
      then while_inside (inside (item_child nested db indent) no_text) 1 xp doc
      else skipped xp doc)"

definition parse_list ::
  "(xml_parser \<Rightarrow> doc \<Rightarrow> xml_parser \<times> doc) \<Rightarrow> Style list \<Rightarrow> i32 \<Rightarrow> xml_parser \<Rightarrow> doc \<Rightarrow> xml_parser \<times> doc" where
  "parse_list nested db indent xp doc = while_inside (inside (list_child nested db indent) no_text) 1 xp doc"

subsection \<open>Frames\<close>

definition object_step :: "xml_parser \<Rightarrow> nat \<Rightarrow> string \<Rightarrow> xml_parser \<times> nat \<times> string" where
  "object_step xp d mathml =
     (case xp_type xp of
        START_ELEMENT \<Rightarrow>
          if xml_match ''math:math'' xp then (skip_element xp, d, mathml @ ''<math>'' @ ''...'' @ ''</math>'')
          else (xp, d + 1, mathml)
      | END_ELEMENT \<Rightarrow> (xp, d - 1, mathml)
      | _ \<Rightarrow> (xp, d, mathml))"

definition frame_child :: "xml_parser \<Rightarrow> ContentBlock \<Rightarrow> xml_parser \<times> ContentBlock" where
  "frame_child xp b =
     (if xml_match ''draw:image'' xp then
        (xp, on_attr (attributes xp) ''xlink:href'' (\<lambda>v b. b\<lparr>cb_image_name := v\<rparr>) b)
      else if xml_match ''draw:object'' xp then
        (case while_inside object_step 1 xp (cb_formula_mathml b) of
           (xp', mathml) \<Rightarrow> (xp', b\<lparr>cb_type := FORMULA, cb_formula_mathml := mathml\<rparr>))
      else (xp, b))"

definition frame_step :: "xml_parser \<Rightarrow> nat \<Rightarrow> ContentBlock \<Rightarrow> xml_parser \<times> nat \<times> ContentBlock" where
  "frame_step xp d b =
     (case xp_type xp of
        START_ELEMENT \<Rightarrow> (case frame_child xp b of (xp', b') \<Rightarrow> (xp', d + 1, b'))
      | END_ELEMENT \<Rightarrow> (xp, d - 1, b)
      | _ \<Rightarrow> (xp, d, b))"

definition attr_length :: "string \<Rightarrow> xml_attributes \<Rightarrow> f64" where
  "attr_length name at = (case at name of None \<Rightarrow> num_0 | Some v \<Rightarrow> parse_length v)"

definition frame_new :: "xml_attributes \<Rightarrow> ContentBlock" where
  "frame_new at =
     (on_attr at ''text:anchor-type'' (\<lambda>v b. b\<lparr>cb_anchoring := v\<rparr>) (block_new IMAGE))
       \<lparr>cb_bbox_w_mm := attr_length ''svg:width'' at, cb_bbox_h_mm := attr_length ''svg:height'' at\<rparr>"

definition parse_frame :: "xml_parser \<Rightarrow> doc \<Rightarrow> xml_parser \<times> doc" where
  "parse_frame xp doc =
     (case while_inside frame_step 1 xp (frame_new (attributes xp)) of (xp', b) \<Rightarrow> (xp', fst doc, snd doc @ [b]))"

subsection \<open>Bodies\<close>

definition body_child ::
  "(xml_parser \<Rightarrow> doc \<Rightarrow> xml_parser \<times> doc) \<Rightarrow> Style list \<Rightarrow> i32 \<Rightarrow> xml_parser \<Rightarrow> doc \<Rightarrow> xml_parser \<times> doc" where
  "body_child nested db indent xp doc =
     (if xml_match ''text:p'' xp \<or> xml_match ''text:h'' xp then parse_paragraph db indent xp doc
      else if xml_match ''table:table'' xp then parse_table db indent xp doc
      else if xml_match ''text:list'' xp then parse_list nested db indent xp doc
      else if xml_match ''draw:frame'' xp then parse_frame xp doc
      else skipped xp doc)"

text \<open>
  The children of a body, up to the first token that is no start tag. The fuel bounds both the children and
  the nesting; more than \<open>tokens_left\<close> is enough, as \<open>parse_fodt_body_fuel\<close> states.
\<close>

primrec fodt_body :: "nat \<Rightarrow> Style list \<Rightarrow> i32 \<Rightarrow> xml_parser \<Rightarrow> doc \<Rightarrow> xml_parser \<times> doc" where
  "fodt_body 0 db indent xp doc = (xp, doc)"
| "fodt_body (Suc n) db indent xp doc =
     (let xp1 = next_token xp
      in if xp_type xp1 = START_ELEMENT
         then case body_child (fodt_body n db (indent + 1)) db indent xp1 doc of (xp2, doc2) \<Rightarrow> fodt_body n db indent xp2 doc2
         else (xp1, doc))"

definition parse_fodt_body :: "Style list \<Rightarrow> i32 \<Rightarrow> xml_parser \<Rightarrow> doc \<Rightarrow> xml_parser \<times> doc" where
  "parse_fodt_body db indent xp doc = fodt_body (tokens_left xp + 1) db indent xp doc"

subsection \<open>Documents\<close>

text \<open>The text of an element that is there at once.\<close>

definition on_text :: "xml_parser \<Rightarrow> (string \<Rightarrow> PageInfo \<Rightarrow> PageInfo) \<Rightarrow> PageInfo \<Rightarrow> xml_parser \<times> PageInfo" where
  "on_text xp f page =
     (let xp1 = next_token xp
      in (xp1, if xp_type xp1 = TEXT then f (decode_xml_entities (xp_text xp1)) page else page))"

definition document_statistic :: "xml_attributes \<Rightarrow> PageInfo \<Rightarrow> PageInfo" where
  "document_statistic at p0 =
     (let p1 = on_attr at ''meta:page-count'' (\<lambda>v p. p\<lparr>pg_page_count := c_atoi v\<rparr>) p0;
          p2 = on_attr at ''meta:paragraph-count'' (\<lambda>v p. p\<lparr>pg_paragraph_count := c_atoi v\<rparr>) p1;
          p3 = on_attr at ''meta:word-count'' (\<lambda>v p. p\<lparr>pg_word_count := c_atoi v\<rparr>) p2
      in on_attr at ''meta:character-count'' (\<lambda>v p. p\<lparr>pg_character_count := c_atoi v\<rparr>) p3)"

definition meta_child :: "xml_parser \<Rightarrow> PageInfo \<Rightarrow> xml_parser \<times> PageInfo" where
  "meta_child xp page =
     (case (if xml_match ''meta:document-statistic'' xp then (xp, document_statistic (attributes xp) page)
            else if xml_match ''dc:title'' xp then on_text xp (\<lambda>t p. p\<lparr>pg_title := t\<rparr>) page
            else if xml_match ''dc:creator'' xp then on_text xp (\<lambda>t p. p\<lparr>pg_creator := t\<rparr>) page
            else if xml_match ''meta:creation-date'' xp then on_text xp (\<lambda>t p. p\<lparr>pg_created := t\<rparr>) page
            else if xml_match ''dc:date'' xp then on_text xp (\<lambda>t p. p\<lparr>pg_modified := t\<rparr>) page
            else (xp, page)) of (xp1, page1) \<Rightarrow> skipped xp1 page1)"

text \<open>The state while a document is read: the styles, and what has been read.\<close>

definition styles_child :: "xml_parser \<Rightarrow> Style list \<times> PageInfo \<Rightarrow> xml_parser \<times> Style list \<times> PageInfo" where
  "styles_child xp s =
     (case s of (db, page) \<Rightarrow>
        if xml_match ''style:style'' xp then (case parse_style_elem xp False db of (xp', db') \<Rightarrow> (xp', db', page))
        else if xml_match ''style:default-style'' xp then
          (case parse_style_elem xp True db of (xp', db') \<Rightarrow> (xp', db', page))
        else if xml_match ''style:page-layout'' xp then
          (case parse_page_layout xp page of (xp', page') \<Rightarrow> (xp', db, page'))
        else skipped xp (db, page))"

definition content_child :: "Style list \<Rightarrow> xml_parser \<Rightarrow> doc \<Rightarrow> xml_parser \<times> doc" where
  "content_child db xp doc =
     (if xml_match ''office:text'' xp then parse_fodt_body db 0 xp doc else skipped xp doc)"

text \<open>Headers and footers: their paragraphs change their type.\<close>

definition retype :: "BlockType \<Rightarrow> ContentBlock \<Rightarrow> ContentBlock" where
  "retype ty b = (if cb_type b = PARAGRAPH then b\<lparr>cb_type := ty\<rparr> else b)"

definition margin_blocks :: "Style list \<Rightarrow> BlockType \<Rightarrow> xml_parser \<Rightarrow> doc \<Rightarrow> xml_parser \<times> doc" where
  "margin_blocks db ty xp doc =
     (case parse_fodt_body db 0 xp (fst doc, []) of (xp', page, hb) \<Rightarrow> (xp', page, snd doc @ map (retype ty) hb))"

definition master_page_child :: "Style list \<Rightarrow> xml_parser \<Rightarrow> doc \<Rightarrow> xml_parser \<times> doc" where
  "master_page_child db xp doc =
     (if xml_match ''style:header'' xp then margin_blocks db HEADER xp doc
      else if xml_match ''style:footer'' xp then margin_blocks db FOOTER xp doc
      else skipped xp doc)"

definition master_child :: "Style list \<Rightarrow> xml_parser \<Rightarrow> doc \<Rightarrow> xml_parser \<times> doc" where
  "master_child db xp doc =
     (if xml_match ''style:master-page'' xp
      then while_inside (inside (master_page_child db) no_text) 1 xp doc
      else skipped xp doc)"

definition document_child :: "xml_parser \<Rightarrow> Style list \<times> doc \<Rightarrow> xml_parser \<times> Style list \<times> doc" where
  "document_child xp s =
     (case s of (db, page, out) \<Rightarrow>
        if xml_match ''office:document'' xp then (xp, s)
        else if xml_match ''office:meta'' xp then
          (case while_inside (inside meta_child no_text) 1 xp page of (xp', page') \<Rightarrow> (xp', db, page', out))
        else if xml_match ''office:styles'' xp \<or> xml_match ''office:automatic-styles'' xp then
          (case while_inside (inside styles_child no_text) 1 xp (db, page) of (xp', db', page') \<Rightarrow> (xp', db', page', out))
        else if xml_match ''office:body'' xp then
          (let db' = resolve_all_styles db
           in case while_inside (inside (content_child db') no_text) 1 xp (page, out) of (xp', doc') \<Rightarrow> (xp', db', doc'))
        else if xml_match ''office:master-styles'' xp then
          (let db' = resolve_all_styles db
           in case while_inside (inside (master_child db') no_text) 1 xp (page, out) of (xp', doc') \<Rightarrow> (xp', db', doc'))
        else skipped xp s)"

text \<open>The loop over the whole document counts nothing.\<close>

definition document_step :: "xml_parser \<Rightarrow> nat \<Rightarrow> Style list \<times> doc \<Rightarrow> xml_parser \<times> nat \<times> Style list \<times> doc" where
  "document_step xp d s =
     (if xp_type xp \<noteq> START_ELEMENT then (xp, d, s)
      else case document_child xp s of (xp', s') \<Rightarrow> (xp', d, s'))"

definition parse_fodt_document :: "string \<Rightarrow> doc" where
  "parse_fodt_document fodt = snd (snd (while_inside document_step 1 (XmlParser fodt) ([], page_info_new, [])))"

subsection \<open>Steps go forward\<close>

named_theorems forward "operations do not move the parser back"

definition forward_step :: "(xml_parser \<Rightarrow> nat \<Rightarrow> 's \<Rightarrow> xml_parser \<times> nat \<times> 's) \<Rightarrow> bool" where
  "forward_step step \<longleftrightarrow> (\<forall>xp d s. tokens_left (fst (step xp d s)) \<le> tokens_left xp)"

definition goes :: "(xml_parser \<Rightarrow> 's \<Rightarrow> xml_parser \<times> 's) \<Rightarrow> bool" where
  "goes h \<longleftrightarrow> (\<forall>xp s. tokens_left (fst (h xp s)) \<le> tokens_left xp)"

lemma while_inside_unfold:
  assumes "forward_step step"
  shows "while_inside step d xp s =
     (if d = 0 then (xp, s)
      else let xp1 = next_token xp
           in if xp_type xp1 = END then (xp1, s)
              else case step xp1 d s of (xp2, d2, s2) \<Rightarrow> while_inside step d2 xp2 s2)"
proof -
  have "tokens_left xp2 \<le> tokens_left xp1" if "step xp1 d s = (xp2, d2, s2)" for xp1 xp2 d2 s2
    using assms that unfolding forward_step_def by (metis fst_conv)
  then show ?thesis by (subst while_inside.simps) (auto simp: Let_def split: prod.split)
qed

lemma while_inside_le: "tokens_left (fst (while_inside step d xp s)) \<le> tokens_left xp"
proof (induction step d xp s rule: while_inside.induct)
  case (1 step d xp s)
  show ?case
  proof (cases "d = 0 \<or> xp_type (next_token xp) = END")
    case True
    then show ?thesis using next_token_le [of xp] by (subst while_inside.simps) (auto simp: Let_def)
  next
    case False
    obtain xp2 d2 s2 where st: "step (next_token xp) d s = (xp2, d2, s2)" by (cases "step (next_token xp) d s") auto
    show ?thesis
      using False 1 [OF _ refl _ st [symmetric] refl] next_token_le [of xp] st
      by (subst while_inside.simps) (auto simp: Let_def)
  qed
qed

lemma while_inside_forward [forward]: "while_inside step d xp s = (xp', s') \<Longrightarrow> tokens_left xp' \<le> tokens_left xp"
  using while_inside_le [of step d xp s] by simp

lemma skip_element_forward: "tokens_left (skip_element xp) \<le> tokens_left xp"
  by (simp add: skip_element_def skip_to_end_le)

lemma skipped_forward [forward]: "skipped xp s = (xp', s') \<Longrightarrow> tokens_left xp' \<le> tokens_left xp"
  using skip_element_forward [of xp] by (auto simp: skipped_def)

lemma goesD: "goes h \<Longrightarrow> h xp s = (xp', s') \<Longrightarrow> tokens_left xp' \<le> tokens_left xp"
  unfolding goes_def by (metis fst_conv)

lemma goesI: "(\<And>xp s xp' s'. h xp s = (xp', s') \<Longrightarrow> tokens_left xp' \<le> tokens_left xp) \<Longrightarrow> goes h"
  unfolding goes_def by (metis prod.collapse)

lemma inside_forward: "goes start \<Longrightarrow> forward_step (inside start text_to)"
  by (auto simp: forward_step_def inside_def dest: goesD split: xml_type.split prod.split)

lemma all_inside_forward [simp]: "forward_step (all_inside text_to)"
  by (auto simp: forward_step_def all_inside_def split: xml_type.split)

lemma element_text_forward [forward]: "element_text xp = (xp', t) \<Longrightarrow> tokens_left xp' \<le> tokens_left xp"
  by (auto simp: element_text_def dest: forward)

lemma text_forward [forward]:
  "span_block db def xp tbs = (xp', tbs') \<Longrightarrow> tokens_left xp' \<le> tokens_left xp"
  "page_number_block def xp tbs = (xp', tbs') \<Longrightarrow> tokens_left xp' \<le> tokens_left xp"
  "link_blocks def xp tbs = (xp', tbs') \<Longrightarrow> tokens_left xp' \<le> tokens_left xp"
  "note_child def xp tbs = (xp', tbs') \<Longrightarrow> tokens_left xp' \<le> tokens_left xp"
  "note_block def xp = (xp', fn) \<Longrightarrow> tokens_left xp' \<le> tokens_left xp"
  by (auto simp: span_block_def page_number_block_def link_blocks_def note_child_def note_block_def Let_def
      dest: forward split: prod.splits if_splits)

lemma paragraph_forward [forward]:
  "paragraph_child db def xp s = (xp', s') \<Longrightarrow> tokens_left xp' \<le> tokens_left xp"
  "parse_paragraph db indent xp doc = (xp', doc') \<Longrightarrow> tokens_left xp' \<le> tokens_left xp"
  "cell_paragraph_child db def xp tbs = (xp', tbs') \<Longrightarrow> tokens_left xp' \<le> tokens_left xp"
  "list_paragraph_child db def xp tbs = (xp', tbs') \<Longrightarrow> tokens_left xp' \<le> tokens_left xp"
  "list_paragraph db indent xp doc = (xp', doc') \<Longrightarrow> tokens_left xp' \<le> tokens_left xp"
  using skip_element_forward [of xp]
  by (auto simp: paragraph_child_def parse_paragraph_def cell_paragraph_child_def list_paragraph_child_def
      list_paragraph_def Let_def dest: forward split: prod.splits if_splits)

lemma table_forward [forward]:
  "cell_child db xp tbs = (xp', tbs') \<Longrightarrow> tokens_left xp' \<le> tokens_left xp"
  "parse_cell db xp = (xp', c) \<Longrightarrow> tokens_left xp' \<le> tokens_left xp"
  "row_child db xp cells = (xp', cells') \<Longrightarrow> tokens_left xp' \<le> tokens_left xp"
  "parse_row db xp = (xp', r) \<Longrightarrow> tokens_left xp' \<le> tokens_left xp"
  "parse_table db indent xp doc = (xp', doc') \<Longrightarrow> tokens_left xp' \<le> tokens_left xp"
  by (auto simp: cell_child_def parse_cell_def row_child_def parse_row_def parse_table_def Let_def
      dest: forward split: prod.splits if_splits)

lemma table_child_forward [forward]: "table_child db xp b = (xp', b') \<Longrightarrow> tokens_left xp' \<le> tokens_left xp"
  using skip_element_forward [of xp] by (auto simp: table_child_def dest: forward split: prod.splits if_splits)

lemma list_forward [forward]:
  "parse_list nested db indent xp doc = (xp', doc') \<Longrightarrow> tokens_left xp' \<le> tokens_left xp"
  "list_child nested db indent xp doc = (xp', doc') \<Longrightarrow> tokens_left xp' \<le> tokens_left xp"
  by (auto simp: parse_list_def list_child_def dest: forward split: if_splits)

lemma frame_forward [forward]:
  "frame_child xp b = (xp', b') \<Longrightarrow> tokens_left xp' \<le> tokens_left xp"
  "parse_frame xp doc = (xp', doc') \<Longrightarrow> tokens_left xp' \<le> tokens_left xp"
  by (auto simp: frame_child_def parse_frame_def Let_def dest: forward split: prod.splits if_splits)

lemma body_child_forward [forward]:
  "body_child nested db indent xp doc = (xp', doc') \<Longrightarrow> tokens_left xp' \<le> tokens_left xp"
  by (auto simp: body_child_def dest: forward split: if_splits)

lemma frame_step_forward [simp]: "forward_step frame_step"
  by (auto simp: forward_step_def frame_step_def dest: forward split: xml_type.split prod.split)

lemma object_step_forward [simp]: "forward_step object_step"
  using skip_element_forward by (auto simp: forward_step_def object_step_def split: xml_type.split)

lemma child_goes [simp]:
  "goes (paragraph_child db def)" "goes (cell_paragraph_child db def)" "goes (list_paragraph_child db def)"
  "goes (note_child def)" "goes (cell_child db)" "goes (row_child db)" "goes (table_child db)"
  "goes (list_child nested db indent)" "goes skipped"
  by (intro goesI; blast dest: forward)+

lemma item_child_goes: "goes nested \<Longrightarrow> goes (item_child nested db indent)"
  by (rule goesI) (auto simp: item_child_def dest: forward goesD split: if_splits)

lemma fodt_body_goes [simp]: "goes (fodt_body n db indent)"
proof -
  have "fodt_body n db indent xp doc = (xp', doc') \<Longrightarrow> tokens_left xp' \<le> tokens_left xp" for indent xp doc xp' doc'
  proof (induction n arbitrary: indent xp doc)
    case (Suc n)
    show ?case
    proof (cases "xp_type (next_token xp) = START_ELEMENT")
      case True
      obtain xp2 doc2 where b: "body_child (fodt_body n db (indent + 1)) db indent (next_token xp) doc = (xp2, doc2)" by (rule prod.exhaust)
      with True Suc.prems have "fodt_body n db indent xp2 doc2 = (xp', doc')" by (simp add: Let_def)
      from Suc.IH [OF this] body_child_forward [OF b] next_token_le [of xp] show ?thesis by simp
    qed (use Suc.prems next_token_le [of xp] in \<open>auto simp: Let_def\<close>)
  qed simp
  then show ?thesis by (rule goesI)
qed

subsection \<open>Enough fuel\<close>

lemma while_inside_cong:
  assumes "forward_step step" and "forward_step step'"
  shows "(\<And>y e t. tokens_left y < tokens_left xp \<Longrightarrow> step y e t = step' y e t)
    \<Longrightarrow> while_inside step d xp s = while_inside step' d xp s"
proof (induction "tokens_left xp" arbitrary: d xp s rule: less_induct)
  case less
  show ?case
  proof (cases "d = 0 \<or> xp_type (next_token xp) = END")
    case True
    then show ?thesis
      by (simp add: while_inside_unfold [OF assms(1), of d] while_inside_unfold [OF assms(2), of d] Let_def) auto
  next
    case False
    have n: "tokens_left (next_token xp) < tokens_left xp" using False next_token_progress [of xp] by simp
    obtain y e t where st: "step (next_token xp) d s = (y, e, t)" by (cases "step (next_token xp) d s") auto
    have y: "tokens_left y < tokens_left xp" using assms(1) st n unfolding forward_step_def by (metis fst_conv le_less_trans)
    have "while_inside step e y t = while_inside step' e y t"
      by (rule less.hyps [OF y]) (use y less.prems in \<open>auto intro: less_trans\<close>)
    with False less.prems [OF n] st show ?thesis
      by (simp add: while_inside_unfold [OF assms(1), of d xp] while_inside_unfold [OF assms(2), of d xp] Let_def)
  qed
qed

lemma inside_cong: "start xp s = start' xp s \<Longrightarrow> inside start f xp d s = inside start' f xp d s"
  by (cases "xp_type xp") (simp_all add: inside_def)

lemma body_child_cong:
  assumes "goes f" and "goes g" and "\<And>y doc. tokens_left y < tokens_left xp \<Longrightarrow> f y doc = g y doc"
  shows "body_child f db indent xp doc = body_child g db indent xp doc"
proof -
  have item: "while_inside (inside (item_child f db indent) no_text) 1 y s = while_inside (inside (item_child g db indent) no_text) 1 y s"
    if "tokens_left y \<le> tokens_left xp" for y s
    using that assms(3) by (intro while_inside_cong inside_forward item_child_goes assms(1,2) inside_cong) (simp add: item_child_def)
  have "parse_list f db indent xp doc = parse_list g db indent xp doc"
    unfolding parse_list_def
    by (intro while_inside_cong inside_forward inside_cong child_goes) (simp add: list_child_def item [unfolded One_nat_def])
  then show ?thesis by (simp add: body_child_def)
qed

lemma fodt_body_fuel:
  "tokens_left xp < n \<Longrightarrow> tokens_left xp < m \<Longrightarrow> fodt_body n db indent xp doc = fodt_body m db indent xp doc"
proof (induction "tokens_left xp" arbitrary: xp n m indent doc rule: less_induct)
  case less
  obtain n' m' where nm: "n = Suc n'" "m = Suc m'" using less.prems by (cases n; cases m) auto
  show ?case
  proof (cases "xp_type (next_token xp) = START_ELEMENT")
    case True
    let ?xp1 = "next_token xp"
    have n: "tokens_left ?xp1 < tokens_left xp" using True next_token_progress [of xp] by simp
    have "body_child (fodt_body n' db (indent + 1)) db indent ?xp1 doc = body_child (fodt_body m' db (indent + 1)) db indent ?xp1 doc"
      using n less.prems nm by (intro body_child_cong fodt_body_goes less.hyps) auto
    moreover obtain y d where b: "body_child (fodt_body m' db (indent + 1)) db indent ?xp1 doc = (y, d)" by (rule prod.exhaust)
    moreover have "fodt_body n' db indent y d = fodt_body m' db indent y d"
      using body_child_forward [OF b] n less.prems nm by (intro less.hyps) auto
    ultimately show ?thesis using True by (simp add: nm Let_def)
  qed (simp add: nm Let_def)
qed

lemma parse_fodt_body_fuel:
  "tokens_left xp < n \<Longrightarrow> fodt_body n db indent xp doc = parse_fodt_body db indent xp doc"
  unfolding parse_fodt_body_def by (rule fodt_body_fuel) simp_all

text \<open>The loop as it is in the source.\<close>

lemma parse_fodt_body_unfold:
  "parse_fodt_body db indent xp doc =
     (let xp1 = next_token xp
      in if xp_type xp1 = START_ELEMENT
         then case body_child (parse_fodt_body db (indent + 1)) db indent xp1 doc of
                (xp2, doc2) \<Rightarrow> parse_fodt_body db indent xp2 doc2
         else (xp1, doc))"
proof (cases "xp_type (next_token xp) = START_ELEMENT")
  case True
  let ?xp1 = "next_token xp" and ?n = "tokens_left xp"
  have n: "tokens_left ?xp1 < ?n" using True next_token_progress [of xp] by simp
  have g: "goes (parse_fodt_body db i)" for i
    unfolding goes_def parse_fodt_body_def using fodt_body_goes [unfolded goes_def] by blast
  have "body_child (fodt_body ?n db (indent + 1)) db indent ?xp1 doc
      = body_child (parse_fodt_body db (indent + 1)) db indent ?xp1 doc"
    using n by (intro body_child_cong fodt_body_goes g parse_fodt_body_fuel) simp
  moreover obtain y d where b: "body_child (parse_fodt_body db (indent + 1)) db indent ?xp1 doc = (y, d)" by (rule prod.exhaust)
  moreover have "fodt_body ?n db indent y d = parse_fodt_body db indent y d"
    using body_child_forward [OF b] n by (intro parse_fodt_body_fuel) simp
  ultimately show ?thesis using True by (simp add: parse_fodt_body_def [of db indent xp] Let_def)
qed (simp add: parse_fodt_body_def Let_def)

end
