(* ===== verification/Cdsl_Doc_Tree.thy ===== *)
theory Cdsl_Doc_Tree
  imports Cdsl_Doc
begin

section \<open>Documents as trees\<close>

text \<open>
  The tokens of a rendered document, what each loop of the parser does on the tokens of an element, and the
  same reading as functions on trees, for the bodies of documents.
\<close>

subsection \<open>Token streams\<close>

datatype token = Start string "(string \<times> string) list" | Finish string | Content string | Eof

definition shows_token :: "token \<Rightarrow> xml_parser \<Rightarrow> bool" where
  "shows_token t xp \<longleftrightarrow>
     (case t of
        Start n as \<Rightarrow> xp_type xp = START_ELEMENT \<and> xp_tag xp = n \<and> (\<forall>k. name_ok k \<longrightarrow> xml_attr k xp = map_of as k)
      | Finish n \<Rightarrow> xp_type xp = END_ELEMENT \<and> xp_tag xp = n
      | Content c \<Rightarrow> xp_type xp = TEXT \<and> xp_text xp = c
      | Eof \<Rightarrow> xp_type xp = END)"

text \<open>The next tokens of a parser.\<close>

fun stream :: "xml_parser \<Rightarrow> token list \<Rightarrow> bool" where
  "stream xp [] = True"
| "stream xp (t # ts) = (shows_token t (next_token xp) \<and> stream (next_token xp) ts)"

fun toks :: "xml \<Rightarrow> token list" and tokss :: "xml list \<Rightarrow> token list" where
  "toks (Elem n as short ns) = Start n as # tokss ns @ [Finish n]"
| "toks (Chars t) = [Content t]"
| "toks (Comment c) = []"
| "toks (Declaration d) = []"
| "toks (Space w) = []"
| "tokss [] = []"
| "tokss (x # xs) = toks x @ tokss xs"

definition token_event :: "string \<Rightarrow> token \<Rightarrow> xml_type \<times> string \<times> string option" where
  "token_event k t =
     (case t of Start n as \<Rightarrow> (START_ELEMENT, n, map_of as k) | Finish n \<Rightarrow> (END_ELEMENT, n, None)
      | Content c \<Rightarrow> (TEXT, c, None) | Eof \<Rightarrow> (END, [], None))"

lemma events_of_tokens:
  "events k x = map (token_event k) (toks x)" "eventss k xs = map (token_event k) (tokss xs)"
  by (induction x and xs rule: toks_tokss.induct) (simp_all add: token_event_def)

lemma stream_of_events:
  "(\<And>k. name_ok k \<Longrightarrow> map (event_of k) (all_tokens xp) = map (token_event k) ts) \<Longrightarrow> stream xp (ts @ [Eof])"
proof (induction ts arbitrary: xp)
  case (Cons t ts)
  have a: "name_ok ''a''"
    by (simp add: name_ok_def name_char_def attr_char_def xml_space_def c_isspace_def char_code_def)
  have "all_tokens xp \<noteq> []" using Cons.prems [OF a] by auto
  then have n: "all_tokens xp = next_token xp # all_tokens (next_token xp)"
    by (subst all_tokens.simps, subst (asm) all_tokens.simps) (auto simp: Let_def split: if_splits)
  have e: "event_of k (next_token xp) = token_event k t" if "name_ok k" for k
    using Cons.prems [OF that] by (simp add: n)
  have "stream (next_token xp) (ts @ [Eof])"
    using Cons.prems by (intro Cons.IH) (simp add: n)
  moreover have "shows_token t (next_token xp)"
    using e [OF a] e by (cases t) (auto simp: shows_token_def event_of_def token_event_def split: if_splits)
  ultimately show ?case by simp
next
  case Nil
  have "name_ok ''a''"
    by (simp add: name_ok_def name_char_def attr_char_def xml_space_def c_isspace_def char_code_def)
  from Nil [OF this] have "all_tokens xp = []" by simp
  then show ?case by (subst (asm) all_tokens.simps) (simp add: shows_token_def Let_def split: if_splits)
qed

lemma document_stream:
  assumes "xmls_ok xs"
  shows "stream (XmlParser (renders xs)) (tokss xs @ [Eof])"
proof (rule stream_of_events)
  fix k :: string assume k: "name_ok k"
  have "reads k (renders xs) [] (eventss k xs)" using reads_document(2) [OF k assms, of "[]"] by simp
  moreover have "xp_pos (XmlParser (renders xs)) = renders xs \<and> xp_pending (XmlParser (renders xs)) = None"
    by (simp add: XmlParser_def)
  ultimately obtain xp' where xp': "xp_pos xp' = []" "xp_pending xp' = None"
      "map (event_of k) (all_tokens (XmlParser (renders xs))) = eventss k xs @ map (event_of k) (all_tokens xp')"
    unfolding reads_def by blast
  have "all_tokens xp' = []"
    using xp'(1,2) by (subst all_tokens.simps) (simp add: next_token_def skipWhitespace_def Let_def)
  with xp'(3) show "map (event_of k) (all_tokens (XmlParser (renders xs))) = map (token_event k) (tokss xs)"
    by (simp add: events_of_tokens)
qed

lemma shows_type:
  "shows_token (Start n as) xp \<Longrightarrow> xp_type xp = START_ELEMENT \<and> xp_tag xp = n"
  "shows_token (Finish n) xp \<Longrightarrow> xp_type xp = END_ELEMENT \<and> xp_tag xp = n"
  "shows_token (Content c) xp \<Longrightarrow> xp_type xp = TEXT \<and> xp_text xp = c"
  by (simp_all add: shows_token_def)

text \<open>The loops over a stream. In each, the parser has consumed the tokens and carries on as before.\<close>

lemma skip_unfold:
  "shows_token t (next_token xp) \<Longrightarrow> skip_to_end (Suc d) xp =
     (case t of Start n as \<Rightarrow> skip_to_end (Suc (Suc d)) (next_token xp) | Finish n \<Rightarrow> skip_to_end d (next_token xp)
      | Content c \<Rightarrow> skip_to_end (Suc d) (next_token xp) | Eof \<Rightarrow> next_token xp)"
  by (subst skip_to_end.simps) (auto simp: shows_token_def Let_def split: token.splits)

lemma skip_trees:
  "stream xp (toks x @ ts) \<Longrightarrow> \<exists>xp'. stream xp' ts \<and> skip_to_end (Suc d) xp = skip_to_end (Suc d) xp'"
  "stream xp (tokss xs @ ts) \<Longrightarrow> \<exists>xp'. stream xp' ts \<and> skip_to_end (Suc d) xp = skip_to_end (Suc d) xp'"
proof (induction x and xs arbitrary: d xp ts and d xp ts rule: toks_tokss.induct)
  case (1 n as short ns)
  then have s: "shows_token (Start n as) (next_token xp)" "stream (next_token xp) (tokss ns @ Finish n # ts)" by simp_all
  from 1(1) [OF s(2)] obtain y where y: "stream y (Finish n # ts)"
      "skip_to_end (Suc (Suc d)) (next_token xp) = skip_to_end (Suc (Suc d)) y" by blast
  have "skip_to_end (Suc d) xp = skip_to_end (Suc d) (next_token y)"
    using skip_unfold [OF s(1)] y skip_unfold [of "Finish n" y "Suc d"] by simp
  then show ?case using y(1) by auto
next
  case (2 t)
  then show ?case using skip_unfold [of "Content t" xp d] by auto
next
  case (7 x xs)
  then have "stream xp (toks x @ (tokss xs @ ts))" by simp
  from 7(1) [OF this] obtain y where y: "stream y (tokss xs @ ts)" "skip_to_end (Suc d) xp = skip_to_end (Suc d) y" by blast
  from 7(2) [OF y(1)] y(2) show ?case by auto
qed auto

lemma skip_element_stream:
  assumes "stream xp (tokss ns @ Finish n # ts)"
  shows "stream (skip_element xp) ts"
proof -
  from skip_trees(2) [OF assms, of 0] obtain y where y: "stream y (Finish n # ts)" "skip_to_end (Suc 0) xp = skip_to_end (Suc 0) y"
    by blast
  have "skip_to_end 0 (next_token y) = next_token y" by (subst skip_to_end.simps) simp
  then show ?thesis using y skip_unfold [of "Finish n" y 0] by (simp add: skip_element_def)
qed

text \<open>All the text inside.\<close>

fun texts :: "xml \<Rightarrow> string list" and textss :: "xml list \<Rightarrow> string list" where
  "texts (Elem n as short ns) = textss ns"
| "texts (Chars t) = [decode_xml_entities t]"
| "texts (Comment c) = []"
| "texts (Declaration d) = []"
| "texts (Space w) = []"
| "textss [] = []"
| "textss (x # xs) = texts x @ textss xs"

lemma all_inside_unfold:
  "shows_token t (next_token xp) \<Longrightarrow> while_inside (all_inside f) (Suc d) xp s =
     (case t of Start n as \<Rightarrow> while_inside (all_inside f) (Suc (Suc d)) (next_token xp) s
      | Finish n \<Rightarrow> while_inside (all_inside f) d (next_token xp) s
      | Content c \<Rightarrow> while_inside (all_inside f) (Suc d) (next_token xp) (f (decode_xml_entities c) s)
      | Eof \<Rightarrow> (next_token xp, s))"
  by (subst while_inside_unfold) (auto simp: shows_token_def all_inside_def Let_def split: token.splits)

lemma all_inside_trees:
  "stream xp (toks x @ ts) \<Longrightarrow> \<exists>xp'. stream xp' ts \<and>
     while_inside (all_inside f) (Suc d) xp s = while_inside (all_inside f) (Suc d) xp' (fold f (texts x) s)"
  "stream xp (tokss xs @ ts) \<Longrightarrow> \<exists>xp'. stream xp' ts \<and>
     while_inside (all_inside f) (Suc d) xp s = while_inside (all_inside f) (Suc d) xp' (fold f (textss xs) s)"
proof (induction x and xs arbitrary: d xp s ts and d xp s ts rule: toks_tokss.induct)
  case (1 n as short ns)
  then have s: "shows_token (Start n as) (next_token xp)" "stream (next_token xp) (tokss ns @ Finish n # ts)" by simp_all
  from 1(1) [OF s(2)] obtain y where y: "stream y (Finish n # ts)"
      "while_inside (all_inside f) (Suc (Suc d)) (next_token xp) s = while_inside (all_inside f) (Suc (Suc d)) y (fold f (textss ns) s)"
    by blast
  have "while_inside (all_inside f) (Suc d) xp s = while_inside (all_inside f) (Suc d) (next_token y) (fold f (textss ns) s)"
    using all_inside_unfold [OF s(1), of f d s] y all_inside_unfold [of "Finish n" y f "Suc d"] by simp
  then show ?case using y(1) by auto
next
  case (2 t)
  then show ?case using all_inside_unfold [of "Content t" xp f d s] by auto
next
  case (7 x xs)
  then have "stream xp (toks x @ (tokss xs @ ts))" by simp
  from 7(1) [OF this] obtain y where y: "stream y (tokss xs @ ts)"
    "while_inside (all_inside f) (Suc d) xp s = while_inside (all_inside f) (Suc d) y (fold f (texts x) s)" by blast
  from 7(2) [OF y(1)] y(2) show ?case by auto
qed auto

lemma while_done [simp]: "while_inside step 0 xp s = (xp, s)"
  by (subst while_inside.simps) simp

lemma all_inside_element:
  assumes "stream xp (tokss ns @ Finish n # ts)"
  shows "\<exists>xp'. stream xp' ts \<and> while_inside (all_inside f) 1 xp s = (xp', fold f (textss ns) s)"
proof -
  from all_inside_trees(2) [OF assms, of f 0 s] obtain y where y: "stream y (Finish n # ts)"
    "while_inside (all_inside f) (Suc 0) xp s = while_inside (all_inside f) (Suc 0) y (fold f (textss ns) s)" by blast
  then show ?thesis using all_inside_unfold [of "Finish n" y f 0] by auto
qed

lemma element_text_stream:
  assumes "stream xp (tokss ns @ Finish n # ts)"
  shows "\<exists>xp'. stream xp' ts \<and> element_text xp = (xp', concat (textss ns))"
proof -
  have "fold (\<lambda>t s. s @ t) us s = s @ concat us" for us and s :: string
    by (induction us arbitrary: s) simp_all
  then show ?thesis using all_inside_element [OF assms, of "\<lambda>t s. s @ t" "[]"] by (simp add: element_text_def)
qed

text \<open>
  A handler of start tags that reads the whole element, for the elements \<open>good\<close> says, with the effect \<open>eff\<close>.
\<close>

definition reads_element ::
  "(xml_parser \<Rightarrow> 's \<Rightarrow> xml_parser \<times> 's) \<Rightarrow> (xml \<Rightarrow> 's \<Rightarrow> bool) \<Rightarrow> (xml \<Rightarrow> 's \<Rightarrow> 's) \<Rightarrow> bool" where
  "reads_element h good eff \<longleftrightarrow>
     (\<forall>n as short ns xp ts s. good (Elem n as short ns) s \<longrightarrow> shows_token (Start n as) xp
        \<longrightarrow> stream xp (tokss ns @ Finish n # ts) \<longrightarrow> (\<exists>xp'. stream xp' ts \<and> h xp s = (xp', eff (Elem n as short ns) s)))"

lemma reads_elementI:
  "(\<And>n as short ns xp ts s. good (Elem n as short ns) s \<Longrightarrow> shows_token (Start n as) xp
      \<Longrightarrow> stream xp (tokss ns @ Finish n # ts) \<Longrightarrow> \<exists>xp'. stream xp' ts \<and> h xp s = (xp', eff (Elem n as short ns) s))
    \<Longrightarrow> reads_element h good eff"
  unfolding reads_element_def by blast

definition child_effect :: "(xml \<Rightarrow> 's \<Rightarrow> 's) \<Rightarrow> (string \<Rightarrow> 's \<Rightarrow> 's) \<Rightarrow> xml \<Rightarrow> 's \<Rightarrow> 's" where
  "child_effect eff f x s =
     (case x of Elem n as short ns \<Rightarrow> eff x s | Chars t \<Rightarrow> f (decode_xml_entities t) s | _ \<Rightarrow> s)"

definition is_elem :: "xml \<Rightarrow> bool" where
  "is_elem x = (case x of Elem n as short ns \<Rightarrow> True | _ \<Rightarrow> False)"

text \<open>Every element is good in the state in which it is read.\<close>

fun steps_ok :: "(xml \<Rightarrow> 's \<Rightarrow> bool) \<Rightarrow> (xml \<Rightarrow> 's \<Rightarrow> 's) \<Rightarrow> (string \<Rightarrow> 's \<Rightarrow> 's) \<Rightarrow> xml list \<Rightarrow> 's \<Rightarrow> bool" where
  "steps_ok good eff f [] s = True"
| "steps_ok good eff f (x # xs) s = ((is_elem x \<longrightarrow> good x s) \<and> steps_ok good eff f xs (child_effect eff f x s))"

lemma steps_ok_all: "(\<And>x s. x \<in> set xs \<Longrightarrow> is_elem x \<Longrightarrow> good x s) \<Longrightarrow> steps_ok good eff f xs s"
  by (induction xs arbitrary: s) auto

lemma inside_unfold:
  assumes "goes h" and "shows_token t (next_token xp)"
  shows "while_inside (inside h f) (Suc d) xp s =
     (case t of Start n as \<Rightarrow> (case h (next_token xp) s of (y, s') \<Rightarrow> while_inside (inside h f) (Suc d) y s')
      | Finish n \<Rightarrow> while_inside (inside h f) d (next_token xp) s
      | Content c \<Rightarrow> while_inside (inside h f) (Suc d) (next_token xp) (f (decode_xml_entities c) s)
      | Eof \<Rightarrow> (next_token xp, s))"
  using assms(2)
  by (subst while_inside_unfold [OF inside_forward [OF assms(1)]])
    (auto simp: shows_token_def inside_def Let_def split: token.splits prod.splits)

lemma inside_trees:
  assumes "goes h" and "reads_element h good eff"
  shows "stream xp (tokss xs @ ts) \<Longrightarrow> steps_ok good eff f xs s \<Longrightarrow> \<exists>xp'. stream xp' ts \<and>
     while_inside (inside h f) (Suc d) xp s = while_inside (inside h f) (Suc d) xp' (fold (child_effect eff f) xs s)"
proof (induction xs arbitrary: xp s)
  case (Cons x xs)
  have "\<exists>y. stream y (tokss xs @ ts) \<and>
      while_inside (inside h f) (Suc d) xp s = while_inside (inside h f) (Suc d) y (child_effect eff f x s)"
  proof (cases x)
    case (Elem n as short ns)
    with Cons.prems have s: "shows_token (Start n as) (next_token xp)" "good x s"
      "stream (next_token xp) (tokss ns @ Finish n # (tokss xs @ ts))" by (simp_all add: is_elem_def)
    then obtain y where "stream y (tokss xs @ ts)" "h (next_token xp) s = (y, eff x s)"
      using assms(2) unfolding reads_element_def Elem by blast
    then show ?thesis using inside_unfold [OF assms(1) s(1)] Elem by (auto simp: child_effect_def)
  next
    case (Chars t)
    then show ?thesis
      using Cons.prems(1) inside_unfold [OF assms(1), of "Content t" xp f d s] by (auto simp: child_effect_def)
  qed (use Cons.prems(1) in \<open>auto simp: child_effect_def\<close>)
  then obtain y where y: "stream y (tokss xs @ ts)"
    "while_inside (inside h f) (Suc d) xp s = while_inside (inside h f) (Suc d) y (child_effect eff f x s)" by blast
  from Cons.IH [OF y(1)] Cons.prems(2) y(2) show ?case by auto
qed auto

lemma inside_element:
  assumes "goes h" and "reads_element h good eff" and "stream xp (tokss ns @ Finish n # ts)"
    and "steps_ok good eff f ns s"
  shows "\<exists>xp'. stream xp' ts \<and> while_inside (inside h f) 1 xp s = (xp', fold (child_effect eff f) ns s)"
proof -
  from inside_trees [OF assms(1-4), of 0] obtain y where y: "stream y (Finish n # ts)"
    "while_inside (inside h f) (Suc 0) xp s = while_inside (inside h f) (Suc 0) y (fold (child_effect eff f) ns s)" by blast
  then show ?thesis using inside_unfold [OF assms(1), of "Finish n" y f 0] by auto
qed

lemma inside_all:
  assumes "goes h" and "reads_element h (\<lambda>x s. True) eff" and "stream xp (tokss ns @ Finish n # ts)"
  shows "\<exists>xp'. stream xp' ts \<and> while_inside (inside h f) 1 xp s = (xp', fold (child_effect eff f) ns s)"
  by (rule inside_element [OF assms]) (simp add: steps_ok_all)

subsection \<open>Attributes of an element\<close>

lemma name_ok_letters:
  assumes "k \<noteq> []" and "list_all (\<lambda>c. (97 \<le> char_code c \<and> char_code c \<le> 122) \<or> c = CHR ''-'' \<or> c = CHR '':'') k"
  shows "name_ok k"
proof -
  have c: "name_char c \<and> attr_char c \<and> c \<noteq> CHR ''='' \<and> c \<noteq> CHR ''!'' \<and> c \<noteq> CHR ''?''"
    if "(97 \<le> char_code c \<and> char_code c \<le> 122) \<or> c = CHR ''-'' \<or> c = CHR '':''" for c
    using that by (auto simp: name_char_def attr_char_def xml_space_def c_isspace_def char_code_def)
  show ?thesis using assms c by (cases k) (auto simp: name_ok_def list_all_iff)
qed

lemma attribute_names [simp]:
  "name_ok ''fo:background-color''" "name_ok ''fo:border''" "name_ok ''fo:border-bottom''"
  "name_ok ''fo:border-left''" "name_ok ''fo:border-right''" "name_ok ''fo:border-top''" "name_ok ''fo:color''"
  "name_ok ''fo:font-size''" "name_ok ''fo:font-style''" "name_ok ''fo:font-weight''" "name_ok ''fo:keep-with-next''"
  "name_ok ''fo:letter-spacing''" "name_ok ''fo:line-height''" "name_ok ''fo:margin-bottom''"
  "name_ok ''fo:margin-left''" "name_ok ''fo:margin-right''" "name_ok ''fo:margin-top''" "name_ok ''fo:padding''"
  "name_ok ''fo:padding-bottom''" "name_ok ''fo:padding-left''" "name_ok ''fo:padding-right''"
  "name_ok ''fo:padding-top''" "name_ok ''fo:page-height''" "name_ok ''fo:page-width''" "name_ok ''fo:text-align''"
  "name_ok ''fo:text-indent''" "name_ok ''meta:character-count''" "name_ok ''meta:page-count''"
  "name_ok ''meta:paragraph-count''" "name_ok ''meta:word-count''" "name_ok ''style:column-width''"
  "name_ok ''style:family''" "name_ok ''style:font-name''" "name_ok ''style:font-name-asian''"
  "name_ok ''style:font-size-asian''" "name_ok ''style:name''" "name_ok ''style:page-number''"
  "name_ok ''style:parent-style-name''" "name_ok ''style:text-background-color''"
  "name_ok ''style:text-line-through-style''" "name_ok ''style:text-position''"
  "name_ok ''style:text-underline-color''" "name_ok ''style:text-underline-style''"
  "name_ok ''style:use-window-font-color''" "name_ok ''style:vertical-align''" "name_ok ''style:width''"
  "name_ok ''svg:height''" "name_ok ''svg:width''" "name_ok ''table:align''"
  "name_ok ''table:number-columns-spanned''" "name_ok ''table:number-rows-spanned''" "name_ok ''table:style-name''"
  "name_ok ''text:anchor-type''" "name_ok ''text:id''" "name_ok ''text:name''" "name_ok ''text:outline-level''"
  "name_ok ''text:style-name''" "name_ok ''xlink:href''"
  by (rule name_ok_letters; simp add: char_code_def)+

lemma shows_attr: "shows_token (Start n as) xp \<Longrightarrow> name_ok k \<Longrightarrow> attributes xp k = map_of as k"
  by (simp add: shows_token_def attributes_def)

lemma shows_on_attr:
  "shows_token (Start n as) xp \<Longrightarrow> name_ok k \<Longrightarrow> on_attr (attributes xp) k f p = on_attr (map_of as) k f p"
  "shows_token (Start n as) xp \<Longrightarrow> name_ok k \<Longrightarrow> name_ok k'
    \<Longrightarrow> on_attr2 (attributes xp) k k' f p = on_attr2 (map_of as) k k' f p"
  by (simp_all add: on_attr2_def on_attr_def shows_attr split: option.split)

lemma shows_color:
  assumes "shows_token (Start n as) xp"
  shows "text_color (attributes xp) p = text_color (map_of as) p"
  by (simp add: text_color_def shows_attr [OF assms] split: option.split)

lemma shows_props:
  assumes "shows_token (Start n as) xp"
  shows "parse_text_props_elem (attributes xp) tp = parse_text_props_elem (map_of as) tp"
    and "parse_para_props_elem (attributes xp) pp = parse_para_props_elem (map_of as) pp"
    and "parse_table_props_elem (attributes xp) ta = parse_table_props_elem (map_of as) ta"
    and "parse_cell_props_elem (attributes xp) cp = parse_cell_props_elem (map_of as) cp"
    and "style_header (attributes xp) d = style_header (map_of as) d"
    and "page_layout_props (attributes xp) pg = page_layout_props (map_of as) pg"
    and "style_text db (attributes xp) = style_text db (map_of as)"
    and "styled_paragraph db indent (attributes xp) = styled_paragraph db indent (map_of as)"
    and "outline_level (attributes xp) b = outline_level (map_of as) b"
    and "bookmark (attributes xp) pg = bookmark (map_of as) pg"
    and "cell_new db (attributes xp) = cell_new db (map_of as)"
    and "row_new db (attributes xp) = row_new db (map_of as)"
    and "table_new db indent (attributes xp) = table_new db indent (map_of as)"
    and "frame_new (attributes xp) = frame_new (map_of as)"
    and "document_statistic (attributes xp) pg = document_statistic (map_of as) pg"
    and "name_ok k \<Longrightarrow> attr_or_empty k (attributes xp) = attr_or_empty k (map_of as)"
  by (simp_all add: parse_text_props_elem_def shows_color [OF assms] parse_para_props_elem_def parse_table_props_elem_def
      parse_cell_props_elem_def style_header_def page_layout_props_def style_text_def styled_paragraph_def
      outline_level_def bookmark_def cell_new_def row_new_def table_new_def frame_new_def attr_length_def
      document_statistic_def attr_or_empty_def shows_attr [OF assms] shows_on_attr [OF assms])

lemma shows_style_child:
  assumes "shows_token (Start n as) xp"
  shows "style_child n (attributes xp) s = style_child n (map_of as) s"
  by (simp add: style_child_def shows_props [OF assms] shows_on_attr [OF assms])

lemma shows_match: "shows_token (Start n as) xp \<Longrightarrow> xml_match m xp \<longleftrightarrow> n = m"
  by (auto simp: shows_token_def xml_match_def)

subsection \<open>What an element is read as\<close>

text \<open>
  The reading of documents as functions on trees: no parser, no depths. Attributes are those of the
  start tag, and texts are those inside the element.
\<close>

definition note_child_tree :: "TextProps \<Rightarrow> xml \<Rightarrow> TextBlock list \<Rightarrow> TextBlock list" where
  "note_child_tree def x tbs =
     (case x of
        Elem n as short ns \<Rightarrow> if n = ''text:note-body'' then fold (note_text def) (textss ns) tbs else tbs
      | _ \<Rightarrow> tbs)"

definition note_tree :: "TextProps \<Rightarrow> xml_attributes \<Rightarrow> xml list \<Rightarrow> ContentBlock" where
  "note_tree def at ns =
     (block_new FOOTNOTE)\<lparr>cb_footnote_id := attr_or_empty ''text:id'' at,
       cb_text_blocks := fold (child_effect (note_child_tree def) no_text) ns []\<rparr>"

definition span_tree :: "Style list \<Rightarrow> TextProps \<Rightarrow> xml_attributes \<Rightarrow> xml list \<Rightarrow> TextBlock list \<Rightarrow> TextBlock list" where
  "span_tree db def at ns tbs = push_text (merge_text_props def (style_text db at)) (concat (textss ns)) tbs"

definition paragraph_child_tree ::
  "Style list \<Rightarrow> TextProps \<Rightarrow> xml \<Rightarrow> TextBlock list \<times> doc \<Rightarrow> TextBlock list \<times> doc" where
  "paragraph_child_tree db def x s =
     (case x of
        Elem n as short ns \<Rightarrow>
          (case s of (tbs, page, out) \<Rightarrow>
             if n = ''text:span'' then (span_tree db def (map_of as) ns tbs, page, out)
             else if n = ''text:page-number'' then (push_text def (concat (textss ns)) tbs, page, out)
             else if n = ''text:a'' then
               (fold (link_text def (attr_or_empty ''xlink:href'' (map_of as))) (textss ns) tbs, page, out)
             else if n = ''text:bookmark'' \<or> n = ''text:bookmark-start'' then (tbs, bookmark (map_of as) page, out)
             else if n = ''text:note'' then (tbs, page, out @ [note_tree def (map_of as) ns])
             else s)
      | _ \<Rightarrow> s)"

definition paragraph_tree :: "Style list \<Rightarrow> i32 \<Rightarrow> xml_attributes \<Rightarrow> xml list \<Rightarrow> doc \<Rightarrow> doc" where
  "paragraph_tree db indent at ns doc =
     (let def = style_text db at
      in case fold (child_effect (paragraph_child_tree db def) (paragraph_text def)) ns ([], doc) of
           (tbs, page, out) \<Rightarrow>
             (page, out @ [(outline_level at (styled_paragraph db indent at))\<lparr>cb_text_blocks := tbs\<rparr>]))"

text \<open>The paragraphs of cells and lists.\<close>

definition plain_child_tree :: "Style list \<Rightarrow> TextProps \<Rightarrow> xml \<Rightarrow> TextBlock list \<Rightarrow> TextBlock list" where
  "plain_child_tree db def x tbs =
     (case x of
        Elem n as short ns \<Rightarrow>
          if n = ''text:span'' then span_tree db def (map_of as) ns tbs
          else if n = ''text:page-number'' then push_text def (concat (textss ns)) tbs
          else tbs
      | _ \<Rightarrow> tbs)"

definition plain_tree :: "Style list \<Rightarrow> xml_attributes \<Rightarrow> xml list \<Rightarrow> TextBlock list \<Rightarrow> TextBlock list" where
  "plain_tree db at ns =
     (let def = style_text db at in fold (child_effect (plain_child_tree db def) (append_text def)) ns)"

definition cell_child_tree :: "Style list \<Rightarrow> xml \<Rightarrow> TextBlock list \<Rightarrow> TextBlock list" where
  "cell_child_tree db x tbs =
     (case x of
        Elem n as short ns \<Rightarrow> if n = ''text:p'' then plain_tree db (map_of as) ns tbs else tbs
      | _ \<Rightarrow> tbs)"

definition row_child_tree :: "Style list \<Rightarrow> xml \<Rightarrow> TableCell list \<Rightarrow> TableCell list" where
  "row_child_tree db x cells =
     (case x of
        Elem n as short ns \<Rightarrow>
          if n = ''table:table-cell''
          then cells @ [(cell_new db (map_of as))\<lparr>tc_text_blocks :=
                 fold (child_effect (cell_child_tree db) (append_text text_props_new)) ns []\<rparr>]
          else cells
      | _ \<Rightarrow> cells)"

definition table_child_tree :: "Style list \<Rightarrow> xml \<Rightarrow> ContentBlock \<Rightarrow> ContentBlock" where
  "table_child_tree db x b =
     (case x of
        Elem n as short ns \<Rightarrow>
          if n = ''table:table-column'' then on_attr (map_of as) ''table:style-name'' (column_width db) b
          else if n = ''table:table-row''
          then b\<lparr>cb_table_rows := cb_table_rows b
                 @ [(row_new db (map_of as))\<lparr>tr_cells := fold (child_effect (row_child_tree db) no_text) ns []\<rparr>]\<rparr>
          else b
      | _ \<Rightarrow> b)"

definition table_tree :: "Style list \<Rightarrow> i32 \<Rightarrow> xml_attributes \<Rightarrow> xml list \<Rightarrow> doc \<Rightarrow> doc" where
  "table_tree db indent at ns doc =
     (fst doc, snd doc @ [fold (child_effect (table_child_tree db) no_text) ns (table_new db indent at)])"

text \<open>An item of a list: its paragraphs. Lists inside items are dropped.\<close>

definition item_child_tree :: "Style list \<Rightarrow> i32 \<Rightarrow> xml \<Rightarrow> doc \<Rightarrow> doc" where
  "item_child_tree db indent x doc =
     (case x of
        Elem n as short ns \<Rightarrow>
          if n = ''text:p'' \<or> n = ''text:h''
          then (fst doc, snd doc @ [(styled_paragraph db (indent + 1) (map_of as))\<lparr>cb_text_blocks := plain_tree db (map_of as) ns []\<rparr>])
          else doc
      | _ \<Rightarrow> doc)"

definition list_child_tree :: "Style list \<Rightarrow> i32 \<Rightarrow> xml \<Rightarrow> doc \<Rightarrow> doc" where
  "list_child_tree db indent x doc =
     (case x of
        Elem n as short ns \<Rightarrow>
          if n = ''text:list-item'' then fold (child_effect (item_child_tree db indent) no_text) ns doc else doc
      | _ \<Rightarrow> doc)"

text \<open>A frame: the images inside, the last one counts.\<close>

definition image_tree :: "string \<Rightarrow> xml_attributes \<Rightarrow> ContentBlock \<Rightarrow> ContentBlock" where
  "image_tree n at b = (if n = ''draw:image'' then on_attr at ''xlink:href'' (\<lambda>v b. b\<lparr>cb_image_name := v\<rparr>) b else b)"

fun frame_tree :: "xml \<Rightarrow> ContentBlock \<Rightarrow> ContentBlock" and frame_trees :: "xml list \<Rightarrow> ContentBlock \<Rightarrow> ContentBlock" where
  "frame_tree (Elem n as short ns) b = frame_trees ns (image_tree n (map_of as) b)"
| "frame_tree (Chars t) b = b"
| "frame_tree (Comment c) b = b"
| "frame_tree (Declaration d) b = b"
| "frame_tree (Space w) b = b"
| "frame_trees [] b = b"
| "frame_trees (x # xs) b = frame_trees xs (frame_tree x b)"

definition body_child_tree :: "Style list \<Rightarrow> i32 \<Rightarrow> xml \<Rightarrow> doc \<Rightarrow> doc" where
  "body_child_tree db indent x doc =
     (case x of
        Elem n as short ns \<Rightarrow>
          if n = ''text:p'' \<or> n = ''text:h'' then paragraph_tree db indent (map_of as) ns doc
          else if n = ''table:table'' then table_tree db indent (map_of as) ns doc
          else if n = ''text:list'' then fold (child_effect (list_child_tree db indent) no_text) ns doc
          else if n = ''draw:frame'' then (fst doc, snd doc @ [frame_trees ns (frame_new (map_of as))])
          else doc
      | _ \<Rightarrow> doc)"

text \<open>
  The bodies this is right for: no text between the blocks, no formulas, and nothing but items and
  headers in the lists inside lists.
\<close>

fun no_object :: "xml \<Rightarrow> bool" and no_objects :: "xml list \<Rightarrow> bool" where
  "no_object (Elem n as short ns) = (n \<noteq> ''draw:object'' \<and> no_objects ns)"
| "no_object (Chars t) = True"
| "no_object (Comment c) = True"
| "no_object (Declaration d) = True"
| "no_object (Space w) = True"
| "no_objects [] = True"
| "no_objects (x # xs) = (no_object x \<and> no_objects xs)"

definition no_block :: "xml \<Rightarrow> bool" where
  "no_block x =
     (case x of
        Elem n as short ns \<Rightarrow> n \<notin> {''text:p'', ''text:h'', ''table:table'', ''text:list'', ''draw:frame''}
      | Chars t \<Rightarrow> False | _ \<Rightarrow> True)"

definition item_child_ok :: "xml \<Rightarrow> bool" where
  "item_child_ok x = (case x of Elem n as short ns \<Rightarrow> n = ''text:list'' \<longrightarrow> list_all no_block ns | _ \<Rightarrow> True)"

definition list_child_ok :: "xml \<Rightarrow> bool" where
  "list_child_ok x = (case x of Elem n as short ns \<Rightarrow> n = ''text:list-item'' \<longrightarrow> list_all item_child_ok ns | _ \<Rightarrow> True)"

definition body_child_ok :: "xml \<Rightarrow> bool" where
  "body_child_ok x =
     (case x of
        Elem n as short ns \<Rightarrow> (n = ''text:list'' \<longrightarrow> list_all list_child_ok ns) \<and> (n = ''draw:frame'' \<longrightarrow> no_objects ns)
      | Chars t \<Rightarrow> False | _ \<Rightarrow> True)"

subsection \<open>Elements are read as trees\<close>

lemma shows_start: "shows_token (Start n as) xp \<Longrightarrow> xp_type xp = START_ELEMENT"
  by (simp add: shows_token_def)

lemma skipped_stream:
  "stream xp (tokss ns @ Finish n # ts) \<Longrightarrow> \<exists>xp'. stream xp' ts \<and> skipped xp s = (xp', s)"
  using skip_element_stream by (auto simp: skipped_def)

lemma span_stream:
  assumes "shows_token (Start n as) xp" and "stream xp (tokss ns @ Finish n # ts)"
  shows "\<exists>xp'. stream xp' ts \<and> span_block db def xp tbs = (xp', span_tree db def (map_of as) ns tbs)"
    and "\<exists>xp'. stream xp' ts \<and> page_number_block def xp tbs = (xp', push_text def (concat (textss ns)) tbs)"
    and "\<exists>xp'. stream xp' ts \<and> link_blocks def xp tbs = (xp', fold (link_text def (attr_or_empty ''xlink:href'' (map_of as))) (textss ns) tbs)"
  using element_text_stream [OF assms(2)] all_inside_element [OF assms(2)]
  by (auto simp: span_block_def page_number_block_def link_blocks_def span_tree_def shows_props [OF assms(1)])

lemma reads_note_child: "reads_element (note_child def) (\<lambda>x s. True) (note_child_tree def)"
proof (rule reads_elementI)
  fix n as short ns xp ts and s :: "TextBlock list"
  assume a: "shows_token (Start n as) xp" "stream xp (tokss ns @ Finish n # ts)"
  obtain x1 where 1: "stream x1 ts" "while_inside (all_inside (note_text def)) 1 xp s = (x1, fold (note_text def) (textss ns) s)"
    using all_inside_element [OF a(2), where f = "note_text def" and s = s] by blast
  show "\<exists>xp'. stream xp' ts \<and> note_child def xp s = (xp', note_child_tree def (Elem n as short ns) s)"
    using 1(1) skip_element_stream [OF a(2)]
    by (simp add: 1(2) note_child_def note_child_tree_def skipped_def shows_match [OF a(1)] del: One_nat_def)
qed

lemma note_stream:
  assumes "shows_token (Start n as) xp" and "stream xp (tokss ns @ Finish n # ts)"
  shows "\<exists>xp'. stream xp' ts \<and> note_block def xp = (xp', note_tree def (map_of as) ns)"
proof -
  obtain xp' where "stream xp' ts" "while_inside (inside (note_child def) no_text) 1 xp []
      = (xp', fold (child_effect (note_child_tree def) no_text) ns [])"
    using inside_all [OF child_goes(4) reads_note_child assms(2), where f = no_text and s = "[]"] by blast
  then show ?thesis by (auto simp: note_block_def note_tree_def shows_props [OF assms(1)])
qed

lemma reads_paragraph_child: "reads_element (paragraph_child db def) (\<lambda>x s. True) (paragraph_child_tree db def)"
proof (rule reads_elementI)
  fix n as short ns xp ts and s :: "TextBlock list \<times> doc"
  assume a: "shows_token (Start n as) xp" "stream xp (tokss ns @ Finish n # ts)"
  obtain tbs page out where s: "s = (tbs, page, out)" by (cases s) auto
  obtain x1 where 1: "stream x1 ts" "span_block db def xp tbs = (x1, span_tree db def (map_of as) ns tbs)"
    using span_stream(1) [OF a] by blast
  obtain x2 where 2: "stream x2 ts" "page_number_block def xp tbs = (x2, push_text def (concat (textss ns)) tbs)"
    using span_stream(2) [OF a] by blast
  obtain x3 where 3: "stream x3 ts" "link_blocks def xp tbs
      = (x3, fold (link_text def (attr_or_empty ''xlink:href'' (map_of as))) (textss ns) tbs)"
    using span_stream(3) [OF a] by blast
  obtain x4 where 4: "stream x4 ts" "note_block def xp = (x4, note_tree def (map_of as) ns)"
    using note_stream [OF a] by blast
  show "\<exists>xp'. stream xp' ts \<and> paragraph_child db def xp s = (xp', paragraph_child_tree db def (Elem n as short ns) s)"
    using 1(1) 2(1) 3(1) 4(1) skip_element_stream [OF a(2)]
    by (simp add: 1(2) 2(2) 3(2) 4(2) s paragraph_child_def paragraph_child_tree_def skipped_def shows_match [OF a(1)] shows_props [OF a(1)])
qed

lemma paragraph_stream:
  assumes "shows_token (Start n as) xp" and "stream xp (tokss ns @ Finish n # ts)"
  shows "\<exists>xp'. stream xp' ts \<and> parse_paragraph db indent xp doc = (xp', paragraph_tree db indent (map_of as) ns doc)"
proof -
  let ?def = "style_text db (map_of as)"
  obtain xp' where "stream xp' ts"
      "while_inside (inside (paragraph_child db ?def) (paragraph_text ?def)) 1 xp ([], doc)
        = (xp', fold (child_effect (paragraph_child_tree db ?def) (paragraph_text ?def)) ns ([], doc))"
    using inside_all [OF child_goes(1) reads_paragraph_child assms(2), where f = "paragraph_text ?def" and s = "([], doc)"] by blast
  then show ?thesis
    by (auto simp: parse_paragraph_def paragraph_tree_def Let_def shows_props [OF assms(1)] split: prod.split)
qed

text \<open>The paragraphs of cells and lists.\<close>

lemma reads_plain_child:
  "reads_element (cell_paragraph_child db def) (\<lambda>x s. True) (plain_child_tree db def)"
  "reads_element (list_paragraph_child db def) (\<lambda>x s. True) (plain_child_tree db def)"
proof -
  have "list_paragraph_child = cell_paragraph_child"
    by (intro ext) (simp add: list_paragraph_child_def cell_paragraph_child_def)
  moreover show "reads_element (cell_paragraph_child db def) (\<lambda>x s. True) (plain_child_tree db def)"
  proof (rule reads_elementI)
    fix n as short ns xp ts and tbs :: "TextBlock list"
    assume a: "shows_token (Start n as) xp" "stream xp (tokss ns @ Finish n # ts)"
    obtain x1 where 1: "stream x1 ts" "span_block db def xp tbs = (x1, span_tree db def (map_of as) ns tbs)"
      using span_stream(1) [OF a] by blast
    obtain x2 where 2: "stream x2 ts" "page_number_block def xp tbs = (x2, push_text def (concat (textss ns)) tbs)"
      using span_stream(2) [OF a] by blast
    show "\<exists>xp'. stream xp' ts \<and> cell_paragraph_child db def xp tbs = (xp', plain_child_tree db def (Elem n as short ns) tbs)"
      using 1(1) 2(1) skip_element_stream [OF a(2)]
      by (simp add: 1(2) 2(2) cell_paragraph_child_def plain_child_tree_def skipped_def shows_match [OF a(1)])
  qed
  ultimately show "reads_element (list_paragraph_child db def) (\<lambda>x s. True) (plain_child_tree db def)" by simp
qed

lemma plain_stream:
  assumes "shows_token (Start n as) xp" and "stream xp (tokss ns @ Finish n # ts)"
  shows "\<exists>xp'. stream xp' ts \<and> while_inside (inside (cell_paragraph_child db (style_text db (attributes xp)))
      (append_text (style_text db (attributes xp)))) 1 xp tbs = (xp', plain_tree db (map_of as) ns tbs)"
    and "\<exists>xp'. stream xp' ts \<and> while_inside (inside (list_paragraph_child db (style_text db (attributes xp)))
      (append_text (style_text db (attributes xp)))) 1 xp tbs = (xp', plain_tree db (map_of as) ns tbs)"
  unfolding plain_tree_def Let_def shows_props [OF assms(1)]
  by (rule inside_all [OF child_goes(2) reads_plain_child(1) assms(2)])
    (rule inside_all [OF child_goes(3) reads_plain_child(2) assms(2)])

lemma reads_cell_child: "reads_element (cell_child db) (\<lambda>x s. True) (cell_child_tree db)"
proof (rule reads_elementI)
  fix n as short ns xp ts and tbs :: "TextBlock list"
  assume a: "shows_token (Start n as) xp" "stream xp (tokss ns @ Finish n # ts)"
  obtain x1 where 1: "stream x1 ts" "while_inside (inside (cell_paragraph_child db (style_text db (attributes xp)))
      (append_text (style_text db (attributes xp)))) 1 xp tbs = (x1, plain_tree db (map_of as) ns tbs)"
    using plain_stream(1) [OF a, of db tbs] by blast
  show "\<exists>xp'. stream xp' ts \<and> cell_child db xp tbs = (xp', cell_child_tree db (Elem n as short ns) tbs)"
    using 1(1) skip_element_stream [OF a(2)]
    by (simp add: 1(2) [unfolded One_nat_def] Let_def cell_child_def cell_child_tree_def skipped_def shows_match [OF a(1)])
qed

lemma reads_row_child: "reads_element (row_child db) (\<lambda>x s. True) (row_child_tree db)"
proof (rule reads_elementI)
  fix n as short ns xp ts and cells :: "TableCell list"
  assume a: "shows_token (Start n as) xp" "stream xp (tokss ns @ Finish n # ts)"
  obtain x1 where 1: "stream x1 ts" "while_inside (inside (cell_child db) (append_text text_props_new)) 1 xp []
      = (x1, fold (child_effect (cell_child_tree db) (append_text text_props_new)) ns [])"
    using inside_all [OF child_goes(5) reads_cell_child a(2), where f = "append_text text_props_new" and s = "[]"] by blast
  show "\<exists>xp'. stream xp' ts \<and> row_child db xp cells = (xp', row_child_tree db (Elem n as short ns) cells)"
    using 1(1) skip_element_stream [OF a(2)]
    by (simp add: 1(2) [unfolded One_nat_def] row_child_def parse_cell_def row_child_tree_def skipped_def
        shows_match [OF a(1)] shows_props [OF a(1)])
qed

lemma reads_table_child: "reads_element (table_child db) (\<lambda>x s. True) (table_child_tree db)"
proof (rule reads_elementI)
  fix n as short ns xp ts and b :: ContentBlock
  assume a: "shows_token (Start n as) xp" "stream xp (tokss ns @ Finish n # ts)"
  obtain x1 where 1: "stream x1 ts" "while_inside (inside (row_child db) no_text) 1 xp []
      = (x1, fold (child_effect (row_child_tree db) no_text) ns [])"
    using inside_all [OF child_goes(6) reads_row_child a(2), where f = no_text and s = "[]"] by blast
  show "\<exists>xp'. stream xp' ts \<and> table_child db xp b = (xp', table_child_tree db (Elem n as short ns) b)"
    using 1(1) skip_element_stream [OF a(2)]
    by (simp add: 1(2) [unfolded One_nat_def] table_child_def parse_row_def table_child_tree_def skipped_def
        shows_match [OF a(1)] shows_props [OF a(1)] shows_on_attr [OF a(1)])
qed

lemma table_stream:
  assumes "shows_token (Start n as) xp" and "stream xp (tokss ns @ Finish n # ts)"
  shows "\<exists>xp'. stream xp' ts \<and> parse_table db indent xp doc = (xp', table_tree db indent (map_of as) ns doc)"
proof -
  obtain x1 where "stream x1 ts" "while_inside (inside (table_child db) no_text) 1 xp (table_new db indent (map_of as))
      = (x1, fold (child_effect (table_child_tree db) no_text) ns (table_new db indent (map_of as)))"
    using inside_all [OF child_goes(7) reads_table_child assms(2), where f = no_text] by blast
  then show ?thesis by (auto simp: parse_table_def table_tree_def shows_props [OF assms(1)])
qed

text \<open>Lists. A list inside an item is read as a body, which has nothing for items.\<close>

lemma body_unfold:
  "shows_token (Start n as) (next_token xp) \<Longrightarrow> parse_fodt_body db indent xp doc =
     (case body_child (parse_fodt_body db (indent + 1)) db indent (next_token xp) doc of
        (y, doc') \<Rightarrow> parse_fodt_body db indent y doc')"
  "shows_token (Finish n) (next_token xp) \<Longrightarrow> parse_fodt_body db indent xp doc = (next_token xp, doc)"
  by (subst parse_fodt_body_unfold, simp add: shows_token_def Let_def)+

lemma parse_fodt_body_goes: "goes (parse_fodt_body db indent)"
  unfolding goes_def parse_fodt_body_def using fodt_body_goes [unfolded goes_def] by blast

lemma skip_body:
  "stream xp (tokss ns @ Finish n # ts) \<Longrightarrow> list_all no_block ns
    \<Longrightarrow> \<exists>xp'. stream xp' ts \<and> parse_fodt_body db indent xp doc = (xp', doc)"
proof (induction ns arbitrary: xp)
  case Nil
  then show ?case using body_unfold(2) [of n xp] by auto
next
  case (Cons x ns)
  show ?case
  proof (cases x)
    case (Elem m as short ms)
    with Cons.prems have s: "shows_token (Start m as) (next_token xp)"
      "stream (next_token xp) (tokss ms @ Finish m # tokss ns @ Finish n # ts)" by simp_all
    have "body_child (parse_fodt_body db (indent + 1)) db indent (next_token xp) doc = (skip_element (next_token xp), doc)"
      using Cons.prems(2) Elem by (auto simp: body_child_def skipped_def no_block_def shows_match [OF s(1)])
    then show ?thesis
      using Cons.IH [OF skip_element_stream [OF s(2)]] Cons.prems(2) body_unfold(1) [OF s(1), of db indent doc] by simp
  qed (use Cons in \<open>auto simp: no_block_def\<close>)
qed

lemma reads_item_child:
  "reads_element (item_child (parse_fodt_body db (indent + 1)) db indent) (\<lambda>x s. item_child_ok x) (item_child_tree db indent)"
proof (rule reads_elementI)
  fix n as short ns xp ts and doc :: doc
  assume ok: "item_child_ok (Elem n as short ns)" and a: "shows_token (Start n as) xp" "stream xp (tokss ns @ Finish n # ts)"
  obtain x1 where 1: "stream x1 ts" "while_inside (inside (list_paragraph_child db (style_text db (attributes xp)))
      (append_text (style_text db (attributes xp)))) 1 xp [] = (x1, plain_tree db (map_of as) ns [])"
    using plain_stream(2) [OF a, of db "[]"] by blast
  obtain x2 where 2: "stream x2 ts" "n = ''text:list'' \<Longrightarrow> parse_fodt_body db (indent + 1) xp doc = (x2, doc)"
    using skip_body [OF a(2), of db "indent + 1" doc] ok 1(1) by (auto simp: item_child_ok_def)
  show "\<exists>xp'. stream xp' ts \<and> item_child (parse_fodt_body db (indent + 1)) db indent xp doc
      = (xp', item_child_tree db indent (Elem n as short ns) doc)"
    using 1(1) 2(1) skip_element_stream [OF a(2)]
    by (simp add: 1(2) [unfolded One_nat_def] 2(2) Let_def item_child_def list_paragraph_def item_child_tree_def skipped_def
        shows_match [OF a(1)]) (simp add: shows_props [OF a(1)])
qed

lemma reads_list_child:
  "reads_element (list_child (parse_fodt_body db (indent + 1)) db indent) (\<lambda>x s. list_child_ok x) (list_child_tree db indent)"
proof (rule reads_elementI)
  fix n as short ns xp ts and doc :: doc
  assume ok: "list_child_ok (Elem n as short ns)" and a: "shows_token (Start n as) xp" "stream xp (tokss ns @ Finish n # ts)"
  obtain x1 where 1: "stream x1 ts" "n = ''text:list-item'' \<Longrightarrow>
      while_inside (inside (item_child (parse_fodt_body db (indent + 1)) db indent) no_text) 1 xp doc
        = (x1, fold (child_effect (item_child_tree db indent) no_text) ns doc)"
  proof (cases "n = ''text:list-item''")
    case True
    then have "steps_ok (\<lambda>x s. item_child_ok x) (item_child_tree db indent) no_text ns doc"
      using ok by (intro steps_ok_all) (auto simp: list_child_ok_def list_all_iff)
    from inside_element [OF item_child_goes [OF parse_fodt_body_goes] reads_item_child a(2) this] that show thesis by blast
  next
    case False
    then show thesis using that skip_element_stream [OF a(2)] by blast
  qed
  show "\<exists>xp'. stream xp' ts \<and> list_child (parse_fodt_body db (indent + 1)) db indent xp doc
      = (xp', list_child_tree db indent (Elem n as short ns) doc)"
    using 1(1) skip_element_stream [OF a(2)]
    by (simp add: 1(2) [unfolded One_nat_def] list_child_def list_child_tree_def skipped_def shows_match [OF a(1)])
qed

lemma list_stream:
  assumes "stream xp (tokss ns @ Finish n # ts)" and "list_all list_child_ok ns"
  shows "\<exists>xp'. stream xp' ts \<and> parse_list (parse_fodt_body db (indent + 1)) db indent xp doc
    = (xp', fold (child_effect (list_child_tree db indent) no_text) ns doc)"
  unfolding parse_list_def
  by (rule inside_element [OF child_goes(8) reads_list_child assms(1)])
    (use assms(2) in \<open>auto simp: list_all_iff intro: steps_ok_all\<close>)

text \<open>Frames.\<close>

lemma frame_unfold:
  "shows_token t (next_token xp) \<Longrightarrow> while_inside frame_step (Suc d) xp b =
     (case t of Start n as \<Rightarrow> (case frame_child (next_token xp) b of (y, b') \<Rightarrow> while_inside frame_step (Suc (Suc d)) y b')
      | Finish n \<Rightarrow> while_inside frame_step d (next_token xp) b
      | Content c \<Rightarrow> while_inside frame_step (Suc d) (next_token xp) b
      | Eof \<Rightarrow> (next_token xp, b))"
  by (subst while_inside_unfold) (auto simp: shows_token_def frame_step_def Let_def split: token.splits prod.splits)

lemma frame_child_image:
  "shows_token (Start n as) xp \<Longrightarrow> n \<noteq> ''draw:object'' \<Longrightarrow> frame_child xp b = (xp, image_tree n (map_of as) b)"
  by (simp add: frame_child_def image_tree_def shows_match shows_on_attr)

lemma frame_trees_read:
  "stream xp (toks x @ ts) \<Longrightarrow> no_object x \<Longrightarrow> \<exists>xp'. stream xp' ts \<and>
     while_inside frame_step (Suc d) xp b = while_inside frame_step (Suc d) xp' (frame_tree x b)"
  "stream xp (tokss xs @ ts) \<Longrightarrow> no_objects xs \<Longrightarrow> \<exists>xp'. stream xp' ts \<and>
     while_inside frame_step (Suc d) xp b = while_inside frame_step (Suc d) xp' (frame_trees xs b)"
proof (induction x and xs arbitrary: d xp b ts and d xp b ts rule: toks_tokss.induct)
  case (1 n as short ns)
  let ?b = "image_tree n (map_of as) b"
  from 1 have s: "shows_token (Start n as) (next_token xp)" "stream (next_token xp) (tokss ns @ Finish n # ts)"
    "n \<noteq> ''draw:object''" "no_objects ns" by simp_all
  from 1(1) [OF s(2,4)] obtain y where y: "stream y (Finish n # ts)"
      "while_inside frame_step (Suc (Suc d)) (next_token xp) ?b = while_inside frame_step (Suc (Suc d)) y (frame_trees ns ?b)"
    by blast
  have "while_inside frame_step (Suc d) xp b = while_inside frame_step (Suc d) (next_token y) (frame_trees ns ?b)"
    using frame_unfold [OF s(1), of d b] y frame_unfold [of "Finish n" y "Suc d"] frame_child_image [OF s(1,3)] by simp
  then show ?case using y(1) by auto
next
  case (2 t)
  then show ?case using frame_unfold [of "Content t" xp d b] by auto
next
  case (7 x xs)
  then have "stream xp (toks x @ (tokss xs @ ts))" "no_object x" "no_objects xs" by simp_all
  from 7(1) [OF this(1,2)] obtain y where y: "stream y (tokss xs @ ts)"
    "while_inside frame_step (Suc d) xp b = while_inside frame_step (Suc d) y (frame_tree x b)" by blast
  from 7(2) [OF y(1) \<open>no_objects xs\<close>] y(2) show ?case by auto
qed auto

lemma frame_stream:
  assumes "shows_token (Start n as) xp" and "stream xp (tokss ns @ Finish n # ts)" and "no_objects ns"
  shows "\<exists>xp'. stream xp' ts \<and> parse_frame xp doc = (xp', fst doc, snd doc @ [frame_trees ns (frame_new (map_of as))])"
proof -
  from frame_trees_read(2) [OF assms(2,3), of 0 "frame_new (map_of as)"] obtain y where y: "stream y (Finish n # ts)"
    "while_inside frame_step (Suc 0) xp (frame_new (map_of as)) = while_inside frame_step (Suc 0) y (frame_trees ns (frame_new (map_of as)))"
    by blast
  then show ?thesis
    using frame_unfold [of "Finish n" y 0] by (auto simp: parse_frame_def shows_props [OF assms(1)])
qed

text \<open>Bodies.\<close>

lemma body_child_stream:
  assumes a: "shows_token (Start n as) xp" "stream xp (tokss ns @ Finish n # ts)" and ok: "body_child_ok (Elem n as short ns)"
  shows "\<exists>xp'. stream xp' ts \<and> body_child (parse_fodt_body db (indent + 1)) db indent xp doc
    = (xp', body_child_tree db indent (Elem n as short ns) doc)"
proof -
  obtain x1 where 1: "stream x1 ts" "parse_paragraph db indent xp doc = (x1, paragraph_tree db indent (map_of as) ns doc)"
    using paragraph_stream [OF a] by blast
  obtain x2 where 2: "stream x2 ts" "parse_table db indent xp doc = (x2, table_tree db indent (map_of as) ns doc)"
    using table_stream [OF a] by blast
  obtain x3 where 3: "stream x3 ts" "n = ''text:list'' \<Longrightarrow> parse_list (parse_fodt_body db (indent + 1)) db indent xp doc
      = (x3, fold (child_effect (list_child_tree db indent) no_text) ns doc)"
    using list_stream [OF a(2), of db indent doc] ok 1(1) by (auto simp: body_child_ok_def)
  obtain x4 where 4: "stream x4 ts" "n = ''draw:frame'' \<Longrightarrow> parse_frame xp doc
      = (x4, fst doc, snd doc @ [frame_trees ns (frame_new (map_of as))])"
    using frame_stream [OF a, of doc] ok 1(1) by (auto simp: body_child_ok_def)
  show ?thesis
    using 1(1) 2(1) 3(1) 4(1) skip_element_stream [OF a(2)]
    by (simp add: 1(2) 2(2) 3(2) 4(2) body_child_def body_child_tree_def skipped_def shows_match [OF a(1)])
qed

lemma body_stream:
  "stream xp (tokss ns @ Finish n # ts) \<Longrightarrow> list_all body_child_ok ns \<Longrightarrow>
    \<exists>xp'. stream xp' ts \<and> parse_fodt_body db indent xp doc = (xp', fold (body_child_tree db indent) ns doc)"
proof (induction ns arbitrary: xp doc)
  case Nil
  then show ?case using body_unfold(2) [of n xp] by auto
next
  case (Cons x ns)
  show ?case
  proof (cases x)
    case (Elem m as short ms)
    with Cons.prems have s: "shows_token (Start m as) (next_token xp)" "body_child_ok (Elem m as short ms)"
      "stream (next_token xp) (tokss ms @ Finish m # tokss ns @ Finish n # ts)" by simp_all
    obtain y where y: "stream y (tokss ns @ Finish n # ts)"
      "body_child (parse_fodt_body db (indent + 1)) db indent (next_token xp) doc = (y, body_child_tree db indent x doc)"
      using body_child_stream [OF s(1,3,2), of db indent doc] Elem by blast
    then show ?thesis
      using Cons.IH [OF y(1)] Cons.prems(2) body_unfold(1) [OF s(1), of db indent doc] by simp
  qed (use Cons in \<open>auto simp: body_child_ok_def body_child_tree_def\<close>)
qed

end
