(* ===== verification/Cdsl_Doc_Read.thy ===== *)
theory Cdsl_Doc_Read
  imports Cdsl_Doc_Tree
begin

section \<open>What is read from a document\<close>

text \<open>
  Whole documents: styles, metadata, headers and bodies. The parser computes the recursion over the tree,
  keeps the text of every paragraph, and loses what follows a formula.
\<close>

subsection \<open>Styles, layouts and metadata as trees\<close>

definition style_child_tree :: "xml \<Rightarrow> Style \<Rightarrow> Style" where
  "style_child_tree x s = (case x of Elem n as short ns \<Rightarrow> style_child n (map_of as) s | _ \<Rightarrow> s)"

definition style_tree :: "xml_attributes \<Rightarrow> bool \<Rightarrow> xml list \<Rightarrow> Style" where
  "style_tree at is_default ns = fold style_child_tree ns (style_header at is_default)"

definition layout_child_tree :: "xml \<Rightarrow> PageInfo \<Rightarrow> PageInfo" where
  "layout_child_tree x page =
     (case x of
        Elem n as short ns \<Rightarrow> if n = ''style:page-layout-properties'' then page_layout_props (map_of as) page else page
      | _ \<Rightarrow> page)"

definition styles_child_tree :: "xml \<Rightarrow> Style list \<times> PageInfo \<Rightarrow> Style list \<times> PageInfo" where
  "styles_child_tree x s =
     (case x of
        Elem n as short ns \<Rightarrow>
          if n = ''style:style'' then (fst s @ [style_tree (map_of as) False ns], snd s)
          else if n = ''style:default-style'' then (fst s @ [style_tree (map_of as) True ns], snd s)
          else if n = ''style:page-layout'' then (fst s, fold layout_child_tree ns (snd s))
          else s
      | _ \<Rightarrow> s)"

text \<open>There is room for the style, and no text between the properties.\<close>

definition styles_child_ok :: "xml \<Rightarrow> Style list \<times> PageInfo \<Rightarrow> bool" where
  "styles_child_ok x s =
     (case x of
        Elem n as short ns \<Rightarrow>
          (n = ''style:style'' \<or> n = ''style:default-style'' \<longrightarrow> length (fst s) < 2048 \<and> list_all (\<lambda>y. \<not> is_chars y) ns)
          \<and> (n = ''style:page-layout'' \<longrightarrow> list_all (\<lambda>y. \<not> is_chars y) ns)
      | _ \<Rightarrow> True)"

text \<open>The text an element begins with.\<close>

fun first_text :: "xml list \<Rightarrow> string option" where
  "first_text [] = None"
| "first_text (x # xs) = (case x of Elem n as short ns \<Rightarrow> None | Chars t \<Rightarrow> Some t | _ \<Rightarrow> first_text xs)"

definition text_of :: "xml list \<Rightarrow> string" where
  "text_of ns = (case first_text ns of None \<Rightarrow> [] | Some t \<Rightarrow> decode_xml_entities t)"

definition meta_child_tree :: "xml \<Rightarrow> PageInfo \<Rightarrow> PageInfo" where
  "meta_child_tree x page =
     (case x of
        Elem n as short ns \<Rightarrow>
          if n = ''meta:document-statistic'' then document_statistic (map_of as) page
          else if n = ''dc:title'' then page\<lparr>pg_title := text_of ns\<rparr>
          else if n = ''dc:creator'' then page\<lparr>pg_creator := text_of ns\<rparr>
          else if n = ''meta:creation-date'' then page\<lparr>pg_created := text_of ns\<rparr>
          else if n = ''dc:date'' then page\<lparr>pg_modified := text_of ns\<rparr>
          else page
      | _ \<Rightarrow> page)"

text \<open>The entries that are read are not empty.\<close>

definition meta_child_ok :: "xml \<Rightarrow> bool" where
  "meta_child_ok x =
     (case x of
        Elem n as short ns \<Rightarrow>
          n \<in> {''dc:title'', ''dc:creator'', ''meta:creation-date'', ''dc:date''} \<longrightarrow> first_text ns \<noteq> None
      | _ \<Rightarrow> True)"

definition content_child_tree :: "Style list \<Rightarrow> xml \<Rightarrow> doc \<Rightarrow> doc" where
  "content_child_tree db x doc =
     (case x of
        Elem n as short ns \<Rightarrow> if n = ''office:text'' then fold (body_child_tree db 0) ns doc else doc
      | _ \<Rightarrow> doc)"

definition content_child_ok :: "xml \<Rightarrow> bool" where
  "content_child_ok x =
     (case x of Elem n as short ns \<Rightarrow> n = ''office:text'' \<longrightarrow> list_all body_child_ok ns | _ \<Rightarrow> True)"

definition margin_tree :: "Style list \<Rightarrow> BlockType \<Rightarrow> xml list \<Rightarrow> doc \<Rightarrow> doc" where
  "margin_tree db ty ns doc =
     (case fold (body_child_tree db 0) ns (fst doc, []) of (page, hb) \<Rightarrow> (page, snd doc @ map (retype ty) hb))"

definition master_page_child_tree :: "Style list \<Rightarrow> xml \<Rightarrow> doc \<Rightarrow> doc" where
  "master_page_child_tree db x doc =
     (case x of
        Elem n as short ns \<Rightarrow>
          if n = ''style:header'' then margin_tree db HEADER ns doc
          else if n = ''style:footer'' then margin_tree db FOOTER ns doc
          else doc
      | _ \<Rightarrow> doc)"

definition master_page_child_ok :: "xml \<Rightarrow> bool" where
  "master_page_child_ok x =
     (case x of
        Elem n as short ns \<Rightarrow> n = ''style:header'' \<or> n = ''style:footer'' \<longrightarrow> list_all body_child_ok ns
      | _ \<Rightarrow> True)"

definition master_child_tree :: "Style list \<Rightarrow> xml \<Rightarrow> doc \<Rightarrow> doc" where
  "master_child_tree db x doc =
     (case x of
        Elem n as short ns \<Rightarrow>
          if n = ''style:master-page'' then fold (child_effect (master_page_child_tree db) no_text) ns doc else doc
      | _ \<Rightarrow> doc)"

definition master_child_ok :: "xml \<Rightarrow> bool" where
  "master_child_ok x =
     (case x of Elem n as short ns \<Rightarrow> n = ''style:master-page'' \<longrightarrow> list_all master_page_child_ok ns | _ \<Rightarrow> True)"

definition document_child_tree :: "string \<Rightarrow> xml list \<Rightarrow> Style list \<times> doc \<Rightarrow> Style list \<times> doc" where
  "document_child_tree n ns s =
     (case s of (db, page, out) \<Rightarrow>
        if n = ''office:meta'' then (db, fold (child_effect meta_child_tree no_text) ns page, out)
        else if n = ''office:styles'' \<or> n = ''office:automatic-styles'' then
          (case fold (child_effect styles_child_tree no_text) ns (db, page) of (db', page') \<Rightarrow> (db', page', out))
        else if n = ''office:body'' then
          (let db' = resolve_all_styles db in (db', fold (child_effect (content_child_tree db') no_text) ns (page, out)))
        else if n = ''office:master-styles'' then
          (let db' = resolve_all_styles db in (db', fold (child_effect (master_child_tree db') no_text) ns (page, out)))
        else s)"

definition document_child_ok :: "string \<Rightarrow> xml list \<Rightarrow> Style list \<times> doc \<Rightarrow> bool" where
  "document_child_ok n ns s =
     ((n = ''office:meta'' \<longrightarrow> list_all meta_child_ok ns)
      \<and> (n = ''office:styles'' \<or> n = ''office:automatic-styles''
          \<longrightarrow> steps_ok styles_child_ok styles_child_tree no_text ns (fst s, fst (snd s)))
      \<and> (n = ''office:body'' \<longrightarrow> list_all content_child_ok ns)
      \<and> (n = ''office:master-styles'' \<longrightarrow> list_all master_child_ok ns))"

fun document_tree :: "xml \<Rightarrow> Style list \<times> doc \<Rightarrow> Style list \<times> doc"
  and document_trees :: "xml list \<Rightarrow> Style list \<times> doc \<Rightarrow> Style list \<times> doc" where
  "document_tree (Elem n as short ns) s =
     (if n = ''office:document'' then document_trees ns s else document_child_tree n ns s)"
| "document_tree (Chars t) s = s"
| "document_tree (Comment c) s = s"
| "document_tree (Declaration d) s = s"
| "document_tree (Space w) s = s"
| "document_trees [] s = s"
| "document_trees (x # xs) s = document_trees xs (document_tree x s)"

fun document_ok :: "xml \<Rightarrow> Style list \<times> doc \<Rightarrow> bool"
  and documents_ok :: "xml list \<Rightarrow> Style list \<times> doc \<Rightarrow> bool" where
  "document_ok (Elem n as short ns) s =
     (if n = ''office:document'' then documents_ok ns s else document_child_ok n ns s)"
| "document_ok (Chars t) s = True"
| "document_ok (Comment c) s = True"
| "document_ok (Declaration d) s = True"
| "document_ok (Space w) s = True"
| "documents_ok [] s = True"
| "documents_ok (x # xs) s = (document_ok x s \<and> documents_ok xs (document_tree x s))"

subsection \<open>Documents are read as trees\<close>

lemma style_children_unfold:
  "shows_token (Start n as) (next_token xp) \<Longrightarrow> style_children xp s
     = style_children (skip_element (next_token xp)) (style_child n (map_of as) s)"
  "shows_token (Finish m) (next_token xp) \<Longrightarrow> style_children xp s = (next_token xp, s)"
  by (subst style_children.simps, simp add: shows_style_child shows_type(1) Let_def) 
    (subst style_children.simps, simp add: shows_token_def Let_def)

lemma style_children_stream:
  "stream xp (tokss ns @ Finish n # ts) \<Longrightarrow> list_all (\<lambda>y. \<not> is_chars y) ns
    \<Longrightarrow> \<exists>xp'. stream xp' ts \<and> style_children xp s = (xp', fold style_child_tree ns s)"
proof (induction ns arbitrary: xp s)
  case Nil
  then show ?case using style_children_unfold(2) [of n xp s] by auto
next
  case (Cons x ns)
  show ?case
  proof (cases x)
    case (Elem m as short ms)
    with Cons.prems have s: "shows_token (Start m as) (next_token xp)"
      "stream (next_token xp) (tokss ms @ Finish m # tokss ns @ Finish n # ts)" by simp_all
    show ?thesis
      using Cons.IH [OF skip_element_stream [OF s(2)], of "style_child_tree x s"] Cons.prems(2)
        style_children_unfold(1) [OF s(1), of s] by (simp add: Elem style_child_tree_def)
  qed (use Cons in \<open>auto simp: is_chars_def style_child_tree_def\<close>)
qed

lemma page_layout_unfold:
  "shows_token (Start n as) (next_token xp) \<Longrightarrow> parse_page_layout xp page
     = parse_page_layout (skip_element (next_token xp))
         (if n = ''style:page-layout-properties'' then page_layout_props (map_of as) page else page)"
  "shows_token (Finish m) (next_token xp) \<Longrightarrow> parse_page_layout xp page = (next_token xp, page)"
  by (subst parse_page_layout.simps, simp add: shows_match shows_props(6) shows_type(1) Let_def)
    (subst parse_page_layout.simps, simp add: shows_token_def Let_def)

lemma page_layout_stream:
  "stream xp (tokss ns @ Finish n # ts) \<Longrightarrow> list_all (\<lambda>y. \<not> is_chars y) ns
    \<Longrightarrow> \<exists>xp'. stream xp' ts \<and> parse_page_layout xp page = (xp', fold layout_child_tree ns page)"
proof (induction ns arbitrary: xp page)
  case Nil
  then show ?case using page_layout_unfold(2) [of n xp page] by auto
next
  case (Cons x ns)
  show ?case
  proof (cases x)
    case (Elem m as short ms)
    with Cons.prems have s: "shows_token (Start m as) (next_token xp)"
      "stream (next_token xp) (tokss ms @ Finish m # tokss ns @ Finish n # ts)" by simp_all
    show ?thesis
      using Cons.IH [OF skip_element_stream [OF s(2)], of "layout_child_tree x page"] Cons.prems(2)
        page_layout_unfold(1) [OF s(1), of page] by (simp add: Elem layout_child_tree_def)
  qed (use Cons in \<open>auto simp: is_chars_def layout_child_tree_def\<close>)
qed

lemma style_children_forward [forward]: "style_children xp s = (xp', s') \<Longrightarrow> tokens_left xp' \<le> tokens_left xp"
proof (induction xp s arbitrary: xp' s' rule: style_children.induct)
  case (1 xp s)
  show ?case
  proof (cases "xp_type (next_token xp) = START_ELEMENT")
    case True
    with 1 have "tokens_left xp' \<le> tokens_left (skip_element (next_token xp))"
      by (subst (asm) (2) style_children.simps) (auto simp: Let_def)
    then show ?thesis using skip_element_forward [of "next_token xp"] next_token_le [of xp] by simp
  qed (use 1(2) next_token_le [of xp] in \<open>subst (asm) style_children.simps, auto simp: Let_def\<close>)
qed

lemma page_layout_forward [forward]: "parse_page_layout xp s = (xp', s') \<Longrightarrow> tokens_left xp' \<le> tokens_left xp"
proof (induction xp s arbitrary: xp' s' rule: parse_page_layout.induct)
  case (1 xp s)
  show ?case
  proof (cases "xp_type (next_token xp) = START_ELEMENT")
    case True
    with 1 have "tokens_left xp' \<le> tokens_left (skip_element (next_token xp))"
      by (subst (asm) (2) parse_page_layout.simps) (auto simp: Let_def)
    then show ?thesis using skip_element_forward [of "next_token xp"] next_token_le [of xp] by simp
  qed (use 1(2) next_token_le [of xp] in \<open>subst (asm) parse_page_layout.simps, auto simp: Let_def\<close>)
qed

lemma document_forward [forward]:
  "styles_child xp s = (xp', s') \<Longrightarrow> tokens_left xp' \<le> tokens_left xp"
  "meta_child xp page = (xp', page') \<Longrightarrow> tokens_left xp' \<le> tokens_left xp"
  "content_child db xp doc = (xp', doc') \<Longrightarrow> tokens_left xp' \<le> tokens_left xp"
  "master_page_child db xp doc = (xp', doc') \<Longrightarrow> tokens_left xp' \<le> tokens_left xp"
  "master_child db xp doc = (xp', doc') \<Longrightarrow> tokens_left xp' \<le> tokens_left xp"
  using skip_element_forward [of xp] skip_element_forward [of "next_token xp"] next_token_le [of xp]
  by (auto simp: styles_child_def parse_style_elem_def meta_child_def on_text_def skipped_def content_child_def
      master_page_child_def master_child_def margin_blocks_def Let_def
      dest: forward goesD [OF parse_fodt_body_goes] split: prod.splits if_splits)

lemma document_goes [simp]:
  "goes styles_child" "goes meta_child" "goes (content_child db)" "goes (master_page_child db)" "goes (master_child db)"
  by (intro goesI; blast dest: forward)+

lemma first_text_tokens: "first_text ns = Some t \<Longrightarrow> \<exists>ms. tokss ns = Content t # tokss ms"
proof (induction ns)
  case (Cons x ns)
  then show ?case by (cases x) (auto intro: exI [of _ ns])
qed simp

lemma on_text_stream:
  assumes "stream xp (tokss ns @ Finish n # ts)" and "first_text ns = Some t"
  shows "\<exists>ms y. stream y (tokss ms @ Finish n # ts) \<and> on_text xp f page = (y, f (decode_xml_entities t) page)"
proof -
  from first_text_tokens [OF assms(2)] obtain ms where ms: "tokss ns = Content t # tokss ms" by blast
  with assms(1) have "stream (next_token xp) (tokss ms @ Finish n # ts)" "shows_token (Content t) (next_token xp)" by simp_all
  then show ?thesis by (auto simp: on_text_def shows_type(3) Let_def)
qed

lemma reads_meta_child: "reads_element meta_child (\<lambda>x s. meta_child_ok x) meta_child_tree"
proof (rule reads_elementI)
  fix n as short ns xp ts and page :: PageInfo
  assume ok: "meta_child_ok (Elem n as short ns)" and a: "shows_token (Start n as) xp" "stream xp (tokss ns @ Finish n # ts)"
  let ?E = "{''dc:title'', ''dc:creator'', ''meta:creation-date'', ''dc:date''}"
  have skip: "\<exists>xp'. stream xp' ts \<and> skipped y q = (xp', q)" if "stream y (tokss ms @ Finish n # ts)" for y ms and q :: PageInfo
    by (rule skipped_stream [OF that])
  have entry: "\<exists>xp'. stream xp' ts \<and> (case on_text xp f page of (y, q) \<Rightarrow> skipped y q) = (xp', f (text_of ns) page)"
    if "n \<in> {''dc:title'', ''dc:creator'', ''meta:creation-date'', ''dc:date''}" for f
  proof -
    from ok that obtain t where t: "first_text ns = Some t"
      unfolding meta_child_ok_def xml.case by blast
    from on_text_stream [OF a(2) t, of f page] obtain ms y where y: "stream y (tokss ms @ Finish n # ts)"
      "on_text xp f page = (y, f (decode_xml_entities t) page)" by blast
    from skip [OF y(1), of "f (decode_xml_entities t) page"] y(2) t show ?thesis by (simp add: text_of_def)
  qed
  consider (1) "n \<in> ?E" | (2) "n \<notin> ?E" by blast
  then show "\<exists>xp'. stream xp' ts \<and> meta_child xp page = (xp', meta_child_tree (Elem n as short ns) page)"
  proof cases
    case 1
    show ?thesis
      using 1 entry [OF 1, of "\<lambda>t p. p\<lparr>pg_title := t\<rparr>"] entry [OF 1, of "\<lambda>t p. p\<lparr>pg_creator := t\<rparr>"]
        entry [OF 1, of "\<lambda>t p. p\<lparr>pg_created := t\<rparr>"] entry [OF 1, of "\<lambda>t p. p\<lparr>pg_modified := t\<rparr>"]
      by (elim insertE) (simp_all only: meta_child_def meta_child_tree_def shows_match [OF a(1)] xml.case, auto)
  next
    case 2
    then show ?thesis
      using skip [OF a(2), of page] skip [OF a(2), of "document_statistic (map_of as) page"]
      by (cases "n = ''meta:document-statistic''")
        (simp_all add: meta_child_def meta_child_tree_def shows_match [OF a(1)] shows_props [OF a(1)])
  qed
qed

lemma reads_styles_child: "reads_element styles_child styles_child_ok styles_child_tree"
proof (rule reads_elementI)
  fix n as short ns xp ts and s :: "Style list \<times> PageInfo"
  assume ok: "styles_child_ok (Elem n as short ns) s"
    and a: "shows_token (Start n as) xp" "stream xp (tokss ns @ Finish n # ts)"
  obtain db page where s: "s = (db, page)" by (cases s)
  have style: "\<exists>y. stream y ts \<and> parse_style_elem xp d db = (y, db @ [style_tree (map_of as) d ns])"
    if "n = ''style:style'' \<or> n = ''style:default-style''" for d
    using that ok style_children_stream [OF a(2), of "style_header (map_of as) d"]
    by (auto simp: styles_child_ok_def s parse_style_elem_def style_tree_def shows_props [OF a(1)])
  have layout: "\<exists>y. stream y ts \<and> parse_page_layout xp page = (y, fold layout_child_tree ns page)" if "n = ''style:page-layout''"
    using that ok page_layout_stream [OF a(2), of page] by (auto simp: styles_child_ok_def)
  consider "n = ''style:style''" | "n = ''style:default-style''" | "n = ''style:page-layout''"
    | "n \<noteq> ''style:style''" "n \<noteq> ''style:default-style''" "n \<noteq> ''style:page-layout''" by blast
  then show "\<exists>xp'. stream xp' ts \<and> styles_child xp s = (xp', styles_child_tree (Elem n as short ns) s)"
  proof cases
    case 1
    then show ?thesis using style [of False] by (auto simp: s styles_child_def styles_child_tree_def shows_match [OF a(1)])
  next
    case 2
    then show ?thesis using style [of True] by (auto simp: s styles_child_def styles_child_tree_def shows_match [OF a(1)])
  next
    case 3
    then show ?thesis using layout by (auto simp: s styles_child_def styles_child_tree_def shows_match [OF a(1)])
  next
    case 4
    then show ?thesis
      using skip_element_stream [OF a(2)]
      by (simp add: s styles_child_def styles_child_tree_def skipped_def shows_match [OF a(1)])
  qed
qed

lemma reads_content_child: "reads_element (content_child db) (\<lambda>x s. content_child_ok x) (content_child_tree db)"
proof (rule reads_elementI)
  fix n as short ns xp ts and doc :: doc
  assume ok: "content_child_ok (Elem n as short ns)" and a: "shows_token (Start n as) xp" "stream xp (tokss ns @ Finish n # ts)"
  show "\<exists>xp'. stream xp' ts \<and> content_child db xp doc = (xp', content_child_tree db (Elem n as short ns) doc)"
  proof (cases "n = ''office:text''")
    case True
    then show ?thesis
      using ok body_stream [OF a(2), of db 0 doc]
      by (simp add: content_child_ok_def content_child_def content_child_tree_def shows_match [OF a(1)])
  next
    case False
    then show ?thesis
      using skip_element_stream [OF a(2)]
      by (simp add: content_child_def content_child_tree_def skipped_def shows_match [OF a(1)])
  qed
qed

lemma reads_master_page_child:
  "reads_element (master_page_child db) (\<lambda>x s. master_page_child_ok x) (master_page_child_tree db)"
proof (rule reads_elementI)
  fix n as short ns xp ts and doc :: doc
  assume ok: "master_page_child_ok (Elem n as short ns)"
    and a: "shows_token (Start n as) xp" "stream xp (tokss ns @ Finish n # ts)"
  have margin: "\<exists>y. stream y ts \<and> margin_blocks db ty xp doc = (y, margin_tree db ty ns doc)"
    if "n = ''style:header'' \<or> n = ''style:footer''" for ty
    using that ok body_stream [OF a(2), of db 0 "(fst doc, [])"]
    by (auto simp: master_page_child_ok_def margin_blocks_def margin_tree_def split: prod.splits)
  consider "n = ''style:header''" | "n = ''style:footer''" | "n \<noteq> ''style:header''" "n \<noteq> ''style:footer''" by blast
  then show "\<exists>xp'. stream xp' ts \<and> master_page_child db xp doc = (xp', master_page_child_tree db (Elem n as short ns) doc)"
  proof cases
    case 1
    then show ?thesis
      using margin [of HEADER] by (simp add: master_page_child_def master_page_child_tree_def shows_match [OF a(1)])
  next
    case 2
    then show ?thesis
      using margin [of FOOTER] by (simp add: master_page_child_def master_page_child_tree_def shows_match [OF a(1)])
  next
    case 3
    then show ?thesis
      using skip_element_stream [OF a(2)]
      by (simp add: master_page_child_def master_page_child_tree_def skipped_def shows_match [OF a(1)])
  qed
qed

lemma reads_master_child: "reads_element (master_child db) (\<lambda>x s. master_child_ok x) (master_child_tree db)"
proof (rule reads_elementI)
  fix n as short ns xp ts and doc :: doc
  assume ok: "master_child_ok (Elem n as short ns)" and a: "shows_token (Start n as) xp" "stream xp (tokss ns @ Finish n # ts)"
  show "\<exists>xp'. stream xp' ts \<and> master_child db xp doc = (xp', master_child_tree db (Elem n as short ns) doc)"
  proof (cases "n = ''style:master-page''")
    case True
    have "steps_ok (\<lambda>x s. master_page_child_ok x) (master_page_child_tree db) no_text ns doc"
      using True ok by (intro steps_ok_all) (auto simp: master_child_ok_def list_all_iff)
    from inside_element [OF document_goes(4) reads_master_page_child a(2) this] True show ?thesis
      by (simp add: master_child_def master_child_tree_def shows_match [OF a(1)])
  next
    case False
    then show ?thesis
      using skip_element_stream [OF a(2)]
      by (simp add: master_child_def master_child_tree_def skipped_def shows_match [OF a(1)])
  qed
qed

lemma document_child_stream:
  assumes a: "shows_token (Start n as) xp" "stream xp (tokss ns @ Finish n # ts)" and n: "n \<noteq> ''office:document''"
    and ok: "document_child_ok n ns s"
  shows "\<exists>xp'. stream xp' ts \<and> document_child xp s = (xp', document_child_tree n ns s)"
proof -
  obtain db page out where s: "s = (db, page, out)" by (cases s) auto
  let ?db = "resolve_all_styles db"
  consider "n = ''office:meta''" | "n = ''office:styles'' \<or> n = ''office:automatic-styles''" | "n = ''office:body''"
    | "n = ''office:master-styles''"
    | "n \<noteq> ''office:meta''" "n \<noteq> ''office:styles''" "n \<noteq> ''office:automatic-styles''" "n \<noteq> ''office:body''"
      "n \<noteq> ''office:master-styles''" by blast
  then show ?thesis
  proof cases
    case 1
    have "steps_ok (\<lambda>x s. meta_child_ok x) meta_child_tree no_text ns page"
      using 1 ok by (intro steps_ok_all) (auto simp: document_child_ok_def list_all_iff)
    from inside_element [OF document_goes(2) reads_meta_child a(2) this] 1 show ?thesis
      by (auto simp: s document_child_def document_child_tree_def shows_match [OF a(1)])
  next
    case 2
    have "steps_ok styles_child_ok styles_child_tree no_text ns (db, page)"
      using 2 ok by (auto simp: document_child_ok_def s)
    from inside_element [OF document_goes(1) reads_styles_child a(2) this] obtain y where y: "stream y ts"
      "while_inside (inside styles_child no_text) 1 xp (db, page)
        = (y, fold (child_effect styles_child_tree no_text) ns (db, page))" by blast
    obtain db' page' where f: "fold (child_effect styles_child_tree no_text) ns (db, page) = (db', page')" by fastforce
    have "document_child xp s = (y, document_child_tree n ns s)"
      using 2 y(2) f by (elim disjE) (simp_all add: s document_child_def document_child_tree_def shows_match [OF a(1)])
    then show ?thesis using y(1) by blast
  next
    case 3
    have "steps_ok (\<lambda>x s. content_child_ok x) (content_child_tree ?db) no_text ns (page, out)"
      using 3 ok by (intro steps_ok_all) (auto simp: document_child_ok_def list_all_iff)
    from inside_element [OF document_goes(3) reads_content_child a(2) this] 3 show ?thesis
      by (auto simp: s document_child_def document_child_tree_def shows_match [OF a(1)] Let_def)
  next
    case 4
    have "steps_ok (\<lambda>x s. master_child_ok x) (master_child_tree ?db) no_text ns (page, out)"
      using 4 ok by (intro steps_ok_all) (auto simp: document_child_ok_def list_all_iff)
    from inside_element [OF document_goes(5) reads_master_child a(2) this] 4 show ?thesis
      by (auto simp: s document_child_def document_child_tree_def shows_match [OF a(1)] Let_def)
  next
    case 5
    then show ?thesis
      using skip_element_stream [OF a(2)] n
      by (auto simp: s document_child_def document_child_tree_def skipped_def shows_match [OF a(1)])
  qed
qed

lemma document_child_goes: "document_child xp s = (xp', s') \<Longrightarrow> tokens_left xp' \<le> tokens_left xp"
  by (cases s) (auto simp: document_child_def Let_def dest: forward split: prod.splits if_splits)

lemma document_step_forward [simp]: "forward_step document_step"
  by (auto simp: forward_step_def document_step_def dest: document_child_goes split: prod.split)

lemma document_unfold:
  "shows_token t (next_token xp) \<Longrightarrow> while_inside document_step (Suc d) xp s =
     (case t of Start n as \<Rightarrow> (case document_child (next_token xp) s of (y, s') \<Rightarrow> while_inside document_step (Suc d) y s')
      | Finish n \<Rightarrow> while_inside document_step (Suc d) (next_token xp) s
      | Content c \<Rightarrow> while_inside document_step (Suc d) (next_token xp) s
      | Eof \<Rightarrow> (next_token xp, s))"
  by (subst while_inside_unfold) (auto simp: shows_token_def document_step_def Let_def split: token.splits prod.splits)

lemma document_trees_read:
  "stream xp (toks x @ ts) \<Longrightarrow> document_ok x s \<Longrightarrow> \<exists>xp'. stream xp' ts \<and>
     while_inside document_step (Suc d) xp s = while_inside document_step (Suc d) xp' (document_tree x s)"
  "stream xp (tokss xs @ ts) \<Longrightarrow> documents_ok xs s \<Longrightarrow> \<exists>xp'. stream xp' ts \<and>
     while_inside document_step (Suc d) xp s = while_inside document_step (Suc d) xp' (document_trees xs s)"
proof (induction x s and xs s arbitrary: xp ts and xp ts rule: document_tree_document_trees.induct)
  case (1 n as short ns s)
  then have s: "shows_token (Start n as) (next_token xp)" "stream (next_token xp) (tokss ns @ Finish n # ts)" by simp_all
  show ?case
  proof (cases "n = ''office:document''")
    case True
    have "documents_ok ns s" using 1(3) True by simp
    from 1(1) [OF True s(2) this] obtain y where y: "stream y (Finish n # ts)"
      "while_inside document_step (Suc d) (next_token xp) s = while_inside document_step (Suc d) y (document_trees ns s)" by blast
    have c: "document_child (next_token xp) s = (next_token xp, s)"
      using True by (cases s) (simp add: document_child_def shows_match [OF s(1)])
    have "while_inside document_step (Suc d) xp s = while_inside document_step (Suc d) (next_token y) (document_trees ns s)"
      using document_unfold [OF s(1), of d s] y(2) c document_unfold [of "Finish n" y d] y(1) by simp
    then show ?thesis using y(1) True by auto
  next
    case False
    obtain y where "stream y ts" "document_child (next_token xp) s = (y, document_child_tree n ns s)"
      using document_child_stream [OF s False, of s] 1(3) False by auto
    then show ?thesis using document_unfold [OF s(1), of d s] False by auto
  qed
next
  case (2 t s)
  then show ?case using document_unfold [of "Content t" xp d s] by auto
next
  case (7 x xs s)
  then have "stream xp (toks x @ (tokss xs @ ts))" "document_ok x s" "documents_ok xs (document_tree x s)" by simp_all
  from 7(1) [OF this(1,2)] obtain y where y: "stream y (tokss xs @ ts)"
    "while_inside document_step (Suc d) xp s = while_inside document_step (Suc d) y (document_tree x s)" by blast
  from 7(2) [OF y(1) \<open>documents_ok xs (document_tree x s)\<close>] y(2) show ?case by auto
qed auto

lemma document_tree_read:
  assumes "xmls_ok xs" and "documents_ok xs ([], page_info_new, [])"
  shows "parse_fodt_document (renders xs) = snd (document_trees xs ([], page_info_new, []))"
proof -
  from document_trees_read(2) [OF document_stream [OF assms(1)] assms(2), of 0] obtain y where y: "stream y [Eof]"
    "while_inside document_step (Suc 0) (XmlParser (renders xs)) ([], page_info_new, [])
      = while_inside document_step (Suc 0) y (document_trees xs ([], page_info_new, []))" by blast
  then show ?thesis using document_unfold [of Eof y 0] by (simp add: parse_fodt_document_def)
qed

subsection \<open>Documents\<close>

text \<open>
  Claim C14. The loops over tokens, with their depths, read a document as the recursion over its tree does: for
  every document in which no text stands between blocks or properties, no entry of the metadata is
  empty, no formula occurs and the styles fit their table, the parser finds the page and the blocks of
  the tree.
\<close>

theorem document_read_as_tree:
  assumes "xmls_ok xs" and "documents_ok xs ([], page_info_new, [])"
  shows "parse_fodt_document (renders xs) = snd (document_trees xs ([], page_info_new, []))"
  using assms by (rule document_tree_read)

definition sample_body :: "xml list" where
  "sample_body =
     [Elem ''text:p'' [(''text:style-name'', ''P1'')] False
        [Chars ''Dear '', Elem ''text:span'' [(''text:style-name'', ''T1'')] False [Chars ''R&amp;D'']],
      Space [CHR 0x0A],
      Elem ''text:list'' [] False [Elem ''text:list-item'' [] False [Elem ''text:p'' [] False [Chars ''item'']]]]"

definition sample_document :: "xml list" where
  "sample_document =
     [Declaration ''?xml version=1 ?'',
      Elem ''office:document'' [] False
        [Elem ''office:meta'' [] False [Elem ''dc:title'' [] False [Chars ''Letter'']],
         Elem ''office:styles'' [] False
           [Elem ''style:style'' [(''style:name'', ''T1''), (''style:family'', ''text'')] False
              [Elem ''style:text-properties'' [(''fo:font-weight'', ''bold'')] True []]],
         Elem ''office:body'' [] False [Elem ''office:text'' [] False sample_body]]]"

lemma sample_document_ok: "xmls_ok sample_document" "documents_ok sample_document ([], page_info_new, [])"
  by (simp_all add: sample_document_def sample_body_def name_ok_def value_ok_def name_char_def attr_char_def xml_space_def
      c_isspace_def char_code_def is_chars_def is_markup_def documents_ok.simps document_child_ok_def meta_child_ok_def
      content_child_ok_def body_child_ok_def list_child_ok_def item_child_ok_def styles_child_ok_def child_effect_def is_elem_def document_child_tree_def)

lemma document_read_as_tree_witness:
  "pg_title (fst (parse_fodt_document (renders sample_document))) = ''Letter''
   \<and> map (\<lambda>b. map (\<lambda>t. (tb_text t, tp_bold (tb_props t))) (cb_text_blocks b)) (snd (parse_fodt_document (renders sample_document)))
     = [[(''Dear '', False), (''R&D'', True)], [(''item'', False)]]"
proof -
  have s: "resolve_all_styles [style_new\<lparr>st_name := ''T1'', st_family := ''text'', st_text := st_text style_new\<lparr>tp_bold := True\<rparr>\<rparr>]
      = [style_new\<lparr>st_name := ''T1'', st_family := ''text'', st_text := st_text style_new\<lparr>tp_bold := True\<rparr>, st_resolved := True\<rparr>]"
    by (simp add: resolve_all_styles_def resolve_from_def resolve_step_def parent_index_def find_default_style_def find_style_def
        style_new_def merge_style_def merge_text_props_def merge_para_props_def merge_table_props_def merge_cell_props_def
        or_str_def or_num_def or_bool_def or_border_def text_props_new_def Let_def)
  show ?thesis
    unfolding document_read_as_tree [OF sample_document_ok]
    by (simp add: sample_document_def sample_body_def document_child_tree_def child_effect_def meta_child_tree_def text_of_def
        styles_child_tree_def style_tree_def style_header_def on_attr_def style_child_tree_def style_child_def
        parse_text_props_elem_def on_attr2_def text_color_def s content_child_tree_def body_child_tree_def
        paragraph_tree_def list_child_tree_def item_child_tree_def plain_tree_def Let_def)
      (simp add: paragraph_text_def append_text_def text_block_def paragraph_child_tree_def span_tree_def push_text_def
        style_text_def resolve_style_def find_style_def style_new_def text_props_new_def merge_text_props_def or_bool_def
        styled_paragraph_def outline_level_def page_info_new_def block_new_def)
qed

subsection \<open>No text is lost\<close>

definition blocks_text :: "TextBlock list \<Rightarrow> string" where
  "blocks_text tbs = concat (map tb_text tbs)"

text \<open>The text of a paragraph: its own, and that of the elements that are read.\<close>

definition visible :: "string list \<Rightarrow> xml \<Rightarrow> string" where
  "visible names x =
     (case x of
        Elem n as short ns \<Rightarrow> if n \<in> set names then concat (textss ns) else []
      | Chars t \<Rightarrow> decode_xml_entities t | _ \<Rightarrow> [])"

definition visible_text :: "string list \<Rightarrow> xml list \<Rightarrow> string" where
  "visible_text names ns = concat (map (visible names) ns)"

definition paragraph_names :: "string list" where
  "paragraph_names = [''text:span'', ''text:page-number'', ''text:a'']"

definition plain_names :: "string list" where
  "plain_names = [''text:span'', ''text:page-number'']"

definition item_texts :: "xml \<Rightarrow> string list" where
  "item_texts x =
     (case x of
        Elem n as short ns \<Rightarrow> if n = ''text:p'' \<or> n = ''text:h'' then [visible_text plain_names ns] else []
      | _ \<Rightarrow> [])"

definition list_texts :: "xml \<Rightarrow> string list" where
  "list_texts x =
     (case x of Elem n as short ns \<Rightarrow> if n = ''text:list-item'' then concat (map item_texts ns) else [] | _ \<Rightarrow> [])"

definition paragraph_texts :: "xml \<Rightarrow> string list" where
  "paragraph_texts x =
     (case x of
        Elem n as short ns \<Rightarrow>
          if n = ''text:p'' \<or> n = ''text:h'' then [visible_text paragraph_names ns]
          else if n = ''text:list'' then concat (map list_texts ns)
          else []
      | _ \<Rightarrow> [])"

lemma blocks_text_simps [simp]:
  "blocks_text [] = []"
  "blocks_text (append_text def t tbs) = blocks_text tbs @ t"
  "blocks_text (push_text def t tbs) = blocks_text tbs @ t"
  "blocks_text (fold (link_text def u) us tbs) = blocks_text tbs @ concat us"
proof -
  show "blocks_text (append_text def t tbs) = blocks_text tbs @ t"
  proof (cases tbs rule: rev_cases)
    case (snoc ys y)
    then show ?thesis by (simp add: blocks_text_def append_text_def Let_def)
  qed (simp add: blocks_text_def append_text_def text_block_def Let_def)
  show "blocks_text (fold (link_text def u) us tbs) = blocks_text tbs @ concat us"
    by (induction us arbitrary: tbs) (simp_all add: blocks_text_def link_text_def text_block_def)
qed (simp_all add: blocks_text_def push_text_def text_block_def)

lemma plain_fold_text:
  "blocks_text (fold (child_effect (plain_child_tree db def) (append_text def)) ns tbs)
     = blocks_text tbs @ visible_text plain_names ns"
proof (induction ns arbitrary: tbs)
  case (Cons x ns)
  then show ?case
    by (cases x) (auto simp: child_effect_def plain_child_tree_def span_tree_def visible_text_def visible_def plain_names_def)
qed (simp add: visible_text_def)

definition paragraphs :: "ContentBlock list \<Rightarrow> string list" where
  "paragraphs out = map (\<lambda>b. blocks_text (cb_text_blocks b)) (filter (\<lambda>b. cb_type b = PARAGRAPH) out)"

lemma paragraphs_append [simp]: "paragraphs (xs @ ys) = paragraphs xs @ paragraphs ys" "paragraphs [] = []"
  by (simp_all add: paragraphs_def)

lemma paragraph_fold_text:
  "fold (child_effect (paragraph_child_tree db def) (paragraph_text def)) ns (tbs, page, out) = (tbs', page', out')
    \<Longrightarrow> blocks_text tbs' = blocks_text tbs @ visible_text paragraph_names ns \<and> paragraphs out' = paragraphs out"
proof (induction ns arbitrary: tbs page out)
  case (Cons x ns)
  obtain tbs1 page1 out1 where 1: "child_effect (paragraph_child_tree db def) (paragraph_text def) x (tbs, page, out) = (tbs1, page1, out1)"
    by (rule prod_cases3)
  have "blocks_text tbs1 = blocks_text tbs @ visible paragraph_names x \<and> paragraphs out1 = paragraphs out"
    using 1 by (cases x) (auto simp: child_effect_def paragraph_child_tree_def paragraph_text_def span_tree_def visible_def
        paragraph_names_def note_tree_def block_new_def paragraphs_def split: if_splits)
  then show ?case using Cons.IH [of tbs1 page1 out1] Cons.prems 1 by (simp add: visible_text_def)
qed (simp add: visible_text_def)

lemma styled_type: "cb_type (styled_paragraph db i at) = PARAGRAPH" "cb_type (outline_level at b) = cb_type b"
  by (simp_all add: styled_paragraph_def outline_level_def block_new_def Let_def split: option.split)

lemma paragraph_tree_text:
  "paragraphs (snd (paragraph_tree db i at ns doc)) = paragraphs (snd doc) @ [visible_text paragraph_names ns]"
proof -
  obtain page out where d: "doc = (page, out)" by (cases doc)
  obtain tbs' page' out' where f: "fold (child_effect (paragraph_child_tree db (style_text db at)) (paragraph_text (style_text db at))) ns
      ([], page, out) = (tbs', page', out')" by (rule prod_cases3)
  from paragraph_fold_text [OF f] show ?thesis
    by (simp add: d paragraph_tree_def f paragraphs_def styled_type Let_def)
qed

lemma fold_paragraphs:
  assumes "\<And>x doc. paragraphs (snd (h x doc)) = paragraphs (snd doc) @ g x"
  shows "paragraphs (snd (fold h xs doc)) = paragraphs (snd doc) @ concat (map g xs)"
  by (induction xs arbitrary: doc) (simp_all add: assms)

lemma item_child_text: "paragraphs (snd (child_effect (item_child_tree db i) no_text x doc)) = paragraphs (snd doc) @ item_texts x"
  by (cases x) (simp_all add: child_effect_def item_child_tree_def item_texts_def paragraphs_def styled_type plain_tree_def
      plain_fold_text no_text_def Let_def)

lemma list_child_text: "paragraphs (snd (child_effect (list_child_tree db i) no_text x doc)) = paragraphs (snd doc) @ list_texts x"
  by (cases x) (simp_all add: child_effect_def list_child_tree_def list_texts_def no_text_def
      fold_paragraphs [of "child_effect (item_child_tree db i) no_text", OF item_child_text])

lemma table_type: "cb_type (fold (child_effect (table_child_tree db) no_text) ns b) = cb_type b"
proof (induction ns arbitrary: b)
  case (Cons x ns)
  have "cb_type (child_effect (table_child_tree db) no_text x b) = cb_type b"
    by (cases x) (auto simp: child_effect_def table_child_tree_def no_text_def on_attr_def column_width_def split: option.split list.split)
  with Cons show ?case by simp
qed simp

lemma frame_type: "cb_type (frame_tree x b) = cb_type b" "cb_type (frame_trees xs b) = cb_type b"
  by (induction x b and xs b rule: frame_tree_frame_trees.induct) (simp_all add: image_tree_def on_attr_def split: option.split)

lemma body_child_text: "paragraphs (snd (body_child_tree db i x doc)) = paragraphs (snd doc) @ paragraph_texts x"
proof (cases x)
  case (Elem n as short ns)
  have t: "cb_type (table_new db i (map_of as)) = TABLE" "cb_type (frame_new (map_of as)) = IMAGE"
    by (simp_all add: table_new_def frame_new_def on_attr_def block_new_def split: option.split)
  show ?thesis
    by (simp add: Elem body_child_tree_def paragraph_texts_def paragraph_tree_text table_tree_def
        fold_paragraphs [of "child_effect (list_child_tree db i) no_text", OF list_child_text])
      (simp add: paragraphs_def table_type frame_type t)
qed (simp_all add: body_child_tree_def paragraph_texts_def)

definition plain_document :: "xml list \<Rightarrow> xml list" where
  "plain_document xs =
     [Elem ''office:document'' [] False [Elem ''office:body'' [] False [Elem ''office:text'' [] False xs]]]"

lemma plain_document_ok:
  "xmls_ok xs \<Longrightarrow> xmls_ok (plain_document xs)"
  by (simp add: plain_document_def name_ok_letters char_code_def is_chars_def)



subsection \<open>A formula takes the rest\<close>

lemma object_unfold:
  "shows_token t (next_token xp) \<Longrightarrow> while_inside object_step (Suc d) xp m =
     (case t of
        Start n as \<Rightarrow>
          if n = ''math:math'' then while_inside object_step (Suc d) (skip_element (next_token xp)) (m @ ''<math>...</math>'')
          else while_inside object_step (Suc (Suc d)) (next_token xp) m
      | Finish n \<Rightarrow> while_inside object_step d (next_token xp) m
      | Content c \<Rightarrow> while_inside object_step (Suc d) (next_token xp) m
      | Eof \<Rightarrow> (next_token xp, m))"
  by (subst while_inside_unfold)
    (auto simp: shows_token_def object_step_def xml_match_def Let_def split: token.splits)

lemma object_trees:
  "stream xp (toks x @ ts) \<Longrightarrow> \<exists>xp' m'. stream xp' ts \<and>
     while_inside object_step (Suc d) xp m = while_inside object_step (Suc d) xp' m'"
  "stream xp (tokss xs @ ts) \<Longrightarrow> \<exists>xp' m'. stream xp' ts \<and>
     while_inside object_step (Suc d) xp m = while_inside object_step (Suc d) xp' m'"
proof (induction x and xs arbitrary: d xp m ts and d xp m ts rule: toks_tokss.induct)
  case (1 n as short ns)
  then have s: "shows_token (Start n as) (next_token xp)" "stream (next_token xp) (tokss ns @ Finish n # ts)" by simp_all
  show ?case
  proof (cases "n = ''math:math''")
    case True
    then show ?thesis using object_unfold [OF s(1), of d m] skip_element_stream [OF s(2)] by auto
  next
    case False
    from 1(1) [OF s(2), of "Suc d" m] obtain y m' where y: "stream y (Finish n # ts)"
      "while_inside object_step (Suc (Suc d)) (next_token xp) m = while_inside object_step (Suc (Suc d)) y m'" by blast
    have "while_inside object_step (Suc d) xp m = while_inside object_step (Suc d) (next_token y) m'"
      using object_unfold [OF s(1), of d m] False y object_unfold [of "Finish n" y "Suc d" m'] by simp
    then show ?thesis using y(1) by auto
  qed
next
  case (2 t)
  then show ?case using object_unfold [of "Content t" xp d m] by auto
next
  case (7 x xs)
  then have "stream xp (toks x @ (tokss xs @ ts))" by simp
  from 7(1) [OF this] obtain y m' where y: "stream y (tokss xs @ ts)"
    "while_inside object_step (Suc d) xp m = while_inside object_step (Suc d) y m'" by blast
  from 7(2) [OF y(1), of d m'] y(2) show ?case by auto
qed auto

text \<open>The object ends its own count and the frame's: the frame goes on to the end of what surrounds it.\<close>

lemma formula_frame:
  assumes "shows_token (Start ''draw:frame'' as) xp"
    and "stream xp (toks (Elem ''draw:object'' os s ms) @ Finish ''draw:frame'' # tokss rest @ Finish n # ts)"
    and "no_objects rest"
  shows "\<exists>y b. stream y ts \<and> cb_type b = FORMULA \<and> parse_frame xp doc = (y, fst doc, snd doc @ [b])"
proof -
  let ?b = "frame_new (attributes xp)" and ?o = "next_token xp"
  have o: "shows_token (Start ''draw:object'' os) ?o"
    "stream ?o (tokss ms @ Finish ''draw:object'' # Finish ''draw:frame'' # tokss rest @ Finish n # ts)"
    using assms(2) by simp_all
  from object_trees(2) [OF o(2), of 0 "cb_formula_mathml ?b"] obtain y m where y:
      "stream y (Finish ''draw:object'' # Finish ''draw:frame'' # tokss rest @ Finish n # ts)"
      "while_inside object_step (Suc 0) ?o (cb_formula_mathml ?b) = while_inside object_step (Suc 0) y m" by blast
  let ?b1 = "?b\<lparr>cb_type := FORMULA, cb_formula_mathml := m\<rparr>"
  have c: "frame_child ?o ?b = (next_token y, ?b1)"
    using y object_unfold [of "Finish ''draw:object''" y 0 m] by (simp add: frame_child_def shows_match [OF o(1)])
  let ?z = "next_token (next_token y)"
  have z: "stream ?z (tokss rest @ Finish n # ts)" "shows_token (Finish ''draw:frame'') (next_token (next_token y))"
    using y(1) by simp_all
  from frame_trees_read(2) [OF z(1) assms(3), of 0 ?b1] obtain w where w: "stream w (Finish n # ts)"
      "while_inside frame_step (Suc 0) ?z ?b1 = while_inside frame_step (Suc 0) w (frame_trees rest ?b1)" by blast
  have "while_inside frame_step (Suc 0) xp ?b = (next_token w, frame_trees rest ?b1)"
    using frame_unfold [OF o(1), of 0 ?b] c frame_unfold [OF z(2), of "Suc 0" ?b1] w
      frame_unfold [of "Finish n" w 0 "frame_trees rest ?b1"] by simp
  then show ?thesis using w(1) frame_type(2) [of rest ?b1] by (simp add: parse_frame_def)
qed

text \<open>
  Claim C21. A formula in a frame hides everything that follows it: whatever the body of the document
  holds behind the frame, the parser finds one block, the formula.
\<close>

theorem formula_hides_rest:
  assumes "xmls_ok rest" and "no_objects rest"
    and "xml_ok (Elem ''draw:frame'' as s [Elem ''draw:object'' os s' ms])"
  shows "map cb_type (snd (parse_fodt_document (renders (plain_document
           (Elem ''draw:frame'' as s [Elem ''draw:object'' os s' ms] # rest))))) = [FORMULA]"
proof -
  let ?frame = "Elem ''draw:frame'' as s [Elem ''draw:object'' os s' ms]"
  let ?xs = "plain_document (?frame # rest)" and ?s = "([], page_info_new, []) :: Style list \<times> doc"
  let ?a = "XmlParser (renders ?xs)"
  let ?b = "next_token ?a" let ?c = "next_token ?b" let ?d = "next_token ?c" let ?e = "next_token ?d"
  have "xmls_ok ?xs" using assms by (intro plain_document_ok) (simp add: is_chars_def)
  from document_stream [OF this] have t: "shows_token (Start ''office:document'' []) ?b" "shows_token (Start ''office:body'' []) ?c"
    "shows_token (Start ''office:text'' []) ?d" "shows_token (Start ''draw:frame'' as) ?e"
    "stream ?e (toks (Elem ''draw:object'' os s' ms) @ Finish ''draw:frame'' # tokss rest @ Finish ''office:text''
      # [Finish ''office:body'', Finish ''office:document'', Eof])"
    by (simp_all add: plain_document_def)
  from formula_frame [OF t(4,5) assms(2), of "(page_info_new, [])"] obtain y f where y:
      "stream y [Finish ''office:body'', Finish ''office:document'', Eof]" "cb_type f = FORMULA"
      "parse_frame ?e (page_info_new, []) = (y, page_info_new, [f])" by auto
  let ?y1 = "next_token y" let ?y2 = "next_token ?y1"
  have "parse_fodt_body [] 0 ?d (page_info_new, []) = (?y1, page_info_new, [f])"
    using body_unfold(1) [OF t(4), of "[]" 0] body_unfold(2) [of "''office:body''" y] y
    by (simp add: body_child_def shows_match [OF t(4)])
  then have "content_child [] ?d (page_info_new, []) = (?y1, page_info_new, [f])"
    by (simp add: content_child_def shows_match [OF t(3)])
  then have "while_inside (inside (content_child []) no_text) (Suc 0) ?c (page_info_new, []) = (?y2, page_info_new, [f])"
    using inside_unfold [OF document_goes(3) t(3), of "[]" no_text 0]
      inside_unfold [OF document_goes(3), of "Finish ''office:document''" ?y1 "[]" no_text 0] y(1) by simp
  then have "document_child ?c ?s = (?y2, [], page_info_new, [f])"
    by (simp add: document_child_def resolve_all_styles_def shows_match [OF t(2)])
  moreover have "document_child ?b ?s = (?b, ?s)" by (simp add: document_child_def shows_match [OF t(1)])
  ultimately have "while_inside document_step (Suc 0) ?a ?s = (next_token ?y2, [], page_info_new, [f])"
    using document_unfold [OF t(1), of 0 ?s] document_unfold [OF t(2), of 0 ?s]
      document_unfold [of Eof ?y2 0 "([], page_info_new, [f])"] y(1) by simp
  then show ?thesis using y(2) by (simp add: parse_fodt_document_def)
qed

lemma formula_hides_rest_witness:
  "map cb_type (snd (parse_fodt_document (renders (plain_document
     (Elem ''draw:frame'' [] False [Elem ''draw:object'' [] False [Elem ''math:math'' [] True []]] # sample_body))))) = [FORMULA]"
  by (rule formula_hides_rest)
    (simp_all add: sample_body_def name_ok_def value_ok_def name_char_def attr_char_def xml_space_def c_isspace_def
      char_code_def is_chars_def is_markup_def)

end
