(* ===== verification/Cdsl_Doc_Json.thy ===== *)
theory Cdsl_Doc_Json
  imports Cdsl_Doc_Read Cdsl_Report_Json Cdsl_Strbuf
begin

section \<open>The JSON text of documents (\<open>src/doc/doc_parse.cpp\<close>)\<close>

text \<open>
  What the document parser returns: the page and the blocks as JSON text, and that the JSON parser reads it
  as the value of the document. \<open>snprintf\<close> into the buffers of
  the source cuts long texts; \<open>printf_f1\<close> and \<open>printf_f2\<close> are the formats \<open>%.1f\<close> and \<open>%.2f\<close>.
\<close>

subsection \<open>Pieces of text\<close>

definition printf_f1 :: "f64 \<Rightarrow> string" where
  "printf_f1 f =
     (case special_double f of Some s \<Rightarrow> s
      | None \<Rightarrow> let d = round_half_even (f64_mag f * 10) f64_unit
                 in sign_text f @ dec_of_nat (d div 10) @ ''.'' @ dec_of_nat (d mod 10))"

definition json_escape :: "string \<Rightarrow> string" where
  "json_escape s = concat (map escape_char s)"

definition in_quotes :: "string \<Rightarrow> string" where
  "in_quotes s = [CHR 0x22] @ json_escape s @ [CHR 0x22]"

definition gap :: "nat \<Rightarrow> string" where
  "gap k = replicate k (CHR '' '')"

text \<open>A key and its value behind a comma: on a line of its own, on the next line, and within a line.\<close>

definition line_member :: "nat \<Rightarrow> string \<Rightarrow> string \<Rightarrow> string" where
  "line_member k key v = gap k @ '','' @ in_quotes key @ '': '' @ v @ [CHR 0x0A]"

definition next_member :: "nat \<Rightarrow> string \<Rightarrow> string \<Rightarrow> string" where
  "next_member k key v = '','' @ [CHR 0x0A] @ gap k @ in_quotes key @ '': '' @ v"

definition short_member :: "string \<Rightarrow> string \<Rightarrow> string" where
  "short_member key v = '','' @ in_quotes key @ '':'' @ v"

definition unless_empty :: "string \<Rightarrow> (string \<Rightarrow> string) \<Rightarrow> string" where
  "unless_empty s f = (if s = [] then [] else f s)"

definition when_positive :: "f64 \<Rightarrow> string \<Rightarrow> string" where
  "when_positive x s = (if f64_lt num_0 x then s else [])"

definition when_set :: "f64 \<Rightarrow> string \<Rightarrow> string" where
  "when_set x s = (if f64_eq x num_0 then [] else s)"

definition only_if :: "bool \<Rightarrow> string \<Rightarrow> string" where
  "only_if b s = (if b then s else [])"

definition box_text :: "f64 \<Rightarrow> f64 \<Rightarrow> f64 \<Rightarrow> f64 \<Rightarrow> string" where
  "box_text x y w h = ''['' @ printf_f1 x @ '', '' @ printf_f1 y @ '', '' @ printf_f1 w @ '', '' @ printf_f1 h @ '']''"

text \<open>The elements of an array: the separator comes before each but the first.\<close>

fun separated :: "string \<Rightarrow> string list \<Rightarrow> string" where
  "separated sep [] = []"
| "separated sep [x] = x"
| "separated sep (x # y # xs) = x @ sep @ separated sep (y # xs)"

subsection \<open>Properties\<close>

definition json_append_text_props :: "TextProps \<Rightarrow> string" where
  "json_append_text_props p =
     unless_empty (tp_font_name p) (\<lambda>s. line_member 12 ''font_name'' (in_quotes s))
     @ when_positive (tp_font_size_pt p) (snprintf_buf 64 (line_member 12 ''font_size_pt'' (printf_f1 (tp_font_size_pt p))))
     @ only_if (tp_bold p) (line_member 12 ''bold'' ''true'')
     @ only_if (tp_italic p) (line_member 12 ''italic'' ''true'')
     @ only_if (tp_underline p)
         (line_member 12 ''underline'' ''true''
          @ unless_empty (tp_underline_style p) (\<lambda>s. line_member 12 ''underline_style'' (in_quotes s))
          @ unless_empty (tp_underline_color p) (\<lambda>s. line_member 12 ''underline_color'' (in_quotes s)))
     @ only_if (tp_strikethrough p) (line_member 12 ''strikethrough'' ''true'')
     @ line_member 12 ''color'' (in_quotes (if tp_color p = [] then ''#000000'' else tp_color p))
     @ unless_empty (tp_background_color p) (\<lambda>s. line_member 12 ''background_color'' (in_quotes s))
     @ when_set (tp_char_spacing_mm p) (snprintf_buf 64 (line_member 12 ''char_spacing_mm'' (printf_f2 (tp_char_spacing_mm p))))
     @ unless_empty (tp_vertical_align p) (\<lambda>s. line_member 12 ''vertical_align'' (in_quotes s))"

definition json_append_para_props :: "ParaProps \<Rightarrow> string" where
  "json_append_para_props p =
     unless_empty (pp_alignment p) (\<lambda>s. line_member 6 ''alignment'' (in_quotes s))
     @ when_positive (pp_margin_top_mm p) (snprintf_buf 128 (line_member 6 ''spacing_before_mm'' (printf_f1 (pp_margin_top_mm p))))
     @ when_positive (pp_margin_bottom_mm p) (snprintf_buf 128 (line_member 6 ''spacing_after_mm'' (printf_f1 (pp_margin_bottom_mm p))))
     @ when_positive (pp_margin_left_mm p) (snprintf_buf 128 (line_member 6 ''margin_left_mm'' (printf_f1 (pp_margin_left_mm p))))
     @ when_positive (pp_margin_right_mm p) (snprintf_buf 128 (line_member 6 ''margin_right_mm'' (printf_f1 (pp_margin_right_mm p))))
     @ when_positive (pp_line_spacing p) (snprintf_buf 128 (line_member 6 ''line_spacing'' (printf_f2 (pp_line_spacing p))))
     @ when_set (pp_indent_first_line_mm p)
         (snprintf_buf 128 (line_member 6 ''indent_first_line_mm'' (printf_f1 (pp_indent_first_line_mm p))))
     @ unless_empty (pp_background_color p) (\<lambda>s. line_member 6 ''background_color'' (in_quotes s))
     @ only_if (0 < pp_outline_level p) (snprintf_buf 128 (line_member 6 ''outline_level'' (dec_of_int (pp_outline_level p))))
     @ only_if (pp_keep_with_next p) (line_member 6 ''keep_with_next'' ''true'')"

definition json_append_border :: "string \<Rightarrow> BorderProps \<Rightarrow> string" where
  "json_append_border key b =
     unless_empty (bp_style b) (\<lambda>s.
       short_member key (''{'' @ in_quotes ''style'' @ '':'' @ in_quotes s
         @ unless_empty (bp_color b) (\<lambda>c. short_member ''color'' (in_quotes c))
         @ snprintf_buf 64 (short_member ''width_mm'' (printf_f2 (bp_width_mm b))) @ ''}''))"

definition padding_text :: "CellProps \<Rightarrow> string" where
  "padding_text p =
     ''['' @ printf_f1 (cp_padding_top_mm p) @ '','' @ printf_f1 (cp_padding_bottom_mm p) @ '',''
     @ printf_f1 (cp_padding_left_mm p) @ '','' @ printf_f1 (cp_padding_right_mm p) @ '']''"

definition json_append_cell_props :: "CellProps \<Rightarrow> string" where
  "json_append_cell_props p =
     unless_empty (cp_background_color p) (\<lambda>s. short_member ''background_color'' (in_quotes s))
     @ unless_empty (cp_vertical_align p) (\<lambda>s. short_member ''vertical_align'' (in_quotes s))
     @ json_append_border ''border_top'' (cp_border_top p)
     @ json_append_border ''border_bottom'' (cp_border_bottom p)
     @ json_append_border ''border_left'' (cp_border_left p)
     @ json_append_border ''border_right'' (cp_border_right p)
     @ only_if (\<not> f64_eq (cp_padding_top_mm p) num_0 \<or> \<not> f64_eq (cp_padding_bottom_mm p) num_0
             \<or> \<not> f64_eq (cp_padding_left_mm p) num_0 \<or> \<not> f64_eq (cp_padding_right_mm p) num_0)
         (snprintf_buf 256 (short_member ''padding_mm'' (padding_text p)))"

subsection \<open>Blocks\<close>

fun type_name :: "BlockType \<Rightarrow> string" where
  "type_name PARAGRAPH = ''paragraph''"
| "type_name TABLE = ''table''"
| "type_name LIST = ''list''"
| "type_name IMAGE = ''image''"
| "type_name FOOTNOTE = ''footnote''"
| "type_name FORMULA = ''formula''"
| "type_name HEADER = ''header''"
| "type_name FOOTER = ''footer''"

definition text_open :: "string \<Rightarrow> string" where
  "text_open t = gap 10 @ ''{'' @ [CHR 0x0A] @ gap 12 @ in_quotes ''text'' @ '': ''
     @ in_quotes t @ [CHR 0x0A]"

definition text_block_json :: "TextBlock \<Rightarrow> string" where
  "text_block_json tb =
     text_open (tb_text tb) @ json_append_text_props (tb_props tb)
     @ unless_empty (tb_hyperlink_url tb) (\<lambda>s. line_member 12 ''hyperlink_url'' (in_quotes s))
     @ snprintf_buf 128 (line_member 12 ''bbox_mm'' (box_text (tb_bbox_x_mm tb) (tb_bbox_y_mm tb) (tb_bbox_w_mm tb) (tb_bbox_h_mm tb)))
     @ gap 10 @ ''}''"

definition cell_block_json :: "TextBlock \<Rightarrow> string" where
  "cell_block_json tb =
     text_open (tb_text tb) @ json_append_text_props (tb_props tb) @ gap 10 @ ''}''"

definition plain_text :: "TextBlock list \<Rightarrow> string" where
  "plain_text tbs = concat (map tb_text tbs)"

definition paragraph_json :: "ContentBlock \<Rightarrow> string" where
  "paragraph_json b =
     next_member 6 ''content'' (in_quotes (plain_text (cb_text_blocks b)))
     @ json_append_para_props (cb_para_props b)
     @ next_member 6 ''text_blocks''
         (''['' @ [CHR 0x0A] @ separated ('','' @ [CHR 0x0A]) (map text_block_json (cb_text_blocks b))
          @ [CHR 0x0A] @ gap 6 @ '']'')"

definition cell_json :: "TableCell \<Rightarrow> string" where
  "cell_json c =
     ''{'' @ in_quotes ''colspan'' @ '':'' @ dec_of_int (sint (tc_colspan c))
     @ short_member ''rowspan'' (dec_of_int (sint (tc_rowspan c)))
     @ json_append_cell_props (tc_props c)
     @ short_member ''content'' (in_quotes (plain_text (tc_text_blocks c)))
     @ short_member ''text_blocks''
         (''['' @ [CHR 0x0A] @ separated ('','' @ [CHR 0x0A]) (map cell_block_json (tc_text_blocks c)) @ '']'') @ ''}''"

definition row_json :: "TableRow \<Rightarrow> string" where
  "row_json r =
     gap 8 @ ''{'' @ in_quotes ''cells'' @ '':'' @ ''['' @ separated '','' (map cell_json (tr_cells r)) @ '']'' @ ''}''"

definition table_json :: "ContentBlock \<Rightarrow> string" where
  "table_json b =
     when_positive (ta_width_mm (cb_table_props b))
       (snprintf_buf 64 (next_member 6 ''width_mm'' (printf_f1 (ta_width_mm (cb_table_props b)))))
     @ unless_empty (ta_alignment (cb_table_props b)) (\<lambda>s. next_member 6 ''alignment'' (in_quotes s))
     @ only_if (ta_column_widths_mm (cb_table_props b) \<noteq> [])
         (next_member 6 ''column_widths_mm''
            (''['' @ separated '','' (map (\<lambda>w. snprintf_buf 32 (printf_f1 w)) (ta_column_widths_mm (cb_table_props b))) @ '']''))
     @ next_member 6 ''rows''
         (''['' @ [CHR 0x0A] @ separated ('','' @ [CHR 0x0A]) (map row_json (cb_table_rows b))
          @ [CHR 0x0A] @ gap 6 @ '']'')"

text \<open>The comma behind an image is there whether something follows or not.\<close>

definition image_json :: "ContentBlock \<Rightarrow> string" where
  "image_json b =
     next_member 6 ''image_name'' (in_quotes (cb_image_name b)) @ '','' @ [CHR 0x0A]
     @ unless_empty (cb_anchoring b) (\<lambda>s.
         gap 6 @ in_quotes ''anchoring'' @ '': '' @ in_quotes s @ '','' @ [CHR 0x0A])
     @ unless_empty (cb_image_base64 b) (\<lambda>s.
         gap 6 @ in_quotes ''data_base64'' @ '': '' @ [CHR 0x22] @ s @ [CHR 0x22])"

definition footnote_json :: "ContentBlock \<Rightarrow> string" where
  "footnote_json b =
     next_member 6 ''footnote_id'' (in_quotes (cb_footnote_id b))
     @ next_member 6 ''content'' (in_quotes (case cb_text_blocks b of [] \<Rightarrow> [] | tb # tbs \<Rightarrow> tb_text tb))"

definition type_json :: "ContentBlock \<Rightarrow> string" where
  "type_json b =
     (case cb_type b of
        PARAGRAPH \<Rightarrow> paragraph_json b
      | LIST \<Rightarrow> paragraph_json b
      | TABLE \<Rightarrow> table_json b
      | IMAGE \<Rightarrow> image_json b
      | FOOTNOTE \<Rightarrow> footnote_json b
      | FORMULA \<Rightarrow> next_member 6 ''formula_mathml'' (in_quotes (cb_formula_mathml b))
      | HEADER \<Rightarrow> []
      | FOOTER \<Rightarrow> [])"

definition position_json :: "ContentBlock \<Rightarrow> string" where
  "position_json b =
     gap 6 @ in_quotes ''page_index'' @ '': '' @ dec_of_int (sint (cb_page_index b))
     @ next_member 6 ''page_number'' (dec_of_int (sint (cb_page_number b)))
     @ next_member 6 ''indent_level'' (dec_of_int (sint (cb_indent_level b)))
     @ next_member 6 ''bbox_mm'' (box_text (cb_bbox_x_mm b) (cb_bbox_y_mm b) (cb_bbox_w_mm b) (cb_bbox_h_mm b))"

definition json_append_block :: "ContentBlock \<Rightarrow> string" where
  "json_append_block b =
     gap 4 @ ''{'' @ [CHR 0x0A] @ gap 6 @ in_quotes ''type'' @ '': ''
     @ in_quotes (type_name (cb_type b)) @ '','' @ [CHR 0x0A]
     @ snprintf_buf 256 (position_json b)
     @ unless_empty (cb_style_name b) (\<lambda>s. next_member 6 ''style'' (in_quotes s))
     @ type_json b
     @ [CHR 0x0A] @ gap 4 @ ''}''"

subsection \<open>Documents\<close>

text \<open>The metadata. The number of paragraphs is that of the blocks.\<close>

definition counts_json :: "PageInfo \<Rightarrow> nat \<Rightarrow> string" where
  "counts_json page k =
     gap 6 @ in_quotes ''page_count'' @ '': '' @ dec_of_int (sint (pg_page_count page))
     @ next_member 6 ''paragraph_count'' (dec_of_int (sint (of_nat k :: i32)))
     @ next_member 6 ''word_count'' (dec_of_int (sint (pg_word_count page)))
     @ next_member 6 ''character_count'' (dec_of_int (sint (pg_character_count page)))
     @ next_member 6 ''page_size_mm'' (''['' @ printf_f1 (pg_page_width_mm page) @ '', '' @ printf_f1 (pg_page_height_mm page) @ '']'')
     @ next_member 6 ''margins_mm''
         (box_text (pg_margin_top_mm page) (pg_margin_bottom_mm page) (pg_margin_left_mm page) (pg_margin_right_mm page))"

definition document_json :: "doc \<Rightarrow> string" where
  "document_json d =
     (case d of (page, blocks) \<Rightarrow>
        ''{'' @ [CHR 0x0A] @ ''  '' @ in_quotes ''document'' @ '': {'' @ [CHR 0x0A]
        @ gap 4 @ in_quotes ''metadata'' @ '': {'' @ [CHR 0x0A]
        @ snprintf_buf 512 (counts_json page (length blocks))
        @ unless_empty (pg_title page) (\<lambda>s. next_member 6 ''title'' (in_quotes s))
        @ unless_empty (pg_creator page) (\<lambda>s. next_member 6 ''creator'' (in_quotes s))
        @ unless_empty (pg_created page) (\<lambda>s. next_member 6 ''created'' (in_quotes s))
        @ unless_empty (pg_modified page) (\<lambda>s. next_member 6 ''modified'' (in_quotes s))
        @ only_if (pg_bookmarks page \<noteq> [])
            (next_member 6 ''bookmarks'' (''['' @ separated '','' (map in_quotes (pg_bookmarks page)) @ '']''))
        @ [CHR 0x0A] @ ''    }'' @ next_member 4 ''elements''
            (''['' @ [CHR 0x0A] @ separated ('','' @ [CHR 0x0A]) (map json_append_block blocks)
             @ [CHR 0x0A] @ ''    ]'')
        @ [CHR 0x0A] @ ''  }'' @ [CHR 0x0A] @ ''}'' @ [CHR 0x0A])"

subsection \<open>Texts that are read as values\<close>

definition spaces :: "string \<Rightarrow> bool" where
  "spaces w \<longleftrightarrow> list_all c_isspace w"

definition after_value :: "string \<Rightarrow> bool" where
  "after_value r \<longleftrightarrow> r = [] \<or> hd r \<in> {CHR '','', CHR ''}'', CHR '']''} \<or> c_isspace (hd r)"

definition reads_as :: "nat \<Rightarrow> string \<Rightarrow> cdsl_json \<Rightarrow> bool" where
  "reads_as d s v \<longleftrightarrow> starts_value s
     \<and> (\<forall>r n. after_value r \<longrightarrow> 2 * length s + 1 \<le> n \<longrightarrow> parse_value n d (s @ r) = Some (Some v, r))"

text \<open>What follows the value of a member, up to the brace: the comma is still to be read.\<close>

definition reads_more :: "nat \<Rightarrow> string \<Rightarrow> (string \<times> cdsl_json) list \<Rightarrow> bool" where
  "reads_more d s items \<longleftrightarrow> after_value (s @ ''}'')
     \<and> (\<forall>r n. 2 * length s + 2 \<le> n \<longrightarrow>
          object_items n d (skip_comma (skip_ws (s @ CHR ''}'' # r))) = Some (items, CHR ''}'' # r))"

definition reads_elems :: "nat \<Rightarrow> string \<Rightarrow> cdsl_json list \<Rightarrow> bool" where
  "reads_elems d s vs \<longleftrightarrow> after_value (s @ '']'')
     \<and> (\<forall>r n. 2 * length s + 2 \<le> n \<longrightarrow>
          array_items n d (skip_comma (skip_ws (s @ CHR '']'' # r))) = Some (vs, CHR '']'' # r))"

lemma skip_ws_spaces: "spaces w \<Longrightarrow> skip_ws (w @ s) = skip_ws s"
  by (simp add: skip_ws_def spaces_def dropWhile_append list_all_iff)

lemma skip_ws_mark: "c \<in> {CHR '','', CHR ''}'', CHR '']'', CHR 0x22, CHR '':'', CHR ''{'', CHR ''[''} \<Longrightarrow> skip_ws (c # s) = c # s"
  by (auto simp: skip_ws_def c_isspace_def char_code_def)

lemma quoted_ws [simp]: "skip_ws (quoted k @ s) = quoted k @ s"
  by (simp add: quoted_def skip_ws_mark)

lemma in_quotes_quoted: "in_quotes s = quoted s"
  by (simp add: in_quotes_def json_escape_def quoted_def)

lemma reads_more_end:
  assumes "spaces w"
  shows "reads_more d w []"
proof -
  have "after_value (w @ ''}'')" using assms by (cases w) (simp_all add: after_value_def spaces_def)
  moreover have "object_items n d (CHR ''}'' # r) = Some ([], CHR ''}'' # r)" if "2 \<le> n" for n r
    using that by (cases n) (simp_all add: object_items.simps)
  ultimately show ?thesis using assms by (simp add: reads_more_def skip_ws_spaces skip_ws_mark skip_comma_def)
qed

text \<open>A comma with nothing behind it is taken, too.\<close>

lemma reads_more_comma:
  assumes "spaces w"
  shows "reads_more d ('','' @ w) []"
proof -
  have "object_items n d (w @ CHR ''}'' # r) = Some ([], CHR ''}'' # r)" if "2 \<le> n" for n r
  proof (cases "w = []")
    case True
    then show ?thesis using that by (cases n) (simp_all add: object_items.simps)
  next
    case False
    then have "hd (w @ CHR ''}'' # r) \<noteq> CHR ''}''"
      using assms by (cases w) (auto simp: spaces_def c_isspace_def char_code_def)
    then show ?thesis
      using that assms by (cases n) (simp_all add: object_items.simps skip_ws_spaces skip_ws_mark parse_string_raw_def)
  qed
  then show ?thesis by (simp add: reads_more_def after_value_def skip_ws_mark skip_comma_def)
qed

text \<open>A member, from the white space before its key.\<close>

lemma object_items_member:
  assumes v: "reads_as d vs v" and k: "c_text k" and w: "spaces w1" "spaces w2" and s: "reads_more d s items"
    and n: "2 * length (w1 @ quoted k @ '':'' @ w2 @ vs @ s) \<le> n"
  shows "object_items n d (w1 @ quoted k @ CHR '':'' # w2 @ vs @ s @ CHR ''}'' # r) = Some ((k, v) # items, CHR ''}'' # r)"
proof -
  obtain m where m: "n = Suc m" using n by (cases n) (auto simp: quoted_def)
  have vs: "starts_value vs" "after_value (s @ ''}'')" using v s by (simp_all add: reads_as_def reads_more_def)
  have a: "after_value (s @ CHR ''}'' # r)" using vs(2) by (cases s) (simp_all add: after_value_def)
  have pv: "parse_value m d (vs @ s @ CHR ''}'' # r) = Some (Some v, s @ CHR ''}'' # r)"
    using v a n m by (auto simp: reads_as_def quoted_def)
  have it: "object_items m d (skip_comma (skip_ws (s @ CHR ''}'' # r))) = Some (items, CHR ''}'' # r)"
    using s n m by (auto simp: reads_more_def quoted_def)
  have ws: "skip_ws (w2 @ vs @ s @ CHR ''}'' # r) = vs @ s @ CHR ''}'' # r"
    using starts_value_skip [of "vs @ s @ CHR ''}'' # r"] vs(1) w(2) by (simp add: skip_ws_spaces starts_value_def)
  have h: "hd (w1 @ quoted k @ CHR '':'' # w2 @ vs @ s @ CHR ''}'' # r) \<noteq> CHR ''}''"
    using w(1) by (cases w1) (auto simp: spaces_def c_isspace_def char_code_def quoted_def)
  show ?thesis
    using k h by (simp add: m object_items.simps skip_ws_spaces [OF w(1)] parse_quoted skip_ws_mark ws pv it Let_def)
qed

lemma reads_more_member:
  assumes "reads_as d vs v" and "c_text k" and "spaces w0" and "spaces w1" and "spaces w2" and "reads_more d s items"
  shows "reads_more d (w0 @ '','' @ w1 @ quoted k @ '':'' @ w2 @ vs @ s) ((k, v) # items)"
proof -
  have "after_value (w0 @ CHR '','' # t)" for t
    using assms(3) by (cases w0) (simp_all add: after_value_def spaces_def)
  then show ?thesis
    using object_items_member [OF assms(1,2,4,5,6)] assms(3)
    by (auto simp: reads_more_def skip_ws_spaces skip_ws_mark skip_comma_def)
qed

text \<open>An object whose first member has no comma.\<close>

lemma reads_object:
  assumes "reads_as (Suc d) vs v" and "c_text k" and "spaces w1" and "spaces w2" and "reads_more (Suc d) s items"
    and "Suc d < CDSL_JSON_MAX_DEPTH"
  shows "reads_as d (''{'' @ w1 @ quoted k @ '':'' @ w2 @ vs @ s @ ''}'') (CDSL_JSON_OBJECT ((k, v) # items))"
  unfolding reads_as_def
proof (intro conjI allI impI)
  fix r n assume n: "2 * length (''{'' @ w1 @ quoted k @ '':'' @ w2 @ vs @ s @ ''}'') + 1 \<le> n"
  obtain m where m: "n = Suc m" using n by (cases n) auto
  let ?t = "quoted k @ CHR '':'' # w2 @ vs @ s @ CHR ''}'' # r"
  have "object_items m (Suc d) ?t = Some ((k, v) # items, CHR ''}'' # r)"
    using object_items_member [OF assms(1,2) _ assms(4,5), of "[]" m r] n m by (simp add: spaces_def)
  then show "parse_value n d ((''{'' @ w1 @ quoted k @ '':'' @ w2 @ vs @ s @ ''}'') @ r)
      = Some (Some (CDSL_JSON_OBJECT ((k, v) # items)), r)"
    using assms(6) by (simp add: m parse_value.simps Let_def skip_ws_mark parse_object_def skip_ws_spaces [OF assms(3)])
qed (simp add: starts_value_def)

lemma reads_elems_end:
  assumes "spaces w"
  shows "reads_elems d w []"
proof -
  have "after_value (w @ '']'')" using assms by (cases w) (simp_all add: after_value_def spaces_def)
  moreover have "array_items n d (CHR '']'' # r) = Some ([], CHR '']'' # r)" if "2 \<le> n" for n r
    using that by (cases n) (simp_all add: array_items.simps)
  ultimately show ?thesis using assms by (simp add: reads_elems_def skip_ws_spaces skip_ws_mark skip_comma_def)
qed

lemma array_items_elem:
  assumes v: "reads_as d vs v" and w: "spaces w" and s: "reads_elems d s us"
    and n: "2 * length (w @ vs @ s) + 2 \<le> n"
  shows "array_items n d (w @ vs @ s @ CHR '']'' # r) = Some (v # us, CHR '']'' # r)"
proof -
  obtain m where m: "n = Suc m" using n by (cases n) auto
  have vs: "starts_value vs" "after_value (s @ '']'')" using v s by (simp_all add: reads_as_def reads_elems_def)
  have l: "0 < length vs" using vs(1) by (simp add: starts_value_def)
  have nm: "2 * length s + 2 \<le> m" using n m l by (cases vs) auto
  have a: "after_value (s @ CHR '']'' # r)" using vs(2) by (cases s) (simp_all add: after_value_def)
  have pv: "parse_value m d (vs @ s @ CHR '']'' # r) = Some (Some v, s @ CHR '']'' # r)"
    using v a n m by (auto simp: reads_as_def)
  have it: "array_items m d (skip_comma (skip_ws (s @ CHR '']'' # r))) = Some (us, CHR '']'' # r)"
    using s nm by (simp add: reads_elems_def)
  have st: "starts_value (vs @ s @ CHR '']'' # r)" using vs(1) by (simp add: starts_value_def)
  have h: "hd (w @ vs @ s @ CHR '']'' # r) \<noteq> CHR '']''"
    using w starts_value_open [OF st] by (cases w) (auto simp: spaces_def c_isspace_def char_code_def)
  show ?thesis
    using h by (simp add: m array_items.simps skip_ws_spaces [OF w] starts_value_skip [OF st] pv it)
qed

lemma reads_elems_more:
  assumes "reads_as d vs v" and "spaces w0" and "spaces w1" and "reads_elems d s us"
  shows "reads_elems d (w0 @ '','' @ w1 @ vs @ s) (v # us)"
proof -
  have "after_value (w0 @ CHR '','' # t)" for t
    using assms(2) by (cases w0) (simp_all add: after_value_def spaces_def)
  then show ?thesis
    using array_items_elem [OF assms(1,3,4)] assms(2)
    by (auto simp: reads_elems_def skip_ws_spaces skip_ws_mark skip_comma_def)
qed

text \<open>An array of separated texts, each with white space before it.\<close>

definition sep_ok :: "string \<Rightarrow> bool" where
  "sep_ok sep \<longleftrightarrow> (\<exists>w. sep = '','' @ w \<and> spaces w)"

definition reads_seq :: "nat \<Rightarrow> string \<Rightarrow> cdsl_json list \<Rightarrow> bool" where
  "reads_seq d s vs \<longleftrightarrow>
     (case vs of [] \<Rightarrow> spaces s
      | u # us \<Rightarrow> \<exists>w t1 t2. s = w @ t1 @ t2 \<and> spaces w \<and> reads_as d t1 u \<and> reads_elems d t2 us)"

definition padded :: "nat \<Rightarrow> string \<Rightarrow> cdsl_json \<Rightarrow> bool" where
  "padded d x v \<longleftrightarrow> (\<exists>w t. x = w @ t \<and> spaces w \<and> reads_as d t v)"

lemma spaces_append [simp]: "spaces (u @ w) \<longleftrightarrow> spaces u \<and> spaces w"
  by (simp add: spaces_def)

lemma reads_seq_before: "spaces w \<Longrightarrow> reads_seq d s vs \<Longrightarrow> reads_seq d (w @ s) vs"
  by (cases vs) (simp add: reads_seq_def, simp add: reads_seq_def, metis append_assoc spaces_append)

lemma reads_separated:
  assumes "sep_ok sep" and "spaces w2"
  shows "list_all2 (padded d) xs vs \<Longrightarrow> reads_seq d (separated sep xs @ w2) vs"
proof (induction xs arbitrary: vs)
  case Nil
  then show ?case using assms(2) by (simp add: reads_seq_def)
next
  case (Cons x xs)
  from Cons.prems obtain v us where "vs = v # us" "padded d x v" "list_all2 (padded d) xs us" by (auto simp: list_all2_Cons1)
  then obtain w t where v: "vs = v # us" "list_all2 (padded d) xs us" "x = w @ t" "spaces w" "reads_as d t v"
    unfolding padded_def by blast
  show ?case
  proof (cases xs)
    case Nil
    then show ?thesis using v reads_elems_end [OF assms(2), of d] by (auto simp: reads_seq_def)
  next
    case (Cons y ys)
    then obtain u us' where us: "us = u # us'" using v(2) by (auto simp: list_all2_Cons1)
    from Cons.IH [OF v(2)] us obtain w' t1 t2 where r: "separated sep xs @ w2 = w' @ t1 @ t2" "spaces w'"
      "reads_as d t1 u" "reads_elems d t2 us'" by (auto simp: reads_seq_def)
    obtain ws where sep: "sep = '','' @ ws" "spaces ws" using assms(1) by (auto simp: sep_ok_def)
    have "reads_elems d ([] @ '','' @ (ws @ w') @ t1 @ t2) us"
      unfolding us using r sep by (intro reads_elems_more) (simp_all add: spaces_def)
    moreover have "separated sep (x # xs) @ w2 = w @ t @ ([] @ '','' @ (ws @ w') @ t1 @ t2)"
      using r(1) by (simp add: Cons v(3) sep(1))
    ultimately show ?thesis using v(1,4,5) unfolding reads_seq_def by auto
  qed
qed

lemma reads_array:
  assumes "reads_seq (Suc d) s vs" and "Suc d < CDSL_JSON_MAX_DEPTH"
  shows "reads_as d (''['' @ s @ '']'') (CDSL_JSON_ARRAY vs)"
  unfolding reads_as_def
proof (intro conjI allI impI)
  fix r n assume n: "2 * length (''['' @ s @ '']'') + 1 \<le> n"
  obtain m where m: "n = Suc m" using n by (cases n) auto
  have "array_items m (Suc d) (skip_ws (s @ CHR '']'' # r)) = Some (vs, CHR '']'' # r)"
  proof (cases vs)
    case Nil
    then have "spaces s" using assms(1) by (simp add: reads_seq_def)
    then show ?thesis using n m Nil by (cases m) (auto simp: skip_ws_spaces skip_ws_mark array_items.simps)
  next
    case (Cons u us)
    then obtain w t1 t2 where s: "s = w @ t1 @ t2" "spaces w" "reads_as (Suc d) t1 u" "reads_elems (Suc d) t2 us"
      using assms(1) by (auto simp: reads_seq_def)
    have "skip_ws (s @ CHR '']'' # r) = t1 @ t2 @ CHR '']'' # r"
      using starts_value_skip [of "t1 @ t2 @ CHR '']'' # r"] s by (simp add: skip_ws_spaces reads_as_def starts_value_def)
    moreover have "array_items m (Suc d) ([] @ t1 @ t2 @ CHR '']'' # r) = Some (u # us, CHR '']'' # r)"
      by (rule array_items_elem [OF s(3) _ s(4)]) (use n m s(1) in \<open>auto simp: spaces_def\<close>)
    ultimately show ?thesis using Cons by simp
  qed
  then show "parse_value n d ((''['' @ s @ '']'') @ r) = Some (Some (CDSL_JSON_ARRAY vs), r)"
    using assms(2) by (simp add: m parse_value.simps Let_def skip_ws_mark parse_array_def)
qed (simp add: starts_value_def)

text \<open>Scalars.\<close>

lemma reads_scalar:
  assumes "d < CDSL_JSON_MAX_DEPTH" and "starts_value s" and "hd s \<noteq> CHR ''{''" and "hd s \<noteq> CHR ''[''"
    and "\<And>r. after_value r \<Longrightarrow> parse_scalar (s @ r) = (Some v, r)"
  shows "reads_as d s v"
  unfolding reads_as_def
proof (intro conjI allI impI)
  fix r n assume r: "after_value r" and n: "2 * length s + 1 \<le> n"
  obtain m where m: "n = Suc m" using n by (cases n) auto
  have st: "starts_value (s @ r)" using assms(2) by (simp add: starts_value_def)
  then show "parse_value n d (s @ r) = Some (Some v, r)"
    using assms by (simp add: m parse_value.simps Let_def starts_value_skip [OF st] r starts_value_def)
qed (use assms in simp)

lemma reads_string: "d < CDSL_JSON_MAX_DEPTH \<Longrightarrow> c_text s \<Longrightarrow> reads_as d (quoted s) (CDSL_JSON_STRING s)"
proof (rule reads_scalar)
  fix r assume s: "c_text s"
  obtain t where t: "quoted s @ r = CHR 0x22 # t" by (simp add: quoted_def)
  show "parse_scalar (quoted s @ r) = (Some (CDSL_JSON_STRING s), r)"
    using parse_quoted [OF s, of r] unfolding t by (simp add: parse_scalar_def)
qed (simp_all add: quoted_def starts_value_def)

lemma reads_true: "d < CDSL_JSON_MAX_DEPTH \<Longrightarrow> reads_as d ''true'' (CDSL_JSON_BOOL 1)"
  by (rule reads_scalar) (simp_all add: starts_value_def parse_scalar_def)

text \<open>Numbers with or without a fraction.\<close>

definition number_ends :: "string \<Rightarrow> bool" where
  "number_ends r \<longleftrightarrow>
     r = [] \<or> \<not> c_isdigit (hd r) \<and> hd r \<noteq> CHR ''.'' \<and> c_tolower (hd r) \<noteq> CHR ''e'' \<and> c_tolower (hd r) \<noteq> CHR ''x''"

lemma after_value_number: "after_value r \<Longrightarrow> number_ends r"
  by (auto simp: number_ends_def after_value_def c_isdigit_def c_isspace_def c_tolower_def char_code_def)

definition decimal :: "bool \<Rightarrow> string \<Rightarrow> string \<Rightarrow> string" where
  "decimal neg ip fp = (if neg then ''-'' else []) @ ip @ (if fp = [] then [] else ''.'' @ fp)"

lemma strtod_decimal:
  assumes d: "list_all c_isdigit ip" "ip \<noteq> []" "list_all c_isdigit fp" and r: "number_ends r"
  shows "c_strtod (decimal neg ip fp @ r) = Some (f64_scale neg (radix_value 10 (ip @ fp)) 10 (- int (length fp)), r)"
proof -
  obtain c cs where c: "ip = c # cs" "c_isdigit c" using d by (cases ip) auto
  let ?b = "ip @ (if fp = [] then [] else ''.'' @ fp) @ r"
  note r' = r [unfolded number_ends_def]
  have dot: "\<not> c_isdigit (CHR ''.'')" by (simp add: c_isdigit_def char_code_def)
  have tw: "takeWhile c_isdigit ?b = ip" "dropWhile c_isdigit ?b = (if fp = [] then [] else ''.'' @ fp) @ r"
    using d(1) r' dot by (cases r; simp add: list_all_iff takeWhile_append dropWhile_append)+
  have fw: "takeWhile c_isdigit (fp @ r) = fp" "dropWhile c_isdigit (fp @ r) = r"
    using d(3) r' by (cases r; simp add: list_all_iff)+
  have ex: "exponent_part (CHR ''e'') r = (0, r)" using r' by (cases r) (auto simp: exponent_part_def)
  have body: "number_body neg False ?b = Some (f64_scale neg (radix_value 10 (ip @ fp)) 10 (- int (length fp)), r)"
  proof (cases "fp = []")
    case True
    then have pt: "\<not> (r \<noteq> [] \<and> hd r = CHR ''.'')" using r' by auto
    show ?thesis using d(2) ex True unfolding number_body_def Let_def if_False tw using pt by auto
  next
    case False
    then show ?thesis using d(2) ex fw unfolding number_body_def Let_def if_False tw by simp
  qed
  have first: "lower_prefix (p # ps) (c # xs) \<Longrightarrow> c_tolower c = p" for p ps xs
    by (simp add: lower_prefix_def)
  have second: "lower_prefix [p, q] (c # xs) \<Longrightarrow> xs \<noteq> [] \<and> c_tolower (hd xs) = q" for p q xs
    by (cases xs) (simp_all add: lower_prefix_def)
  let ?t = "cs @ (if fp = [] then [] else ''.'' @ fp) @ r"
  have "c_tolower (CHR ''.'') \<noteq> CHR ''x''" by (simp add: c_tolower_def char_code_def)
  then have x: "?t = [] \<or> c_tolower (hd ?t) \<noteq> CHR ''x''"
    using d(1) c(1) r' by (cases cs) (auto simp: digit_neq)
  have b: "?b = c # ?t" by (simp add: c(1))
  have pre: "\<not> lower_prefix ''infinity'' ?b" "\<not> lower_prefix ''inf'' ?b" "\<not> lower_prefix ''nan'' ?b" "\<not> lower_prefix ''0x'' ?b"
    using first [of _ _ ?t] second [of _ _ ?t] x digit_neq [OF c(2)] unfolding b by metis+
  have s: "decimal neg ip fp @ r = (if neg then CHR ''-'' # ?b else ?b)" by (simp add: decimal_def)
  have "\<not> c_isspace (CHR ''-'')" by (simp add: c_isspace_def char_code_def)
  then have strip: "dropWhile c_isspace (decimal neg ip fp @ r) = (if neg then CHR ''-'' # ?b else ?b)"
    unfolding s b using digit_neq(2) [OF c(2)] by simp
  show ?thesis
  proof (cases neg)
    case True
    then show ?thesis using pre body unfolding c_strtod_def strip Let_def by simp
  next
    case False
    then show ?thesis using pre body digit_neq [OF c(2)] b unfolding c_strtod_def strip Let_def by simp
  qed
qed

lemma reads_decimal:
  assumes "d < CDSL_JSON_MAX_DEPTH" and ds: "list_all c_isdigit ip" "ip \<noteq> []" "list_all c_isdigit fp"
  shows "reads_as d (decimal neg ip fp) (CDSL_JSON_NUMBER (strtod_value (decimal neg ip fp)))"
proof -
  obtain c cs where c: "decimal neg ip fp = c # cs" "c = CHR ''-'' \<or> c_isdigit c"
    using ds(1,2) by (cases ip; cases neg) (auto simp: decimal_def)
  have ne: "c \<noteq> CHR 0x22" "c \<noteq> CHR ''t''" "c \<noteq> CHR ''f''" "c \<noteq> CHR ''n''" "c \<noteq> CHR ''{''" "c \<noteq> CHR ''[''"
    using c(2) by (auto simp: c_isdigit_def char_code_def)
  note v = strtod_decimal [OF ds]
  have "number_ends []" by (simp add: number_ends_def)
  from v [OF this, of neg] have e: "strtod_value (decimal neg ip fp) = f64_scale neg (radix_value 10 (ip @ fp)) 10 (- int (length fp))"
    by (simp add: strtod_value_def)
  show ?thesis
  proof (rule reads_scalar [OF assms(1)])
    fix r assume r: "after_value r"
    show "parse_scalar (decimal neg ip fp @ r) = (Some (CDSL_JSON_NUMBER (strtod_value (decimal neg ip fp))), r)"
      using v [OF after_value_number [OF r], of neg] c ne unfolding e by (simp add: parse_scalar_def)
  qed (use c ne in \<open>auto simp: starts_value_def\<close>)
qed

lemma reads_int: "d < CDSL_JSON_MAX_DEPTH \<Longrightarrow> reads_as d (dec_of_int i) (CDSL_JSON_NUMBER (strtod_value (dec_of_int i)))"
  using reads_decimal [of d "dec_of_nat (nat \<bar>i\<bar>)" "[]" "i < 0"] dec_of_nat_digits dec_of_nat_not_Nil
  by (auto simp: decimal_def dec_of_int_def)

subsection \<open>The value of a document\<close>

definition number1 :: "f64 \<Rightarrow> cdsl_json" where
  "number1 f = CDSL_JSON_NUMBER (strtod_value (printf_f1 f))"

definition number2 :: "f64 \<Rightarrow> cdsl_json" where
  "number2 f = CDSL_JSON_NUMBER (strtod_value (printf_f2 f))"

definition integer :: "int \<Rightarrow> cdsl_json" where
  "integer i = CDSL_JSON_NUMBER (strtod_value (dec_of_int i))"

definition true_value :: cdsl_json where
  "true_value = CDSL_JSON_BOOL 1"

definition str_item :: "string \<Rightarrow> string \<Rightarrow> (string \<times> cdsl_json) list" where
  "str_item k s = (if s = [] then [] else [(k, CDSL_JSON_STRING s)])"

definition item_if :: "bool \<Rightarrow> string \<Rightarrow> cdsl_json \<Rightarrow> (string \<times> cdsl_json) list" where
  "item_if b k v = (if b then [(k, v)] else [])"

definition box_value :: "f64 \<Rightarrow> f64 \<Rightarrow> f64 \<Rightarrow> f64 \<Rightarrow> cdsl_json" where
  "box_value x y w h = CDSL_JSON_ARRAY [number1 x, number1 y, number1 w, number1 h]"

definition text_props_items :: "TextProps \<Rightarrow> (string \<times> cdsl_json) list" where
  "text_props_items p =
     str_item ''font_name'' (tp_font_name p)
     @ item_if (f64_lt num_0 (tp_font_size_pt p)) ''font_size_pt'' (number1 (tp_font_size_pt p))
     @ item_if (tp_bold p) ''bold'' true_value
     @ item_if (tp_italic p) ''italic'' true_value
     @ (if tp_underline p
        then [(''underline'', true_value)] @ str_item ''underline_style'' (tp_underline_style p)
             @ str_item ''underline_color'' (tp_underline_color p)
        else [])
     @ item_if (tp_strikethrough p) ''strikethrough'' true_value
     @ [(''color'', CDSL_JSON_STRING (if tp_color p = [] then ''#000000'' else tp_color p))]
     @ str_item ''background_color'' (tp_background_color p)
     @ item_if (\<not> f64_eq (tp_char_spacing_mm p) num_0) ''char_spacing_mm'' (number2 (tp_char_spacing_mm p))
     @ str_item ''vertical_align'' (tp_vertical_align p)"

definition para_props_items :: "ParaProps \<Rightarrow> (string \<times> cdsl_json) list" where
  "para_props_items p =
     str_item ''alignment'' (pp_alignment p)
     @ item_if (f64_lt num_0 (pp_margin_top_mm p)) ''spacing_before_mm'' (number1 (pp_margin_top_mm p))
     @ item_if (f64_lt num_0 (pp_margin_bottom_mm p)) ''spacing_after_mm'' (number1 (pp_margin_bottom_mm p))
     @ item_if (f64_lt num_0 (pp_margin_left_mm p)) ''margin_left_mm'' (number1 (pp_margin_left_mm p))
     @ item_if (f64_lt num_0 (pp_margin_right_mm p)) ''margin_right_mm'' (number1 (pp_margin_right_mm p))
     @ item_if (f64_lt num_0 (pp_line_spacing p)) ''line_spacing'' (number2 (pp_line_spacing p))
     @ item_if (\<not> f64_eq (pp_indent_first_line_mm p) num_0) ''indent_first_line_mm'' (number1 (pp_indent_first_line_mm p))
     @ str_item ''background_color'' (pp_background_color p)
     @ item_if (0 < pp_outline_level p) ''outline_level'' (integer (pp_outline_level p))
     @ item_if (pp_keep_with_next p) ''keep_with_next'' true_value"

definition border_items :: "string \<Rightarrow> BorderProps \<Rightarrow> (string \<times> cdsl_json) list" where
  "border_items k b =
     (if bp_style b = [] then []
      else [(k, CDSL_JSON_OBJECT ([(''style'', CDSL_JSON_STRING (bp_style b))] @ str_item ''color'' (bp_color b)
                  @ [(''width_mm'', number2 (bp_width_mm b))]))])"

definition cell_props_items :: "CellProps \<Rightarrow> (string \<times> cdsl_json) list" where
  "cell_props_items p =
     str_item ''background_color'' (cp_background_color p)
     @ str_item ''vertical_align'' (cp_vertical_align p)
     @ border_items ''border_top'' (cp_border_top p) @ border_items ''border_bottom'' (cp_border_bottom p)
     @ border_items ''border_left'' (cp_border_left p) @ border_items ''border_right'' (cp_border_right p)
     @ item_if (\<not> f64_eq (cp_padding_top_mm p) num_0 \<or> \<not> f64_eq (cp_padding_bottom_mm p) num_0
         \<or> \<not> f64_eq (cp_padding_left_mm p) num_0 \<or> \<not> f64_eq (cp_padding_right_mm p) num_0) ''padding_mm''
         (box_value (cp_padding_top_mm p) (cp_padding_bottom_mm p) (cp_padding_left_mm p) (cp_padding_right_mm p))"

definition text_block_value :: "TextBlock \<Rightarrow> cdsl_json" where
  "text_block_value tb = CDSL_JSON_OBJECT
     ([(''text'', CDSL_JSON_STRING (tb_text tb))] @ text_props_items (tb_props tb)
      @ str_item ''hyperlink_url'' (tb_hyperlink_url tb)
      @ [(''bbox_mm'', box_value (tb_bbox_x_mm tb) (tb_bbox_y_mm tb) (tb_bbox_w_mm tb) (tb_bbox_h_mm tb))])"

definition cell_block_value :: "TextBlock \<Rightarrow> cdsl_json" where
  "cell_block_value tb = CDSL_JSON_OBJECT ([(''text'', CDSL_JSON_STRING (tb_text tb))] @ text_props_items (tb_props tb))"

definition cell_value :: "TableCell \<Rightarrow> cdsl_json" where
  "cell_value c = CDSL_JSON_OBJECT
     ([(''colspan'', integer (sint (tc_colspan c))), (''rowspan'', integer (sint (tc_rowspan c)))]
      @ cell_props_items (tc_props c)
      @ [(''content'', CDSL_JSON_STRING (plain_text (tc_text_blocks c))),
         (''text_blocks'', CDSL_JSON_ARRAY (map cell_block_value (tc_text_blocks c)))])"

definition row_value :: "TableRow \<Rightarrow> cdsl_json" where
  "row_value r = CDSL_JSON_OBJECT [(''cells'', CDSL_JSON_ARRAY (map cell_value (tr_cells r)))]"

definition type_items :: "ContentBlock \<Rightarrow> (string \<times> cdsl_json) list" where
  "type_items b =
     (case cb_type b of
        TABLE \<Rightarrow>
          item_if (f64_lt num_0 (ta_width_mm (cb_table_props b))) ''width_mm'' (number1 (ta_width_mm (cb_table_props b)))
          @ str_item ''alignment'' (ta_alignment (cb_table_props b))
          @ item_if (ta_column_widths_mm (cb_table_props b) \<noteq> []) ''column_widths_mm''
              (CDSL_JSON_ARRAY (map number1 (ta_column_widths_mm (cb_table_props b))))
          @ [(''rows'', CDSL_JSON_ARRAY (map row_value (cb_table_rows b)))]
      | IMAGE \<Rightarrow>
          [(''image_name'', CDSL_JSON_STRING (cb_image_name b))] @ str_item ''anchoring'' (cb_anchoring b)
          @ str_item ''data_base64'' (cb_image_base64 b)
      | FOOTNOTE \<Rightarrow>
          [(''footnote_id'', CDSL_JSON_STRING (cb_footnote_id b)),
           (''content'', CDSL_JSON_STRING (case cb_text_blocks b of [] \<Rightarrow> [] | tb # tbs \<Rightarrow> tb_text tb))]
      | FORMULA \<Rightarrow> [(''formula_mathml'', CDSL_JSON_STRING (cb_formula_mathml b))]
      | HEADER \<Rightarrow> []
      | FOOTER \<Rightarrow> []
      | _ \<Rightarrow>
          [(''content'', CDSL_JSON_STRING (plain_text (cb_text_blocks b)))] @ para_props_items (cb_para_props b)
          @ [(''text_blocks'', CDSL_JSON_ARRAY (map text_block_value (cb_text_blocks b)))])"

definition block_value :: "ContentBlock \<Rightarrow> cdsl_json" where
  "block_value b = CDSL_JSON_OBJECT
     ([(''type'', CDSL_JSON_STRING (type_name (cb_type b))),
       (''page_index'', integer (sint (cb_page_index b))), (''page_number'', integer (sint (cb_page_number b))),
       (''indent_level'', integer (sint (cb_indent_level b))),
       (''bbox_mm'', box_value (cb_bbox_x_mm b) (cb_bbox_y_mm b) (cb_bbox_w_mm b) (cb_bbox_h_mm b))]
      @ str_item ''style'' (cb_style_name b) @ type_items b)"

definition metadata_value :: "PageInfo \<Rightarrow> nat \<Rightarrow> cdsl_json" where
  "metadata_value page k = CDSL_JSON_OBJECT
     ([(''page_count'', integer (sint (pg_page_count page))),
       (''paragraph_count'', integer (sint (of_nat k :: i32))),
       (''word_count'', integer (sint (pg_word_count page))),
       (''character_count'', integer (sint (pg_character_count page))),
       (''page_size_mm'', CDSL_JSON_ARRAY [number1 (pg_page_width_mm page), number1 (pg_page_height_mm page)]),
       (''margins_mm'', box_value (pg_margin_top_mm page) (pg_margin_bottom_mm page) (pg_margin_left_mm page)
          (pg_margin_right_mm page))]
      @ str_item ''title'' (pg_title page) @ str_item ''creator'' (pg_creator page)
      @ str_item ''created'' (pg_created page) @ str_item ''modified'' (pg_modified page)
      @ item_if (pg_bookmarks page \<noteq> []) ''bookmarks'' (CDSL_JSON_ARRAY (map CDSL_JSON_STRING (pg_bookmarks page))))"

definition document_value :: "doc \<Rightarrow> cdsl_json" where
  "document_value d =
     (case d of (page, blocks) \<Rightarrow> CDSL_JSON_OBJECT
        [(''document'', CDSL_JSON_OBJECT
           [(''metadata'', metadata_value page (length blocks)),
            (''elements'', CDSL_JSON_ARRAY (map block_value blocks))])])"

text \<open>The doubles that are printed are finite and below \<open>10^12\<close>, and the strings have no NUL.\<close>

definition measure_ok :: "f64 \<Rightarrow> bool" where
  "measure_ok f \<longleftrightarrow> special_double f = None \<and> f64_mag f < 10 ^ 12 * f64_unit"

definition text_props_fit :: "TextProps \<Rightarrow> bool" where
  "text_props_fit p \<longleftrightarrow> list_all c_text [tp_font_name p, tp_underline_style p, tp_underline_color p, tp_color p,
     tp_background_color p, tp_vertical_align p] \<and> list_all measure_ok [tp_font_size_pt p, tp_char_spacing_mm p]"

definition para_props_fit :: "ParaProps \<Rightarrow> bool" where
  "para_props_fit p \<longleftrightarrow> list_all c_text [pp_alignment p, pp_background_color p]
     \<and> list_all measure_ok [pp_margin_top_mm p, pp_margin_bottom_mm p, pp_margin_left_mm p, pp_margin_right_mm p,
         pp_line_spacing p, pp_indent_first_line_mm p] \<and> in_i32 (pp_outline_level p)"

definition border_fits :: "BorderProps \<Rightarrow> bool" where
  "border_fits b \<longleftrightarrow> c_text (bp_style b) \<and> c_text (bp_color b) \<and> measure_ok (bp_width_mm b)"

definition cell_props_fit :: "CellProps \<Rightarrow> bool" where
  "cell_props_fit p \<longleftrightarrow> c_text (cp_background_color p) \<and> c_text (cp_vertical_align p)
     \<and> list_all border_fits [cp_border_top p, cp_border_bottom p, cp_border_left p, cp_border_right p]
     \<and> list_all measure_ok [cp_padding_top_mm p, cp_padding_bottom_mm p, cp_padding_left_mm p, cp_padding_right_mm p]"

definition text_block_fits :: "TextBlock \<Rightarrow> bool" where
  "text_block_fits tb \<longleftrightarrow> c_text (tb_text tb) \<and> c_text (tb_hyperlink_url tb) \<and> text_props_fit (tb_props tb)
     \<and> list_all measure_ok [tb_bbox_x_mm tb, tb_bbox_y_mm tb, tb_bbox_w_mm tb, tb_bbox_h_mm tb]"

definition cell_fits :: "TableCell \<Rightarrow> bool" where
  "cell_fits c \<longleftrightarrow> list_all text_block_fits (tc_text_blocks c) \<and> cell_props_fit (tc_props c)"

definition block_fits :: "ContentBlock \<Rightarrow> bool" where
  "block_fits b \<longleftrightarrow> list_all measure_ok [cb_bbox_x_mm b, cb_bbox_y_mm b, cb_bbox_w_mm b, cb_bbox_h_mm b]
     \<and> list_all c_text [cb_style_name b, cb_image_name b, cb_anchoring b, cb_formula_mathml b, cb_footnote_id b,
         ta_alignment (cb_table_props b), cb_image_base64 b]
     \<and> json_escape (cb_image_base64 b) = cb_image_base64 b
     \<and> para_props_fit (cb_para_props b) \<and> list_all text_block_fits (cb_text_blocks b)
     \<and> measure_ok (ta_width_mm (cb_table_props b)) \<and> list_all measure_ok (ta_column_widths_mm (cb_table_props b))
     \<and> list_all (\<lambda>r. list_all cell_fits (tr_cells r)) (cb_table_rows b)"

definition page_fits :: "PageInfo \<Rightarrow> bool" where
  "page_fits p \<longleftrightarrow> list_all measure_ok [pg_page_width_mm p, pg_page_height_mm p, pg_margin_top_mm p, pg_margin_bottom_mm p,
     pg_margin_left_mm p, pg_margin_right_mm p]
     \<and> list_all c_text [pg_title p, pg_creator p, pg_created p, pg_modified p] \<and> list_all c_text (pg_bookmarks p)"

subsection \<open>Pieces are read as members\<close>

definition piece :: "nat \<Rightarrow> string \<Rightarrow> (string \<times> cdsl_json) list \<Rightarrow> bool" where
  "piece d p its \<longleftrightarrow> (\<forall>s items. reads_more d s items \<longrightarrow> reads_more d (p @ s) (its @ items))"

lemma piece_nil: "piece d [] []"
  by (simp add: piece_def)

lemma piece_append: "piece d p a \<Longrightarrow> piece d q b \<Longrightarrow> piece d (p @ q) (a @ b)"
  by (simp add: piece_def)

lemma piece_spaces: "spaces w \<Longrightarrow> piece d w []"
proof -
  assume w: "spaces w"
  then have "after_value (s @ ''}'') \<Longrightarrow> after_value (w @ s @ ''}'')" for s
    by (cases w) (simp_all add: after_value_def spaces_def)
  with w show ?thesis by (simp add: piece_def reads_more_def skip_ws_spaces)
qed

lemma spaces_simps [simp]: "spaces []" "spaces (gap k)" "spaces [CHR 0x0A]" "spaces '' ''" "spaces ''  ''"
  by (simp_all add: spaces_def gap_def c_isspace_def char_code_def list_all_iff)

lemma gap_length [simp]: "length (gap k) = k"
  by (simp add: gap_def)

lemma blanks [simp]: "c_isspace (CHR '' '')" "c_isspace (CHR 0x0A)"
  by (simp_all add: c_isspace_def char_code_def)

lemma spaces_Cons [simp]: "spaces (c # w) \<longleftrightarrow> c_isspace c \<and> spaces w"
  by (simp add: spaces_def)

lemma piece_member:
  "reads_as d vs v \<Longrightarrow> c_text k \<Longrightarrow> spaces w1 \<Longrightarrow> spaces w2 \<Longrightarrow> piece d ('','' @ w1 @ quoted k @ '':'' @ w2 @ vs) [(k, v)]"
  using reads_more_member [of d vs v k "[]" w1 w2] by (simp add: piece_def)

lemma piece_line: "reads_as d vs v \<Longrightarrow> c_text k \<Longrightarrow> piece d (line_member n k vs) [(k, v)]"
  using piece_append [OF piece_spaces [of "gap n" d]
      piece_append [OF piece_member [of d vs v k "[]" "'' ''"] piece_spaces [of "[CHR 0x0A]"]]]
  by (simp add: line_member_def in_quotes_quoted)

lemma piece_next: "reads_as d vs v \<Longrightarrow> c_text k \<Longrightarrow> piece d (next_member n k vs) [(k, v)]"
  using piece_member [of d vs v k "CHR 0x0A # gap n" "'' ''"]
  by (simp add: next_member_def in_quotes_quoted c_isspace_def char_code_def)

lemma piece_short: "reads_as d vs v \<Longrightarrow> c_text k \<Longrightarrow> piece d (short_member k vs) [(k, v)]"
  using piece_member [of d vs v k "[]" "[]"] by (simp add: short_member_def in_quotes_quoted)

lemma piece_unless_empty: "(s \<noteq> [] \<Longrightarrow> piece d (f s) [(k, CDSL_JSON_STRING s)]) \<Longrightarrow> piece d (unless_empty s f) (str_item k s)"
  by (simp add: unless_empty_def str_item_def piece_nil)

lemma piece_if:
  "(b \<Longrightarrow> piece d p [(k, v)]) \<Longrightarrow> piece d (only_if b p) (item_if b k v)"
  "piece d p [(k, v)] \<Longrightarrow> piece d (when_positive x p) (item_if (f64_lt num_0 x) k v)"
  "piece d p [(k, v)] \<Longrightarrow> piece d (when_set x p) (item_if (\<not> f64_eq x num_0) k v)"
  by (simp_all add: only_if_def when_positive_def when_set_def item_if_def piece_nil)

lemma piece_only_if: "(b \<Longrightarrow> piece d p its) \<Longrightarrow> piece d (only_if b p) (if b then its else [])"
  by (simp add: only_if_def piece_nil)

text \<open>Numbers, and how long they are.\<close>

lemma round_half_even_le: "round_half_even n d \<le> n div d + 1"
  by (simp add: round_half_even_def Let_def)

lemma measure_digits:
  assumes "measure_ok f" and "0 < k"
  shows "round_half_even (f64_mag f * k) f64_unit \<le> k * 10 ^ 12"
proof -
  have "f64_mag f * k < (k * 10 ^ 12) * f64_unit" using assms by (simp add: measure_ok_def)
  then have "f64_mag f * k div f64_unit < k * 10 ^ 12" by (rule less_mult_imp_div_less)
  with round_half_even_le [of "f64_mag f * k" f64_unit] show ?thesis by simp
qed

lemma dec_digits: "list_all c_isdigit (dec_of_nat n)" "dec_of_nat n \<noteq> []"
  using dec_of_nat_digits dec_of_nat_not_Nil by blast+

lemma printf_f1_decimal:
  assumes "measure_ok f"
  shows "\<exists>neg ip fp. printf_f1 f = decimal neg ip fp \<and> list_all c_isdigit ip \<and> ip \<noteq> [] \<and> list_all c_isdigit fp"
    and "length (printf_f1 f) \<le> 16"
proof -
  let ?d = "round_half_even (f64_mag f * 10) f64_unit"
  have s: "special_double f = None" using assms by (simp add: measure_ok_def)
  have p: "printf_f1 f = decimal (f64_sign f) (dec_of_nat (?d div 10)) (dec_of_nat (?d mod 10))"
    by (simp add: printf_f1_def s Let_def decimal_def sign_text_def dec_digits)
  then show "\<exists>neg ip fp. printf_f1 f = decimal neg ip fp \<and> list_all c_isdigit ip \<and> ip \<noteq> [] \<and> list_all c_isdigit fp"
    using dec_digits by blast
  have "?d div 10 < 10 ^ 13" using measure_digits [OF assms, of 10] by simp
  then have "length (dec_of_nat (?d div 10)) \<le> 13" by (rule dec_of_nat_length [rotated]) simp
  moreover have "length (dec_of_nat (?d mod 10)) \<le> 1" by (rule dec_of_nat_length) simp_all
  ultimately show "length (printf_f1 f) \<le> 16" unfolding p by (simp add: decimal_def)
qed

lemma printf_f2_decimal:
  assumes "measure_ok f"
  shows "\<exists>neg ip fp. printf_f2 f = decimal neg ip fp \<and> list_all c_isdigit ip \<and> ip \<noteq> [] \<and> list_all c_isdigit fp"
    and "length (printf_f2 f) \<le> 17"
proof -
  let ?d = "round_half_even (f64_mag f * 100) f64_unit"
  have s: "special_double f = None" using assms by (simp add: measure_ok_def)
  have p: "printf_f2 f = decimal (f64_sign f) (dec_of_nat (?d div 100)) (pad_zeros 2 (dec_of_nat (?d mod 100)))"
    by (simp add: printf_f2_def s Let_def decimal_def sign_text_def dec_digits pad_zeros_def)
  have z: "list_all c_isdigit (pad_zeros 2 (dec_of_nat n))" for n
    using dec_digits(1) [of n] by (auto simp: pad_zeros_def list_all_iff c_isdigit_def char_code_def)
  show "\<exists>neg ip fp. printf_f2 f = decimal neg ip fp \<and> list_all c_isdigit ip \<and> ip \<noteq> [] \<and> list_all c_isdigit fp"
    unfolding p using dec_digits z by blast
  have "?d div 100 < 10 ^ 13" using measure_digits [OF assms, of 100] by simp
  then have "length (dec_of_nat (?d div 100)) \<le> 13" by (rule dec_of_nat_length [rotated]) simp
  moreover have "length (dec_of_nat (?d mod 100)) \<le> 2" by (rule dec_of_nat_length) simp_all
  ultimately show "length (printf_f2 f) \<le> 17" unfolding p by (simp add: decimal_def pad_zeros_def)
qed

lemma reads_number1: "d < CDSL_JSON_MAX_DEPTH \<Longrightarrow> measure_ok f \<Longrightarrow> reads_as d (printf_f1 f) (number1 f)"
  using printf_f1_decimal(1) [of f] reads_decimal [of d] by (auto simp: number1_def)

lemma reads_number2: "d < CDSL_JSON_MAX_DEPTH \<Longrightarrow> measure_ok f \<Longrightarrow> reads_as d (printf_f2 f) (number2 f)"
  using printf_f2_decimal(1) [of f] reads_decimal [of d] by (auto simp: number2_def)

lemma reads_integer: "d < CDSL_JSON_MAX_DEPTH \<Longrightarrow> reads_as d (dec_of_int i) (integer i)"
  by (simp add: integer_def reads_int)

lemma padded_self: "reads_as d t v \<Longrightarrow> padded d t v"
  unfolding padded_def by (metis append_Nil spaces_simps(1))

lemma padded_spaces: "spaces w \<Longrightarrow> reads_as d t v \<Longrightarrow> padded d (w @ t) v"
  unfolding padded_def by blast

lemma sep_oks [simp]: "spaces w \<Longrightarrow> sep_ok (CHR '','' # w)"
  by (auto simp: sep_ok_def)

text \<open>Arrays, with white space after the bracket and before the other.\<close>

lemma reads_list:
  assumes "list_all2 (padded (Suc d)) xs vs" and "sep_ok sep" and "spaces w1" and "spaces w2" and "Suc d < CDSL_JSON_MAX_DEPTH"
  shows "reads_as d (''['' @ w1 @ separated sep xs @ w2 @ '']'') (CDSL_JSON_ARRAY vs)"
  using reads_array [OF reads_seq_before [OF assms(3) reads_separated [OF assms(2,4,1)]] assms(5)] by simp

lemma reads_box:
  assumes "Suc d < CDSL_JSON_MAX_DEPTH" and "list_all measure_ok [x, y, w, h]"
  shows "reads_as d (box_text x y w h) (box_value x y w h)"
  using reads_list [of d "[printf_f1 x, printf_f1 y, printf_f1 w, printf_f1 h]" "[number1 x, number1 y, number1 w, number1 h]"
      "'', ''" "[]" "[]"] assms
  by (simp add: box_text_def box_value_def padded_self reads_number1)

lemma box_length: "list_all measure_ok [x, y, w, h] \<Longrightarrow> length (box_text x y w h) \<le> 72"
  using printf_f1_decimal(2) [of x] printf_f1_decimal(2) [of y] printf_f1_decimal(2) [of w] printf_f1_decimal(2) [of h]
  by (simp add: box_text_def)

lemma reads_quotes: "d < CDSL_JSON_MAX_DEPTH \<Longrightarrow> c_text s \<Longrightarrow> reads_as d (in_quotes s) (CDSL_JSON_STRING s)"
  by (simp add: in_quotes_quoted reads_string)

lemma reads_true_value: "d < CDSL_JSON_MAX_DEPTH \<Longrightarrow> reads_as d ''true'' true_value"
  by (simp add: true_value_def reads_true)

lemmas piece_rules = piece_append piece_nil piece_line piece_next piece_short piece_unless_empty piece_if
lemmas reads_rules = reads_quotes reads_true_value reads_number1 reads_number2 reads_integer reads_box

text \<open>The buffers are long enough.\<close>

lemma snprintf_fits: "length s < n \<Longrightarrow> snprintf_buf n s = s"
  by (simp add: snprintf_buf_def)

lemma key_length:
  assumes "list_all (\<lambda>c. 93 \<le> char_code c) k"
  shows "length (in_quotes k) = length k + 2"
proof -
  have "escape_char c = [c]" if "93 \<le> char_code c" for c
  proof -
    have "c \<notin> {CHR 0x22, CHR 0x5C, CHR 0x0A, CHR 0x0D, CHR 0x09, CHR 0x08, CHR 0x0C}"
      using that by (auto simp: char_code_def)
    then show ?thesis using that by (simp add: escape_char_def)
  qed
  then have "length (json_escape k) = length k" using assms by (induction k) (simp_all add: json_escape_def)
  then show ?thesis by (simp add: in_quotes_def)
qed

lemma member_lengths:
  assumes "list_all (\<lambda>c. 93 \<le> char_code c) k"
  shows "length (line_member n k v) = n + length k + length v + 6"
    and "length (next_member n k v) = n + length k + length v + 6"
    and "length (short_member k v) = length k + length v + 4"
  by (simp_all add: line_member_def next_member_def short_member_def key_length [OF assms])

lemma dec_i32_length: "in_i32 i \<Longrightarrow> length (dec_of_int i) \<le> 11"
proof -
  assume "in_i32 i"
  then have "nat i < 10 ^ 10" "nat (- i) < 10 ^ 10" by (auto simp: in_i32_def)
  with dec_of_nat_length [of 10] show ?thesis by (fastforce simp: dec_of_int_def)
qed

lemma number_lines:
  assumes "measure_ok f" and "list_all (\<lambda>c. 93 \<le> char_code c) k" and "length k \<le> 20"
  shows "n \<le> 12 \<Longrightarrow> 64 \<le> m \<Longrightarrow> snprintf_buf m (line_member n k (printf_f1 f)) = line_member n k (printf_f1 f)"
    and "n \<le> 12 \<Longrightarrow> 64 \<le> m \<Longrightarrow> snprintf_buf m (line_member n k (printf_f2 f)) = line_member n k (printf_f2 f)"
    and "n \<le> 12 \<Longrightarrow> 64 \<le> m \<Longrightarrow> snprintf_buf m (next_member n k (printf_f1 f)) = next_member n k (printf_f1 f)"
    and "64 \<le> m \<Longrightarrow> snprintf_buf m (short_member k (printf_f2 f)) = short_member k (printf_f2 f)"
  using printf_f1_decimal(2) [OF assms(1)] printf_f2_decimal(2) [OF assms(1)] assms(3)
  by (auto intro!: snprintf_fits simp: member_lengths [OF assms(2)])

lemma number_pieces:
  assumes "measure_ok f" and "list_all (\<lambda>c. 93 \<le> char_code c) k" and "length k \<le> 20" and "d < CDSL_JSON_MAX_DEPTH"
  shows "n \<le> 12 \<Longrightarrow> 64 \<le> m \<Longrightarrow> piece d (snprintf_buf m (line_member n k (printf_f1 f))) [(k, number1 f)]"
    and "n \<le> 12 \<Longrightarrow> 64 \<le> m \<Longrightarrow> piece d (snprintf_buf m (line_member n k (printf_f2 f))) [(k, number2 f)]"
    and "n \<le> 12 \<Longrightarrow> 64 \<le> m \<Longrightarrow> piece d (snprintf_buf m (next_member n k (printf_f1 f))) [(k, number1 f)]"
    and "64 \<le> m \<Longrightarrow> piece d (snprintf_buf m (short_member k (printf_f2 f))) [(k, number2 f)]"
proof -
  have "c_text k" using assms(2) by (auto simp: c_text_def list_all_iff char_code_def)
  then show "n \<le> 12 \<Longrightarrow> 64 \<le> m \<Longrightarrow> piece d (snprintf_buf m (line_member n k (printf_f1 f))) [(k, number1 f)]"
    "n \<le> 12 \<Longrightarrow> 64 \<le> m \<Longrightarrow> piece d (snprintf_buf m (line_member n k (printf_f2 f))) [(k, number2 f)]"
    "n \<le> 12 \<Longrightarrow> 64 \<le> m \<Longrightarrow> piece d (snprintf_buf m (next_member n k (printf_f1 f))) [(k, number1 f)]"
    "64 \<le> m \<Longrightarrow> piece d (snprintf_buf m (short_member k (printf_f2 f))) [(k, number2 f)]"
    using assms by (simp_all add: number_lines piece_line piece_next piece_short reads_number1 reads_number2)
qed

lemma outline_piece:
  "in_i32 i \<Longrightarrow> d < CDSL_JSON_MAX_DEPTH
    \<Longrightarrow> piece d (snprintf_buf 128 (line_member 6 ''outline_level'' (dec_of_int i))) [(''outline_level'', integer i)]"
  using dec_i32_length [of i] piece_line [OF reads_integer, of d "''outline_level''" 6 i]
  by (subst snprintf_fits) (simp_all add: member_lengths char_code_def c_text_def)

text \<open>The properties.\<close>

lemma piece_text_props:
  assumes "text_props_fit p" and "d < CDSL_JSON_MAX_DEPTH"
  shows "piece d (json_append_text_props p) (text_props_items p)"
  unfolding json_append_text_props_def text_props_items_def
  by (intro piece_rules piece_only_if number_pieces reads_rules assms(2))
    (use assms(1) in \<open>auto simp: text_props_fit_def c_text_def char_code_def\<close>)

lemma piece_para_props:
  assumes "para_props_fit p" and "d < CDSL_JSON_MAX_DEPTH"
  shows "piece d (json_append_para_props p) (para_props_items p)"
  unfolding json_append_para_props_def para_props_items_def
  by (intro piece_rules number_pieces outline_piece reads_rules assms(2))
    (use assms(1) in \<open>auto simp: para_props_fit_def c_text_def char_code_def\<close>)

lemma piece_border:
  assumes "border_fits b" and "c_text k" and "Suc d < CDSL_JSON_MAX_DEPTH"
  shows "piece d (json_append_border k b) (border_items k b)"
proof (cases "bp_style b = []")
  case True
  then show ?thesis by (simp add: json_append_border_def border_items_def unless_empty_def piece_nil)
next
  case False
  have d: "d < CDSL_JSON_MAX_DEPTH" using assms(3) by simp
  have "piece (Suc d) (unless_empty (bp_color b) (\<lambda>c. short_member ''color'' (in_quotes c))
      @ snprintf_buf 64 (short_member ''width_mm'' (printf_f2 (bp_width_mm b))))
      (str_item ''color'' (bp_color b) @ [(''width_mm'', number2 (bp_width_mm b))])"
    by (intro piece_rules number_pieces reads_rules assms(3))
      (use assms(1) in \<open>auto simp: border_fits_def c_text_def char_code_def\<close>)
  from this [unfolded piece_def, rule_format, OF reads_more_end [of "[]"]]
  have more: "reads_more (Suc d) (unless_empty (bp_color b) (\<lambda>c. short_member ''color'' (in_quotes c))
      @ snprintf_buf 64 (short_member ''width_mm'' (printf_f2 (bp_width_mm b))))
      (str_item ''color'' (bp_color b) @ [(''width_mm'', number2 (bp_width_mm b))])" by simp
  have "reads_as (Suc d) (in_quotes (bp_style b)) (CDSL_JSON_STRING (bp_style b))"
    using assms(1,3) by (intro reads_quotes) (simp_all add: border_fits_def)
  from reads_object [OF this _ _ _ more assms(3), of "''style''" "[]" "[]"]
  have "reads_as d (''{'' @ in_quotes ''style'' @ '':'' @ in_quotes (bp_style b)
      @ (unless_empty (bp_color b) (\<lambda>c. short_member ''color'' (in_quotes c))
         @ snprintf_buf 64 (short_member ''width_mm'' (printf_f2 (bp_width_mm b)))) @ ''}'')
      (CDSL_JSON_OBJECT ((''style'', CDSL_JSON_STRING (bp_style b)) # str_item ''color'' (bp_color b)
        @ [(''width_mm'', number2 (bp_width_mm b))]))"
    by (simp add: in_quotes_quoted c_text_def)
  from piece_short [OF this assms(2)] False show ?thesis
    by (simp add: json_append_border_def border_items_def unless_empty_def)
qed

lemma reads_padding:
  assumes "cell_props_fit p" and "Suc d < CDSL_JSON_MAX_DEPTH"
  shows "reads_as d (padding_text p)
    (box_value (cp_padding_top_mm p) (cp_padding_bottom_mm p) (cp_padding_left_mm p) (cp_padding_right_mm p))"
  using reads_list [of d "[printf_f1 (cp_padding_top_mm p), printf_f1 (cp_padding_bottom_mm p), printf_f1 (cp_padding_left_mm p),
      printf_f1 (cp_padding_right_mm p)]" "[number1 (cp_padding_top_mm p), number1 (cp_padding_bottom_mm p),
      number1 (cp_padding_left_mm p), number1 (cp_padding_right_mm p)]" "'',''" "[]" "[]"] assms
  by (simp add: padding_text_def box_value_def padded_self reads_number1 cell_props_fit_def)

lemma piece_cell_props:
  assumes "cell_props_fit p" and "Suc d < CDSL_JSON_MAX_DEPTH"
  shows "piece d (json_append_cell_props p) (cell_props_items p)"
proof -
  have d: "d < CDSL_JSON_MAX_DEPTH" using assms(2) by simp
  have "length (padding_text p) \<le> 70"
    using assms(1) printf_f1_decimal(2) [of "cp_padding_top_mm p"] printf_f1_decimal(2) [of "cp_padding_bottom_mm p"]
      printf_f1_decimal(2) [of "cp_padding_left_mm p"] printf_f1_decimal(2) [of "cp_padding_right_mm p"]
    by (simp add: padding_text_def cell_props_fit_def)
  then have b: "snprintf_buf 256 (short_member ''padding_mm'' (padding_text p)) = short_member ''padding_mm'' (padding_text p)"
    by (intro snprintf_fits) (simp add: member_lengths char_code_def)
  show ?thesis
    unfolding json_append_cell_props_def cell_props_items_def b
    by (intro piece_rules piece_border reads_rules reads_padding assms d)
      (use assms(1) in \<open>auto simp: cell_props_fit_def c_text_def\<close>)
qed

lemma reads_members:
  assumes "reads_as (Suc d) vs v" and "c_text k" and "spaces w1" and "spaces w2" and "spaces w3" and "piece (Suc d) p its"
    and "Suc d < CDSL_JSON_MAX_DEPTH"
  shows "reads_as d (''{'' @ w1 @ in_quotes k @ '':'' @ w2 @ vs @ p @ w3 @ ''}'') (CDSL_JSON_OBJECT ((k, v) # its))"
proof -
  have "reads_more (Suc d) (p @ w3) (its @ [])"
    using assms(6) reads_more_end [OF assms(5), of "Suc d"] unfolding piece_def by blast
  from reads_object [OF assms(1-4) this assms(7)] show ?thesis by (simp add: in_quotes_quoted)
qed

text \<open>Runs of text.\<close>

lemma padded_text_block:
  assumes "text_block_fits tb" and "Suc (Suc d) < CDSL_JSON_MAX_DEPTH"
  shows "padded d (text_block_json tb) (text_block_value tb)"
proof -
  have d: "Suc d < CDSL_JSON_MAX_DEPTH" using assms(2) by simp
  note fit = assms(1) [unfolded text_block_fits_def]
  let ?box = "box_text (tb_bbox_x_mm tb) (tb_bbox_y_mm tb) (tb_bbox_w_mm tb) (tb_bbox_h_mm tb)"
  have b: "snprintf_buf 128 (line_member 12 ''bbox_mm'' ?box) = line_member 12 ''bbox_mm'' ?box"
    using fit box_length [of "tb_bbox_x_mm tb" "tb_bbox_y_mm tb" "tb_bbox_w_mm tb" "tb_bbox_h_mm tb"]
    by (intro snprintf_fits) (simp add: member_lengths char_code_def)
  have "piece (Suc d) ([CHR 0x0A] @ json_append_text_props (tb_props tb)
      @ unless_empty (tb_hyperlink_url tb) (\<lambda>s. line_member 12 ''hyperlink_url'' (in_quotes s)) @ line_member 12 ''bbox_mm'' ?box)
      ([] @ text_props_items (tb_props tb) @ str_item ''hyperlink_url'' (tb_hyperlink_url tb)
       @ [(''bbox_mm'', box_value (tb_bbox_x_mm tb) (tb_bbox_y_mm tb) (tb_bbox_w_mm tb) (tb_bbox_h_mm tb))])"
    by (intro piece_rules piece_spaces piece_text_props reads_rules d assms(2)) (use fit in \<open>simp_all add: c_text_def\<close>)
  from reads_members [OF reads_quotes [OF d, of "tb_text tb"] _ _ _ _ this d, of "''text''"
      "[CHR 0x0A] @ gap 12" "'' ''" "gap 10"]
  have "reads_as d (''{'' @ ([CHR 0x0A] @ gap 12) @ in_quotes ''text'' @ '':'' @ '' '' @ in_quotes (tb_text tb)
      @ ([CHR 0x0A] @ json_append_text_props (tb_props tb)
      @ unless_empty (tb_hyperlink_url tb) (\<lambda>s. line_member 12 ''hyperlink_url'' (in_quotes s)) @ line_member 12 ''bbox_mm'' ?box)
      @ gap 10 @ ''}'') (text_block_value tb)"
    using fit unfolding text_block_value_def by (simp add: c_text_def)
  from padded_spaces [OF _ this, of "gap 10"] show ?thesis
    by (simp add: text_block_json_def b text_open_def)
qed

lemma padded_cell_block:
  assumes "text_block_fits tb" and "Suc d < CDSL_JSON_MAX_DEPTH"
  shows "padded d (cell_block_json tb) (cell_block_value tb)"
proof -
  note fit = assms(1) [unfolded text_block_fits_def]
  have "piece (Suc d) ([CHR 0x0A] @ json_append_text_props (tb_props tb)) ([] @ text_props_items (tb_props tb))"
    by (intro piece_rules piece_spaces piece_text_props assms(2)) (use fit in simp_all)
  from reads_members [OF reads_quotes [OF assms(2), of "tb_text tb"] _ _ _ _ this assms(2), of "''text''"
      "[CHR 0x0A] @ gap 12" "'' ''" "gap 10"]
  have "reads_as d (''{'' @ ([CHR 0x0A] @ gap 12) @ in_quotes ''text'' @ '':'' @ '' '' @ in_quotes (tb_text tb)
      @ ([CHR 0x0A] @ json_append_text_props (tb_props tb)) @ gap 10 @ ''}'') (cell_block_value tb)"
    using fit unfolding cell_block_value_def by (simp add: c_text_def)
  from padded_spaces [OF _ this, of "gap 10"] show ?thesis
    by (simp add: cell_block_json_def text_open_def)
qed

lemma all_padded: "(\<And>x. x \<in> set xs \<Longrightarrow> padded d (f x) (g x)) \<Longrightarrow> list_all2 (padded d) (map f xs) (map g xs)"
  by (simp add: list_all2_conv_all_nth)

lemma plain_text_fits: "list_all text_block_fits tbs \<Longrightarrow> c_text (plain_text tbs)"
  by (induction tbs) (simp_all add: plain_text_def c_text_def text_block_fits_def)

lemma piece_paragraph:
  assumes "block_fits b" and "Suc (Suc (Suc d)) < CDSL_JSON_MAX_DEPTH"
  shows "piece d (paragraph_json b)
    ([(''content'', CDSL_JSON_STRING (plain_text (cb_text_blocks b)))] @ para_props_items (cb_para_props b)
     @ [(''text_blocks'', CDSL_JSON_ARRAY (map text_block_value (cb_text_blocks b)))])"
proof -
  have d: "d < CDSL_JSON_MAX_DEPTH" "Suc d < CDSL_JSON_MAX_DEPTH" using assms(2) by simp_all
  have fit: "list_all text_block_fits (cb_text_blocks b)" "para_props_fit (cb_para_props b)"
    using assms(1) by (simp_all add: block_fits_def)
  have "list_all2 (padded (Suc d)) (map text_block_json (cb_text_blocks b)) (map text_block_value (cb_text_blocks b))"
    using fit(1) assms(2) by (intro all_padded padded_text_block) (auto simp: list_all_iff)
  from reads_list [OF this _ _ _ d(2), of "'','' @ [CHR 0x0A]" "[CHR 0x0A]" "[CHR 0x0A] @ gap 6"]
  have "reads_as d (''['' @ [CHR 0x0A] @ separated ('','' @ [CHR 0x0A]) (map text_block_json (cb_text_blocks b))
      @ [CHR 0x0A] @ gap 6 @ '']'') (CDSL_JSON_ARRAY (map text_block_value (cb_text_blocks b)))"
    by simp
  then show ?thesis
    unfolding paragraph_json_def
    by (intro piece_rules piece_para_props reads_rules d fit plain_text_fits) (simp_all add: c_text_def)
qed

text \<open>Tables.\<close>

lemma reads_cell:
  assumes "cell_fits c" and "Suc (Suc (Suc d)) < CDSL_JSON_MAX_DEPTH"
  shows "reads_as d (cell_json c) (cell_value c)"
proof -
  have d: "Suc d < CDSL_JSON_MAX_DEPTH" "Suc (Suc d) < CDSL_JSON_MAX_DEPTH" using assms(2) by simp_all
  have fit: "list_all text_block_fits (tc_text_blocks c)" "cell_props_fit (tc_props c)"
    using assms(1) by (simp_all add: cell_fits_def)
  have "list_all2 (padded (Suc (Suc d))) (map cell_block_json (tc_text_blocks c)) (map cell_block_value (tc_text_blocks c))"
    using fit(1) assms(2) by (intro all_padded padded_cell_block) (auto simp: list_all_iff)
  from reads_list [OF this _ _ _ d(2), of "'','' @ [CHR 0x0A]" "[CHR 0x0A]" "[]"]
  have blocks: "reads_as (Suc d) (''['' @ [CHR 0x0A] @ separated ('','' @ [CHR 0x0A]) (map cell_block_json (tc_text_blocks c)) @ '']'')
      (CDSL_JSON_ARRAY (map cell_block_value (tc_text_blocks c)))" by simp
  have "piece (Suc d) (short_member ''rowspan'' (dec_of_int (sint (tc_rowspan c))) @ json_append_cell_props (tc_props c)
      @ short_member ''content'' (in_quotes (plain_text (tc_text_blocks c)))
      @ short_member ''text_blocks'' (''['' @ [CHR 0x0A] @ separated ('','' @ [CHR 0x0A]) (map cell_block_json (tc_text_blocks c)) @ '']''))
      ([(''rowspan'', integer (sint (tc_rowspan c)))] @ cell_props_items (tc_props c)
       @ [(''content'', CDSL_JSON_STRING (plain_text (tc_text_blocks c)))]
       @ [(''text_blocks'', CDSL_JSON_ARRAY (map cell_block_value (tc_text_blocks c)))])"
    by (intro piece_rules piece_cell_props reads_rules blocks d fit plain_text_fits) (simp_all add: c_text_def)
  from reads_members [OF reads_integer [OF d(1)] _ _ _ _ this d(1), of "''colspan''" "[]" "[]" "[]" "sint (tc_colspan c)"]
  show ?thesis by (simp add: cell_json_def cell_value_def c_text_def)
qed

lemma padded_row:
  assumes "list_all cell_fits (tr_cells r)" and "d + 5 < CDSL_JSON_MAX_DEPTH"
  shows "padded d (row_json r) (row_value r)"
proof -
  have d: "Suc d < CDSL_JSON_MAX_DEPTH" "Suc (Suc d) < CDSL_JSON_MAX_DEPTH" using assms(2) by simp_all
  have "list_all2 (padded (Suc (Suc d))) (map cell_json (tr_cells r)) (map cell_value (tr_cells r))"
    using assms by (intro all_padded padded_self reads_cell) (auto simp: list_all_iff)
  from reads_list [OF this _ _ _ d(2), of "'',''" "[]" "[]"]
  have "reads_as (Suc d) (''['' @ separated '','' (map cell_json (tr_cells r)) @ '']'') (CDSL_JSON_ARRAY (map cell_value (tr_cells r)))"
    by simp
  from reads_members [OF this _ _ _ _ piece_nil d(1), of "''cells''" "[]" "[]" "[]"]
  have "reads_as d (''{'' @ in_quotes ''cells'' @ '':'' @ ''['' @ separated '','' (map cell_json (tr_cells r)) @ '']'' @ ''}'') (row_value r)"
    by (simp add: row_value_def c_text_def)
  from padded_spaces [OF _ this, of "gap 8"] show ?thesis by (simp add: row_json_def)
qed

lemma piece_table:
  assumes "block_fits b" and "d + 6 < CDSL_JSON_MAX_DEPTH"
  shows "piece d (table_json b)
    (item_if (f64_lt num_0 (ta_width_mm (cb_table_props b))) ''width_mm'' (number1 (ta_width_mm (cb_table_props b)))
     @ str_item ''alignment'' (ta_alignment (cb_table_props b))
     @ item_if (ta_column_widths_mm (cb_table_props b) \<noteq> []) ''column_widths_mm''
         (CDSL_JSON_ARRAY (map number1 (ta_column_widths_mm (cb_table_props b))))
     @ [(''rows'', CDSL_JSON_ARRAY (map row_value (cb_table_rows b)))])"
proof -
  have d: "d < CDSL_JSON_MAX_DEPTH" "Suc d < CDSL_JSON_MAX_DEPTH" using assms(2) by simp_all
  have fit: "measure_ok (ta_width_mm (cb_table_props b))" "c_text (ta_alignment (cb_table_props b))"
    "list_all measure_ok (ta_column_widths_mm (cb_table_props b))" "list_all (\<lambda>r. list_all cell_fits (tr_cells r)) (cb_table_rows b)"
    using assms(1) by (simp_all add: block_fits_def)
  have "list_all2 (padded (Suc d)) (map (\<lambda>w. snprintf_buf 32 (printf_f1 w)) (ta_column_widths_mm (cb_table_props b)))
      (map number1 (ta_column_widths_mm (cb_table_props b)))"
  proof (intro all_padded padded_self)
    fix w assume "w \<in> set (ta_column_widths_mm (cb_table_props b))"
    then have "measure_ok w" using fit(3) by (simp add: list_all_iff)
    then show "reads_as (Suc d) (snprintf_buf 32 (printf_f1 w)) (number1 w)"
      using printf_f1_decimal(2) [of w] d by (simp add: snprintf_fits reads_number1)
  qed
  from reads_list [OF this _ _ _ d(2), of "'',''" "[]" "[]"]
  have widths: "reads_as d (''['' @ separated '','' (map (\<lambda>w. snprintf_buf 32 (printf_f1 w)) (ta_column_widths_mm (cb_table_props b))) @ '']'')
      (CDSL_JSON_ARRAY (map number1 (ta_column_widths_mm (cb_table_props b))))" by simp
  have "list_all2 (padded (Suc d)) (map row_json (cb_table_rows b)) (map row_value (cb_table_rows b))"
    using fit(4) assms(2) by (intro all_padded padded_row) (auto simp: list_all_iff)
  from reads_list [OF this _ _ _ d(2), of "'','' @ [CHR 0x0A]" "[CHR 0x0A]" "[CHR 0x0A] @ gap 6"]
  have rows: "reads_as d (''['' @ [CHR 0x0A] @ separated ('','' @ [CHR 0x0A]) (map row_json (cb_table_rows b))
      @ [CHR 0x0A] @ gap 6 @ '']'') (CDSL_JSON_ARRAY (map row_value (cb_table_rows b)))"
    by simp
  show ?thesis
    unfolding table_json_def
    by (intro piece_rules number_pieces reads_rules widths rows d fit) (simp_all add: c_text_def char_code_def)
qed

text \<open>Images: what follows the comma behind the name.\<close>

lemma piece_reads: "piece d p its \<Longrightarrow> spaces w \<Longrightarrow> reads_more d (p @ w) its"
  using reads_more_end [of w d] unfolding piece_def by (metis append_Nil2)

lemma image_tail:
  assumes "c_text s" and "json_escape s = s" and "d < CDSL_JSON_MAX_DEPTH"
  shows "reads_more d ('','' @ [CHR 0x0A] @ unless_empty s (\<lambda>s. gap 6 @ in_quotes ''data_base64'' @ '': '' @ [CHR 0x22] @ s @ [CHR 0x22])
      @ [CHR 0x0A] @ gap 4) (str_item ''data_base64'' s)"
proof (cases "s = []")
  case True
  then show ?thesis using reads_more_comma [of "[CHR 0x0A, CHR 0x0A] @ gap 4" d] by (simp add: unless_empty_def str_item_def)
next
  case False
  have "piece d (next_member 6 ''data_base64'' (in_quotes s)) [(''data_base64'', CDSL_JSON_STRING s)]"
    by (intro piece_next reads_quotes assms) (simp add: c_text_def)
  from piece_reads [OF this, of "[CHR 0x0A] @ gap 4"] False assms(2) show ?thesis
    by (simp add: unless_empty_def str_item_def next_member_def in_quotes_def)
qed

lemma reads_image:
  assumes "block_fits b" and "cb_type b = IMAGE" and "d < CDSL_JSON_MAX_DEPTH"
  shows "reads_more d (type_json b @ [CHR 0x0A] @ gap 4) (type_items b)"
proof -
  have fit: "c_text (cb_image_name b)" "c_text (cb_anchoring b)" "c_text (cb_image_base64 b)"
    "json_escape (cb_image_base64 b) = cb_image_base64 b" using assms(1) by (simp_all add: block_fits_def)
  note tail = image_tail [OF fit(3,4) assms(3)]
  have "piece d (next_member 6 ''image_name'' (in_quotes (cb_image_name b))
      @ unless_empty (cb_anchoring b) (\<lambda>s. next_member 6 ''anchoring'' (in_quotes s)))
    ([(''image_name'', CDSL_JSON_STRING (cb_image_name b))] @ str_item ''anchoring'' (cb_anchoring b))"
    by (intro piece_rules reads_rules assms(3) fit) (simp_all add: c_text_def)
  from this [unfolded piece_def, rule_format, OF tail] show ?thesis
    by (cases "cb_anchoring b = []")
      (simp_all add: type_json_def type_items_def assms(2) image_json_def unless_empty_def str_item_def next_member_def)
qed

lemma reads_type:
  assumes "block_fits b" and "d + 6 < CDSL_JSON_MAX_DEPTH"
  shows "reads_more d (type_json b @ [CHR 0x0A] @ gap 4) (type_items b)"
proof (cases "cb_type b = IMAGE")
  case True
  then show ?thesis using assms by (intro reads_image) simp_all
next
  case False
  have d: "d < CDSL_JSON_MAX_DEPTH" "Suc (Suc (Suc d)) < CDSL_JSON_MAX_DEPTH" using assms(2) by simp_all
  have note_text: "c_text (case cb_text_blocks b of [] \<Rightarrow> [] | tb # tbs \<Rightarrow> tb_text tb)"
    using assms(1) by (cases "cb_text_blocks b") (simp_all add: block_fits_def text_block_fits_def c_text_def)
  have fit: "c_text (cb_footnote_id b)" "c_text (cb_formula_mathml b)" using assms(1) by (simp_all add: block_fits_def)
  have foot: "piece d (footnote_json b) ([(''footnote_id'', CDSL_JSON_STRING (cb_footnote_id b))]
      @ [(''content'', CDSL_JSON_STRING (case cb_text_blocks b of [] \<Rightarrow> [] | tb # tbs \<Rightarrow> tb_text tb))])"
    unfolding footnote_json_def by (intro piece_rules reads_rules d fit note_text) (simp_all add: c_text_def)
  have math: "piece d (next_member 6 ''formula_mathml'' (in_quotes (cb_formula_mathml b)))
      [(''formula_mathml'', CDSL_JSON_STRING (cb_formula_mathml b))]"
    by (intro piece_rules reads_rules d fit) (simp_all add: c_text_def)
  have "piece d (type_json b) (type_items b)"
    using False foot math piece_paragraph [OF assms(1) d(2)] piece_table [OF assms]
    by (cases "cb_type b") (simp_all add: type_json_def type_items_def piece_nil)
  then show ?thesis by (rule piece_reads) simp
qed

text \<open>The position of a block.\<close>

lemma sint_length: "length (dec_of_int (sint (i :: i32))) \<le> 11"
  by (rule dec_i32_length [OF in_i32_sint])

lemma position_fits:
  assumes "block_fits b"
  shows "snprintf_buf 256 (position_json b) = position_json b"
proof (rule snprintf_fits)
  have "length (box_text (cb_bbox_x_mm b) (cb_bbox_y_mm b) (cb_bbox_w_mm b) (cb_bbox_h_mm b)) \<le> 72"
    using assms by (intro box_length) (simp add: block_fits_def)
  then show "length (position_json b) < 256"
    using sint_length [of "cb_page_index b"] sint_length [of "cb_page_number b"] sint_length [of "cb_indent_level b"]
    by (simp add: position_json_def member_lengths key_length char_code_def)
qed

lemma padded_block:
  assumes "block_fits b" and "d + 7 < CDSL_JSON_MAX_DEPTH"
  shows "padded d (json_append_block b) (block_value b)"
proof -
  have d: "Suc d < CDSL_JSON_MAX_DEPTH" "Suc (Suc d) < CDSL_JSON_MAX_DEPTH" using assms(2) by simp_all
  have fit: "c_text (cb_style_name b)" "c_text (type_name (cb_type b))"
    "list_all measure_ok [cb_bbox_x_mm b, cb_bbox_y_mm b, cb_bbox_w_mm b, cb_bbox_h_mm b]"
    using assms(1) by (simp_all add: block_fits_def) (cases "cb_type b"; simp add: c_text_def)
  have t: "reads_more (Suc d) (type_json b @ [CHR 0x0A] @ gap 4) (type_items b)" using assms by (intro reads_type) simp_all
  have "piece (Suc d) (next_member 6 ''page_index'' (dec_of_int (sint (cb_page_index b)))
      @ next_member 6 ''page_number'' (dec_of_int (sint (cb_page_number b)))
      @ next_member 6 ''indent_level'' (dec_of_int (sint (cb_indent_level b)))
      @ next_member 6 ''bbox_mm'' (box_text (cb_bbox_x_mm b) (cb_bbox_y_mm b) (cb_bbox_w_mm b) (cb_bbox_h_mm b))
      @ unless_empty (cb_style_name b) (\<lambda>s. next_member 6 ''style'' (in_quotes s)))
    ([(''page_index'', integer (sint (cb_page_index b)))] @ [(''page_number'', integer (sint (cb_page_number b)))]
      @ [(''indent_level'', integer (sint (cb_indent_level b)))]
      @ [(''bbox_mm'', box_value (cb_bbox_x_mm b) (cb_bbox_y_mm b) (cb_bbox_w_mm b) (cb_bbox_h_mm b))]
      @ str_item ''style'' (cb_style_name b))"
    by (intro piece_rules reads_rules d fit) (simp_all add: c_text_def)
  from reads_object [OF reads_quotes [OF d(1) fit(2)] _ _ _ this [unfolded piece_def, rule_format, OF t] d(1),
      of "''type''" "[CHR 0x0A] @ gap 6" "'' ''"]
  have "reads_as d (''{'' @ [CHR 0x0A] @ gap 6 @ in_quotes ''type'' @ '': '' @ in_quotes (type_name (cb_type b)) @ '','' @ [CHR 0x0A]
      @ position_json b @ unless_empty (cb_style_name b) (\<lambda>s. next_member 6 ''style'' (in_quotes s))
      @ type_json b @ [CHR 0x0A] @ gap 4 @ ''}'') (block_value b)"
    by (simp add: block_value_def position_json_def next_member_def in_quotes_quoted c_text_def)
  from padded_spaces [OF _ this, of "gap 4"] show ?thesis
    by (simp add: json_append_block_def position_fits [OF assms(1)])
qed

text \<open>Documents.\<close>

lemma counts_fit:
  assumes "page_fits page"
  shows "snprintf_buf 512 (counts_json page k) = counts_json page k"
proof (rule snprintf_fits)
  have "length (box_text (pg_margin_top_mm page) (pg_margin_bottom_mm page) (pg_margin_left_mm page) (pg_margin_right_mm page)) \<le> 72"
    using assms by (intro box_length) (simp add: page_fits_def)
  moreover have "length (printf_f1 (pg_page_width_mm page)) \<le> 16" "length (printf_f1 (pg_page_height_mm page)) \<le> 16"
    using assms by (simp_all add: page_fits_def printf_f1_decimal(2))
  ultimately show "length (counts_json page k) < 512"
    using sint_length [of "pg_page_count page"] sint_length [of "pg_word_count page"] sint_length [of "pg_character_count page"]
      sint_length [of "of_nat k"]
    by (simp add: counts_json_def member_lengths key_length char_code_def)
qed

lemma reads_metadata:
  assumes "page_fits page" and "Suc (Suc d) < CDSL_JSON_MAX_DEPTH"
  shows "reads_as d (''{'' @ [CHR 0x0A] @ counts_json page k
      @ unless_empty (pg_title page) (\<lambda>s. next_member 6 ''title'' (in_quotes s))
      @ unless_empty (pg_creator page) (\<lambda>s. next_member 6 ''creator'' (in_quotes s))
      @ unless_empty (pg_created page) (\<lambda>s. next_member 6 ''created'' (in_quotes s))
      @ unless_empty (pg_modified page) (\<lambda>s. next_member 6 ''modified'' (in_quotes s))
      @ only_if (pg_bookmarks page \<noteq> [])
          (next_member 6 ''bookmarks'' (''['' @ separated '','' (map in_quotes (pg_bookmarks page)) @ '']''))
      @ [CHR 0x0A] @ ''    '' @ ''}'')
    (metadata_value page k)"
proof -
  have d: "Suc d < CDSL_JSON_MAX_DEPTH" using assms(2) by simp
  have fit: "c_text (pg_title page)" "c_text (pg_creator page)" "c_text (pg_created page)" "c_text (pg_modified page)"
    "list_all c_text (pg_bookmarks page)" "measure_ok (pg_page_width_mm page)" "measure_ok (pg_page_height_mm page)"
    "list_all measure_ok [pg_margin_top_mm page, pg_margin_bottom_mm page, pg_margin_left_mm page, pg_margin_right_mm page]"
    using assms(1) by (simp_all add: page_fits_def)
  have "list_all2 (padded (Suc (Suc d))) (map in_quotes (pg_bookmarks page)) (map CDSL_JSON_STRING (pg_bookmarks page))"
    using fit(5) assms(2) by (intro all_padded padded_self reads_quotes) (auto simp: list_all_iff)
  from reads_list [OF this _ _ _ assms(2), of "'',''" "[]" "[]"]
  have marks: "reads_as (Suc d) (''['' @ separated '','' (map in_quotes (pg_bookmarks page)) @ '']'')
      (CDSL_JSON_ARRAY (map CDSL_JSON_STRING (pg_bookmarks page)))" by simp
  have size: "reads_as (Suc d) (''['' @ printf_f1 (pg_page_width_mm page) @ '', '' @ printf_f1 (pg_page_height_mm page) @ '']'')
      (CDSL_JSON_ARRAY [number1 (pg_page_width_mm page), number1 (pg_page_height_mm page)])"
    using reads_list [of "Suc d" "[printf_f1 (pg_page_width_mm page), printf_f1 (pg_page_height_mm page)]"
        "[number1 (pg_page_width_mm page), number1 (pg_page_height_mm page)]" "'', ''" "[]" "[]"] assms(2) fit(6,7)
    by (simp add: padded_self reads_number1)
  have "piece (Suc d) (next_member 6 ''paragraph_count'' (dec_of_int (sint (of_nat k :: i32)))
      @ next_member 6 ''word_count'' (dec_of_int (sint (pg_word_count page)))
      @ next_member 6 ''character_count'' (dec_of_int (sint (pg_character_count page)))
      @ next_member 6 ''page_size_mm'' (''['' @ printf_f1 (pg_page_width_mm page) @ '', '' @ printf_f1 (pg_page_height_mm page) @ '']'')
      @ next_member 6 ''margins_mm''
          (box_text (pg_margin_top_mm page) (pg_margin_bottom_mm page) (pg_margin_left_mm page) (pg_margin_right_mm page))
      @ unless_empty (pg_title page) (\<lambda>s. next_member 6 ''title'' (in_quotes s))
      @ unless_empty (pg_creator page) (\<lambda>s. next_member 6 ''creator'' (in_quotes s))
      @ unless_empty (pg_created page) (\<lambda>s. next_member 6 ''created'' (in_quotes s))
      @ unless_empty (pg_modified page) (\<lambda>s. next_member 6 ''modified'' (in_quotes s))
      @ only_if (pg_bookmarks page \<noteq> [])
          (next_member 6 ''bookmarks'' (''['' @ separated '','' (map in_quotes (pg_bookmarks page)) @ '']'')))
    ([(''paragraph_count'', integer (sint (of_nat k :: i32)))] @ [(''word_count'', integer (sint (pg_word_count page)))]
      @ [(''character_count'', integer (sint (pg_character_count page)))]
      @ [(''page_size_mm'', CDSL_JSON_ARRAY [number1 (pg_page_width_mm page), number1 (pg_page_height_mm page)])]
      @ [(''margins_mm'', box_value (pg_margin_top_mm page) (pg_margin_bottom_mm page) (pg_margin_left_mm page) (pg_margin_right_mm page))]
      @ str_item ''title'' (pg_title page) @ str_item ''creator'' (pg_creator page)
      @ str_item ''created'' (pg_created page) @ str_item ''modified'' (pg_modified page)
      @ item_if (pg_bookmarks page \<noteq> []) ''bookmarks'' (CDSL_JSON_ARRAY (map CDSL_JSON_STRING (pg_bookmarks page))))"
    by (intro piece_rules reads_rules d fit marks size assms(2)) (simp_all add: c_text_def)
  from reads_members [OF reads_integer [OF d] _ _ _ _ this d, of "''page_count''" "[CHR 0x0A] @ gap 6" "'' ''" "[CHR 0x0A] @ ''    ''"]
  show ?thesis by (simp add: counts_json_def metadata_value_def c_text_def)
qed

definition document_body :: "doc \<Rightarrow> string" where
  "document_body d =
     (case d of (page, blocks) \<Rightarrow>
        ''{'' @ [CHR 0x0A] @ gap 4 @ in_quotes ''metadata'' @ '': {'' @ [CHR 0x0A] @ counts_json page (length blocks)
        @ unless_empty (pg_title page) (\<lambda>s. next_member 6 ''title'' (in_quotes s))
        @ unless_empty (pg_creator page) (\<lambda>s. next_member 6 ''creator'' (in_quotes s))
        @ unless_empty (pg_created page) (\<lambda>s. next_member 6 ''created'' (in_quotes s))
        @ unless_empty (pg_modified page) (\<lambda>s. next_member 6 ''modified'' (in_quotes s))
        @ only_if (pg_bookmarks page \<noteq> [])
            (next_member 6 ''bookmarks'' (''['' @ separated '','' (map in_quotes (pg_bookmarks page)) @ '']''))
        @ [CHR 0x0A] @ ''    }'' @ next_member 4 ''elements''
            (''['' @ [CHR 0x0A] @ separated ('','' @ [CHR 0x0A]) (map json_append_block blocks)
             @ [CHR 0x0A] @ ''    ]'')
        @ [CHR 0x0A] @ ''  }'')"

lemma document_json_body:
  "page_fits page \<Longrightarrow> document_json (page, blocks)
    = ''{'' @ [CHR 0x0A] @ ''  '' @ in_quotes ''document'' @ '': '' @ document_body (page, blocks) @ [CHR 0x0A] @ ''}'' @ [CHR 0x0A]"
  by (simp add: document_json_def document_body_def counts_fit)

lemma document_json_read:
  assumes "page_fits page" and "list_all block_fits blocks"
  shows "cdsl_json_parse (2 * length (document_json (page, blocks)) + 2) (Some (document_json (page, blocks)))
    = Some (Some (document_value (page, blocks)))"
proof -
  have "list_all2 (padded (Suc (Suc 0 + 1))) (map json_append_block blocks) (map block_value blocks)"
    using assms(2) by (intro all_padded padded_block) (auto simp: list_all_iff CDSL_JSON_MAX_DEPTH_def)
  from reads_list [OF this, of "'','' @ [CHR 0x0A]" "[CHR 0x0A]" "[CHR 0x0A] @ ''    ''"]
  have els: "reads_as 2 (''['' @ [CHR 0x0A] @ separated ('','' @ [CHR 0x0A]) (map json_append_block blocks)
      @ [CHR 0x0A] @ ''    ]'') (CDSL_JSON_ARRAY (map block_value blocks))"
    by (simp add: CDSL_JSON_MAX_DEPTH_def numeral_2_eq_2)
  from piece_next [OF this, of "''elements''" 4]
  have p: "piece 2 (next_member 4 ''elements'' (''['' @ [CHR 0x0A] @ separated ('','' @ [CHR 0x0A]) (map json_append_block blocks)
      @ [CHR 0x0A] @ ''    ]'')) [(''elements'', CDSL_JSON_ARRAY (map block_value blocks))]" by (simp add: c_text_def)
  have m: "Suc (Suc 2) < CDSL_JSON_MAX_DEPTH" by (simp add: CDSL_JSON_MAX_DEPTH_def)
  note meta = reads_metadata [OF assms(1) m, of "length blocks"]
  have d: "Suc 1 < CDSL_JSON_MAX_DEPTH" "Suc 0 < CDSL_JSON_MAX_DEPTH" by (simp_all add: CDSL_JSON_MAX_DEPTH_def)
  from reads_members [OF meta [folded one_add_one, folded Suc_eq_plus1] _ _ _ _ p [folded one_add_one, folded Suc_eq_plus1] d(1),
      of "''metadata''" "[CHR 0x0A] @ gap 4" "'' ''" "[CHR 0x0A] @ ''  ''"]
  have "reads_as 1 (document_body (page, blocks)) (CDSL_JSON_OBJECT
      [(''metadata'', metadata_value page (length blocks)), (''elements'', CDSL_JSON_ARRAY (map block_value blocks))])"
    by (simp add: document_body_def c_text_def)
  then have "reads_as (Suc 0) (document_body (page, blocks)) (CDSL_JSON_OBJECT
      [(''metadata'', metadata_value page (length blocks)), (''elements'', CDSL_JSON_ARRAY (map block_value blocks))])" by simp
  from reads_members [OF this _ _ _ _ piece_nil d(2), of "''document''" "[CHR 0x0A] @ ''  ''" "'' ''" "[CHR 0x0A]"]
  have "reads_as 0 (''{'' @ [CHR 0x0A] @ ''  '' @ in_quotes ''document'' @ '': '' @ document_body (page, blocks) @ [CHR 0x0A] @ ''}'')
      (document_value (page, blocks))"
    by (simp add: document_value_def c_text_def)
  then show ?thesis
    by (simp add: reads_as_def cdsl_json_parse_def document_json_body assms(1) after_value_def)
qed

subsection \<open>The text that is read back\<close>

text \<open>What is not written: the text of a page header or footer. What is written too often: a comma.\<close>

lemma header_text_not_written:
  "cb_type b \<in> {HEADER, FOOTER} \<Longrightarrow> json_append_block (b\<lparr>cb_text_blocks := tbs\<rparr>) = json_append_block b"
  by (cases "cb_type b") (simp_all add: json_append_block_def type_json_def position_json_def)

lemma image_ends_with_comma:
  "cb_image_base64 b = [] \<Longrightarrow> \<exists>t. image_json b = t @ '','' @ [CHR 0x0A]"
  by (cases "cb_anchoring b = []") (auto simp: image_json_def unless_empty_def)

text \<open>An exponent below 1062 makes a double finite and small enough.\<close>

lemma measure_ok_expo:
  assumes "f64_expo f \<le> 1061"
  shows "measure_ok f"
proof -
  have "f64_frac f < 2 ^ 52" by (simp add: f64_frac_def)
  then have "f64_mag f \<le> 2 ^ 53 * 2 ^ (f64_expo f - 1)"
    by (auto simp: f64_mag_def intro!: mult_le_mono)
  also have "\<dots> \<le> 2 ^ 53 * 2 ^ 1060" using assms by (intro mult_le_mono power_increasing) auto
  also have "\<dots> < 10 ^ 12 * f64_unit" by (simp add: f64_unit_def)
  finally show ?thesis using assms by (simp add: measure_ok_def special_double_def f64_isnan_def f64_isinf_def)
qed

text \<open>
  Claim C17. The JSON text that is written for a document is read back by the JSON parser as the document's value,
  whatever its strings hold: every member once and in order, the optional ones when they are there, no text cut by
  its buffer when the lengths are below \<open>10^12\<close> millimetres, and the comma behind an image no obstacle.
\<close>

theorem document_json_roundtrip:
  assumes "page_fits page" and "list_all block_fits blocks"
  shows "cdsl_json_parse (2 * length (document_json (page, blocks)) + 2) (Some (document_json (page, blocks)))
    = Some (Some (document_value (page, blocks)))"
  using assms by (rule document_json_read)

definition json_sample :: doc where
  "json_sample =
     (page_info_new\<lparr>pg_page_width_mm := 0x406A400000000000, pg_title := [CHR 0x22, CHR 0x0A], pg_bookmarks := [''one'']\<rparr>,
      [(block_new PARAGRAPH)\<lparr>cb_style_name := ''P1'', cb_text_blocks := [text_block text_props_new [CHR ''a'', CHR 0x5C]]\<rparr>,
       (block_new TABLE)\<lparr>cb_table_rows := [\<lparr>tr_cells = [table_cell_new], tr_background_color = []\<rparr>]\<rparr>,
       (block_new IMAGE)\<lparr>cb_image_name := ''logo.png''\<rparr>])"

lemma sample_measures: "measure_ok num_0" "measure_ok 0x406A400000000000"
  by (rule measure_ok_expo, simp add: num_0_def f64_zero_def f64_expo_def)+

lemma document_json_roundtrip_witness:
  "cdsl_json_parse (2 * length (document_json json_sample) + 2) (Some (document_json json_sample))
    = Some (Some (document_value json_sample))"
proof -
  have "page_fits (fst json_sample)"
    by (simp add: json_sample_def page_fits_def page_info_new_def sample_measures c_text_def)
  moreover have "list_all block_fits (snd json_sample)"
    by (simp add: json_sample_def block_fits_def block_new_def para_props_fit_def para_props_new_def table_props_new_def
        text_block_fits_def text_block_def text_props_fit_def text_props_new_def cell_fits_def table_cell_new_def
        cell_props_fit_def cell_props_new_def border_fits_def border_props_new_def json_escape_def in_i32_def
        sample_measures c_text_def)
  ultimately have "cdsl_json_parse (2 * length (document_json (fst json_sample, snd json_sample)) + 2)
      (Some (document_json (fst json_sample, snd json_sample))) = Some (Some (document_value (fst json_sample, snd json_sample)))"
    by (rule document_json_roundtrip)
  then show ?thesis by simp
qed

end
