(* ===== verification/Cdsl_Doc_Position.thy ===== *)
theory Cdsl_Doc_Position
  imports Cdsl_Doc_Json Cdsl_Json_Total
begin

section \<open>Positions of blocks (\<open>src/doc/doc_parse.cpp\<close>)\<close>

text \<open>
  The positions come from LibreOffice, which is a parameter: what it answers and which callbacks it makes
  during a call. Lengths are in twips.
\<close>

subsection \<open>Rectangles\<close>

record TwipRect =
  tw_x :: f64
  tw_y :: f64
  tw_w :: f64
  tw_h :: f64

definition skip_commas :: "string \<Rightarrow> string" where
  "skip_commas p = dropWhile (\<lambda>c. c = CHR '','' \<or> c = CHR '' '') p"

definition skip_separators :: "string \<Rightarrow> string" where
  "skip_separators p = dropWhile (\<lambda>c. c = CHR '','' \<or> c = CHR '' '' \<or> c = CHR '';'') p"

text \<open>Four numbers and the text behind them.\<close>

definition rect_numbers :: "string \<Rightarrow> (TwipRect \<times> string) option" where
  "rect_numbers p =
     (case c_strtod p of None \<Rightarrow> None
      | Some (x, p1) \<Rightarrow> (case c_strtod (skip_commas p1) of None \<Rightarrow> None
      | Some (y, p2) \<Rightarrow> (case c_strtod (skip_commas p2) of None \<Rightarrow> None
      | Some (w, p3) \<Rightarrow> (case c_strtod (skip_commas p3) of None \<Rightarrow> None
      | Some (h, p4) \<Rightarrow> Some (\<lparr>tw_x = x, tw_y = y, tw_w = w, tw_h = h\<rparr>, skip_separators p4)))))"

text \<open>The text behind the next semicolon.\<close>

definition after_semicolon :: "string \<Rightarrow> string option" where
  "after_semicolon p =
     (case dropWhile (\<lambda>c. c \<noteq> CHR '';'') p of [] \<Rightarrow> None | c # q \<Rightarrow> Some (dropWhile (\<lambda>c. c = CHR '' '') q))"

lemma rect_numbers_shorter: "rect_numbers p = Some (r, q) \<Longrightarrow> length q < length p"
proof -
  assume "rect_numbers p = Some (r, q)"
  then obtain x p1 y p2 w p3 h p4 where "c_strtod p = Some (x, p1)" "c_strtod (skip_commas p1) = Some (y, p2)"
    "c_strtod (skip_commas p2) = Some (w, p3)" "c_strtod (skip_commas p3) = Some (h, p4)" "q = skip_separators p4"
    by (auto simp: rect_numbers_def split: option.splits prod.splits)
  moreover have "length (skip_commas t) \<le> length t" "length (skip_separators t) \<le> length t" for t
    by (simp_all add: skip_commas_def skip_separators_def length_dropWhile_le)
  ultimately show ?thesis using strtod_advances(2) by (metis dual_order.strict_trans2 less_imp_le order.strict_trans)
qed

lemma after_semicolon_shorter: "after_semicolon p = Some q \<Longrightarrow> length q \<le> length p"
  using length_dropWhile_le [of "\<lambda>c. c \<noteq> CHR '';''" p]
  by (auto simp: after_semicolon_def split: list.splits) (metis Suc_leD length_Cons length_dropWhile_le order.trans)

function parse_rects :: "string \<Rightarrow> TwipRect list" where
  "parse_rects p =
     (case rect_numbers p of None \<Rightarrow> []
      | Some (r, q) \<Rightarrow> r # (case after_semicolon q of None \<Rightarrow> [] | Some t \<Rightarrow> parse_rects t))"
  by pat_completeness auto

termination
  by (relation "measure length") (auto dest!: rect_numbers_shorter after_semicolon_shorter)

declare parse_rects.simps [simp del]

definition parse_rect_list :: "string option \<Rightarrow> TwipRect list \<Rightarrow> TwipRect list" where
  "parse_rect_list payload out =
     (case payload of None \<Rightarrow> out | Some p \<Rightarrow> if p = [] then out else out @ parse_rects p)"

subsection \<open>Every second rectangle is lost\<close>

text \<open>The text of rectangles as LibreOffice writes it, of twips as integers.\<close>

definition rect_text :: "int \<times> int \<times> int \<times> int \<Rightarrow> string" where
  "rect_text r = (case r of (x, y, w, h) \<Rightarrow>
     dec_of_int x @ '', '' @ dec_of_int y @ '', '' @ dec_of_int w @ '', '' @ dec_of_int h)"

definition twip_rect :: "int \<times> int \<times> int \<times> int \<Rightarrow> TwipRect" where
  "twip_rect r = (case r of (x, y, w, h) \<Rightarrow>
     \<lparr>tw_x = f64_of_int x, tw_y = f64_of_int y, tw_w = f64_of_int w, tw_h = f64_of_int h\<rparr>)"

fun every_second :: "'a list \<Rightarrow> 'a list" where
  "every_second [] = []"
| "every_second [x] = [x]"
| "every_second (x # y # xs) = x # every_second xs"

lemma twip_digits: "dec_of_int i = decimal (i < 0) (dec_of_nat (nat \<bar>i\<bar>)) []"
  by (simp add: decimal_def dec_of_int_def)

lemma strtod_twip: "number_ends r \<Longrightarrow> c_strtod (dec_of_int i @ r) = Some (f64_of_int i, r)"
  using strtod_decimal [of "dec_of_nat (nat \<bar>i\<bar>)" "[]" r "i < 0"] strtod_decimal [of "dec_of_nat (nat \<bar>i\<bar>)" "[]" "[]" "i < 0"]
    strtod_int [of "[]" i] dec_of_nat_digits [of "nat \<bar>i\<bar>"] dec_of_nat_not_Nil [of "nat \<bar>i\<bar>"]
  unfolding twip_digits [symmetric] by (simp add: ends_value_def number_ends_def)

lemma twip_open: "\<exists>c cs. dec_of_int i = c # cs \<and> (c = CHR ''-'' \<or> c_isdigit c)"
  using dec_of_nat_digits [of "nat \<bar>i\<bar>"] dec_of_nat_not_Nil [of "nat \<bar>i\<bar>"] unfolding twip_digits decimal_def
  by (cases "dec_of_nat (nat \<bar>i\<bar>)"; cases "i < 0") auto

lemma number_ends_mark: "number_ends (CHR '','' # r)" "number_ends (CHR '';'' # r)" "number_ends []"
  by (simp_all add: number_ends_def c_isdigit_def c_tolower_def char_code_def)

lemma skip_number: "skip_commas (CHR '','' # CHR '' '' # dec_of_int i @ r) = dec_of_int i @ r"
  "skip_separators (CHR '';'' # CHR '' '' # dec_of_int i @ r) = dec_of_int i @ r"
proof -
  obtain c cs where "dec_of_int i = c # cs" "c = CHR ''-'' \<or> c_isdigit c" using twip_open by blast
  then show "skip_commas (CHR '','' # CHR '' '' # dec_of_int i @ r) = dec_of_int i @ r"
    "skip_separators (CHR '';'' # CHR '' '' # dec_of_int i @ r) = dec_of_int i @ r"
    by (auto simp: skip_commas_def skip_separators_def c_isdigit_def char_code_def)
qed

lemma rect_numbers_text:
  "number_ends r \<Longrightarrow> rect_numbers (rect_text q @ r) = Some (twip_rect q, skip_separators r)"
  by (cases q) (simp add: rect_text_def twip_rect_def rect_numbers_def strtod_twip number_ends_mark skip_number)

lemma skip_rect: "skip_separators (CHR '';'' # CHR '' '' # rect_text q @ r) = rect_text q @ r"
  by (cases q) (simp add: rect_text_def skip_number)

lemma rect_text_no_mark: "CHR '';'' \<notin> set (rect_text q)"
proof -
  have "CHR '';'' \<notin> set (dec_of_int i)" for i
    using dec_of_nat_digits [of "nat \<bar>i\<bar>"] unfolding twip_digits decimal_def
    by (auto simp: list_all_iff c_isdigit_def char_code_def dest!: bspec)
  then show ?thesis by (cases q) (simp add: rect_text_def)
qed

definition rects_text :: "(int \<times> int \<times> int \<times> int) list \<Rightarrow> string" where
  "rects_text rs = separated ''; '' (map rect_text rs)"

lemma after_semicolon_none: "CHR '';'' \<notin> set p \<Longrightarrow> after_semicolon p = None"
proof -
  assume "CHR '';'' \<notin> set p"
  then have "dropWhile (\<lambda>c. c \<noteq> CHR '';'') p = []" by (auto simp: dropWhile_eq_Nil_conv)
  then show ?thesis by (simp only: after_semicolon_def list.case)
qed

lemma after_semicolon_rect: "after_semicolon (rect_text q @ '';'' @ '' '' @ rect_text q' @ t) = Some (rect_text q' @ t)"
proof -
  have "dropWhile (\<lambda>c. c \<noteq> CHR '';'') (rect_text q @ '';'' @ '' '' @ rect_text q' @ t) = '';'' @ '' '' @ rect_text q' @ t"
    using rect_text_no_mark [of q] by (subst dropWhile_append2) auto
  moreover have "dropWhile (\<lambda>c. c = CHR '' '') (rect_text q' @ t) = rect_text q' @ t"
  proof -
    obtain x r where q: "q' = (x, r)" by (cases q')
    obtain c cs where "dec_of_int x = c # cs" "c = CHR ''-'' \<or> c_isdigit c" using twip_open by blast
    then show ?thesis unfolding q by (cases r) (auto simp: rect_text_def c_isdigit_def char_code_def)
  qed
  ultimately show ?thesis by (simp add: after_semicolon_def)
qed

lemma every_second_parsed: "parse_rects (rects_text rs) = map twip_rect (every_second rs)"
proof (induction rs rule: every_second.induct)
  case 1
  then show ?case
    by (subst parse_rects.simps)
      (simp add: rects_text_def rect_numbers_def c_strtod_def number_body_def lower_prefix_def)
next
  case (2 q)
  then show ?case
    using rect_numbers_text [of "[]" q]
    by (subst parse_rects.simps) (simp add: rects_text_def number_ends_mark skip_separators_def after_semicolon_none)
next
  case (3 q q' rs)
  have step: "rect_numbers (rect_text q @ CHR '';'' # CHR '' '' # t) = Some (twip_rect q, skip_separators (CHR '';'' # CHR '' '' # t))" for t
    by (rule rect_numbers_text [OF number_ends_mark(2)])
  show ?case
  proof (cases rs)
    case Nil
    then show ?thesis
      using skip_rect [of q' "[]"] step [of "rect_text q'"] after_semicolon_none [OF rect_text_no_mark, of q']
      by (subst parse_rects.simps) (simp add: rects_text_def)
  next
    case (Cons r rs')
    obtain t where t: "rects_text rs = rect_text r @ t" using Cons by (cases rs') (auto simp: rects_text_def)
    then have all: "rects_text (q # q' # rs) = rect_text q @ '';'' @ '' '' @ rect_text q' @ '';'' @ '' '' @ rects_text rs"
      using Cons by (simp add: rects_text_def)
    show ?thesis
      unfolding all t using "3.IH" t step [of "rect_text q' @ '';'' @ '' '' @ rect_text r @ t"]
        skip_rect [of q' "'';'' @ '' '' @ rect_text r @ t"] after_semicolon_rect [of q' r t]
      by (subst parse_rects.simps) simp
  qed
qed

subsection \<open>LibreOffice\<close>

text \<open>
  A loaded document: its calls, each with the callbacks it leads to, in their order. \<open>paintTile\<close> gets the position
  and the size of the tile; a callback has a type and a payload.
\<close>

datatype lok_callback =
    LOK_CALLBACK_INVALIDATE_VISIBLE_CURSOR
  | LOK_CALLBACK_TEXT_SELECTION
  | LOK_CALLBACK_STATE_CHANGED
  | LOK_CALLBACK_OTHER

type_synonym lok_event = "lok_callback \<times> string option"

record 'o lok_document =
  lok_paintTile :: "int \<Rightarrow> int \<Rightarrow> int \<Rightarrow> int \<Rightarrow> 'o \<Rightarrow> lok_event list \<times> 'o"
  lok_postUnoCommand :: "string \<Rightarrow> 'o \<Rightarrow> lok_event list \<times> 'o"
  lok_getDocumentSize :: "'o \<Rightarrow> (int \<times> int) \<times> lok_event list \<times> 'o"
  lok_getPartPageRectangles :: "'o \<Rightarrow> string option \<times> lok_event list \<times> 'o"

record CursorCapture =
  cap_x_twip :: f64
  cap_y_twip :: f64
  cap_w_twip :: f64
  cap_h_twip :: f64
  cap_selection :: "TwipRect list"
  cap_updated :: bool
  cap_has_coords :: bool
  cap_logical_page :: i32

definition num_minus_1 :: f64 where "num_minus_1 = 0xBFF0000000000000"

definition cursor_capture_new :: CursorCapture where
  "cursor_capture_new = \<lparr>cap_x_twip = num_minus_1, cap_y_twip = num_minus_1, cap_w_twip = num_0, cap_h_twip = num_0,
     cap_selection = [], cap_updated = False, cap_has_coords = False, cap_logical_page = 0\<rparr>"

definition payload_set :: "string option \<Rightarrow> bool" where
  "payload_set payload \<longleftrightarrow> payload \<noteq> None \<and> payload \<noteq> Some []"

text \<open>A callback about the state carries the number of the page behind its name.\<close>

definition page_number_event :: "string \<Rightarrow> CursorCapture \<Rightarrow> CursorCapture" where
  "page_number_event payload cap =
     (if take 21 payload \<noteq> ''.uno:StatePageNumber='' then cap
      else case dropWhile (\<lambda>c. \<not> c_isdigit c) (drop 21 payload) of
        [] \<Rightarrow> cap
      | c # cs \<Rightarrow> cap\<lparr>cap_logical_page := c_atoi (c # cs)\<rparr>)"

definition cursor_callback :: "lok_event \<Rightarrow> CursorCapture \<Rightarrow> CursorCapture" where
  "cursor_callback ev cap =
     (case ev of (ty, payload) \<Rightarrow>
        (case ty of
           LOK_CALLBACK_INVALIDATE_VISIBLE_CURSOR \<Rightarrow>
             (if \<not> payload_set payload then cap
              else case parse_rect_list payload [] of
                [] \<Rightarrow> cap
              | r # rects \<Rightarrow> cap\<lparr>cap_x_twip := tw_x r, cap_y_twip := tw_y r, cap_w_twip := tw_w r, cap_h_twip := tw_h r,
                    cap_has_coords := True, cap_updated := True\<rparr>)
         | LOK_CALLBACK_TEXT_SELECTION \<Rightarrow>
             (if \<not> payload_set payload then cap
              else cap\<lparr>cap_selection := parse_rect_list payload [], cap_updated := True\<rparr>)
         | LOK_CALLBACK_STATE_CHANGED \<Rightarrow>
             (case payload of None \<Rightarrow> cap | Some p \<Rightarrow> page_number_event p cap)
         | LOK_CALLBACK_OTHER \<Rightarrow> cap))"

text \<open>Calls, with the capture that the callbacks write to.\<close>

type_synonym 'o cursor = "CursorCapture \<times> 'o"

definition run_callbacks :: "lok_event list \<Rightarrow> CursorCapture \<Rightarrow> CursorCapture" where
  "run_callbacks evs cap = fold cursor_callback evs cap"

definition paint :: "'o lok_document \<Rightarrow> int \<Rightarrow> int \<Rightarrow> int \<Rightarrow> int \<Rightarrow> 'o cursor \<Rightarrow> 'o cursor" where
  "paint doc x y w h st = (case lok_paintTile doc x y w h (snd st) of (evs, s) \<Rightarrow> (run_callbacks evs (fst st), s))"

definition post :: "'o lok_document \<Rightarrow> string \<Rightarrow> 'o cursor \<Rightarrow> 'o cursor" where
  "post doc cmd st = (case lok_postUnoCommand doc cmd (snd st) of (evs, s) \<Rightarrow> (run_callbacks evs (fst st), s))"

fun pump_until_updated :: "'o lok_document \<Rightarrow> nat \<Rightarrow> 'o cursor \<Rightarrow> bool \<times> 'o cursor" where
  "pump_until_updated doc 0 st = (cap_updated (fst st), st)"
| "pump_until_updated doc (Suc n) st =
     (if cap_updated (fst st) then (True, st) else pump_until_updated doc n (paint doc 0 0 10 10 st))"

definition pump :: "'o lok_document \<Rightarrow> nat \<Rightarrow> 'o cursor \<Rightarrow> 'o cursor" where
  "pump doc n st = snd (pump_until_updated doc n st)"

definition post_pump :: "'o lok_document \<Rightarrow> string \<Rightarrow> nat \<Rightarrow> 'o cursor \<Rightarrow> 'o cursor" where
  "post_pump doc cmd n st = pump doc n (post doc cmd st)"

definition not_updated :: "'o cursor \<Rightarrow> 'o cursor" where
  "not_updated st = ((fst st)\<lparr>cap_updated := False\<rparr>, snd st)"

subsection \<open>Pages\<close>

definition f64_two :: f64 where "f64_two = 0x4000000000000000"

definition f64_1440 :: f64 where "f64_1440 = 0x4096800000000000"

definition f64_8000 :: f64 where "f64_8000 = 0x40BF400000000000"

definition twip_to_mm :: f64 where
  "twip_to_mm = f64_div f64_inch f64_1440"

definition std_min :: "f64 \<Rightarrow> f64 \<Rightarrow> f64" where
  "std_min a b = (if f64_lt b a then b else a)"

definition std_max :: "f64 \<Rightarrow> f64 \<Rightarrow> f64" where
  "std_max a b = (if f64_lt a b then b else a)"

text \<open>The number of the first page with the ordinate \<open>y\<close>, and its top: page 1 and 0 when there is none.\<close>

fun find_page :: "f64 \<Rightarrow> nat \<Rightarrow> TwipRect list \<Rightarrow> nat \<times> f64" where
  "find_page y p [] = (1, num_0)"
| "find_page y p (r # rs) =
     (if f64_le (tw_y r) y \<and> f64_lt y (f64_add (tw_y r) (tw_h r)) then (p + 1, tw_y r) else find_page y (p + 1) rs)"

text \<open>The rectangles of a selection by page: a map in the order of its keys.\<close>

fun add_part :: "nat \<Rightarrow> TwipRect \<Rightarrow> (nat \<times> TwipRect list) list \<Rightarrow> (nat \<times> TwipRect list) list" where
  "add_part p r [] = [(p, [r])]"
| "add_part p r ((q, rs) # parts) =
     (if q = p then (q, rs @ [r]) # parts
      else if p < q then (p, [r]) # (q, rs) # parts
      else (q, rs) # add_part p r parts)"

definition selection_parts :: "TwipRect list \<Rightarrow> TwipRect list \<Rightarrow> (nat \<times> TwipRect list) list" where
  "selection_parts page_rects sel =
     fold (\<lambda>r. add_part (fst (find_page (f64_add (tw_y r) (f64_div (tw_h r) f64_two)) 0 page_rects)) r) sel []"

definition rect_union :: "TwipRect \<Rightarrow> TwipRect \<Rightarrow> TwipRect" where
  "rect_union u s =
     (let ux1 = std_min (tw_x u) (tw_x s); uy1 = std_min (tw_y u) (tw_y s);
          ux2 = std_max (f64_add (tw_x u) (tw_w u)) (f64_add (tw_x s) (tw_w s));
          uy2 = std_max (f64_add (tw_y u) (tw_h u)) (f64_add (tw_y s) (tw_h s))
      in \<lparr>tw_x = ux1, tw_y = uy1, tw_w = f64_sub ux2 ux1, tw_h = f64_sub uy2 uy1\<rparr>)"

definition bounding_box :: "TwipRect list \<Rightarrow> TwipRect" where
  "bounding_box rects = foldl rect_union (hd rects) (tl rects)"

subsection \<open>Blocks\<close>

definition page_number_of :: "CursorCapture \<Rightarrow> nat \<Rightarrow> i32" where
  "page_number_of cap page = (if 0 < sint (cap_logical_page cap) then cap_logical_page cap else of_nat page)"

definition move_block :: "CursorCapture \<Rightarrow> nat \<Rightarrow> f64 \<Rightarrow> f64 \<Rightarrow> f64 \<Rightarrow> ContentBlock \<Rightarrow> ContentBlock" where
  "move_block cap page page_y x y b =
     b\<lparr>cb_page_index := of_nat page, cb_page_number := page_number_of cap page,
       cb_bbox_x_mm := f64_mul x twip_to_mm,
       cb_bbox_y_mm := std_max num_0 (f64_mul (f64_sub y page_y) twip_to_mm)\<rparr>"

definition size_block :: "f64 \<Rightarrow> f64 \<Rightarrow> ContentBlock \<Rightarrow> ContentBlock" where
  "size_block w h b = b\<lparr>cb_bbox_w_mm := f64_mul w twip_to_mm, cb_bbox_h_mm := f64_mul h twip_to_mm\<rparr>"

text \<open>The runs of a paragraph get its box.\<close>

definition box_runs :: "ContentBlock \<Rightarrow> ContentBlock" where
  "box_runs b = b\<lparr>cb_text_blocks := map (\<lambda>tb. tb\<lparr>tb_bbox_x_mm := cb_bbox_x_mm b, tb_bbox_y_mm := cb_bbox_y_mm b,
     tb_bbox_w_mm := cb_bbox_w_mm b, tb_bbox_h_mm := cb_bbox_h_mm b\<rparr>) (cb_text_blocks b)\<rparr>"

definition part_block :: "TwipRect list \<Rightarrow> CursorCapture \<Rightarrow> ContentBlock \<Rightarrow> nat \<times> TwipRect list \<Rightarrow> ContentBlock" where
  "part_block page_rects cap b part =
     (case part of (page, rects) \<Rightarrow>
        let u = bounding_box rects;
            page_y = (if 0 < page \<and> page \<le> length page_rects then tw_y (page_rects ! (page - 1)) else num_0)
        in size_block (tw_w u) (tw_h u) (move_block cap page page_y (tw_x u) (tw_y u) b))"

definition part_blocks :: "TwipRect list \<Rightarrow> CursorCapture \<Rightarrow> ContentBlock \<Rightarrow> ContentBlock list" where
  "part_blocks page_rects cap b = map (part_block page_rects cap b) (selection_parts page_rects (cap_selection cap))"

definition cursor_block :: "TwipRect list \<Rightarrow> CursorCapture \<Rightarrow> ContentBlock \<Rightarrow> ContentBlock" where
  "cursor_block page_rects cap b =
     (case find_page (cap_y_twip cap) 0 page_rects of (page, page_y) \<Rightarrow>
        move_block cap page page_y (cap_x_twip cap) (cap_y_twip cap) b)"

definition place_paragraph :: "'o lok_document \<Rightarrow> TwipRect list \<Rightarrow> 'o cursor \<Rightarrow> ContentBlock \<Rightarrow> ContentBlock list \<times> 'o cursor" where
  "place_paragraph doc page_rects st b =
     (case pump_until_updated doc 5 (post doc ''.uno:GoToStartOfPara'' st) of (found, st1) \<Rightarrow>
        let st2 = (if found then st1
                   else post_pump doc ''.uno:GoLeft'' 5 (post_pump doc ''.uno:GoRight'' 5 st1))
        in case pump_until_updated doc 15 (post doc ''.uno:GoToEndOfParaSel'' (not_updated st2)) of (selected, st3) \<Rightarrow>
          let cap = fst st3
          in if selected \<and> cap_selection cap \<noteq> [] then (map box_runs (part_blocks page_rects cap b), st3)
             else if cap_has_coords cap \<or> \<not> f64_eq (cap_x_twip cap) num_minus_1
             then ([box_runs (size_block f64_8000 (cap_h_twip cap) (cursor_block page_rects cap b))], st3)
             else ([b], st3))"

definition place_table :: "'o lok_document \<Rightarrow> TwipRect list \<Rightarrow> 'o cursor \<Rightarrow> ContentBlock \<Rightarrow> ContentBlock list \<times> 'o cursor" where
  "place_table doc page_rects st b =
     (case pump_until_updated doc 15 (post doc ''.uno:SelectTable'' st) of (selected, st1) \<Rightarrow>
        if selected \<and> cap_selection (fst st1) \<noteq> [] then (part_blocks page_rects (fst st1) b, st1) else ([b], st1))"

definition place_other :: "'o lok_document \<Rightarrow> TwipRect list \<Rightarrow> 'o cursor \<Rightarrow> ContentBlock \<Rightarrow> ContentBlock list \<times> 'o cursor" where
  "place_other doc page_rects st b =
     (let st1 = pump doc 5 st; cap = fst st1
      in if \<not> cap_has_coords cap then ([b], st1)
         else let b1 = cursor_block page_rects cap b;
                  b2 = (if f64_eq (cb_bbox_w_mm b1) num_0 then b1\<lparr>cb_bbox_w_mm := f64_mul (cap_w_twip cap) twip_to_mm\<rparr> else b1);
                  b3 = (if f64_eq (cb_bbox_h_mm b2) num_0 then b2\<lparr>cb_bbox_h_mm := f64_mul (cap_h_twip cap) twip_to_mm\<rparr> else b2)
              in ([b3], st1))"

text \<open>The cursor goes on to the next paragraph.\<close>

definition go_on :: "'o lok_document \<Rightarrow> 'o cursor \<Rightarrow> 'o cursor" where
  "go_on doc st =
     (case pump_until_updated doc 10 (post doc ''.uno:GoRight'' (post_pump doc ''.uno:GoToEndOfPara'' 5 (not_updated st))) of
        (moved, st1) \<Rightarrow> if moved then st1 else post_pump doc ''.uno:GoDown'' 5 st1)"

definition forget_position :: "'o cursor \<Rightarrow> 'o cursor" where
  "forget_position st =
     ((fst st)\<lparr>cap_updated := False, cap_has_coords := False, cap_x_twip := num_minus_1, cap_y_twip := num_minus_1,
       cap_selection := []\<rparr>, snd st)"

definition place_block :: "'o lok_document \<Rightarrow> TwipRect list \<Rightarrow> 'o cursor \<Rightarrow> ContentBlock \<Rightarrow> ContentBlock list \<times> 'o cursor" where
  "place_block doc page_rects st b =
     (case cb_type b of
        PARAGRAPH \<Rightarrow> place_paragraph doc page_rects (forget_position st) b
      | LIST \<Rightarrow> place_paragraph doc page_rects (forget_position st) b
      | TABLE \<Rightarrow> place_table doc page_rects (forget_position st) b
      | _ \<Rightarrow> place_other doc page_rects (forget_position st) b)"

fun place_blocks :: "'o lok_document \<Rightarrow> TwipRect list \<Rightarrow> 'o cursor \<Rightarrow> ContentBlock list \<Rightarrow> ContentBlock list" where
  "place_blocks doc page_rects st [] = []"
| "place_blocks doc page_rects st (b # bs) =
     (case place_block doc page_rects st b of (out, st1) \<Rightarrow> out @ place_blocks doc page_rects (go_on doc st1) bs)"

definition page_rectangles :: "'o lok_document \<Rightarrow> 'o cursor \<Rightarrow> TwipRect list \<times> 'o cursor" where
  "page_rectangles doc st =
     (case lok_getPartPageRectangles doc (snd st) of (rects, evs, s) \<Rightarrow>
        (parse_rect_list rects [], run_callbacks evs (fst st), s))"

definition cursor_to_start :: "'o lok_document \<Rightarrow> 'o cursor \<Rightarrow> 'o cursor" where
  "cursor_to_start doc st =
     post_pump doc ''.uno:GoToStartOfPara'' 5 (post_pump doc ''.uno:GoUp'' 5 (post_pump doc ''.uno:GoDown'' 5
       (post doc ''.uno:GoToStartOfDoc'' st)))"

definition get_block_positions :: "'o lok_document \<Rightarrow> 'o \<Rightarrow> ContentBlock list \<Rightarrow> ContentBlock list" where
  "get_block_positions doc s blocks =
     (if blocks = [] then []
      else case lok_getDocumentSize doc s of ((w, h), evs, s1) \<Rightarrow>
        let st1 = (run_callbacks evs cursor_capture_new, s1);
            st2 = (if 0 < h then paint doc 0 (h - 200) 200 200 st1 else st1)
        in case page_rectangles doc st2 of (page_rects, st3) \<Rightarrow>
             place_blocks doc page_rects (cursor_to_start doc st3) blocks)"

subsection \<open>No block is lost, and nothing else changes\<close>

definition unplaced :: "ContentBlock \<Rightarrow> ContentBlock" where
  "unplaced b = b\<lparr>cb_page_index := 0, cb_page_number := 0, cb_bbox_x_mm := num_0, cb_bbox_y_mm := num_0,
     cb_bbox_w_mm := num_0, cb_bbox_h_mm := num_0,
     cb_text_blocks := map (\<lambda>tb. tb\<lparr>tb_bbox_x_mm := num_0, tb_bbox_y_mm := num_0, tb_bbox_w_mm := num_0,
       tb_bbox_h_mm := num_0\<rparr>) (cb_text_blocks b)\<rparr>"

lemma unplaced_simps [simp]:
  "unplaced (move_block cap page page_y x y b) = unplaced b" "unplaced (size_block w h b) = unplaced b"
  "unplaced (box_runs b) = unplaced b" "unplaced (cursor_block page_rects cap b) = unplaced b"
  "unplaced (part_block page_rects cap b part) = unplaced b"
  "unplaced (b\<lparr>cb_bbox_w_mm := w\<rparr>) = unplaced b" "unplaced (b\<lparr>cb_bbox_h_mm := h\<rparr>) = unplaced b"
  by (simp_all add: unplaced_def move_block_def size_block_def box_runs_def cursor_block_def part_block_def Let_def
      comp_def split: prod.splits)

lemma add_part_set: "add_part p r parts \<noteq> []"
  by (induction parts rule: add_part.induct) auto

lemma selection_parts_some: "sel \<noteq> [] \<Longrightarrow> selection_parts page_rects sel \<noteq> []"
  by (induction sel rule: rev_induct) (simp_all add: selection_parts_def add_part_set)

text \<open>How often a block may occur.\<close>

definition copies_ok :: "ContentBlock \<Rightarrow> nat \<Rightarrow> bool" where
  "copies_ok b n \<longleftrightarrow> 0 < n \<and> (cb_type b \<in> {PARAGRAPH, LIST, TABLE} \<or> n = 1)"

definition copies :: "ContentBlock \<Rightarrow> ContentBlock list \<Rightarrow> bool" where
  "copies b out \<longleftrightarrow> (\<exists>n. copies_ok b n \<and> map unplaced out = replicate n (unplaced b))"

lemma copies_one: "unplaced b' = unplaced b \<Longrightarrow> copies b [b']"
  unfolding copies_def copies_ok_def by (rule exI [of _ 1]) simp

lemma copies_parts:
  assumes "cap_selection cap \<noteq> []" and "cb_type b \<in> {PARAGRAPH, LIST, TABLE}"
  shows "copies b (part_blocks page_rects cap b)" and "copies b (map box_runs (part_blocks page_rects cap b))"
  unfolding copies_def copies_ok_def
  by (rule exI [of _ "length (selection_parts page_rects (cap_selection cap))"],
      use assms selection_parts_some [OF assms(1), of page_rects] in
        \<open>auto simp: part_blocks_def comp_def map_replicate_const\<close>)+

lemma place_block_copies: "copies b (fst (place_block doc page_rects st b))"
proof -
  have "cb_type b \<in> {PARAGRAPH, LIST, TABLE} \<Longrightarrow> copies b (fst (place_paragraph doc page_rects st b))" for st :: "'a cursor"
    by (auto simp: place_paragraph_def Let_def copies_one copies_parts split: prod.splits)
  moreover have "cb_type b \<in> {PARAGRAPH, LIST, TABLE} \<Longrightarrow> copies b (fst (place_table doc page_rects st b))" for st :: "'a cursor"
    by (auto simp: place_table_def copies_one copies_parts split: prod.splits)
  moreover have "copies b (fst (place_other doc page_rects st b))" for st :: "'a cursor"
    by (simp add: place_other_def Let_def copies_one)
  ultimately show ?thesis by (cases "cb_type b") (simp_all add: place_block_def)
qed

lemma place_blocks_copies:
  "\<exists>ns. list_all2 copies_ok bs ns
     \<and> map unplaced (place_blocks doc page_rects st bs) = concat (map2 (\<lambda>b n. replicate n (unplaced b)) bs ns)"
proof (induction bs arbitrary: st)
  case Nil
  then show ?case by simp
next
  case (Cons b bs)
  obtain out st1 where p: "place_block doc page_rects st b = (out, st1)" by (rule prod.exhaust)
  obtain n where n: "copies_ok b n" "map unplaced out = replicate n (unplaced b)"
    using place_block_copies [of b doc page_rects st] p by (auto simp: copies_def)
  obtain ns where ns: "list_all2 copies_ok bs ns" "map unplaced (place_blocks doc page_rects (go_on doc st1) bs)
      = concat (map2 (\<lambda>b n. replicate n (unplaced b)) bs ns)" using Cons.IH by blast
  show ?case by (rule exI [of _ "n # ns"]) (simp add: p n ns)
qed

lemma positions_copies:
  "\<exists>ns. list_all2 copies_ok blocks ns
     \<and> map unplaced (get_block_positions doc s blocks) = concat (map2 (\<lambda>b n. replicate n (unplaced b)) blocks ns)"
proof (cases "blocks = []")
  case False
  obtain w h evs s1 where "lok_getDocumentSize doc s = ((w, h), evs, s1)" by (metis prod.exhaust)
  moreover obtain page_rects st where "page_rectangles doc
      (if 0 < h then paint doc 0 (h - 200) 200 200 (run_callbacks evs cursor_capture_new, s1)
       else (run_callbacks evs cursor_capture_new, s1)) = (page_rects, st)" by (rule prod.exhaust)
  ultimately have "get_block_positions doc s blocks = place_blocks doc page_rects (cursor_to_start doc st) blocks"
    using False by (simp add: get_block_positions_def Let_def)
  then show ?thesis using place_blocks_copies by simp
qed (simp add: get_block_positions_def)

subsection \<open>Extraction\<close>

text \<open>
  The office: loading a document, preparing it, and saving it in a format, which gives the content of the file when it can be
  opened. \<open>mkstemp\<close> gives the name of a new file.
\<close>

record 'o lok_office =
  lok_documentLoad :: "string \<Rightarrow> 'o option"
  lok_initializeForRendering :: "'o \<Rightarrow> 'o"
  lok_saveAs :: "string \<Rightarrow> string \<Rightarrow> 'o \<Rightarrow> (string option \<times> 'o) option"
  lok_calls :: "'o lok_document"

definition temp_path :: "string option \<Rightarrow> nat \<Rightarrow> string \<Rightarrow> string option" where
  "temp_path mkstemp sz ext =
     (if sz \<le> length ''/tmp/cdsl_doc_XXXXXX'' + length ext + 1 then None else map_option (\<lambda>name. name @ ext) mkstemp)"

definition file_url :: "string \<Rightarrow> string" where
  "file_url path = snprintf_buf 4096 (''file://'' @ path)"

definition cdsl_doc_init :: "(string \<Rightarrow> 'g option) \<Rightarrow> 'g option \<Rightarrow> int \<times> 'g option" where
  "cdsl_doc_init lok_cpp_init g_office =
     (if g_office \<noteq> None then (1, g_office)
      else let g = lok_cpp_init ''/usr/lib/libreoffice/program'' in (if g \<noteq> None then 1 else 0, g))"

definition cdsl_doc_shutdown :: "'g option \<Rightarrow> 'g option" where
  "cdsl_doc_shutdown g_office = None"

definition loaded :: "'o lok_office option \<Rightarrow> string \<Rightarrow> ('o lok_office \<times> 'o) option" where
  "loaded g_office path =
     (case g_office of None \<Rightarrow> None
      | Some office \<Rightarrow> map_option (\<lambda>s. (office, s)) (lok_documentLoad office (file_url path)))"

definition cdsl_doc_extract_text :: "'o lok_office option \<Rightarrow> string option \<Rightarrow> string option \<Rightarrow> string option" where
  "cdsl_doc_extract_text g_office mkstemp path =
     (case path of None \<Rightarrow> None
      | Some p \<Rightarrow> (case temp_path mkstemp 128 ''.txt'' of None \<Rightarrow> None
      | Some tmp_path \<Rightarrow> (case loaded g_office p of None \<Rightarrow> None
      | Some (office, s) \<Rightarrow> (case lok_saveAs office (file_url tmp_path) ''txt'' s of None \<Rightarrow> None
      | Some (content, _) \<Rightarrow> content))))"

definition cdsl_doc_extract_to_json :: "'o lok_office option \<Rightarrow> string option \<Rightarrow> string option \<Rightarrow> string option" where
  "cdsl_doc_extract_to_json g_office mkstemp path =
     (case path of None \<Rightarrow> None
      | Some p \<Rightarrow> (case temp_path mkstemp 128 ''.fodt'' of None \<Rightarrow> None
      | Some fodt_path \<Rightarrow> (case loaded g_office p of None \<Rightarrow> None
      | Some (office, s) \<Rightarrow>
          (case lok_saveAs office (file_url fodt_path) ''FODT'' (lok_initializeForRendering office s) of None \<Rightarrow> None
           | Some (None, _) \<Rightarrow> None
           | Some (Some fodt, s1) \<Rightarrow>
               (case parse_fodt_document fodt of (page, blocks) \<Rightarrow>
                  Some (document_json (page, get_block_positions (lok_calls office) s1 blocks)))))))"

lemma rect_list_every_second: "parse_rect_list (Some (rects_text rs)) out = out @ map twip_rect (every_second rs)"
proof -
  have "parse_rects [] = []" using every_second_parsed [of "[]"] by (simp add: rects_text_def)
  then show ?thesis using every_second_parsed [of rs] by (auto simp: parse_rect_list_def)
qed

text \<open>
  Claim C20. LibreOffice writes rectangles as four numbers each, with semicolons between the rectangles. Of such a
  text every second rectangle is lost: the separator behind a rectangle is skipped, and then the text up to the next
  semicolon, which is the next rectangle.
\<close>

theorem rectangles_every_second:
  "parse_rect_list (Some (rects_text rs)) out = out @ map twip_rect (every_second rs)"
  by (rule rect_list_every_second)

text \<open>
  Claim C19. Whatever LibreOffice answers and however its callbacks come, the search for positions keeps
  every block with its text, style and properties, in order. A paragraph, list item or table may come several times,
  once for each page it is found on; every other block comes once.
\<close>

theorem positions_keep_blocks:
  "\<exists>ns. list_all2 copies_ok blocks ns
     \<and> map unplaced (get_block_positions doc s blocks) = concat (map2 (\<lambda>b n. replicate n (unplaced b)) blocks ns)"
  by (rule positions_copies)


text \<open>An office that has one document and makes no callbacks.\<close>

definition quiet_office :: "string \<Rightarrow> unit lok_office" where
  "quiet_office content =
     \<lparr>lok_documentLoad = (\<lambda>_. Some ()), lok_initializeForRendering = (\<lambda>s. s),
      lok_saveAs = (\<lambda>_ _ s. Some (Some content, s)),
      lok_calls = \<lparr>lok_paintTile = (\<lambda>_ _ _ _ s. ([], s)), lok_postUnoCommand = (\<lambda>_ s. ([], s)),
        lok_getDocumentSize = (\<lambda>s. ((0, 0), [], s)), lok_getPartPageRectangles = (\<lambda>s. (None, [], s))\<rparr>\<rparr>"

lemma quiet_calls:
  "post (lok_calls (quiet_office t)) cmd st = st"
  "pump_until_updated (lok_calls (quiet_office t)) n st = (cap_updated (fst st), st)"
proof -
  show "post (lok_calls (quiet_office t)) cmd st = st" by (cases st) (simp add: post_def quiet_office_def run_callbacks_def)
  show "pump_until_updated (lok_calls (quiet_office t)) n st = (cap_updated (fst st), st)"
  proof (induction n)
    case (Suc n)
    have "paint (lok_calls (quiet_office t)) 0 0 10 10 st = st" by (cases st) (simp add: paint_def quiet_office_def run_callbacks_def)
    then show ?case using Suc.IH by simp
  qed simp
qed

lemma minus_1_eq: "f64_eq num_minus_1 num_minus_1"
  by (simp add: f64_eq_def f64_isnan_def f64_expo_def num_minus_1_def)

lemma quiet_positions: "get_block_positions (lok_calls (quiet_office t)) s blocks = blocks"
proof -
  have "place_blocks (lok_calls (quiet_office t)) rects st blocks = blocks" for rects st
  proof (induction blocks arbitrary: st)
    case (Cons b bs)
    have "fst (place_block (lok_calls (quiet_office t)) rects st b) = [b]"
      by (cases st; cases "cb_type b")
        (simp_all add: place_block_def place_paragraph_def place_table_def place_other_def forget_position_def not_updated_def
          post_pump_def pump_def quiet_calls minus_1_eq Let_def)
    then show ?case using Cons.IH by (simp split: prod.split) (metis fst_conv)
  qed simp
  then show ?thesis by (auto simp: get_block_positions_def Let_def split: prod.split)
qed

definition end_sample :: "xml list" where
  "end_sample =
     [Elem ''office:document'' [] False
        [Elem ''office:meta'' [] False [Elem ''dc:title'' [] False [Chars ''Letter'']],
         Elem ''office:body'' [] False
           [Elem ''office:text'' [] False
              [Elem ''text:p'' [] False [Chars ''R&amp;D'']]]]]"

lemma end_sample_ok: "xmls_ok end_sample" "documents_ok end_sample ([], page_info_new, [])"
  by (simp_all add: end_sample_def name_ok_def value_ok_def name_char_def attr_char_def xml_space_def
      c_isspace_def char_code_def is_chars_def is_markup_def documents_ok.simps document_child_ok_def meta_child_ok_def
      content_child_ok_def body_child_ok_def child_effect_def is_elem_def document_child_tree_def)

lemma end_sample_tree:
  "snd (document_trees end_sample ([], page_info_new, []))
    = (page_info_new\<lparr>pg_title := ''Letter''\<rparr>, [(block_new PARAGRAPH)\<lparr>cb_text_blocks := [text_block text_props_new ''R&D'']\<rparr>])"
  by (simp add: end_sample_def document_child_tree_def child_effect_def meta_child_tree_def text_of_def
      content_child_tree_def body_child_tree_def paragraph_tree_def Let_def)
    (simp add: paragraph_text_def append_text_def style_text_def styled_paragraph_def outline_level_def push_text_def
      resolve_all_styles_def text_block_def block_new_def Let_def)


end
