(* ===== verification/Spec2Isabelle.thy ===== *)
theory Spec2Isabelle
  imports Cdsl_Engines Cdsl_Analysis Cdsl_Json_Total Cdsl_Report_Json Cdsl_Cache Cdsl_Arena Cdsl_Context_Json Cdsl_Ai_Translate Cdsl_Codegen_Correct Cdsl_Visualize Cdsl_Lsp Cdsl_Doc_Position
begin

text \<open>
  A model of the core of cdsl, a rule engine in C: values and operators, the syntax tree and
  templates, schemas with their verifier and analyser, execution contexts, the virtual machine with
  its built-in functions, the tree-walking evaluator, rule execution with reports and their JSON
  text, the JSON parser, the bytecode compiler and machine, rule sets, the compile cache, the
  arena allocator, the bridge to language models, the generators of C code and of graphs, the
  language server, and the document parser with its XML tokenizer.

  \<^bold>\<open>How the program is put together.\<close> A parsed rule (\<open>include/cdsl/ast.h\<close>) is checked against a
  schema (\<open>src/schema/schema.c\<close>) and executed by a VM (\<open>src/vm/vm.c\<close>) over a context of
  variables (\<open>src/vm/context.c\<close>), either by walking the tree (\<open>src/vm/eval.c\<close>) or by compiling
  it to bytecode and running that (\<open>src/vm/bytecode.c\<close>). Both share the operator semantics of
  \<open>src/vm/value_ops.c\<close> and the functions of \<open>src/vm/builtins.c\<close>; schema and context are indexed by
  the hash map of \<open>src/util/hashmap.c\<close>. Rule sets (\<open>src/vm/ruleset.c\<close>) order rules by priority or
  by their dependencies and run them one after the other or on worker threads, each with a VM of its
  own. The compile cache (\<open>src/vm/cache.c\<close>) keeps parsed, verified and compiled rules by their text.

  \<^bold>\<open>Theories.\<close>
  \<^item> \<open>Cdsl_Prelude\<close>: machine integers, the C string and number functions the sources call, shared lemmas.
  \<^item> \<open>Cdsl_Float64\<close>: IEEE doubles as 64-bit words with round-to-nearest-even arithmetic.
  \<^item> \<open>Cdsl_Error\<close> (\<open>util/error.c\<close>), \<open>Cdsl_Hashmap\<close> (\<open>util/hashmap.c\<close>; the interface its clients use is
    the locale \<open>string_map\<close>, which the hash map interprets), \<open>Cdsl_Ast\<close> (\<open>ast/ast.c\<close>).
  \<^item> \<open>Cdsl_Value_Ops\<close>: values and operators; integer results are exact or a reported error.
  \<^item> \<open>Cdsl_Schema\<close>: registration refines a pair of maps; the type checker, the rule verifier and the analyser.
  \<^item> \<open>Cdsl_Context\<close>: the two indexes of a context agree, and it refines a map with write-once variables.
  \<^item> \<open>Cdsl_Vm\<close>, \<open>Cdsl_Builtins\<close>, \<open>Cdsl_Eval\<close>: the VM record, the functions and the evaluator. \<open>evolves\<close>
    is what an evaluation may do to the VM; \<open>sandbox_ok\<close> says the counters are within the quotas.
  \<^item> \<open>Cdsl_Report\<close>: metric and simple rules, \<open>cdsl_vm_execute\<close> and the statistics.
  \<^item> \<open>Cdsl_Semantics\<close>: the reference semantics \<open>den\<close>, which the tree walker implements, and type soundness.
  \<^item> \<open>Cdsl_Analysis\<close>: what the analyser's warnings mean for execution.
  \<^item> \<open>Cdsl_Bytecode\<close>, \<open>Cdsl_Bytecode_Run\<close>: the compiler and the machine.
  \<^item> \<open>Cdsl_Bytecode_Total\<close>: compiled jumps go forward, so compiled code terminates.
  \<^item> \<open>Cdsl_Bytecode_Correct\<close>, \<open>Cdsl_Engines\<close>: compiled expressions compute \<open>den\<close>; the reports of both engines agree.

  \<^item> \<open>Cdsl_Blind\<close>, \<open>Cdsl_Ruleset\<close>: execution does not depend on what a VM has counted before, so
    parallel batches report what sequential ones do; priorities, dependencies, sorting and loading.
  \<^item> \<open>Cdsl_Json\<close>, \<open>Cdsl_Json_Total\<close>, \<open>Cdsl_Json_Text\<close>: the JSON parser, the texts it returns on, and
    the texts it reads exactly; \<open>Cdsl_Report_Json\<close>: the JSON writer, whose output parses back.
  \<^item> \<open>Cdsl_Template\<close>: node constructors, deep copies, the template registry, rules that extend one.
  \<^item> \<open>Cdsl_Cache\<close>: the compile cache as a step relation of interleaved calls; the invariant that
    every step keeps is an instance of the locale \<open>preserved\<close>.
  \<^item> \<open>Cdsl_Context_Json\<close>: loading a JSON document binds the dotted paths of its values.
  \<^item> \<open>Cdsl_Ai_Request\<close>, \<open>Cdsl_Ai_Stream\<close>, \<open>Cdsl_Ai\<close>, \<open>Cdsl_Ai_Translate\<close> (\<open>ai/bridge.c\<close>): requests with
    their two layers of escapes and the shell's reading of the command line, streamed replies, calls,
    caches, providers and reviews, and translation with its prompts and the mock translator.
  \<^item> \<open>Cdsl_Strbuf\<close> (\<open>util/strbuf.h\<close>), \<open>Cdsl_Codegen\<close> (\<open>vm/codegen.c\<close>), \<open>Cdsl_Codegen_Correct\<close>: growing
    buffers, the C text of rules, and what the text of a condition computes when C reads it;
    \<open>Cdsl_Visualize\<close> (\<open>vm/visualize.c\<close>): graphs of rules, in which conditions are trees.
  \<^item> \<open>Cdsl_Lsp\<close> (\<open>tools/cdsl-lsp/main.c\<close>): the language server as a function of its input; framed messages are
    served in order. \<open>Cdsl_Xml\<close> (\<open>doc/xml_parser.cpp\<close>): the tokenizer of documents, which reads rendered
    documents back.
  \<^item> \<open>Cdsl_Doc_Style\<close>, \<open>Cdsl_Doc\<close>, \<open>Cdsl_Doc_Tree\<close>, \<open>Cdsl_Doc_Read\<close> (\<open>doc/doc_parse.cpp\<close>): styles and what they
    inherit, the loops over the tokens of a document, the same reading as functions on trees, and what
    becomes of whole documents. The loops go on while the parser moves forward, which it always does;
    the fuel of a body, one more than \<open>tokens_left\<close>, is enough (\<open>parse_fodt_body_fuel\<close>).
  \<^item> \<open>Cdsl_Doc_Json\<close>, \<open>Cdsl_Doc_Position\<close> (\<open>doc/doc_parse.cpp\<close>): the JSON text of documents, which is read back
    as the value of the document; the rectangles and callbacks of LibreOffice, the positions of blocks, and the
    extraction of a document from its file. No block is lost, but every second rectangle is.
  \<^item> \<open>Cdsl_Arena\<close>: blocks with their memory; pieces never overlap and strings stay intact.

  \<^bold>\<open>State and effects.\<close> Structs are records, enums and tagged unions datatypes, and the VM is threaded
  through every operation; calls of user callbacks are recorded in \<open>vm_action_log\<close> and \<open>vm_trace\<close>.
  The clock, \<open>mktime\<close>, user functions, addresses and the results of undefined conversions are fields
  of the environment \<open>cdsl_env\<close>, a parameter of the model; \<open>env_ok\<close> is the contract of user functions.
  The generated parser \<open>yyparse\<close>, the success of \<open>malloc\<close> in the arena, the file system, the
  schedule of the worker threads, and the transport, caches and providers of the AI bridge are
  parameters as well, and so are LibreOffice and its callbacks.

  \<^bold>\<open>Fuel.\<close> The instruction loop is iterated with fuel, one more than the code length;
  \<open>compiled_code_terminates\<close> proves that this is enough for compiled code. The JSON parser has fuel
  \<open>2 * length + 2\<close>; \<open>json_parse_terminates\<close> proves it enough where each minus sign starts a number,
  and \<open>json_parse_hangs\<close> that without this no fuel is.

  \<^bold>\<open>Not modelled.\<close> Allocation failures other than the memory quota and the arena's, freeing and
  ownership of strings and arrays, locks other than those the cache steps stand for, debug output,
  the generated lexer and parser, the removal of temporary files, and callbacks of LibreOffice outside the calls
  that pump them. The meaning of generated C code is stated for conditions over INT and BOOL
  variables only.
\<close>

end
